(* ===== verification/Prelude.thy ===== *)
theory Prelude
  imports Complex_Main "HOL-Library.AList" "HOL-Library.Multiset"
begin

text \<open>
  Vocabulary shared by every component: the numeric and string conventions of the
  TypeScript sources, the stable comparator sort of \<^verbatim>\<open>Array.prototype.sort\<close>, row-wise
  table updates, and two small contracts (a comparator that orders, a step function
  with an invariant) that the components instantiate.

  Times and counters are integers (epoch milliseconds, counts below \<open>2 ^ 53\<close>, where
  JavaScript numbers are exact).  A string is a list of characters; a character outside
  ASCII stands as its UTF-8 bytes.
\<close>

type_synonym time = int
type_synonym id = string

named_theorems branch_simps \<open>the equations that evaluate one branch of an operation\<close>

section \<open>Numbers and strings\<close>

text \<open>The JavaScript remainder takes the sign of the dividend.\<close>

definition js_rem :: "int \<Rightarrow> int \<Rightarrow> int" where
  "js_rem a b = sgn a * (\<bar>a\<bar> mod \<bar>b\<bar>)"

lemma js_rem_nonneg: "0 \<le> a \<Longrightarrow> 0 < b \<Longrightarrow> js_rem a b = a mod b"
  by (cases "a = 0") (auto simp: js_rem_def sgn_if)

lemma abs_js_rem: "0 < b \<Longrightarrow> \<bar>js_rem a b\<bar> < b"
  by (auto simp: js_rem_def abs_mult)

lemma js_rem_mod: "0 < b \<Longrightarrow> js_rem a b mod b = a mod b"
  by (cases "a = 0") (auto simp: js_rem_def sgn_if abs_if mod_minus_eq)

text \<open>
  \<open>localeCompare\<close> on identifiers.  The identifiers the code compares are made of lower-case
  ASCII letters, digits and dashes, on which the collation order is the order of the
  character codes.
\<close>

fun locale_compare :: "string \<Rightarrow> string \<Rightarrow> int" where
  "locale_compare [] [] = 0"
| "locale_compare [] (_ # _) = -1"
| "locale_compare (_ # _) [] = 1"
| "locale_compare (c # cs) (d # ds) =
     (if (of_char c :: int) < of_char d then -1
      else if (of_char d :: int) < of_char c then 1
      else locale_compare cs ds)"

lemma locale_compare_refl [simp]: "locale_compare s s = 0"
  by (induction s) auto

lemma of_char_int_eq: "(of_char c :: int) = of_char d \<Longrightarrow> c = d"
  by (metis of_char_eq_iff)

lemma locale_compare_eq_0 [simp]: "locale_compare s t = 0 \<longleftrightarrow> s = t"
  by (induction s t rule: locale_compare.induct)
    (auto dest: of_char_int_eq simp: not_less intro: of_char_int_eq)

lemma locale_compare_flip: "locale_compare t s = - locale_compare s t"
  by (induction s t rule: locale_compare.induct) auto

lemma locale_compare_trans:
  "locale_compare s t \<le> 0 \<Longrightarrow> locale_compare t u \<le> 0 \<Longrightarrow> locale_compare s u \<le> 0"
proof (induction s u arbitrary: t rule: locale_compare.induct)
  case (3 c cs)
  then show ?case by (cases t) auto
next
  case (4 c cs d ds)
  then show ?case by (cases t) (auto split: if_splits)
qed auto

text \<open>\<open>needle\<close> occurs in \<open>hay\<close>: \<^verbatim>\<open>String.prototype.includes\<close>.\<close>

fun is_prefix :: "'a list \<Rightarrow> 'a list \<Rightarrow> bool" where
  "is_prefix [] _ = True"
| "is_prefix (_ # _) [] = False"
| "is_prefix (x # xs) (y # ys) = (x = y \<and> is_prefix xs ys)"

fun str_includes :: "'a list \<Rightarrow> 'a list \<Rightarrow> bool" where
  "str_includes [] needle = is_prefix needle []"
| "str_includes (y # ys) needle = (is_prefix needle (y # ys) \<or> str_includes ys needle)"

lemma is_prefix_append [simp]: "is_prefix xs (xs @ ys)"
  by (induction xs) auto

lemma is_prefix_iff: "is_prefix xs ys \<longleftrightarrow> (\<exists>zs. ys = xs @ zs)"
  by (induction xs ys rule: is_prefix.induct) auto

lemma includes_iff: "str_includes hay needle \<longleftrightarrow> (\<exists>us vs. hay = us @ needle @ vs)"
proof (induction hay)
  case Nil
  then show ?case by (auto simp: is_prefix_iff)
next
  case (Cons y ys)
  have "(\<exists>us vs. y # ys = us @ needle @ vs) \<longleftrightarrow>
        (\<exists>vs. y # ys = needle @ vs) \<or> (\<exists>us vs. ys = us @ needle @ vs)"
    by (auto simp: Cons_eq_append_conv[of y ys] append_eq_Cons_conv)
  with Cons show ?case by (auto simp: is_prefix_iff)
qed

text \<open>Decimal digits: the string of a number without a fraction.\<close>

fun show_nat :: "nat \<Rightarrow> string" where
  "show_nat n = (if n < 10 then [char_of (48 + n)] else show_nat (n div 10) @ [char_of (48 + n mod 10)])"

declare show_nat.simps [simp del]

definition show_int :: "int \<Rightarrow> string" where
  "show_int i = (if i < 0 then CHR ''-'' # show_nat (nat (- i)) else show_nat (nat i))"

text \<open>\<^verbatim>\<open>String.prototype.trim\<close> on the white space of ASCII.\<close>

definition is_space :: "char \<Rightarrow> bool" where
  "is_space c \<longleftrightarrow> (let n = (of_char c :: nat) in n = 32 \<or> 9 \<le> n \<and> n \<le> 13)"

definition js_trim :: "string \<Rightarrow> string" where
  "js_trim s = rev (dropWhile is_space (rev (dropWhile is_space s)))"

section \<open>The stable comparator sort\<close>

text \<open>
  \<^verbatim>\<open>xs.sort(cmp)\<close> is stable: an element goes before the first one it does not follow.
\<close>

fun ins_cmp :: "('a \<Rightarrow> 'a \<Rightarrow> int) \<Rightarrow> 'a \<Rightarrow> 'a list \<Rightarrow> 'a list" where
  "ins_cmp cmp x [] = [x]"
| "ins_cmp cmp x (y # ys) = (if cmp x y \<le> 0 then x # y # ys else y # ins_cmp cmp x ys)"

definition js_sort :: "('a \<Rightarrow> 'a \<Rightarrow> int) \<Rightarrow> 'a list \<Rightarrow> 'a list" where
  "js_sort cmp xs = foldr (ins_cmp cmp) xs []"

lemma js_sort_simps [simp]:
  "js_sort cmp [] = []"
  "js_sort cmp (x # xs) = ins_cmp cmp x (js_sort cmp xs)"
  by (simp_all add: js_sort_def)

lemma mset_ins_cmp [simp]: "mset (ins_cmp cmp x ys) = add_mset x (mset ys)"
  by (induction ys) auto

lemma mset_js_sort [simp]: "mset (js_sort cmp xs) = mset xs"
  by (induction xs) auto

lemma set_js_sort [simp]: "set (js_sort cmp xs) = set xs"
  by (metis mset_js_sort set_mset_mset)

lemma length_js_sort [simp]: "length (js_sort cmp xs) = length xs"
  by (metis mset_js_sort size_mset)

lemma js_sort_eq_Nil [simp]: "js_sort cmp xs = [] \<longleftrightarrow> xs = []"
  by (metis length_0_conv length_js_sort)

lemma distinct_js_sort [simp]: "distinct (map f (js_sort cmp xs)) = distinct (map f xs)"
  by (metis mset_js_sort mset_map mset_eq_imp_distinct_iff)

text \<open>The contract a comparator has to meet for the result to be ordered.\<close>

locale comparator =
  fixes cmp :: "'a \<Rightarrow> 'a \<Rightarrow> int"
  assumes cmp_total: "cmp x y \<le> 0 \<or> cmp y x \<le> 0"
    and cmp_trans: "cmp x y \<le> 0 \<Longrightarrow> cmp y z \<le> 0 \<Longrightarrow> cmp x z \<le> 0"
begin

lemma ins_cmp_sorted:
  "sorted_wrt (\<lambda>x y. cmp x y \<le> 0) ys \<Longrightarrow> sorted_wrt (\<lambda>x y. cmp x y \<le> 0) (ins_cmp cmp x ys)"
proof (induction ys)
  case (Cons y ys)
  have *: "set (ins_cmp cmp x ys) = insert x (set ys)"
    by (metis mset_ins_cmp set_mset_add_mset_insert set_mset_mset)
  show ?case
    using Cons cmp_total [of x y] by (auto simp: * intro: cmp_trans)
qed simp

lemma sort_sorted: "sorted_wrt (\<lambda>x y. cmp x y \<le> 0) (js_sort cmp xs)"
  by (induction xs) (auto intro: ins_cmp_sorted)

lemma sort_head_least:
  assumes "js_sort cmp xs = y # ys" and "x \<in> set xs"
  shows "cmp y x \<le> 0"
proof (cases "x = y")
  case True
  then show ?thesis using cmp_total [of y y] by auto
next
  case False
  have "x \<in> set (y # ys)" using assms set_js_sort by metis
  with False have "x \<in> set ys" by simp
  then show ?thesis using sort_sorted [of xs] assms(1) by simp
qed

lemma sort_head_mem: "js_sort cmp xs = y # ys \<Longrightarrow> y \<in> set xs"
  by (metis list.set_intros(1) set_js_sort)

end

section \<open>Step functions with an invariant\<close>

text \<open>
  The contract of a component that reacts to events one at a time: its initial state
  satisfies the invariant and every admissible event keeps it.
\<close>

locale invariant_system =
  fixes init :: 's and step :: "'s \<Rightarrow> 'e \<Rightarrow> 's" and ok :: "'e \<Rightarrow> bool" and inv :: "'s \<Rightarrow> bool"
  assumes inv_init: "inv init"
    and inv_step: "inv s \<Longrightarrow> ok e \<Longrightarrow> inv (step s e)"
begin

lemma inv_foldl: "inv s \<Longrightarrow> list_all ok es \<Longrightarrow> inv (foldl step s es)"
  by (induction es arbitrary: s) (auto intro: inv_step)

lemma inv_reachable: "list_all ok es \<Longrightarrow> inv (foldl step init es)"
  by (rule inv_foldl [OF inv_init])

end

section \<open>Table rows\<close>

text \<open>
  A table is the list of its rows in insertion order.  An \<open>UPDATE ... WHERE p\<close> rewrites the
  matching rows in place, a \<open>DELETE ... WHERE p\<close> drops them, and the number of matching
  rows is what the driver reports as \<open>changes\<close>.
\<close>

definition upd_where :: "('r \<Rightarrow> bool) \<Rightarrow> ('r \<Rightarrow> 'r) \<Rightarrow> 'r list \<Rightarrow> 'r list" where
  "upd_where p f rows = map (\<lambda>r. if p r then f r else r) rows"

definition del_where :: "('r \<Rightarrow> bool) \<Rightarrow> 'r list \<Rightarrow> 'r list" where
  "del_where p rows = filter (\<lambda>r. \<not> p r) rows"

definition count_where :: "('r \<Rightarrow> bool) \<Rightarrow> 'r list \<Rightarrow> int" where
  "count_where p rows = int (length (filter p rows))"

definition first_row :: "('r \<Rightarrow> bool) \<Rightarrow> 'r list \<Rightarrow> 'r option" where
  "first_row p rows = List.find p rows"

lemma upd_where_simps [simp]:
  "upd_where p f [] = []"
  "upd_where p f (r # rows) = (if p r then f r else r) # upd_where p f rows"
  by (simp_all add: upd_where_def)

lemma length_upd_where [simp]: "length (upd_where p f rows) = length rows"
  by (simp add: upd_where_def)

lemma set_upd_where: "set (upd_where p f rows) = (\<lambda>r. if p r then f r else r) ` set rows"
  by (simp add: upd_where_def)

lemma upd_where_map_same:
  "(\<And>r. g (f r) = g r) \<Longrightarrow> map g (upd_where p f rows) = map g rows"
  by (simp add: upd_where_def)

lemma image_upd_where:
  assumes "\<And>r. g (f r) = g r"
  shows "g ` set (upd_where p f rows) = g ` set rows"
  using upd_where_map_same [of g f p rows, OF assms] by (metis list.set_map)

lemma upd_where_none: "(\<And>r. r \<in> set rows \<Longrightarrow> \<not> p r) \<Longrightarrow> upd_where p f rows = rows"
  by (simp add: upd_where_def map_idI)

lemma set_del_where [simp]: "set (del_where p rows) = {r \<in> set rows. \<not> p r}"
  by (auto simp: del_where_def)

lemma del_where_simps [simp]:
  "del_where p [] = []"
  "del_where p (r # rows) = (if p r then del_where p rows else r # del_where p rows)"
  by (simp_all add: del_where_def)

lemma count_where_simps [simp]:
  "count_where p [] = 0"
  "count_where p (r # rows) = (if p r then 1 else 0) + count_where p rows"
  by (simp_all add: count_where_def)

lemma count_where_nonneg [simp]: "0 \<le> count_where p rows"
  by (simp add: count_where_def)

lemma count_where_append [simp]: "count_where p (xs @ ys) = count_where p xs + count_where p ys"
  by (simp add: count_where_def)

lemma count_where_0: "count_where p rows = 0 \<longleftrightarrow> (\<forall>r \<in> set rows. \<not> p r)"
  by (auto simp: count_where_def filter_empty_conv)

lemma first_row_Some: "first_row p rows = Some r \<Longrightarrow> r \<in> set rows \<and> p r"
  by (induction rows) (auto simp: first_row_def split: if_splits)

lemma first_row_None: "first_row p rows = None \<longleftrightarrow> (\<forall>r \<in> set rows. \<not> p r)"
  by (auto simp: first_row_def find_None_iff)

lemma first_row_key:
  assumes "distinct (map key rows)" and "r \<in> set rows"
  shows "first_row (\<lambda>r'. key r' = key r) rows = Some r"
  using assms
proof (induction rows)
  case (Cons a rows)
  then show ?case by (auto simp: first_row_def image_iff)
qed simp

lemma filter_key:
  assumes "distinct (map key rows)" and "r \<in> set rows"
  shows "filter (\<lambda>q. key q = key r) rows = [r]"
  using assms
proof (induction rows)
  case (Cons a rows)
  then show ?case by (auto simp: filter_empty_conv image_iff split: if_splits)
qed simp

lemma first_row_upd:
  assumes "\<And>r. p (f r) = p r"
  shows "first_row p (upd_where q f rows) = map_option (\<lambda>r. if q r then f r else r) (first_row p rows)"
  by (induction rows) (auto simp: first_row_def assms)

lemma first_row_append:
  "first_row p (xs @ ys) = (case first_row p xs of None \<Rightarrow> first_row p ys | Some r \<Rightarrow> Some r)"
  by (induction xs) (auto simp: first_row_def)

end
