(* ===== verification/Database.thy ===== *)
theory Database
  imports Prelude
begin

text \<open>
  The manager's database (\<^verbatim>\<open>src/db/schema.ts\<close>, \<^verbatim>\<open>src/db/index.ts\<close>): one record type per table,
  one field per column (a nullable column is an \<open>option\<close>), and the state \<open>db\<close> that holds
  the rows of every table in insertion order with the next value of each
  \<^verbatim>\<open>AUTOINCREMENT\<close> key.

  The connection runs with \<^verbatim>\<open>foreign_keys = ON\<close>, so the declarations of the migrations are part
  of the behaviour: an insert with a dangling reference or a duplicate key throws
  (\<open>None\<close>), and deleting a row of \<open>agent\<close> deletes or clears what refers to it.
\<close>

section \<open>Rows\<close>

record user_row =
  user_id :: int
  user_username :: string
  user_passwordHash :: string
  user_createdAt :: time
  user_mustChangePassword :: int

record session_row =
  session_id :: id
  session_userId :: int
  session_expiresAt :: time
  session_createdAt :: time

record agent_row =
  agent_id :: id
  agent_name :: string
  agent_workspacePath :: string
  agent_endpoint :: id
  agent_preset :: "string option"
  agent_gitRemote :: "string option"
  agent_public :: int
  agent_createdAt :: time

record cron_row =
  cron_id :: id
  cron_agentId :: id
  cron_name :: string
  cron_schedule :: string
  cron_timezone :: string
  cron_prompt :: string
  cron_enabled :: int
  cron_consecutiveFailures :: int
  cron_lastRunAt :: "time option"
  cron_createdAt :: time
  cron_lastError :: "string option"
  cron_disabledReason :: "string option"
  cron_lastState :: "string option"

record chat_row =
  chat_id :: id
  chat_agentId :: id
  chat_dshSessionId :: "id option"
  chat_title :: "string option"
  chat_createdAt :: time
  chat_lastActiveAt :: time
  chat_removedAt :: "time option"
  chat_accessModeOverride :: "string option"
  chat_accessMode :: "string option"
  chat_apiKeyId :: "id option"
  chat_externalUserId :: "string option"
  chat_serviceId :: "id option"

record api_key_row =
  key_id :: id
  key_name :: string
  key_keyHash :: string
  key_scopes :: "string list"
  key_scopeServices :: "string list"
  key_quotaRunsDay :: "int option"
  key_rateLimitRpm :: int
  key_maxConcurrency :: int
  key_expiresAt :: "time option"
  key_revokedAt :: "time option"
  key_lastUsedAt :: "time option"
  key_createdBy :: string
  key_createdAt :: time

datatype run_state = Pending | Running | Done | Failed | Missed

datatype run_trigger = Manual | CronTrigger | Api | Capture | Brain

record run_row =
  run_id :: id
  run_agentId :: id
  run_apiKeyId :: "id option"
  run_chatId :: "id option"
  run_sourceChatId :: "id option"
  run_conflict :: "string option"
  run_cronId :: "id option"
  run_dshSessionId :: "id option"
  run_trigger :: run_trigger
  run_idempotencyKey :: "string option"
  run_state :: run_state
  run_resultSummary :: "string option"
  run_startedAt :: time
  run_endedAt :: "time option"
  run_error :: "string option"
  run_commitHash :: "string option"

record notification_row =
  ntf_id :: id
  ntf_kind :: string
  ntf_title :: string
  ntf_body :: string
  ntf_link :: "string option"
  ntf_at :: time
  ntf_read :: int

record audit_row =
  audit_id :: int
  audit_at :: time
  audit_actor :: string
  audit_kind :: string
  audit_detail :: string

datatype approval_state = ApPending | ApResolved

record approval_row =
  apq_id :: id
  apq_runId :: id
  apq_agentId :: id
  apq_approvalId :: id
  apq_toolName :: string
  apq_reason :: "string option"
  apq_state :: approval_state
  apq_outcome :: "string option"
  apq_createdAt :: time
  apq_resolvedAt :: "time option"

record usage_row =
  usage_id :: int
  usage_runId :: id
  usage_provider :: "string option"
  usage_model :: "string option"
  usage_inputTokens :: int
  usage_outputTokens :: int
  usage_cacheRead :: "int option"
  usage_cacheWrite :: "int option"
  usage_reasoningTokens :: "int option"
  usage_cost :: "int option"
  usage_peakCost :: "int option"
  usage_at :: time

record agent_machine_row =
  mach_id :: id
  mach_hostname :: string
  mach_os :: string
  mach_arch :: string
  mach_nodeVersion :: string
  mach_tokenHash :: string
  mach_joinedAt :: time
  mach_lastSeenAt :: "time option"
  mach_revokedAt :: "time option"
  mach_prevTokenHash :: "string option"
  mach_prevSetAt :: "time option"
  mach_agentVersion :: "string option"

record join_token_row =
  join_tokenHash :: string
  join_expiresAt :: time
  join_usedAt :: "time option"
  join_createdAt :: time

datatype command_state = CmdPending | CmdDelivered | CmdDone | CmdFailed

record agent_command_row =
  cmd_id :: int
  cmd_agentId :: id
  cmd_type :: string
  cmd_payload :: string
  cmd_state :: command_state
  cmd_result :: "string option"
  cmd_createdAt :: time
  cmd_deliveredAt :: "time option"
  cmd_doneAt :: "time option"

record agent_metric_row =
  metric_id :: int
  metric_agentId :: id
  metric_at :: time
  metric_cpuPercent :: "int option"
  metric_memTotal :: "int option"
  metric_memUsed :: "int option"
  metric_diskTotal :: "int option"
  metric_diskFree :: "int option"
  metric_uptime :: "int option"
  metric_platform :: "string option"

section \<open>The database\<close>

record db =
  db_users :: "user_row list"
  db_sessions :: "session_row list"
  db_agents :: "agent_row list"
  db_crons :: "cron_row list"
  db_chats :: "chat_row list"
  db_apiKeys :: "api_key_row list"
  db_runs :: "run_row list"
  db_notifications :: "notification_row list"
  db_audit :: "audit_row list"
  db_approvals :: "approval_row list"
  db_usage :: "usage_row list"
  db_machines :: "agent_machine_row list"
  db_joinTokens :: "join_token_row list"
  db_commands :: "agent_command_row list"
  db_metrics :: "agent_metric_row list"
  db_nextAudit :: int
  db_nextUsage :: int
  db_nextCommand :: int
  db_nextMetric :: int

definition empty_db :: db where
  "empty_db = \<lparr>db_users = [], db_sessions = [], db_agents = [], db_crons = [], db_chats = [],
     db_apiKeys = [], db_runs = [], db_notifications = [], db_audit = [], db_approvals = [],
     db_usage = [], db_machines = [], db_joinTokens = [], db_commands = [], db_metrics = [],
     db_nextAudit = 1, db_nextUsage = 1, db_nextCommand = 1, db_nextMetric = 1\<rparr>"

text \<open>
  The references of a row of \<open>run\<close> and \<open>chat\<close>: the agent must exist, a chat or a key that is
  named must exist.
\<close>

definition ref_ok :: "id set \<Rightarrow> id option \<Rightarrow> bool" where
  "ref_ok ids r = (case r of None \<Rightarrow> True | Some i \<Rightarrow> i \<in> ids)"

definition run_refs_ok :: "db \<Rightarrow> run_row \<Rightarrow> bool" where
  "run_refs_ok d r \<longleftrightarrow>
     run_agentId r \<in> agent_id ` set (db_agents d) \<and>
     ref_ok (chat_id ` set (db_chats d)) (run_chatId r) \<and>
     ref_ok (chat_id ` set (db_chats d)) (run_sourceChatId r) \<and>
     ref_ok (key_id ` set (db_apiKeys d)) (run_apiKeyId r)"

text \<open>The unique index \<^verbatim>\<open>run_idem\<close>: a key is used once per agent.\<close>

definition run_idem_free :: "db \<Rightarrow> run_row \<Rightarrow> bool" where
  "run_idem_free d r \<longleftrightarrow> run_idempotencyKey r = None \<or>
     (run_agentId r, run_idempotencyKey r) \<notin>
       (\<lambda>q. (run_agentId q, run_idempotencyKey q)) ` set (db_runs d)"

definition insert_run :: "db \<Rightarrow> run_row \<Rightarrow> db option" where
  "insert_run d r =
     (if run_id r \<notin> run_id ` set (db_runs d) \<and> run_refs_ok d r \<and> run_idem_free d r
      then Some (d\<lparr>db_runs := db_runs d @ [r]\<rparr>) else None)"

text \<open>
  The unique indexes on \<open>chat\<close>: \<^verbatim>\<open>chat_session\<close> (one chat per host session) and
  \<^verbatim>\<open>chat_api_key_user_live\<close> (one live chat per key and external user).
\<close>

definition chat_live :: "chat_row \<Rightarrow> bool" where
  "chat_live c \<longleftrightarrow> chat_removedAt c = None"

definition chat_anchor :: "chat_row \<Rightarrow> id option \<times> string option" where
  "chat_anchor c = (chat_apiKeyId c, chat_externalUserId c)"

definition anchored :: "chat_row \<Rightarrow> bool" where
  "anchored c \<longleftrightarrow> chat_live c \<and> chat_apiKeyId c \<noteq> None \<and> chat_externalUserId c \<noteq> None"

definition chat_indexes_ok :: "chat_row list \<Rightarrow> bool" where
  "chat_indexes_ok cs \<longleftrightarrow>
     distinct (map chat_dshSessionId (filter (\<lambda>c. chat_dshSessionId c \<noteq> None) cs)) \<and>
     distinct (map chat_anchor (filter anchored cs))"

definition chat_refs_ok :: "db \<Rightarrow> chat_row \<Rightarrow> bool" where
  "chat_refs_ok d c \<longleftrightarrow>
     chat_agentId c \<in> agent_id ` set (db_agents d) \<and>
     ref_ok (key_id ` set (db_apiKeys d)) (chat_apiKeyId c)"

definition insert_chat :: "db \<Rightarrow> chat_row \<Rightarrow> db option" where
  "insert_chat d c =
     (if chat_id c \<notin> chat_id ` set (db_chats d) \<and> chat_refs_ok d c \<and>
         chat_indexes_ok (db_chats d @ [c])
      then Some (d\<lparr>db_chats := db_chats d @ [c]\<rparr>) else None)"

text \<open>An update of \<open>chat\<close> that may collide with an index throws when it does.\<close>

definition write_chats :: "db \<Rightarrow> chat_row list \<Rightarrow> db option" where
  "write_chats d cs = (if chat_indexes_ok cs then Some (d\<lparr>db_chats := cs\<rparr>) else None)"

text \<open>
  \<^verbatim>\<open>DELETE FROM agent\<close> with the referential actions of the migrations: \<open>chat\<close>, \<open>cron\<close> and
  \<open>run\<close> rows of the agent go (\<^verbatim>\<open>ON DELETE CASCADE\<close>), \<open>usage_record\<close> rows follow their run, and
  a surviving run that pointed to a deleted chat loses the pointer
  (\<^verbatim>\<open>ON DELETE SET NULL\<close>).
\<close>

definition clear_ref :: "id set \<Rightarrow> id option \<Rightarrow> id option" where
  "clear_ref gone r = (case r of None \<Rightarrow> None | Some i \<Rightarrow> if i \<in> gone then None else Some i)"

definition delete_agent_row :: "db \<Rightarrow> id \<Rightarrow> db" where
  "delete_agent_row d aid =
     (let goneChats = chat_id ` {c \<in> set (db_chats d). chat_agentId c = aid};
          goneRuns = run_id ` {r \<in> set (db_runs d). run_agentId r = aid}
      in if aid \<notin> agent_id ` set (db_agents d) then d else
         d\<lparr>db_agents := del_where (\<lambda>a. agent_id a = aid) (db_agents d),
           db_crons := del_where (\<lambda>c. cron_agentId c = aid) (db_crons d),
           db_chats := del_where (\<lambda>c. chat_agentId c = aid) (db_chats d),
           db_runs := map (\<lambda>r. r\<lparr>run_chatId := clear_ref goneChats (run_chatId r),
                                 run_sourceChatId := clear_ref goneChats (run_sourceChatId r)\<rparr>)
                        (del_where (\<lambda>r. run_agentId r = aid) (db_runs d)),
           db_usage := del_where (\<lambda>u. usage_runId u \<in> goneRuns) (db_usage d)\<rparr>)"

text \<open>\<^verbatim>\<open>notify\<close> (\<^verbatim>\<open>src/notify.ts\<close>) and \<^verbatim>\<open>recordAudit\<close> (\<^verbatim>\<open>src/audit.ts\<close>) append one row.\<close>

definition notify :: "db \<Rightarrow> id \<Rightarrow> time \<Rightarrow> string \<Rightarrow> string \<Rightarrow> string \<Rightarrow> string option \<Rightarrow> db" where
  "notify d uuid now kind title body link =
     d\<lparr>db_notifications := db_notifications d @
        [\<lparr>ntf_id = uuid, ntf_kind = kind, ntf_title = title, ntf_body = body, ntf_link = link,
          ntf_at = now, ntf_read = 0\<rparr>]\<rparr>"

definition recordAudit :: "db \<Rightarrow> time \<Rightarrow> string \<Rightarrow> string \<Rightarrow> string \<Rightarrow> db" where
  "recordAudit d now actor kind detail =
     d\<lparr>db_audit := db_audit d @ [\<lparr>audit_id = db_nextAudit d, audit_at = now,
          audit_actor = actor, audit_kind = kind, audit_detail = detail\<rparr>],
       db_nextAudit := db_nextAudit d + 1\<rparr>"

section \<open>Lemmas\<close>

lemma insert_run_Some:
  "insert_run d r = Some d' \<Longrightarrow> d' = d\<lparr>db_runs := db_runs d @ [r]\<rparr> \<and>
     run_id r \<notin> run_id ` set (db_runs d) \<and> run_refs_ok d r"
  by (auto simp: insert_run_def split: if_splits)

lemma insert_chat_Some:
  "insert_chat d c = Some d' \<Longrightarrow> d' = d\<lparr>db_chats := db_chats d @ [c]\<rparr> \<and>
     chat_id c \<notin> chat_id ` set (db_chats d) \<and> chat_refs_ok d c \<and> chat_indexes_ok (db_chats d')"
  by (auto simp: insert_chat_def split: if_splits)

lemma write_chats_Some:
  "write_chats d cs = Some d' \<longleftrightarrow> chat_indexes_ok cs \<and> d' = d\<lparr>db_chats := cs\<rparr>"
  by (auto simp: write_chats_def)

lemma distinct_map_filter_sub:
  assumes "distinct (map g (filter P xs))" and "\<And>x. x \<in> set xs \<Longrightarrow> Q x \<Longrightarrow> P x"
  shows "distinct (map g (filter Q xs))"
  using assms by (induction xs) (auto split: if_splits)

text \<open>
  Rewriting rows without touching session ids and anchors, and without reviving a row,
  keeps the indexes: the shape of every archiving, touching and renaming update.
\<close>

lemma chat_indexes_upd:
  assumes "chat_indexes_ok cs"
    and "\<And>c. chat_dshSessionId (f c) = chat_dshSessionId c"
    and "\<And>c. chat_anchor (f c) = chat_anchor c"
    and "\<And>c. chat_live (f c) \<Longrightarrow> chat_live c"
  shows "chat_indexes_ok (upd_where p f cs)"
proof -
  let ?g = "\<lambda>c. if p c then f c else c"
  have s: "map chat_dshSessionId (filter (\<lambda>c. chat_dshSessionId c \<noteq> None) (map ?g cs)) =
           map chat_dshSessionId (filter (\<lambda>c. chat_dshSessionId c \<noteq> None) cs)"
    using assms(2) by (induction cs) auto
  have a: "map chat_anchor (filter anchored (map ?g cs)) =
           map chat_anchor (filter (\<lambda>c. anchored (?g c)) cs)"
    using assms(3) by (induction cs) auto
  have "distinct (map chat_anchor (filter (\<lambda>c. anchored (?g c)) cs))"
    by (rule distinct_map_filter_sub [where P = anchored])
      (use assms in \<open>auto simp: chat_indexes_ok_def anchored_def chat_anchor_def split: if_splits\<close>)
  with assms(1) s a show ?thesis by (simp add: chat_indexes_ok_def upd_where_def)
qed

lemma delete_agent_row_frame [simp]:
  "db_apiKeys (delete_agent_row d aid) = db_apiKeys d"
  "db_machines (delete_agent_row d aid) = db_machines d"
  "db_commands (delete_agent_row d aid) = db_commands d"
  by (simp_all add: delete_agent_row_def Let_def)

lemma delete_agent_row_agents:
  "agent_id ` set (db_agents (delete_agent_row d aid)) = agent_id ` set (db_agents d) - {aid}"
  by (auto simp: delete_agent_row_def Let_def)

end
