(* ===== verification/Dispatch.thy ===== *)
theory Dispatch
  imports Prelude
begin

text \<open>
  Choosing the agent that answers a new conversation (\<^verbatim>\<open>src/services/dispatch.ts\<close>): the
  candidates are the online workers below their session capacity, ordered by sessions,
  queue depth, latest latency (unknown last), sessions of the same key, and a rotation
  that walks through the ties.
\<close>

section \<open>Data\<close>

record worker_facts =
  wf_agentId :: id
  wf_online :: bool
  wf_sessions :: int
  wf_queueDepth :: int
  wf_lastTurnMs :: "int option"

record dispatch_request =
  dr_workers :: "worker_facts list"
  dr_maxSessionsPerAgent :: int
  dr_keySessionsByAgent :: "id \<rightharpoonup> int"
  dr_rotationSeed :: "int option"

datatype no_worker_reason = NoWorkerOnline | AllFull

datatype dispatch_result =
    Picked (pk_agentId: id) (pk_sessions: int) (pk_full: "id list")
  | NotPicked (np_reason: no_worker_reason) (np_capacity: int) (np_inUse: int)

section \<open>Operations\<close>

definition max_safe_integer :: int where
  "max_safe_integer = 9007199254740991"

definition compareLatency :: "int option \<Rightarrow> int option \<Rightarrow> int" where
  "compareLatency a b =
     (let left = (case a of None \<Rightarrow> max_safe_integer | Some x \<Rightarrow> x);
          right = (case b of None \<Rightarrow> max_safe_integer | Some x \<Rightarrow> x)
      in if left = right then 0 else left - right)"

record candidates_result =
  cr_candidates :: "worker_facts list"
  cr_offline :: "id list"
  cr_full :: "id list"

fun dispatchCandidates_loop :: "int \<Rightarrow> worker_facts list \<Rightarrow> candidates_result \<Rightarrow> candidates_result" where
  "dispatchCandidates_loop cap [] acc = acc"
| "dispatchCandidates_loop cap (w # ws) acc =
     (if \<not> wf_online w then
        dispatchCandidates_loop cap ws (acc\<lparr>cr_offline := cr_offline acc @ [wf_agentId w]\<rparr>)
      else if wf_sessions w \<ge> cap then
        dispatchCandidates_loop cap ws (acc\<lparr>cr_full := cr_full acc @ [wf_agentId w]\<rparr>)
      else dispatchCandidates_loop cap ws (acc\<lparr>cr_candidates := cr_candidates acc @ [w]\<rparr>))"

definition dispatchCandidates :: "dispatch_request \<Rightarrow> candidates_result" where
  "dispatchCandidates req =
     dispatchCandidates_loop (dr_maxSessionsPerAgent req) (dr_workers req)
       \<lparr>cr_candidates = [], cr_offline = [], cr_full = []\<rparr>"

definition key_sessions :: "(id \<rightharpoonup> int) \<Rightarrow> id \<Rightarrow> int" where
  "key_sessions ks a = (case ks a of None \<Rightarrow> 0 | Some n \<Rightarrow> n)"

text \<open>The comparator of \<^verbatim>\<open>pickWorker\<close>, on workers paired with their rotated index.\<close>

definition compare_workers ::
  "(id \<rightharpoonup> int) \<Rightarrow> worker_facts \<times> int \<Rightarrow> worker_facts \<times> int \<Rightarrow> int" where
  "compare_workers ks a b =
     (let bySessions = wf_sessions (fst a) - wf_sessions (fst b);
          byQueue = wf_queueDepth (fst a) - wf_queueDepth (fst b);
          byLatency = compareLatency (wf_lastTurnMs (fst a)) (wf_lastTurnMs (fst b));
          byKey = key_sessions ks (wf_agentId (fst a)) - key_sessions ks (wf_agentId (fst b))
      in if bySessions \<noteq> 0 then bySessions
         else if byQueue \<noteq> 0 then byQueue
         else if byLatency \<noteq> 0 then byLatency
         else if byKey \<noteq> 0 then byKey
         else snd a - snd b)"

definition rotated_workers :: "worker_facts list \<Rightarrow> int \<Rightarrow> (worker_facts \<times> int) list" where
  "rotated_workers cs offset =
     map (\<lambda>i. (cs ! i, js_rem (int i - offset + int (length cs)) (int (length cs))))
       [0..<length cs]"

definition pickWorker :: "dispatch_request \<Rightarrow> dispatch_result" where
  "pickWorker req =
     (let r = dispatchCandidates req;
          capacity = int (length (dr_workers req)) * dr_maxSessionsPerAgent req;
          inUse = foldl (\<lambda>s w. s + wf_sessions w) 0 (dr_workers req)
      in if cr_candidates r = [] then
           NotPicked (if 0 < length (dr_workers req) \<and>
                         length (cr_offline r) = length (dr_workers req)
                      then NoWorkerOnline else AllFull) capacity inUse
         else
           let offset = js_rem (case dr_rotationSeed req of None \<Rightarrow> 0 | Some s \<Rightarrow> s)
                          (int (length (cr_candidates r)));
               ordered = js_sort (compare_workers (dr_keySessionsByAgent req))
                           (rotated_workers (cr_candidates r) offset)
           in case ordered of
                [] \<Rightarrow> NotPicked AllFull capacity inUse
              | (w, _) # _ \<Rightarrow> Picked (wf_agentId w) (wf_sessions w) (cr_full r))"

section \<open>The candidates\<close>

definition eligible :: "dispatch_request \<Rightarrow> worker_facts \<Rightarrow> bool" where
  "eligible req w \<longleftrightarrow> wf_online w \<and> wf_sessions w < dr_maxSessionsPerAgent req"

lemma dispatchCandidates_loop_eq:
  "dispatchCandidates_loop cap ws acc =
     acc\<lparr>cr_candidates := cr_candidates acc @ filter (\<lambda>w. wf_online w \<and> wf_sessions w < cap) ws,
       cr_offline := cr_offline acc @ map wf_agentId (filter (\<lambda>w. \<not> wf_online w) ws),
       cr_full := cr_full acc @
         map wf_agentId (filter (\<lambda>w. wf_online w \<and> wf_sessions w \<ge> cap) ws)\<rparr>"
  by (induction cap ws acc rule: dispatchCandidates_loop.induct) auto

lemma cr_candidates_eq: "cr_candidates (dispatchCandidates req) = filter (eligible req) (dr_workers req)"
  by (simp add: dispatchCandidates_def dispatchCandidates_loop_eq eligible_def [abs_def])

lemma cr_offline_eq:
  "cr_offline (dispatchCandidates req) = map wf_agentId (filter (\<lambda>w. \<not> wf_online w) (dr_workers req))"
  by (simp add: dispatchCandidates_def dispatchCandidates_loop_eq)

lemma cr_full_eq:
  "cr_full (dispatchCandidates req) =
     map wf_agentId (filter (\<lambda>w. wf_online w \<and> wf_sessions w \<ge> dr_maxSessionsPerAgent req)
       (dr_workers req))"
  by (simp add: dispatchCandidates_def dispatchCandidates_loop_eq)

lemma all_offline_iff:
  "length (cr_offline (dispatchCandidates req)) = length (dr_workers req) \<longleftrightarrow>
     (\<forall>w \<in> set (dr_workers req). \<not> wf_online w)"
  unfolding cr_offline_eq length_map
  by (metis (mono_tags, lifting) filter_True filter_id_conv length_filter_less linorder_neq_iff)

section \<open>The order\<close>

text \<open>
  The rank of a worker: what the comparator compares before it falls back to the rotated
  index.  The comparator is the lexicographic order of rank and rotated index.
\<close>

definition rank :: "(id \<rightharpoonup> int) \<Rightarrow> worker_facts \<Rightarrow> int \<times> int \<times> int \<times> int" where
  "rank ks w = (wf_sessions w, wf_queueDepth w,
     (case wf_lastTurnMs w of None \<Rightarrow> max_safe_integer | Some x \<Rightarrow> x),
     key_sessions ks (wf_agentId w))"

definition lex4_less :: "int \<times> int \<times> int \<times> int \<Rightarrow> int \<times> int \<times> int \<times> int \<Rightarrow> bool" where
  "lex4_less p q = (case p of (a, b, c, d) \<Rightarrow> case q of (a', b', c', d') \<Rightarrow>
     a < a' \<or> a = a' \<and> (b < b' \<or> b = b' \<and> (c < c' \<or> c = c' \<and> d < d')))"

lemma compare_workers_le:
  "compare_workers ks a b \<le> 0 \<longleftrightarrow>
     lex4_less (rank ks (fst a)) (rank ks (fst b)) \<or>
     rank ks (fst a) = rank ks (fst b) \<and> snd a \<le> snd b"
  by (auto simp: compare_workers_def compareLatency_def rank_def lex4_less_def Let_def)

lemma lex4_less_trans: "lex4_less p q \<Longrightarrow> lex4_less q r \<Longrightarrow> lex4_less p r"
  by (auto simp: lex4_less_def split: prod.splits)

lemma lex4_less_linear: "lex4_less p q \<or> p = q \<or> lex4_less q p"
  by (cases p; cases q) (auto simp: lex4_less_def)

lemma lex4_less_irrefl [simp]: "\<not> lex4_less p p"
  by (cases p) (auto simp: lex4_less_def)

interpretation worker_order: comparator "compare_workers ks" for ks
  by unfold_locales
    (use lex4_less_linear in \<open>fastforce simp: compare_workers_le\<close>,
     auto simp: compare_workers_le intro: lex4_less_trans)

section \<open>The chosen worker\<close>

lemma rotated_workers_mem:
  "(w, r) \<in> set (rotated_workers cs offset) \<longleftrightarrow>
     (\<exists>i < length cs. w = cs ! i \<and>
        r = js_rem (int i - offset + int (length cs)) (int (length cs)))"
  by (auto simp: rotated_workers_def)

lemma fst_rotated_workers: "fst ` set (rotated_workers cs offset) = set cs"
proof -
  have "map fst (rotated_workers cs offset) = cs"
    by (simp add: rotated_workers_def comp_def map_nth)
  then have "set (map fst (rotated_workers cs offset)) = set cs" by simp
  then show ?thesis by simp
qed

lemma rotated_workers_eq_Nil [simp]: "rotated_workers cs offset = [] \<longleftrightarrow> cs = []"
  by (simp add: rotated_workers_def)

lemma pickWorker_cases:
  obtains (none) "filter (eligible req) (dr_workers req) = []"
      "pickWorker req = NotPicked
         (if 0 < length (dr_workers req) \<and> (\<forall>w \<in> set (dr_workers req). \<not> wf_online w)
          then NoWorkerOnline else AllFull)
         (int (length (dr_workers req)) * dr_maxSessionsPerAgent req)
         (foldl (\<lambda>s w. s + wf_sessions w) 0 (dr_workers req))"
  | (some) w r rest where
      "js_sort (compare_workers (dr_keySessionsByAgent req))
         (rotated_workers (filter (eligible req) (dr_workers req))
            (js_rem (case dr_rotationSeed req of None \<Rightarrow> 0 | Some s \<Rightarrow> s)
               (int (length (filter (eligible req) (dr_workers req)))))) = (w, r) # rest"
      "pickWorker req = Picked (wf_agentId w) (wf_sessions w) (cr_full (dispatchCandidates req))"
proof (cases "filter (eligible req) (dr_workers req) = []")
  case True
  with none show thesis
    by (simp add: pickWorker_def Let_def cr_candidates_eq all_offline_iff)
next
  case False
  let ?cs = "filter (eligible req) (dr_workers req)"
  let ?s = "js_sort (compare_workers (dr_keySessionsByAgent req))
         (rotated_workers ?cs (js_rem (case dr_rotationSeed req of None \<Rightarrow> 0 | Some s \<Rightarrow> s)
               (int (length ?cs))))"
  obtain w r rest where s: "?s = (w, r) # rest"
    using False by (cases ?s) auto
  from some [OF s] False s show thesis
    by (simp add: pickWorker_def Let_def cr_candidates_eq)
qed

text \<open>The head of the order is an eligible worker that no eligible worker beats.\<close>

lemma sorted_head_best:
  assumes "js_sort (compare_workers ks) (rotated_workers cs offset) = (w, r) # rest"
  shows "w \<in> set cs" and "v \<in> set cs \<Longrightarrow> \<not> lex4_less (rank ks v) (rank ks w)"
proof -
  have mem: "(w, r) \<in> set (rotated_workers cs offset)"
    using assms by (rule worker_order.sort_head_mem)
  then show "w \<in> set cs" using fst_rotated_workers by force
  assume "v \<in> set cs"
  then obtain q where "(v, q) \<in> set (rotated_workers cs offset)"
    using fst_rotated_workers by force
  with assms have "compare_workers ks (w, r) (v, q) \<le> 0"
    by (rule worker_order.sort_head_least)
  then show "\<not> lex4_less (rank ks v) (rank ks w)"
    by (auto simp: compare_workers_le dest: lex4_less_trans)
qed

lemma pickWorker_chosen:
  assumes "pickWorker req = Picked a n full"
  obtains w where "w \<in> set (dr_workers req)" "eligible req w" "a = wf_agentId w" "n = wf_sessions w"
    "\<And>v. v \<in> set (dr_workers req) \<Longrightarrow> eligible req v \<Longrightarrow>
       \<not> lex4_less (rank (dr_keySessionsByAgent req) v) (rank (dr_keySessionsByAgent req) w)"
    "full = cr_full (dispatchCandidates req)"
  using assms
proof (cases rule: pickWorker_cases [of req])
  case (some w r rest)
  from sorted_head_best [OF some(1)] some(2) assms that show thesis by auto
qed simp

text \<open>
  Ties rotate: the worker at position \<open>i\<close> gets the rotated index \<open>i - offset\<close> modulo the
  number of candidates, which is zero exactly at position \<open>offset\<close>.
\<close>

lemma rotated_index_zero:
  assumes "0 \<le> offset" "offset < int n" "i < n"
  shows "0 \<le> js_rem (int i - offset + int n) (int n)"
    and "js_rem (int i - offset + int n) (int n) \<le> 0 \<longleftrightarrow> int i = offset"
proof -
  have e: "js_rem (int i - offset + int n) (int n) = (int i - offset) mod int n"
    using assms by (simp add: js_rem_nonneg)
  show "0 \<le> js_rem (int i - offset + int n) (int n)" using assms e by simp
  show "js_rem (int i - offset + int n) (int n) \<le> 0 \<longleftrightarrow> int i = offset"
  proof (cases "offset \<le> int i")
    case True
    then show ?thesis using assms e by simp
  next
    case False
    have "(int i - offset) mod int n = (int i - offset + int n) mod int n" by simp
    also have "\<dots> = int i - offset + int n"
      by (rule mod_pos_pos_trivial) (use False assms in linarith)+
    finally show ?thesis using assms e False by linarith
  qed
qed

lemma pickWorker_all_tied:
  assumes cs: "cs = filter (eligible req) (dr_workers req)" and ne: "cs \<noteq> []"
    and tied: "\<And>v w. v \<in> set cs \<Longrightarrow> w \<in> set cs \<Longrightarrow>
      rank (dr_keySessionsByAgent req) v = rank (dr_keySessionsByAgent req) w"
    and seed: "dr_rotationSeed req = Some s" "0 \<le> s"
  shows "pickWorker req =
    Picked (wf_agentId (cs ! nat (s mod int (length cs))))
      (wf_sessions (cs ! nat (s mod int (length cs)))) (cr_full (dispatchCandidates req))"
  using ne
proof (cases rule: pickWorker_cases [of req])
  case none
  with cs ne show ?thesis by simp
next
  case (some w r rest)
  let ?n = "int (length cs)" and ?ks = "dr_keySessionsByAgent req"
  let ?o = "s mod ?n"
  have n: "0 < ?n" using ne by simp
  then have o: "0 \<le> ?o" "?o < ?n" by simp_all
  have srt: "js_sort (compare_workers ?ks) (rotated_workers cs ?o) = (w, r) # rest"
    using some(1) cs seed n by (simp add: js_rem_nonneg)
  have "(w, r) \<in> set (rotated_workers cs ?o)"
    using srt by (rule worker_order.sort_head_mem)
  then obtain i where i: "i < length cs" "w = cs ! i" "r = js_rem (int i - ?o + ?n) ?n"
    by (auto simp: rotated_workers_mem)
  let ?j = "nat ?o"
  have j: "?j < length cs" "int ?j = ?o" using o by auto
  have "(cs ! ?j, js_rem (int ?j - ?o + ?n) ?n) \<in> set (rotated_workers cs ?o)"
    using j(1) by (auto simp: rotated_workers_mem)
  with srt have "compare_workers ?ks (w, r) (cs ! ?j, js_rem (int ?j - ?o + ?n) ?n) \<le> 0"
    by (rule worker_order.sort_head_least)
  moreover have "rank ?ks w = rank ?ks (cs ! ?j)" using tied i j by auto
  ultimately have "r \<le> js_rem (int ?j - ?o + ?n) ?n" by (simp add: compare_workers_le)
  also have "\<dots> \<le> 0" using rotated_index_zero(2) [OF o j(1)] j(2) by simp
  finally have "int i = ?o" using i rotated_index_zero(2) [OF o i(1)] by simp
  then have "i = ?j" by linarith
  with i have "w = cs ! ?j" by simp
  with some(2) show ?thesis by simp
qed

lemma pickWorker_refused:
  "pickWorker req = NotPicked reason cap use \<Longrightarrow>
     (\<forall>w \<in> set (dr_workers req). \<not> eligible req w) \<and>
     (reason = NoWorkerOnline \<longleftrightarrow>
        dr_workers req \<noteq> [] \<and> (\<forall>w \<in> set (dr_workers req). \<not> wf_online w)) \<and>
     cap = int (length (dr_workers req)) * dr_maxSessionsPerAgent req"
  by (cases rule: pickWorker_cases [of req]) (auto simp: filter_empty_conv split: if_splits)

lemma pickWorker_none_iff:
  "(\<exists>reason cap use. pickWorker req = NotPicked reason cap use) \<longleftrightarrow>
     (\<forall>w \<in> set (dr_workers req). \<not> eligible req w)"
proof (cases rule: pickWorker_cases [of req])
  case none
  then show ?thesis by (auto simp: filter_empty_conv)
next
  case (some w r rest)
  from sorted_head_best(1) [OF some(1)] some(2) show ?thesis by auto
qed

section \<open>Properties\<close>

definition demo_worker :: "string \<Rightarrow> bool \<Rightarrow> int \<Rightarrow> int option \<Rightarrow> worker_facts" where
  "demo_worker a on n lat = \<lparr>wf_agentId = a, wf_online = on, wf_sessions = n, wf_queueDepth = 0,
     wf_lastTurnMs = lat\<rparr>"

definition demo_request :: "worker_facts list \<Rightarrow> int \<Rightarrow> dispatch_request" where
  "demo_request ws seed = \<lparr>dr_workers = ws, dr_maxSessionsPerAgent = 4,
     dr_keySessionsByAgent = Map.empty, dr_rotationSeed = Some seed\<rparr>"

lemmas demo_defs = demo_worker_def demo_request_def eligible_def rank_def key_sessions_def
  pickWorker_def dispatchCandidates_def rotated_workers_def js_rem_def Let_def
  compare_workers_def compareLatency_def max_safe_integer_def lex4_less_def upt_rec

text \<open>
  Claim C1. A worker that is picked is one of the request's workers, online and below the
  session cap, and no other eligible worker has a smaller rank (sessions, then queue depth,
  then last latency with unknown last, then sessions of the same key); the reported
  exclusions are exactly the online workers at the cap.
\<close>

theorem dispatch_optimal:
  assumes "pickWorker req = Picked a n full"
  shows "\<exists>w \<in> set (dr_workers req). wf_agentId w = a \<and> wf_sessions w = n \<and> wf_online w \<and>
      n < dr_maxSessionsPerAgent req \<and>
      (\<forall>v \<in> set (dr_workers req). wf_online v \<and> wf_sessions v < dr_maxSessionsPerAgent req \<longrightarrow>
         \<not> lex4_less (rank (dr_keySessionsByAgent req) v) (rank (dr_keySessionsByAgent req) w)) \<and>
      full = map wf_agentId (filter (\<lambda>v. wf_online v \<and> wf_sessions v \<ge> dr_maxSessionsPerAgent req)
        (dr_workers req))"
  using assms by (rule pickWorker_chosen) (auto simp: eligible_def cr_full_eq)

theorem dispatch_optimal_witness:
  "\<not> lex4_less (rank Map.empty (demo_worker ''c'' True 1 None))
     (rank Map.empty (demo_worker ''b'' True 1 (Some 900)))"
proof -
  let ?req = "demo_request [demo_worker ''a'' False 0 None, demo_worker ''b'' True 1 (Some 900),
    demo_worker ''c'' True 1 None, demo_worker ''d'' True 4 None] 7"
  have "pickWorker ?req = Picked ''b'' 1 [''d'']" by (simp add: demo_defs)
  from dispatch_optimal [OF this] show ?thesis by (auto simp: demo_request_def demo_worker_def)
qed

text \<open>
  When all eligible workers have the same rank, a non-negative rotation seed \<open>s\<close>
  picks the one at position \<open>s mod n\<close> of the \<open>n\<close> eligible workers: successive seeds walk through
  them in order.
\<close>

theorem dispatch_rotation:
  assumes "filter (eligible req) (dr_workers req) = cs" and "cs \<noteq> []"
    and "\<And>v w. v \<in> set cs \<Longrightarrow> w \<in> set cs \<Longrightarrow>
      rank (dr_keySessionsByAgent req) v = rank (dr_keySessionsByAgent req) w"
    and "dr_rotationSeed req = Some s" and "0 \<le> s"
  shows "\<exists>full. pickWorker req = Picked (wf_agentId (cs ! nat (s mod int (length cs))))
      (wf_sessions (cs ! nat (s mod int (length cs)))) full"
  using pickWorker_all_tied [OF assms(1) [symmetric] assms(2,3,4,5)] by blast

theorem dispatch_rotation_witness:
  "\<exists>full. pickWorker (demo_request [demo_worker ''a'' True 0 None, demo_worker ''b'' True 0 None,
     demo_worker ''c'' True 0 None] 8) = Picked ''c'' 0 full"
proof -
  let ?ws = "[demo_worker ''a'' True 0 None, demo_worker ''b'' True 0 None,
     demo_worker ''c'' True 0 None]"
  have "\<exists>full. pickWorker (demo_request ?ws 8) = Picked (wf_agentId (?ws ! nat (8 mod int (length ?ws))))
      (wf_sessions (?ws ! nat (8 mod int (length ?ws)))) full"
    by (rule dispatch_rotation)
      (auto simp: demo_request_def demo_worker_def eligible_def rank_def key_sessions_def)
  then show ?thesis by (simp add: demo_worker_def eval_nat_numeral)
qed

text \<open>
  A request is refused exactly when no worker is eligible; the reason is
  "no worker online" exactly when there are workers and all of them are offline, and the
  reported capacity and usage are those of all the workers.
\<close>

theorem dispatch_refusal:
  "pickWorker req = NotPicked reason cap used \<longleftrightarrow>
     (\<forall>w \<in> set (dr_workers req). \<not> (wf_online w \<and> wf_sessions w < dr_maxSessionsPerAgent req)) \<and>
     reason = (if dr_workers req \<noteq> [] \<and> (\<forall>w \<in> set (dr_workers req). \<not> wf_online w)
               then NoWorkerOnline else AllFull) \<and>
     cap = int (length (dr_workers req)) * dr_maxSessionsPerAgent req \<and>
     used = sum_list (map wf_sessions (dr_workers req))"
proof -
  have sum: "foldl (\<lambda>s w. s + wf_sessions w) k ws = k + sum_list (map wf_sessions ws)" for k ws
    by (induction ws arbitrary: k) auto
  show ?thesis
  proof (cases rule: pickWorker_cases [of req])
    case none
    then show ?thesis by (auto simp: filter_empty_conv eligible_def sum)
  next
    case (some w r rest)
    from sorted_head_best(1) [OF some(1)] some(2) show ?thesis by (auto simp: eligible_def)
  qed
qed

theorem dispatch_refusal_witness:
  "pickWorker (demo_request [demo_worker ''a'' True 4 None, demo_worker ''b'' False 1 None] 0) =
     NotPicked AllFull 8 5"
  by (subst dispatch_refusal) (simp add: demo_request_def demo_worker_def)

end
