(* ===== verification/Placement.thy ===== *)
theory Placement
  imports Prelude
begin

text \<open>
  Placing the agents of a service on machines (\<^verbatim>\<open>src/services/placement.ts\<close>): hard
  constraints that veto a machine, a score that ranks the rest, and the loop that places one
  agent per round and counts it.

  Scores are computed over the rationals; \<^verbatim>\<open>Math.round\<close> is \<open>\<lfloor>x + 1/2\<rfloor>\<close>.
\<close>

section \<open>Data\<close>

record machine_facts =
  mf_id :: id
  mf_online :: bool
  mf_agentCount :: int
  mf_services :: "id list"
  mf_hasPrivateAgents :: bool
  mf_sessions :: int
  mf_cpuFreePercent :: "rat option"
  mf_memFreeBytes :: "int option"
  mf_diskFreeBytes :: "int option"
  mf_knowledgeAffinity :: bool

record thresholds =
  th_minFreeCpuPercent :: rat
  th_minFreeMemBytes :: int
  th_minFreeDiskBytes :: int

definition DEFAULT_THRESHOLDS :: thresholds where
  "DEFAULT_THRESHOLDS = \<lparr>th_minFreeCpuPercent = 20, th_minFreeMemBytes = 1500000000,
     th_minFreeDiskBytes = 5000000000\<rparr>"

definition DEFAULT_MAX_AGENTS_PER_MACHINE :: int where
  "DEFAULT_MAX_AGENTS_PER_MACHINE = 4"

datatype reject_reason =
    Offline | PrivateAgentsPresent | OtherServicePresent | MachineFull
  | InsufficientCpu | InsufficientMemory | InsufficientDisk | NotInPinList

datatype strategy = Spread | Pack | Pin

record placement_request =
  pr_serviceId :: id
  pr_count :: int
  pr_machines :: "machine_facts list"
  pr_strategy :: "strategy option"
  pr_pinMachines :: "id list option"
  pr_maxAgentsPerMachine :: "int option"
  pr_thresholds :: "thresholds option"

record placement =
  pl_machineId :: id
  pl_score :: int
  pl_metricsKnown :: bool

record placement_plan =
  pp_placements :: "placement list"
  pp_shortfall :: int
  pp_rejections :: "(id \<times> reject_reason) list"

record resolved_options =
  ro_strategy :: strategy
  ro_pinMachines :: "id list"
  ro_maxAgentsPerMachine :: int
  ro_thresholds :: thresholds

section \<open>Operations\<close>

definition resolveOptions :: "placement_request \<Rightarrow> resolved_options" where
  "resolveOptions req = \<lparr>
     ro_strategy = (case pr_strategy req of None \<Rightarrow> Spread | Some s \<Rightarrow> s),
     ro_pinMachines = (case pr_pinMachines req of None \<Rightarrow> [] | Some p \<Rightarrow> p),
     ro_maxAgentsPerMachine =
       (case pr_maxAgentsPerMachine req of None \<Rightarrow> DEFAULT_MAX_AGENTS_PER_MACHINE | Some m \<Rightarrow> m),
     ro_thresholds = (case pr_thresholds req of None \<Rightarrow> DEFAULT_THRESHOLDS | Some t \<Rightarrow> t)\<rparr>"

definition metricsKnown :: "machine_facts \<Rightarrow> bool" where
  "metricsKnown facts \<longleftrightarrow> mf_cpuFreePercent facts \<noteq> None \<and> mf_memFreeBytes facts \<noteq> None \<and>
     mf_diskFreeBytes facts \<noteq> None"

definition below :: "'a::linorder option \<Rightarrow> 'a \<Rightarrow> bool" where
  "below v least = (case v of None \<Rightarrow> False | Some x \<Rightarrow> x < least)"

definition blockingReason ::
  "machine_facts \<Rightarrow> id \<Rightarrow> resolved_options \<Rightarrow> int \<Rightarrow> reject_reason option" where
  "blockingReason facts serviceId opts agentsOnMachine =
     (if \<not> mf_online facts then Some Offline
      else if mf_hasPrivateAgents facts then Some PrivateAgentsPresent
      else if list_ex (\<lambda>i. i \<noteq> serviceId) (mf_services facts) then Some OtherServicePresent
      else if agentsOnMachine \<ge> ro_maxAgentsPerMachine opts then Some MachineFull
      else if ro_strategy opts = Pin \<and> mf_id facts \<notin> set (ro_pinMachines opts)
        then Some NotInPinList
      else if below (mf_cpuFreePercent facts) (th_minFreeCpuPercent (ro_thresholds opts))
        then Some InsufficientCpu
      else if below (mf_memFreeBytes facts) (th_minFreeMemBytes (ro_thresholds opts))
        then Some InsufficientMemory
      else if below (mf_diskFreeBytes facts) (th_minFreeDiskBytes (ro_thresholds opts))
        then Some InsufficientDisk
      else None)"

definition or0 :: "'a::zero option \<Rightarrow> 'a" where
  "or0 v = (case v of None \<Rightarrow> 0 | Some x \<Rightarrow> x)"

definition scoreMachine :: "machine_facts \<Rightarrow> id \<Rightarrow> resolved_options \<Rightarrow> int \<Rightarrow> int" where
  "scoreMachine facts serviceId opts agentsOnMachine =
     (if \<not> metricsKnown facts then -1000 else
      let t = ro_thresholds opts;
          score = or0 (mf_cpuFreePercent facts)
            + min 4 (of_int (or0 (mf_memFreeBytes facts)) / of_int (th_minFreeMemBytes t)) * 10
            + min 4 (of_int (or0 (mf_diskFreeBytes facts)) / of_int (th_minFreeDiskBytes t)) * 5
            - of_int (mf_sessions facts);
          score' = (if ro_strategy opts \<noteq> Pack
            then score - of_int (int (length (filter (\<lambda>i. i = serviceId) (mf_services facts))) * 400)
                       - of_int (agentsOnMachine * 400)
            else score);
          score'' = (if mf_knowledgeAffinity facts then score' + 50 else score')
      in \<lfloor>score'' + 1 / 2\<rfloor>)"

definition compare_placements :: "placement \<Rightarrow> placement \<Rightarrow> int" where
  "compare_placements a b =
     (if pl_score b = pl_score a then locale_compare (pl_machineId a) (pl_machineId b)
      else pl_score b - pl_score a)"

type_synonym agent_counts = "id \<Rightarrow> int option"

definition used_on :: "agent_counts \<Rightarrow> machine_facts \<Rightarrow> int" where
  "used_on counts facts =
     (case counts (mf_id facts) of None \<Rightarrow> mf_agentCount facts | Some n \<Rightarrow> n)"

text \<open>The inner loop over the machines: who is a candidate, who is rejected and why.\<close>

fun scan_machines ::
  "id \<Rightarrow> resolved_options \<Rightarrow> agent_counts \<Rightarrow> machine_facts list \<Rightarrow>
     placement list \<times> (id \<times> reject_reason) list" where
  "scan_machines sid opts counts [] = ([], [])"
| "scan_machines sid opts counts (facts # rest) =
     (let (cands, rejs) = scan_machines sid opts counts rest; used = used_on counts facts in
      case blockingReason facts sid opts used of
        Some reason \<Rightarrow> (cands, (mf_id facts, reason) # rejs)
      | None \<Rightarrow> (\<lparr>pl_machineId = mf_id facts, pl_score = scoreMachine facts sid opts used,
                   pl_metricsKnown = metricsKnown facts\<rparr> # cands, rejs))"

text \<open>
  One round per wanted agent; \<open>reported\<close> keeps the rejections of the first round only.
\<close>

fun place_rounds ::
  "nat \<Rightarrow> placement_request \<Rightarrow> resolved_options \<Rightarrow> agent_counts \<Rightarrow> bool \<Rightarrow>
     placement list \<times> (id \<times> reject_reason) list" where
  "place_rounds 0 req opts counts reported = ([], [])"
| "place_rounds (Suc n) req opts counts reported =
     (let (cands, rejs) = scan_machines (pr_serviceId req) opts counts (pr_machines req);
          rejections = (if reported then [] else rejs)
      in case js_sort compare_placements cands of
           [] \<Rightarrow> ([], rejections)
         | chosen # _ \<Rightarrow>
             let m = pl_machineId chosen;
                 counts' = counts(m \<mapsto> (case counts m of None \<Rightarrow> 0 | Some k \<Rightarrow> k) + 1);
                 (ps, rs) = place_rounds n req opts counts' True
             in (chosen # ps, rejections @ rs))"

definition initial_counts :: "machine_facts list \<Rightarrow> agent_counts" where
  "initial_counts ms = map_of (rev (map (\<lambda>m. (mf_id m, mf_agentCount m)) ms))"

definition planPlacement :: "placement_request \<Rightarrow> placement_plan" where
  "planPlacement req =
     (let (ps, rs) = place_rounds (nat (max 0 (pr_count req))) req (resolveOptions req)
                       (initial_counts (pr_machines req)) False
      in \<lparr>pp_placements = ps, pp_shortfall = max 0 (pr_count req - int (length ps)),
          pp_rejections = rs\<rparr>)"

section \<open>The order of the candidates\<close>

interpretation placement_order: comparator compare_placements
proof
  fix x y z :: placement
  show "compare_placements x y \<le> 0 \<or> compare_placements y x \<le> 0"
    using locale_compare_flip [of "pl_machineId x" "pl_machineId y"]
    by (auto simp: compare_placements_def)
  show "compare_placements x y \<le> 0 \<Longrightarrow> compare_placements y z \<le> 0 \<Longrightarrow> compare_placements x z \<le> 0"
    by (auto simp: compare_placements_def split: if_splits intro: locale_compare_trans)
qed

section \<open>One round\<close>

definition allowed :: "placement_request \<Rightarrow> agent_counts \<Rightarrow> machine_facts \<Rightarrow> bool" where
  "allowed req counts m \<longleftrightarrow>
     blockingReason m (pr_serviceId req) (resolveOptions req) (used_on counts m) = None"

definition candidate :: "placement_request \<Rightarrow> agent_counts \<Rightarrow> machine_facts \<Rightarrow> placement" where
  "candidate req counts m = \<lparr>pl_machineId = mf_id m,
     pl_score = scoreMachine m (pr_serviceId req) (resolveOptions req) (used_on counts m),
     pl_metricsKnown = metricsKnown m\<rparr>"

lemma scan_machines_eq:
  "scan_machines (pr_serviceId req) (resolveOptions req) counts ms =
     (map (candidate req counts) (filter (allowed req counts) ms),
      map (\<lambda>m. (mf_id m, the (blockingReason m (pr_serviceId req) (resolveOptions req)
                              (used_on counts m))))
        (filter (\<lambda>m. \<not> allowed req counts m) ms))"
  by (induction ms) (auto simp: allowed_def candidate_def Let_def split: option.splits)

lemma place_rounds_Suc_cases:
  obtains (stuck) "filter (allowed req counts) (pr_machines req) = []"
      "fst (place_rounds (Suc n) req (resolveOptions req) counts rep) = []"
  | (placed) m where "m \<in> set (pr_machines req)" "allowed req counts m"
      "fst (place_rounds (Suc n) req (resolveOptions req) counts rep) =
         candidate req counts m #
         fst (place_rounds n req (resolveOptions req)
           (counts(mf_id m \<mapsto> (case counts (mf_id m) of None \<Rightarrow> 0 | Some k \<Rightarrow> k) + 1)) True)"
      "\<And>m'. m' \<in> set (pr_machines req) \<Longrightarrow> allowed req counts m' \<Longrightarrow>
         pl_score (candidate req counts m') \<le> pl_score (candidate req counts m)"
proof (cases "filter (allowed req counts) (pr_machines req) = []")
  case True
  with stuck show thesis by (simp add: scan_machines_eq Let_def)
next
  case False
  let ?cs = "map (candidate req counts) (filter (allowed req counts) (pr_machines req))"
  obtain c cs where srt: "js_sort compare_placements ?cs = c # cs"
    using False by (cases "js_sort compare_placements ?cs") auto
  then obtain m where m: "m \<in> set (pr_machines req)" "allowed req counts m"
      and c: "c = candidate req counts m"
    using placement_order.sort_head_mem [OF srt] by auto
  have best: "pl_score (candidate req counts m') \<le> pl_score c"
    if "m' \<in> set (pr_machines req)" "allowed req counts m'" for m'
  proof -
    have "candidate req counts m' \<in> set ?cs" using that by auto
    with srt have "compare_placements c (candidate req counts m') \<le> 0"
      by (rule placement_order.sort_head_least)
    then show ?thesis by (auto simp: compare_placements_def split: if_splits)
  qed
  have id: "pl_machineId c = mf_id m" by (simp add: c candidate_def)
  show thesis
    by (rule placed [OF m])
      (use srt best c id in \<open>auto simp: scan_machines_eq Let_def case_prod_beta\<close>)
qed

declare place_rounds.simps(2) [simp del]

section \<open>The contract of a placer\<close>

text \<open>
  What the agent planner relies on: at most as many placements as wanted, what is missing is
  reported, and every placement names a machine of the request that is fit for the service.
\<close>

definition fit_for :: "placement_request \<Rightarrow> machine_facts \<Rightarrow> bool" where
  "fit_for req m \<longleftrightarrow> mf_online m \<and> \<not> mf_hasPrivateAgents m \<and>
     (\<forall>i \<in> set (mf_services m). i = pr_serviceId req) \<and>
     (ro_strategy (resolveOptions req) = Pin \<longrightarrow> mf_id m \<in> set (ro_pinMachines (resolveOptions req)))"

locale placer =
  fixes place :: "placement_request \<Rightarrow> placement_plan"
  assumes place_count: "int (length (pp_placements (place req))) \<le> max 0 (pr_count req)"
    and place_shortfall:
      "pp_shortfall (place req) = max 0 (pr_count req) - int (length (pp_placements (place req)))"
    and place_fit: "p \<in> set (pp_placements (place req)) \<Longrightarrow>
      \<exists>m \<in> set (pr_machines req). mf_id m = pl_machineId p \<and> fit_for req m"

lemma allowed_fit: "allowed req counts m \<Longrightarrow> fit_for req m"
  by (auto simp: allowed_def blockingReason_def fit_for_def list_ex_iff split: if_splits)

lemma place_rounds_length:
  "length (fst (place_rounds n req (resolveOptions req) counts rep)) \<le> n"
proof (induction n arbitrary: counts rep)
  case (Suc n)
  show ?case
    by (cases rule: place_rounds_Suc_cases [of req counts n rep]) (use Suc in auto)
qed simp

lemma place_rounds_fit:
  "p \<in> set (fst (place_rounds n req (resolveOptions req) counts rep)) \<Longrightarrow>
     \<exists>m \<in> set (pr_machines req). mf_id m = pl_machineId p \<and> fit_for req m"
proof (induction n arbitrary: counts rep)
  case (Suc n)
  show ?case
    by (cases rule: place_rounds_Suc_cases [of req counts n rep])
      (use Suc in \<open>auto simp: candidate_def dest: allowed_fit\<close>)
qed simp

lemma planPlacement_sel:
  "pp_placements (planPlacement req) = fst (place_rounds (nat (max 0 (pr_count req))) req
     (resolveOptions req) (initial_counts (pr_machines req)) False)"
  "pp_rejections (planPlacement req) = snd (place_rounds (nat (max 0 (pr_count req))) req
     (resolveOptions req) (initial_counts (pr_machines req)) False)"
  "pp_shortfall (planPlacement req) =
     max 0 (pr_count req - int (length (pp_placements (planPlacement req))))"
  by (simp_all add: planPlacement_def case_prod_beta Let_def)

lemma planPlacement_count:
  "int (length (pp_placements (planPlacement req))) \<le> max 0 (pr_count req)"
  using place_rounds_length [of "nat (max 0 (pr_count req))" req "initial_counts (pr_machines req)" False]
  unfolding planPlacement_sel by linarith

interpretation placement: placer planPlacement
proof
  fix req p
  show "int (length (pp_placements (planPlacement req))) \<le> max 0 (pr_count req)"
    by (rule planPlacement_count)
  then show "pp_shortfall (planPlacement req) =
      max 0 (pr_count req) - int (length (pp_placements (planPlacement req)))"
    unfolding planPlacement_sel(3) by linarith
  assume "p \<in> set (pp_placements (planPlacement req))"
  then show "\<exists>m \<in> set (pr_machines req). mf_id m = pl_machineId p \<and> fit_for req m"
    unfolding planPlacement_sel(1) by (rule place_rounds_fit)
qed

section \<open>Capacity and completeness\<close>

text \<open>How many agents the machine \<open>i\<close> ends with when \<open>ps\<close> are placed on top of \<open>counts\<close>.\<close>

definition placed_on :: "id \<Rightarrow> placement list \<Rightarrow> int" where
  "placed_on i ps = count_where (\<lambda>p. pl_machineId p = i) ps"

lemma placed_on_simps [simp]:
  "placed_on i [] = 0"
  "placed_on i (p # ps) = (if pl_machineId p = i then 1 else 0) + placed_on i ps"
  by (simp_all add: placed_on_def)

definition counts_cover :: "agent_counts \<Rightarrow> placement_request \<Rightarrow> bool" where
  "counts_cover counts req \<longleftrightarrow> (\<forall>m \<in> set (pr_machines req). counts (mf_id m) \<noteq> None)"

lemma place_rounds_capacity:
  assumes "counts_cover counts req" "counts i = Some k"
    and "k \<le> ro_maxAgentsPerMachine (resolveOptions req)"
  shows "k + placed_on i (fst (place_rounds n req (resolveOptions req) counts rep))
    \<le> ro_maxAgentsPerMachine (resolveOptions req)"
  using assms
proof (induction n arbitrary: counts k rep)
  case (Suc n)
  show ?case
  proof (cases rule: place_rounds_Suc_cases [of req counts n rep])
    case stuck
    then show ?thesis using Suc.prems by simp
  next
    case (placed m)
    let ?counts = "counts(mf_id m \<mapsto> (case counts (mf_id m) of None \<Rightarrow> 0 | Some k \<Rightarrow> k) + 1)"
    have cov: "counts_cover ?counts req" using Suc.prems(1) by (auto simp: counts_cover_def)
    show ?thesis
    proof (cases "mf_id m = i")
      case True
      then have "k < ro_maxAgentsPerMachine (resolveOptions req)"
        using placed(2) Suc.prems(2)
        by (auto simp: allowed_def blockingReason_def used_on_def split: if_splits)
      moreover have "?counts i = Some (k + 1)" using True Suc.prems(2) by simp
      ultimately have "k + 1 + placed_on i (fst (place_rounds n req (resolveOptions req) ?counts True))
          \<le> ro_maxAgentsPerMachine (resolveOptions req)"
        by (intro Suc.IH [OF cov]) auto
      then show ?thesis using True by (simp add: placed(3) candidate_def)
    next
      case False
      then have "?counts i = Some k" using Suc.prems(2) by simp
      then have "k + placed_on i (fst (place_rounds n req (resolveOptions req) ?counts True))
          \<le> ro_maxAgentsPerMachine (resolveOptions req)"
        using Suc.prems(3) by (intro Suc.IH [OF cov])
      then show ?thesis using False by (simp add: placed(3) candidate_def)
    qed
  qed
qed simp

text \<open>
  Nobody is left out silently: when fewer agents are placed than wanted, no machine is allowed
  at the counts the plan ends with.
\<close>

definition final_counts :: "agent_counts \<Rightarrow> placement list \<Rightarrow> agent_counts" where
  "final_counts counts ps =
     foldl (\<lambda>c p. c(pl_machineId p \<mapsto> (case c (pl_machineId p) of None \<Rightarrow> 0 | Some k \<Rightarrow> k) + 1))
       counts ps"

lemma place_rounds_exhaustive:
  assumes "length (fst (place_rounds n req (resolveOptions req) counts rep)) < n"
    and "m \<in> set (pr_machines req)"
  shows "\<not> allowed req
    (final_counts counts (fst (place_rounds n req (resolveOptions req) counts rep))) m"
  using assms
proof (induction n arbitrary: counts rep)
  case (Suc n)
  show ?case
  proof (cases rule: place_rounds_Suc_cases [of req counts n rep])
    case stuck
    then show ?thesis using Suc.prems(2) by (auto simp: final_counts_def filter_empty_conv)
  next
    case (placed m')
    with Suc show ?thesis by (simp add: final_counts_def candidate_def)
  qed
qed simp

lemma initial_counts_distinct:
  assumes "distinct (map mf_id ms)" "m \<in> set ms"
  shows "initial_counts ms (mf_id m) = Some (mf_agentCount m)"
proof -
  have "distinct (map fst (rev (map (\<lambda>m. (mf_id m, mf_agentCount m)) ms)))"
    using assms(1) by (simp add: rev_map [symmetric] comp_def)
  then show ?thesis using assms(2) unfolding initial_counts_def
    by (intro map_of_is_SomeI) auto
qed

lemma initial_counts_cover: "counts_cover (initial_counts (pr_machines req)) req"
  by (force simp: counts_cover_def initial_counts_def map_of_eq_None_iff)

section \<open>Properties\<close>

definition demo_machine :: "string \<Rightarrow> int \<Rightarrow> rat option \<Rightarrow> machine_facts" where
  "demo_machine i n cpu = \<lparr>mf_id = i, mf_online = True, mf_agentCount = n, mf_services = [],
     mf_hasPrivateAgents = False, mf_sessions = 0, mf_cpuFreePercent = cpu,
     mf_memFreeBytes = map_option (\<lambda>_. 3000000000) cpu,
     mf_diskFreeBytes = map_option (\<lambda>_. 5000000000) cpu, mf_knowledgeAffinity = False\<rparr>"

definition demo_placement :: "machine_facts list \<Rightarrow> int \<Rightarrow> placement_request" where
  "demo_placement ms n = \<lparr>pr_serviceId = ''svc'', pr_count = n, pr_machines = ms,
     pr_strategy = None, pr_pinMachines = None, pr_maxAgentsPerMachine = None,
     pr_thresholds = None\<rparr>"

lemmas demo_placement_defs = demo_machine_def demo_placement_def planPlacement_def Let_def
  place_rounds.simps blockingReason_def scoreMachine_def metricsKnown_def below_def or0_def
  resolveOptions_def initial_counts_def used_on_def compare_placements_def
  DEFAULT_THRESHOLDS_def DEFAULT_MAX_AGENTS_PER_MACHINE_def numeral_2_eq_2 numeral_3_eq_3

text \<open>
  Claim C2. The capacity of a machine is never exceeded: on a machine that is within the
  limit before the plan, the agents already there and the agents the plan adds stay within
  \<open>maxAgentsPerMachine\<close>, however many agents are wanted.
\<close>

theorem placement_capacity:
  assumes "distinct (map mf_id (pr_machines req))" and "m \<in> set (pr_machines req)"
    and "mf_agentCount m \<le> ro_maxAgentsPerMachine (resolveOptions req)"
  shows "mf_agentCount m + placed_on (mf_id m) (pp_placements (planPlacement req))
    \<le> ro_maxAgentsPerMachine (resolveOptions req)"
  unfolding planPlacement_sel(1)
  by (rule place_rounds_capacity [OF initial_counts_cover initial_counts_distinct [OF assms(1,2)] assms(3)])

theorem placement_capacity_witness:
  "3 + placed_on ''m1'' (pp_placements (planPlacement
     (demo_placement [demo_machine ''m1'' 3 (Some 80), demo_machine ''m2'' 0 None] 6))) \<le> 4"
proof -
  let ?req = "demo_placement [demo_machine ''m1'' 3 (Some 80), demo_machine ''m2'' 0 None] 6"
  have "mf_agentCount (demo_machine ''m1'' 3 (Some 80)) +
      placed_on (mf_id (demo_machine ''m1'' 3 (Some 80))) (pp_placements (planPlacement ?req))
      \<le> ro_maxAgentsPerMachine (resolveOptions ?req)"
    by (rule placement_capacity)
      (simp_all add: demo_placement_def demo_machine_def resolveOptions_def
        DEFAULT_MAX_AGENTS_PER_MACHINE_def)
  then show ?thesis
    by (simp add: demo_placement_def demo_machine_def resolveOptions_def
        DEFAULT_MAX_AGENTS_PER_MACHINE_def)
qed

text \<open>
  Claim C3. The red lines are never traded away: every placement names a machine of the
  request that is online, hosts no internal agent and no agent of another service, and is on
  the pin list under the pin strategy.
\<close>

theorem placement_isolation:
  assumes "p \<in> set (pp_placements (planPlacement req))"
  shows "\<exists>m \<in> set (pr_machines req). mf_id m = pl_machineId p \<and> mf_online m \<and>
      \<not> mf_hasPrivateAgents m \<and> (\<forall>i \<in> set (mf_services m). i = pr_serviceId req) \<and>
      (pr_strategy req = Some Pin \<longrightarrow>
         mf_id m \<in> set (case pr_pinMachines req of None \<Rightarrow> [] | Some l \<Rightarrow> l))"
  using placement.place_fit [OF assms]
  by (fastforce simp: fit_for_def resolveOptions_def)

theorem placement_isolation_witness:
  "\<exists>m :: machine_facts. mf_id m = ''m1'' \<and> mf_online m \<and> \<not> mf_hasPrivateAgents m"
proof -
  define req where "req = demo_placement [demo_machine ''m0'' 0 None\<lparr>mf_hasPrivateAgents := True\<rparr>,
     demo_machine ''m1'' 0 (Some 80)] 1"
  define p where "p = \<lparr>pl_machineId = ''m1'', pl_score = 105, pl_metricsKnown = True\<rparr>"
  have "pp_placements (planPlacement req) = [p]"
    by (simp add: demo_placement_defs req_def p_def floor_eq_iff)
  then have "p \<in> set (pp_placements (planPlacement req))" by simp
  from placement_isolation [OF this]
  have "\<exists>m :: machine_facts. mf_id m = pl_machineId p \<and> mf_online m \<and> \<not> mf_hasPrivateAgents m"
    by blast
  then show ?thesis by (simp add: p_def)
qed

text \<open>
  Under-provisioning is visible and justified: the shortfall is what was wanted
  minus what was placed, and when it is positive no machine of the request is acceptable any
  more at the agent counts the plan ends with.
\<close>

theorem placement_complete:
  assumes "0 < pp_shortfall (planPlacement req)" and "m \<in> set (pr_machines req)"
  shows "pp_shortfall (planPlacement req) =
      pr_count req - int (length (pp_placements (planPlacement req))) \<and>
    blockingReason m (pr_serviceId req) (resolveOptions req)
      (used_on (final_counts (initial_counts (pr_machines req)) (pp_placements (planPlacement req))) m)
      \<noteq> None"
proof
  show short: "pp_shortfall (planPlacement req) =
      pr_count req - int (length (pp_placements (planPlacement req)))"
    using assms(1) placement.place_shortfall [of req] by linarith
  have "length (fst (place_rounds (nat (max 0 (pr_count req))) req (resolveOptions req)
      (initial_counts (pr_machines req)) False)) < nat (max 0 (pr_count req))"
    using assms(1) short unfolding planPlacement_sel(1) by linarith
  from place_rounds_exhaustive [OF this assms(2)]
  show "blockingReason m (pr_serviceId req) (resolveOptions req)
      (used_on (final_counts (initial_counts (pr_machines req)) (pp_placements (planPlacement req))) m)
      \<noteq> None"
    by (simp add: allowed_def planPlacement_sel(1))
qed

theorem placement_complete_witness:
  "pp_shortfall (planPlacement (demo_placement [demo_machine ''m1'' 3 (Some 80)] 2)) = 2 - 1"
proof -
  let ?m = "demo_machine ''m1'' 3 (Some 80)"
  let ?req = "demo_placement [?m] 2"
  have e: "length (pp_placements (planPlacement ?req)) = 1"
    and p: "0 < pp_shortfall (planPlacement ?req)" by (simp_all add: demo_placement_defs)
  have m: "?m \<in> set (pr_machines ?req)" by (simp add: demo_placement_def)
  have "pp_shortfall (planPlacement ?req) = pr_count ?req - int (length (pp_placements (planPlacement ?req)))"
    using placement_complete [OF p m] by blast
  then show ?thesis using e by (simp add: demo_placement_def)
qed

text \<open>
  "No data" can look better than healthy data: unless the strategy is pack, a
  machine with no metrics (score -1000) scores above any machine with full metrics that
  already runs three or more agents, at most 100 percent of free CPU and no knowledge affinity, so the
  documented "allowed but ranked last" does not hold.
\<close>

theorem unmeasured_machine_outranks:
  assumes "\<not> metricsKnown u" and "metricsKnown m"
    and "ro_strategy opts \<noteq> Pack" and "3 \<le> n"
    and "or0 (mf_cpuFreePercent m) \<le> 100" and "0 \<le> mf_sessions m" and "\<not> mf_knowledgeAffinity m"
  shows "scoreMachine m sid opts n < scoreMachine u sid opts k"
proof -
  let ?t = "ro_thresholds opts"
  let ?mem = "of_int (or0 (mf_memFreeBytes m)) / of_int (th_minFreeMemBytes ?t) :: rat"
  let ?disk = "of_int (or0 (mf_diskFreeBytes m)) / of_int (th_minFreeDiskBytes ?t) :: rat"
  let ?own = "int (length (filter (\<lambda>i. i = sid) (mf_services m)))"
  let ?x = "or0 (mf_cpuFreePercent m) + min 4 ?mem * 10 + min 4 ?disk * 5 - of_int (mf_sessions m)
     - of_int (?own * 400) - of_int (n * 400)"
  have a: "min 4 ?mem \<le> 4" "min 4 ?disk \<le> 4" by simp_all
  have b: "(0 :: rat) \<le> of_int (mf_sessions m)" using assms(6) by simp
  have c: "(0 :: rat) \<le> of_int (?own * 400)" by simp
  have "(1200 :: int) \<le> n * 400" using assms(4) by simp
  then have "(of_int 1200 :: rat) \<le> of_int (n * 400)" by (simp only: of_int_le_iff)
  then have d: "(1200 :: rat) \<le> of_int (n * 400)" by (simp only: of_int_numeral)
  have "?x + 1 / 2 < -1000" using a b c d assms(5) by linarith
  then have "\<lfloor>?x + 1 / 2\<rfloor> < -1000" by linarith
  then show ?thesis using assms by (simp add: scoreMachine_def Let_def)
qed

theorem unmeasured_machine_outranks_witness:
  "scoreMachine (demo_machine ''busy'' 3 (Some 95)) ''svc'' (resolveOptions (demo_placement [] 1)) 3
     < scoreMachine (demo_machine ''unknown'' 0 None) ''svc'' (resolveOptions (demo_placement [] 1)) 0"
  by (rule unmeasured_machine_outranks)
    (simp_all add: demo_machine_def demo_placement_def metricsKnown_def resolveOptions_def or0_def)

end
