(* ===== verification/AgentsPlan.thy ===== *)
theory AgentsPlan
  imports Placement
begin

text \<open>
  Reconciling the agents of a service with its declaration
  (\<^verbatim>\<open>src/services/agents-plan.ts\<close>): which agents to keep, start, retire or drain, and the
  derived names that identify an agent.  Placement is used through the contract \<open>placer\<close>.
\<close>

section \<open>Data\<close>

record planned_agent =
  pa_serviceId :: id
  pa_ordinal :: int
  pa_endpointId :: id
  pa_agentId :: id
  pa_machineId :: id

record existing_agent =
  ea_ordinal :: int
  ea_machineId :: id

record agents_plan_request =
  apr_serviceId :: id
  apr_count :: int
  apr_placement :: strategy
  apr_machines :: "id list option"
  apr_maxAgentsPerMachine :: "int option"
  apr_existing :: "existing_agent list"
  apr_facts :: "machine_facts list"
  apr_sessionsByAgent :: "id \<rightharpoonup> int"
  apr_thresholds :: "thresholds option"

datatype stranded_reason = Rejected reject_reason | MachineUnknown

record agents_plan =
  ap_agents :: "planned_agent list"
  ap_keep :: "planned_agent list"
  ap_create :: "planned_agent list"
  ap_remove :: "planned_agent list"
  ap_draining :: "planned_agent list"
  ap_shortfall :: int
  ap_stranded :: "(planned_agent \<times> stranded_reason) list"
  ap_rejections :: "(id \<times> reject_reason) list"

section \<open>Derived names\<close>

text \<open>The decimal digits of a positive ordinal, as the template string prints them.\<close>

definition digit_char :: "nat \<Rightarrow> char" where
  "digit_char d = char_of (48 + d)"

fun show_nat :: "nat \<Rightarrow> string" where
  "show_nat n = (if n < 10 then [digit_char n] else show_nat (n div 10) @ [digit_char (n mod 10)])"

declare show_nat.simps [simp del]

definition show_int :: "int \<Rightarrow> string" where
  "show_int i = (if i < 0 then ''-'' @ show_nat (nat (- i)) else show_nat (nat i))"

definition agentNames :: "id \<Rightarrow> int \<Rightarrow> id \<times> id" where
  "agentNames serviceId ordinal =
     (''svc-'' @ serviceId @ ''-'' @ show_int ordinal, serviceId @ ''-'' @ show_int ordinal)"

definition is_digit :: "char \<Rightarrow> bool" where
  "is_digit c \<longleftrightarrow> 48 \<le> (of_char c :: nat) \<and> (of_char c :: nat) \<le> 57"

definition digit_value :: "char \<Rightarrow> nat" where
  "digit_value c = of_char c - 48"

text \<open>
  The regular expression \<^verbatim>\<open>/^svc-(.+)-([1-9]\d*)$/\<close>: the greedy group takes everything up to the
  last dash that is followed by digits only, and a digit run holds no dash, so the ordinal
  is the text after the last dash.  \<open>.\<close> does not match a line break.
\<close>

definition parse_nat :: "string \<Rightarrow> nat" where
  "parse_nat ds = foldl (\<lambda>n c. 10 * n + digit_value c) 0 ds"

definition ordinal_text :: "string \<Rightarrow> bool" where
  "ordinal_text ds \<longleftrightarrow> ds \<noteq> [] \<and> list_all is_digit ds \<and> hd ds \<noteq> CHR ''0''"

definition line_break :: "char \<Rightarrow> bool" where
  "line_break c \<longleftrightarrow> c = CHR 0x0A \<or> c = CHR 0x0D"

definition parseAgentEndpoint :: "id \<Rightarrow> (id \<times> int) option" where
  "parseAgentEndpoint endpointId =
     (if \<not> is_prefix ''svc-'' endpointId then None else
      let body = drop 4 endpointId;
          ds = rev (takeWhile (\<lambda>c. c \<noteq> CHR ''-'') (rev body));
          sid = rev (tl (dropWhile (\<lambda>c. c \<noteq> CHR ''-'') (rev body)))
      in if dropWhile (\<lambda>c. c \<noteq> CHR ''-'') (rev body) \<noteq> [] \<and> ordinal_text ds \<and> sid \<noteq> [] \<and>
            list_all (\<lambda>c. \<not> line_break c) sid
         then Some (sid, int (parse_nat ds)) else None)"

definition makeAgent :: "id \<Rightarrow> int \<Rightarrow> id \<Rightarrow> planned_agent" where
  "makeAgent serviceId ordinal machineId =
     \<lparr>pa_serviceId = serviceId, pa_ordinal = ordinal,
      pa_endpointId = fst (agentNames serviceId ordinal),
      pa_agentId = snd (agentNames serviceId ordinal), pa_machineId = machineId\<rparr>"

section \<open>Planning\<close>

definition wantedOrdinals :: "int \<Rightarrow> int list" where
  "wantedOrdinals n = map (\<lambda>i. int i + 1) [0..<nat (max 0 n)]"

definition compare_ordinals :: "existing_agent \<Rightarrow> existing_agent \<Rightarrow> int" where
  "compare_ordinals a b = ea_ordinal a - ea_ordinal b"

definition compare_planned :: "planned_agent \<Rightarrow> planned_agent \<Rightarrow> int" where
  "compare_planned a b = pa_ordinal a - pa_ordinal b"

definition facts_of :: "machine_facts list \<Rightarrow> id \<Rightarrow> machine_facts option" where
  "facts_of ms = map_of (rev (map (\<lambda>m. (mf_id m, m)) ms))"

definition stranded_reason_of :: "agents_plan_request \<Rightarrow> planned_agent \<Rightarrow> stranded_reason option" where
  "stranded_reason_of req agent =
     (case facts_of (apr_facts req) (pa_machineId agent) of
        None \<Rightarrow> Some MachineUnknown
      | Some facts \<Rightarrow>
          if \<not> mf_online facts then Some (Rejected Offline)
          else if mf_hasPrivateAgents facts then Some (Rejected PrivateAgentsPresent)
          else if list_ex (\<lambda>i. i \<noteq> apr_serviceId req) (mf_services facts)
            then Some (Rejected OtherServicePresent)
          else if apr_placement req = Pin \<and>
              pa_machineId agent \<notin> set (case apr_machines req of None \<Rightarrow> [] | Some l \<Rightarrow> l)
            then Some (Rejected NotInPinList)
          else None)"

definition placement_request_of :: "agents_plan_request \<Rightarrow> int \<Rightarrow> placement_request" where
  "placement_request_of req n =
     \<lparr>pr_serviceId = apr_serviceId req, pr_count = n, pr_machines = apr_facts req,
      pr_strategy = Some (apr_placement req),
      pr_pinMachines = Some (case apr_machines req of None \<Rightarrow> [] | Some l \<Rightarrow> l),
      pr_maxAgentsPerMachine = apr_maxAgentsPerMachine req, pr_thresholds = apr_thresholds req\<rparr>"

definition agent_sessions :: "agents_plan_request \<Rightarrow> planned_agent \<Rightarrow> int" where
  "agent_sessions req a =
     (case apr_sessionsByAgent req (pa_agentId a) of None \<Rightarrow> 0 | Some n \<Rightarrow> n)"

text \<open>\<open>plan_with place\<close> is \<^verbatim>\<open>planAgents\<close> with the placer it calls as an argument.\<close>

definition plan_with ::
  "(placement_request \<Rightarrow> placement_plan) \<Rightarrow> agents_plan_request \<Rightarrow> agents_plan" where
  "plan_with place req =
     (let wanted = wantedOrdinals (apr_count req);
          existing = map (\<lambda>e. makeAgent (apr_serviceId req) (ea_ordinal e) (ea_machineId e))
                       (js_sort compare_ordinals (apr_existing req));
          keep = take (length wanted) existing;
          surplus = rev (drop (length wanted) existing);
          draining = filter (\<lambda>a. agent_sessions req a > 0) surplus;
          remove = filter (\<lambda>a. \<not> agent_sessions req a > 0) surplus;
          slots = length wanted - length keep;
          freeOrdinals = take slots (filter (\<lambda>i. i \<notin> pa_ordinal ` set keep) wanted);
          plan = place (placement_request_of req (int (length freeOrdinals)));
          created = (if freeOrdinals = [] then [] else
             map (\<lambda>(i, p). makeAgent (apr_serviceId req) i (pl_machineId p))
               (zip freeOrdinals (pp_placements plan)))
      in \<lparr>ap_agents = js_sort compare_planned (keep @ created), ap_keep = keep,
          ap_create = created, ap_remove = remove, ap_draining = draining,
          ap_shortfall = (if freeOrdinals = [] then 0 else pp_shortfall plan),
          ap_stranded = map (\<lambda>a. (a, the (stranded_reason_of req a)))
             (filter (\<lambda>a. stranded_reason_of req a \<noteq> None) keep),
          ap_rejections = (if freeOrdinals = [] then [] else pp_rejections plan)\<rparr>)"

definition planAgents :: "agents_plan_request \<Rightarrow> agents_plan" where
  "planAgents req = plan_with planPlacement req"

section \<open>The ordinals\<close>

lemma set_wantedOrdinals: "set (wantedOrdinals n) = {1..n}"
proof -
  have "x \<in> (\<lambda>i. int i + 1) ` {0..<nat (max 0 n)} \<longleftrightarrow> 1 \<le> x \<and> x \<le> n" for x
  proof
    assume "1 \<le> x \<and> x \<le> n"
    then show "x \<in> (\<lambda>i. int i + 1) ` {0..<nat (max 0 n)}"
      by (intro image_eqI [of _ _ "nat (x - 1)"]) auto
  qed auto
  then show ?thesis by (auto simp: wantedOrdinals_def)
qed

lemma distinct_wantedOrdinals [simp]: "distinct (wantedOrdinals n)"
  by (simp add: wantedOrdinals_def distinct_map inj_on_def)

lemma length_wantedOrdinals [simp]: "length (wantedOrdinals n) = nat (max 0 n)"
  by (simp add: wantedOrdinals_def)

interpretation ordinal_order: comparator compare_ordinals
  by unfold_locales (auto simp: compare_ordinals_def)

interpretation planned_order: comparator compare_planned
  by unfold_locales (auto simp: compare_planned_def)

text \<open>
  Removing \<open>k\<close> used ordinals from \<open>n\<close> distinct wanted ones leaves at least \<open>n - k\<close>: there are
  always enough free ordinals for the open slots.
\<close>

lemma enough_free:
  assumes "distinct (ws :: int list)" and "finite U"
  shows "length ws - card U \<le> length (filter (\<lambda>i. i \<notin> U) ws)"
proof -
  have "card (set ws) - card U \<le> card (set ws - U)" using assms(2) by (rule diff_card_le_card_Diff)
  also have "set ws - U = set (filter (\<lambda>i. i \<notin> U) ws)" by auto
  also have "card \<dots> \<le> length (filter (\<lambda>i. i \<notin> U) ws)" by (rule card_length)
  finally show ?thesis using assms(1) by (simp add: distinct_card)
qed

text \<open>The intermediate lists of the plan.\<close>

definition plan_existing :: "agents_plan_request \<Rightarrow> planned_agent list" where
  "plan_existing req = map (\<lambda>e. makeAgent (apr_serviceId req) (ea_ordinal e) (ea_machineId e))
     (js_sort compare_ordinals (apr_existing req))"

definition plan_free :: "agents_plan_request \<Rightarrow> int list" where
  "plan_free req =
     (let keep = take (nat (max 0 (apr_count req))) (plan_existing req) in
      take (nat (max 0 (apr_count req)) - length keep)
        (filter (\<lambda>i. i \<notin> pa_ordinal ` set keep) (wantedOrdinals (apr_count req))))"

lemma plan_with_sel:
  "ap_keep (plan_with place req) = take (nat (max 0 (apr_count req))) (plan_existing req)"
  "ap_create (plan_with place req) =
     (if plan_free req = [] then [] else
      map (\<lambda>(i, p). makeAgent (apr_serviceId req) i (pl_machineId p))
        (zip (plan_free req)
           (pp_placements (place (placement_request_of req (int (length (plan_free req))))))))"
  "ap_agents (plan_with place req) =
     js_sort compare_planned (ap_keep (plan_with place req) @ ap_create (plan_with place req))"
  "ap_shortfall (plan_with place req) =
     (if plan_free req = [] then 0 else
      pp_shortfall (place (placement_request_of req (int (length (plan_free req))))))"
  "ap_draining (plan_with place req) = filter (\<lambda>a. agent_sessions req a > 0)
     (rev (drop (nat (max 0 (apr_count req))) (plan_existing req)))"
  "ap_remove (plan_with place req) = filter (\<lambda>a. \<not> agent_sessions req a > 0)
     (rev (drop (nat (max 0 (apr_count req))) (plan_existing req)))"
  by (simp_all only: plan_with_def plan_existing_def plan_free_def Let_def
      agents_plan.select_convs length_wantedOrdinals)

lemma plan_free_facts:
  "set (plan_free req) \<subseteq> {1..apr_count req}"
  "distinct (plan_free req)"
  "set (plan_free req) \<inter> pa_ordinal ` set (take (nat (max 0 (apr_count req))) (plan_existing req)) = {}"
proof -
  let ?U = "pa_ordinal ` set (take (nat (max 0 (apr_count req))) (plan_existing req))"
  have sub: "set (plan_free req) \<subseteq> set (filter (\<lambda>i. i \<notin> ?U) (wantedOrdinals (apr_count req)))"
    unfolding plan_free_def Let_def by (rule set_take_subset)
  then show "set (plan_free req) \<subseteq> {1..apr_count req}" "set (plan_free req) \<inter> ?U = {}"
    by (auto simp flip: set_wantedOrdinals)
  show "distinct (plan_free req)"
    unfolding plan_free_def Let_def by (intro distinct_take distinct_filter distinct_wantedOrdinals)
qed

lemma length_plan_free:
  "length (plan_free req) =
     nat (max 0 (apr_count req)) - length (take (nat (max 0 (apr_count req))) (plan_existing req))"
proof -
  let ?n = "nat (max 0 (apr_count req))"
  let ?keep = "take ?n (plan_existing req)"
  have "card (pa_ordinal ` set ?keep) \<le> length ?keep"
    using card_image_le [of "set ?keep" pa_ordinal] card_length [of ?keep]
    by (meson finite_set le_trans)
  then have "?n - length ?keep \<le> ?n - card (pa_ordinal ` set ?keep)" by (rule diff_le_mono2)
  also have "\<dots> \<le> length (filter (\<lambda>i. i \<notin> pa_ordinal ` set ?keep) (wantedOrdinals (apr_count req)))"
    using enough_free [OF distinct_wantedOrdinals, of "pa_ordinal ` set ?keep" "apr_count req"]
    by (simp only: length_wantedOrdinals finite_imageI finite_set)
  finally show ?thesis
    unfolding plan_free_def Let_def length_take [of "?n - length ?keep"] by (rule min_absorb2)
qed

section \<open>The plan over any placer\<close>

context placer
begin

lemma created_length:
  "length (ap_create (plan_with place req)) =
     length (pp_placements (place (placement_request_of req (int (length (plan_free req))))))
   \<or> plan_free req = []"
  using place_count [of "placement_request_of req (int (length (plan_free req)))"]
  by (auto simp: plan_with_sel placement_request_of_def)

text \<open>Kept, created and missing agents add up to the declaration.\<close>

lemma plan_accounts:
  "int (length (ap_keep (plan_with place req))) + int (length (ap_create (plan_with place req)))
     + ap_shortfall (plan_with place req) = max 0 (apr_count req)"
proof -
  let ?keep = "take (nat (max 0 (apr_count req))) (plan_existing req)"
  let ?plan = "place (placement_request_of req (int (length (plan_free req))))"
  have k: "length ?keep \<le> nat (max 0 (apr_count req))" by simp
  show ?thesis
  proof (cases "plan_free req = []")
    case True
    then have "length ?keep = nat (max 0 (apr_count req))"
      using length_plan_free [of req] k by simp
    then show ?thesis using True by (simp add: plan_with_sel del: length_take)
  next
    case False
    have s: "pp_shortfall ?plan = int (length (plan_free req)) - int (length (pp_placements ?plan))"
      using place_shortfall [of "placement_request_of req (int (length (plan_free req)))"]
      by (simp add: placement_request_of_def)
    have c: "length (ap_create (plan_with place req)) = length (pp_placements ?plan)"
      using created_length False by blast
    have "int (length ?keep) + int (length (plan_free req)) = max 0 (apr_count req)"
      using length_plan_free [of req] k by linarith
    with s c False show ?thesis by (simp add: plan_with_sel(1,4) del: length_take)
  qed
qed

lemma created_ordinals:
  "map pa_ordinal (ap_create (plan_with place req)) =
     take (length (ap_create (plan_with place req))) (plan_free req)"
  by (auto simp: plan_with_sel makeAgent_def comp_def case_prod_beta map_fst_zip_take
      simp flip: map_map) (simp add: comp_def case_prod_beta map_fst_zip_take [symmetric])

lemma created_on_fit_machine:
  assumes "a \<in> set (ap_create (plan_with place req))"
  shows "\<exists>m \<in> set (apr_facts req). mf_id m = pa_machineId a \<and> mf_online m \<and>
    \<not> mf_hasPrivateAgents m \<and> (\<forall>i \<in> set (mf_services m). i = apr_serviceId req)"
proof -
  let ?r = "placement_request_of req (int (length (plan_free req)))"
  from assms obtain i p where "a = makeAgent (apr_serviceId req) i (pl_machineId p)"
      and p: "p \<in> set (pp_placements (place ?r))"
    by (auto simp: plan_with_sel split: if_splits dest!: set_zip_rightD)
  with place_fit [OF p] show ?thesis
    by (auto simp: fit_for_def placement_request_of_def makeAgent_def)
qed

end

section \<open>Printing and parsing ordinals\<close>

lemma digit_char_digit:
  assumes "d < 10"
  shows "is_digit (digit_char d)" "digit_value (digit_char d) = d"
    "digit_char d \<noteq> CHR ''-''" "digit_char d = CHR ''0'' \<longleftrightarrow> d = 0"
proof -
  have c: "of_char (digit_char d) = (48 + d :: nat)"
    using assms by (simp add: digit_char_def of_char_of)
  show "is_digit (digit_char d)" "digit_value (digit_char d) = d"
    using assms by (simp_all add: is_digit_def digit_value_def c)
  have m: "of_char (CHR ''-'') = (45 :: nat)" and z: "of_char (CHR ''0'') = (48 :: nat)" by simp_all
  show "digit_char d \<noteq> CHR ''-''" using c m by auto
  show "digit_char d = CHR ''0'' \<longleftrightarrow> d = 0"
    using c z by (metis add_cancel_right_right of_char_eq_iff)
qed

lemma show_nat_digits: "list_all is_digit (show_nat n)"
proof (induction n rule: show_nat.induct)
  case (1 n)
  then show ?case by (subst show_nat.simps) (simp add: digit_char_digit)
qed

lemma show_nat_no_dash: "CHR ''-'' \<notin> set (show_nat n)"
proof (induction n rule: show_nat.induct)
  case (1 n)
  then show ?case
    using digit_char_digit(3) [of n] digit_char_digit(3) [of "n mod 10"]
    by (subst show_nat.simps) (auto dest: sym)
qed

lemma show_nat_ne [simp]: "show_nat n \<noteq> []"
  by (subst show_nat.simps) simp

lemma show_nat_head: "0 < n \<Longrightarrow> hd (show_nat n) \<noteq> CHR ''0''"
proof (induction n rule: show_nat.induct)
  case (1 n)
  then show ?case by (subst show_nat.simps) (auto simp: digit_char_digit(4) hd_append)
qed

lemma parse_show_nat: "parse_nat (show_nat n) = n"
proof (induction n rule: show_nat.induct)
  case (1 n)
  then show ?case
    by (subst show_nat.simps) (auto simp: parse_nat_def digit_char_digit(2))
qed

lemma parse_agentNames:
  assumes "sid \<noteq> []" and "list_all (\<lambda>c. \<not> line_break c) sid" and "0 < n"
  shows "parseAgentEndpoint (fst (agentNames sid n)) = Some (sid, n)"
proof -
  let ?ds = "show_nat (nat n)"
  have s: "show_int n = ?ds" using assms(3) by (simp add: show_int_def)
  have tw: "takeWhile (\<lambda>c. c \<noteq> CHR ''-'') (rev ?ds @ CHR ''-'' # rev sid) = rev ?ds"
    and dw: "dropWhile (\<lambda>c. c \<noteq> CHR ''-'') (rev ?ds @ CHR ''-'' # rev sid) = CHR ''-'' # rev sid"
    using show_nat_no_dash [of "nat n"]
    by (subst takeWhile_append2, auto, subst dropWhile_append2, auto)
  have "ordinal_text ?ds"
    using show_nat_digits [of "nat n"] show_nat_head [of "nat n"] assms(3)
    by (simp add: ordinal_text_def)
  with assms tw dw show ?thesis
    by (simp add: parseAgentEndpoint_def agentNames_def s parse_show_nat)
qed

section \<open>Properties\<close>

definition demo_plan :: "existing_agent list \<Rightarrow> int \<Rightarrow> agents_plan_request" where
  "demo_plan ex n = \<lparr>apr_serviceId = ''sup'', apr_count = n, apr_placement = Spread,
     apr_machines = None, apr_maxAgentsPerMachine = None, apr_existing = ex,
     apr_facts = [demo_machine ''m1'' 0 (Some 80)], apr_sessionsByAgent = [''sup-3'' \<mapsto> 2],
     apr_thresholds = None\<rparr>"

lemma plan_existing_ordinals:
  "mset (map pa_ordinal (plan_existing req)) = mset (map ea_ordinal (apr_existing req))"
  by (simp add: plan_existing_def makeAgent_def comp_def)

lemma plan_existing_sorted: "sorted_wrt (\<lambda>a b. pa_ordinal a \<le> pa_ordinal b) (plan_existing req)"
  using ordinal_order.sort_sorted [of "apr_existing req"]
  by (simp add: plan_existing_def sorted_wrt_map makeAgent_def compare_ordinals_def)

text \<open>
  The plan accounts for the declaration: agents kept, agents created and the
  reported shortfall add up to the wanted number, and the planned agents are exactly those
  kept and created.
\<close>

theorem agents_plan_accounts:
  "int (length (ap_keep (planAgents req))) + int (length (ap_create (planAgents req)))
     + ap_shortfall (planAgents req) = max 0 (apr_count req) \<and>
   mset (ap_agents (planAgents req)) =
     mset (ap_keep (planAgents req)) + mset (ap_create (planAgents req))"
  unfolding planAgents_def using placement.plan_accounts [of req]
  by (simp add: plan_with_sel(3))

text \<open>
  Identities are stable: when the running agents have distinct ordinals, so have the
  planned ones; every kept agent keeps its ordinal and machine, and every created one gets an
  unused ordinal between 1 and the declared count.
\<close>

theorem agents_plan_identities:
  assumes "distinct (map ea_ordinal (apr_existing req))"
  shows "distinct (map pa_ordinal (ap_agents (planAgents req))) \<and>
    (\<forall>a \<in> set (ap_keep (planAgents req)). \<exists>e \<in> set (apr_existing req).
       pa_ordinal a = ea_ordinal e \<and> pa_machineId a = ea_machineId e) \<and>
    pa_ordinal ` set (ap_create (planAgents req)) \<subseteq> {1..apr_count req} \<and>
    pa_ordinal ` set (ap_create (planAgents req)) \<inter> pa_ordinal ` set (ap_keep (planAgents req)) = {}"
proof -
  let ?p = "plan_with planPlacement req"
  have ord: "pa_ordinal ` set (ap_create ?p) \<subseteq> set (plan_free req)"
    using placement.created_ordinals [of req] by (metis list.set_map set_take_subset)
  have dc: "distinct (map pa_ordinal (ap_create ?p))"
    using placement.created_ordinals [of req] plan_free_facts(2) by simp
  have "distinct (map pa_ordinal (plan_existing req))"
    using assms plan_existing_ordinals by (metis mset_eq_imp_distinct_iff)
  then have dk: "distinct (map pa_ordinal (ap_keep ?p))"
    by (simp add: plan_with_sel(1) take_map [symmetric])
  have disj: "pa_ordinal ` set (ap_create ?p) \<inter> pa_ordinal ` set (ap_keep ?p) = {}"
    using ord plan_free_facts(3) [of req] unfolding plan_with_sel(1) by blast
  have keep: "\<exists>e \<in> set (apr_existing req). pa_ordinal a = ea_ordinal e \<and> pa_machineId a = ea_machineId e"
    if "a \<in> set (ap_keep ?p)" for a
    using in_set_takeD [OF that [unfolded plan_with_sel(1)]]
    by (auto simp: plan_existing_def makeAgent_def)
  have "distinct (map pa_ordinal (ap_agents ?p))"
    using dk dc disj by (simp add: plan_with_sel(3) Int_commute)
  with keep disj ord plan_free_facts(1) [of req] show ?thesis
    unfolding planAgents_def by blast
qed

theorem agents_plan_identities_witness:
  "distinct (map pa_ordinal (ap_agents (planAgents
     (demo_plan [\<lparr>ea_ordinal = 2, ea_machineId = ''m1''\<rparr>] 3))))"
  using agents_plan_identities [of "demo_plan [\<lparr>ea_ordinal = 2, ea_machineId = ''m1''\<rparr>] 3"]
  by (simp add: demo_plan_def)

text \<open>
  Scaling down never cuts a conversation off: an agent is retired at once only when
  it holds no conversation, every other surplus agent drains, the two lists together are the
  running agents that are not kept, and they have the highest ordinals.
\<close>

theorem agents_plan_drain:
  assumes "a \<in> set (ap_remove (planAgents req)) \<or> a \<in> set (ap_draining (planAgents req))"
  shows "(a \<in> set (ap_remove (planAgents req)) \<longleftrightarrow> agent_sessions req a \<le> 0) \<and>
    (a \<in> set (ap_draining (planAgents req)) \<longleftrightarrow> 0 < agent_sessions req a) \<and>
    (\<forall>k \<in> set (ap_keep (planAgents req)). pa_ordinal k \<le> pa_ordinal a) \<and>
    mset (ap_remove (planAgents req)) + mset (ap_draining (planAgents req))
      + mset (ap_keep (planAgents req)) = mset (plan_existing req)"
proof -
  let ?n = "nat (max 0 (apr_count req))"
  let ?s = "drop ?n (plan_existing req)"
  have a: "a \<in> set ?s" using assms by (auto simp: planAgents_def plan_with_sel)
  have "sorted_wrt (\<lambda>a b. pa_ordinal a \<le> pa_ordinal b) (take ?n (plan_existing req) @ ?s)"
    by (simp only: append_take_drop_id plan_existing_sorted)
  with a have le: "pa_ordinal k \<le> pa_ordinal a" if "k \<in> set (ap_keep (planAgents req))" for k
    using that by (simp only: sorted_wrt_append planAgents_def plan_with_sel(1))
  have "mset (plan_existing req) = mset (take ?n (plan_existing req)) + mset ?s"
    by (metis append_take_drop_id mset_append)
  moreover have "mset (ap_remove (planAgents req)) + mset (ap_draining (planAgents req)) = mset ?s"
    by (simp add: planAgents_def plan_with_sel not_less)
  ultimately show ?thesis using a le
    by (auto simp: planAgents_def plan_with_sel)
qed

theorem agents_plan_drain_witness:
  "0 < agent_sessions (demo_plan [\<lparr>ea_ordinal = 3, ea_machineId = ''m1''\<rparr>,
      \<lparr>ea_ordinal = 1, ea_machineId = ''m1''\<rparr>] 1) (makeAgent ''sup'' 3 ''m1'')"
proof -
  let ?req = "demo_plan [\<lparr>ea_ordinal = 3, ea_machineId = ''m1''\<rparr>,
      \<lparr>ea_ordinal = 1, ea_machineId = ''m1''\<rparr>] 1"
  have "plan_existing ?req = [makeAgent ''sup'' 1 ''m1'', makeAgent ''sup'' 3 ''m1'']"
    by (simp add: plan_existing_def demo_plan_def compare_ordinals_def)
  moreover have "0 < agent_sessions ?req (makeAgent ''sup'' 3 ''m1'')" by code_simp
  ultimately have m: "makeAgent ''sup'' 3 ''m1'' \<in> set (ap_draining (planAgents ?req))"
    by (simp add: planAgents_def plan_with_sel) (simp add: demo_plan_def)
  from agents_plan_drain [OF disjI2, OF m] m show ?thesis by blast
qed

text \<open>
  The derived endpoint name identifies its agent: parsing the name of ordinal \<open>n\<close> of
  a service gives the service and \<open>n\<close> back, also when the service id itself has dashes or
  ends in a number.
\<close>

theorem agent_endpoint_roundtrip:
  assumes "sid \<noteq> []" and "list_all (\<lambda>c. \<not> line_break c) sid" and "0 < n"
  shows "parseAgentEndpoint (fst (agentNames sid n)) = Some (sid, n)"
  using assms by (rule parse_agentNames)

theorem agent_endpoint_roundtrip_witness:
  "parseAgentEndpoint (fst (agentNames ''a-b-7'' 12)) = Some (''a-b-7'', 12)"
  by (rule agent_endpoint_roundtrip) (simp_all add: line_break_def)

end
