(* ===== verification/ChatTurns.thy ===== *)
theory ChatTurns
  imports Prelude
begin

text \<open>
  The turns of the chats: the per-chat send queue (\<^verbatim>\<open>src/chat/queue.ts\<close>), the registry of
  running turns (\<^verbatim>\<open>src/chat/turn-runner.ts\<close>), the send, cancel and archive handlers of
  \<^verbatim>\<open>src/routes/chat.ts\<close> and the outward port \<^verbatim>\<open>runTurn\<close> of \<^verbatim>\<open>src/index.ts\<close>.

  The module-level maps are fields of one state, together with the promises that are
  pending (\<open>t_active\<close>) and the calls of \<^verbatim>\<open>runAgent\<close> made so far (\<open>t_started\<close>).  An event is one
  task of the event loop with the microtasks it leaves behind, which run to completion
  before the next task: the \<^verbatim>\<open>finally\<close> of a turn and of the queue's drain are part of the
  event that settles the turn.
\<close>

section \<open>State\<close>

record queued_turn =
  qt_id :: id
  qt_chatId :: id
  qt_text :: string

text \<open>A pending \<^verbatim>\<open>startChatTurn\<close>; \<open>at_queued\<close> when the drain awaits it.\<close>

record active_turn =
  at_controller :: nat
  at_chat :: id
  at_text :: string
  at_queued :: bool

record turns_state =
  q_queues :: "id \<rightharpoonup> queued_turn list"
  q_draining :: "id set"
  t_chatTurns :: "id set"
  t_chatCancels :: "id \<rightharpoonup> nat"
  t_active :: "active_turn list"
  t_nextController :: nat
  t_aborted :: "nat set"
  t_removed :: "id set"
  t_started :: "(id \<times> string) list"

definition init_turns :: turns_state where
  "init_turns = \<lparr>q_queues = Map.empty, q_draining = {}, t_chatTurns = {}, t_chatCancels = Map.empty,
     t_active = [], t_nextController = 0, t_aborted = {}, t_removed = {}, t_started = []\<rparr>"

section \<open>Operations\<close>

definition queuedTurnsFor :: "turns_state \<Rightarrow> id \<Rightarrow> nat" where
  "queuedTurnsFor s c = (case q_queues s c of None \<Rightarrow> 0 | Some q \<Rightarrow> length q)"

definition enqueueTurn :: "turns_state \<Rightarrow> id \<Rightarrow> queued_turn \<Rightarrow> turns_state \<times> nat" where
  "enqueueTurn s c t =
     (let q = (case q_queues s c of None \<Rightarrow> [] | Some q \<Rightarrow> q) @ [t]
      in (s\<lparr>q_queues := (q_queues s)(c \<mapsto> q)\<rparr>, length q))"

definition startChatTurn :: "turns_state \<Rightarrow> id \<Rightarrow> string \<Rightarrow> bool \<Rightarrow> turns_state" where
  "startChatTurn s c text queued =
     s\<lparr>t_chatCancels := (t_chatCancels s)(c \<mapsto> t_nextController s),
       t_chatTurns := insert c (t_chatTurns s),
       t_active := t_active s @ [\<lparr>at_controller = t_nextController s, at_chat = c, at_text = text,
                                 at_queued = queued\<rparr>],
       t_nextController := t_nextController s + 1,
       t_started := t_started s @ [(c, text)]\<rparr>"

text \<open>
  The drain: the queue's head leaves the queue and its \<^verbatim>\<open>execute\<close> runs.  For an archived chat
  \<^verbatim>\<open>execute\<close> resolves at once, and the drain's \<^verbatim>\<open>finally\<close> goes on with the next one.
\<close>

function drainChatQueue :: "turns_state \<Rightarrow> id \<Rightarrow> turns_state" where
  "drainChatQueue s c =
     (if c \<in> q_draining s then s
      else case q_queues s c of
        None \<Rightarrow> s\<lparr>q_queues := (q_queues s)(c := None)\<rparr>
      | Some [] \<Rightarrow> s\<lparr>q_queues := (q_queues s)(c := None)\<rparr>
      | Some (next # q) \<Rightarrow>
          (let s1 = s\<lparr>q_queues := (q_queues s)(c \<mapsto> q), q_draining := insert c (q_draining s)\<rparr>
           in if c \<in> t_removed s1
              then drainChatQueue (s1\<lparr>q_draining := q_draining s1 - {c}\<rparr>) c
              else startChatTurn s1 c (qt_text next) True))"
  by pat_completeness auto
termination
  by (relation "measure (\<lambda>(s, c). case q_queues s c of None \<Rightarrow> 0 | Some q \<Rightarrow> length q)") auto

declare drainChatQueue.simps [simp del]

definition cancelQueuedTurn :: "turns_state \<Rightarrow> id \<Rightarrow> id \<Rightarrow> turns_state" where
  "cancelQueuedTurn s c turnId =
     (case q_queues s c of None \<Rightarrow> s
      | Some q \<Rightarrow> (let kept = filter (\<lambda>t. qt_id t \<noteq> turnId) q
                  in s\<lparr>q_queues := (q_queues s)(c := if kept = [] then None else Some kept)\<rparr>))"

definition cancelQueuedTurns :: "turns_state \<Rightarrow> id \<Rightarrow> turns_state" where
  "cancelQueuedTurns s c = s\<lparr>q_queues := (q_queues s)(c := None)\<rparr>"

definition closeQueues :: "turns_state \<Rightarrow> turns_state" where
  "closeQueues s = s\<lparr>q_queues := Map.empty, q_draining := {}\<rparr>"

definition hasRunningTurn :: "turns_state \<Rightarrow> id \<Rightarrow> bool" where
  "hasRunningTurn s c \<longleftrightarrow> c \<in> t_chatTurns s"

definition abortTurn :: "turns_state \<Rightarrow> id \<Rightarrow> turns_state \<times> bool" where
  "abortTurn s c =
     (case t_chatCancels s c of None \<Rightarrow> (s, False)
      | Some k \<Rightarrow> (s\<lparr>t_aborted := insert k (t_aborted s)\<rparr>, True))"

text \<open>
  A turn's promise settles: the \<^verbatim>\<open>finally\<close> of \<^verbatim>\<open>startChatTurn\<close>, then, when the drain awaited it,
  the \<^verbatim>\<open>finally\<close> of the drain.
\<close>

definition turn_finally :: "turns_state \<Rightarrow> active_turn \<Rightarrow> turns_state" where
  "turn_finally s a =
     (let c = at_chat a;
          s1 = s\<lparr>t_active := filter (\<lambda>b. at_controller b \<noteq> at_controller a) (t_active s)\<rparr>;
          s2 = (if t_chatCancels s1 c = Some (at_controller a)
                then s1\<lparr>t_chatCancels := (t_chatCancels s1)(c := None)\<rparr> else s1);
          s3 = s2\<lparr>t_chatTurns := t_chatTurns s2 - {c}\<rparr>
      in drainChatQueue s3 c)"

definition drain_finally :: "turns_state \<Rightarrow> id \<Rightarrow> turns_state" where
  "drain_finally s c = drainChatQueue (s\<lparr>q_draining := q_draining s - {c}\<rparr>) c"

definition turn_settles :: "turns_state \<Rightarrow> nat \<Rightarrow> turns_state" where
  "turn_settles s k =
     (case List.find (\<lambda>a. at_controller a = k) (t_active s) of None \<Rightarrow> s
      | Some a \<Rightarrow> (if at_queued a then drain_finally (turn_finally s a) (at_chat a)
                  else turn_finally s a))"

text \<open>
  The handlers.  A message of the back office queues behind a running turn of its chat and
  starts at once otherwise; its answer is the queue position or the acceptance.  A message of the
  outward API starts its turn in either case.
\<close>

datatype send_reply = TurnQueued nat | TurnAccepted | UnknownChat

definition send_message :: "turns_state \<Rightarrow> id \<Rightarrow> id \<Rightarrow> string \<Rightarrow> turns_state \<times> send_reply" where
  "send_message s c uuid text =
     (if c \<in> t_removed s then (s, UnknownChat)
      else if hasRunningTurn s c
      then (case enqueueTurn s c \<lparr>qt_id = uuid, qt_chatId = c, qt_text = text\<rparr> of
              (s1, position) \<Rightarrow> (s1, TurnQueued position))
      else (startChatTurn s c text False, TurnAccepted))"

definition outward_message :: "turns_state \<Rightarrow> id \<Rightarrow> string \<Rightarrow> turns_state" where
  "outward_message s c text = (if c \<in> t_removed s then s else startChatTurn s c text False)"

definition remove_chat :: "turns_state \<Rightarrow> id \<Rightarrow> turns_state" where
  "remove_chat s c = cancelQueuedTurns (s\<lparr>t_removed := insert c (t_removed s)\<rparr>) c"

definition restore_chat :: "turns_state \<Rightarrow> id \<Rightarrow> turns_state" where
  "restore_chat s c = s\<lparr>t_removed := t_removed s - {c}\<rparr>"

definition cancel_queued :: "turns_state \<Rightarrow> id \<Rightarrow> id \<Rightarrow> turns_state" where
  "cancel_queued s c turnId = (if c \<in> t_removed s then s else cancelQueuedTurn s c turnId)"

definition cancel_running :: "turns_state \<Rightarrow> id \<Rightarrow> turns_state" where
  "cancel_running s c = (if c \<in> t_removed s then s else fst (abortTurn s c))"

datatype turn_event =
    Send id id string
  | OutwardSend id string
  | TurnSettles nat
  | CancelQueued id id
  | CancelRunning id
  | RemoveChat id
  | RestoreChat id
  | CloseQueues

fun turns_step :: "turns_state \<Rightarrow> turn_event \<Rightarrow> turns_state" where
  "turns_step s (Send c uuid text) = fst (send_message s c uuid text)"
| "turns_step s (OutwardSend c text) = outward_message s c text"
| "turns_step s (TurnSettles k) = turn_settles s k"
| "turns_step s (CancelQueued c turnId) = cancel_queued s c turnId"
| "turns_step s (CancelRunning c) = cancel_running s c"
| "turns_step s (RemoveChat c) = remove_chat s c"
| "turns_step s (RestoreChat c) = restore_chat s c"
| "turns_step s CloseQueues = closeQueues s"

section \<open>The serial invariant\<close>

text \<open>
  The registries describe the pending turns exactly, a chat has at most one of them, and a
  queue that holds a message belongs to a chat with a running turn.
\<close>

definition registries_ok :: "turns_state \<Rightarrow> bool" where
  "registries_ok s \<longleftrightarrow>
     distinct (map at_chat (t_active s)) \<and>
     distinct (map at_controller (t_active s)) \<and>
     (\<forall>a \<in> set (t_active s). at_controller a < t_nextController s) \<and>
     t_chatTurns s = at_chat ` set (t_active s) \<and>
     q_draining s = at_chat ` {a \<in> set (t_active s). at_queued a} \<and>
     (\<forall>c k. t_chatCancels s c = Some k \<longleftrightarrow>
        (\<exists>a \<in> set (t_active s). at_chat a = c \<and> at_controller a = k))"

definition queue_of :: "turns_state \<Rightarrow> id \<Rightarrow> queued_turn list" where
  "queue_of s c = (case q_queues s c of None \<Rightarrow> [] | Some q \<Rightarrow> q)"

definition not_stalled :: "id set \<Rightarrow> turns_state \<Rightarrow> bool" where
  "not_stalled except s \<longleftrightarrow> (\<forall>c. c \<notin> except \<longrightarrow> queue_of s c \<noteq> [] \<longrightarrow> c \<in> t_chatTurns s)"

definition turns_inv :: "turns_state \<Rightarrow> bool" where
  "turns_inv s \<longleftrightarrow> registries_ok s \<and> not_stalled {} s"

lemma startChatTurn_registries:
  assumes "registries_ok (s\<lparr>q_draining := q_draining s - (if queued then {c} else {})\<rparr>)"
    and "c \<notin> t_chatTurns s" and "queued \<longrightarrow> c \<in> q_draining s"
  shows "registries_ok (startChatTurn s c text queued)"
proof (cases queued)
  case True
  then have "q_draining s = insert c (at_chat ` {a \<in> set (t_active s). at_queued a})"
    using assms by (auto simp: registries_ok_def)
  moreover have "{a \<in> set (t_active s) \<union> {b}. at_queued a} =
      {a \<in> set (t_active s). at_queued a} \<union> {b}" if "at_queued b" for b :: active_turn
    using that by auto
  ultimately show ?thesis
    using assms True
    by (auto simp: registries_ok_def startChatTurn_def less_Suc_eq)
next
  case False
  then have "registries_ok s" using assms(1) by simp
  moreover have "{a \<in> set (t_active s) \<union> {b}. at_queued a} = {a \<in> set (t_active s). at_queued a}"
    if "\<not> at_queued b" for b :: active_turn
    using that by auto
  ultimately show ?thesis
    using assms(2) False
    by (auto simp: registries_ok_def startChatTurn_def less_Suc_eq)
qed

lemma queue_of_start [simp]: "queue_of (startChatTurn s c text queued) = queue_of s"
  by (rule ext) (simp add: queue_of_def startChatTurn_def)

lemma drain_inv:
  "registries_ok s \<Longrightarrow> not_stalled {c} s \<Longrightarrow> c \<notin> t_chatTurns s \<Longrightarrow> turns_inv (drainChatQueue s c)"
proof (induction s c rule: drainChatQueue.induct)
  case (1 s c)
  have notin: "c \<notin> q_draining s"
    using "1.prems" by (auto simp: registries_ok_def)
  show ?case
  proof (cases "queue_of s c")
    case Nil
    then have "drainChatQueue s c = s\<lparr>q_queues := (q_queues s)(c := None)\<rparr>"
      using notin by (auto simp: drainChatQueue.simps [of s c] queue_of_def split: option.splits)
    then show ?thesis
      using "1.prems" by (auto simp: turns_inv_def registries_ok_def not_stalled_def queue_of_def)
  next
    case (Cons t q)
    then have q: "q_queues s c = Some (t # q)"
      by (simp add: queue_of_def split: option.splits)
    define s1 where "s1 = s\<lparr>q_queues := (q_queues s)(c \<mapsto> q), q_draining := insert c (q_draining s)\<rparr>"
    have same: "s1\<lparr>q_draining := q_draining s1 - {c}\<rparr> = s\<lparr>q_queues := (q_queues s)(c \<mapsto> q)\<rparr>"
      using notin by (simp add: s1_def)
    have ok: "registries_ok (s\<lparr>q_queues := (q_queues s)(c \<mapsto> q)\<rparr>)"
      using "1.prems"(1) by (simp add: registries_ok_def)
    have stalled: "not_stalled {c} (s\<lparr>q_queues := (q_queues s)(c \<mapsto> q)\<rparr>)"
      using "1.prems"(2) by (auto simp: not_stalled_def queue_of_def)
    show ?thesis
    proof (cases "c \<in> t_removed s1")
      case True
      have "turns_inv (drainChatQueue (s1\<lparr>q_draining := q_draining s1 - {c}\<rparr>) c)"
        using "1.IH" [OF notin q refl s1_def True] ok stalled "1.prems"(3)
        by (simp add: same s1_def [symmetric] del: fun_upd_apply)
      then show ?thesis
        using notin q True by (simp add: drainChatQueue.simps [of s c] Let_def s1_def)
    next
      case False
      have eq: "drainChatQueue s c = startChatTurn s1 c (qt_text t) True"
        using notin q False by (simp add: drainChatQueue.simps [of s c] Let_def s1_def)
      have "registries_ok (startChatTurn s1 c (qt_text t) True)"
        by (rule startChatTurn_registries) (use ok same "1.prems"(3) in \<open>simp_all add: s1_def\<close>)
      moreover have "not_stalled {} (startChatTurn s1 c (qt_text t) True)"
        using stalled by (auto simp: not_stalled_def queue_of_def startChatTurn_def s1_def)
      ultimately show ?thesis by (simp add: eq turns_inv_def)
    qed
  qed
qed

text \<open>The state in which the turn is gone and its chat is about to be drained.\<close>

definition after_turn :: "turns_state \<Rightarrow> active_turn \<Rightarrow> turns_state" where
  "after_turn s a =
     s\<lparr>t_active := filter (\<lambda>b. at_controller b \<noteq> at_controller a) (t_active s),
       t_chatCancels := (t_chatCancels s)(at_chat a := None),
       t_chatTurns := t_chatTurns s - {at_chat a},
       q_draining := q_draining s - {at_chat a}\<rparr>"

lemma active_unique:
  "registries_ok s \<Longrightarrow> a \<in> set (t_active s) \<Longrightarrow> b \<in> set (t_active s) \<Longrightarrow>
   at_controller a = at_controller b \<or> at_chat a = at_chat b \<Longrightarrow> a = b"
  by (auto simp: registries_ok_def distinct_map inj_on_def)

lemma after_turn_registries:
  assumes ok: "registries_ok s" and a: "a \<in> set (t_active s)"
  shows "registries_ok (after_turn s a)"
proof -
  have act: "set (t_active (after_turn s a)) = set (t_active s) - {a}"
    using active_unique [OF ok _ a] by (auto simp: after_turn_def)
  have other: "at_chat b \<noteq> at_chat a" if "b \<in> set (t_active s) - {a}" for b
    using active_unique [OF ok _ a, of b] that by auto
  have "distinct (map at_chat (t_active (after_turn s a)))"
    "distinct (map at_controller (t_active (after_turn s a)))"
    using ok by (auto simp: registries_ok_def after_turn_def intro: distinct_map_filter)
  moreover have "\<forall>b \<in> set (t_active (after_turn s a)). at_controller b < t_nextController (after_turn s a)"
    using ok act by (simp add: registries_ok_def after_turn_def)
  moreover have "t_chatTurns (after_turn s a) = at_chat ` set (t_active (after_turn s a))"
    unfolding act using ok other by (auto simp: registries_ok_def after_turn_def)
  moreover have "q_draining (after_turn s a) = at_chat ` {b \<in> set (t_active (after_turn s a)). at_queued b}"
    unfolding act using ok other by (auto simp: registries_ok_def after_turn_def)
  moreover have "t_chatCancels (after_turn s a) c = Some k \<longleftrightarrow>
      (\<exists>b \<in> set (t_active (after_turn s a)). at_chat b = c \<and> at_controller b = k)" for c k
    unfolding act using ok other by (auto simp: registries_ok_def after_turn_def)
  ultimately show ?thesis by (simp add: registries_ok_def)
qed

lemma turn_settles_eq:
  assumes ok: "registries_ok s" and a: "a \<in> set (t_active s)"
  shows "turn_settles s (at_controller a) = drainChatQueue (after_turn s a) (at_chat a)"
proof -
  have find: "List.find (\<lambda>b. at_controller b = at_controller a) (t_active s) = Some a"
  proof -
    have "List.find (\<lambda>b. at_controller b = at_controller a) (t_active s) \<noteq> None"
      using a by (auto simp: find_None_iff)
    then obtain b where b: "List.find (\<lambda>b. at_controller b = at_controller a) (t_active s) = Some b"
      by auto
    then have "b \<in> set (t_active s)" "at_controller b = at_controller a"
      by (auto simp: find_Some_iff)
    then show ?thesis using b active_unique [OF ok _ a, of b] by simp
  qed
  have cancel: "t_chatCancels s (at_chat a) = Some (at_controller a)"
    using ok a by (auto simp: registries_ok_def)
  have drained: "at_chat a \<in> q_draining s \<longleftrightarrow> at_queued a"
  proof -
    have "q_draining s = at_chat ` {b \<in> set (t_active s). at_queued b}"
      using ok by (simp add: registries_ok_def)
    moreover have "b = a" if "b \<in> set (t_active s)" "at_chat b = at_chat a" for b
      using active_unique [OF ok that(1) a] that(2) by simp
    ultimately show ?thesis using a by (auto simp: image_iff)
  qed
  show ?thesis
  proof (cases "at_queued a")
    case True
    then have "turn_finally s a = after_turn s a\<lparr>q_draining := q_draining s\<rparr>"
      using drained cancel
      by (simp add: turn_finally_def after_turn_def Let_def drainChatQueue.simps)
    then show ?thesis
      using find True by (simp add: turn_settles_def drain_finally_def after_turn_def)
  next
    case False
    then have "q_draining s - {at_chat a} = q_draining s" using drained by simp
    then show ?thesis
      using find False cancel by (simp add: turn_settles_def turn_finally_def after_turn_def Let_def)
  qed
qed

text \<open>The events of the back office: no outward message, and no shutdown of the queues.\<close>

fun back_office :: "turn_event \<Rightarrow> bool" where
  "back_office (OutwardSend _ _) = False"
| "back_office CloseQueues = False"
| "back_office _ = True"

lemma turns_inv_settles: "turns_inv s \<Longrightarrow> turns_inv (turn_settles s k)"
proof (cases "List.find (\<lambda>a. at_controller a = k) (t_active s)")
  case None
  then show "turns_inv s \<Longrightarrow> ?thesis" by (simp add: turn_settles_def)
next
  case (Some a)
  assume inv: "turns_inv s"
  have a: "a \<in> set (t_active s)" and k: "k = at_controller a"
    using Some by (auto simp: find_Some_iff)
  have ok: "registries_ok s" using inv by (simp add: turns_inv_def)
  have "not_stalled {at_chat a} (after_turn s a)"
    using inv by (auto simp: turns_inv_def not_stalled_def after_turn_def queue_of_def)
  moreover have "at_chat a \<notin> t_chatTurns (after_turn s a)" by (simp add: after_turn_def)
  ultimately show ?thesis
    unfolding k turn_settles_eq [OF ok a] by (intro drain_inv after_turn_registries ok a)
qed

lemma turns_inv_step: "turns_inv s \<Longrightarrow> back_office e \<Longrightarrow> turns_inv (turns_step s e)"
proof (cases e)
  case (Send c uuid msg)
  assume inv: "turns_inv s"
  show ?thesis
  proof (cases "c \<in> t_removed s \<or> c \<in> t_chatTurns s")
    case True
    then show ?thesis
      using inv Send
      by (auto simp: send_message_def hasRunningTurn_def enqueueTurn_def turns_inv_def Let_def
          registries_ok_def not_stalled_def queue_of_def)
  next
    case False
    have "registries_ok (startChatTurn s c msg False)"
      using inv False by (intro startChatTurn_registries) (simp_all add: turns_inv_def)
    then show ?thesis
      using inv Send False
      by (auto simp: send_message_def hasRunningTurn_def turns_inv_def not_stalled_def
          startChatTurn_def queue_of_def)
  qed
next
  case (CancelQueued c t)
  assume "turns_inv s"
  moreover have "queue_of (cancel_queued s c t) c' \<noteq> [] \<Longrightarrow> queue_of s c' \<noteq> []" for c'
    by (auto simp: cancel_queued_def cancelQueuedTurn_def queue_of_def Let_def
        split: option.splits if_splits)
  moreover have "t_active (cancel_queued s c t) = t_active s"
    "t_chatTurns (cancel_queued s c t) = t_chatTurns s" "q_draining (cancel_queued s c t) = q_draining s"
    "t_chatCancels (cancel_queued s c t) = t_chatCancels s"
    "t_nextController (cancel_queued s c t) = t_nextController s"
    by (auto simp: cancel_queued_def cancelQueuedTurn_def Let_def split: option.splits)
  ultimately show ?thesis
    using CancelQueued by (auto simp: turns_inv_def registries_ok_def not_stalled_def)
next
  case (TurnSettles k)
  assume "turns_inv s"
  then show ?thesis using TurnSettles turns_inv_settles by simp
next
  case (RemoveChat c)
  assume "turns_inv s"
  moreover have "registries_ok (remove_chat s c) = registries_ok s"
    by (simp add: remove_chat_def cancelQueuedTurns_def registries_ok_def)
  ultimately show ?thesis
    using RemoveChat
    by (auto simp: remove_chat_def cancelQueuedTurns_def turns_inv_def not_stalled_def queue_of_def)
next
  case (RestoreChat c)
  assume "turns_inv s"
  moreover have "registries_ok (restore_chat s c) = registries_ok s"
    by (simp add: restore_chat_def registries_ok_def)
  ultimately show ?thesis
    using RestoreChat by (auto simp: restore_chat_def turns_inv_def not_stalled_def queue_of_def)
next
  case (CancelRunning c)
  assume "turns_inv s"
  moreover have "registries_ok (cancel_running s c) = registries_ok s"
    by (simp add: cancel_running_def abortTurn_def registries_ok_def split: option.splits)
  ultimately show ?thesis
    using CancelRunning
    by (auto simp: cancel_running_def abortTurn_def turns_inv_def not_stalled_def queue_of_def
        split: option.splits)
qed simp_all

interpretation turns: invariant_system init_turns turns_step back_office turns_inv
proof
  show "turns_inv init_turns"
    by (auto simp: turns_inv_def registries_ok_def not_stalled_def queue_of_def init_turns_def)
qed (rule turns_inv_step)

text \<open>
  Claim C4. Turns are serial within a chat: whatever the back office does (messages, cancelled
  queue entries, aborts, archiving and restoring, turns that settle in any order), at every
  moment a chat has at most one pending turn, \<^verbatim>\<open>hasRunningTurn\<close> answers exactly for the chats that
  have one, and a message waits in a queue only behind a running turn of its chat.
\<close>

theorem chat_turns_serial:
  assumes "list_all back_office es"
  shows "distinct (map at_chat (t_active (foldl turns_step init_turns es))) \<and>
    (hasRunningTurn (foldl turns_step init_turns es) c \<longleftrightarrow>
       c \<in> at_chat ` set (t_active (foldl turns_step init_turns es))) \<and>
    (queuedTurnsFor (foldl turns_step init_turns es) c > 0 \<longrightarrow>
       hasRunningTurn (foldl turns_step init_turns es) c)"
  using turns.inv_reachable [OF assms]
  by (auto simp: turns_inv_def registries_ok_def not_stalled_def hasRunningTurn_def
      queuedTurnsFor_def queue_of_def split: option.splits)

lemma chat_turns_serial_witness:
  "distinct (map at_chat (t_active (foldl turns_step init_turns
     [Send ''a'' ''1'' ''hi'', Send ''a'' ''2'' ''more'', Send ''b'' ''3'' ''yo'', TurnSettles 0]))) \<and>
   hasRunningTurn (foldl turns_step init_turns
     [Send ''a'' ''1'' ''hi'', Send ''a'' ''2'' ''more'', Send ''b'' ''3'' ''yo'', TurnSettles 0]) ''a''"
  using chat_turns_serial [of "[Send ''a'' ''1'' ''hi'', Send ''a'' ''2'' ''more'',
    Send ''b'' ''3'' ''yo'', TurnSettles 0]" "''a''"]
  by code_simp

section \<open>Order\<close>

text \<open>What a chat has started so far, followed by what waits in its queue.\<close>

definition started_in :: "turns_state \<Rightarrow> id \<Rightarrow> string list" where
  "started_in s c = map snd (filter (\<lambda>p. fst p = c) (t_started s))"

definition chat_history :: "turns_state \<Rightarrow> id \<Rightarrow> string list" where
  "chat_history s c = started_in s c @ map qt_text (queue_of s c)"

lemma chat_history_drain:
  "c' = c \<longrightarrow> c \<notin> t_removed s \<Longrightarrow> chat_history (drainChatQueue s c') c = chat_history s c"
proof (induction s c' rule: drainChatQueue.induct)
  case (1 s c')
  show ?case
    using 1
    by (subst drainChatQueue.simps)
      (auto simp: chat_history_def started_in_def queue_of_def startChatTurn_def Let_def
        split: option.splits list.splits)
qed

lemma removed_drain [simp]: "t_removed (drainChatQueue s c) = t_removed s"
proof (induction s c rule: drainChatQueue.induct)
  case (1 s c)
  then show ?case
    by (subst drainChatQueue.simps) (auto simp: startChatTurn_def Let_def split: option.splits list.splits)
qed

lemma chat_history_cong:
  "t_started s = t_started s' \<Longrightarrow> q_queues s = q_queues s' \<Longrightarrow> chat_history s c = chat_history s' c"
  by (simp add: chat_history_def started_in_def queue_of_def)

lemma chat_history_drain_of:
  assumes "t_started s' = t_started s" "q_queues s' = q_queues s" "t_removed s' = t_removed s"
    and "c \<notin> t_removed s"
  shows "chat_history (drainChatQueue s' c') c = chat_history s c"
  using assms chat_history_drain [of c' c s'] chat_history_cong [of s' s] by simp

lemma turn_finally_history:
  "c \<notin> t_removed s \<Longrightarrow> chat_history (turn_finally s a) c = chat_history s c"
  unfolding turn_finally_def Let_def by (rule chat_history_drain_of) simp_all

lemma turn_finally_removed [simp]: "t_removed (turn_finally s a) = t_removed s"
  by (simp add: turn_finally_def Let_def)

lemma drain_finally_history:
  "c \<notin> t_removed s \<Longrightarrow> chat_history (drain_finally s c') c = chat_history s c"
  unfolding drain_finally_def by (rule chat_history_drain_of) simp_all

lemma turn_settles_history:
  "c \<notin> t_removed s \<Longrightarrow> chat_history (turn_settles s k) c = chat_history s c"
  by (simp add: turn_settles_def turn_finally_history drain_finally_history split: option.split)

lemma turn_settles_removed [simp]: "t_removed (turn_settles s k) = t_removed s"
  by (simp add: turn_settles_def drain_finally_def split: option.split)

text \<open>The events that neither archive chat \<open>c\<close> nor take a message out of its queue.\<close>

fun keeps_messages :: "id \<Rightarrow> turn_event \<Rightarrow> bool" where
  "keeps_messages c (RemoveChat c') = (c' \<noteq> c)"
| "keeps_messages c (CancelQueued c' _) = (c' \<noteq> c)"
| "keeps_messages c e = back_office e"

fun sent_to :: "id \<Rightarrow> turn_event list \<Rightarrow> string list" where
  "sent_to c [] = []"
| "sent_to c (Send c' _ msg # es) = (if c' = c then msg # sent_to c es else sent_to c es)"
| "sent_to c (_ # es) = sent_to c es"

lemma keeps_back_office: "keeps_messages c e \<Longrightarrow> back_office e"
  by (cases "(c, e)" rule: keeps_messages.cases) auto

lemma sent_to_append: "sent_to c (xs @ ys) = sent_to c xs @ sent_to c ys"
proof (induction xs)
  case (Cons e xs)
  then show ?case by (cases e) auto
qed simp

lemma idle_queue: "turns_inv s \<Longrightarrow> c \<notin> t_chatTurns s \<Longrightarrow> queue_of s c = []"
  by (auto simp: turns_inv_def not_stalled_def)

lemma send_history:
  assumes "turns_inv s" and "c' \<notin> t_removed s"
  shows "chat_history (fst (send_message s c' uuid msg)) c =
           chat_history s c @ (if c' = c then [msg] else [])"
proof (cases "c' \<in> t_chatTurns s")
  case True
  then show ?thesis
    using assms(2)
    by (auto simp: send_message_def hasRunningTurn_def enqueueTurn_def Let_def chat_history_def
        started_in_def queue_of_def split: option.splits)
next
  case False
  then show ?thesis
    using assms(2) idle_queue [OF assms(1) False]
    by (auto simp: send_message_def hasRunningTurn_def chat_history_def started_in_def
        startChatTurn_def queue_of_def)
qed

lemma send_removed [simp]: "t_removed (fst (send_message s c uuid msg)) = t_removed s"
  by (simp add: send_message_def enqueueTurn_def startChatTurn_def Let_def)

lemma step_history:
  assumes inv: "turns_inv s" and live: "c \<notin> t_removed s" and keeps: "keeps_messages c e"
  shows "chat_history (turns_step s e) c = chat_history s c @ sent_to c [e] \<and>
     c \<notin> t_removed (turns_step s e)"
proof (cases e)
  case (Send c' uuid msg)
  then show ?thesis
    using send_history [OF inv, of c' uuid msg c] live send_removed [of s c' uuid msg]
    by (cases "c' \<in> t_removed s") (auto simp: send_message_def simp del: send_removed)
next
  case (TurnSettles k)
  then show ?thesis using turn_settles_history [OF live] live by simp
qed (use live keeps in \<open>auto simp: cancel_queued_def cancelQueuedTurn_def cancel_running_def abortTurn_def
    remove_chat_def cancelQueuedTurns_def restore_chat_def chat_history_def started_in_def
    queue_of_def Let_def split: option.splits\<close>)

lemma history_reachable:
  "list_all (keeps_messages c) es \<Longrightarrow>
   chat_history (foldl turns_step init_turns es) c = sent_to c es \<and>
   c \<notin> t_removed (foldl turns_step init_turns es)"
proof (induction es rule: rev_induct)
  case Nil
  then show ?case by (simp add: chat_history_def started_in_def queue_of_def init_turns_def)
next
  case (snoc e es)
  have "list_all back_office es"
    using snoc.prems by (auto simp: list_all_iff intro: keeps_back_office)
  then show ?case
    using snoc step_history [OF turns.inv_reachable, of es c e]
    by (simp add: sent_to_append)
qed

text \<open>
  Messages of a chat start in the order in which they were sent, each exactly once:
  while the chat is not archived and nothing is taken out of its queue, the started turns followed by
  the queued ones are the messages sent to it, whatever happens in the other chats; and when no
  turn of the chat is running, all of them have been started.
\<close>

theorem chat_turns_fifo:
  assumes "list_all (keeps_messages c) es"
  shows "started_in (foldl turns_step init_turns es) c @
      map qt_text (queue_of (foldl turns_step init_turns es) c) = sent_to c es \<and>
    (hasRunningTurn (foldl turns_step init_turns es) c \<or>
      started_in (foldl turns_step init_turns es) c = sent_to c es)"
proof -
  have "list_all back_office es"
    using assms by (auto simp: list_all_iff intro: keeps_back_office)
  from idle_queue [OF turns.inv_reachable [OF this], of c] history_reachable [OF assms]
  show ?thesis by (cases "c \<in> t_chatTurns (foldl turns_step init_turns es)")
    (auto simp: chat_history_def hasRunningTurn_def)
qed

lemma chat_turns_fifo_witness:
  "started_in (foldl turns_step init_turns [Send ''a'' ''1'' ''hi'', Send ''a'' ''2'' ''more'',
     RemoveChat ''b'', TurnSettles 0, TurnSettles 1]) ''a'' = [''hi'', ''more'']"
  using chat_turns_fifo [of "''a''" "[Send ''a'' ''1'' ''hi'', Send ''a'' ''2'' ''more'',
     RemoveChat ''b'', TurnSettles 0, TurnSettles 1]"]
  by code_simp

section \<open>The outward API\<close>

lemma outward_active:
  "c \<notin> t_removed s \<Longrightarrow> map at_chat (t_active (outward_message s c msg)) = map at_chat (t_active s) @ [c]"
  by (simp add: outward_message_def startChatTurn_def)

text \<open>
  The outward API is outside this discipline: a message to a live conversation starts a
  turn whether or not one is running, so a second message that arrives during the first
  turn puts two turns of the same chat in flight; and when the first of them settles, the
  chat reads as idle and a back-office message starts a further turn beside the one that still runs.
\<close>

theorem outward_turns_overlap:
  assumes "c \<notin> t_removed s"
  shows "\<not> distinct (map at_chat (t_active (outward_message (outward_message s c m1) c m2))) \<and>
    snd (send_message (turn_settles (outward_message (outward_message init_turns c m1) c m2) 0) c u m3)
      = TurnAccepted"
proof -
  have "t_removed (outward_message s c m1) = t_removed s"
    by (simp add: outward_message_def startChatTurn_def)
  then show ?thesis
    using assms
    by (simp add: outward_active send_message_def turn_settles_def turn_finally_def drainChatQueue.simps
        outward_message_def startChatTurn_def init_turns_def hasRunningTurn_def)
qed

lemma outward_turns_overlap_witness:
  "\<not> distinct (map at_chat (t_active (outward_message (outward_message init_turns ''c'' ''x'') ''c'' ''y'')))"
  using outward_turns_overlap [of "''c''" init_turns "''x''" "''y''"] by (simp add: init_turns_def)

end
