(* ===== verification/ChatStore.thy ===== *)
theory ChatStore
  imports Database
begin

text \<open>
  The chat threads (\<^verbatim>\<open>src/chat/store.ts\<close>) and the idle reclaim of outward conversations
  (\<^verbatim>\<open>src/public-api/idle-sweep.ts\<close>), as operations on the database.  An operation that may collide
  with a unique index of the table is partial: \<open>None\<close> is the exception of the driver.  The clock
  and the fresh identifier are arguments.
\<close>

section \<open>Operations\<close>

record chat_owner =
  own_apiKeyId :: id
  own_externalUserId :: "string option"
  own_serviceId :: id

definition new_chat_row :: "id \<Rightarrow> id \<Rightarrow> time \<Rightarrow> chat_owner option \<Rightarrow> chat_row" where
  "new_chat_row uuid aid now ow =
     \<lparr>chat_id = uuid, chat_agentId = aid, chat_dshSessionId = None, chat_title = None,
      chat_createdAt = now, chat_lastActiveAt = now, chat_removedAt = None,
      chat_accessModeOverride = None, chat_accessMode = None,
      chat_apiKeyId = map_option own_apiKeyId ow,
      chat_externalUserId = Option.bind ow own_externalUserId,
      chat_serviceId = map_option own_serviceId ow\<rparr>"

definition createChat ::
    "db \<Rightarrow> id \<Rightarrow> id \<Rightarrow> time \<Rightarrow> chat_owner option \<Rightarrow> (db \<times> chat_row) option" where
  "createChat d uuid aid now ow =
     (let row = new_chat_row uuid aid now ow
      in map_option (\<lambda>d'. (d', row)) (insert_chat d row))"

definition findLiveConversation :: "db \<Rightarrow> id \<Rightarrow> string \<Rightarrow> chat_row option" where
  "findLiveConversation d key user =
     first_row (\<lambda>c. chat_apiKeyId c = Some key \<and> chat_externalUserId c = Some user \<and>
                    chat_removedAt c = None) (db_chats d)"

definition getChat :: "db \<Rightarrow> id \<Rightarrow> chat_row option" where
  "getChat d i = first_row (\<lambda>c. chat_id c = i) (db_chats d)"

text \<open>Rows that tie in the \<^verbatim>\<open>ORDER BY\<close> column keep the insertion order.\<close>

definition turn_count :: "db \<Rightarrow> id \<Rightarrow> int" where
  "turn_count d i = count_where (\<lambda>r. run_chatId r = Some i) (db_runs d)"

definition listChats :: "db \<Rightarrow> id \<Rightarrow> nat \<Rightarrow> (chat_row \<times> int) list" where
  "listChats d aid limit =
     map (\<lambda>c. (c, turn_count d (chat_id c)))
       (take limit (js_sort (\<lambda>a b. chat_lastActiveAt b - chat_lastActiveAt a)
          (filter (\<lambda>c. chat_agentId c = aid \<and> chat_removedAt c = None) (db_chats d))))"

definition archived_at :: "chat_row \<Rightarrow> time" where
  "archived_at c = (case chat_removedAt c of None \<Rightarrow> 0 | Some t \<Rightarrow> t)"

definition listArchivedChats :: "db \<Rightarrow> nat \<Rightarrow> (chat_row \<times> int) list" where
  "listArchivedChats d limit =
     map (\<lambda>c. (c, turn_count d (chat_id c)))
       (take limit (js_sort (\<lambda>a b. archived_at b - archived_at a)
          (filter (\<lambda>c. chat_removedAt c \<noteq> None) (db_chats d))))"

definition update_chat :: "(chat_row \<Rightarrow> bool) \<Rightarrow> (chat_row \<Rightarrow> chat_row) \<Rightarrow> db \<Rightarrow> db" where
  "update_chat p f d = d\<lparr>db_chats := upd_where p f (db_chats d)\<rparr>"

definition bindSession :: "db \<Rightarrow> id \<Rightarrow> id \<Rightarrow> time \<Rightarrow> db option" where
  "bindSession d i sid now =
     write_chats d (upd_where (\<lambda>c. chat_id c = i)
       (\<lambda>c. c\<lparr>chat_dshSessionId := Some sid, chat_lastActiveAt := now\<rparr>) (db_chats d))"

definition touchChat :: "db \<Rightarrow> id \<Rightarrow> time \<Rightarrow> db" where
  "touchChat d i now = update_chat (\<lambda>c. chat_id c = i) (\<lambda>c. c\<lparr>chat_lastActiveAt := now\<rparr>) d"

definition setTitleIfEmpty :: "db \<Rightarrow> id \<Rightarrow> string \<Rightarrow> db" where
  "setTitleIfEmpty d i t =
     update_chat (\<lambda>c. chat_id c = i \<and> chat_title c = None) (\<lambda>c. c\<lparr>chat_title := Some t\<rparr>) d"

definition renameChat :: "db \<Rightarrow> id \<Rightarrow> string \<Rightarrow> db" where
  "renameChat d i t = update_chat (\<lambda>c. chat_id c = i) (\<lambda>c. c\<lparr>chat_title := Some t\<rparr>) d"

definition removeChat :: "db \<Rightarrow> id \<Rightarrow> time \<Rightarrow> db" where
  "removeChat d i now = update_chat (\<lambda>c. chat_id c = i) (\<lambda>c. c\<lparr>chat_removedAt := Some now\<rparr>) d"

definition restoreChat :: "db \<Rightarrow> id \<Rightarrow> db option" where
  "restoreChat d i =
     write_chats d (upd_where (\<lambda>c. chat_id c = i) (\<lambda>c. c\<lparr>chat_removedAt := None\<rparr>) (db_chats d))"

text \<open>The loops select the live rows once and then archive row by row.\<close>

definition archiveOrphanChats :: "db \<Rightarrow> id set \<Rightarrow> time \<Rightarrow> db \<times> int" where
  "archiveOrphanChats d known now =
     foldl (\<lambda>(d', n) row. if chat_agentId row \<in> known then (d', n)
                          else (removeChat d' (chat_id row) now, n + 1))
       (d, 0) (filter (\<lambda>c. chat_removedAt c = None) (db_chats d))"

definition chatRuns :: "db \<Rightarrow> id \<Rightarrow> (run_row \<times> usage_row option) list" where
  "chatRuns d i =
     map (\<lambda>r. (r, first_row (\<lambda>u. usage_runId u = run_id r) (rev (db_usage d))))
       (js_sort (\<lambda>a b. run_startedAt a - run_startedAt b)
          (filter (\<lambda>r. run_chatId r = Some i) (db_runs d)))"

section \<open>Idle reclaim\<close>

record service_window =
  sw_id :: id
  sw_sessionIdleHours :: "rat option"

definition DEFAULT_SESSION_IDLE_HOURS :: rat where
  "DEFAULT_SESSION_IDLE_HOURS = 24"

definition HOUR_MS :: rat where
  "HOUR_MS = 3600000"

text \<open>A later service of the same id overwrites the window of an earlier one.\<close>

definition window_of :: "service_window list \<Rightarrow> id option \<Rightarrow> rat" where
  "window_of services sid =
     (case map_of (map (\<lambda>s. (sw_id s, (case sw_sessionIdleHours s of None \<Rightarrow> DEFAULT_SESSION_IDLE_HOURS
                                       | Some h \<Rightarrow> h) * HOUR_MS)) (rev services))
             (case sid of None \<Rightarrow> '''' | Some i \<Rightarrow> i) of
        None \<Rightarrow> DEFAULT_SESSION_IDLE_HOURS * HOUR_MS
      | Some w \<Rightarrow> w)"

definition idle_past_window :: "service_window list \<Rightarrow> time \<Rightarrow> chat_row \<Rightarrow> bool" where
  "idle_past_window services now row \<longleftrightarrow>
     \<not> of_int (now - chat_lastActiveAt row) < window_of services (chat_serviceId row)"

definition sweepIdleConversations :: "db \<Rightarrow> service_window list \<Rightarrow> time \<Rightarrow> db \<times> int" where
  "sweepIdleConversations d services now =
     foldl (\<lambda>(d', n) row. if \<not> idle_past_window services now row then (d', n)
                          else (removeChat d' (chat_id row) now, n + 1))
       (d, 0) (filter (\<lambda>c. chat_removedAt c = None \<and> chat_serviceId c \<noteq> None) (db_chats d))"

section \<open>Archiving loops\<close>

lemma upd_where_comp:
  "upd_where p f (upd_where q f rows) = upd_where (\<lambda>r. p r \<or> q r) f rows"
  if "\<And>r. f (f r) = f r" "\<And>r. p (f r) = p r"
  using that by (induction rows) auto

lemma remove_loop:
  "foldl (\<lambda>(d', n) row. if skip row then (d', n) else (removeChat d' (chat_id row) now, n + 1))
     (update_chat (\<lambda>c. chat_id c \<in> done') (\<lambda>c. c\<lparr>chat_removedAt := Some now\<rparr>) d, n) rows =
   (update_chat (\<lambda>c. chat_id c \<in> done' \<union> chat_id ` {r \<in> set rows. \<not> skip r})
      (\<lambda>c. c\<lparr>chat_removedAt := Some now\<rparr>) d,
    n + count_where (\<lambda>r. \<not> skip r) rows)"
proof (induction rows arbitrary: done' n)
  case (Cons row rows)
  show ?case
  proof (cases "skip row")
    case True
    then have "{r \<in> set (row # rows). \<not> skip r} = {r \<in> set rows. \<not> skip r}" by auto
    with True show ?thesis by (simp add: Cons.IH)
  next
    case False
    have one: "removeChat (update_chat (\<lambda>c. chat_id c \<in> done') (\<lambda>c. c\<lparr>chat_removedAt := Some now\<rparr>) d)
        (chat_id row) now =
      update_chat (\<lambda>c. chat_id c \<in> insert (chat_id row) done') (\<lambda>c. c\<lparr>chat_removedAt := Some now\<rparr>) d"
      by (simp add: removeChat_def update_chat_def upd_where_comp)
    have "{r \<in> set (row # rows). \<not> skip r} = insert row {r \<in> set rows. \<not> skip r}"
      using False by auto
    then show ?thesis
      using False Cons.IH [of "insert (chat_id row) done'" "n + 1"] by (simp add: one)
  qed
qed (simp add: update_chat_def)

lemma remove_loop_start:
  "foldl (\<lambda>(d', n) row. if skip row then (d', n) else (removeChat d' (chat_id row) now, n + 1))
     (d, 0) rows =
   (update_chat (\<lambda>c. chat_id c \<in> chat_id ` {r \<in> set rows. \<not> skip r})
      (\<lambda>c. c\<lparr>chat_removedAt := Some now\<rparr>) d, count_where (\<lambda>r. \<not> skip r) rows)"
proof -
  have "update_chat (\<lambda>c. chat_id c \<in> {}) (\<lambda>c. c\<lparr>chat_removedAt := Some now\<rparr>) d = d"
    by (simp add: update_chat_def upd_where_none)
  then show ?thesis using remove_loop [of skip now "{}" d 0 rows] by simp
qed

lemma key_image_iff:
  "distinct (map key rows) \<Longrightarrow> r \<in> set rows \<Longrightarrow> key r \<in> key ` {q \<in> set rows. P q} \<longleftrightarrow> P r"
  by (auto simp: distinct_map inj_on_def image_iff)

lemma upd_where_cong:
  "(\<And>r. r \<in> set rows \<Longrightarrow> p r = q r) \<Longrightarrow> upd_where p f rows = upd_where q f rows"
  by (simp add: upd_where_def)

lemma remove_loop_rows:
  assumes "distinct (map chat_id (db_chats d))"
  shows "update_chat (\<lambda>c. chat_id c \<in> chat_id ` {r \<in> set (filter sel (db_chats d)). \<not> skip r}) f d =
     update_chat (\<lambda>c. sel c \<and> \<not> skip c) f d"
proof -
  have "{r \<in> set (filter sel (db_chats d)). \<not> skip r} = {r \<in> set (db_chats d). sel r \<and> \<not> skip r}"
    by auto
  then show ?thesis
    unfolding update_chat_def
    by (simp add: key_image_iff [OF assms] cong: upd_where_cong)
qed

section \<open>The store invariant\<close>

text \<open>What the primary key, the unique indexes and the references of \<^verbatim>\<open>chat\<close> guarantee.\<close>

definition store_ok :: "db \<Rightarrow> bool" where
  "store_ok d \<longleftrightarrow> distinct (map chat_id (db_chats d)) \<and> chat_indexes_ok (db_chats d) \<and>
     (\<forall>c \<in> set (db_chats d). chat_refs_ok d c)"

text \<open>One call of an operation of the store that returns.\<close>

inductive chat_step :: "db \<Rightarrow> db \<Rightarrow> bool" where
  step_create: "createChat d uuid aid now ow = Some (d', row) \<Longrightarrow> chat_step d d'"
| step_bind: "bindSession d i sid now = Some d' \<Longrightarrow> chat_step d d'"
| step_touch: "chat_step d (touchChat d i now)"
| step_title: "chat_step d (setTitleIfEmpty d i t)"
| step_rename: "chat_step d (renameChat d i t)"
| step_remove: "chat_step d (removeChat d i now)"
| step_restore: "restoreChat d i = Some d' \<Longrightarrow> chat_step d d'"
| step_orphans: "chat_step d (fst (archiveOrphanChats d known now))"
| step_sweep: "chat_step d (fst (sweepIdleConversations d services now))"

lemma store_ok_rewrite:
  assumes ok: "store_ok d" and ix: "chat_indexes_ok (upd_where p f (db_chats d))"
    and f: "\<And>c. chat_id (f c) = chat_id c" "\<And>c. chat_agentId (f c) = chat_agentId c"
      "\<And>c. chat_apiKeyId (f c) = chat_apiKeyId c"
  shows "store_ok (d\<lparr>db_chats := upd_where p f (db_chats d)\<rparr>)"
  using ok ix
  by (auto simp: store_ok_def set_upd_where chat_refs_ok_def f upd_where_map_same [of chat_id f, OF f(1)])

lemma store_ok_update:
  assumes "store_ok d"
    and "\<And>c. chat_id (f c) = chat_id c" "\<And>c. chat_agentId (f c) = chat_agentId c"
      "\<And>c. chat_apiKeyId (f c) = chat_apiKeyId c" "\<And>c. chat_dshSessionId (f c) = chat_dshSessionId c"
      "\<And>c. chat_anchor (f c) = chat_anchor c" "\<And>c. chat_live (f c) \<Longrightarrow> chat_live c"
  shows "store_ok (update_chat p f d)"
  unfolding update_chat_def
  by (rule store_ok_rewrite) (use assms in \<open>auto simp: store_ok_def intro: chat_indexes_upd\<close>)

lemma archive_store_ok:
  "store_ok d \<Longrightarrow> store_ok (update_chat p (\<lambda>c. c\<lparr>chat_removedAt := Some now\<rparr>) d)"
  by (rule store_ok_update) (auto simp: chat_anchor_def chat_live_def)

lemma insert_chat_store_ok: "store_ok d \<Longrightarrow> insert_chat d c = Some d' \<Longrightarrow> store_ok d'"
  by (auto simp: store_ok_def dest!: insert_chat_Some)
    (auto simp: chat_refs_ok_def)

lemma chat_step_store_ok: "chat_step d d' \<Longrightarrow> store_ok d \<Longrightarrow> store_ok d'"
proof (induction rule: chat_step.induct)
  case (step_create d uuid aid now ow d' row)
  then show ?case by (auto simp: createChat_def Let_def intro: insert_chat_store_ok)
next
  case (step_bind d i sid now d')
  then show ?case by (auto simp: bindSession_def write_chats_Some intro!: store_ok_rewrite)
next
  case (step_restore d i d')
  then show ?case by (auto simp: restoreChat_def write_chats_Some intro!: store_ok_rewrite)
qed (auto simp: touchChat_def setTitleIfEmpty_def renameChat_def removeChat_def archiveOrphanChats_def
    sweepIdleConversations_def remove_loop_start chat_anchor_def chat_live_def
    intro!: archive_store_ok store_ok_update)

lemma chat_steps_store_ok: "chat_step\<^sup>*\<^sup>* d d' \<Longrightarrow> store_ok d \<Longrightarrow> store_ok d'"
  by (induction rule: rtranclp_induct) (auto intro: chat_step_store_ok)

lemma anchor_unique:
  assumes ok: "chat_indexes_ok cs" and c: "c \<in> set cs" "anchored c"
    and e: "e \<in> set cs" "anchored e" and same: "chat_anchor c = chat_anchor e"
  shows "c = e"
proof -
  have "inj_on chat_anchor (set (filter anchored cs))"
    using ok by (simp add: chat_indexes_ok_def distinct_map)
  then show ?thesis using c e same by (auto dest: inj_onD)
qed

lemma findLiveConversation_iff:
  assumes ok: "store_ok d"
  shows "findLiveConversation d key user = Some c \<longleftrightarrow>
      c \<in> set (db_chats d) \<and> chat_apiKeyId c = Some key \<and> chat_externalUserId c = Some user \<and>
      chat_removedAt c = None"
proof -
  define P where "P = (\<lambda>c :: chat_row. chat_apiKeyId c = Some key \<and> chat_externalUserId c = Some user \<and> chat_removedAt c = None)"
  have uniq: "c = e" if "c \<in> set (db_chats d)" "P c" "e \<in> set (db_chats d)" "P e" for c e
    using anchor_unique [of "db_chats d" c e] ok that
    by (auto simp: store_ok_def anchored_def chat_live_def chat_anchor_def P_def)
  have "first_row P (db_chats d) = Some c \<longleftrightarrow> c \<in> set (db_chats d) \<and> P c"
  proof
    assume c: "c \<in> set (db_chats d) \<and> P c"
    then have "first_row P (db_chats d) \<noteq> None" by (auto simp: first_row_None)
    then obtain e where e: "first_row P (db_chats d) = Some e" by blast
    then show "first_row P (db_chats d) = Some c"
      using uniq [of c e] c first_row_Some [OF e] by simp
  qed (rule first_row_Some)
  then show ?thesis by (simp add: findLiveConversation_def P_def)
qed

text \<open>
  Stickiness is unambiguous: after any sequence of store operations, in any order and with
  any arguments, the lookup of an external user under a key returns a conversation exactly when it is a
  live conversation of that user under that key, so there is at most one, and chat ids stay unique.
\<close>

theorem sticky_conversation_unique:
  assumes "chat_step\<^sup>*\<^sup>* d0 d" and "store_ok d0"
  shows "distinct (map chat_id (db_chats d)) \<and>
    (findLiveConversation d key user = Some c \<longleftrightarrow>
      c \<in> set (db_chats d) \<and> chat_apiKeyId c = Some key \<and> chat_externalUserId c = Some user \<and>
      chat_removedAt c = None)"
  using chat_steps_store_ok [OF assms] findLiveConversation_iff [of d] by (simp add: store_ok_def)

definition sample_agent :: agent_row where
  "sample_agent = \<lparr>agent_id = ''w1'', agent_name = ''w1'', agent_workspacePath = ''/w'',
     agent_endpoint = ''w1'', agent_preset = None, agent_gitRemote = None, agent_public = 0,
     agent_createdAt = 0\<rparr>"

definition sample_key :: api_key_row where
  "sample_key = \<lparr>key_id = ''k1'', key_name = ''k'', key_keyHash = ''h'', key_scopes = [],
     key_scopeServices = [], key_quotaRunsDay = None, key_rateLimitRpm = 60, key_maxConcurrency = 4,
     key_expiresAt = None, key_revokedAt = None, key_lastUsedAt = None, key_createdBy = ''a'',
     key_createdAt = 0\<rparr>"

definition sample_db :: db where
  "sample_db = empty_db\<lparr>db_agents := [sample_agent], db_apiKeys := [sample_key]\<rparr>"

definition sample_owner :: chat_owner where
  "sample_owner = \<lparr>own_apiKeyId = ''k1'', own_externalUserId = Some ''u1'', own_serviceId = ''s1''\<rparr>"

lemma sample_db_ok: "store_ok sample_db"
  by (simp add: store_ok_def sample_db_def empty_db_def chat_indexes_ok_def)

lemma sticky_conversation_unique_witness:
  "findLiveConversation (fst (the (createChat sample_db ''c1'' ''w1'' 5 (Some sample_owner)))) ''k1'' ''u1''
     = Some (new_chat_row ''c1'' ''w1'' 5 (Some sample_owner))"
proof -
  have "createChat sample_db ''c1'' ''w1'' 5 (Some sample_owner) =
    Some (fst (the (createChat sample_db ''c1'' ''w1'' 5 (Some sample_owner))),
          new_chat_row ''c1'' ''w1'' 5 (Some sample_owner))"
    by code_simp
  from sticky_conversation_unique
    [OF r_into_rtranclp [where r = chat_step, OF step_create [OF this]] sample_db_ok]
  show ?thesis by code_simp
qed

section \<open>Archiving and restoring\<close>

text \<open>
  Claim C5. The idle sweep archives exactly the live outward conversations whose last activity is at
  least their service's window ago (24 hours for a service that is gone from the config), and reports
  their number; every other row of the table and every other table is unchanged, so nothing is deleted
  and an internal chat is never archived.
\<close>

theorem idle_sweep_exact:
  assumes "store_ok d"
  shows "fst (sweepIdleConversations d services now) =
      d\<lparr>db_chats := map (\<lambda>c. if chat_removedAt c = None \<and> chat_serviceId c \<noteq> None \<and>
            window_of services (chat_serviceId c) \<le> of_int (now - chat_lastActiveAt c)
          then c\<lparr>chat_removedAt := Some now\<rparr> else c) (db_chats d)\<rparr> \<and>
    snd (sweepIdleConversations d services now) =
      int (length (filter (\<lambda>c. chat_removedAt c = None \<and> chat_serviceId c \<noteq> None \<and>
            window_of services (chat_serviceId c) \<le> of_int (now - chat_lastActiveAt c)) (db_chats d)))"
proof -
  have ids: "distinct (map chat_id (db_chats d))" using assms by (simp add: store_ok_def)
  define sel where "sel = (\<lambda>c :: chat_row. chat_removedAt c = None \<and> chat_serviceId c \<noteq> None)"
  have eq: "sweepIdleConversations d services now =
      (update_chat (\<lambda>c. sel c \<and> idle_past_window services now c) (\<lambda>c. c\<lparr>chat_removedAt := Some now\<rparr>) d,
       count_where (idle_past_window services now) (filter sel (db_chats d)))"
    using remove_loop_start [of "\<lambda>c. \<not> idle_past_window services now c" now d "filter sel (db_chats d)"]
      remove_loop_rows [OF ids, of sel "\<lambda>c. \<not> idle_past_window services now c"]
    by (simp add: sweepIdleConversations_def sel_def)
  have expired: "idle_past_window services now =
      (\<lambda>c. window_of services (chat_serviceId c) \<le> of_int (now - chat_lastActiveAt c))"
    by (rule ext) (simp only: idle_past_window_def not_less)
  show ?thesis
    unfolding eq fst_conv snd_conv expired sel_def update_chat_def upd_where_def count_where_def
      filter_filter conj_assoc
    by (intro conjI refl arg_cong [where f = "\<lambda>xs. int (length xs)"])
qed

lemma idle_sweep_exact_witness:
  "snd (sweepIdleConversations (sample_db\<lparr>db_chats := [new_chat_row ''c1'' ''w1'' 5 (Some sample_owner),
     new_chat_row ''c2'' ''w1'' 5 None]\<rparr>) [] 86400005) = 1"
proof -
  have "store_ok (sample_db\<lparr>db_chats := [new_chat_row ''c1'' ''w1'' 5 (Some sample_owner),
     new_chat_row ''c2'' ''w1'' 5 None]\<rparr>)"
    by code_simp
  from idle_sweep_exact [OF this, of "[]" 86400005] show ?thesis
    by (simp add: sample_db_def empty_db_def new_chat_row_def window_of_def
        DEFAULT_SESSION_IDLE_HOURS_def HOUR_MS_def sample_owner_def)
qed

lemma sessions_upd:
  assumes "\<And>c. chat_dshSessionId (f c) = chat_dshSessionId c"
  shows "map chat_dshSessionId (filter (\<lambda>c. chat_dshSessionId c \<noteq> None) (upd_where p f cs)) =
         map chat_dshSessionId (filter (\<lambda>c. chat_dshSessionId c \<noteq> None) cs)"
  by (induction cs) (auto simp: assms)

lemma restore_indexes:
  assumes ok: "store_ok d" and c: "c \<in> set (db_chats d)"
  shows "chat_indexes_ok (upd_where (\<lambda>e. chat_id e = chat_id c) (\<lambda>e. e\<lparr>chat_removedAt := None\<rparr>) (db_chats d))
    \<longleftrightarrow> chat_apiKeyId c = None \<or> chat_externalUserId c = None \<or>
        (\<forall>e \<in> set (db_chats d). chat_live e \<longrightarrow> chat_anchor e = chat_anchor c \<longrightarrow> e = c)"
    (is "chat_indexes_ok ?cs \<longleftrightarrow> _")
proof -
  have ids: "distinct (map chat_id (db_chats d))" and ix: "chat_indexes_ok (db_chats d)"
    using ok by (auto simp: store_ok_def)
  have same_id: "e = c" if "e \<in> set (db_chats d)" "chat_id e = chat_id c" for e
    using ids that c unfolding distinct_map inj_on_def by blast
  let ?r = "c\<lparr>chat_removedAt := None\<rparr>"
  have "set ?cs = (\<lambda>e. if e = c then ?r else e) ` set (db_chats d)"
    unfolding set_upd_where by (rule image_cong) (use same_id in \<open>auto\<close>)
  then have rows: "set ?cs = insert ?r (set (db_chats d) - {c})"
    using c by auto
  have "distinct (map chat_id ?cs)" using ids by (simp add: upd_where_map_same)
  then have dist: "distinct (filter anchored ?cs)" by (simp add: distinct_map)
  have s: "map chat_dshSessionId (filter (\<lambda>c. chat_dshSessionId c \<noteq> None) ?cs) =
           map chat_dshSessionId (filter (\<lambda>c. chat_dshSessionId c \<noteq> None) (db_chats d))"
    by (rule sessions_upd) simp
  have "chat_indexes_ok ?cs \<longleftrightarrow> inj_on chat_anchor {e \<in> set ?cs. anchored e}"
    using ix dist distinct_map [of chat_anchor "filter anchored ?cs"]
    unfolding chat_indexes_ok_def s by simp
  also have "\<dots> \<longleftrightarrow> chat_apiKeyId c = None \<or> chat_externalUserId c = None \<or>
        (\<forall>e \<in> set (db_chats d). chat_live e \<longrightarrow> chat_anchor e = chat_anchor c \<longrightarrow> e = c)"
  proof (cases "chat_apiKeyId c = None \<or> chat_externalUserId c = None")
    case True
    then have "{e \<in> set ?cs. anchored e} \<subseteq> {e \<in> set (db_chats d). anchored e}"
      unfolding rows by (auto simp: anchored_def)
    moreover have "inj_on chat_anchor {e \<in> set (db_chats d). anchored e}"
      using ix by (simp add: chat_indexes_ok_def distinct_map)
    ultimately show ?thesis using True by (blast intro: inj_on_subset)
  next
    case False
    define A where "A = {e \<in> set (db_chats d). anchored e \<and> e \<noteq> c}"
    have "{e \<in> set ?cs. anchored e} = insert ?r A"
      using False unfolding rows A_def by (auto simp: anchored_def chat_live_def)
    moreover have "inj_on chat_anchor A"
      using ix by (auto simp: chat_indexes_ok_def distinct_map inj_on_def A_def)
    moreover have "A - {?r} = A"
      using same_id [of ?r] by (auto simp: A_def)
    moreover have "chat_anchor ?r = chat_anchor c" by (simp add: chat_anchor_def)
    ultimately have "inj_on chat_anchor {e \<in> set ?cs. anchored e} \<longleftrightarrow> chat_anchor c \<notin> chat_anchor ` A"
      by (simp add: inj_on_insert)
    also have "\<dots> \<longleftrightarrow> (\<forall>e \<in> set (db_chats d). anchored e \<longrightarrow> chat_anchor e = chat_anchor c \<longrightarrow> e = c)"
      unfolding A_def image_iff by (metis (mono_tags, lifting) mem_Collect_eq)
    also have "\<dots> \<longleftrightarrow> (\<forall>e \<in> set (db_chats d). chat_live e \<longrightarrow> chat_anchor e = chat_anchor c \<longrightarrow> e = c)"
      using False by (intro ball_cong refl) (auto simp: anchored_def chat_anchor_def)
    finally show ?thesis using False by auto
  qed
  finally show ?thesis .
qed

text \<open>
  Restoring an archived conversation throws exactly when it is an outward one whose external
  user has meanwhile been given another live conversation under the same key (the unique index
  \<^verbatim>\<open>chat_api_key_user_live\<close> refuses the second live row); otherwise it only clears the archive mark.
\<close>

theorem restore_conflict:
  assumes "store_ok d" and "c \<in> set (db_chats d)"
  shows "restoreChat d (chat_id c) =
    (if chat_apiKeyId c \<noteq> None \<and> chat_externalUserId c \<noteq> None \<and>
        (\<exists>e \<in> set (db_chats d). e \<noteq> c \<and> chat_removedAt e = None \<and>
           chat_apiKeyId e = chat_apiKeyId c \<and> chat_externalUserId e = chat_externalUserId c)
     then None
     else Some (d\<lparr>db_chats := map (\<lambda>e. if chat_id e = chat_id c then e\<lparr>chat_removedAt := None\<rparr> else e)
                               (db_chats d)\<rparr>))"
  using restore_indexes [OF assms]
  by (auto simp: restoreChat_def write_chats_def upd_where_def chat_live_def chat_anchor_def)

lemma restore_conflict_witness:
  "restoreChat (sample_db\<lparr>db_chats :=
      [new_chat_row ''c1'' ''w1'' 5 (Some sample_owner)\<lparr>chat_removedAt := Some 9\<rparr>,
       new_chat_row ''c2'' ''w1'' 10 (Some sample_owner)]\<rparr>) ''c1'' = None"
proof -
  let ?d = "sample_db\<lparr>db_chats :=
      [new_chat_row ''c1'' ''w1'' 5 (Some sample_owner)\<lparr>chat_removedAt := Some 9\<rparr>,
       new_chat_row ''c2'' ''w1'' 10 (Some sample_owner)]\<rparr>"
  have "store_ok ?d" by code_simp
  from restore_conflict [OF this, of "new_chat_row ''c1'' ''w1'' 5 (Some sample_owner)\<lparr>chat_removedAt := Some 9\<rparr>"]
  show ?thesis by (simp add: new_chat_row_def sample_owner_def)
qed

end
