(* ===== verification/ApiKeys.thy ===== *)
theory ApiKeys
  imports Database
begin

text \<open>
  The keys of the outward API (\<^verbatim>\<open>src/auth/api-key.ts\<close>): minting, verification, revocation and
  editing over the rows of \<^verbatim>\<open>api_key\<close>.  The digest (SHA-256 of \<^verbatim>\<open>node:crypto\<close>) is a parameter,
  the random draws are lists of candidates, and the exceptions of the module are values.
\<close>

section \<open>Token syntax\<close>

datatype key_scope = ServicesRead | UsageRead | TasksWrite | ConversationsWrite | InteractionsWrite

definition scope_name :: "key_scope \<Rightarrow> string" where
  "scope_name s = (case s of ServicesRead \<Rightarrow> ''services:read'' | UsageRead \<Rightarrow> ''usage:read''
     | TasksWrite \<Rightarrow> ''tasks:write'' | ConversationsWrite \<Rightarrow> ''conversations:write''
     | InteractionsWrite \<Rightarrow> ''interactions:write'')"

definition KEY_SCOPES :: "string list" where
  "KEY_SCOPES = map scope_name
     [ServicesRead, UsageRead, TasksWrite, ConversationsWrite, InteractionsWrite]"

definition char_between :: "char \<Rightarrow> char \<Rightarrow> char \<Rightarrow> bool" where
  "char_between lo hi c \<longleftrightarrow> (of_char lo :: nat) \<le> of_char c \<and> (of_char c :: nat) \<le> of_char hi"

definition hex_char :: "char \<Rightarrow> bool" where
  "hex_char c \<longleftrightarrow> char_between CHR ''0'' CHR ''9'' c \<or> char_between CHR ''a'' CHR ''f'' c"

definition secret_char :: "char \<Rightarrow> bool" where
  "secret_char c \<longleftrightarrow> char_between CHR ''A'' CHR ''Z'' c \<or> char_between CHR ''a'' CHR ''z'' c \<or>
     char_between CHR ''0'' CHR ''9'' c \<or> c = CHR ''-''"

definition key_id_ok :: "string \<Rightarrow> bool" where
  "key_id_ok s \<longleftrightarrow> length s = 12 \<and> list_all hex_char s"

definition secret_ok :: "string \<Rightarrow> bool" where
  "secret_ok s \<longleftrightarrow> length s = 43 \<and> list_all secret_char s"

text \<open>\<^verbatim>\<open>TOKEN_RE\<close>: the groups of a match.\<close>

definition parse_token :: "string \<Rightarrow> (string \<times> string) option" where
  "parse_token t =
     (let keyId = take 12 (drop 4 t); secret = drop 17 t
      in if take 4 t = ''dac_'' \<and> key_id_ok keyId \<and> take 1 (drop 16 t) = ''_'' \<and> secret_ok secret
         then Some (keyId, secret) else None)"

definition make_token :: "string \<Rightarrow> string \<Rightarrow> string" where
  "make_token keyId secret = ''dac_'' @ keyId @ ''_'' @ secret"

section \<open>Keys\<close>

record api_key =
  ak_id :: id
  ak_name :: string
  ak_scopes :: "string list"
  ak_scopeServices :: "string list"
  ak_quotaRunsDay :: "int option"
  ak_rateLimitRpm :: int
  ak_maxConcurrency :: int
  ak_expiresAt :: "time option"
  ak_revokedAt :: "time option"
  ak_lastUsedAt :: "time option"
  ak_createdBy :: string
  ak_createdAt :: time

datatype verify_reason = Malformed | Unknown | Revoked | Expired

datatype verify_result = VerifyOk api_key | VerifyFail verify_reason

datatype key_error =
    KeyNameRequired
  | KeyScopesRequired
  | UnknownScope "string list"
  | KeyScopeServicesRequired
  | InvalidQuotaRunsDay
  | InvalidRateLimitRpm
  | InvalidMaxConcurrency
  | InvalidExpiresAt
  | KeyIdCollision
  | SecretDrawsExhausted

record mint_input =
  mi_name :: string
  mi_scopes :: "string list"
  mi_scopeServices :: "string list"
  mi_quotaRunsDay :: "int option"
  mi_rateLimitRpm :: "int option"
  mi_maxConcurrency :: "int option"
  mi_expiresAt :: "time option"
  mi_createdBy :: string

definition LAST_USED_THROTTLE_MS :: time where "LAST_USED_THROTTLE_MS = 60000"
definition MAX_RPM :: int where "MAX_RPM = 6000"
definition MAX_CONCURRENCY :: int where "MAX_CONCURRENCY = 64"

text \<open>The stored lists are decoded defensively: empty entries and unknown scopes are dropped.\<close>

definition parseList :: "string list \<Rightarrow> string list" where
  "parseList raw = filter (\<lambda>v. v \<noteq> '''') raw"

definition parseScopes :: "string list \<Rightarrow> string list" where
  "parseScopes raw = filter (\<lambda>v. v \<in> set KEY_SCOPES) (parseList raw)"

definition toApiKey :: "api_key_row \<Rightarrow> api_key" where
  "toApiKey r = \<lparr>ak_id = key_id r, ak_name = key_name r, ak_scopes = parseScopes (key_scopes r),
     ak_scopeServices = parseList (key_scopeServices r), ak_quotaRunsDay = key_quotaRunsDay r,
     ak_rateLimitRpm = key_rateLimitRpm r, ak_maxConcurrency = key_maxConcurrency r,
     ak_expiresAt = key_expiresAt r, ak_revokedAt = key_revokedAt r, ak_lastUsedAt = key_lastUsedAt r,
     ak_createdBy = key_createdBy r, ak_createdAt = key_createdAt r\<rparr>"

text \<open>The assertion runs its checks in order; \<open>None\<close> is a valid input.\<close>

definition assertMintInput :: "mint_input \<Rightarrow> time \<Rightarrow> key_error option" where
  "assertMintInput i now =
     (let bad = filter (\<lambda>s. s \<notin> set KEY_SCOPES) (mi_scopes i)
      in if js_trim (mi_name i) = '''' then Some KeyNameRequired
      else if mi_scopes i = [] then Some KeyScopesRequired
      else if bad \<noteq> [] then Some (UnknownScope bad)
      else if mi_scopeServices i = [] \<or> list_ex (\<lambda>s. js_trim s = '''') (mi_scopeServices i)
        then Some KeyScopeServicesRequired
      else if (case mi_quotaRunsDay i of None \<Rightarrow> False | Some q \<Rightarrow> q < 1) then Some InvalidQuotaRunsDay
      else if (case mi_rateLimitRpm i of None \<Rightarrow> False | Some r \<Rightarrow> r < 1 \<or> r > MAX_RPM)
        then Some InvalidRateLimitRpm
      else if (case mi_maxConcurrency i of None \<Rightarrow> False | Some m \<Rightarrow> m < 1 \<or> m > MAX_CONCURRENCY)
        then Some InvalidMaxConcurrency
      else if (case mi_expiresAt i of None \<Rightarrow> False | Some t \<Rightarrow> t \<le> now) then Some InvalidExpiresAt
      else None)"

definition new_key_row :: "(string \<Rightarrow> string) \<Rightarrow> mint_input \<Rightarrow> id \<Rightarrow> string \<Rightarrow> time \<Rightarrow> api_key_row" where
  "new_key_row digest i keyId secret now =
     \<lparr>key_id = keyId, key_name = js_trim (mi_name i), key_keyHash = digest secret,
      key_scopes = mi_scopes i, key_scopeServices = mi_scopeServices i,
      key_quotaRunsDay = mi_quotaRunsDay i,
      key_rateLimitRpm = (case mi_rateLimitRpm i of None \<Rightarrow> 60 | Some r \<Rightarrow> r),
      key_maxConcurrency = (case mi_maxConcurrency i of None \<Rightarrow> 4 | Some m \<Rightarrow> m),
      key_expiresAt = mi_expiresAt i, key_revokedAt = None, key_lastUsedAt = None,
      key_createdBy = mi_createdBy i, key_createdAt = now\<rparr>"

text \<open>
  \<open>idDraws\<close> are the successive \<^verbatim>\<open>randomBytes(6)\<close> in hex, of which five are tried, and \<open>secretDraws\<close>
  the successive \<^verbatim>\<open>randomBytes(32)\<close> in base64url, of which the first without an underscore is
  taken.
\<close>

definition mintApiKey ::
    "(string \<Rightarrow> string) \<Rightarrow> db \<Rightarrow> mint_input \<Rightarrow> string list \<Rightarrow> string list \<Rightarrow> time \<Rightarrow>
     key_error + (db \<times> string \<times> api_key)" where
  "mintApiKey digest d i idDraws secretDraws now =
     (case assertMintInput i now of Some e \<Rightarrow> Inl e
      | None \<Rightarrow>
        (case List.find (\<lambda>c. c \<notin> key_id ` set (db_apiKeys d)) (take 5 idDraws) of
           None \<Rightarrow> Inl KeyIdCollision
         | Some keyId \<Rightarrow>
           (case List.find (\<lambda>s. CHR ''_'' \<notin> set s) secretDraws of
              None \<Rightarrow> Inl SecretDrawsExhausted
            | Some secret \<Rightarrow>
              (let row = new_key_row digest i keyId secret now
               in Inr (d\<lparr>db_apiKeys := db_apiKeys d @ [row]\<rparr>, make_token keyId secret, toApiKey row)))))"

definition find_key_row :: "db \<Rightarrow> id \<Rightarrow> api_key_row option" where
  "find_key_row d i = first_row (\<lambda>r. key_id r = i) (db_apiKeys d)"

definition update_key :: "db \<Rightarrow> id \<Rightarrow> (api_key_row \<Rightarrow> api_key_row) \<Rightarrow> db" where
  "update_key d i f = d\<lparr>db_apiKeys := upd_where (\<lambda>r. key_id r = i) f (db_apiKeys d)\<rparr>"

definition verifyApiKey ::
    "(string \<Rightarrow> string) \<Rightarrow> db \<Rightarrow> string option \<Rightarrow> time \<Rightarrow> db \<times> verify_result" where
  "verifyApiKey digest d token now =
     (case Option.bind token parse_token of
        None \<Rightarrow> (d, VerifyFail Malformed)
      | Some (keyId, secret) \<Rightarrow>
        (case find_key_row d keyId of
           None \<Rightarrow> (d, VerifyFail Unknown)
         | Some row \<Rightarrow>
           if key_keyHash row \<noteq> digest secret then (d, VerifyFail Unknown)
           else if key_revokedAt row \<noteq> None then (d, VerifyFail Revoked)
           else if (case key_expiresAt row of None \<Rightarrow> False | Some t \<Rightarrow> t \<le> now)
             then (d, VerifyFail Expired)
           else if (case key_lastUsedAt row of None \<Rightarrow> True | Some t \<Rightarrow> now - t \<ge> LAST_USED_THROTTLE_MS)
             then (update_key d keyId (\<lambda>r. r\<lparr>key_lastUsedAt := Some now\<rparr>),
                   VerifyOk (toApiKey (row\<lparr>key_lastUsedAt := Some now\<rparr>)))
           else (d, VerifyOk (toApiKey row))))"

definition revokeApiKey :: "db \<Rightarrow> id \<Rightarrow> time \<Rightarrow> db \<times> bool" where
  "revokeApiKey d i now =
     (if \<not> key_id_ok i then (d, False)
      else case find_key_row d i of None \<Rightarrow> (d, False)
      | Some row \<Rightarrow>
          ((if key_revokedAt row = None then update_key d i (\<lambda>r. r\<lparr>key_revokedAt := Some now\<rparr>) else d),
           True))"

text \<open>An edit names the fields it changes; the nullable ones carry the new value in an option.\<close>

record update_key_input =
  uk_name :: "string option"
  uk_scopes :: "string list option"
  uk_scopeServices :: "string list option"
  uk_quotaRunsDay :: "int option option"
  uk_rateLimitRpm :: "int option"
  uk_maxConcurrency :: "int option"
  uk_expiresAt :: "time option option"

definition or_else :: "'a option \<Rightarrow> 'a \<Rightarrow> 'a" where
  "or_else x y = (case x of None \<Rightarrow> y | Some v \<Rightarrow> v)"

definition merged_input :: "update_key_input \<Rightarrow> api_key_row \<Rightarrow> mint_input" where
  "merged_input u e =
     \<lparr>mi_name = or_else (uk_name u) (key_name e),
      mi_scopes = or_else (uk_scopes u) (parseScopes (key_scopes e)),
      mi_scopeServices = or_else (uk_scopeServices u) (parseList (key_scopeServices e)),
      mi_quotaRunsDay = or_else (uk_quotaRunsDay u) (key_quotaRunsDay e),
      mi_rateLimitRpm = Some (or_else (uk_rateLimitRpm u) (key_rateLimitRpm e)),
      mi_maxConcurrency = Some (or_else (uk_maxConcurrency u) (key_maxConcurrency e)),
      mi_expiresAt = or_else (uk_expiresAt u) (key_expiresAt e),
      mi_createdBy = key_createdBy e\<rparr>"

definition edited_row :: "mint_input \<Rightarrow> api_key_row \<Rightarrow> api_key_row" where
  "edited_row m r = r\<lparr>key_name := js_trim (mi_name m), key_scopes := mi_scopes m,
     key_scopeServices := mi_scopeServices m, key_quotaRunsDay := mi_quotaRunsDay m,
     key_rateLimitRpm := the (mi_rateLimitRpm m), key_maxConcurrency := the (mi_maxConcurrency m),
     key_expiresAt := mi_expiresAt m\<rparr>"

definition updateApiKey ::
    "db \<Rightarrow> id \<Rightarrow> update_key_input \<Rightarrow> time \<Rightarrow> key_error + (db \<times> api_key option)" where
  "updateApiKey d i u now =
     (if \<not> key_id_ok i then Inr (d, None)
      else case find_key_row d i of None \<Rightarrow> Inr (d, None)
      | Some existing \<Rightarrow>
          (let m = merged_input u existing
           in case assertMintInput m now of Some e \<Rightarrow> Inl e
              | None \<Rightarrow>
                (let d' = update_key d i (edited_row m)
                 in Inr (d', map_option toApiKey (find_key_row d' i)))))"

definition listApiKeys :: "db \<Rightarrow> api_key list" where
  "listApiKeys d = map toApiKey (js_sort (\<lambda>a b. key_createdAt b - key_createdAt a) (db_apiKeys d))"

definition findApiKey :: "db \<Rightarrow> id \<Rightarrow> api_key option" where
  "findApiKey d i = map_option toApiKey (find_key_row d i)"

definition hasScope :: "api_key \<Rightarrow> string \<Rightarrow> bool" where
  "hasScope k scope \<longleftrightarrow> scope \<in> set (ak_scopes k)"

definition allowsService :: "api_key \<Rightarrow> id \<Rightarrow> bool" where
  "allowsService k sid \<longleftrightarrow> ''*'' \<in> set (ak_scopeServices k) \<or> sid \<in> set (ak_scopeServices k)"

section \<open>Tokens\<close>

lemma parse_token_iff:
  "parse_token t = Some (k, s) \<longleftrightarrow> t = make_token k s \<and> key_id_ok k \<and> secret_ok s"
proof
  assume p: "parse_token t = Some (k, s)"
  then have parts: "take 4 t = ''dac_''" "k = take 12 (drop 4 t)" "s = drop 17 t"
    "take 1 (drop 16 t) = ''_''" "key_id_ok k" "secret_ok s"
    by (simp_all add: parse_token_def Let_def split: if_splits del: take_Suc_Cons)
  have "t = take 4 t @ take 12 (drop 4 t) @ take 1 (drop 16 t) @ drop 17 t"
    using append_take_drop_id [of 4 t] append_take_drop_id [of 12 "drop 4 t"]
      append_take_drop_id [of 1 "drop 16 t"] by (simp add: drop_drop)
  then show "t = make_token k s \<and> key_id_ok k \<and> secret_ok s"
    using parts by (simp add: make_token_def)
next
  assume t: "t = make_token k s \<and> key_id_ok k \<and> secret_ok s"
  then have "length k = 12" by (simp add: key_id_ok_def)
  then show "parse_token t = Some (k, s)"
    using t by (simp add: parse_token_def make_token_def Let_def)
qed

lemma find_key_row_id: "find_key_row d i = Some r \<Longrightarrow> key_id r = i"
  by (auto simp: find_key_row_def dest: first_row_Some)

lemma find_key_row_update:
  "(\<And>r. key_id (f r) = key_id r) \<Longrightarrow>
   find_key_row (update_key d i f) k = map_option (\<lambda>r. if key_id r = i then f r else r) (find_key_row d k)"
  by (simp add: find_key_row_def update_key_def first_row_upd)

lemma mintApiKey_Inr:
  assumes "mintApiKey digest d i idDraws secretDraws now = Inr (d', token, key)"
  obtains keyId secret where "keyId \<in> set idDraws" "keyId \<notin> key_id ` set (db_apiKeys d)"
    "secret \<in> set secretDraws" "CHR ''_'' \<notin> set secret" "assertMintInput i now = None"
    "d' = d\<lparr>db_apiKeys := db_apiKeys d @ [new_key_row digest i keyId secret now]\<rparr>"
    "token = make_token keyId secret" "key = toApiKey (new_key_row digest i keyId secret now)"
proof -
  from assms obtain keyId secret where
    k: "List.find (\<lambda>c. c \<notin> key_id ` set (db_apiKeys d)) (take 5 idDraws) = Some keyId" and
    s: "List.find (\<lambda>s. CHR ''_'' \<notin> set s) secretDraws = Some secret"
    by (auto simp: mintApiKey_def split: option.splits)
  have "keyId \<in> set (take 5 idDraws)" "keyId \<notin> key_id ` set (db_apiKeys d)"
    using k by (auto simp: find_Some_iff simp del: set_take_subset intro: nth_mem)
  moreover have "secret \<in> set secretDraws" "CHR ''_'' \<notin> set secret"
    using s by (auto simp: find_Some_iff)
  ultimately show ?thesis
    using assms k s that [of keyId secret] in_set_takeD [of keyId 5 idDraws]
    by (auto simp: mintApiKey_def Let_def split: option.splits)
qed

lemma find_minted:
  "keyId \<notin> key_id ` set (db_apiKeys d) \<Longrightarrow>
   find_key_row (d\<lparr>db_apiKeys := db_apiKeys d @ [new_key_row digest i keyId secret now]\<rparr>) k =
     (if k = keyId then Some (new_key_row digest i keyId secret now) else find_key_row d k)"
proof -
  assume "keyId \<notin> key_id ` set (db_apiKeys d)"
  then have "first_row (\<lambda>r. key_id r = keyId) (db_apiKeys d) = None"
    by (auto simp: first_row_None)
  then show ?thesis
    by (auto simp: find_key_row_def first_row_append first_row_def [of _ "[_]"] new_key_row_def
        split: option.split)
qed

text \<open>What the random source delivers: twelve hex digits, 43 characters of base64url.\<close>

definition draws_ok :: "string list \<Rightarrow> string list \<Rightarrow> bool" where
  "draws_ok idDraws secretDraws \<longleftrightarrow> list_all key_id_ok idDraws \<and>
     list_all (\<lambda>s. length s = 43 \<and> list_all (\<lambda>c. secret_char c \<or> c = CHR ''_'') s) secretDraws"

text \<open>
  A minted token verifies: on the state the minting leaves, the echoed token is accepted at
  any time before the key's expiry, with the name, scopes, services and limits of the minted key
  (and the moment of use recorded), whatever keys already exist and whatever the digest is.
\<close>

theorem mint_verify_roundtrip:
  assumes mint: "mintApiKey digest d i idDraws secretDraws now = Inr (d', token, key)"
    and draws: "draws_ok idDraws secretDraws"
    and live: "case mi_expiresAt i of None \<Rightarrow> True | Some e \<Rightarrow> t < e"
  shows "snd (verifyApiKey digest d' (Some token) t) = VerifyOk (key\<lparr>ak_lastUsedAt := Some t\<rparr>)"
proof -
  from mintApiKey_Inr [OF mint] obtain keyId secret where
    keyId: "keyId \<in> set idDraws" "keyId \<notin> key_id ` set (db_apiKeys d)" and
    secret: "secret \<in> set secretDraws" "CHR ''_'' \<notin> set secret" and
    d': "d' = d\<lparr>db_apiKeys := db_apiKeys d @ [new_key_row digest i keyId secret now]\<rparr>" and
    token: "token = make_token keyId secret" and
    key: "key = toApiKey (new_key_row digest i keyId secret now)"
    by metis
  have "secret_ok secret"
    using draws secret by (auto simp: draws_ok_def secret_ok_def list_all_iff)
  moreover have "key_id_ok keyId" using draws keyId(1) by (auto simp: draws_ok_def list_all_iff)
  ultimately have "parse_token token = Some (keyId, secret)" by (simp add: parse_token_iff token)
  moreover have "find_key_row d' keyId = Some (new_key_row digest i keyId secret now)"
    by (simp add: d' find_minted [OF keyId(2)])
  moreover have "key_expiresAt (new_key_row digest i keyId secret now) = mi_expiresAt i"
    "key_revokedAt (new_key_row digest i keyId secret now) = None"
    "key_lastUsedAt (new_key_row digest i keyId secret now) = None"
    "key_keyHash (new_key_row digest i keyId secret now) = digest secret"
    by (simp_all add: new_key_row_def)
  ultimately show ?thesis
    using live by (simp add: verifyApiKey_def key toApiKey_def split: option.splits)
qed

definition sample_mint :: mint_input where
  "sample_mint = \<lparr>mi_name = '' acme '', mi_scopes = [''usage:read''], mi_scopeServices = [''*''],
     mi_quotaRunsDay = None, mi_rateLimitRpm = None, mi_maxConcurrency = None,
     mi_expiresAt = Some 100, mi_createdBy = ''admin''\<rparr>"

lemma mint_verify_roundtrip_witness:
  "snd (verifyApiKey rev (fst (projr (mintApiKey rev empty_db sample_mint
       [''0123456789ab''] [replicate 42 CHR ''a'' @ ''_'', replicate 43 CHR ''b''] 7)))
       (Some (make_token ''0123456789ab'' (replicate 43 CHR ''b''))) 50) \<noteq> VerifyFail Unknown"
proof -
  have "mintApiKey rev empty_db sample_mint
      [''0123456789ab''] [replicate 42 CHR ''a'' @ ''_'', replicate 43 CHR ''b''] 7 =
    Inr (fst (projr (mintApiKey rev empty_db sample_mint
       [''0123456789ab''] [replicate 42 CHR ''a'' @ ''_'', replicate 43 CHR ''b''] 7)),
      make_token ''0123456789ab'' (replicate 43 CHR ''b''),
      snd (snd (projr (mintApiKey rev empty_db sample_mint
       [''0123456789ab''] [replicate 42 CHR ''a'' @ ''_'', replicate 43 CHR ''b''] 7))))"
    by code_simp
  from mint_verify_roundtrip [OF this, of 50] show ?thesis
    by (simp add: draws_ok_def sample_mint_def) code_simp
qed

section \<open>Revocation\<close>

text \<open>One call of an operation on keys that returns.\<close>

inductive key_step :: "(string \<Rightarrow> string) \<Rightarrow> db \<Rightarrow> db \<Rightarrow> bool" for digest where
  key_mint: "mintApiKey digest d i idDraws secretDraws now = Inr (d', token, key) \<Longrightarrow>
     key_step digest d d'"
| key_verify: "key_step digest d (fst (verifyApiKey digest d token now))"
| key_revoke: "key_step digest d (fst (revokeApiKey d i now))"
| key_update: "updateApiKey d i u now = Inr (d', key) \<Longrightarrow> key_step digest d d'"

text \<open>The part of a row that no operation but the first revocation writes.\<close>

definition credentials :: "api_key_row \<Rightarrow> id \<times> string \<times> time" where
  "credentials r = (key_id r, key_keyHash r, key_createdAt r)"

lemma key_step_row:
  assumes "key_step digest d d'" and "find_key_row d k = Some row"
  shows "\<exists>row'. find_key_row d' k = Some row' \<and> credentials row' = credentials row \<and>
    (key_revokedAt row \<noteq> None \<longrightarrow> key_revokedAt row' = key_revokedAt row)"
  using assms
proof (induction rule: key_step.induct)
  case (key_mint d i idDraws secretDraws now d' token key)
  from mintApiKey_Inr [OF key_mint(1)] obtain keyId secret where
    "keyId \<notin> key_id ` set (db_apiKeys d)"
    "d' = d\<lparr>db_apiKeys := db_apiKeys d @ [new_key_row digest i keyId secret now]\<rparr>"
    by metis
  moreover from this(1) key_mint(2) have "k \<noteq> keyId"
    by (auto simp: find_key_row_def dest!: first_row_Some)
  ultimately show ?case using key_mint(2) by (simp add: find_minted)
next
  case (key_verify d token now)
  then show ?case
    by (auto simp: verifyApiKey_def credentials_def find_key_row_update split: option.splits)
next
  case (key_revoke d i now)
  then have "key_id row = k" by (auto dest: find_key_row_id)
  with key_revoke show ?case
    by (cases "i = k") (auto simp: revokeApiKey_def credentials_def find_key_row_update split: option.splits)
next
  case (key_update d i u now d' key)
  then show ?case
    by (auto simp: updateApiKey_def credentials_def find_key_row_update edited_row_def Let_def
        split: option.splits if_splits)
qed

lemma key_steps_revoked:
  assumes "(key_step digest)\<^sup>*\<^sup>* d d'" and "find_key_row d k = Some row" and "key_revokedAt row = Some t"
  shows "\<exists>row'. find_key_row d' k = Some row' \<and> credentials row' = credentials row \<and>
    key_revokedAt row' = Some t"
  using assms(1)
proof (induction rule: rtranclp_induct)
  case base
  then show ?case using assms by auto
next
  case (step e f)
  then obtain row' where "find_key_row e k = Some row'" "credentials row' = credentials row"
    "key_revokedAt row' = Some t" by auto
  with key_step_row [OF step(2) this(1)] show ?case by auto
qed

text \<open>
  Claim C6. Revocation is final: once a key is revoked, no sequence of minting, verification, editing and
  revoking calls makes a token that names this key acceptable again; its row survives with the same
  identity, digest and time of revocation.
\<close>

theorem revoked_key_stays_revoked:
  assumes "(key_step digest)\<^sup>*\<^sup>* d d'" and "find_key_row d k = Some row" and "key_revokedAt row = Some t"
    and "parse_token token = Some (k, secret)"
  shows "(\<exists>row'. find_key_row d' k = Some row' \<and> key_keyHash row' = key_keyHash row \<and>
      key_revokedAt row' = Some t) \<and>
    snd (verifyApiKey digest d' (Some token) now) \<noteq> VerifyOk key"
proof -
  from key_steps_revoked [OF assms(1-3)] obtain row' where "find_key_row d' k = Some row'"
    "credentials row' = credentials row" "key_revokedAt row' = Some t" by auto
  then show ?thesis using assms(4) by (simp add: verifyApiKey_def credentials_def)
qed

definition sample_revoked :: db where
  "sample_revoked = empty_db\<lparr>db_apiKeys :=
     [new_key_row rev sample_mint ''0123456789ab'' (replicate 43 CHR ''b'') 7\<lparr>key_revokedAt := Some 9\<rparr>]\<rparr>"

lemma revoked_key_stays_revoked_witness:
  "\<forall>key. snd (verifyApiKey rev (fst (revokeApiKey sample_revoked ''0123456789ab'' 20))
     (Some (make_token ''0123456789ab'' (replicate 43 CHR ''b''))) 50) \<noteq> VerifyOk key"
proof -
  have row: "find_key_row sample_revoked ''0123456789ab'' =
      Some (new_key_row rev sample_mint ''0123456789ab'' (replicate 43 CHR ''b'') 7\<lparr>key_revokedAt := Some 9\<rparr>)"
    by code_simp
  have token: "parse_token (make_token ''0123456789ab'' (replicate 43 CHR ''b'')) =
      Some (''0123456789ab'', replicate 43 CHR ''b'')"
    by code_simp
  show ?thesis
    using revoked_key_stays_revoked
      [OF r_into_rtranclp [where r = "key_step rev", OF key_revoke] row _ token, of 9]
    by simp
qed

end
