(* ===== verification/PublicApi.thy ===== *)
theory PublicApi
  imports Dispatch ChatStore ApiKeys
begin

text \<open>
  The outward API (\<^verbatim>\<open>src/public-api/\<close>): authentication of a call, choice of the service,
  admission by quota and concurrency, load facts, dispatch, and the two conversation handlers
  of \<^verbatim>\<open>routes.ts\<close>.  The handlers return the new database, the reply, and the turn they start;
  the turn itself runs in the chat turn runner.  The liveness of an agent and the host's local midnight
  are parameters.
\<close>

section \<open>Rejections\<close>

datatype conversation_rejection =
    ServiceRequired
  | UnknownService id
  | ServiceNotAllowed id
  | ScopeMissing string
  | QuotaExhausted (qx_limit: int) (qx_used: int)
  | ConcurrencyExhausted (cx_limit: int) (cx_active: int)
  | AllBusy (ab_retryAfterSeconds: int) (ab_capacity: int) (ab_inUse: int)
  | NoAgentOnline
  | AgentUnavailable id

datatype json_field = JText string | JNumber int

record http_rejection =
  hr_status :: nat
  hr_body :: "(string \<times> json_field) list"
  hr_retryAfterSeconds :: "int option"

definition rejectAsHttp :: "conversation_rejection \<Rightarrow> http_rejection" where
  "rejectAsHttp r = (case r of
     ScopeMissing s \<Rightarrow> \<lparr>hr_status = 403, hr_body = [(''error'', JText ''forbidden''),
       (''detail'', JText (''this key is missing scope '' @ s))], hr_retryAfterSeconds = None\<rparr>
   | ServiceRequired \<Rightarrow> \<lparr>hr_status = 400, hr_body = [(''error'', JText ''service_required''),
       (''detail'', JText ''this key may call several services; name one in \"service\"'')],
       hr_retryAfterSeconds = None\<rparr>
   | UnknownService s \<Rightarrow> \<lparr>hr_status = 404, hr_body = [(''error'', JText ''unknown_service''),
       (''detail'', JText (''no service named '' @ s))], hr_retryAfterSeconds = None\<rparr>
   | ServiceNotAllowed s \<Rightarrow> \<lparr>hr_status = 403, hr_body = [(''error'', JText ''service_not_allowed''),
       (''detail'', JText (''this key may not call '' @ s))], hr_retryAfterSeconds = None\<rparr>
   | QuotaExhausted most used \<Rightarrow> \<lparr>hr_status = 429, hr_body = [(''error'', JText ''quota_exhausted''),
       (''used'', JNumber used), (''limit'', JNumber most)], hr_retryAfterSeconds = None\<rparr>
   | ConcurrencyExhausted most active \<Rightarrow> \<lparr>hr_status = 429,
       hr_body = [(''error'', JText ''too_many_in_flight''), (''active'', JNumber active),
                  (''limit'', JNumber most)], hr_retryAfterSeconds = None\<rparr>
   | AllBusy retry capacity inUse \<Rightarrow> \<lparr>hr_status = 429,
       hr_body = [(''error'', JText ''all_agents_busy''), (''capacity'', JNumber capacity),
                  (''inUse'', JNumber inUse)], hr_retryAfterSeconds = Some retry\<rparr>
   | NoAgentOnline \<Rightarrow> \<lparr>hr_status = 503, hr_body = [(''error'', JText ''no_agent_online''),
       (''detail'', JText ''this service currently has no reachable agent'')],
       hr_retryAfterSeconds = None\<rparr>
   | AgentUnavailable a \<Rightarrow> \<lparr>hr_status = 503, hr_body = [(''error'', JText ''agent_unavailable''),
       (''agent'', JText a)], hr_retryAfterSeconds = None\<rparr>)"

section \<open>Services and load\<close>

record service =
  svc_id :: id
  svc_workers :: "id list"
  svc_maxSessionsPerAgent :: "int option"

record app_config =
  cfg_services :: "service list"
  cfg_agents :: "id list"

definition resolveService ::
    "app_config \<Rightarrow> api_key \<Rightarrow> string option \<Rightarrow> conversation_rejection + service" where
  "resolveService cfg key requested =
     (let allowed = filter (\<lambda>s. allowsService key (svc_id s)) (cfg_services cfg)
      in case map_option js_trim requested of
           None \<Rightarrow> (case allowed of [only] \<Rightarrow> Inr only | _ \<Rightarrow> Inl ServiceRequired)
         | Some wanted \<Rightarrow>
             if wanted = '''' then (case allowed of [only] \<Rightarrow> Inr only | _ \<Rightarrow> Inl ServiceRequired)
             else (case List.find (\<lambda>s. svc_id s = wanted) (cfg_services cfg) of
                 None \<Rightarrow> Inl (UnknownService wanted)
               | Some named \<Rightarrow> if allowsService key (svc_id named) then Inr named
                               else Inl (ServiceNotAllowed wanted)))"

record service_load =
  sl_agentId :: id
  sl_online :: bool
  sl_sessions :: int
  sl_queueDepth :: int
  sl_lastTurnMs :: "int option"

definition run_open :: "run_row \<Rightarrow> bool" where
  "run_open r \<longleftrightarrow> run_state r = Pending \<or> run_state r = Running"

definition last_turn_ms :: "db \<Rightarrow> nat \<Rightarrow> id \<Rightarrow> int option" where
  "last_turn_ms d limit aid =
     (let recent = take limit (js_sort (\<lambda>a b. run_startedAt b - run_startedAt a)
            (filter (\<lambda>r. run_agentId r = aid \<and> run_state r = Done) (db_runs d)));
          ended = (\<lambda>r. case run_endedAt r of None \<Rightarrow> False | Some e \<Rightarrow> e > run_startedAt r)
      in map_option (\<lambda>r. the (run_endedAt r) - run_startedAt r) (List.find ended recent))"

definition live_sessions :: "db \<Rightarrow> id \<Rightarrow> int" where
  "live_sessions d aid = count_where (\<lambda>c. chat_removedAt c = None \<and> chat_agentId c = aid) (db_chats d)"

definition open_runs :: "db \<Rightarrow> id \<Rightarrow> int" where
  "open_runs d aid = count_where (\<lambda>r. run_agentId r = aid \<and> run_open r) (db_runs d)"

definition loadServiceLoad :: "service \<Rightarrow> db \<Rightarrow> (id \<Rightarrow> bool) \<Rightarrow> nat option \<Rightarrow> service_load list" where
  "loadServiceLoad svc d isOnline recentRunLimit =
     map (\<lambda>aid. \<lparr>sl_agentId = aid, sl_online = isOnline aid, sl_sessions = live_sessions d aid,
                 sl_queueDepth = open_runs d aid,
                 sl_lastTurnMs = last_turn_ms d (or_else recentRunLimit 20) aid\<rparr>)
       (svc_workers svc)"

definition keySessionsByAgent :: "db \<Rightarrow> id \<Rightarrow> id list \<Rightarrow> id \<rightharpoonup> int" where
  "keySessionsByAgent d key agents = (\<lambda>aid.
     let n = count_where (\<lambda>c. chat_apiKeyId c = Some key \<and> chat_removedAt c = None \<and>
               chat_agentId c \<in> set agents \<and> chat_agentId c = aid) (db_chats d)
     in if n = 0 then None else Some n)"

definition dispatchConversation ::
    "service \<Rightarrow> service_load list \<Rightarrow> (id \<rightharpoonup> int) \<Rightarrow> int option \<Rightarrow>
     conversation_rejection + (id \<times> int \<times> id list)" where
  "dispatchConversation svc load keySessions seed =
     (case pickWorker \<lparr>dr_workers = map (\<lambda>l. \<lparr>wf_agentId = sl_agentId l, wf_online = sl_online l,
               wf_sessions = sl_sessions l, wf_queueDepth = sl_queueDepth l,
               wf_lastTurnMs = sl_lastTurnMs l\<rparr>) load,
             dr_maxSessionsPerAgent = or_else (svc_maxSessionsPerAgent svc) 4,
             dr_keySessionsByAgent = keySessions, dr_rotationSeed = seed\<rparr> of
        Picked a n full \<Rightarrow> Inr (a, n, full)
      | NotPicked NoWorkerOnline _ _ \<Rightarrow> Inl NoAgentOnline
      | NotPicked AllFull capacity inUse \<Rightarrow> Inl (AllBusy 5 capacity inUse))"

section \<open>Quota\<close>

definition DAY_MS :: time where "DAY_MS = 86400000"

text \<open>\<open>midnight\<close> is \<^verbatim>\<open>startOfLocalDay\<close>: the last local midnight of the host at a moment.\<close>

definition runsUsedToday :: "(time \<Rightarrow> time) \<Rightarrow> db \<Rightarrow> id \<Rightarrow> time \<Rightarrow> int" where
  "runsUsedToday midnight d key now =
     count_where (\<lambda>r. run_apiKeyId r = Some key \<and> run_startedAt r \<ge> midnight now) (db_runs d)"

definition activeRunsForKey :: "db \<Rightarrow> id \<Rightarrow> int" where
  "activeRunsForKey d key = count_where (\<lambda>r. run_apiKeyId r = Some key \<and> run_open r) (db_runs d)"

datatype quota_verdict =
    QuotaOk (qo_used: int) (qo_limit: "int option") (qo_remaining: "int option") (qo_active: int)
  | QuotaExceeded int int time
  | ConcurrencyExceeded int int

definition checkRunQuota :: "(time \<Rightarrow> time) \<Rightarrow> db \<Rightarrow> api_key \<Rightarrow> time \<Rightarrow> quota_verdict" where
  "checkRunQuota midnight d key now =
     (let used = runsUsedToday midnight d (ak_id key) now;
          active = activeRunsForKey d (ak_id key)
      in case ak_quotaRunsDay key of
           None \<Rightarrow> if active \<ge> ak_maxConcurrency key
                    then ConcurrencyExceeded active (ak_maxConcurrency key)
                    else QuotaOk used None None active
         | Some q \<Rightarrow> if used \<ge> q then QuotaExceeded used q (midnight now + DAY_MS)
                      else if active \<ge> ak_maxConcurrency key
                      then ConcurrencyExceeded active (ak_maxConcurrency key)
                      else QuotaOk used (Some q) (Some (q - used)) active)"

record quota_snapshot =
  qs_used :: int
  qs_limit :: "int option"
  qs_remaining :: "int option"
  qs_active :: int
  qs_resetsAt :: time

definition quotaSnapshot :: "(time \<Rightarrow> time) \<Rightarrow> db \<Rightarrow> api_key \<Rightarrow> time \<Rightarrow> quota_snapshot" where
  "quotaSnapshot midnight d key now =
     (let used = runsUsedToday midnight d (ak_id key) now
      in \<lparr>qs_used = used, qs_limit = ak_quotaRunsDay key,
          qs_remaining = map_option (\<lambda>q. max 0 (q - used)) (ak_quotaRunsDay key),
          qs_active = activeRunsForKey d (ak_id key), qs_resetsAt = midnight now + DAY_MS\<rparr>)"

definition checkAdmission :: "api_key \<Rightarrow> int \<Rightarrow> int \<Rightarrow> conversation_rejection option" where
  "checkAdmission key runsToday activeRuns =
     (if \<not> hasScope key ''conversations:write'' then Some (ScopeMissing ''conversations:write'')
      else case ak_quotaRunsDay key of
        None \<Rightarrow> if activeRuns \<ge> ak_maxConcurrency key
                 then Some (ConcurrencyExhausted (ak_maxConcurrency key) activeRuns) else None
      | Some q \<Rightarrow> if runsToday \<ge> q then Some (QuotaExhausted q runsToday)
                   else if activeRuns \<ge> ak_maxConcurrency key
                   then Some (ConcurrencyExhausted (ak_maxConcurrency key) activeRuns) else None)"

section \<open>Handlers\<close>

text \<open>The arrow of the audit lines, in UTF-8.\<close>

definition arrow :: string where
  "arrow = [CHR '' '', CHR 0xE2, CHR 0x86, CHR 0x92, CHR '' '']"

definition key_actor :: "id \<Rightarrow> string" where
  "key_actor k = ''api_key:'' @ k"

datatype auth_reply = AuthOk api_key | Unauthorized verify_reason | InsufficientScope string

text \<open>\<open>call\<close> is the method and the URL of the request.\<close>

definition requireKey ::
    "(string \<Rightarrow> string) \<Rightarrow> db \<Rightarrow> string option \<Rightarrow> string \<Rightarrow> string \<Rightarrow> time \<Rightarrow> db \<times> auth_reply" where
  "requireKey digest d token scope call now =
     (case verifyApiKey digest d token now of
        (d1, VerifyFail reason) \<Rightarrow>
          ((case reason of
              Revoked \<Rightarrow> recordAudit d1 now ''api_key:unknown'' ''api_call'' (call @ arrow @ ''401 (revoked)'')
            | Expired \<Rightarrow> recordAudit d1 now ''api_key:unknown'' ''api_call'' (call @ arrow @ ''401 (expired)'')
            | _ \<Rightarrow> d1), Unauthorized reason)
      | (d1, VerifyOk key) \<Rightarrow>
          if \<not> hasScope key scope
          then (recordAudit d1 now (key_actor (ak_id key)) ''api_call''
                  (call @ arrow @ ''403 (missing '' @ scope @ '')''), InsufficientScope scope)
          else (d1, AuthOk key))"

definition rejection_kind :: "conversation_rejection \<Rightarrow> string" where
  "rejection_kind r = (case r of ServiceRequired \<Rightarrow> ''service_required''
     | UnknownService _ \<Rightarrow> ''unknown_service'' | ServiceNotAllowed _ \<Rightarrow> ''service_not_allowed''
     | ScopeMissing _ \<Rightarrow> ''scope_missing'' | QuotaExhausted _ _ \<Rightarrow> ''quota_exhausted''
     | ConcurrencyExhausted _ _ \<Rightarrow> ''concurrency_exhausted'' | AllBusy _ _ _ \<Rightarrow> ''all_busy''
     | NoAgentOnline \<Rightarrow> ''no_agent_online'' | AgentUnavailable _ \<Rightarrow> ''agent_unavailable'')"

datatype conversation_reply =
    Rejected http_rejection
  | Conversation (cv_chat: id) (cv_agent: id) (cv_service: id) (cv_created: bool)
      (cv_turn: "string option")
  | TurnStarted id id string
  | UnknownConversation
  | AgentGone id
  | DriverError

definition reject ::
    "db \<Rightarrow> time \<Rightarrow> api_key \<Rightarrow> string \<Rightarrow> conversation_rejection \<Rightarrow> db \<times> conversation_reply" where
  "reject d now key what r =
     (let mapped = rejectAsHttp r
      in (recordAudit d now (key_actor (ak_id key)) ''api_call''
            (what @ arrow @ show_nat (hr_status mapped) @ '' ('' @ rejection_kind r @ '')''),
          Rejected mapped))"

text \<open>
  \<^verbatim>\<open>POST /v1/conversations\<close>.  A reply with a text starts a turn of the conversation; for an agent that
  is not in the config the start answers 503 instead (\<open>AgentGone\<close>).
\<close>

definition with_turn ::
    "app_config \<Rightarrow> db \<Rightarrow> id \<Rightarrow> id \<Rightarrow> id \<Rightarrow> bool \<Rightarrow> string option \<Rightarrow> db \<times> conversation_reply" where
  "with_turn cfg d chat agent svc created msg =
     (if msg \<noteq> None \<and> agent \<notin> set (cfg_agents cfg) then (d, AgentGone agent)
      else (d, Conversation chat agent svc created msg))"

definition post_conversation ::
    "(time \<Rightarrow> time) \<Rightarrow> (id \<Rightarrow> bool) \<Rightarrow> app_config \<Rightarrow> db \<Rightarrow> api_key \<Rightarrow> string option \<Rightarrow> string option \<Rightarrow>
     string option \<Rightarrow> id \<Rightarrow> time \<Rightarrow> db \<times> conversation_reply" where
  "post_conversation midnight isOnline cfg d key requested user msg uuid now =
     (let what = ''POST /v1/conversations''
      in case resolveService cfg key requested of
           Inl r \<Rightarrow> reject d now key what r
         | Inr svc \<Rightarrow>
           (let today = quotaSnapshot midnight d key now
            in case checkAdmission key (qs_used today) (qs_active today) of
                 Some r \<Rightarrow> reject d now key what r
               | None \<Rightarrow>
                 (case Option.bind user (findLiveConversation d (ak_id key)) of
                    Some existing \<Rightarrow>
                      with_turn cfg d (chat_id existing) (chat_agentId existing) (svc_id svc) False msg
                  | None \<Rightarrow>
                    (case dispatchConversation svc (loadServiceLoad svc d isOnline None)
                            (keySessionsByAgent d (ak_id key) (svc_workers svc)) (Some (now mod 1000)) of
                       Inl r \<Rightarrow> reject d now key what r
                     | Inr (agent, _, _) \<Rightarrow>
                       if agent \<notin> set (cfg_agents cfg)
                       then reject d now key what (AgentUnavailable agent)
                       else (case createChat d uuid agent now (Some \<lparr>own_apiKeyId = ak_id key,
                                     own_externalUserId = user, own_serviceId = svc_id svc\<rparr>) of
                               None \<Rightarrow> (d, DriverError)
                             | Some (d1, chat) \<Rightarrow>
                               with_turn cfg
                                 (recordAudit d1 now (key_actor (ak_id key)) ''api_call''
                                    (''conversation '' @ chat_id chat @ '' created on '' @ agent @
                                     '' for service '' @ svc_id svc))
                                 (chat_id chat) agent (svc_id svc) True msg)))))"

text \<open>\<^verbatim>\<open>POST /v1/conversations/:id/messages\<close>.\<close>

definition post_message ::
    "(time \<Rightarrow> time) \<Rightarrow> app_config \<Rightarrow> db \<Rightarrow> api_key \<Rightarrow> id \<Rightarrow> string \<Rightarrow> time \<Rightarrow> db \<times> conversation_reply" where
  "post_message midnight cfg d key chatId msg now =
     (case getChat d chatId of
        None \<Rightarrow> (d, UnknownConversation)
      | Some chat \<Rightarrow>
        if chat_apiKeyId chat \<noteq> Some (ak_id key) \<or> chat_removedAt chat \<noteq> None
        then (d, UnknownConversation)
        else (let today = quotaSnapshot midnight d key now
              in case checkAdmission key (qs_used today) (qs_active today) of
                   Some r \<Rightarrow> reject d now key (''POST /v1/conversations/'' @ chatId @ ''/messages'') r
                 | None \<Rightarrow> if chat_agentId chat \<notin> set (cfg_agents cfg)
                            then (d, AgentGone (chat_agentId chat))
                            else (d, TurnStarted (chat_id chat) (chat_agentId chat) msg)))"

section \<open>Lemmas\<close>

lemma resolveService_Inr:
  assumes "resolveService cfg key requested = Inr svc"
  shows "svc \<in> set (cfg_services cfg) \<and> allowsService key (svc_id svc)"
proof -
  have only: "svc \<in> set (cfg_services cfg) \<and> allowsService key (svc_id svc)"
    if "(case filter (\<lambda>s. allowsService key (svc_id s)) (cfg_services cfg) of [only] \<Rightarrow> Inr only
         | _ \<Rightarrow> Inl ServiceRequired) = Inr svc"
  proof -
    have "filter (\<lambda>s. allowsService key (svc_id s)) (cfg_services cfg) = [svc]"
      using that by (simp split: list.splits)
    then have "svc \<in> set (filter (\<lambda>s. allowsService key (svc_id s)) (cfg_services cfg))" by simp
    then show ?thesis by simp
  qed
  show ?thesis
    using assms
    by (auto simp: resolveService_def Let_def find_Some_iff split: option.splits if_splits dest: only)
qed

lemma dispatchConversation_Inr:
  assumes "dispatchConversation svc (loadServiceLoad svc d isOnline n) ks seed = Inr (a, m, full)"
  shows "a \<in> set (svc_workers svc) \<and> isOnline a \<and> m = live_sessions d a \<and>
    live_sessions d a < or_else (svc_maxSessionsPerAgent svc) 4"
proof -
  from assms obtain req where req: "pickWorker req = Picked a m full"
    and w: "dr_workers req = map (\<lambda>l. \<lparr>wf_agentId = sl_agentId l, wf_online = sl_online l,
               wf_sessions = sl_sessions l, wf_queueDepth = sl_queueDepth l,
               wf_lastTurnMs = sl_lastTurnMs l\<rparr>) (loadServiceLoad svc d isOnline n)"
      "dr_maxSessionsPerAgent req = or_else (svc_maxSessionsPerAgent svc) 4"
    by (auto simp: dispatchConversation_def split: dispatch_result.splits no_worker_reason.splits)
  from pickWorker_chosen [OF req] obtain v where "v \<in> set (dr_workers req)" "eligible req v"
    "a = wf_agentId v" "m = wf_sessions v" by metis
  then show ?thesis by (auto simp: w loadServiceLoad_def eligible_def)
qed

lemma checkAdmission_None:
  "checkAdmission key used active = None \<longleftrightarrow>
     hasScope key ''conversations:write'' \<and> active < ak_maxConcurrency key \<and>
     (case ak_quotaRunsDay key of None \<Rightarrow> True | Some q \<Rightarrow> used < q)"
  by (auto simp: checkAdmission_def not_le split: option.splits)

lemma createChat_Some:
  "createChat d uuid aid now ow = Some (d', row) \<Longrightarrow>
     row = new_chat_row uuid aid now ow \<and> d' = d\<lparr>db_chats := db_chats d @ [row]\<rparr> \<and>
     uuid \<notin> chat_id ` set (db_chats d)"
  by (auto simp: createChat_def Let_def new_chat_row_def dest!: insert_chat_Some)

lemma recordAudit_frame [simp]:
  "db_chats (recordAudit d now actor kind detail) = db_chats d"
  "db_runs (recordAudit d now actor kind detail) = db_runs d"
  "db_apiKeys (recordAudit d now actor kind detail) = db_apiKeys d"
  by (simp_all add: recordAudit_def)

lemma with_turn_Conversation:
  "with_turn cfg d chat agent svc created msg = (d', r) \<Longrightarrow> d' = d \<and>
     (r = Conversation chat agent svc created msg \<or> r = AgentGone agent)"
  by (auto simp: with_turn_def split: if_splits)

lemma reject_reply: "reject d now key what r = (d', reply) \<Longrightarrow> reply = Rejected (rejectAsHttp r) \<and>
    db_chats d' = db_chats d"
  by (auto simp: reject_def Let_def)

lemma post_conversation_cases:
  assumes "post_conversation midnight isOnline cfg d key requested user msg uuid now = (d', reply)"
  obtains (refused) r where "reply = Rejected (rejectAsHttp r)" "db_chats d' = db_chats d"
  | (reused) svc e where "resolveService cfg key requested = Inr svc"
      "Option.bind user (findLiveConversation d (ak_id key)) = Some e" "d' = d"
      "reply = Conversation (chat_id e) (chat_agentId e) (svc_id svc) False msg \<or>
       reply = AgentGone (chat_agentId e)"
  | (failed) "reply = DriverError" "d' = d"
  | (created) svc agent m full row where "resolveService cfg key requested = Inr svc"
      "checkAdmission key (runsUsedToday midnight d (ak_id key) now) (activeRunsForKey d (ak_id key)) = None"
      "Option.bind user (findLiveConversation d (ak_id key)) = None"
      "dispatchConversation svc (loadServiceLoad svc d isOnline None)
         (keySessionsByAgent d (ak_id key) (svc_workers svc)) (Some (now mod 1000)) = Inr (agent, m, full)"
      "agent \<in> set (cfg_agents cfg)"
      "row = new_chat_row uuid agent now (Some \<lparr>own_apiKeyId = ak_id key, own_externalUserId = user,
         own_serviceId = svc_id svc\<rparr>)"
      "db_chats d' = db_chats d @ [row]" "uuid \<notin> chat_id ` set (db_chats d)"
      "reply = Conversation uuid agent (svc_id svc) True msg"
proof (cases "resolveService cfg key requested")
  case (Inl r)
  then show ?thesis
    using assms refused [of r] by (auto simp: post_conversation_def Let_def dest: reject_reply)
next
  case svc: (Inr svc)
  show ?thesis
  proof (cases "checkAdmission key (runsUsedToday midnight d (ak_id key) now) (activeRunsForKey d (ak_id key))")
    case (Some r)
    then show ?thesis
      using assms svc refused [of r]
      by (auto simp: post_conversation_def Let_def quotaSnapshot_def dest: reject_reply)
  next
    case adm: None
    show ?thesis
    proof (cases "Option.bind user (findLiveConversation d (ak_id key))")
      case (Some e)
      then show ?thesis
        using assms svc adm reused [OF svc Some]
        by (auto simp: post_conversation_def Let_def quotaSnapshot_def dest: with_turn_Conversation)
    next
      case new: None
      show ?thesis
      proof (cases "dispatchConversation svc (loadServiceLoad svc d isOnline None)
          (keySessionsByAgent d (ak_id key) (svc_workers svc)) (Some (now mod 1000))")
        case (Inl r)
        then show ?thesis
          using assms svc adm new refused [of r]
          by (auto simp: post_conversation_def Let_def quotaSnapshot_def dest: reject_reply)
      next
        case (Inr p)
        obtain agent m full where p: "p = (agent, m, full)" by (cases p) auto
        show ?thesis
        proof (cases "agent \<in> set (cfg_agents cfg)")
          case False
          then show ?thesis
            using assms svc adm new Inr p refused [of "AgentUnavailable agent"]
            by (auto simp: post_conversation_def Let_def quotaSnapshot_def dest: reject_reply)
        next
          case agent: True
          let ?ow = "Some \<lparr>own_apiKeyId = ak_id key, own_externalUserId = user, own_serviceId = svc_id svc\<rparr>"
          show ?thesis
          proof (cases "createChat d uuid agent now ?ow")
            case None
            then show ?thesis
              using assms svc adm new Inr p agent failed
              by (auto simp: post_conversation_def Let_def quotaSnapshot_def)
          next
            case (Some q)
            obtain d1 chat where q: "q = (d1, chat)" by (cases q) auto
            from createChat_Some [OF Some [unfolded q]] have
              chat: "chat = new_chat_row uuid agent now ?ow" "d1 = d\<lparr>db_chats := db_chats d @ [chat]\<rparr>"
              "uuid \<notin> chat_id ` set (db_chats d)" by auto
            show ?thesis
              using assms svc adm new Inr p agent Some q chat
                created [OF svc adm new Inr [unfolded p] agent]
              by (auto simp: post_conversation_def Let_def quotaSnapshot_def with_turn_def new_chat_row_def)
          qed
        qed
      qed
    qed
  qed
qed

text \<open>
  Claim C7. An outward conversation is created only within the key's limits and the service's capacity:
  the service is in the config and open to the key, the key has the scope and is below its daily quota and
  its concurrency limit, the agent is a configured member of the service, reachable, with fewer live
  conversations than the service allows per agent, and the user has no live conversation; the only new row
  of the table is the conversation, owned by the key.
\<close>

theorem created_conversation_within_limits:
  assumes "post_conversation midnight isOnline cfg d key requested user msg uuid now =
      (d', Conversation c a s True m)"
  shows "\<exists>svc \<in> set (cfg_services cfg). s = svc_id svc \<and> allowsService key s \<and>
     hasScope key ''conversations:write'' \<and>
     (case ak_quotaRunsDay key of None \<Rightarrow> True | Some q \<Rightarrow> runsUsedToday midnight d (ak_id key) now < q) \<and>
     activeRunsForKey d (ak_id key) < ak_maxConcurrency key \<and>
     a \<in> set (svc_workers svc) \<and> a \<in> set (cfg_agents cfg) \<and> isOnline a \<and>
     live_sessions d a < or_else (svc_maxSessionsPerAgent svc) 4 \<and>
     Option.bind user (findLiveConversation d (ak_id key)) = None \<and>
     db_chats d' = db_chats d @ [new_chat_row c a now
       (Some \<lparr>own_apiKeyId = ak_id key, own_externalUserId = user, own_serviceId = s\<rparr>)]"
  using assms
proof (cases rule: post_conversation_cases)
  case (created svc agent m full row)
  then show ?thesis
    using resolveService_Inr [OF created(1)] dispatchConversation_Inr [OF created(4)]
    by (auto simp: checkAdmission_None)
qed auto

definition sample_service :: service where
  "sample_service = \<lparr>svc_id = ''s1'', svc_workers = [''w1''], svc_maxSessionsPerAgent = None\<rparr>"

definition sample_config :: app_config where
  "sample_config = \<lparr>cfg_services = [sample_service], cfg_agents = [''w1'']\<rparr>"

definition sample_api_key :: api_key where
  "sample_api_key = \<lparr>ak_id = ''k1'', ak_name = ''k'', ak_scopes = [''conversations:write''],
     ak_scopeServices = [''*''], ak_quotaRunsDay = Some 3, ak_rateLimitRpm = 60, ak_maxConcurrency = 2,
     ak_expiresAt = None, ak_revokedAt = None, ak_lastUsedAt = None, ak_createdBy = ''a'',
     ak_createdAt = 0\<rparr>"

definition sample_post :: "db \<Rightarrow> db \<times> conversation_reply" where
  "sample_post d = post_conversation (\<lambda>t. 0) (\<lambda>a. True) sample_config d sample_api_key None (Some ''u1'')
     (Some ''hello'') ''c1'' 5"

lemma created_conversation_within_limits_witness:
  "length (db_chats (fst (sample_post sample_db))) = 1"
proof -
  have "sample_post sample_db = (fst (sample_post sample_db), Conversation ''c1'' ''w1'' ''s1'' True (Some ''hello''))"
    by code_simp
  from created_conversation_within_limits [OF this [unfolded sample_post_def]]
  show ?thesis by (auto simp: sample_post_def [symmetric] sample_db_def empty_db_def)
qed

text \<open>
  Stickiness at the door: when the external user has a live conversation under the key, every
  reply that carries a conversation carries that one, on its own agent, whatever the load of the
  service, and the database is unchanged; the reply names the service of the request even when the
  conversation belongs to another service of the key.
\<close>

theorem sticky_conversation_reused:
  assumes "store_ok d" and "e \<in> set (db_chats d)" and "chat_apiKeyId e = Some (ak_id key)"
    and "chat_externalUserId e = Some u" and "chat_removedAt e = None"
    and "post_conversation midnight isOnline cfg d key requested (Some u) msg uuid now =
      (d', Conversation c a s created m)"
  shows "c = chat_id e \<and> a = chat_agentId e \<and> \<not> created \<and> d' = d \<and>
    (\<exists>svc. resolveService cfg key requested = Inr svc \<and> s = svc_id svc)"
proof -
  have "findLiveConversation d (ak_id key) u = Some e"
    using assms(2-5) by (simp add: findLiveConversation_iff [OF assms(1)])
  with assms(6) show ?thesis
    by (cases rule: post_conversation_cases) auto
qed

definition other_service :: service where
  "other_service = sample_service\<lparr>svc_id := ''s2''\<rparr>"

lemma sticky_conversation_reused_witness:
  "snd (post_conversation (\<lambda>t. 0) (\<lambda>a. True) (sample_config\<lparr>cfg_services := [sample_service, other_service]\<rparr>)
     (fst (sample_post sample_db)) sample_api_key (Some ''s2'') (Some ''u1'') None ''c2'' 6)
   = Conversation ''c1'' ''w1'' ''s2'' False None"
proof -
  let ?d = "fst (sample_post sample_db)"
  let ?e = "new_chat_row ''c1'' ''w1'' 5 (Some sample_owner)"
  let ?cfg = "sample_config\<lparr>cfg_services := [sample_service, other_service]\<rparr>"
  let ?r = "post_conversation (\<lambda>t. 0) (\<lambda>a. True) ?cfg ?d sample_api_key (Some ''s2'') (Some ''u1'') None ''c2'' 6"
  have ok: "store_ok ?d" and e: "?e \<in> set (db_chats ?d)" by code_simp+
  have r: "?r = (fst ?r, Conversation (cv_chat (snd ?r)) (cv_agent (snd ?r)) (cv_service (snd ?r))
      (cv_created (snd ?r)) (cv_turn (snd ?r)))"
    by code_simp
  have fields: "chat_apiKeyId ?e = Some (ak_id sample_api_key)" "chat_externalUserId ?e = Some ''u1''"
    "chat_removedAt ?e = None" "chat_id ?e = ''c1''" "chat_agentId ?e = ''w1''"
    by (simp_all add: new_chat_row_def sample_owner_def sample_api_key_def)
  define R where "R = snd ?r"
  have R: "R = Conversation (cv_chat R) (cv_agent R) (cv_service R) (cv_created R) (cv_turn R)"
    unfolding R_def by code_simp
  have "cv_chat R = ''c1'' \<and> cv_agent R = ''w1'' \<and> \<not> cv_created R"
    using sticky_conversation_reused [OF ok e fields(1-3) r] unfolding fields R_def by blast
  moreover have "cv_service R = ''s2'' \<and> cv_turn R = None" unfolding R_def by code_simp
  ultimately have "R = Conversation ''c1'' ''w1'' ''s2'' False None" by (subst R) simp
  then show ?thesis by (simp only: R_def)
qed

end
