(* ===== verification/Usage.thy ===== *)
theory Usage
  imports Database
begin

text \<open>
  Token accounting and money: the usage counters of \<^verbatim>\<open>src/frames.ts\<close>, the price of a response
  (\<^verbatim>\<open>src/pricing.ts\<close>), the spend views over \<open>usage_record\<close> (\<^verbatim>\<open>src/usage/store.ts\<close>) and the
  pricing of rows that were written before their model had a rate (\<^verbatim>\<open>src/cli/backfill-cost.ts\<close>).

  Rates are rationals, so a price is rounded once, from the exact amount.  The host's calendar (the
  epoch of a local midnight, the weekday in a time zone) is a parameter; a day is its year, month and day
  numbers, which the code carries in a formatted string.
\<close>

section \<open>Usage counters\<close>

record token_usage =
  tu_inputTokens :: int
  tu_outputTokens :: int
  tu_cacheReadTokens :: "int option"
  tu_cacheWriteTokens :: "int option"
  tu_reasoningTokens :: "int option"

text \<open>
  A raw accounting block is the partial map of its keys with a finite numeric value; \<open>None\<close> is a block
  that is absent or not an object.
\<close>

definition normalizeUsage :: "(string \<rightharpoonup> int) option \<Rightarrow> token_usage option" where
  "normalizeUsage raw =
     (case raw of None \<Rightarrow> None
      | Some source \<Rightarrow>
         (case (source ''inputTokens'', source ''outputTokens'') of
            (None, None) \<Rightarrow> None
          | (i, out) \<Rightarrow> Some
              \<lparr>tu_inputTokens = (case i of None \<Rightarrow> 0 | Some n \<Rightarrow> n),
               tu_outputTokens = (case out of None \<Rightarrow> 0 | Some n \<Rightarrow> n),
               tu_cacheReadTokens = source ''cacheReadTokens'',
               tu_cacheWriteTokens = source ''cacheWriteTokens'',
               tu_reasoningTokens = source ''reasoningTokens''\<rparr>))"

definition count_or_0 :: "int option \<Rightarrow> int" where
  "count_or_0 x = (case x of None \<Rightarrow> 0 | Some n \<Rightarrow> n)"

definition add_optional :: "int option \<Rightarrow> int option \<Rightarrow> int option" where
  "add_optional a b = (if a = None \<and> b = None then None else Some (count_or_0 a + count_or_0 b))"

definition sumUsage :: "token_usage option \<Rightarrow> token_usage option \<Rightarrow> token_usage option" where
  "sumUsage sofar next_step =
     (case next_step of None \<Rightarrow> sofar
      | Some s \<Rightarrow>
        (case sofar of None \<Rightarrow> Some s
         | Some t \<Rightarrow> Some
            \<lparr>tu_inputTokens = tu_inputTokens t + tu_inputTokens s,
             tu_outputTokens = tu_outputTokens t + tu_outputTokens s,
             tu_cacheReadTokens = add_optional (tu_cacheReadTokens t) (tu_cacheReadTokens s),
             tu_cacheWriteTokens = add_optional (tu_cacheWriteTokens t) (tu_cacheWriteTokens s),
             tu_reasoningTokens = add_optional (tu_reasoningTokens t) (tu_reasoningTokens s)\<rparr>))"

section \<open>Prices\<close>

record rate =
  rt_input :: rat
  rt_output :: rat
  rt_cacheRead :: "rat option"
  rt_cacheWrite :: "rat option"

record model_pricing =
  mp_offPeak :: rate
  mp_peak :: "rate option"

record peak_window =
  pw_startMinuteUtc :: int
  pw_endMinuteUtc :: int

record pricing_table =
  pt_rates :: "string \<rightharpoonup> model_pricing"
  pt_peakWindows :: "peak_window list"
  pt_weekendsOffPeak :: "bool option"
  pt_pricingTimeZone :: "string option"

definition PRICING_TIME_ZONE :: string where
  "PRICING_TIME_ZONE = ''Asia/Shanghai''"

text \<open>\<open>weekday\<close> is the short English name of the weekday in a zone, or \<open>None\<close> for an invalid zone.\<close>

type_synonym calendar = "time \<Rightarrow> string \<Rightarrow> string option"

definition isWeekend :: "calendar \<Rightarrow> time \<Rightarrow> string \<Rightarrow> bool" where
  "isWeekend weekday moment zone = (case weekday moment zone of None \<Rightarrow> False
     | Some day \<Rightarrow> day = ''Sat'' \<or> day = ''Sun'')"

definition digit :: "char \<Rightarrow> int option" where
  "digit c = (let n = (of_char c :: int) in if 48 \<le> n \<and> n \<le> 57 then Some (n - 48) else None)"

text \<open>\<^verbatim>\<open>/^([01]\d|2[0-3]):([0-5]\d)$/\<close>; \<open>None\<close> is the exception.\<close>

definition parseUtcTime :: "string \<Rightarrow> int option" where
  "parseUtcTime v = (case v of
     [a, b, c, d, e] \<Rightarrow>
       (case (digit a, digit b, digit d, digit e) of
          (Some h1, Some h0, Some m1, Some m0) \<Rightarrow>
            if c = CHR '':'' \<and> (h1 \<le> 1 \<or> h1 = 2 \<and> h0 \<le> 3) \<and> m1 \<le> 5
            then Some ((h1 * 10 + h0) * 60 + (m1 * 10 + m0)) else None
        | _ \<Rightarrow> None)
   | _ \<Rightarrow> None)"

definition flat_rate :: "rat \<Rightarrow> rat \<Rightarrow> rat \<Rightarrow> rate" where
  "flat_rate i out cr = \<lparr>rt_input = i, rt_output = out, rt_cacheRead = Some cr, rt_cacheWrite = None\<rparr>"

definition DEFAULT_PRICING :: pricing_table where
  "DEFAULT_PRICING =
     \<lparr>pt_rates = [''deepseek-v4-pro'' \<mapsto> \<lparr>mp_offPeak = flat_rate (66/100) (198/100) (22/1000),
                                       mp_peak = Some (flat_rate (132/100) (396/100) (44/1000))\<rparr>,
                  ''deepseek-v4-flash'' \<mapsto> \<lparr>mp_offPeak = flat_rate (22/100) (66/100) (7/1000),
                                         mp_peak = Some (flat_rate (44/100) (132/100) (14/1000))\<rparr>],
      pt_peakWindows = [\<lparr>pw_startMinuteUtc = 60, pw_endMinuteUtc = 240\<rparr>,
                        \<lparr>pw_startMinuteUtc = 360, pw_endMinuteUtc = 600\<rparr>],
      pt_weekendsOffPeak = Some True, pt_pricingTimeZone = Some PRICING_TIME_ZONE\<rparr>"

definition findPricing ::
    "string option \<Rightarrow> string option \<Rightarrow> (string \<rightharpoonup> model_pricing) \<Rightarrow> model_pricing option" where
  "findPricing provider model rates =
     (case model of None \<Rightarrow> None
      | Some m \<Rightarrow> if m = '''' then None
         else (case (case provider of None \<Rightarrow> None
                     | Some p \<Rightarrow> if p = '''' then None else rates (p @ ''/'' @ m)) of
                 Some exact \<Rightarrow> Some exact
               | None \<Rightarrow> rates m))"

definition utc_minute :: "time \<Rightarrow> int" where
  "utc_minute moment = moment div 60000 mod 1440"

definition in_window :: "int \<Rightarrow> peak_window \<Rightarrow> bool" where
  "in_window minute w =
     (if pw_startMinuteUtc w \<le> pw_endMinuteUtc w
      then pw_startMinuteUtc w \<le> minute \<and> minute < pw_endMinuteUtc w
      else pw_startMinuteUtc w \<le> minute \<or> minute < pw_endMinuteUtc w)"

definition isPeak :: "time \<Rightarrow> peak_window list \<Rightarrow> bool" where
  "isPeak moment windows = list_ex (in_window (utc_minute moment)) windows"

definition MICRO :: rat where "MICRO = 1000000"
definition PER_MILLION :: rat where "PER_MILLION = 1000000"

record cost_breakdown =
  cb_microUsd :: int
  cb_peak :: bool

text \<open>\<^verbatim>\<open>Math.round\<close> rounds halves up.\<close>

definition js_round :: "rat \<Rightarrow> int" where
  "js_round x = \<lfloor>x + 1/2\<rfloor>"

definition or_rate :: "rat option \<Rightarrow> rat \<Rightarrow> rat" where
  "or_rate x y = (case x of None \<Rightarrow> y | Some r \<Rightarrow> r)"

definition usd_of :: "token_usage \<Rightarrow> rate \<Rightarrow> rat" where
  "usd_of u r =
     of_int (tu_inputTokens u) * rt_input r / PER_MILLION +
     of_int (tu_outputTokens u) * rt_output r / PER_MILLION +
     of_int (count_or_0 (tu_cacheReadTokens u)) * or_rate (rt_cacheRead r) (rt_input r) / PER_MILLION +
     of_int (count_or_0 (tu_cacheWriteTokens u)) * or_rate (rt_cacheWrite r) (rt_input r) / PER_MILLION"

definition billed_peak :: "calendar \<Rightarrow> model_pricing \<Rightarrow> time \<Rightarrow> pricing_table \<Rightarrow> bool" where
  "billed_peak weekday p moment table \<longleftrightarrow>
     mp_peak p \<noteq> None \<and> isPeak moment (pt_peakWindows table) \<and>
     \<not> (pt_weekendsOffPeak table = Some True \<and>
        isWeekend weekday moment (case pt_pricingTimeZone table of None \<Rightarrow> PRICING_TIME_ZONE | Some z \<Rightarrow> z))"

definition computeCost ::
    "calendar \<Rightarrow> token_usage option \<Rightarrow> string option \<Rightarrow> string option \<Rightarrow> time \<Rightarrow> pricing_table \<Rightarrow>
     cost_breakdown option" where
  "computeCost weekday usage provider model moment table =
     (case usage of None \<Rightarrow> None
      | Some u \<Rightarrow>
        (case findPricing provider model (pt_rates table) of None \<Rightarrow> None
         | Some p \<Rightarrow>
           (let peak = billed_peak weekday p moment table;
                r = (if peak then the (mp_peak p) else mp_offPeak p)
            in Some \<lparr>cb_microUsd = js_round (usd_of u r * MICRO), cb_peak = peak\<rparr>)))"

section \<open>Spend views\<close>

record spend_totals =
  st_runs :: int
  st_inputTokens :: int
  st_outputTokens :: int
  st_cacheReadTokens :: int
  st_costMicroUsd :: int
  st_peakCostMicroUsd :: int
  st_unpriced :: int

definition sum_of :: "('r \<Rightarrow> int) \<Rightarrow> 'r list \<Rightarrow> int" where
  "sum_of f rows = sum_list (map f rows)"

definition totals_of :: "usage_row list \<Rightarrow> spend_totals" where
  "totals_of rows =
     \<lparr>st_runs = int (card (usage_runId ` set rows)),
      st_inputTokens = sum_of usage_inputTokens rows,
      st_outputTokens = sum_of usage_outputTokens rows,
      st_cacheReadTokens = sum_of (\<lambda>u. count_or_0 (usage_cacheRead u)) rows,
      st_costMicroUsd = sum_of (\<lambda>u. count_or_0 (usage_cost u)) rows,
      st_peakCostMicroUsd = sum_of (\<lambda>u. count_or_0 (usage_peakCost u)) rows,
      st_unpriced = count_where (\<lambda>u. usage_cost u = None) rows\<rparr>"

text \<open>
  The host's calendar: \<open>local y m d\<close> is \<^verbatim>\<open>new Date(y, m - 1, d)\<close> (it normalises a day or month past
  the end), \<open>date_of\<close> the local date of a moment.
\<close>

record host_calendar =
  hc_local :: "int \<Rightarrow> int \<Rightarrow> int \<Rightarrow> time"
  hc_date :: "time \<Rightarrow> int \<times> int \<times> int"

definition monthRangeMs :: "host_calendar \<Rightarrow> int \<times> int \<Rightarrow> time \<times> time" where
  "monthRangeMs cal ym = (case ym of (y, m) \<Rightarrow> (hc_local cal y m 1, hc_local cal y (m + 1) 1))"

definition dayRangeMs :: "host_calendar \<Rightarrow> int \<times> int \<times> int \<Rightarrow> time \<times> time" where
  "dayRangeMs cal day = (case day of (y, m, d) \<Rightarrow> (hc_local cal y m d, hc_local cal y m (d + 1)))"

definition rows_between :: "db \<Rightarrow> time \<times> time \<Rightarrow> usage_row list" where
  "rows_between d rg = filter (\<lambda>u. fst rg \<le> usage_at u \<and> usage_at u < snd rg) (db_usage d)"

definition monthTotals :: "host_calendar \<Rightarrow> db \<Rightarrow> int \<times> int \<Rightarrow> spend_totals" where
  "monthTotals cal d month = totals_of (rows_between d (monthRangeMs cal month))"

definition by_spend :: "('k \<times> spend_totals) \<Rightarrow> ('k \<times> spend_totals) \<Rightarrow> int" where
  "by_spend a b =
     (if st_costMicroUsd (snd a) \<noteq> st_costMicroUsd (snd b)
      then st_costMicroUsd (snd b) - st_costMicroUsd (snd a)
      else st_runs (snd b) - st_runs (snd a))"

definition group_totals :: "('k \<times> usage_row) list \<Rightarrow> ('k \<times> spend_totals) list" where
  "group_totals rows =
     map (\<lambda>k. (k, totals_of (map snd (filter (\<lambda>p. fst p = k) rows)))) (remdups (map fst rows))"

text \<open>The inner join pairs a usage row with the agent of each run of its id.\<close>

definition join_agent :: "db \<Rightarrow> usage_row list \<Rightarrow> (id \<times> usage_row) list" where
  "join_agent d us =
     concat (map (\<lambda>u. map (\<lambda>r. (run_agentId r, u)) (filter (\<lambda>r. run_id r = usage_runId u) (db_runs d))) us)"

definition monthByAgent :: "host_calendar \<Rightarrow> db \<Rightarrow> int \<times> int \<Rightarrow> (id \<times> spend_totals) list" where
  "monthByAgent cal d month =
     js_sort by_spend (group_totals (join_agent d (rows_between d (monthRangeMs cal month))))"

definition monthByModel ::
    "host_calendar \<Rightarrow> db \<Rightarrow> int \<times> int \<Rightarrow> ((string option \<times> string option) \<times> spend_totals) list" where
  "monthByModel cal d month =
     js_sort by_spend (group_totals
       (map (\<lambda>u. ((usage_provider u, usage_model u), u)) (rows_between d (monthRangeMs cal month))))"

definition date_key :: "int \<times> int \<times> int \<Rightarrow> int" where
  "date_key x = (case x of (y, m, d) \<Rightarrow> (y * 12 + m) * 31 + d)"

definition monthByDay ::
    "host_calendar \<Rightarrow> db \<Rightarrow> int \<times> int \<Rightarrow> ((int \<times> int \<times> int) \<times> spend_totals) list" where
  "monthByDay cal d month =
     js_sort (\<lambda>a b. date_key (fst a) - date_key (fst b)) (group_totals
       (map (\<lambda>u. (hc_date cal (usage_at u), u)) (rows_between d (monthRangeMs cal month))))"

definition spendMonths :: "host_calendar \<Rightarrow> db \<Rightarrow> (int \<times> int) list" where
  "spendMonths cal d =
     js_sort (\<lambda>a b. (fst b * 12 + snd b) - (fst a * 12 + snd a))
       (remdups (map (\<lambda>u. case hc_date cal (usage_at u) of (y, m, _) \<Rightarrow> (y, m)) (db_usage d)))"

definition daySpend :: "host_calendar \<Rightarrow> db \<Rightarrow> int \<times> int \<times> int \<Rightarrow> int \<times> int" where
  "daySpend cal d day =
     (let rows = rows_between d (dayRangeMs cal day)
      in (sum_of (\<lambda>u. count_or_0 (usage_cost u)) rows, count_where (\<lambda>u. usage_cost u = None) rows))"

definition currentDay :: "host_calendar \<Rightarrow> time \<Rightarrow> int \<times> int \<times> int" where
  "currentDay cal now = hc_date cal now"

definition currentMonth :: "host_calendar \<Rightarrow> time \<Rightarrow> int \<times> int" where
  "currentMonth cal now = (case hc_date cal now of (y, m, _) \<Rightarrow> (y, m))"

section \<open>Backfill\<close>

record backfill_result =
  bf_rows :: int
  bf_priced :: int
  bf_stillUnpriced :: int
  bf_total :: int

definition row_usage :: "usage_row \<Rightarrow> token_usage" where
  "row_usage u = \<lparr>tu_inputTokens = usage_inputTokens u, tu_outputTokens = usage_outputTokens u,
     tu_cacheReadTokens = usage_cacheRead u, tu_cacheWriteTokens = usage_cacheWrite u,
     tu_reasoningTokens = None\<rparr>"

definition row_cost :: "calendar \<Rightarrow> pricing_table \<Rightarrow> usage_row \<Rightarrow> cost_breakdown option" where
  "row_cost weekday table u =
     computeCost weekday (Some (row_usage u)) (usage_provider u) (usage_model u) (usage_at u) table"

definition backfill_row ::
    "calendar \<Rightarrow> pricing_table \<Rightarrow> bool \<Rightarrow> db \<times> backfill_result \<Rightarrow> usage_row \<Rightarrow> db \<times> backfill_result" where
  "backfill_row weekday table apply' acc row =
     (case acc of (d, res) \<Rightarrow>
       (case row_cost weekday table row of
          None \<Rightarrow> (d, res\<lparr>bf_stillUnpriced := bf_stillUnpriced res + 1\<rparr>)
        | Some c \<Rightarrow>
            ((if apply' then d\<lparr>db_usage := upd_where (\<lambda>u. usage_id u = usage_id row)
                 (\<lambda>u. u\<lparr>usage_cost := Some (cb_microUsd c),
                        usage_peakCost := Some (if cb_peak c then cb_microUsd c else 0)\<rparr>) (db_usage d)\<rparr>
              else d),
             res\<lparr>bf_priced := bf_priced res + 1, bf_total := bf_total res + cb_microUsd c\<rparr>)))"

definition backfillCosts ::
    "calendar \<Rightarrow> pricing_table \<Rightarrow> db \<Rightarrow> bool \<Rightarrow> db \<times> backfill_result" where
  "backfillCosts weekday table d apply' =
     (let rows = js_sort (\<lambda>a b. usage_at a - usage_at b) (filter (\<lambda>u. usage_cost u = None) (db_usage d))
      in if rows = [] then (d, \<lparr>bf_rows = 0, bf_priced = 0, bf_stillUnpriced = 0, bf_total = 0\<rparr>)
         else foldl (backfill_row weekday table apply')
                (d, \<lparr>bf_rows = int (length rows), bf_priced = 0, bf_stillUnpriced = 0, bf_total = 0\<rparr>) rows)"

section \<open>Counters add up\<close>

lemma add_optional_simps:
  "add_optional None b = b" "add_optional a None = a"
  "add_optional (Some x) (Some y) = Some (x + y)"
  by (auto simp: add_optional_def count_or_0_def split: option.splits)

lemma add_optional_laws:
  "add_optional a b = add_optional b a"
  "add_optional (add_optional a b) c = add_optional a (add_optional b c)"
  by (cases a; cases b; cases c; simp add: add_optional_simps)+

text \<open>Summing accounting blocks is a commutative monoid with the absent block as neutral element.\<close>

interpretation usage_sum: comm_monoid sumUsage None
proof
  fix a b c :: "token_usage option"
  show "sumUsage (sumUsage a b) c = sumUsage a (sumUsage b c)"
    by (cases a; cases b; cases c; simp add: sumUsage_def add_optional_laws(2))
  show "sumUsage a b = sumUsage b a"
    by (cases a; cases b; simp add: sumUsage_def add_optional_laws(1) add.commute)
  show "sumUsage a None = a" by (simp add: sumUsage_def)
qed

lemma foldl_sumUsage: "foldl sumUsage acc xs = sumUsage acc (foldr sumUsage xs None)"
  by (induction xs arbitrary: acc) (simp_all add: usage_sum.assoc)

text \<open>
  The usage billed for a turn does not depend on how its responses interleave: summing the
  same accounting blocks in any order gives the same counters, and a turn that reports no
  block at all has no usage rather than a zero.
\<close>

theorem usage_order_independent:
  assumes "mset xs = mset ys"
  shows "foldl sumUsage None xs = foldl sumUsage None ys \<and>
    (foldl sumUsage None xs = None \<longleftrightarrow> set xs \<subseteq> {None})"
proof -
  have "fold (\<lambda>x s. sumUsage s x) xs = fold (\<lambda>x s. sumUsage s x) ys"
    by (rule fold_multiset_equiv [OF _ assms]) (metis (no_types, lifting) comp_apply ext usage_sum.assoc usage_sum.commute)
  then have "foldl sumUsage None xs = foldl sumUsage None ys" by (simp add: foldl_conv_fold)
  moreover have "foldr sumUsage xs None = None \<longleftrightarrow> set xs \<subseteq> {None}"
  proof (induction xs)
    case (Cons x xs)
    then show ?case
      by (cases x; cases "foldr sumUsage xs None") (auto simp: sumUsage_def)
  qed simp
  moreover have "foldl sumUsage None xs = foldr sumUsage xs None"
    by (simp add: foldl_sumUsage usage_sum.left_neutral)
  ultimately show ?thesis by metis
qed

lemma usage_order_independent_witness:
  "foldl sumUsage None [None, normalizeUsage (Some [''inputTokens'' \<mapsto> 3])] =
   foldl sumUsage None [normalizeUsage (Some [''inputTokens'' \<mapsto> 3]), None]"
  using usage_order_independent [of "[None, normalizeUsage (Some [''inputTokens'' \<mapsto> 3])]"
    "[normalizeUsage (Some [''inputTokens'' \<mapsto> 3]), None]"] by simp

section \<open>The views agree\<close>

lemma group_sum:
  "sum_list (map (\<lambda>k. sum_of f (map snd (filter (\<lambda>p. fst p = k) rows))) (remdups (map fst rows))) =
   sum_of f (map snd rows)"
proof -
  have *: "(\<Sum>k \<in> A. sum_of f (map snd (filter (\<lambda>p. fst p = k) rows))) = sum_of f (map snd rows)"
    if "finite A" "fst ` set rows \<subseteq> A" for A
    using that(2)
  proof (induction rows)
    case (Cons p rows)
    have "(\<Sum>k \<in> A. sum_of f (map snd (filter (\<lambda>q. fst q = k) (p # rows)))) =
        (\<Sum>k \<in> A. (if fst p = k then f (snd p) else 0) +
           sum_of f (map snd (filter (\<lambda>q. fst q = k) rows)))"
      by (intro sum.cong) (auto simp: sum_of_def)
    also have "\<dots> = f (snd p) + sum_of f (map snd rows)"
      using Cons that(1) by (simp add: sum.distrib)
    finally show ?case by (simp add: sum_of_def)
  qed (simp add: sum_of_def)
  have "sum_list (map g (remdups (map fst rows))) = (\<Sum>k \<in> fst ` set rows. g k)" for g :: "_ \<Rightarrow> int"
    by (simp add: sum_list_distinct_conv_sum_set)
  then show ?thesis using * [of "fst ` set rows"] by simp
qed

lemma count_as_sum: "count_where P rows = sum_of (\<lambda>r. if P r then 1 else 0) rows"
  by (induction rows) (auto simp: sum_of_def)

lemma sum_of_js_sort: "sum_of f (js_sort c xs) = sum_of f xs"
proof -
  have "mset (map f (js_sort c xs)) = mset (map f xs)" by simp
  then show ?thesis unfolding sum_of_def by (metis sum_mset_sum_list)
qed

lemma group_totals_sum:
  "sum_of (\<lambda>g. st_costMicroUsd (snd g)) (js_sort c (group_totals rows)) =
     st_costMicroUsd (totals_of (map snd rows))"
  "sum_of (\<lambda>g. st_peakCostMicroUsd (snd g)) (js_sort c (group_totals rows)) =
     st_peakCostMicroUsd (totals_of (map snd rows))"
  "sum_of (\<lambda>g. st_unpriced (snd g)) (js_sort c (group_totals rows)) =
     st_unpriced (totals_of (map snd rows))"
  using group_sum [of "\<lambda>u. count_or_0 (usage_cost u)" rows]
    group_sum [of "\<lambda>u. count_or_0 (usage_peakCost u)" rows]
    group_sum [of "\<lambda>u. if usage_cost u = None then 1 else 0" rows]
  by (simp_all add: sum_of_js_sort)
    (simp_all add: sum_of_def group_totals_def totals_of_def o_def count_as_sum)

lemma join_agent_rows:
  assumes ids: "distinct (map run_id (db_runs d))"
    and refs: "\<And>u. u \<in> set us \<Longrightarrow> usage_runId u \<in> run_id ` set (db_runs d)"
  shows "map snd (join_agent d us) = us"
  using refs
proof (induction us)
  case (Cons u us)
  then have "usage_runId u \<in> run_id ` set (db_runs d)" by simp
  then obtain r where r: "r \<in> set (db_runs d)" "run_id r = usage_runId u" by auto
  have "filter (\<lambda>q. run_id q = usage_runId u) (db_runs d) = [r]"
    using filter_key [OF ids r(1)] r(2) by simp
  with Cons show ?case by (simp add: join_agent_def)
qed (simp add: join_agent_def)

text \<open>
  Claim C8. The spend page adds up: the breakdowns of a month by agent, by model and by day each sum to
  the month's total, in money, in the money billed at the peak rate and in the number of records without
  a price, as long as every usage record belongs to a run.
\<close>

theorem spend_views_agree:
  assumes "distinct (map run_id (db_runs d))"
    and "usage_runId ` set (db_usage d) \<subseteq> run_id ` set (db_runs d)"
  shows "sum_of (\<lambda>g. st_costMicroUsd (snd g)) (monthByAgent cal d month) = st_costMicroUsd (monthTotals cal d month) \<and>
    sum_of (\<lambda>g. st_costMicroUsd (snd g)) (monthByModel cal d month) = st_costMicroUsd (monthTotals cal d month) \<and>
    sum_of (\<lambda>g. st_costMicroUsd (snd g)) (monthByDay cal d month) = st_costMicroUsd (monthTotals cal d month) \<and>
    sum_of (\<lambda>g. st_peakCostMicroUsd (snd g)) (monthByAgent cal d month) = st_peakCostMicroUsd (monthTotals cal d month) \<and>
    sum_of (\<lambda>g. st_peakCostMicroUsd (snd g)) (monthByModel cal d month) = st_peakCostMicroUsd (monthTotals cal d month) \<and>
    sum_of (\<lambda>g. st_peakCostMicroUsd (snd g)) (monthByDay cal d month) = st_peakCostMicroUsd (monthTotals cal d month) \<and>
    sum_of (\<lambda>g. st_unpriced (snd g)) (monthByAgent cal d month) = st_unpriced (monthTotals cal d month) \<and>
    sum_of (\<lambda>g. st_unpriced (snd g)) (monthByModel cal d month) = st_unpriced (monthTotals cal d month) \<and>
    sum_of (\<lambda>g. st_unpriced (snd g)) (monthByDay cal d month) = st_unpriced (monthTotals cal d month)"
proof -
  have "map snd (join_agent d (rows_between d rg)) = rows_between d rg" for rg
    by (rule join_agent_rows [OF assms(1)]) (use assms(2) in \<open>auto simp: rows_between_def\<close>)
  then show ?thesis
    by (simp add: monthByAgent_def monthByModel_def monthByDay_def monthTotals_def group_totals_sum o_def)
qed

definition sample_usage :: "id \<Rightarrow> int \<Rightarrow> string option \<Rightarrow> int option \<Rightarrow> usage_row" where
  "sample_usage r i m c = \<lparr>usage_id = i, usage_runId = r, usage_provider = None, usage_model = m,
     usage_inputTokens = 1000, usage_outputTokens = 10, usage_cacheRead = None, usage_cacheWrite = None,
     usage_reasoningTokens = None, usage_cost = c, usage_peakCost = None, usage_at = 5\<rparr>"

definition sample_run :: "id \<Rightarrow> id \<Rightarrow> run_row" where
  "sample_run r a = \<lparr>run_id = r, run_agentId = a, run_apiKeyId = None, run_chatId = None,
     run_sourceChatId = None, run_conflict = None, run_cronId = None, run_dshSessionId = None,
     run_trigger = Manual, run_idempotencyKey = None, run_state = Done, run_resultSummary = None,
     run_startedAt = 1, run_endedAt = Some 5, run_error = None, run_commitHash = None\<rparr>"

definition sample_ledger :: db where
  "sample_ledger = empty_db\<lparr>db_runs := [sample_run ''r1'' ''a'', sample_run ''r2'' ''b''],
     db_usage := [sample_usage ''r1'' 1 (Some ''deepseek-v4-pro'') (Some 40),
                  sample_usage ''r2'' 2 (Some ''other'') None,
                  sample_usage ''r2'' 3 (Some ''deepseek-v4-flash'') None]\<rparr>"

definition sample_calendar :: host_calendar where
  "sample_calendar = \<lparr>hc_local = (\<lambda>y m d. (y * 12 + m) * 31000 + d * 1000),
     hc_date = (\<lambda>t. (0, 0, t div 1000))\<rparr>"

lemma spend_views_agree_witness:
  "sum_of (\<lambda>g. st_costMicroUsd (snd g)) (monthByAgent sample_calendar sample_ledger (0, 0)) =
   st_costMicroUsd (monthTotals sample_calendar sample_ledger (0, 0))"
proof -
  have "distinct (map run_id (db_runs sample_ledger))"
    "usage_runId ` set (db_usage sample_ledger) \<subseteq> run_id ` set (db_runs sample_ledger)"
    by (simp_all add: sample_ledger_def sample_run_def sample_usage_def)
  from spend_views_agree [OF this] show ?thesis by blast
qed

section \<open>Backfill\<close>

definition filled :: "calendar \<Rightarrow> pricing_table \<Rightarrow> usage_row \<Rightarrow> usage_row" where
  "filled weekday table u = (case row_cost weekday table u of None \<Rightarrow> u
     | Some c \<Rightarrow> u\<lparr>usage_cost := Some (cb_microUsd c),
                   usage_peakCost := Some (if cb_peak c then cb_microUsd c else 0)\<rparr>)"

definition priced_total :: "calendar \<Rightarrow> pricing_table \<Rightarrow> usage_row list \<Rightarrow> int" where
  "priced_total weekday table rows =
     sum_of (\<lambda>u. case row_cost weekday table u of None \<Rightarrow> 0 | Some c \<Rightarrow> cb_microUsd c) rows"

lemma usage_id_filled [simp]: "usage_id (filled weekday table u) = usage_id u"
  by (simp add: filled_def split: option.split)

lemma backfill_loop:
  assumes "distinct (map usage_id orig)" and "set rows \<subseteq> set orig"
    and "distinct (map usage_id rows)" and "usage_id ` set rows \<inter> seen = {}"
  shows "foldl (backfill_row weekday table apply')
      (d\<lparr>db_usage := map (\<lambda>u. if apply' \<and> usage_id u \<in> seen then filled weekday table u else u) orig\<rparr>, res) rows =
    (d\<lparr>db_usage := map (\<lambda>u. if apply' \<and> usage_id u \<in> seen \<union> usage_id ` set rows
                              then filled weekday table u else u) orig\<rparr>,
     res\<lparr>bf_priced := bf_priced res + count_where (\<lambda>u. row_cost weekday table u \<noteq> None) rows,
         bf_stillUnpriced := bf_stillUnpriced res + count_where (\<lambda>u. row_cost weekday table u = None) rows,
         bf_total := bf_total res + priced_total weekday table rows\<rparr>)"
  using assms
proof (induction rows arbitrary: seen res)
  case Nil
  then show ?case by (simp add: priced_total_def sum_of_def)
next
  case (Cons row rows)
  let ?mark = "\<lambda>S. map (\<lambda>u. if apply' \<and> usage_id u \<in> S then filled weekday table u else u) orig"
  have row: "u = row" if "u \<in> set orig" "usage_id u = usage_id row" for u
    using Cons.prems(1,2) that by (auto simp: distinct_map inj_on_def)
  let ?one = "\<lambda>S u. if apply' \<and> usage_id u \<in> S then filled weekday table u else u"
  let ?put = "\<lambda>c u. u\<lparr>usage_cost := Some (cb_microUsd c),
                         usage_peakCost := Some (if cb_peak c then cb_microUsd c else 0)\<rparr>"
  have point: "?one (insert (usage_id row) seen) u =
      (case row_cost weekday table row of None \<Rightarrow> ?one seen u
       | Some c \<Rightarrow> if apply' \<and> usage_id (?one seen u) = usage_id row then ?put c (?one seen u)
                   else ?one seen u)" if u: "u \<in> set orig" for u
  proof (cases "usage_id u = usage_id row")
    case True
    from row [OF u True] have u: "u = row" .
    show ?thesis
      using Cons.prems(4) unfolding u by (simp add: filled_def split: option.split)
  next
    case False
    then show ?thesis by (simp split: option.split)
  qed
  have "?mark (insert (usage_id row) seen) =
      (case row_cost weekday table row of None \<Rightarrow> ?mark seen
       | Some c \<Rightarrow> if apply' then upd_where (\<lambda>u. usage_id u = usage_id row) (?put c) (?mark seen)
         else ?mark seen)"
    using point by (cases "row_cost weekday table row"; cases apply') (simp_all add: upd_where_def)
  then have step: "backfill_row weekday table apply' (d\<lparr>db_usage := ?mark seen\<rparr>, res) row =
      (d\<lparr>db_usage := ?mark (insert (usage_id row) seen)\<rparr>,
       (case row_cost weekday table row of
          None \<Rightarrow> res\<lparr>bf_stillUnpriced := bf_stillUnpriced res + 1\<rparr>
        | Some c \<Rightarrow> res\<lparr>bf_priced := bf_priced res + 1, bf_total := bf_total res + cb_microUsd c\<rparr>))"
    by (simp add: backfill_row_def split: option.splits)
  have un: "insert (usage_id row) seen \<union> usage_id ` set rows = seen \<union> usage_id ` set (row # rows)" by auto
  define res' where "res' = (case row_cost weekday table row of
          None \<Rightarrow> res\<lparr>bf_stillUnpriced := bf_stillUnpriced res + 1\<rparr>
        | Some c \<Rightarrow> res\<lparr>bf_priced := bf_priced res + 1, bf_total := bf_total res + cb_microUsd c\<rparr>)"
  have tail: "foldl (backfill_row weekday table apply') (d\<lparr>db_usage := ?mark (insert (usage_id row) seen)\<rparr>, res') rows =
    (d\<lparr>db_usage := ?mark (insert (usage_id row) seen \<union> usage_id ` set rows)\<rparr>,
     res'\<lparr>bf_priced := bf_priced res' + count_where (\<lambda>u. row_cost weekday table u \<noteq> None) rows,
         bf_stillUnpriced := bf_stillUnpriced res' + count_where (\<lambda>u. row_cost weekday table u = None) rows,
         bf_total := bf_total res' + priced_total weekday table rows\<rparr>)"
    by (rule Cons.IH) (use Cons.prems in auto)
  show ?case
    unfolding foldl_Cons step res'_def [symmetric] tail un
    by (cases "row_cost weekday table row") (simp_all add: res'_def priced_total_def sum_of_def)
qed

text \<open>
  Claim C9. The backfill rewrites no history: a record that has a cost keeps it, a record without one gets
  its price exactly when its model has a rate now, nothing else in the database changes, the report counts
  every unpriced record once and its total is the money added; without \<^verbatim>\<open>--apply\<close> it changes nothing
  and reports the same.
\<close>

theorem backfill_fills_only_gaps:
  assumes "distinct (map usage_id (db_usage d))"
  shows "fst (backfillCosts weekday table d True) =
      d\<lparr>db_usage := map (\<lambda>u. if usage_cost u = None then filled weekday table u else u) (db_usage d)\<rparr> \<and>
    fst (backfillCosts weekday table d False) = d \<and>
    snd (backfillCosts weekday table d True) = snd (backfillCosts weekday table d False) \<and>
    bf_rows (snd (backfillCosts weekday table d a)) = count_where (\<lambda>u. usage_cost u = None) (db_usage d) \<and>
    bf_priced (snd (backfillCosts weekday table d a)) + bf_stillUnpriced (snd (backfillCosts weekday table d a)) =
      bf_rows (snd (backfillCosts weekday table d a)) \<and>
    bf_total (snd (backfillCosts weekday table d a)) =
      priced_total weekday table (filter (\<lambda>u. usage_cost u = None) (db_usage d))"
proof -
  define open_rows where "open_rows = filter (\<lambda>u. usage_cost u = None) (db_usage d)"
  define rows where "rows = js_sort (\<lambda>a b. usage_at a - usage_at b) open_rows"
  have sub: "set rows \<subseteq> set (db_usage d)" by (auto simp: rows_def open_rows_def)
  have dist: "distinct (map usage_id rows)"
    unfolding rows_def open_rows_def by (simp add: assms distinct_map_filter)
  have eq: "backfillCosts weekday table d ap =
      (d\<lparr>db_usage := map (\<lambda>u. if ap \<and> usage_id u \<in> usage_id ` set rows then filled weekday table u else u)
                       (db_usage d)\<rparr>,
       \<lparr>bf_rows = int (length rows), bf_priced = count_where (\<lambda>u. row_cost weekday table u \<noteq> None) rows,
        bf_stillUnpriced = count_where (\<lambda>u. row_cost weekday table u = None) rows,
        bf_total = priced_total weekday table rows\<rparr>)" for ap
    using backfill_loop [OF assms sub dist, of "{}" weekday table ap d
        "\<lparr>bf_rows = int (length rows), bf_priced = 0, bf_stillUnpriced = 0, bf_total = 0\<rparr>"]
    by (cases "rows = []")
      (simp_all add: backfillCosts_def rows_def [symmetric] open_rows_def [symmetric] Let_def
        priced_total_def sum_of_def)
  have mem: "usage_id u \<in> usage_id ` set rows \<longleftrightarrow> usage_cost u = None" if "u \<in> set (db_usage d)" for u
    using assms that by (auto simp: rows_def open_rows_def distinct_map inj_on_def)
  have split: "count_where P rows + count_where (\<lambda>u. \<not> P u) rows = int (length rows)" for P
    by (induction rows) auto
  show ?thesis
    unfolding eq
    using split [of "\<lambda>u. row_cost weekday table u \<noteq> None"]
    by (simp add: mem cong: map_cong)
      (simp add: rows_def open_rows_def count_where_def priced_total_def sum_of_js_sort)
qed

lemma backfill_fills_only_gaps_witness:
  "bf_priced (snd (backfillCosts (\<lambda>t z. Some ''Mon'') DEFAULT_PRICING sample_ledger True)) +
   bf_stillUnpriced (snd (backfillCosts (\<lambda>t z. Some ''Mon'') DEFAULT_PRICING sample_ledger True)) = 2"
proof -
  have "distinct (map usage_id (db_usage sample_ledger))"
    by (simp add: sample_ledger_def sample_usage_def)
  from backfill_fills_only_gaps [OF this, of "\<lambda>t z. Some ''Mon''" DEFAULT_PRICING True]
  have "bf_priced (snd (backfillCosts (\<lambda>t z. Some ''Mon'') DEFAULT_PRICING sample_ledger True)) +
      bf_stillUnpriced (snd (backfillCosts (\<lambda>t z. Some ''Mon'') DEFAULT_PRICING sample_ledger True)) =
      count_where (\<lambda>u. usage_cost u = None) (db_usage sample_ledger)"
    by argo
  then show ?thesis by (simp add: sample_ledger_def sample_usage_def)
qed

end
