(* ===== verification/Scheduler.thy ===== *)
theory Scheduler
  imports Usage
begin

text \<open>
  Scheduled runs (\<^verbatim>\<open>src/cron/schedule.ts\<close>): the scheduler's jobs and problems, the record of
  missed occurrences at start, and one attempt at a schedule, split at its \<^verbatim>\<open>await\<close> into the part
  before the turn and the part that books the outcome.  Pattern parsing and occurrence times are the
  \<^verbatim>\<open>croner\<close> package, a parameter; an insert that violates a reference throws (\<open>None\<close>).
\<close>

section \<open>State\<close>

text \<open>
  \<open>cr_error\<close> is the message of the exception of \<^verbatim>\<open>new Cron\<close>, \<open>cr_nextRuns p z n t\<close> the first \<open>n\<close>
  occurrences after \<open>t\<close>.
\<close>

record croner =
  cr_error :: "string \<Rightarrow> string \<Rightarrow> string option"
  cr_nextRuns :: "string \<Rightarrow> string \<Rightarrow> nat \<Rightarrow> time \<Rightarrow> time list"

record cron_config =
  cc_agents :: "id \<rightharpoonup> id"
  cc_upstreams :: "id list"
  cc_dailyBudgetMicroUsd :: "int option"
  cc_maxConsecutiveFailures :: int
  cc_calendar :: host_calendar

datatype skip_reason = SkipDisabled | SkipBusy | SkipBudget | SkipUnmeasurable | SkipMisconfigured

datatype attempt_state = AttemptDone | AttemptFailed | AttemptMissed

record cron_attempt =
  ca_cronId :: id
  ca_ran :: bool
  ca_skipped :: "skip_reason option"
  ca_runId :: "id option"
  ca_state :: attempt_state
  ca_message :: "string option"

text \<open>An attempt that waits for its turn keeps the row it read.\<close>

record pending_attempt =
  pa_key :: nat
  pa_row :: cron_row

record scheduler =
  sc_db :: db
  sc_jobs :: "id list"
  sc_problems :: "(id \<times> string) list"
  sc_stopped :: bool
  sc_pending :: "pending_attempt list"
  sc_nextKey :: nat

definition MISSED_CAP :: nat where "MISSED_CAP = 100"
definition USD_TO_MICRO :: rat where "USD_TO_MICRO = 1000000"

section \<open>Schedules\<close>

definition missedBetween :: "croner \<Rightarrow> string \<Rightarrow> string \<Rightarrow> time \<Rightarrow> time \<Rightarrow> nat \<Rightarrow> string + nat" where
  "missedBetween c pattern zone since now cap =
     (case cr_error c pattern zone of Some e \<Rightarrow> Inl e
      | None \<Rightarrow> Inr (length (filter (\<lambda>t. t \<le> now) (cr_nextRuns c pattern zone cap since))))"

definition scheduleProblem :: "croner \<Rightarrow> time \<Rightarrow> string \<Rightarrow> string \<Rightarrow> string option" where
  "scheduleProblem c now pattern zone =
     (case cr_error c pattern zone of Some e \<Rightarrow> Some e
      | None \<Rightarrow> if cr_nextRuns c pattern zone 1 now = []
                 then Some ''this pattern has no future run time'' else None)"

definition cron_row_of :: "db \<Rightarrow> id \<Rightarrow> cron_row option" where
  "cron_row_of d i = first_row (\<lambda>r. cron_id r = i) (db_crons d)"

definition update_cron :: "id \<Rightarrow> (cron_row \<Rightarrow> cron_row) \<Rightarrow> db \<Rightarrow> db" where
  "update_cron i f d = d\<lparr>db_crons := upd_where (\<lambda>r. cron_id r = i) f (db_crons d)\<rparr>"

definition skip_row :: "cron_row \<Rightarrow> id \<Rightarrow> time \<Rightarrow> string \<Rightarrow> run_row" where
  "skip_row row runId now message =
     \<lparr>run_id = runId, run_agentId = cron_agentId row, run_apiKeyId = None, run_chatId = None,
      run_sourceChatId = None, run_conflict = None, run_cronId = Some (cron_id row),
      run_dshSessionId = None, run_trigger = CronTrigger, run_idempotencyKey = None,
      run_state = Missed, run_resultSummary = None, run_startedAt = now, run_endedAt = Some now,
      run_error = Some message, run_commitHash = None\<rparr>"

definition recordSkip :: "db \<Rightarrow> cron_row \<Rightarrow> id \<Rightarrow> time \<Rightarrow> string \<Rightarrow> db option" where
  "recordSkip d row runId now message = insert_run d (skip_row row runId now message)"

definition missed_message :: "nat \<Rightarrow> string" where
  "missed_message n =
     ''missed '' @ (if n \<ge> MISSED_CAP then show_nat MISSED_CAP @ ''+'' else show_nat n) @
     '' scheduled run(s) while the manager was not running. '' @
     ''Not caught up on purpose: running them now would repeat work and repeat the bill.''"

definition missed_since :: "cron_row \<Rightarrow> time" where
  "missed_since row = (case cron_lastRunAt row of None \<Rightarrow> cron_createdAt row | Some t \<Rightarrow> t)"

definition passed_runs :: "croner \<Rightarrow> cron_row \<Rightarrow> time \<Rightarrow> time list" where
  "passed_runs c row now =
     filter (\<lambda>t. t \<le> now) (cr_nextRuns c (cron_schedule row) (cron_timezone row) MISSED_CAP (missed_since row))"

text \<open>One row of the start-up loop; \<open>uuid\<close> is the fresh run id the loop draws for a schedule.\<close>

definition missed_one :: "croner \<Rightarrow> (id \<Rightarrow> id) \<Rightarrow> time \<Rightarrow> db option \<Rightarrow> cron_row \<Rightarrow> db option" where
  "missed_one c uuid now acc row =
     (case acc of None \<Rightarrow> None
      | Some d \<Rightarrow>
        if missed_since row \<le> 0
        then Some (update_cron (cron_id row) (\<lambda>r. r\<lparr>cron_lastRunAt := Some now\<rparr>) d)
        else if cr_error c (cron_schedule row) (cron_timezone row) \<noteq> None then Some d
        else (let passed = passed_runs c row now; message = missed_message (length passed)
              in if passed = [] then Some d
                 else map_option (update_cron (cron_id row)
                        (\<lambda>r. r\<lparr>cron_lastRunAt := Some (last passed), cron_lastState := Some ''missed'',
                               cron_lastError := Some message\<rparr>))
                      (recordSkip d row (uuid (cron_id row)) now message)))"

definition recordMissed :: "croner \<Rightarrow> (id \<Rightarrow> id) \<Rightarrow> time \<Rightarrow> db \<Rightarrow> db option" where
  "recordMissed c uuid now d =
     foldl (missed_one c uuid now) (Some d) (filter (\<lambda>r. cron_enabled r = 1) (db_crons d))"

section \<open>The budget\<close>

text \<open>\<^verbatim>\<open>toFixed\<close> of a non-negative amount.\<close>

definition to_fixed :: "nat \<Rightarrow> rat \<Rightarrow> string" where
  "to_fixed k x =
     (let n = nat \<lfloor>x * 10 ^ k + 1/2\<rfloor>; frac = show_nat (n mod 10 ^ k)
      in show_nat (n div 10 ^ k) @ ''.'' @ replicate (k - length frac) (CHR ''0'') @ frac)"

definition budgetBlock :: "cron_config \<Rightarrow> db \<Rightarrow> time \<Rightarrow> (skip_reason \<times> string) option" where
  "budgetBlock cfg d now =
     (case cc_dailyBudgetMicroUsd cfg of None \<Rightarrow> None
      | Some budget \<Rightarrow>
        (case daySpend (cc_calendar cfg) d (currentDay (cc_calendar cfg) now) of (cost, unpriced) \<Rightarrow>
           if unpriced > 0 then Some (SkipUnmeasurable,
               show_int unpriced @ '' usage record(s) today have no configured rate, so today's spend cannot be '' @
               ''compared against the daily budget. Refusing to run rather than spending blind -- add the '' @
               ''model's rate to the pricing section of manager.config.yaml (the spend page names it).'')
           else if cost \<ge> budget then Some (SkipBudget,
               ''today's spend has reached the daily budget '' @
               ''($'' @ to_fixed 4 (of_int cost / USD_TO_MICRO) @ '' of $'' @
               to_fixed 2 (of_int budget / USD_TO_MICRO) @ ''). '' @
               ''Scheduled runs resume tomorrow; a manual run is still allowed.'')
           else None))"

section \<open>An attempt\<close>

datatype attempt_reply = Answered cron_attempt | Waiting nat | Threw

definition no_run :: "id \<Rightarrow> skip_reason \<Rightarrow> id option \<Rightarrow> string \<Rightarrow> cron_attempt" where
  "no_run i reason runId message = \<lparr>ca_cronId = i, ca_ran = False, ca_skipped = Some reason,
     ca_runId = runId, ca_state = AttemptMissed, ca_message = Some message\<rparr>"

definition attempt_skip ::
    "scheduler \<Rightarrow> cron_row \<Rightarrow> id \<Rightarrow> time \<Rightarrow> skip_reason \<Rightarrow> string \<Rightarrow> scheduler \<times> attempt_reply" where
  "attempt_skip s row runId now reason message =
     (case recordSkip (sc_db s) row runId now message of None \<Rightarrow> (s, Threw)
      | Some d \<Rightarrow>
         (s\<lparr>sc_db := update_cron (cron_id row) (\<lambda>r. r\<lparr>cron_lastState := Some ''missed'',
               cron_lastError := Some message, cron_lastRunAt := Some now\<rparr>) d\<rparr>,
          Answered (no_run (cron_id row) reason (Some runId) message)))"

definition attempt_start ::
    "cron_config \<Rightarrow> scheduler \<Rightarrow> id \<Rightarrow> bool \<Rightarrow> id \<Rightarrow> time \<Rightarrow> scheduler \<times> attempt_reply" where
  "attempt_start cfg s cronId force runId now =
     (case cron_row_of (sc_db s) cronId of
        None \<Rightarrow> (s, Answered (no_run cronId SkipMisconfigured None ''no such schedule''))
      | Some row \<Rightarrow>
        if \<not> force \<and> cron_enabled row \<noteq> 1
        then (s, Answered (no_run cronId SkipDisabled None ''schedule is disabled''))
        else case cc_agents cfg (cron_agentId row) of
          None \<Rightarrow> attempt_skip s row runId now SkipMisconfigured
            (''agent \"'' @ cron_agentId row @ ''\" is no longer in manager.config.yaml'')
        | Some endpoint \<Rightarrow>
          if endpoint \<notin> set (cc_upstreams cfg)
          then attempt_skip s row runId now SkipMisconfigured
            (''endpoint \"'' @ endpoint @ ''\" has no upstream client'')
          else case (if force then None else budgetBlock cfg (sc_db s) now) of
            Some (reason, message) \<Rightarrow> attempt_skip s row runId now reason message
          | None \<Rightarrow>
              (s\<lparr>sc_pending := sc_pending s @ [\<lparr>pa_key = sc_nextKey s, pa_row = row\<rparr>],
                 sc_nextKey := sc_nextKey s + 1\<rparr>, Waiting (sc_nextKey s)))"

text \<open>How the turn ended: its outcome is \<^verbatim>\<open>done\<close>, another state, or an exception.\<close>

datatype turn_result =
    TurnDone (td_runId: id) (td_summary: "string option")
  | TurnNotDone (tn_runId: id) (tn_error: "string option")
  | TurnThrew string

definition cron_reason :: "int \<Rightarrow> string \<Rightarrow> string" where
  "cron_reason failures message = ''switched off automatically after '' @ show_int failures @
     '' consecutive failures. '' @ ''Last error: '' @ message @ ''. Fix the cause, then switch it back on.''"

definition countFailure ::
    "cron_config \<Rightarrow> scheduler \<Rightarrow> cron_row \<Rightarrow> string \<Rightarrow> id option \<Rightarrow> id \<Rightarrow> time \<Rightarrow>
     scheduler \<times> cron_attempt" where
  "countFailure cfg s row message runId uuid now =
     (let failures = cron_consecutiveFailures row + 1;
          off = (failures \<ge> cc_maxConsecutiveFailures cfg);
          d1 = notify (sc_db s) uuid now ''cron_failed''
                 (''scheduled task failed: '' @ cron_name row @ (if off then '' (disabled automatically)'' else ''''))
                 message (Some ''/runs'');
          d2 = update_cron (cron_id row) (\<lambda>r.
                 let r1 = r\<lparr>cron_consecutiveFailures := failures, cron_lastRunAt := Some now,
                            cron_lastState := Some ''failed'', cron_lastError := Some message\<rparr>
                 in if off then r1\<lparr>cron_enabled := 0, cron_disabledReason := Some (cron_reason failures message)\<rparr>
                    else r1) d1
      in (s\<lparr>sc_db := d2, sc_jobs := (if off then removeAll (cron_id row) (sc_jobs s) else sc_jobs s)\<rparr>,
          \<lparr>ca_cronId = cron_id row, ca_ran = True, ca_skipped = None, ca_runId = runId,
           ca_state = AttemptFailed, ca_message = Some message\<rparr>))"

definition attempt_finish ::
    "cron_config \<Rightarrow> scheduler \<Rightarrow> cron_row \<Rightarrow> turn_result \<Rightarrow> id \<Rightarrow> time \<Rightarrow> scheduler \<times> cron_attempt" where
  "attempt_finish cfg s row result uuid now =
     (case result of
        TurnDone runId summary \<Rightarrow>
          (s\<lparr>sc_db := notify (update_cron (cron_id row) (\<lambda>r. r\<lparr>cron_consecutiveFailures := 0,
                 cron_lastRunAt := Some now, cron_lastState := Some ''done'', cron_lastError := None\<rparr>) (sc_db s))
               uuid now ''cron_done'' (''scheduled task finished: '' @ cron_name row)
               (case summary of None \<Rightarrow> ''(no output text)'' | Some t \<Rightarrow> t) (Some ''/runs'')\<rparr>,
           \<lparr>ca_cronId = cron_id row, ca_ran = True, ca_skipped = None, ca_runId = Some runId,
            ca_state = AttemptDone, ca_message = None\<rparr>)
      | TurnNotDone runId err \<Rightarrow>
          countFailure cfg s row (case err of None \<Rightarrow> ''the run failed without a reason'' | Some e \<Rightarrow> e)
            (Some runId) uuid now
      | TurnThrew e \<Rightarrow> countFailure cfg s row e None uuid now)"

definition attempt_settle ::
    "cron_config \<Rightarrow> scheduler \<Rightarrow> nat \<Rightarrow> turn_result \<Rightarrow> id \<Rightarrow> time \<Rightarrow> scheduler \<times> cron_attempt option" where
  "attempt_settle cfg s k result uuid now =
     (case List.find (\<lambda>p. pa_key p = k) (sc_pending s) of None \<Rightarrow> (s, None)
      | Some p \<Rightarrow>
          (case attempt_finish cfg (s\<lparr>sc_pending := filter (\<lambda>q. pa_key q \<noteq> k) (sc_pending s)\<rparr>)
                  (pa_row p) result uuid now of (s1, a) \<Rightarrow> (s1, Some a)))"

section \<open>Jobs\<close>

definition load_jobs :: "croner \<Rightarrow> time \<Rightarrow> scheduler \<Rightarrow> scheduler" where
  "load_jobs c now s =
     (let rows = filter (\<lambda>r. cron_enabled r = 1) (db_crons (sc_db s));
          problem = (\<lambda>r. scheduleProblem c now (cron_schedule r) (cron_timezone r))
      in s\<lparr>sc_jobs := map cron_id (filter (\<lambda>r. problem r = None) rows),
           sc_problems := map (\<lambda>r. (cron_id r, the (problem r))) (filter (\<lambda>r. problem r \<noteq> None) rows)\<rparr>)"

definition scheduler_start :: "croner \<Rightarrow> (id \<Rightarrow> id) \<Rightarrow> time \<Rightarrow> scheduler \<Rightarrow> scheduler option" where
  "scheduler_start c uuid now s =
     map_option (\<lambda>d. load_jobs c now (s\<lparr>sc_stopped := False, sc_db := d\<rparr>))
       (recordMissed c uuid now (sc_db s))"

definition scheduler_reload :: "croner \<Rightarrow> time \<Rightarrow> scheduler \<Rightarrow> scheduler" where
  "scheduler_reload c now s = (if sc_stopped s then s else load_jobs c now s)"

definition scheduler_stop :: "scheduler \<Rightarrow> scheduler" where
  "scheduler_stop s = s\<lparr>sc_stopped := True, sc_jobs := []\<rparr>"

definition problemFor :: "scheduler \<Rightarrow> id \<Rightarrow> string option" where
  "problemFor s i = map_of (rev (sc_problems s)) i"

definition activeCount :: "scheduler \<Rightarrow> nat" where
  "activeCount s = length (sc_jobs s)"

text \<open>
  A job's timer fires: the callback starts an attempt and returns without waiting for it, so
  the overlap guard of \<^verbatim>\<open>croner\<close>, which holds while the callback runs, is free again at the next
  occurrence.
\<close>

definition job_fires :: "cron_config \<Rightarrow> scheduler \<Rightarrow> id \<Rightarrow> id \<Rightarrow> time \<Rightarrow> scheduler \<times> attempt_reply option" where
  "job_fires cfg s cronId runId now =
     (if cronId \<in> set (sc_jobs s)
      then (case attempt_start cfg s cronId False runId now of (s1, r) \<Rightarrow> (s1, Some r))
      else (s, None))"

section \<open>Failures and skips\<close>

lemma cron_row_of_update:
  "(\<And>r. cron_id (f r) = cron_id r) \<Longrightarrow>
   cron_row_of (update_cron i f d) k = map_option (\<lambda>r. if cron_id r = i then f r else r) (cron_row_of d k)"
  by (simp add: cron_row_of_def update_cron_def first_row_upd)

lemma cron_row_of_id: "cron_row_of d i = Some r \<Longrightarrow> cron_id r = i"
  by (auto simp: cron_row_of_def dest: first_row_Some)

lemma cron_row_of_notify [simp]: "cron_row_of (notify d uuid now kind title body link) i = cron_row_of d i"
  by (simp add: cron_row_of_def notify_def)

text \<open>The schedule can start a turn: its agent and endpoint are there and no budget is set.\<close>

definition runnable :: "cron_config \<Rightarrow> cron_row \<Rightarrow> bool" where
  "runnable cfg row \<longleftrightarrow> cc_dailyBudgetMicroUsd cfg = None \<and>
     (case cc_agents cfg (cron_agentId row) of None \<Rightarrow> False | Some e \<Rightarrow> e \<in> set (cc_upstreams cfg))"

lemma attempt_start_runs:
  assumes "cron_row_of (sc_db s) i = Some row" and "force \<or> cron_enabled row = 1" and "runnable cfg row"
  shows "attempt_start cfg s i force runId now =
    (s\<lparr>sc_pending := sc_pending s @ [\<lparr>pa_key = sc_nextKey s, pa_row = row\<rparr>], sc_nextKey := sc_nextKey s + 1\<rparr>,
     Waiting (sc_nextKey s))"
  using assms
  by (auto simp: attempt_start_def runnable_def budgetBlock_def split: option.splits)

text \<open>
  A history of the scheduler: occurrences of any schedule, manual starts of any schedule, turns that end, reloads.  Occurrences of
  different schedules interleave as they like.
\<close>

datatype sched_event =
    Fires id id time
  | StartsManually id id time
  | TurnEnds nat turn_result id time
  | Reloads croner time

definition sched_step :: "cron_config \<Rightarrow> scheduler \<Rightarrow> sched_event \<Rightarrow> scheduler" where
  "sched_step cfg s e = (case e of
     Fires j runId now \<Rightarrow> fst (job_fires cfg s j runId now)
   | StartsManually j runId now \<Rightarrow> fst (attempt_start cfg s j True runId now)
   | TurnEnds k result uuid now \<Rightarrow> fst (attempt_settle cfg s k result uuid now)
   | Reloads c now \<Rightarrow> scheduler_reload c now s)"

definition waits_for :: "scheduler \<Rightarrow> id \<Rightarrow> bool" where
  "waits_for s i \<longleftrightarrow> (\<exists>p\<in>set (sc_pending s). cron_id (pa_row p) = i)"

definition result_fails :: "turn_result \<Rightarrow> bool" where
  "result_fails r = (case r of TurnDone _ _ \<Rightarrow> False | _ \<Rightarrow> True)"

text \<open>What the history itself says: how many turns of the schedule have failed in a row.\<close>

definition streak_after :: "id \<Rightarrow> scheduler \<Rightarrow> int \<Rightarrow> sched_event \<Rightarrow> int" where
  "streak_after i s n e = (case e of
     TurnEnds k result uuid now \<Rightarrow>
       (case List.find (\<lambda>p. pa_key p = k) (sc_pending s) of
          None \<Rightarrow> n
        | Some p \<Rightarrow> if cron_id (pa_row p) \<noteq> i then n else if result_fails result then n + 1 else 0)
   | _ \<Rightarrow> n)"

fun streak :: "cron_config \<Rightarrow> id \<Rightarrow> scheduler \<Rightarrow> int \<Rightarrow> sched_event list \<Rightarrow> int" where
  "streak cfg i s n [] = n"
| "streak cfg i s n (e # es) = streak cfg i (sched_step cfg s e) (streak_after i s n e) es"

text \<open>No occurrence of the schedule comes while a turn of it runs, and nobody starts it by hand.\<close>

definition in_turn :: "id \<Rightarrow> scheduler \<Rightarrow> sched_event \<Rightarrow> bool" where
  "in_turn i s e = (case e of Fires j _ _ \<Rightarrow> j = i \<longrightarrow> \<not> waits_for s i | StartsManually j _ _ \<Rightarrow> j \<noteq> i | _ \<Rightarrow> True)"

fun one_at_a_time :: "cron_config \<Rightarrow> id \<Rightarrow> scheduler \<Rightarrow> sched_event list \<Rightarrow> bool" where
  "one_at_a_time cfg i s [] = True"
| "one_at_a_time cfg i s (e # es) = (in_turn i s e \<and> one_at_a_time cfg i (sched_step cfg s e) es)"

definition switched_off :: "scheduler \<Rightarrow> id \<Rightarrow> cron_row \<Rightarrow> bool" where
  "switched_off s i row \<longleftrightarrow> cron_enabled row = 0 \<and> cron_disabledReason row \<noteq> None \<and> i \<notin> set (sc_jobs s)"

definition keys_ok :: "scheduler \<Rightarrow> bool" where
  "keys_ok s \<longleftrightarrow> distinct (map pa_key (sc_pending s)) \<and> (\<forall>p\<in>set (sc_pending s). pa_key p < sc_nextKey s)"

definition tracks :: "cron_config \<Rightarrow> id \<Rightarrow> scheduler \<Rightarrow> int \<Rightarrow> bool" where
  "tracks cfg i s n \<longleftrightarrow> keys_ok s \<and> distinct (map cron_id (db_crons (sc_db s))) \<and>
     (\<exists>row. cron_row_of (sc_db s) i = Some row \<and> cron_consecutiveFailures row = n \<and>
        (if n < cc_maxConsecutiveFailures cfg then cron_enabled row = 1 else switched_off s i row)) \<and>
     (\<forall>p\<in>set (sc_pending s). cron_id (pa_row p) = i \<longrightarrow> cron_consecutiveFailures (pa_row p) = n \<and> n < cc_maxConsecutiveFailures cfg) \<and>
     (\<forall>p\<in>set (sc_pending s). \<forall>q\<in>set (sc_pending s). cron_id (pa_row p) = i \<and> cron_id (pa_row q) = i \<longrightarrow> p = q)"

lemma crons_insert_run: "insert_run d r = Some d' \<Longrightarrow> db_crons d' = db_crons d"
  by (auto dest!: insert_run_Some)

text \<open>What one attempt may do to the scheduler before its turn.\<close>

lemma attempt_start_cases:
  obtains (same) "fst (attempt_start cfg s j force runId now) = s"
  | (skipped) row d f where "cron_row_of (sc_db s) j = Some row" "db_crons d = db_crons (sc_db s)"
      "\<And>r. cron_id (f r) = cron_id r \<and> cron_consecutiveFailures (f r) = cron_consecutiveFailures r \<and> cron_enabled (f r) = cron_enabled r \<and>
         cron_disabledReason (f r) = cron_disabledReason r"
      "fst (attempt_start cfg s j force runId now) = s\<lparr>sc_db := update_cron (cron_id row) f d\<rparr>"
  | (starts) row where "cron_row_of (sc_db s) j = Some row" "force \<or> cron_enabled row = 1"
      "fst (attempt_start cfg s j force runId now) = s\<lparr>sc_pending := sc_pending s @ [\<lparr>pa_key = sc_nextKey s, pa_row = row\<rparr>], sc_nextKey := sc_nextKey s + 1\<rparr>"
proof -
  have skip: thesis if "cron_row_of (sc_db s) j = Some row" "attempt_start cfg s j force runId now = attempt_skip s row runId now reason message" for row reason message
  proof (cases "recordSkip (sc_db s) row runId now message")
    case None
    then show thesis using that same by (simp add: attempt_skip_def)
  next
    case (Some d)
    then show thesis using that
      by (intro skipped [of row d "\<lambda>r. r\<lparr>cron_lastState := Some ''missed'', cron_lastError := Some message, cron_lastRunAt := Some now\<rparr>"])
        (simp_all add: attempt_skip_def recordSkip_def crons_insert_run)
  qed
  show thesis
  proof (cases "cron_row_of (sc_db s) j")
    case None
    then show thesis using same by (simp add: attempt_start_def)
  next
    case (Some row)
    show thesis
    proof (cases "\<not> force \<and> cron_enabled row \<noteq> 1")
      case True
      then show thesis using same Some by (simp add: attempt_start_def)
    next
      case on: False
      have go: "attempt_start cfg s j force runId now = (case cc_agents cfg (cron_agentId row) of
          None \<Rightarrow> attempt_skip s row runId now SkipMisconfigured (''agent \"'' @ cron_agentId row @ ''\" is no longer in manager.config.yaml'')
        | Some endpoint \<Rightarrow>
          if endpoint \<notin> set (cc_upstreams cfg)
          then attempt_skip s row runId now SkipMisconfigured (''endpoint \"'' @ endpoint @ ''\" has no upstream client'')
          else case (if force then None else budgetBlock cfg (sc_db s) now) of
            Some (reason, message) \<Rightarrow> attempt_skip s row runId now reason message
          | None \<Rightarrow> (s\<lparr>sc_pending := sc_pending s @ [\<lparr>pa_key = sc_nextKey s, pa_row = row\<rparr>], sc_nextKey := sc_nextKey s + 1\<rparr>, Waiting (sc_nextKey s)))"
        unfolding attempt_start_def Some option.case(2) using on by (simp only: if_False)
      show thesis
      proof (cases "cc_agents cfg (cron_agentId row)")
        case None
        then show thesis using skip [OF Some go [unfolded None option.case(1)]] by blast
      next
        case (Some e)
        note go2 = go [unfolded Some option.case(2)]
        show thesis
        proof (cases "e \<notin> set (cc_upstreams cfg)")
          case True
          then show thesis using skip [OF \<open>cron_row_of (sc_db s) j = Some row\<close> go2 [unfolded if_P [OF True]]] by blast
        next
          case False
          note go3 = go2 [unfolded if_not_P [OF False]]
          show thesis
          proof (cases "if force then None else budgetBlock cfg (sc_db s) now")
            case None
            have "force \<or> cron_enabled row = 1" using on by blast
            then show thesis using starts [OF \<open>cron_row_of (sc_db s) j = Some row\<close>] go3 unfolding None by (simp only: option.case fst_conv)
          next
            case (Some rm)
            obtain r m where "rm = (r, m)" by (cases rm)
            then show thesis using skip [OF \<open>cron_row_of (sc_db s) j = Some row\<close>] go3 unfolding Some by (simp only: option.case prod.case)
          qed
        qed
      qed
    qed
  qed
qed

lemma crons_notify [simp]: "db_crons (notify d uuid now kind title body link) = db_crons d"
  by (simp add: notify_def)

lemma update_cron_ids: "(\<And>r. cron_id (f r) = cron_id r) \<Longrightarrow> map cron_id (db_crons (update_cron i f d)) = map cron_id (db_crons d)"
  by (simp add: update_cron_def upd_where_map_same)

lemma tracks_start:
  assumes t: "tracks cfg i s n" and i: "j = i \<Longrightarrow> \<not> force \<and> \<not> waits_for s i"
  shows "tracks cfg i (fst (attempt_start cfg s j force runId now)) n"
proof (cases rule: attempt_start_cases [of cfg s j force runId now])
  case same
  then show ?thesis using t by simp
next
  case (skipped row d f)
  obtain r where r: "cron_row_of (sc_db s) i = Some r" using t by (auto simp: tracks_def)
  have "cron_row_of d i = Some r" using r by (simp add: cron_row_of_def skipped(2))
  then have "\<exists>r'. cron_row_of (update_cron (cron_id row) f d) i = Some r' \<and> cron_consecutiveFailures r' = cron_consecutiveFailures r \<and>
      cron_enabled r' = cron_enabled r \<and> cron_disabledReason r' = cron_disabledReason r"
    using skipped(3) by (cases "cron_id r = cron_id row") (simp_all add: cron_row_of_update)
  moreover have "map cron_id (db_crons (update_cron (cron_id row) f d)) = map cron_id (db_crons (sc_db s))"
    using skipped(3) by (simp add: update_cron_ids skipped(2))
  ultimately show ?thesis using t r unfolding skipped(4) by (auto simp: tracks_def switched_off_def keys_ok_def split: if_splits)
next
  case (starts row)
  have id: "cron_id row = j" using starts(1) by (rule cron_row_of_id)
  have key: "keys_ok (s\<lparr>sc_pending := sc_pending s @ [\<lparr>pa_key = sc_nextKey s, pa_row = row\<rparr>], sc_nextKey := sc_nextKey s + 1\<rparr>)"
    using t by (force simp: tracks_def keys_ok_def)
  show ?thesis
  proof (cases "j = i")
    case False
    then show ?thesis using t key unfolding starts(3) by (auto simp: tracks_def switched_off_def id)
  next
    case True
    have "cron_enabled row = 1" "\<not> waits_for s i" using starts(2) i True by auto
    moreover obtain "cron_consecutiveFailures row = n" "n < cc_maxConsecutiveFailures cfg \<or> cron_enabled row = 0"
      using t starts(1) True by (auto simp: tracks_def switched_off_def split: if_splits)
    ultimately show ?thesis using t key starts(1) True unfolding starts(3) by (auto simp: tracks_def waits_for_def id)
  qed
qed

lemma tracks_settle:
  assumes t: "tracks cfg i s n" and pos: "0 < cc_maxConsecutiveFailures cfg"
  shows "tracks cfg i (fst (attempt_settle cfg s k result uuid now)) (streak_after i s n (TurnEnds k result uuid now))"
proof (cases "List.find (\<lambda>p. pa_key p = k) (sc_pending s)")
  case None
  then show ?thesis using t by (simp add: attempt_settle_def streak_after_def)
next
  case (Some p)
  have p: "p \<in> set (sc_pending s)" "pa_key p = k" using first_row_Some [of "\<lambda>p. pa_key p = k" "sc_pending s" p] Some by (simp_all add: first_row_def)
  let ?rest = "filter (\<lambda>q. pa_key q \<noteq> k) (sc_pending s)"
  have gone: "q \<noteq> p" if "q \<in> set ?rest" for q using that p(2) by auto
  have keys: "keys_ok (s'\<lparr>sc_pending := ?rest, sc_nextKey := sc_nextKey s\<rparr>)" for s' using t by (auto simp: tracks_def keys_ok_def distinct_map_filter)
  obtain row where row: "cron_row_of (sc_db s) i = Some row" "cron_consecutiveFailures row = n" using t by (auto simp: tracks_def)
  have idr: "cron_id row = i" using row(1) by (rule cron_row_of_id)
  have fin: "fst (attempt_settle cfg s k result uuid now) = fst (attempt_finish cfg (s\<lparr>sc_pending := ?rest\<rparr>) (pa_row p) result uuid now)"
    using Some by (simp add: attempt_settle_def split: prod.split)
  show ?thesis
  proof (cases "cron_id (pa_row p) = i")
    case False
    then show ?thesis
      using t row idr keys [of s] unfolding fin
      by (cases result) (auto simp: attempt_finish_def countFailure_def Let_def streak_after_def Some tracks_def switched_off_def cron_row_of_update update_cron_ids keys_ok_def split: if_splits)
  next
    case True
    have snap: "cron_consecutiveFailures (pa_row p) = n" "n < cc_maxConsecutiveFailures cfg" using t p True by (auto simp: tracks_def)
    have on: "cron_enabled row = 1" using t row snap(2) by (auto simp: tracks_def)
    have ids: "distinct (map cron_id (db_crons (sc_db s)))" using t by (simp add: tracks_def)
    have alone: "cron_id (pa_row q) \<noteq> i" if "q \<in> set ?rest" for q using gone [OF that] that t p(1) True by (auto simp: tracks_def)
    show ?thesis
      using row idr keys [of s] on alone snap True pos ids unfolding fin
      by (cases result) (auto simp: attempt_finish_def countFailure_def Let_def streak_after_def Some tracks_def switched_off_def result_fails_def
          cron_row_of_update update_cron_ids keys_ok_def)
  qed
qed

lemma tracks_reload:
  assumes t: "tracks cfg i s n"
  shows "tracks cfg i (scheduler_reload c now s) n"
proof -
  have "i \<notin> set (sc_jobs (load_jobs c now s))" if r: "cron_row_of (sc_db s) i = Some row" "cron_enabled row = 0" for row
  proof -
    have row: "row \<in> set (db_crons (sc_db s))" "cron_id row = i" using r(1) by (auto simp: cron_row_of_def dest: first_row_Some)
    have "q = row" if "q \<in> set (db_crons (sc_db s))" "cron_id q = i" for q
      using t row that by (auto simp: tracks_def distinct_map inj_on_def)
    then show ?thesis using r(2) by (auto simp: load_jobs_def Let_def)
  qed
  then show ?thesis using t by (auto simp: tracks_def switched_off_def scheduler_reload_def load_jobs_def keys_ok_def Let_def split: if_splits)
qed

lemma tracks_step:
  assumes "tracks cfg i s n" "in_turn i s e" "0 < cc_maxConsecutiveFailures cfg"
  shows "tracks cfg i (sched_step cfg s e) (streak_after i s n e)"
proof (cases e)
  case (Fires j runId now)
  have "tracks cfg i (fst (job_fires cfg s j runId now)) n"
  proof (cases "j \<in> set (sc_jobs s)")
    case True
    have "fst (job_fires cfg s j runId now) = fst (attempt_start cfg s j False runId now)" using True by (simp add: job_fires_def split: prod.split)
    then show ?thesis using tracks_start [OF assms(1), where j = j and force = False] assms(2) Fires by (auto simp: in_turn_def)
  qed (use assms in \<open>simp add: job_fires_def\<close>)
  then show ?thesis by (simp add: Fires sched_step_def streak_after_def)
next
  case (StartsManually j runId now)
  then show ?thesis using tracks_start [OF assms(1), where j = j and force = True] assms(2) by (simp add: sched_step_def streak_after_def in_turn_def)
next
  case (TurnEnds k result uuid now)
  then show ?thesis using tracks_settle [OF assms(1,3), of k result uuid now] by (simp add: sched_step_def)
next
  case (Reloads c now)
  then show ?thesis using tracks_reload [OF assms(1)] by (simp add: sched_step_def streak_after_def)
qed

lemma tracks_history:
  "tracks cfg i s n \<Longrightarrow> one_at_a_time cfg i s es \<Longrightarrow> 0 < cc_maxConsecutiveFailures cfg \<Longrightarrow>
   tracks cfg i (foldl (sched_step cfg) s es) (streak cfg i s n es)"
  by (induction es arbitrary: s n) (auto intro: tracks_step)

text \<open>
  Claim C10. A schedule that keeps failing switches itself off.  Take any history of the scheduler (occurrences and manual starts of any
  schedules in any interleaving, refusals for the budget or for a missing agent, turns that end well or badly, reloads) in which the
  turns of this schedule do not overlap, it is not started by hand, and nobody edits it.  Then its counter is the number of its turns
  that have failed in a row; while that is below the ceiling it is on; from the ceiling on it is off with the reason on record and
  without a job, its next occurrence changes nothing and starts nothing, and an attempt that had been due all the same is refused.
\<close>

theorem failing_schedule_switched_off:
  assumes "cron_row_of (sc_db s) i = Some row" and "cron_enabled row = 1" and "cron_consecutiveFailures row < cc_maxConsecutiveFailures cfg"
    and "0 < cc_maxConsecutiveFailures cfg" and "distinct (map cron_id (db_crons (sc_db s)))" and "keys_ok s" and "\<not> waits_for s i"
    and "one_at_a_time cfg i s es"
  defines "s' \<equiv> foldl (sched_step cfg) s es" and "n \<equiv> streak cfg i s (cron_consecutiveFailures row) es"
  shows "\<exists>row'. cron_row_of (sc_db s') i = Some row' \<and> cron_consecutiveFailures row' = n \<and>
    (if n < cc_maxConsecutiveFailures cfg then cron_enabled row' = 1
     else cron_enabled row' = 0 \<and> cron_disabledReason row' \<noteq> None \<and> i \<notin> set (sc_jobs s') \<and>
       (\<forall>runId now. job_fires cfg s' i runId now = (s', None) \<and>
          attempt_start cfg s' i False runId now = (s', Answered (no_run i SkipDisabled None ''schedule is disabled''))))"
proof -
  have "tracks cfg i s (cron_consecutiveFailures row)" using assms(1-7) by (auto simp: tracks_def waits_for_def)
  then have "tracks cfg i s' n" unfolding s'_def n_def using assms(8,4) by (rule tracks_history)
  then obtain row' where "cron_row_of (sc_db s') i = Some row'" "cron_consecutiveFailures row' = n"
      "if n < cc_maxConsecutiveFailures cfg then cron_enabled row' = 1 else switched_off s' i row'" by (auto simp: tracks_def)
  then show ?thesis by (auto simp: switched_off_def job_fires_def attempt_start_def split: if_splits)
qed

definition sample_cron :: cron_row where
  "sample_cron = \<lparr>cron_id = ''j'', cron_agentId = ''a'', cron_name = ''review'', cron_schedule = ''0 8 * * *'',
     cron_timezone = ''UTC'', cron_prompt = ''go'', cron_enabled = 1, cron_consecutiveFailures = 0,
     cron_lastRunAt = None, cron_createdAt = 5, cron_lastError = None, cron_disabledReason = None,
     cron_lastState = None\<rparr>"

definition sample_cron_config :: cron_config where
  "sample_cron_config = \<lparr>cc_agents = [''a'' \<mapsto> ''e''], cc_upstreams = [''e''],
     cc_dailyBudgetMicroUsd = None, cc_maxConsecutiveFailures = 2, cc_calendar = sample_calendar\<rparr>"

definition sample_scheduler :: scheduler where
  "sample_scheduler = \<lparr>sc_db = empty_db\<lparr>db_agents := [\<lparr>agent_id = ''a'', agent_name = ''a'',
       agent_workspacePath = ''/w'', agent_endpoint = ''e'', agent_preset = None, agent_gitRemote = None,
       agent_public = 0, agent_createdAt = 0\<rparr>], db_crons := [sample_cron]\<rparr>,
     sc_jobs = [''j''], sc_problems = [], sc_stopped = False, sc_pending = [], sc_nextKey = 0\<rparr>"

lemma sample_scheduler_row: "cron_row_of (sc_db sample_scheduler) ''j'' = Some sample_cron"
  by (simp add: sample_scheduler_def cron_row_of_def first_row_def sample_cron_def)

lemma sample_cron_runs: "cron_enabled sample_cron = 1" "runnable sample_cron_config sample_cron"
  "cron_consecutiveFailures sample_cron = 0"
  by (simp_all add: sample_cron_def runnable_def sample_cron_config_def)

text \<open>Two failing turns with another schedule's occurrence in between, then a third occurrence.\<close>

definition sample_history :: "sched_event list" where
  "sample_history = [Fires ''j'' ''r1'' 10, Fires ''k'' ''r2'' 11, TurnEnds 0 (TurnThrew ''boom'') ''u1'' 12, Fires ''j'' ''r3'' 20,
     TurnEnds 1 (TurnNotDone ''r3'' None) ''u2'' 22, Fires ''j'' ''r4'' 30]"

lemma sample_history_ok: "one_at_a_time sample_cron_config ''j'' sample_scheduler sample_history"
    "streak sample_cron_config ''j'' sample_scheduler 0 sample_history = 2"
  by code_simp+

lemma failing_schedule_switched_off_witness:
  "''j'' \<notin> set (sc_jobs (foldl (sched_step sample_cron_config) sample_scheduler sample_history))"
  using failing_schedule_switched_off [OF sample_scheduler_row sample_cron_runs(1) _ _ _ _ _ sample_history_ok(1)] sample_history_ok(2)
  by (auto simp: sample_cron_runs sample_scheduler_def sample_cron_config_def keys_ok_def waits_for_def simp del: foldl.simps streak.simps)

text \<open>
  Not running is never counted as failing: an attempt that is skipped (switched off, over the
  budget, spend not measurable, agent or endpoint missing) leaves every schedule's failure count and
  switch alone and keeps the jobs and the pending attempts; unless the schedule is unknown or off
  it leaves exactly one run row, in state \<^verbatim>\<open>missed\<close>, with the reason that is reported.
\<close>

theorem skip_is_not_a_failure:
  assumes "attempt_start cfg s i force runId now = (s', Answered a)"
  shows "map cron_consecutiveFailures (db_crons (sc_db s')) = map cron_consecutiveFailures (db_crons (sc_db s)) \<and>
    map cron_enabled (db_crons (sc_db s')) = map cron_enabled (db_crons (sc_db s)) \<and>
    sc_jobs s' = sc_jobs s \<and> sc_pending s' = sc_pending s \<and> \<not> ca_ran a \<and>
    (if ca_runId a = None then s' = s
     else \<exists>row. ca_runId a = Some runId \<and> db_runs (sc_db s') = db_runs (sc_db s) @
            [skip_row row runId now (the (ca_message a))])"
proof -
  have skip: ?thesis if "attempt_skip s row runId now reason message = (s', Answered a)" for row reason message
    using that
    by (auto simp: attempt_skip_def recordSkip_def no_run_def update_cron_def upd_where_map_same
        split: option.splits dest!: insert_run_Some)
  show ?thesis
    using assms skip
    by (auto simp: attempt_start_def no_run_def split: option.splits if_splits)
qed

lemma skip_is_not_a_failure_witness:
  "db_runs (sc_db (fst (attempt_start (sample_cron_config\<lparr>cc_upstreams := []\<rparr>) sample_scheduler ''j'' False ''r'' 9)))
     \<noteq> []"
proof -
  let ?p = "attempt_start (sample_cron_config\<lparr>cc_upstreams := []\<rparr>) sample_scheduler ''j'' False ''r'' 9"
  have p: "?p = (fst ?p, Answered (no_run ''j'' SkipMisconfigured (Some ''r'')
      ''endpoint \"e\" has no upstream client''))"
    by code_simp
  from skip_is_not_a_failure [OF p] show ?thesis by (auto simp: no_run_def)
qed

section \<open>Overlap\<close>

text \<open>
  Occurrences of one schedule overlap: while a turn is still running the next occurrence starts a
  second turn, and when both turns then fail only one failure is counted, because each attempt books
  on the row it read before its turn.
\<close>

theorem occurrences_overlap:
  assumes "cron_row_of (sc_db s) i = Some row" and "cron_enabled row = 1" and "runnable cfg row"
    and "i \<in> set (sc_jobs s)" and "sc_pending s = []"
    and "cron_consecutiveFailures row + 1 < cc_maxConsecutiveFailures cfg"
  shows "\<exists>s1 s2 row'. job_fires cfg s i r1 t1 = (s1, Some (Waiting (sc_nextKey s))) \<and>
    job_fires cfg s1 i r2 t2 = (s2, Some (Waiting (sc_nextKey s + 1))) \<and>
    map pa_row (sc_pending s2) = [row, row] \<and>
    cron_row_of (sc_db (fst (attempt_settle cfg (fst (attempt_settle cfg s2 (sc_nextKey s) (TurnThrew e1) u1 t3))
        (sc_nextKey s + 1) (TurnThrew e2) u2 t4))) i = Some row' \<and>
    cron_consecutiveFailures row' = cron_consecutiveFailures row + 1"
proof -
  define s1 where "s1 = s\<lparr>sc_pending := [\<lparr>pa_key = sc_nextKey s, pa_row = row\<rparr>], sc_nextKey := sc_nextKey s + 1\<rparr>"
  define s2 where "s2 = s1\<lparr>sc_pending := [\<lparr>pa_key = sc_nextKey s, pa_row = row\<rparr>,
    \<lparr>pa_key = sc_nextKey s + 1, pa_row = row\<rparr>], sc_nextKey := sc_nextKey s + 2\<rparr>"
  have f1: "job_fires cfg s i r1 t1 = (s1, Some (Waiting (sc_nextKey s)))"
    using assms by (simp add: job_fires_def attempt_start_runs [OF assms(1) _ assms(3)] s1_def)
  have row1: "cron_row_of (sc_db s1) i = Some row" using assms(1) by (simp add: s1_def)
  have f2: "job_fires cfg s1 i r2 t2 = (s2, Some (Waiting (sc_nextKey s + 1)))"
    using assms by (simp add: job_fires_def attempt_start_runs [OF row1 _ assms(3)] s2_def) (simp add: s1_def)
  have id: "cron_id row = i" by (rule cron_row_of_id [OF assms(1)])
  define s3 where "s3 = fst (attempt_settle cfg s2 (sc_nextKey s) (TurnThrew e1) u1 t3)"
  have p3: "sc_pending s3 = [\<lparr>pa_key = sc_nextKey s + 1, pa_row = row\<rparr>]"
    by (simp add: s3_def attempt_settle_def attempt_finish_def countFailure_def Let_def s2_def)
  have "\<exists>r3. cron_row_of (sc_db s3) i = Some r3"
    using assms(1,6) id
    by (simp add: s3_def attempt_settle_def attempt_finish_def countFailure_def Let_def s2_def s1_def
        cron_row_of_update)
  then obtain r3 where r3: "cron_row_of (sc_db s3) i = Some r3" by auto
  have "\<exists>row'. cron_row_of (sc_db (fst (attempt_settle cfg s3 (sc_nextKey s + 1) (TurnThrew e2) u2 t4))) i = Some row' \<and>
      cron_consecutiveFailures row' = cron_consecutiveFailures row + 1"
    using assms(6) id r3 cron_row_of_id [OF r3]
    by (simp add: attempt_settle_def p3 attempt_finish_def countFailure_def Let_def cron_row_of_update)
  then show ?thesis
    using f1 f2 unfolding s3_def by (auto simp: s2_def)
qed

lemma occurrences_overlap_witness:
  "\<exists>s1. job_fires (sample_cron_config\<lparr>cc_maxConsecutiveFailures := 5\<rparr>) sample_scheduler ''j'' ''r1'' 10 =
     (s1, Some (Waiting 0))"
proof -
  have "runnable (sample_cron_config\<lparr>cc_maxConsecutiveFailures := 5\<rparr>) sample_cron"
    by (simp add: runnable_def sample_cron_def sample_cron_config_def)
  moreover have "''j'' \<in> set (sc_jobs sample_scheduler)" "sc_pending sample_scheduler = []"
    "sc_nextKey sample_scheduler = 0"
    "cron_consecutiveFailures sample_cron + 1 <
       cc_maxConsecutiveFailures (sample_cron_config\<lparr>cc_maxConsecutiveFailures := 5\<rparr>)"
    by (simp_all add: sample_scheduler_def sample_cron_runs)
  ultimately show ?thesis
    using occurrences_overlap [OF sample_scheduler_row sample_cron_runs(1), of
        "sample_cron_config\<lparr>cc_maxConsecutiveFailures := 5\<rparr>" "''r1''" 10 "''r2''" 20 "''x''" "''n1''" 30 "''y''" "''n2''" 40]
    by fastforce
qed

section \<open>Missed occurrences\<close>

text \<open>
  What the documentation of \<^verbatim>\<open>nextRuns\<close> states: the occurrences after a moment, in order, the first
  \<open>n\<close> of them.
\<close>

definition croner_ok :: "croner \<Rightarrow> bool" where
  "croner_ok c \<longleftrightarrow> (\<forall>p z n t. sorted (cr_nextRuns c p z n t) \<and> length (cr_nextRuns c p z n t) \<le> n \<and>
     (\<forall>u \<in> set (cr_nextRuns c p z n t). t < u) \<and>
     (\<forall>m r u. u \<in> set (cr_nextRuns c p z m r) \<longrightarrow> t < u \<longrightarrow> u \<in> set (cr_nextRuns c p z n t) \<or>
        length (cr_nextRuns c p z n t) = n \<and> (\<forall>v \<in> set (cr_nextRuns c p z n t). v < u)))"

text \<open>Nothing is left to report for the row.\<close>

definition accounted :: "croner \<Rightarrow> time \<Rightarrow> cron_row \<Rightarrow> bool" where
  "accounted c now r \<longleftrightarrow> missed_since r > 0 \<and>
     (cr_error c (cron_schedule r) (cron_timezone r) \<noteq> None \<or> passed_runs c r now = [])"

lemma passed_runs_accounted:
  assumes c: "croner_ok c" and few: "length (passed_runs c row now) < MISSED_CAP"
    and ne: "passed_runs c row now \<noteq> []"
    and r: "cron_schedule r = cron_schedule row" "cron_timezone r = cron_timezone row"
      "cron_lastRunAt r = Some (last (passed_runs c row now))"
  shows "passed_runs c r now = []"
proof (rule ccontr)
  let ?L = "cr_nextRuns c (cron_schedule row) (cron_timezone row) MISSED_CAP (missed_since row)"
  let ?last = "last (passed_runs c row now)"
  assume "passed_runs c r now \<noteq> []"
  then obtain u where "u \<in> set (passed_runs c r now)" by (cases "passed_runs c r now") auto
  then have u: "u \<in> set (cr_nextRuns c (cron_schedule row) (cron_timezone row) MISSED_CAP ?last)" "u \<le> now"
    by (auto simp: passed_runs_def missed_since_def r)
  then have lu: "?last < u" using c by (auto simp: croner_ok_def)
  have lin: "?last \<in> set ?L" "?last \<le> now"
    using last_in_set [OF ne] by (auto simp: passed_runs_def)
  then have "missed_since row < u" using c lu by (force simp: croner_ok_def)
  then consider "u \<in> set ?L" | "length ?L = MISSED_CAP" "\<forall>v \<in> set ?L. v < u"
    using c u(1) unfolding croner_ok_def by meson
  then show False
  proof cases
    case 1
    then have "u \<in> set (passed_runs c row now)" using u(2) by (simp add: passed_runs_def)
    moreover have "sorted (passed_runs c row now)"
      using c by (simp add: passed_runs_def croner_ok_def sorted_filter [of id, simplified])
    ultimately have "u \<le> ?last" by (metis append_butlast_last_id ne sorted_append in_set_conv_decomp
          last_in_set list.set_intros(1) order_refl set_ConsD Un_iff set_append empty_iff list.set(1))
    then show False using lu by simp
  next
    case 2
    then have "passed_runs c row now = ?L" using u(2) by (force simp: passed_runs_def filter_id_conv)
    then show False using few 2 by simp
  qed
qed

lemma missed_one_row:
  assumes c: "croner_ok c" and now: "0 < now" and m: "missed_one c uuid now (Some d) row = Some d'"
    and few: "length (passed_runs c row now) < MISSED_CAP"
  shows "\<exists>f. db_crons d' = upd_where (\<lambda>r. cron_id r = cron_id row) f (db_crons d) \<and>
    (\<forall>r. cron_id (f r) = cron_id r \<and> cron_enabled (f r) = cron_enabled r) \<and> accounted c now (f row)"
proof (cases "missed_since row \<le> 0 \<or> cr_error c (cron_schedule row) (cron_timezone row) \<noteq> None \<or>
    passed_runs c row now = []")
  case False
  define f where "f = (\<lambda>r :: cron_row. r\<lparr>cron_lastRunAt := Some (last (passed_runs c row now)), cron_lastState := Some ''missed'',
                               cron_lastError := Some (missed_message (length (passed_runs c row now)))\<rparr>)"
  from False m obtain d1 where "recordSkip d row (uuid (cron_id row)) now
      (missed_message (length (passed_runs c row now))) = Some d1" and d': "d' = update_cron (cron_id row) f d1"
    by (auto simp: missed_one_def Let_def f_def)
  then have "db_crons d1 = db_crons d" by (auto simp: recordSkip_def dest!: insert_run_Some)
  moreover have "accounted c now (f row)"
  proof -
    have "passed_runs c (f row) now = []"
      by (rule passed_runs_accounted [OF c few]) (use False in \<open>auto simp: f_def\<close>)
    moreover have "last (passed_runs c row now) \<in> set (passed_runs c row now)" using False by simp
    then have "missed_since row < last (passed_runs c row now)"
      using c by (auto simp: passed_runs_def croner_ok_def)
    ultimately show ?thesis using False by (simp add: accounted_def f_def missed_since_def)
  qed
  ultimately show ?thesis by (intro exI [of _ f]) (simp add: d' update_cron_def f_def)
next
  case True
  show ?thesis
  proof (cases "missed_since row \<le> 0")
    case True
    define f where "f = (\<lambda>r :: cron_row. r\<lparr>cron_lastRunAt := Some now\<rparr>)"
    have "passed_runs c (f row) now = []"
      using c by (auto simp: passed_runs_def f_def missed_since_def filter_empty_conv croner_ok_def) force
    then have "accounted c now (f row)" using now by (simp add: accounted_def f_def missed_since_def)
    then show ?thesis
      using True m by (intro exI [of _ f]) (auto simp: missed_one_def update_cron_def f_def)
  next
    case False
    then have "d' = d" "accounted c now row"
      using \<open>missed_since row \<le> 0 \<or> _\<close> m
      by (auto simp: missed_one_def Let_def accounted_def split: if_splits)
    then show ?thesis by (intro exI [of _ "\<lambda>r. r"]) (simp add: upd_where_def)
  qed
qed

lemma missed_loop:
  assumes c: "croner_ok c" and now: "0 < now" and ids: "distinct (map cron_id orig)"
    and few: "\<And>r. r \<in> set orig \<Longrightarrow> length (passed_runs c r now) < MISSED_CAP"
  shows "set rows \<subseteq> set orig \<Longrightarrow> distinct (map cron_id rows) \<Longrightarrow> cron_id ` set rows \<inter> seen = {} \<Longrightarrow>
    map cron_id (db_crons d) = map cron_id orig \<Longrightarrow>
    (\<And>r. r \<in> set (db_crons d) \<Longrightarrow> cron_id r \<in> seen \<Longrightarrow> accounted c now r) \<Longrightarrow>
    (\<And>r. r \<in> set (db_crons d) \<Longrightarrow> cron_id r \<notin> seen \<Longrightarrow> r \<in> set orig) \<Longrightarrow>
    foldl (missed_one c uuid now) (Some d) rows = Some d' \<Longrightarrow>
    map cron_id (db_crons d') = map cron_id orig \<and>
    (\<forall>r \<in> set (db_crons d'). (cron_id r \<in> seen \<union> cron_id ` set rows \<longrightarrow> accounted c now r) \<and>
       (cron_id r \<notin> seen \<union> cron_id ` set rows \<longrightarrow> r \<in> set orig))"
proof (induction rows arbitrary: d seen)
  case Nil
  then show ?case by auto
next
  case (Cons row rows)
  have none: "foldl (missed_one c uuid now) None rows = None"
    by (induction rows) (simp_all add: missed_one_def)
  then obtain d1 where d1: "missed_one c uuid now (Some d) row = Some d1"
    using Cons.prems(7) by (cases "missed_one c uuid now (Some d) row") auto
  have row: "row \<in> set orig" using Cons.prems(1) by simp
  from missed_one_row [OF c now d1 few [OF row]] obtain f where
    f: "db_crons d1 = upd_where (\<lambda>r. cron_id r = cron_id row) f (db_crons d)"
      "\<And>r. cron_id (f r) = cron_id r" "accounted c now (f row)" by auto
  have same: "r = row" if "r \<in> set (db_crons d)" "cron_id r = cron_id row" for r
  proof -
    have "cron_id r \<notin> seen" using that Cons.prems(3) by auto
    then have "r \<in> set orig" using Cons.prems(6) that by auto
    then show ?thesis using ids row that(2) by (auto simp: distinct_map inj_on_def)
  qed
  have rest: "foldl (missed_one c uuid now) (Some d1) rows = Some d'" using Cons.prems(7) d1 by simp
  have "map cron_id (db_crons d') = map cron_id orig \<and>
    (\<forall>r \<in> set (db_crons d'). (cron_id r \<in> insert (cron_id row) seen \<union> cron_id ` set rows \<longrightarrow> accounted c now r) \<and>
       (cron_id r \<notin> insert (cron_id row) seen \<union> cron_id ` set rows \<longrightarrow> r \<in> set orig))"
  proof (rule Cons.IH [OF _ _ _ _ _ _ rest])
    show "map cron_id (db_crons d1) = map cron_id orig"
      using Cons.prems(4) by (simp add: f upd_where_map_same [of cron_id f, OF f(2)])
    fix r assume r: "r \<in> set (db_crons d1)"
    then obtain q where q: "q \<in> set (db_crons d)" "r = (if cron_id q = cron_id row then f q else q)"
      by (auto simp: f(1) set_upd_where)
    show "accounted c now r" if "cron_id r \<in> insert (cron_id row) seen"
    proof (cases "cron_id q = cron_id row")
      case True
      then show ?thesis using same [OF q(1) True] q(2) f(3) by simp
    next
      case False
      then show ?thesis using q that Cons.prems(5) by simp
    qed
    show "r \<in> set orig" if "cron_id r \<notin> insert (cron_id row) seen"
      using that q Cons.prems(6) f(2) by (auto split: if_splits)
  qed (use Cons.prems in auto)
  then show ?case by simp
qed

lemma missed_one_accounted:
  "accounted c now row \<Longrightarrow> missed_one c uuid now (Some d) row = Some d"
  by (auto simp: missed_one_def accounted_def Let_def)

text \<open>
  A gap is reported once: starting the scheduler a second time at the same moment changes nothing,
  because the first start advanced every enabled schedule past its missed occurrences (no catch-up and no
  second report), as long as no gap reaches the cap of 100 occurrences.
\<close>

theorem missed_gap_reported_once:
  assumes "croner_ok c" and "0 < now" and "distinct (map cron_id (db_crons d))"
    and "list_all (\<lambda>r. length (passed_runs c r now) < MISSED_CAP) (db_crons d)"
    and "recordMissed c uuid now d = Some d'"
  shows "recordMissed c uuid2 now d' = Some d'"
proof -
  let ?rows = "filter (\<lambda>r. cron_enabled r = 1) (db_crons d)"
  have loop: "map cron_id (db_crons d') = map cron_id (db_crons d) \<and>
    (\<forall>r \<in> set (db_crons d'). (cron_id r \<in> {} \<union> cron_id ` set ?rows \<longrightarrow> accounted c now r) \<and>
       (cron_id r \<notin> {} \<union> cron_id ` set ?rows \<longrightarrow> r \<in> set (db_crons d)))"
    by (rule missed_loop [OF assms(1-3), where d = d and uuid = uuid])
      (use assms in \<open>auto simp: list_all_iff recordMissed_def distinct_map_filter\<close>)
  have acc: "accounted c now r" if r: "r \<in> set (db_crons d')" "cron_enabled r = 1" for r
  proof -
    have "cron_id r \<in> cron_id ` set ?rows"
    proof (rule ccontr)
      assume n: "cron_id r \<notin> cron_id ` set ?rows"
      then have "r \<in> set (db_crons d)" using loop r(1) by auto
      then show False using n r(2) by auto
    qed
    then show ?thesis using loop r(1) by auto
  qed
  have "foldl (missed_one c uuid2 now) (Some d') rows = Some d'"
    if "\<And>r. r \<in> set rows \<Longrightarrow> accounted c now r" for rows
    using that by (induction rows) (simp_all add: missed_one_accounted)
  from this [of "filter (\<lambda>r. cron_enabled r = 1) (db_crons d')"] show ?thesis
    using acc by (simp add: recordMissed_def)
qed

definition daily_croner :: croner where
  "daily_croner = \<lparr>cr_error = (\<lambda>p z. None),
     cr_nextRuns = (\<lambda>p z n t. map (\<lambda>k. (t div 10 + 1 + int k) * 10) [0..<n])\<rparr>"

lemma daily_croner_ok: "croner_ok daily_croner"
proof -
  have "u \<in> set (cr_nextRuns daily_croner p z n t) \<or>
      length (cr_nextRuns daily_croner p z n t) = n \<and> (\<forall>v \<in> set (cr_nextRuns daily_croner p z n t). v < u)"
    if u: "u \<in> set (cr_nextRuns daily_croner p z m r)" "t < u" for p z :: string and n m :: nat and t r u :: int
  proof -
    from u obtain k where k: "u = (r div 10 + 1 + int k) * 10" by (auto simp: daily_croner_def)
    define j where "j = nat (r div 10 + int k - t div 10)"
    have "x div 10 < y" if "x < y * 10" for x y :: int using that by presburger
    then have "t div 10 < r div 10 + 1 + int k" using u(2) k by simp
    then have j: "u = (t div 10 + 1 + int j) * 10" using k by (simp add: j_def)
    show ?thesis
      by (cases "j < n") (auto simp: daily_croner_def j)
  qed
  moreover have "t < (t div 10 + 1 + int k) * 10" for t :: int and k :: nat
  proof -
    have "x < (x div 10 + 1 + y) * 10" if "0 \<le> y" for x y :: int using that by presburger
    then show ?thesis by simp
  qed
  moreover have "sorted (cr_nextRuns daily_croner p z n t)" for p z n t
    by (auto simp: daily_croner_def sorted_iff_nth_mono)
  ultimately show ?thesis
    unfolding croner_ok_def by (auto simp: daily_croner_def)
qed

lemma missed_gap_reported_once_witness:
  "recordMissed daily_croner (\<lambda>i. ''again'') 38
     (the (recordMissed daily_croner (\<lambda>i. ''once'') 38 (sc_db sample_scheduler))) =
   Some (the (recordMissed daily_croner (\<lambda>i. ''once'') 38 (sc_db sample_scheduler)))"
proof (rule missed_gap_reported_once [OF daily_croner_ok, of 38 "sc_db sample_scheduler" "\<lambda>i. ''once''"])
  show "list_all (\<lambda>r. length (passed_runs daily_croner r 38) < MISSED_CAP) (db_crons (sc_db sample_scheduler))"
    by code_simp
  show "recordMissed daily_croner (\<lambda>i. ''once'') 38 (sc_db sample_scheduler) =
      Some (the (recordMissed daily_croner (\<lambda>i. ''once'') 38 (sc_db sample_scheduler)))"
    by code_simp
qed (simp_all add: sample_scheduler_def sample_cron_def)

end
