(* ===== verification/Supervisor.thy ===== *)
theory Supervisor
  imports Prelude
begin

text \<open>
  The supervisor of one managed node (\<^verbatim>\<open>src/nodes/supervisor.ts\<close>): a node runs as a local process, as
  a container or on a remote agent.  The fields of the class and of its status are one record.  What
  the class has set in motion and awaits (timers, probes, container launches and stops, command
  results) is the list of pending continuations, each with the values its closure captured; what it does to
  the world is the list of effects.  An event is a call of a method or the arrival of one of those
  results.  The clock and the pid that the operating system assigns are inputs of an event.
\<close>

section \<open>State\<close>

datatype node_state = Cold | Starting | Live | Restarting | Offline

datatype runner_kind = ProcessRunner | DockerRunner | AgentRunner

record spawn_spec =
  sp_runner :: runner_kind
  sp_host :: "id option"
  sp_docker :: "string option"
  sp_readyTimeoutMs :: time
  sp_maxAttempts :: int
  sp_baseDelayMs :: time
  sp_maxDelayMs :: time
  sp_logFile :: "string option"

datatype pending =
    RestartTimer spawn_spec time
  | ReadyTimer spawn_spec time
  | ReadyProbe spawn_spec time
  | LiveProbe
  | DockerLaunch spawn_spec nat
  | DockerStopping spawn_spec
  | AgentResult spawn_spec nat

datatype effect =
    SpawnProcess nat
  | KillProcess nat
  | LaunchContainer
  | StopContainer id
  | AgentSpawn id
  | AgentStop id

record supervisor =
  sv_state :: node_state
  sv_pid :: "int option"
  sv_attempts :: int
  sv_statusError :: "string option"
  sv_startedAt :: "time option"
  sv_stateSince :: time
  sv_child :: "(nat \<times> int option) option"
  sv_containerId :: "id option"
  sv_lastSpec :: "spawn_spec option"
  sv_launchGen :: nat
  sv_readyTimer :: "nat option"
  sv_restartTimer :: "nat option"
  sv_manualStop :: bool
  sv_restartRequested :: bool
  sv_lastError :: "string option"
  sv_pidFile :: "string option"
  sv_liveProbeFailures :: int
  sv_nextId :: nat
  sv_pending :: "(nat \<times> pending) list"
  sv_effects :: "effect list"

text \<open>The collaborators that are wired, and the inputs of an event.\<close>

record supervisor_deps =
  dep_docker :: bool
  dep_agentCommand :: bool

record env =
  env_now :: time
  env_pid :: "int option"

definition new_supervisor :: "time \<Rightarrow> supervisor" where
  "new_supervisor now = \<lparr>sv_state = Cold, sv_pid = None, sv_attempts = 0, sv_statusError = None,
     sv_startedAt = None, sv_stateSince = now, sv_child = None, sv_containerId = None, sv_lastSpec = None,
     sv_launchGen = 0, sv_readyTimer = None, sv_restartTimer = None, sv_manualStop = False,
     sv_restartRequested = False, sv_lastError = None, sv_pidFile = None, sv_liveProbeFailures = 0,
     sv_nextId = 0, sv_pending = [], sv_effects = []\<rparr>"

section \<open>Policy\<close>

definition backoffDelayMs :: "int \<Rightarrow> time \<Rightarrow> time \<Rightarrow> time" where
  "backoffDelayMs n base most = min (base * 2 ^ nat (max 0 (n - 1))) most"

datatype exit_decision = ToCold | ToRestart | ToOffline

definition decideAfterExit :: "int \<Rightarrow> int \<Rightarrow> bool \<Rightarrow> exit_decision" where
  "decideAfterExit n maxAttempts manual =
     (if manual then ToCold else if n \<ge> maxAttempts then ToOffline else ToRestart)"

definition LIVE_PROBE_THRESHOLD :: int where "LIVE_PROBE_THRESHOLD = 3"

section \<open>Helpers\<close>

definition await :: "pending \<Rightarrow> supervisor \<Rightarrow> supervisor" where
  "await p s = s\<lparr>sv_pending := sv_pending s @ [(sv_nextId s, p)], sv_nextId := sv_nextId s + 1\<rparr>"

definition drop_pending :: "nat \<Rightarrow> supervisor \<Rightarrow> supervisor" where
  "drop_pending i s = s\<lparr>sv_pending := filter (\<lambda>p. fst p \<noteq> i) (sv_pending s)\<rparr>"

definition effect :: "effect \<Rightarrow> supervisor \<Rightarrow> supervisor" where
  "effect e s = s\<lparr>sv_effects := sv_effects s @ [e]\<rparr>"

definition to_cold :: "env \<Rightarrow> supervisor \<Rightarrow> supervisor" where
  "to_cold ev s = s\<lparr>sv_state := Cold, sv_pid := None, sv_stateSince := env_now ev\<rparr>"

definition clear_restart_timer :: "supervisor \<Rightarrow> supervisor" where
  "clear_restart_timer s = (case sv_restartTimer s of None \<Rightarrow> s
     | Some i \<Rightarrow> (drop_pending i s)\<lparr>sv_restartTimer := None\<rparr>)"

definition clear_ready_timer :: "supervisor \<Rightarrow> supervisor" where
  "clear_ready_timer s = (case sv_readyTimer s of None \<Rightarrow> s
     | Some i \<Rightarrow> (drop_pending i s)\<lparr>sv_readyTimer := None\<rparr>)"

definition clearPidFile :: "supervisor \<Rightarrow> supervisor" where
  "clearPidFile s = s\<lparr>sv_pidFile := None\<rparr>"

definition killTree :: "supervisor \<Rightarrow> supervisor" where
  "killTree s = (case sv_child s of Some (k, Some _) \<Rightarrow> effect (KillProcess k) s | _ \<Rightarrow> s)"

definition enqueueAgentStop :: "supervisor_deps \<Rightarrow> supervisor \<Rightarrow> supervisor" where
  "enqueueAgentStop deps s = (case sv_lastSpec s of None \<Rightarrow> s
     | Some spec \<Rightarrow> (case sp_host spec of None \<Rightarrow> s
         | Some h \<Rightarrow> if dep_agentCommand deps then effect (AgentStop h) s else s))"

section \<open>Launching\<close>

text \<open>The first poll happens at once; the state is \<^verbatim>\<open>starting\<close> at every call.\<close>

definition ready_poll :: "spawn_spec \<Rightarrow> time \<Rightarrow> supervisor \<Rightarrow> supervisor" where
  "ready_poll spec deadline s = (if sv_state s \<noteq> Starting then s else await (ReadyProbe spec deadline) s)"

definition armReadyProbe :: "env \<Rightarrow> spawn_spec \<Rightarrow> supervisor \<Rightarrow> supervisor" where
  "armReadyProbe ev spec s = ready_poll spec (env_now ev + sp_readyTimeoutMs spec) s"

definition spawnOnce :: "env \<Rightarrow> spawn_spec \<Rightarrow> supervisor \<Rightarrow> supervisor" where
  "spawnOnce ev spec s =
     (let k = sv_nextId s;
          s1 = s\<lparr>sv_state := Starting, sv_statusError := None, sv_stateSince := env_now ev,
                 sv_nextId := k + 1, sv_child := Some (k, env_pid ev), sv_pid := env_pid ev,
                 sv_startedAt := Some (env_now ev),
                 sv_pidFile := (case (sp_logFile spec, env_pid ev) of
                     (Some f, Some _) \<Rightarrow> Some (f @ ''.pid'') | _ \<Rightarrow> sv_pidFile s)\<rparr>
      in armReadyProbe ev spec (effect (SpawnProcess k) s1))"

definition startDocker :: "supervisor_deps \<Rightarrow> env \<Rightarrow> spawn_spec \<Rightarrow> supervisor \<Rightarrow> supervisor" where
  "startDocker deps ev spec s =
     (if \<not> dep_docker deps \<or> sp_docker spec = None
      then (let e = ''docker runner is not wired up (is docker.sock mounted into the manager?)''
            in s\<lparr>sv_lastError := Some e, sv_state := Offline, sv_statusError := Some e,
                 sv_stateSince := env_now ev\<rparr>)
      else (let gen = sv_launchGen s + 1
            in await (DockerLaunch spec gen) (effect LaunchContainer
                 (s\<lparr>sv_state := Starting, sv_statusError := None, sv_stateSince := env_now ev,
                    sv_launchGen := gen\<rparr>))))"

definition startAgent :: "supervisor_deps \<Rightarrow> env \<Rightarrow> spawn_spec \<Rightarrow> supervisor \<Rightarrow> supervisor" where
  "startAgent deps ev spec s =
     (case (if dep_agentCommand deps then sp_host spec else None) of
        None \<Rightarrow> (let e = ''agent runner is not wired up (no agentCommand injected, or spawn.host is empty)''
          in s\<lparr>sv_lastError := Some e, sv_state := Offline, sv_statusError := Some e,
               sv_stateSince := env_now ev\<rparr>)
      | Some h \<Rightarrow> (let gen = sv_launchGen s + 1
          in await (AgentResult spec gen) (effect (AgentSpawn h)
               (s\<lparr>sv_state := Starting, sv_statusError := None, sv_stateSince := env_now ev,
                  sv_launchGen := gen\<rparr>))))"

text \<open>The relaunch of the runner that failed.\<close>

definition launch :: "supervisor_deps \<Rightarrow> env \<Rightarrow> spawn_spec \<Rightarrow> supervisor \<Rightarrow> supervisor" where
  "launch deps ev spec s = (case sp_runner spec of
     DockerRunner \<Rightarrow> startDocker deps ev spec s
   | AgentRunner \<Rightarrow> startAgent deps ev spec s
   | ProcessRunner \<Rightarrow> spawnOnce ev spec s)"

section \<open>Failures\<close>

definition count_attempt :: "env \<Rightarrow> string \<Rightarrow> supervisor \<Rightarrow> supervisor" where
  "count_attempt ev default_error s =
     s\<lparr>sv_pid := None, sv_attempts := sv_attempts s + 1,
       sv_statusError := Some (case sv_lastError s of None \<Rightarrow> default_error | Some e \<Rightarrow> e),
       sv_startedAt := None, sv_stateSince := env_now ev\<rparr>"

definition arm_restart :: "spawn_spec \<Rightarrow> supervisor \<Rightarrow> supervisor" where
  "arm_restart spec s =
     (await (RestartTimer spec (backoffDelayMs (sv_attempts s) (sp_baseDelayMs spec) (sp_maxDelayMs spec)))
        (s\<lparr>sv_state := Restarting\<rparr>))\<lparr>sv_restartTimer := Some (sv_nextId s)\<rparr>"

definition failAndRetry :: "env \<Rightarrow> spawn_spec \<Rightarrow> string \<Rightarrow> supervisor \<Rightarrow> supervisor" where
  "failAndRetry ev spec default_error s =
     (if sv_manualStop s then to_cold ev s
      else (let s1 = count_attempt ev default_error s
            in if decideAfterExit (sv_attempts s1) (sp_maxAttempts spec) False = ToOffline
               then s1\<lparr>sv_state := Offline\<rparr> else arm_restart spec s1))"

text \<open>\<^verbatim>\<open>onExit\<close>: the local process is gone.\<close>

definition onExit :: "env \<Rightarrow> spawn_spec \<Rightarrow> string \<Rightarrow> supervisor \<Rightarrow> supervisor" where
  "onExit ev spec exitNote s0 =
     (let s = clear_ready_timer (s0\<lparr>sv_child := None\<rparr>)
      in if sv_manualStop s
         then (let s1 = clearPidFile s
               in if sv_restartRequested s1
                  then spawnOnce ev spec ((to_cold ev s1)\<lparr>sv_restartRequested := False,
                         sv_manualStop := False, sv_attempts := 0\<rparr>)
                  else to_cold ev s1)
         else (let s1 = count_attempt ev exitNote s
               in if decideAfterExit (sv_attempts s1) (sp_maxAttempts spec) False = ToOffline
                  then (clearPidFile s1)\<lparr>sv_state := Offline\<rparr> else arm_restart spec s1))"

section \<open>Methods\<close>

definition start :: "supervisor_deps \<Rightarrow> env \<Rightarrow> spawn_spec \<Rightarrow> supervisor \<Rightarrow> supervisor" where
  "start deps ev spec s0 =
     (let s = s0\<lparr>sv_lastSpec := Some spec\<rparr>; go = s\<lparr>sv_manualStop := False\<rparr>
      in case sp_runner spec of
           DockerRunner \<Rightarrow> if sv_containerId s \<noteq> None \<or> sv_restartTimer s \<noteq> None \<or> sv_state s = Starting
             then s else startDocker deps ev spec go
         | AgentRunner \<Rightarrow> if sv_restartTimer s \<noteq> None \<or> sv_state s = Starting
             then s else startAgent deps ev spec go
         | ProcessRunner \<Rightarrow> if sv_child s \<noteq> None \<or> sv_restartTimer s \<noteq> None \<or> sv_state s = Starting
             then s else spawnOnce ev spec go)"

definition stop :: "supervisor_deps \<Rightarrow> env \<Rightarrow> supervisor \<Rightarrow> supervisor" where
  "stop deps ev s0 =
     (let s = clear_ready_timer (clear_restart_timer
                (s0\<lparr>sv_manualStop := True, sv_launchGen := sv_launchGen s0 + 1\<rparr>))
      in case sv_lastSpec s of
           None \<Rightarrow> if sv_child s = None then to_cold ev (clearPidFile s) else killTree s
         | Some spec \<Rightarrow>
           (case sp_runner spec of
              AgentRunner \<Rightarrow>
                (let s1 = enqueueAgentStop deps s
                 in if sv_restartRequested s1
                    then startAgent deps ev spec ((to_cold ev s1)\<lparr>sv_restartRequested := False,
                           sv_manualStop := False, sv_attempts := 0\<rparr>)
                    else to_cold ev s1)
            | DockerRunner \<Rightarrow>
                (let s1 = s\<lparr>sv_containerId := None\<rparr>
                 in case sv_containerId s of
                      None \<Rightarrow> to_cold ev s1
                    | Some cid \<Rightarrow> if \<not> dep_docker deps then to_cold ev s1
                        else await (DockerStopping spec) (effect (StopContainer cid) s1))
            | ProcessRunner \<Rightarrow>
                if sv_child s = None then to_cold ev (clearPidFile s) else killTree s))"

definition restart :: "supervisor_deps \<Rightarrow> env \<Rightarrow> spawn_spec \<Rightarrow> supervisor \<Rightarrow> supervisor" where
  "restart deps ev spec s0 =
     (let s = s0\<lparr>sv_lastSpec := Some spec\<rparr>
      in if sp_runner spec = AgentRunner then stop deps ev (s\<lparr>sv_restartRequested := True\<rparr>)
         else if sv_child s = None \<and> sv_containerId s = None \<and> sv_restartTimer s = None
         then start deps ev spec s
         else stop deps ev (s\<lparr>sv_restartRequested := True\<rparr>))"

definition resume :: "supervisor_deps \<Rightarrow> env \<Rightarrow> spawn_spec \<Rightarrow> supervisor \<Rightarrow> supervisor" where
  "resume deps ev spec s0 =
     (let s = s0\<lparr>sv_lastSpec := Some spec\<rparr>
      in if sv_manualStop s \<or> sv_state s = Live \<or> sv_restartTimer s \<noteq> None \<or>
            sv_state s = Starting \<or> sv_state s = Restarting then s
         else if sp_runner spec = AgentRunner then startAgent deps ev spec s
         else if sv_state s = Offline then restart deps ev spec s
         else if sp_runner spec = DockerRunner then startDocker deps ev spec s
         else if sv_child s \<noteq> None then s
         else spawnOnce ev spec s)"

definition probeLive :: "supervisor \<Rightarrow> supervisor" where
  "probeLive s = (if sv_state s \<noteq> Live then s\<lparr>sv_liveProbeFailures := 0\<rparr> else await LiveProbe s)"

definition adopt :: "env \<Rightarrow> spawn_spec \<Rightarrow> id \<Rightarrow> supervisor \<Rightarrow> supervisor" where
  "adopt ev spec cid s =
     armReadyProbe ev spec (s\<lparr>sv_lastSpec := Some spec, sv_containerId := Some cid, sv_manualStop := False,
       sv_launchGen := sv_launchGen s + 1, sv_state := Starting, sv_statusError := None,
       sv_stateSince := env_now ev\<rparr>)"

section \<open>Continuations\<close>

definition live_probe_message :: "int \<Rightarrow> string \<Rightarrow> string" where
  "live_probe_message n detail = ''live probe failed ('' @ show_int n @ ''/'' @
     show_int LIVE_PROBE_THRESHOLD @ ''): '' @ detail"

definition live_probe_result :: "env \<Rightarrow> bool \<Rightarrow> string \<Rightarrow> supervisor \<Rightarrow> supervisor" where
  "live_probe_result ev ok detail s =
     (if ok then s\<lparr>sv_liveProbeFailures := 0\<rparr>
      else (let n = sv_liveProbeFailures s + 1; msg = live_probe_message n detail;
                s1 = s\<lparr>sv_liveProbeFailures := n, sv_lastError := Some msg\<rparr>
            in if n < LIVE_PROBE_THRESHOLD then s1
               else s1\<lparr>sv_containerId := (case sv_lastSpec s1 of
                          Some spec \<Rightarrow> if sp_runner spec = DockerRunner then None else sv_containerId s1
                        | None \<Rightarrow> sv_containerId s1),
                       sv_state := Offline, sv_pid := None, sv_attempts := 1, sv_statusError := Some msg,
                       sv_stateSince := env_now ev\<rparr>))"

definition ready_probe_result ::
    "supervisor_deps \<Rightarrow> env \<Rightarrow> spawn_spec \<Rightarrow> time \<Rightarrow> bool \<Rightarrow> string \<Rightarrow> supervisor \<Rightarrow> supervisor" where
  "ready_probe_result deps ev spec deadline ok detail s =
     (if sv_state s \<noteq> Starting then s
      else if ok then s\<lparr>sv_state := Live, sv_attempts := 0, sv_statusError := None, sv_stateSince := env_now ev\<rparr>
      else if env_now ev \<ge> deadline
      then (let s1 = s\<lparr>sv_lastError := Some (''not ready within '' @ show_int (sp_readyTimeoutMs spec) @
                         ''ms: '' @ detail)\<rparr>
            in case sp_runner spec of
                 AgentRunner \<Rightarrow> failAndRetry ev spec ''agent start failed'' (enqueueAgentStop deps s1)
               | DockerRunner \<Rightarrow>
                   (let s2 = s1\<lparr>sv_containerId := None\<rparr>
                    in failAndRetry ev spec ''docker start failed''
                      (case sv_containerId s1 of Some cid \<Rightarrow>
                          if dep_docker deps then effect (StopContainer cid) s2 else s2
                       | None \<Rightarrow> s2))
               | ProcessRunner \<Rightarrow> killTree s1)
      else (await (ReadyTimer spec deadline) s)\<lparr>sv_readyTimer := Some (sv_nextId s)\<rparr>)"

definition docker_launched ::
    "env \<Rightarrow> spawn_spec \<Rightarrow> nat \<Rightarrow> string + id \<Rightarrow> supervisor \<Rightarrow> supervisor" where
  "docker_launched ev spec gen result s = (case result of
     Inr cid \<Rightarrow>
       if gen \<noteq> sv_launchGen s \<or> sv_state s \<noteq> Starting then effect (StopContainer cid) s
       else armReadyProbe ev spec (s\<lparr>sv_containerId := Some cid\<rparr>)
   | Inl e \<Rightarrow>
       if gen \<noteq> sv_launchGen s then s
       else (let s1 = s\<lparr>sv_lastError := Some e\<rparr>
             in if sv_state s1 \<noteq> Starting then s1 else failAndRetry ev spec ''docker start failed'' s1))"

definition docker_stopped ::
    "supervisor_deps \<Rightarrow> env \<Rightarrow> spawn_spec \<Rightarrow> bool \<Rightarrow> supervisor \<Rightarrow> supervisor" where
  "docker_stopped deps ev spec ok s =
     (if \<not> ok then s
      else if sv_restartRequested s
      then startDocker deps ev spec ((to_cold ev s)\<lparr>sv_restartRequested := False, sv_manualStop := False,
             sv_attempts := 0\<rparr>)
      else to_cold ev s)"

definition agent_reported :: "env \<Rightarrow> spawn_spec \<Rightarrow> nat \<Rightarrow> bool \<Rightarrow> string \<Rightarrow> supervisor \<Rightarrow> supervisor" where
  "agent_reported ev spec gen ok msg s =
     (if gen \<noteq> sv_launchGen s \<or> sv_state s \<noteq> Starting then s
      else if \<not> ok then failAndRetry ev spec ''agent start failed'' (s\<lparr>sv_lastError := Some msg\<rparr>)
      else armReadyProbe ev spec s)"

section \<open>Events\<close>

text \<open>
  \<open>ok\<close>, \<open>detail\<close> and \<open>cid\<close> are what the awaited result carries; a child's \<^verbatim>\<open>exit\<close> or
  \<^verbatim>\<open>error\<close> counts only while it is the current child.
\<close>

datatype sv_event =
    EvStart spawn_spec
  | EvStop
  | EvRestart spawn_spec
  | EvResume spawn_spec
  | EvAdopt spawn_spec id
  | EvProbeLive
  | EvChildExit nat spawn_spec string
  | EvChildError nat spawn_spec string
  | EvResult nat bool string id

definition resolve ::
    "supervisor_deps \<Rightarrow> env \<Rightarrow> pending \<Rightarrow> bool \<Rightarrow> string \<Rightarrow> id \<Rightarrow> supervisor \<Rightarrow> supervisor" where
  "resolve deps ev p ok detail cid s = (case p of
     RestartTimer spec _ \<Rightarrow> launch deps ev spec (s\<lparr>sv_restartTimer := None\<rparr>)
   | ReadyTimer spec deadline \<Rightarrow> ready_poll spec deadline s
   | ReadyProbe spec deadline \<Rightarrow> ready_probe_result deps ev spec deadline ok detail s
   | LiveProbe \<Rightarrow> live_probe_result ev ok detail s
   | DockerLaunch spec gen \<Rightarrow> docker_launched ev spec gen (if ok then Inr cid else Inl detail) s
   | DockerStopping spec \<Rightarrow> docker_stopped deps ev spec ok s
   | AgentResult spec gen \<Rightarrow> agent_reported ev spec gen ok detail s)"

fun sv_step :: "supervisor_deps \<Rightarrow> supervisor \<Rightarrow> env \<times> sv_event \<Rightarrow> supervisor" where
  "sv_step deps s (ev, EvStart spec) = start deps ev spec s"
| "sv_step deps s (ev, EvStop) = stop deps ev s"
| "sv_step deps s (ev, EvRestart spec) = restart deps ev spec s"
| "sv_step deps s (ev, EvResume spec) = resume deps ev spec s"
| "sv_step deps s (ev, EvAdopt spec cid) = adopt ev spec cid s"
| "sv_step deps s (ev, EvProbeLive) = probeLive s"
| "sv_step deps s (ev, EvChildExit k spec note) =
     (if map_option fst (sv_child s) = Some k then onExit ev spec note s else s)"
| "sv_step deps s (ev, EvChildError k spec msg) =
     (if map_option fst (sv_child s) = Some k
      then onExit ev spec ''exited code=null signal=null'' (s\<lparr>sv_lastError := Some msg\<rparr>)
      else s\<lparr>sv_lastError := Some msg\<rparr>)"
| "sv_step deps s (ev, EvResult i ok detail cid) =
     (case map_of (sv_pending s) i of None \<Rightarrow> s
      | Some p \<Rightarrow> resolve deps ev p ok detail cid (drop_pending i s))"

section \<open>A process node runs one process\<close>

text \<open>Events of a node whose spec is a local process.\<close>

fun process_event :: "env \<times> sv_event \<Rightarrow> bool" where
  "process_event (ev, EvStart spec) = (sp_runner spec = ProcessRunner)"
| "process_event (ev, EvRestart spec) = (sp_runner spec = ProcessRunner)"
| "process_event (ev, EvResume spec) = (sp_runner spec = ProcessRunner)"
| "process_event (ev, EvAdopt spec cid) = False"
| "process_event (ev, EvChildExit k spec note) = (sp_runner spec = ProcessRunner)"
| "process_event (ev, EvChildError k spec msg) = (sp_runner spec = ProcessRunner)"
| "process_event (ev, EvStop) = True"
| "process_event (ev, EvProbeLive) = True"
| "process_event (ev, EvResult i ok detail cid) = True"

text \<open>
  The invariant, over the fields it mentions: continuation ids are fresh and distinct, every continuation
  is one of a process node, and a restart timer is the one on record and runs only while there is no
  child.
\<close>

fun pending_ok :: "nat option \<Rightarrow> (nat \<times> int option) option \<Rightarrow> nat \<times> pending \<Rightarrow> bool" where
  "pending_ok rt ch (i, RestartTimer spec _) = (sp_runner spec = ProcessRunner \<and> rt = Some i \<and> ch = None)"
| "pending_ok rt ch (i, ReadyTimer spec _) = (sp_runner spec = ProcessRunner)"
| "pending_ok rt ch (i, ReadyProbe spec _) = (sp_runner spec = ProcessRunner)"
| "pending_ok rt ch (i, LiveProbe) = True"
| "pending_ok rt ch (i, _) = False"

definition pinv ::
    "(nat \<times> pending) list \<Rightarrow> nat \<Rightarrow> nat option \<Rightarrow> (nat \<times> int option) option \<Rightarrow> spawn_spec option \<Rightarrow>
     id option \<Rightarrow> bool" where
  "pinv pend n rt ch sp co \<longleftrightarrow> distinct (map fst pend) \<and> (\<forall>p \<in> set pend. fst p < n \<and> pending_ok rt ch p) \<and>
     (rt \<noteq> None \<longrightarrow> ch = None) \<and> (\<forall>spec. sp = Some spec \<longrightarrow> sp_runner spec = ProcessRunner) \<and> co = None"

definition process_inv :: "supervisor \<Rightarrow> bool" where
  "process_inv s = pinv (sv_pending s) (sv_nextId s) (sv_restartTimer s) (sv_child s) (sv_lastSpec s)
     (sv_containerId s)"

lemma pending_ok_no_timer: "pending_ok None ch p \<Longrightarrow> pending_ok rt' ch' p"
  by (cases "(rt', ch', p)" rule: pending_ok.cases) auto

lemma pending_ok_other_timer: "pending_ok rt ch p \<Longrightarrow> rt \<noteq> Some (fst p) \<Longrightarrow> pending_ok rt' ch' p"
  by (cases "(rt', ch', p)" rule: pending_ok.cases) auto

lemma pending_ok_no_child: "pending_ok rt ch p \<Longrightarrow> pending_ok rt None p"
  by (cases "(rt, ch, p)" rule: pending_ok.cases) auto

lemma pinv_drop: "pinv pend n rt ch sp co \<Longrightarrow> pinv (filter (\<lambda>p. fst p \<noteq> i) pend) n rt ch sp co"
  by (auto simp: pinv_def distinct_map_filter)

lemma pinv_await:
  "pinv pend n rt ch sp co \<Longrightarrow> pending_ok rt ch (n, p) \<Longrightarrow> pinv (pend @ [(n, p)]) (Suc n) rt ch sp co"
  by (auto simp: pinv_def less_Suc_eq)

lemma pinv_next: "pinv pend n rt ch sp co \<Longrightarrow> pinv pend (Suc n) rt ch sp co"
  by (auto simp: pinv_def less_Suc_eq)

lemma pinv_child: "pinv pend n None ch sp co \<Longrightarrow> pinv pend n None ch' sp co"
  by (auto simp: pinv_def intro: pending_ok_no_timer)

lemma pinv_no_child: "pinv pend n rt ch sp co \<Longrightarrow> pinv pend n rt None sp co"
  by (auto simp: pinv_def intro: pending_ok_no_child)

lemma pinv_spec: "pinv pend n rt ch sp co \<Longrightarrow> sp_runner spec = ProcessRunner \<Longrightarrow> pinv pend n rt ch (Some spec) co"
  by (auto simp: pinv_def)

lemma pinv_clear:
  "pinv pend n rt ch sp co \<Longrightarrow> pinv (case rt of None \<Rightarrow> pend | Some i \<Rightarrow> filter (\<lambda>p. fst p \<noteq> i) pend) n None ch sp co"
  by (cases rt) (auto simp: pinv_def distinct_map_filter intro: pending_ok_other_timer)

lemma pinv_arm:
  assumes "pinv pend n None None sp co" and "sp_runner spec = ProcessRunner"
  shows "pinv (pend @ [(n, RestartTimer spec d)]) (Suc n) (Some n) None sp co"
  using assms by (auto simp: pinv_def less_Suc_eq intro: pending_ok_no_timer)

lemmas sv_defs = drop_pending_def await_def effect_def to_cold_def clearPidFile_def count_attempt_def

lemma clear_timer_fields:
  "sv_child (clear_ready_timer s) = sv_child s" "sv_child (clear_restart_timer s) = sv_child s"
  "sv_restartTimer (clear_ready_timer s) = sv_restartTimer s" "sv_restartTimer (clear_restart_timer s) = None"
  "sv_lastSpec (clear_ready_timer s) = sv_lastSpec s" "sv_lastSpec (clear_restart_timer s) = sv_lastSpec s"
  "sv_manualStop (clear_ready_timer s) = sv_manualStop s"
  "sv_restartRequested (clear_ready_timer s) = sv_restartRequested s"
  by (auto simp: clear_ready_timer_def clear_restart_timer_def drop_pending_def split: option.split)

lemma process_inv_clear_ready: "process_inv s \<Longrightarrow> process_inv (clear_ready_timer s)"
  by (auto simp: clear_ready_timer_def process_inv_def drop_pending_def intro: pinv_drop split: option.split)

lemma process_inv_clear_restart: "process_inv s \<Longrightarrow> process_inv (clear_restart_timer s)"
  by (auto simp: clear_restart_timer_def process_inv_def drop_pending_def dest: pinv_clear split: option.split)

lemma process_inv_spawn:
  assumes "process_inv s" and "sv_restartTimer s = None" and "sp_runner spec = ProcessRunner"
  shows "process_inv (spawnOnce ev spec s)"
proof -
  have "pinv (sv_pending s) (Suc (sv_nextId s)) None (Some (sv_nextId s, env_pid ev)) (sv_lastSpec s) (sv_containerId s)"
    by (rule pinv_next, rule pinv_child) (use assms in \<open>simp add: process_inv_def\<close>)
  from pinv_await [OF this, of "ReadyProbe spec (env_now ev + sp_readyTimeoutMs spec)"] show ?thesis
    using assms(2,3)
    by (simp add: spawnOnce_def Let_def armReadyProbe_def ready_poll_def sv_defs process_inv_def)
qed

lemma spawn_child: "map_option fst (sv_child (spawnOnce ev spec s)) = Some (sv_nextId s)"
  by (simp add: spawnOnce_def Let_def armReadyProbe_def ready_poll_def sv_defs)

lemma process_inv_exit:
  assumes "process_inv s" and "sp_runner spec = ProcessRunner" and "sv_child s \<noteq> None"
  shows "process_inv (onExit ev spec note s)"
proof -
  define s1 where "s1 = clear_ready_timer (s\<lparr>sv_child := None\<rparr>)"
  have "process_inv (s\<lparr>sv_child := None\<rparr>)"
    using assms(1) by (auto simp: process_inv_def intro: pinv_no_child)
  then have i1: "process_inv s1" unfolding s1_def by (rule process_inv_clear_ready)
  have c1: "sv_child s1 = None" "sv_restartTimer s1 = None"
    using assms by (auto simp: s1_def clear_timer_fields process_inv_def pinv_def)
  have "process_inv (spawnOnce ev spec ((to_cold ev (clearPidFile s1))\<lparr>sv_restartRequested := False,
      sv_manualStop := False, sv_attempts := 0\<rparr>))"
    by (rule process_inv_spawn) (use i1 c1 assms(2) in \<open>simp_all add: sv_defs process_inv_def\<close>)
  moreover have "process_inv (arm_restart spec (count_attempt ev note s1))"
    using i1 c1 assms(2) by (auto simp: arm_restart_def sv_defs process_inv_def intro: pinv_arm)
  moreover have "process_inv (to_cold ev (clearPidFile s1))"
    "process_inv ((clearPidFile (count_attempt ev note s1))\<lparr>sv_state := Offline\<rparr>)"
    using i1 by (simp_all add: sv_defs process_inv_def)
  ultimately show ?thesis
    unfolding onExit_def Let_def s1_def [symmetric] by simp
qed

lemma process_inv_start:
  assumes "process_inv s" and "sp_runner spec = ProcessRunner"
  shows "process_inv (start deps ev spec s)"
proof -
  have "process_inv (s\<lparr>sv_lastSpec := Some spec\<rparr>)"
    using assms by (auto simp: process_inv_def intro: pinv_spec)
  moreover from this have "process_inv (spawnOnce ev spec (s\<lparr>sv_lastSpec := Some spec, sv_manualStop := False\<rparr>))"
    if "sv_restartTimer s = None"
    by (intro process_inv_spawn) (use that assms in \<open>simp_all add: process_inv_def\<close>)
  ultimately show ?thesis using assms(2) by (simp add: start_def Let_def)
qed

lemma process_inv_stop: "process_inv s \<Longrightarrow> process_inv (stop deps ev s)"
proof -
  assume s: "process_inv s"
  define s1 where "s1 = clear_ready_timer (clear_restart_timer
                (s\<lparr>sv_manualStop := True, sv_launchGen := sv_launchGen s + 1\<rparr>))"
  have i: "process_inv s1"
    unfolding s1_def
    by (intro process_inv_clear_ready process_inv_clear_restart) (use s in \<open>simp add: process_inv_def\<close>)
  have "case sv_lastSpec s1 of None \<Rightarrow> True | Some spec \<Rightarrow> sp_runner spec = ProcessRunner"
    using i by (auto simp: process_inv_def pinv_def split: option.split)
  then have "stop deps ev s = (if sv_child s1 = None then to_cold ev (clearPidFile s1) else killTree s1)"
    unfolding stop_def Let_def s1_def [symmetric] by (auto split: option.splits)
  moreover have "process_inv (to_cold ev (clearPidFile s1))" "process_inv (killTree s1)"
    using i by (auto simp: sv_defs killTree_def process_inv_def split: option.split)
  ultimately show ?thesis by simp
qed

lemma process_inv_restart:
  assumes "process_inv s" and "sp_runner spec = ProcessRunner"
  shows "process_inv (restart deps ev spec s)"
proof -
  have s: "process_inv (s\<lparr>sv_lastSpec := Some spec\<rparr>)"
    using assms by (auto simp: process_inv_def intro: pinv_spec)
  moreover from s have "process_inv (s\<lparr>sv_lastSpec := Some spec, sv_restartRequested := True\<rparr>)"
    by (simp add: process_inv_def)
  ultimately show ?thesis
    using process_inv_start [OF s assms(2)] process_inv_stop assms(2)
    by (simp add: restart_def Let_def)
qed

lemma process_inv_resume:
  assumes "process_inv s" and "sp_runner spec = ProcessRunner"
  shows "process_inv (resume deps ev spec s)"
proof -
  have s: "process_inv (s\<lparr>sv_lastSpec := Some spec\<rparr>)"
    using assms by (auto simp: process_inv_def intro: pinv_spec)
  then show ?thesis
    using process_inv_restart [OF s assms(2)] process_inv_spawn [OF s _ assms(2)] assms(2)
    by (simp add: resume_def Let_def)
qed

lemma process_inv_resolve:
  assumes i: "process_inv (drop_pending i s)" and p: "pending_ok (sv_restartTimer s) (sv_child s) (i, p)"
  shows "process_inv (resolve deps ev p ok detail cid (drop_pending i s))"
proof (cases p)
  case (RestartTimer spec d)
  then have rt: "sv_restartTimer s = Some i" "sv_child s = None" "sp_runner spec = ProcessRunner"
    using p by auto
  have "filter (\<lambda>p. fst p \<noteq> i) (sv_pending (drop_pending i s)) = sv_pending (drop_pending i s)"
    by (simp add: drop_pending_def)
  then have "process_inv ((drop_pending i s)\<lparr>sv_restartTimer := None\<rparr>)"
    using pinv_clear [OF i [unfolded process_inv_def]] rt by (simp add: process_inv_def drop_pending_def)
  then show ?thesis
    using RestartTimer rt(3) process_inv_spawn
    by (simp add: resolve_def launch_def)
next
  case (ReadyTimer spec d)
  then show ?thesis
    using p i pinv_await
    by (auto simp: resolve_def ready_poll_def process_inv_def await_def)
next
  case (ReadyProbe spec d)
  then show ?thesis
    using p i pinv_await
    by (auto simp: resolve_def ready_probe_result_def Let_def process_inv_def await_def killTree_def effect_def
        split: option.split)
next
  case LiveProbe
  then show ?thesis
    using i by (auto simp: resolve_def live_probe_result_def Let_def process_inv_def pinv_def split: option.splits)
qed (use p in auto)

lemma process_inv_step:
  assumes "process_inv s" and "process_event e"
  shows "process_inv (sv_step deps s e)"
proof (cases e rule: process_event.cases)
  case (9 ev i ok detail cid)
  show ?thesis
  proof (cases "map_of (sv_pending s) i")
    case (Some p)
    then have "pending_ok (sv_restartTimer s) (sv_child s) (i, p)"
      using assms(1) by (auto simp: process_inv_def pinv_def dest: map_of_SomeD)
    moreover have "process_inv (drop_pending i s)"
      using assms(1) by (auto simp: process_inv_def drop_pending_def intro: pinv_drop)
    ultimately show ?thesis using 9 Some process_inv_resolve by simp
  qed (use 9 assms in simp)
next
  case (8 ev)
  then show ?thesis
    using assms pinv_await by (auto simp: probeLive_def process_inv_def await_def)
next
  case (6 ev k spec msg)
  have "process_inv (s\<lparr>sv_lastError := Some msg\<rparr>)" using assms(1) by (simp add: process_inv_def)
  then show ?thesis using 6 assms by (auto intro!: process_inv_exit)
qed (use assms in \<open>auto intro!: process_inv_start process_inv_stop process_inv_restart process_inv_resume
    process_inv_exit\<close>)

interpretation process_node: invariant_system "new_supervisor t0" "sv_step deps" process_event process_inv
  for t0 deps
proof
  show "process_inv (new_supervisor t0)" by (simp add: process_inv_def pinv_def new_supervisor_def)
qed (rule process_inv_step)

fun exits :: "nat \<Rightarrow> env \<times> sv_event \<Rightarrow> bool" where
  "exits k (ev, EvChildExit k' _ _) = (k' = k)"
| "exits k (ev, EvChildError k' _ _) = (k' = k)"
| "exits k _ = False"

lemma stop_child: "process_inv s \<Longrightarrow> sv_child (stop deps ev s) = sv_child s"
proof -
  assume s: "process_inv s"
  define s1 where "s1 = clear_ready_timer (clear_restart_timer
                (s\<lparr>sv_manualStop := True, sv_launchGen := sv_launchGen s + 1\<rparr>))"
  have f: "sv_child s1 = sv_child s" "sv_lastSpec s1 = sv_lastSpec s"
    by (simp_all add: s1_def clear_timer_fields)
  have "case sv_lastSpec s1 of None \<Rightarrow> True | Some spec \<Rightarrow> sp_runner spec = ProcessRunner"
    using s f by (auto simp: process_inv_def pinv_def split: option.split)
  then have "stop deps ev s = (if sv_child s1 = None then to_cold ev (clearPidFile s1) else killTree s1)"
    unfolding stop_def Let_def s1_def [symmetric] by (auto split: option.splits)
  then show ?thesis by (auto simp: f sv_defs killTree_def split: option.split)
qed

lemma killTree_child: "sv_child (killTree s) = sv_child s"
  by (auto simp: killTree_def effect_def split: option.split)

lemma process_step_child:
  assumes inv: "process_inv s" and c: "sv_child s = Some c" and e: "process_event e" "\<not> exits (fst c) e"
  shows "sv_child (sv_step deps s e) = Some c"
proof (cases e rule: process_event.cases)
  case (1 ev spec)
  then show ?thesis using c e by (simp add: start_def Let_def)
next
  case (2 ev spec)
  have "process_inv (s\<lparr>sv_lastSpec := Some spec, sv_restartRequested := True\<rparr>)"
    using 2 inv e by (auto simp: process_inv_def intro: pinv_spec)
  then show ?thesis using 2 c e by (simp add: restart_def Let_def stop_child)
next
  case (3 ev spec)
  have "process_inv (s\<lparr>sv_lastSpec := Some spec, sv_restartRequested := True\<rparr>)"
    using 3 inv e by (auto simp: process_inv_def intro: pinv_spec)
  then show ?thesis using 3 c e by (simp add: resume_def restart_def Let_def stop_child)
next
  case (9 ev i ok detail cid)
  show ?thesis
  proof (cases "map_of (sv_pending s) i")
    case (Some p)
    then have p: "pending_ok (sv_restartTimer s) (sv_child s) (i, p)"
      using inv by (auto simp: process_inv_def pinv_def dest: map_of_SomeD)
    have "sv_child (drop_pending i s) = Some c" using c by (simp add: drop_pending_def)
    then show ?thesis
      using 9 Some p c
      by (cases p)
        (auto simp: resolve_def ready_poll_def ready_probe_result_def live_probe_result_def Let_def
          sv_defs killTree_child split: option.split)
  qed (use 9 c in simp)
qed (use c e stop_child [OF inv] in \<open>auto simp: probeLive_def await_def\<close>)

text \<open>
  Claim C11. A node that runs as a local process never has two: whatever calls, timers, probe results and
  exits happen in whatever order, the current child stays the child until that very process is gone, so no
  start, restart, resume or backoff timer puts a second process beside a running one.
\<close>

theorem running_process_is_kept:
  assumes "list_all process_event es" and "process_event e"
    and "sv_child (foldl (sv_step deps) (new_supervisor t0) es) = Some c" and "\<not> exits (fst c) e"
  shows "sv_child (sv_step deps (foldl (sv_step deps) (new_supervisor t0) es) e) = Some c"
  by (rule process_step_child [OF process_node.inv_reachable [OF assms(1)] assms(3,2,4)])

definition sample_spec :: spawn_spec where
  "sample_spec = \<lparr>sp_runner = ProcessRunner, sp_host = None, sp_docker = None, sp_readyTimeoutMs = 100,
     sp_maxAttempts = 2, sp_baseDelayMs = 10, sp_maxDelayMs = 50, sp_logFile = None\<rparr>"

definition sample_deps :: supervisor_deps where
  "sample_deps = \<lparr>dep_docker = False, dep_agentCommand = False\<rparr>"

definition at_time :: "time \<Rightarrow> env" where
  "at_time t = \<lparr>env_now = t, env_pid = Some 77\<rparr>"

lemma running_process_is_kept_witness:
  "sv_child (sv_step sample_deps (foldl (sv_step sample_deps) (new_supervisor 0) [(at_time 1, EvStart sample_spec)])
     (at_time 2, EvStart sample_spec)) = Some (0, Some 77)"
proof (rule running_process_is_kept)
  show "sv_child (foldl (sv_step sample_deps) (new_supervisor 0) [(at_time 1, EvStart sample_spec)]) = Some (0, Some 77)"
    by code_simp
qed (simp_all add: sample_spec_def)

section \<open>Crash loop\<close>

text \<open>The current process exits, and the backoff timer, if one was armed, elapses.\<close>

definition crash_round :: "supervisor_deps \<Rightarrow> spawn_spec \<Rightarrow> supervisor \<Rightarrow> env \<times> env \<Rightarrow> supervisor" where
  "crash_round deps spec s e =
     (case sv_child s of None \<Rightarrow> s
      | Some (k, _) \<Rightarrow>
        (let s1 = sv_step deps s (fst e, EvChildExit k spec ''exited code=1 signal=null'')
         in case sv_restartTimer s1 of None \<Rightarrow> s1
            | Some i \<Rightarrow> sv_step deps s1 (snd e, EvResult i True ''x'' ''x'')))"

definition spawns :: "supervisor \<Rightarrow> nat" where
  "spawns s = length (filter (\<lambda>e. case e of SpawnProcess _ \<Rightarrow> True | _ \<Rightarrow> False) (sv_effects s))"

definition crashing :: "spawn_spec \<Rightarrow> int \<Rightarrow> supervisor \<Rightarrow> bool" where
  "crashing spec n s \<longleftrightarrow> process_inv s \<and> \<not> sv_manualStop s \<and>
     (if n < sp_maxAttempts spec
      then sv_state s = Starting \<and> sv_child s \<noteq> None \<and> sv_attempts s = n \<and> int (spawns s) = n + 1
      else sv_state s = Offline \<and> sv_child s = None \<and> sv_restartTimer s = None \<and>
        sv_attempts s = sp_maxAttempts spec \<and> int (spawns s) = sp_maxAttempts spec)"

lemma arm_restart_facts:
  "sv_restartTimer (arm_restart spec s) = Some (sv_nextId s)"
  "(sv_nextId s, RestartTimer spec (backoffDelayMs (sv_attempts s) (sp_baseDelayMs spec) (sp_maxDelayMs spec)))
     \<in> set (sv_pending (arm_restart spec s))"
  "sv_attempts (arm_restart spec s) = sv_attempts s" "sv_manualStop (arm_restart spec s) = sv_manualStop s"
  "sv_effects (arm_restart spec s) = sv_effects s" "sv_child (arm_restart spec s) = sv_child s"
  by (simp_all add: arm_restart_def await_def)

lemma clear_ready_more:
  "sv_attempts (clear_ready_timer s) = sv_attempts s" "sv_effects (clear_ready_timer s) = sv_effects s"
  by (auto simp: clear_ready_timer_def drop_pending_def split: option.split)

lemma spawnOnce_facts:
  "sv_state (spawnOnce ev spec s) = Starting" "sv_child (spawnOnce ev spec s) \<noteq> None"
  "sv_attempts (spawnOnce ev spec s) = sv_attempts s" "sv_manualStop (spawnOnce ev spec s) = sv_manualStop s"
  "spawns (spawnOnce ev spec s) = Suc (spawns s)"
  by (simp_all add: spawnOnce_def Let_def armReadyProbe_def ready_poll_def await_def effect_def spawns_def)

lemma crash_round_crashing:
  assumes c: "crashing spec n s" and spec: "sp_runner spec = ProcessRunner"
  shows "crashing spec (n + 1) (crash_round deps spec s e)"
proof (cases "n < sp_maxAttempts spec")
  case False
  then show ?thesis using c by (simp add: crashing_def crash_round_def)
next
  case True
  with c obtain k pid where s: "sv_child s = Some (k, pid)" "sv_attempts s = n" "int (spawns s) = n + 1"
    "process_inv s" "\<not> sv_manualStop s" by (auto simp: crashing_def)
  define s1 where "s1 = sv_step deps s (fst e, EvChildExit k spec ''exited code=1 signal=null'')"
  define t where "t = count_attempt (fst e) ''exited code=1 signal=null'' (clear_ready_timer (s\<lparr>sv_child := None\<rparr>))"
  have t: "sv_attempts t = n + 1" "spawns t = spawns s" "\<not> sv_manualStop t" "sv_child t = None"
    "sv_restartTimer t = None"
    using s by (auto simp: t_def count_attempt_def clear_timer_fields clear_ready_more spawns_def process_inv_def pinv_def)
  have s1: "s1 = (if n + 1 \<ge> sp_maxAttempts spec then (clearPidFile t)\<lparr>sv_state := Offline\<rparr> else arm_restart spec t)"
    using s t by (auto simp: s1_def onExit_def Let_def t_def [symmetric] clear_timer_fields decideAfterExit_def)
  have inv1: "process_inv s1"
    unfolding s1_def using s spec by (auto intro!: process_inv_exit)
  have round: "crash_round deps spec s e = (case sv_restartTimer s1 of None \<Rightarrow> s1
            | Some i \<Rightarrow> sv_step deps s1 (snd e, EvResult i True ''x'' ''x''))"
    unfolding crash_round_def s(1) s1_def Let_def by simp
  show ?thesis
  proof (cases "n + 1 \<ge> sp_maxAttempts spec")
    case off: True
    have "crash_round deps spec s e = s1" unfolding round using off t by (simp add: s1 clearPidFile_def)
    then show ?thesis
      using off True t s inv1 by (auto simp: crashing_def s1 clearPidFile_def spawns_def)
  next
    case False
    let ?p = "RestartTimer spec (backoffDelayMs (sv_attempts t) (sp_baseDelayMs spec) (sp_maxDelayMs spec))"
    have arm: "s1 = arm_restart spec t" using False s1 by simp
    have m: "map_of (sv_pending s1) (sv_nextId t) = Some ?p"
      using inv1 arm_restart_facts(2) [of t spec]
      unfolding arm by (auto simp: process_inv_def pinv_def)
    define u where "u = (drop_pending (sv_nextId t) s1)\<lparr>sv_restartTimer := None\<rparr>"
    have eq: "crash_round deps spec s e = spawnOnce (snd e) spec u"
      unfolding round using m spec
      by (simp add: arm arm_restart_facts resolve_def launch_def u_def)
    have u: "sv_attempts u = n + 1" "\<not> sv_manualStop u" "spawns u = spawns s"
      using t by (simp_all add: u_def arm drop_pending_def arm_restart_facts spawns_def)
    have "process_inv (sv_step deps s1 (snd e, EvResult (sv_nextId t) True ''x'' ''x''))"
      by (rule process_inv_step [OF inv1]) simp
    then have "process_inv (spawnOnce (snd e) spec u)"
      using eq unfolding round arm by (simp add: arm_restart_facts)
    then show ?thesis
      unfolding eq using False u s by (auto simp: crashing_def spawnOnce_facts)
  qed
qed

lemma crash_rounds_crashing:
  "sp_runner spec = ProcessRunner \<Longrightarrow> crashing spec n s \<Longrightarrow>
   crashing spec (n + int (length es)) (foldl (crash_round deps spec) s es)"
proof (induction es arbitrary: n s)
  case (Cons e es)
  then show ?case
    using Cons.IH [OF Cons.prems(1) crash_round_crashing [OF Cons.prems(2,1)], of deps e]
    by (simp add: add.assoc)
qed simp

lemma process_inv_new: "process_inv (new_supervisor t0)"
  by (simp add: process_inv_def pinv_def new_supervisor_def)

lemma started_crashing:
  assumes "sp_runner spec = ProcessRunner" and "0 < sp_maxAttempts spec"
  shows "crashing spec 0 (start deps ev spec (new_supervisor t0))"
proof -
  have "start deps ev spec (new_supervisor t0) =
      spawnOnce ev spec ((new_supervisor t0)\<lparr>sv_lastSpec := Some spec, sv_manualStop := False\<rparr>)"
    using assms(1) by (simp add: start_def Let_def new_supervisor_def)
  moreover have "process_inv (start deps ev spec (new_supervisor t0))"
    by (rule process_inv_start [OF process_inv_new assms(1)])
  ultimately show ?thesis
    using assms(2) by (simp add: crashing_def spawnOnce_facts) (simp add: new_supervisor_def spawns_def)
qed

text \<open>
  Claim C12. A process that keeps crashing is given up: started on a fresh supervisor and crashing \<open>n\<close> times
  without becoming live, the node is relaunched after each crash while \<open>n\<close> is below the limit; from
  \<open>maxAttempts\<close> crashes on it is offline, without a child and without a timer, after exactly
  \<open>maxAttempts\<close> launches; and no backoff delay exceeds the configured maximum.
\<close>

theorem crash_loop_gives_up:
  assumes "sp_runner spec = ProcessRunner" and "0 < sp_maxAttempts spec"
  shows "(if int (length es) < sp_maxAttempts spec
     then sv_state (foldl (crash_round deps spec) (start deps ev spec (new_supervisor t0)) es) = Starting \<and>
       int (spawns (foldl (crash_round deps spec) (start deps ev spec (new_supervisor t0)) es)) = int (length es) + 1
     else sv_state (foldl (crash_round deps spec) (start deps ev spec (new_supervisor t0)) es) = Offline \<and>
       sv_child (foldl (crash_round deps spec) (start deps ev spec (new_supervisor t0)) es) = None \<and>
       sv_restartTimer (foldl (crash_round deps spec) (start deps ev spec (new_supervisor t0)) es) = None \<and>
       int (spawns (foldl (crash_round deps spec) (start deps ev spec (new_supervisor t0)) es)) = sp_maxAttempts spec) \<and>
    backoffDelayMs n base most \<le> most"
  using crash_rounds_crashing [OF assms(1) started_crashing [OF assms], of es deps deps ev t0]
  by (auto simp: crashing_def backoffDelayMs_def split: if_splits)

lemma crash_loop_gives_up_witness:
  "sv_state (foldl (crash_round sample_deps sample_spec) (start sample_deps (at_time 1) sample_spec (new_supervisor 0))
     [(at_time 2, at_time 3), (at_time 4, at_time 5), (at_time 6, at_time 7)]) = Offline"
  using crash_loop_gives_up [of sample_spec "[(at_time 2, at_time 3), (at_time 4, at_time 5), (at_time 6, at_time 7)]"
    sample_deps "at_time 1" 0] by (simp add: sample_spec_def)

section \<open>A restart during backoff\<close>

text \<open>
  A restart that arrives while a crashed node waits for its backoff timer does not restart it: the
  node ends cold, marked as stopped by hand, with no timer and no child, and a later resume leaves it
  so; the request stays on record, so when the node is started again and then stopped, the stop
  launches a new process.
\<close>

theorem restart_during_backoff_stops:
  assumes "sv_child s = None" and "sv_containerId s = None" and "sv_restartTimer s = Some i"
    and "sp_runner spec = ProcessRunner"
  shows "sv_state (restart deps ev spec s) = Cold \<and> sv_child (restart deps ev spec s) = None \<and>
    sv_restartTimer (restart deps ev spec s) = None \<and> sv_manualStop (restart deps ev spec s) \<and>
    sv_state (resume deps ev2 spec (restart deps ev spec s)) = Cold \<and>
    sv_state (onExit ev5 spec note (stop deps ev4 (start deps ev3 spec (restart deps ev spec s)))) = Starting"
proof -
  define r where "r = restart deps ev spec s"
  have r: "sv_state r = Cold" "sv_child r = None" "sv_restartTimer r = None" "sv_manualStop r"
    "sv_restartRequested r"
    using assms
    by (auto simp: r_def restart_def stop_def Let_def clear_timer_fields sv_defs)
      (auto simp: clear_restart_timer_def clear_ready_timer_def drop_pending_def split: option.split)
  define t where "t = start deps ev3 spec r"
  have t: "t = spawnOnce ev3 spec (r\<lparr>sv_lastSpec := Some spec, sv_manualStop := False\<rparr>)"
    using r assms(4) by (simp add: t_def start_def Let_def)
  have t2: "sv_restartRequested t" "sv_child t \<noteq> None" "sv_lastSpec t = Some spec"
    using r by (auto simp: t spawnOnce_facts(2)) (simp_all add: spawnOnce_def Let_def armReadyProbe_def ready_poll_def sv_defs)
  define u where "u = stop deps ev4 t"
  have u: "sv_manualStop u" "sv_restartRequested u"
    using t2 assms(4)
    by (auto simp: u_def stop_def Let_def clear_timer_fields sv_defs killTree_def split: option.splits)
      (auto simp: clear_restart_timer_def clear_ready_timer_def drop_pending_def split: option.splits)
  have "sv_state (onExit ev5 spec note u) = Starting"
    using u by (simp add: onExit_def Let_def clear_timer_fields clearPidFile_def spawnOnce_facts)
  then show ?thesis
    using r unfolding r_def [symmetric] u_def t_def by (simp add: resume_def Let_def)
qed

definition sample_backoff :: supervisor where
  "sample_backoff = foldl (sv_step sample_deps) (new_supervisor 0)
     [(at_time 1, EvStart sample_spec), (at_time 2, EvChildExit 0 sample_spec ''gone'')]"

lemma restart_during_backoff_stops_witness:
  "sv_state (restart sample_deps (at_time 3) sample_spec sample_backoff) = Cold"
proof -
  have "sv_child sample_backoff = None" "sv_containerId sample_backoff = None"
    "sv_restartTimer sample_backoff = Some 2" "sp_runner sample_spec = ProcessRunner"
    by code_simp+
  from restart_during_backoff_stops [OF this] show ?thesis by blast
qed

end
