(* ===== verification/AgentChannel.thy ===== *)
theory AgentChannel
  imports Database
begin

text \<open>
  The channel between the manager and the agents of the fleet (\<^verbatim>\<open>src/routes/agents.ts\<close>): joining with a
  one-shot token, the command queue with long polling, the reports of an agent, and revoking, rotating
  and deleting an identity.  The digest of a token and the fresh random values are inputs.

  The state is the database with the in-memory parts of the module: the polls that wait, the polls
  that were woken and have not answered yet, the log rings, and, as a record of what left the process, the
  commands handed to agents, the results published to subscribers and the recoveries reported.
\<close>

section \<open>State\<close>

record channel =
  ch_db :: db
  ch_waiters :: "id list"
  ch_resumed :: "id list"
  ch_logRing :: "string \<rightharpoonup> string"
  ch_claimed :: "(id \<times> int) list"
  ch_results :: "(int \<times> bool) list"
  ch_recovered :: "id list"

definition init_channel :: "db \<Rightarrow> channel" where
  "init_channel d = \<lparr>ch_db = d, ch_waiters = [], ch_resumed = [], ch_logRing = Map.empty, ch_claimed = [],
     ch_results = [], ch_recovered = []\<rparr>"

definition JOIN_TOKEN_TTL_MS :: time where "JOIN_TOKEN_TTL_MS = 15 * 60000"
definition AGENT_OFFLINE_MS :: time where "AGENT_OFFLINE_MS = 90000"
definition ROTATION_GRACE_MS :: time where "ROTATION_GRACE_MS = 30 * 60000"
definition AGENT_LOG_RING_BYTES :: nat where "AGENT_LOG_RING_BYTES = 64 * 1024"
definition METRIC_RETENTION_MS :: time where "METRIC_RETENTION_MS = 7 * 24 * 60 * 60 * 1000"

definition COMMAND_TYPES :: "string list" where
  "COMMAND_TYPES = [''node.spawn'', ''node.stop'', ''node.restart'', ''node.logs'', ''node.status'',
     ''config.deliver'', ''agent.update'']"

section \<open>Identities\<close>

definition machine_of :: "db \<Rightarrow> id \<Rightarrow> agent_machine_row option" where
  "machine_of d i = first_row (\<lambda>m. mach_id m = i) (db_machines d)"

definition update_machine :: "id \<Rightarrow> (agent_machine_row \<Rightarrow> agent_machine_row) \<Rightarrow> db \<Rightarrow> db" where
  "update_machine i f d = d\<lparr>db_machines := upd_where (\<lambda>m. mach_id m = i) f (db_machines d)\<rparr>"

definition token_row :: "db \<Rightarrow> string \<Rightarrow> agent_machine_row option" where
  "token_row d digest =
     (case first_row (\<lambda>m. mach_tokenHash m = digest) (db_machines d) of
        Some m \<Rightarrow> Some m
      | None \<Rightarrow> first_row (\<lambda>m. mach_prevTokenHash m = Some digest) (db_machines d))"

definition findAgentByToken :: "(string \<Rightarrow> string) \<Rightarrow> db \<Rightarrow> string \<Rightarrow> time \<Rightarrow> id option" where
  "findAgentByToken hash d token now =
     (case token_row d (hash token) of None \<Rightarrow> None
      | Some m \<Rightarrow>
        if mach_revokedAt m \<noteq> None then None
        else if mach_tokenHash m \<noteq> hash token \<and>
                (case mach_prevSetAt m of None \<Rightarrow> True | Some t \<Rightarrow> now - t > ROTATION_GRACE_MS) then None
        else Some (mach_id m))"

definition channelAgent :: "(string \<Rightarrow> string) \<Rightarrow> db \<Rightarrow> string option \<Rightarrow> id \<Rightarrow> time \<Rightarrow> id option" where
  "channelAgent hash d bearer i now =
     (case bearer of None \<Rightarrow> None
      | Some token \<Rightarrow> if token = '''' then None
         else (case findAgentByToken hash d token now of None \<Rightarrow> None
               | Some a \<Rightarrow> if a = i then Some a else None))"

datatype auth_failure = UnknownAgent404 | Unauthorized401

definition refuse_auth :: "(string \<Rightarrow> string) \<Rightarrow> db \<Rightarrow> string option \<Rightarrow> time \<Rightarrow> auth_failure" where
  "refuse_auth hash d bearer now =
     (case bearer of None \<Rightarrow> Unauthorized401
      | Some token \<Rightarrow> if token \<noteq> '''' \<and> findAgentByToken hash d token now \<noteq> None
                      then UnknownAgent404 else Unauthorized401)"

definition machine_online :: "agent_machine_row \<Rightarrow> time \<Rightarrow> bool" where
  "machine_online m now \<longleftrightarrow> (case mach_lastSeenAt m of None \<Rightarrow> False | Some t \<Rightarrow> now - t \<le> AGENT_OFFLINE_MS)"

text \<open>The edge is read before the write.\<close>

definition touchHeartbeat :: "channel \<Rightarrow> id \<Rightarrow> time \<Rightarrow> channel" where
  "touchHeartbeat s i now =
     (let wasOffline = (case machine_of (ch_db s) i of None \<Rightarrow> True | Some m \<Rightarrow> \<not> machine_online m now)
      in s\<lparr>ch_db := update_machine i (\<lambda>m. m\<lparr>mach_lastSeenAt := Some now\<rparr>) (ch_db s),
           ch_recovered := (if wasOffline then ch_recovered s @ [i] else ch_recovered s)\<rparr>)"

section \<open>Commands\<close>

definition wake :: "id \<Rightarrow> channel \<Rightarrow> channel" where
  "wake i s = s\<lparr>ch_waiters := filter (\<lambda>w. w \<noteq> i) (ch_waiters s),
                ch_resumed := ch_resumed s @ filter (\<lambda>w. w = i) (ch_waiters s)\<rparr>"

definition enqueueAgentCommand :: "channel \<Rightarrow> id \<Rightarrow> string \<Rightarrow> string \<Rightarrow> time \<Rightarrow> channel \<times> int" where
  "enqueueAgentCommand s i type payload now =
     (let d = ch_db s; n = db_nextCommand d;
          row = \<lparr>cmd_id = n, cmd_agentId = i, cmd_type = type, cmd_payload = payload, cmd_state = CmdPending,
                 cmd_result = None, cmd_createdAt = now, cmd_deliveredAt = None, cmd_doneAt = None\<rparr>
      in (wake i (s\<lparr>ch_db := d\<lparr>db_commands := db_commands d @ [row], db_nextCommand := n + 1\<rparr>\<rparr>), n))"

text \<open>One row of the claim: the conditional update decides.\<close>

definition claim_one :: "time \<Rightarrow> db \<times> agent_command_row list \<Rightarrow> agent_command_row \<Rightarrow> db \<times> agent_command_row list" where
  "claim_one now acc row =
     (case acc of (d, claimed) \<Rightarrow>
       (let p = (\<lambda>c. cmd_id c = cmd_id row \<and> cmd_state c = CmdPending);
            d' = d\<lparr>db_commands := upd_where p
                     (\<lambda>c. c\<lparr>cmd_state := CmdDelivered, cmd_deliveredAt := Some now\<rparr>) (db_commands d)\<rparr>
        in if count_where p (db_commands d) = 0 then (d', claimed)
           else if cmd_type row \<in> set COMMAND_TYPES then (d', claimed @ [row]) else (d', claimed)))"

definition claimCommands :: "db \<Rightarrow> id \<Rightarrow> time \<Rightarrow> db \<times> agent_command_row list" where
  "claimCommands d i now =
     foldl (claim_one now) (d, [])
       (js_sort (\<lambda>a b. cmd_id a - cmd_id b)
          (filter (\<lambda>c. cmd_agentId c = i \<and> cmd_state c = CmdPending) (db_commands d)))"

definition answer_poll :: "channel \<Rightarrow> id \<Rightarrow> time \<Rightarrow> channel \<times> agent_command_row list" where
  "answer_poll s i now =
     (case claimCommands (ch_db s) i now of (d, cs) \<Rightarrow>
        (s\<lparr>ch_db := d, ch_claimed := ch_claimed s @ map (\<lambda>c. (i, cmd_id c)) cs\<rparr>, cs))"

datatype poll_reply = Commands "agent_command_row list" | PollWaits | PollRefused auth_failure

definition poll_commands ::
    "(string \<Rightarrow> string) \<Rightarrow> channel \<Rightarrow> string option \<Rightarrow> id \<Rightarrow> int \<Rightarrow> time \<Rightarrow> channel \<times> poll_reply" where
  "poll_commands hash s bearer i waitMs now =
     (case channelAgent hash (ch_db s) bearer i now of
        None \<Rightarrow> (s, PollRefused (refuse_auth hash (ch_db s) bearer now))
      | Some a \<Rightarrow>
          (case answer_poll (touchHeartbeat s a now) a now of (s1, cs) \<Rightarrow>
             if cs = [] \<and> waitMs > 0 then (s1\<lparr>ch_waiters := ch_waiters s1 @ [a]\<rparr>, PollWaits)
             else (s1, Commands cs)))"

text \<open>A woken poll, or one whose wait has passed, claims again and answers.\<close>

definition poll_resumes :: "channel \<Rightarrow> id \<Rightarrow> time \<Rightarrow> channel \<times> agent_command_row list" where
  "poll_resumes s i now =
     (if i \<in> set (ch_resumed s) then answer_poll (s\<lparr>ch_resumed := remove1 i (ch_resumed s)\<rparr>) i now else (s, []))"

definition poll_times_out :: "channel \<Rightarrow> id \<Rightarrow> time \<Rightarrow> channel \<times> agent_command_row list" where
  "poll_times_out s i now =
     (if i \<in> set (ch_waiters s) then answer_poll (s\<lparr>ch_waiters := remove1 i (ch_waiters s)\<rparr>) i now else (s, []))"

section \<open>Reports\<close>

record host_metrics =
  hm_cpuPercentTenths :: "int option"
  hm_memTotal :: "int option"
  hm_memUsed :: "int option"
  hm_diskTotal :: "int option"
  hm_diskFree :: "int option"
  hm_uptime :: "int option"
  hm_platform :: "string option"

datatype agent_event =
    CommandResult int bool string
  | Heartbeat "string option" "host_metrics option"
  | LogChunk id string

definition appendLog :: "channel \<Rightarrow> id \<Rightarrow> id \<Rightarrow> string \<Rightarrow> channel" where
  "appendLog s i node chunk =
     (let key = i @ '':'' @ node; next' = (case ch_logRing s key of None \<Rightarrow> '''' | Some t \<Rightarrow> t) @ chunk
      in s\<lparr>ch_logRing := (ch_logRing s)(key \<mapsto>
            (if length next' > AGENT_LOG_RING_BYTES then drop (length next' - AGENT_LOG_RING_BYTES) next'
             else next'))\<rparr>)"

definition readAgentLog :: "channel \<Rightarrow> id \<Rightarrow> id \<Rightarrow> string" where
  "readAgentLog s i node = (case ch_logRing s (i @ '':'' @ node) of None \<Rightarrow> '''' | Some t \<Rightarrow> t)"

text \<open>The acknowledgement of an identity rotation settles the grace slot.\<close>

definition settle_rotation :: "id \<Rightarrow> bool \<Rightarrow> db \<Rightarrow> db" where
  "settle_rotation i ok d =
     (if ok then update_machine i (\<lambda>m. m\<lparr>mach_prevTokenHash := None, mach_prevSetAt := None\<rparr>) d
      else (case machine_of d i of None \<Rightarrow> d
            | Some m \<Rightarrow> (case mach_prevTokenHash m of None \<Rightarrow> d
                | Some prev \<Rightarrow> update_machine i
                    (\<lambda>m. m\<lparr>mach_tokenHash := prev, mach_prevTokenHash := None, mach_prevSetAt := None\<rparr>) d)))"

definition command_result :: "channel \<Rightarrow> id \<Rightarrow> int \<Rightarrow> bool \<Rightarrow> string \<Rightarrow> time \<Rightarrow> channel" where
  "command_result s i n ok result now =
     (let p = (\<lambda>c. cmd_id c = n \<and> cmd_agentId c = i \<and> cmd_state c = CmdDelivered); d = ch_db s;
          d1 = d\<lparr>db_commands := upd_where p (\<lambda>c. c\<lparr>cmd_state := (if ok then CmdDone else CmdFailed),
                   cmd_result := Some result, cmd_doneAt := Some now, cmd_payload := ''{}''\<rparr>) (db_commands d)\<rparr>
      in if count_where p (db_commands d) = 0 then s\<lparr>ch_db := d1\<rparr>
         else s\<lparr>ch_results := ch_results s @ [(n, ok)],
                ch_db := (case first_row (\<lambda>c. cmd_id c = n) (db_commands d1) of
                   Some c \<Rightarrow> if cmd_type c = ''config.deliver'' then settle_rotation i ok d1 else d1
                 | None \<Rightarrow> d1)\<rparr>)"

definition store_metrics :: "id \<Rightarrow> host_metrics \<Rightarrow> time \<Rightarrow> db \<Rightarrow> db" where
  "store_metrics i m now d =
     (let row = \<lparr>metric_id = db_nextMetric d, metric_agentId = i, metric_at = now,
            metric_cpuPercent = hm_cpuPercentTenths m, metric_memTotal = hm_memTotal m,
            metric_memUsed = hm_memUsed m, metric_diskTotal = hm_diskTotal m, metric_diskFree = hm_diskFree m,
            metric_uptime = hm_uptime m,
            metric_platform = (case hm_platform m of Some p \<Rightarrow> if length p \<le> 32 then Some p else None
              | None \<Rightarrow> None)\<rparr>
      in d\<lparr>db_metrics := del_where (\<lambda>r. metric_agentId r = i \<and> metric_at r < now - METRIC_RETENTION_MS)
                            (db_metrics d @ [row]),
           db_nextMetric := db_nextMetric d + 1\<rparr>)"

definition handle_event :: "id \<Rightarrow> time \<Rightarrow> channel \<Rightarrow> agent_event \<Rightarrow> channel" where
  "handle_event i now s e = (case e of
     CommandResult n ok result \<Rightarrow> command_result s i n ok result now
   | LogChunk node chunk \<Rightarrow> appendLog s i node chunk
   | Heartbeat version metrics \<Rightarrow>
       (let d1 = (case version of
              Some v \<Rightarrow> if v \<noteq> '''' \<and> length v \<le> 32
                then update_machine i (\<lambda>m. m\<lparr>mach_agentVersion := Some v\<rparr>) (ch_db s) else ch_db s
            | None \<Rightarrow> ch_db s)
        in s\<lparr>ch_db := (case metrics of None \<Rightarrow> d1 | Some m \<Rightarrow> store_metrics i m now d1)\<rparr>))"

definition event_ok :: "agent_event \<Rightarrow> bool" where
  "event_ok e = (case e of
     CommandResult n _ _ \<Rightarrow> 0 < n
   | Heartbeat _ _ \<Rightarrow> True
   | LogChunk node chunk \<Rightarrow> 1 \<le> length node \<and> length node \<le> 64 \<and> length chunk \<le> 32000)"

datatype events_reply = EventsOk | EventsRefused auth_failure | EventsInvalid400

definition post_events ::
    "(string \<Rightarrow> string) \<Rightarrow> channel \<Rightarrow> string option \<Rightarrow> id \<Rightarrow> agent_event list \<Rightarrow> time \<Rightarrow>
     channel \<times> events_reply" where
  "post_events hash s bearer i events now =
     (case channelAgent hash (ch_db s) bearer i now of
        None \<Rightarrow> (s, EventsRefused (refuse_auth hash (ch_db s) bearer now))
      | Some a \<Rightarrow>
          (let s1 = touchHeartbeat s a now
           in if length events > 100 \<or> \<not> list_all event_ok events then (s1, EventsInvalid400)
              else (foldl (handle_event a now) s1 events, EventsOk)))"

section \<open>Joining and administration\<close>

definition issue_join :: "(string \<Rightarrow> string) \<Rightarrow> channel \<Rightarrow> string \<Rightarrow> time \<Rightarrow> channel \<times> time option" where
  "issue_join hash s token now =
     (let d = ch_db s; expiresAt = now + JOIN_TOKEN_TTL_MS
      in if hash token \<in> join_tokenHash ` set (db_joinTokens d) then (s, None)
         else (s\<lparr>ch_db := d\<lparr>db_joinTokens := db_joinTokens d @ [\<lparr>join_tokenHash = hash token,
            join_expiresAt = expiresAt, join_usedAt = None, join_createdAt = now\<rparr>]\<rparr>\<rparr>, Some expiresAt))"

record machine_facts_in =
  mf_hostname :: string
  mf_os :: string
  mf_arch :: string
  mf_nodeVersion :: string
  mf_agentVersion :: "string option"

definition join_usable :: "join_token_row \<Rightarrow> time \<Rightarrow> bool" where
  "join_usable r now \<longleftrightarrow> join_usedAt r = None \<and> \<not> join_expiresAt r \<le> now"

definition register_agent ::
    "(string \<Rightarrow> string) \<Rightarrow> channel \<Rightarrow> string \<Rightarrow> machine_facts_in \<Rightarrow> id \<Rightarrow> string \<Rightarrow> time \<Rightarrow>
     channel \<times> (id \<times> string) option" where
  "register_agent hash s joinToken facts agentId agentToken now =
     (let d = ch_db s
      in case first_row (\<lambda>r. join_tokenHash r = hash joinToken) (db_joinTokens d) of
           None \<Rightarrow> (s, None)
         | Some r \<Rightarrow>
           if \<not> join_usable r now then (s, None)
           else (s\<lparr>ch_db := d\<lparr>db_joinTokens := upd_where (\<lambda>r. join_tokenHash r = hash joinToken)
                    (\<lambda>r. r\<lparr>join_usedAt := Some now\<rparr>) (db_joinTokens d),
                  db_machines := db_machines d @ [\<lparr>mach_id = agentId, mach_hostname = mf_hostname facts,
                    mach_os = mf_os facts, mach_arch = mf_arch facts, mach_nodeVersion = mf_nodeVersion facts,
                    mach_tokenHash = hash agentToken, mach_joinedAt = now, mach_lastSeenAt = Some now,
                    mach_revokedAt = None, mach_prevTokenHash = None, mach_prevSetAt = None,
                    mach_agentVersion = mf_agentVersion facts\<rparr>]\<rparr>\<rparr>,
                 Some (agentId, agentToken)))"

datatype admin_reply = AdminOk "int option" | AdminUnknown | AdminRevoked | AdminOffline | AdminNotRevoked

definition revoke_agent :: "channel \<Rightarrow> id \<Rightarrow> time \<Rightarrow> channel \<times> admin_reply" where
  "revoke_agent s i now =
     (case machine_of (ch_db s) i of None \<Rightarrow> (s, AdminUnknown)
      | Some m \<Rightarrow> (s\<lparr>ch_db := update_machine i (\<lambda>m. m\<lparr>mach_revokedAt := Some now\<rparr>) (ch_db s)\<rparr>, AdminOk None))"

definition identity_payload :: "string \<Rightarrow> string" where
  "identity_payload token = ''{\"kind\":\"identity\",\"agentToken\":\"'' @ token @ ''\"}''"

definition rotate_agent ::
    "(string \<Rightarrow> string) \<Rightarrow> channel \<Rightarrow> id \<Rightarrow> string \<Rightarrow> time \<Rightarrow> channel \<times> admin_reply" where
  "rotate_agent hash s i agentToken now =
     (case machine_of (ch_db s) i of None \<Rightarrow> (s, AdminUnknown)
      | Some row \<Rightarrow>
        if mach_revokedAt row \<noteq> None then (s, AdminRevoked)
        else if \<not> machine_online row now then (s, AdminOffline)
        else (case enqueueAgentCommand (s\<lparr>ch_db := update_machine i (\<lambda>m. m\<lparr>mach_tokenHash := hash agentToken,
                     mach_prevTokenHash := Some (mach_tokenHash row), mach_prevSetAt := Some now\<rparr>) (ch_db s)\<rparr>)
                   i ''config.deliver'' (identity_payload agentToken) now of (s1, n) \<Rightarrow> (s1, AdminOk (Some n))))"

definition delete_agent :: "channel \<Rightarrow> id \<Rightarrow> channel \<times> admin_reply" where
  "delete_agent s i =
     (case machine_of (ch_db s) i of None \<Rightarrow> (s, AdminUnknown)
      | Some row \<Rightarrow> if mach_revokedAt row = None then (s, AdminNotRevoked)
          else (let d = ch_db s in (s\<lparr>ch_db := d\<lparr>db_commands := del_where (\<lambda>c. cmd_agentId c = i) (db_commands d),
                  db_machines := del_where (\<lambda>m. mach_id m = i) (db_machines d)\<rparr>\<rparr>, AdminOk None)))"

definition update_agent :: "channel \<Rightarrow> id \<Rightarrow> string \<Rightarrow> time \<Rightarrow> channel \<times> admin_reply" where
  "update_agent s i payload now =
     (case machine_of (ch_db s) i of None \<Rightarrow> (s, AdminUnknown)
      | Some row \<Rightarrow>
        if mach_revokedAt row \<noteq> None then (s, AdminRevoked)
        else if \<not> machine_online row now then (s, AdminOffline)
        else (case enqueueAgentCommand s i ''agent.update'' payload now of (s1, n) \<Rightarrow> (s1, AdminOk (Some n))))"


section \<open>The channel as a step function\<close>

datatype channel_event =
    EvEnqueue id string string time
  | EvPoll "string option" id int time
  | EvPollResumes id time
  | EvPollTimesOut id time
  | EvReport "string option" id "agent_event list" time
  | EvJoin string time
  | EvRegister string machine_facts_in id string time
  | EvRevoke id time
  | EvRotate id string time
  | EvDelete id
  | EvUpdate id string time

definition channel_step :: "(string \<Rightarrow> string) \<Rightarrow> channel \<Rightarrow> channel_event \<Rightarrow> channel" where
  "channel_step hash s e = (case e of
     EvEnqueue i type payload now \<Rightarrow> fst (enqueueAgentCommand s i type payload now)
   | EvPoll bearer i waitMs now \<Rightarrow> fst (poll_commands hash s bearer i waitMs now)
   | EvPollResumes i now \<Rightarrow> fst (poll_resumes s i now)
   | EvPollTimesOut i now \<Rightarrow> fst (poll_times_out s i now)
   | EvReport bearer i events now \<Rightarrow> fst (post_events hash s bearer i events now)
   | EvJoin token now \<Rightarrow> fst (issue_join hash s token now)
   | EvRegister joinToken facts i token now \<Rightarrow> fst (register_agent hash s joinToken facts i token now)
   | EvRevoke i now \<Rightarrow> fst (revoke_agent s i now)
   | EvRotate i token now \<Rightarrow> fst (rotate_agent hash s i token now)
   | EvDelete i \<Rightarrow> fst (delete_agent s i)
   | EvUpdate i payload now \<Rightarrow> fst (update_agent s i payload now))"

section \<open>What a claim takes\<close>

abbreviation pending_of :: "id \<Rightarrow> agent_command_row \<Rightarrow> bool" where
  "pending_of i c \<equiv> cmd_agentId c = i \<and> cmd_state c = CmdPending"

definition deliver :: "time \<Rightarrow> agent_command_row \<Rightarrow> agent_command_row" where
  "deliver now c = c\<lparr>cmd_state := CmdDelivered, cmd_deliveredAt := Some now\<rparr>"

lemma deliver_simps [simp]:
  "cmd_id (deliver now c) = cmd_id c" "cmd_agentId (deliver now c) = cmd_agentId c"
  "cmd_state (deliver now c) = CmdDelivered" "cmd_type (deliver now c) = cmd_type c"
  by (simp_all add: deliver_def)

lemma deliver_eta: "(\<lambda>c. c\<lparr>cmd_state := CmdDelivered, cmd_deliveredAt := Some now\<rparr>) = deliver now"
  by (simp add: fun_eq_iff deliver_def)

lemma js_sort_sorted: "sorted_wrt (\<lambda>x y. cmp x y \<le> 0) xs \<Longrightarrow> js_sort cmp xs = xs"
proof (induction xs)
  case (Cons x xs)
  then show ?case by (cases xs) auto
qed simp

lemma claim_fold:
  assumes "distinct (map cmd_id rows)" and "\<And>r. r \<in> set rows \<Longrightarrow> \<exists>c \<in> set (db_commands d). cmd_id c = cmd_id r \<and> cmd_state c = CmdPending"
  shows "foldl (claim_one now) (d, acc) rows =
    (d\<lparr>db_commands := upd_where (\<lambda>c. cmd_id c \<in> cmd_id ` set rows \<and> cmd_state c = CmdPending) (deliver now) (db_commands d)\<rparr>,
     acc @ filter (\<lambda>r. cmd_type r \<in> set COMMAND_TYPES) rows)"
  using assms
proof (induction rows arbitrary: d acc)
  case Nil
  then show ?case by (simp add: upd_where_def)
next
  case (Cons r rows)
  let ?d = "d\<lparr>db_commands := upd_where (\<lambda>c. cmd_id c = cmd_id r \<and> cmd_state c = CmdPending) (deliver now) (db_commands d)\<rparr>"
  let ?acc = "if cmd_type r \<in> set COMMAND_TYPES then acc @ [r] else acc"
  have one: "claim_one now (d, acc) r = (?d, ?acc)"
    using Cons.prems(2) [of r] by (auto simp: claim_one_def Let_def deliver_eta count_where_0)
  have "\<exists>c \<in> set (db_commands ?d). cmd_id c = cmd_id q \<and> cmd_state c = CmdPending" if q: "q \<in> set rows" for q
  proof -
    obtain c where "c \<in> set (db_commands d)" "cmd_id c = cmd_id q" "cmd_state c = CmdPending"
      using Cons.prems(2) [OF list.set_intros(2) [OF q]] by blast
    then show ?thesis using Cons.prems(1) q by (intro bexI [of _ c]) (auto simp: set_upd_where image_iff)
  qed
  then have "foldl (claim_one now) (?d, ?acc) rows =
    (?d\<lparr>db_commands := upd_where (\<lambda>c. cmd_id c \<in> cmd_id ` set rows \<and> cmd_state c = CmdPending) (deliver now) (db_commands ?d)\<rparr>,
     ?acc @ filter (\<lambda>r. cmd_type r \<in> set COMMAND_TYPES) rows)"
    using Cons.prems(1) by (intro Cons.IH) auto
  moreover have "upd_where (\<lambda>c. cmd_id c \<in> cmd_id ` set rows \<and> cmd_state c = CmdPending) (deliver now) (db_commands ?d)
    = upd_where (\<lambda>c. cmd_id c \<in> cmd_id ` set (r # rows) \<and> cmd_state c = CmdPending) (deliver now) (db_commands d)"
    by (auto simp: upd_where_def)
  ultimately show ?case by (simp add: one)
qed

lemma claimCommands_eq:
  assumes "sorted_wrt (<) (map cmd_id (db_commands d))"
  shows "claimCommands d i now =
    (d\<lparr>db_commands := upd_where (pending_of i) (deliver now) (db_commands d)\<rparr>,
     filter (\<lambda>r. cmd_type r \<in> set COMMAND_TYPES) (filter (pending_of i) (db_commands d)))"
proof -
  let ?rows = "filter (pending_of i) (db_commands d)"
  have s: "sorted_wrt (<) (map cmd_id ?rows)"
    using assms by (simp add: sorted_wrt_map sorted_wrt_filter)
  then have j: "js_sort (\<lambda>a b. cmd_id a - cmd_id b) ?rows = ?rows"
    by (intro js_sort_sorted) (auto simp: sorted_wrt_map elim!: sorted_wrt_mono_rel [rotated])
  have ds: "distinct (map cmd_id (db_commands d))" using assms by (simp add: strict_sorted_iff)
  have same: "cmd_id c \<in> cmd_id ` set ?rows \<and> cmd_state c = CmdPending \<longleftrightarrow> pending_of i c"
    if "c \<in> set (db_commands d)" for c
    using ds that by (auto simp: inj_on_def distinct_map)
  then have u: "upd_where (\<lambda>c. cmd_id c \<in> cmd_id ` set ?rows \<and> cmd_state c = CmdPending) (deliver now) (db_commands d)
      = upd_where (pending_of i) (deliver now) (db_commands d)"
    unfolding upd_where_def by (intro map_cong refl) auto
  have "foldl (claim_one now) (d, []) ?rows =
    (d\<lparr>db_commands := upd_where (\<lambda>c. cmd_id c \<in> cmd_id ` set ?rows \<and> cmd_state c = CmdPending) (deliver now) (db_commands d)\<rparr>,
     [] @ filter (\<lambda>r. cmd_type r \<in> set COMMAND_TYPES) ?rows)"
    using s by (intro claim_fold) (auto simp: strict_sorted_iff)
  then show ?thesis by (simp only: claimCommands_def j u append_Nil)
qed

section \<open>The queue invariant\<close>

text \<open>
  Ids are handed out in ascending order and never again; a claimed command belongs to the agent that
  claimed it, and what an agent has still pending is younger than everything it has claimed.
\<close>

definition queue_ok :: "agent_command_row list \<Rightarrow> int \<Rightarrow> (id \<times> int) list \<Rightarrow> bool" where
  "queue_ok cs n cl \<longleftrightarrow> 0 < n \<and> sorted_wrt (<) (map cmd_id cs) \<and> (\<forall>c \<in> set cs. cmd_id c < n) \<and>
     distinct (map snd cl) \<and> (\<forall>q \<in> set cl. snd q < n) \<and>
     (\<forall>q \<in> set cl. \<forall>c \<in> set cs. cmd_id c = snd q \<longrightarrow> cmd_agentId c = fst q) \<and>
     (\<forall>q \<in> set cl. \<forall>c \<in> set cs. pending_of (fst q) c \<longrightarrow> snd q < cmd_id c) \<and>
     (\<forall>i. sorted_wrt (<) (map snd (filter (\<lambda>q. fst q = i) cl)))"

lemma queue_ok_append:
  "queue_ok cs n cl \<Longrightarrow> cmd_id c = n \<Longrightarrow> queue_ok (cs @ [c]) (n + 1) cl"
  by (force simp: queue_ok_def sorted_wrt_append)

lemma queue_ok_upd:
  assumes "queue_ok cs n cl"
    and "\<And>c. cmd_id (f c) = cmd_id c" "\<And>c. cmd_agentId (f c) = cmd_agentId c"
    and "\<And>c. p c \<Longrightarrow> cmd_state (f c) = CmdPending \<Longrightarrow> cmd_state c = CmdPending"
  shows "queue_ok (upd_where p f cs) n cl"
proof -
  have "map cmd_id (upd_where p f cs) = map cmd_id cs" by (rule upd_where_map_same) (rule assms(2))
  then show ?thesis using assms by (auto simp: queue_ok_def set_upd_where split: if_splits)
qed

lemma queue_ok_del: "queue_ok cs n cl \<Longrightarrow> queue_ok (del_where p cs) n cl"
  by (auto simp: queue_ok_def del_where_def sorted_wrt_map intro: sorted_wrt_filter)

lemma queue_ok_claim:
  assumes "queue_ok cs n cl"
  shows "queue_ok (upd_where (pending_of i) (deliver now) cs) n
           (cl @ map (\<lambda>c. (i, cmd_id c)) (filter t (filter (pending_of i) cs)))"
proof -
  let ?new = "filter t (filter (pending_of i) cs)" and ?cs = "upd_where (pending_of i) (deliver now) cs"
  have srt: "sorted_wrt (<) (map cmd_id ?new)"
    using assms by (auto simp: queue_ok_def sorted_wrt_map intro: sorted_wrt_filter)
  have ids: "map cmd_id ?cs = map cmd_id cs" by (rule upd_where_map_same) simp
  have inj: "c = c'" if "c \<in> set cs" "c' \<in> set cs" "cmd_id c = cmd_id c'" for c c'
    using assms that by (auto simp: queue_ok_def strict_sorted_iff distinct_map inj_on_def)
  have fresh: "snd q \<noteq> cmd_id c" if "q \<in> set cl" "c \<in> set cs" "pending_of i c" for q c
    using assms that unfolding queue_ok_def by (metis less_irrefl)
  have cl: "sorted_wrt (<) (map snd (filter (\<lambda>q. fst q = j) (cl @ map (\<lambda>c. (i, cmd_id c)) ?new)))" for j
    using assms srt by (cases "i = j") (auto simp: queue_ok_def sorted_wrt_append o_def filter_map)
  have dist: "distinct (map snd (cl @ map (\<lambda>c. (i, cmd_id c)) ?new))"
    using assms srt fresh by (auto simp: queue_ok_def o_def strict_sorted_iff)
  have below: "snd q < n" if "q \<in> set (cl @ map (\<lambda>c. (i, cmd_id c)) ?new)" for q
    using assms that by (auto simp: queue_ok_def)
  have own: "cmd_agentId c = fst q"
    if q: "q \<in> set (cl @ map (\<lambda>c. (i, cmd_id c)) ?new)" and c: "c \<in> set ?cs" "cmd_id c = snd q" for q c
  proof -
    obtain c' where c': "c' \<in> set cs" "cmd_id c' = cmd_id c" "cmd_agentId c' = cmd_agentId c"
      using c(1) by (auto simp: set_upd_where split: if_splits)
    show ?thesis
    proof (cases "q \<in> set cl")
      case True
      then show ?thesis using assms c' c(2) by (auto simp: queue_ok_def)
    next
      case False
      then obtain c2 where "c2 \<in> set cs" "cmd_agentId c2 = i" "q = (i, cmd_id c2)" using q by auto
      then show ?thesis using inj [OF c'(1)] c' c(2) by auto
    qed
  qed
  have young: "snd q < cmd_id c"
    if "q \<in> set (cl @ map (\<lambda>c. (i, cmd_id c)) ?new)" "c \<in> set ?cs" "pending_of (fst q) c" for q c
    using assms that by (auto simp: queue_ok_def set_upd_where split: if_splits)
  have "0 < n" "\<forall>c \<in> set ?cs. cmd_id c < n" using assms by (auto simp: queue_ok_def set_upd_where)
  moreover have "sorted_wrt (<) (map cmd_id ?cs)" using assms by (simp only: ids queue_ok_def)
  ultimately show ?thesis
    unfolding queue_ok_def using dist below own young cl by blast
qed

definition channel_inv :: "channel \<Rightarrow> bool" where
  "channel_inv s \<longleftrightarrow> queue_ok (db_commands (ch_db s)) (db_nextCommand (ch_db s)) (ch_claimed s)"

text \<open>What leaves the queue alone.\<close>

lemma update_machine_frame [simp]:
  "db_commands (update_machine i f d) = db_commands d"
  "db_nextCommand (update_machine i f d) = db_nextCommand d"
  "db_joinTokens (update_machine i f d) = db_joinTokens d"
  by (simp_all add: update_machine_def)

lemma touchHeartbeat_frame [simp]:
  "db_commands (ch_db (touchHeartbeat s i now)) = db_commands (ch_db s)"
  "db_nextCommand (ch_db (touchHeartbeat s i now)) = db_nextCommand (ch_db s)"
  "db_joinTokens (ch_db (touchHeartbeat s i now)) = db_joinTokens (ch_db s)"
  "ch_claimed (touchHeartbeat s i now) = ch_claimed s"
  by (simp_all add: touchHeartbeat_def Let_def)

lemma settle_rotation_frame [simp]:
  "db_commands (settle_rotation i b d) = db_commands d"
  "db_nextCommand (settle_rotation i b d) = db_nextCommand d"
  "db_joinTokens (settle_rotation i b d) = db_joinTokens d"
  by (auto simp: settle_rotation_def split: option.splits)

lemma store_metrics_frame [simp]:
  "db_commands (store_metrics i m now d) = db_commands d"
  "db_nextCommand (store_metrics i m now d) = db_nextCommand d"
  "db_joinTokens (store_metrics i m now d) = db_joinTokens d"
  by (simp_all add: store_metrics_def Let_def)

lemma touch_inv [simp]: "channel_inv (touchHeartbeat s i now) = channel_inv s"
  by (simp add: channel_inv_def)

lemma enqueue_inv: "channel_inv s \<Longrightarrow> channel_inv (fst (enqueueAgentCommand s i type payload now))"
  by (simp add: channel_inv_def enqueueAgentCommand_def Let_def wake_def queue_ok_append)

lemma answer_poll_eq:
  assumes "channel_inv s"
  shows "answer_poll s i now =
    (let new = filter (\<lambda>r. cmd_type r \<in> set COMMAND_TYPES) (filter (pending_of i) (db_commands (ch_db s)))
     in (s\<lparr>ch_db := (ch_db s)\<lparr>db_commands := upd_where (pending_of i) (deliver now) (db_commands (ch_db s))\<rparr>,
           ch_claimed := ch_claimed s @ map (\<lambda>c. (i, cmd_id c)) new\<rparr>, new))"
  using assms by (simp add: answer_poll_def claimCommands_eq channel_inv_def queue_ok_def Let_def del: filter_filter)

lemma answer_poll_inv: "channel_inv s \<Longrightarrow> channel_inv (fst (answer_poll s i now))"
  using queue_ok_claim by (simp add: answer_poll_eq Let_def del: filter_filter) (simp add: channel_inv_def)

lemma poll_commands_inv:
  assumes "channel_inv s"
  shows "channel_inv (fst (poll_commands hash s bearer i w now))"
proof (cases "channelAgent hash (ch_db s) bearer i now")
  case (Some a)
  have "channel_inv (fst (answer_poll (touchHeartbeat s a now) a now))"
    using assms by (intro answer_poll_inv) simp
  then show ?thesis using Some
    by (cases "answer_poll (touchHeartbeat s a now) a now") (auto simp: poll_commands_def channel_inv_def)
qed (simp add: poll_commands_def assms)

lemma resume_inv:
  assumes "channel_inv s"
  shows "channel_inv (fst (poll_resumes s i now))" "channel_inv (fst (poll_times_out s i now))"
  using assms by (auto simp: poll_resumes_def poll_times_out_def channel_inv_def intro!: answer_poll_inv [unfolded channel_inv_def])

lemma handle_event_inv: "channel_inv s \<Longrightarrow> channel_inv (handle_event i now s e)"
  by (cases e) (auto simp: handle_event_def command_result_def appendLog_def Let_def channel_inv_def
      intro!: queue_ok_upd split: option.splits if_splits)

lemma handle_events_inv: "channel_inv s \<Longrightarrow> channel_inv (foldl (handle_event i now) s es)"
  by (induction es arbitrary: s) (simp_all add: handle_event_inv)

lemma post_events_inv: "channel_inv s \<Longrightarrow> channel_inv (fst (post_events hash s bearer i es now))"
  by (simp add: post_events_def Let_def handle_events_inv split: option.splits)

lemma enqueue_inv_pair:
  "enqueueAgentCommand s i type payload now = (s', n) \<Longrightarrow> channel_inv s \<Longrightarrow> channel_inv s'"
  using enqueue_inv [of s i type payload now] by simp

lemma rotate_inv: "channel_inv s \<Longrightarrow> channel_inv (fst (rotate_agent hash s i token now))"
  by (auto simp: rotate_agent_def split: option.splits prod.splits elim!: enqueue_inv_pair)
    (simp add: channel_inv_def)

lemma admin_inv:
  assumes "channel_inv s"
  shows "channel_inv (fst (issue_join hash s token now))" "channel_inv (fst (register_agent hash s j facts i token now))"
    "channel_inv (fst (revoke_agent s i now))" "channel_inv (fst (delete_agent s i))"
    "channel_inv (fst (update_agent s i payload now))"
  using assms enqueue_inv [OF assms, of i "''agent.update''" payload now]
  by (auto simp: issue_join_def register_agent_def revoke_agent_def delete_agent_def update_agent_def
      channel_inv_def Let_def queue_ok_del split: option.splits prod.splits)

lemma channel_step_inv: "channel_inv s \<Longrightarrow> channel_inv (channel_step hash s e)"
  by (cases e) (simp_all add: channel_step_def enqueue_inv poll_commands_inv resume_inv post_events_inv admin_inv rotate_inv)

interpretation channel: invariant_system "init_channel empty_db" "channel_step hash" "\<lambda>_. True" channel_inv
  for hash
proof
  show "channel_inv (init_channel empty_db)"
    by (simp add: channel_inv_def queue_ok_def init_channel_def empty_db_def)
qed (rule channel_step_inv)

lemma channel_reachable: "channel_inv (foldl (channel_step hash) (init_channel empty_db) es)"
  by (rule channel.inv_reachable) (simp add: list_all_iff)

text \<open>
  Claim C13. A command reaches its own agent, once, in the order of the queue: whatever was enqueued, polled,
  woken, reported, revoked and deleted before, the answer of a poll is exactly what was still
  pending for that agent (of a known type), no command was ever handed out twice, to anyone, and each agent received
  its commands in ascending order.
\<close>

theorem commands_delivered_once_in_order:
  assumes "s = foldl (channel_step hash) (init_channel empty_db) es"
    and "poll_commands hash s bearer i w now = (s', Commands cs)"
  shows "cs = filter (\<lambda>c. cmd_type c \<in> set COMMAND_TYPES) (filter (pending_of i) (db_commands (ch_db s))) \<and>
     ch_claimed s' = ch_claimed s @ map (\<lambda>c. (i, cmd_id c)) cs \<and>
     distinct (map snd (ch_claimed s')) \<and>
     sorted_wrt (<) (map snd (filter (\<lambda>q. fst q = j) (ch_claimed s')))"
proof -
  have inv: "channel_inv s" using assms(1) channel_reachable by simp
  from assms(2) have a: "channelAgent hash (ch_db s) bearer i now = Some i"
    by (auto simp: poll_commands_def channelAgent_def split: option.splits if_splits)
  then have ans: "answer_poll (touchHeartbeat s i now) i now = (s', cs)"
    using assms(2) by (auto simp: poll_commands_def split: prod.splits if_splits)
  have t: "channel_inv (touchHeartbeat s i now)" using inv by simp
  have cs: "cs = filter (\<lambda>c. cmd_type c \<in> set COMMAND_TYPES) (filter (pending_of i) (db_commands (ch_db s)))"
    using answer_poll_eq [OF t, of i now] unfolding ans Let_def by simp
  have cl: "ch_claimed s' = ch_claimed s @ map (\<lambda>c. (i, cmd_id c)) cs"
    using answer_poll_eq [OF t, of i now] unfolding ans Let_def by (simp add: cs)
  have "channel_inv s'" using poll_commands_inv [OF inv, of hash bearer i w now] assms(2) by simp
  then have "distinct (map snd (ch_claimed s'))" "sorted_wrt (<) (map snd (filter (\<lambda>q. fst q = j) (ch_claimed s')))"
    by (simp_all add: channel_inv_def queue_ok_def)
  with cs cl show ?thesis by blast
qed

section \<open>Join tokens\<close>

definition join_spent :: "string \<Rightarrow> channel \<Rightarrow> bool" where
  "join_spent h s \<longleftrightarrow> (\<exists>r. first_row (\<lambda>r. join_tokenHash r = h) (db_joinTokens (ch_db s)) = Some r \<and> join_usedAt r \<noteq> None)"

lemma handle_event_joins [simp]: "db_joinTokens (ch_db (handle_event i now s e)) = db_joinTokens (ch_db s)"
  by (cases e) (auto simp: handle_event_def command_result_def appendLog_def Let_def split: option.splits)

lemma handle_events_joins [simp]: "db_joinTokens (ch_db (foldl (handle_event i now) s es)) = db_joinTokens (ch_db s)"
  by (induction es arbitrary: s) simp_all

lemma claim_joins: "db_joinTokens (fst (foldl (claim_one now) (d, acc) rows)) = db_joinTokens d"
  by (induction rows arbitrary: d acc) (simp_all add: claim_one_def Let_def)

lemma answer_poll_joins [simp]: "db_joinTokens (ch_db (fst (answer_poll s i now))) = db_joinTokens (ch_db s)"
  by (simp add: answer_poll_def claimCommands_def claim_joins split_beta)

lemma poll_joins [simp]:
  "db_joinTokens (ch_db (fst (poll_commands hash s bearer i w now))) = db_joinTokens (ch_db s)"
  "db_joinTokens (ch_db (fst (poll_resumes s i now))) = db_joinTokens (ch_db s)"
  "db_joinTokens (ch_db (fst (poll_times_out s i now))) = db_joinTokens (ch_db s)"
  by (simp_all add: poll_commands_def poll_resumes_def poll_times_out_def Let_def split_beta split: option.splits)

lemma other_joins [simp]:
  "db_joinTokens (ch_db (fst (enqueueAgentCommand s i type payload now))) = db_joinTokens (ch_db s)"
  "db_joinTokens (ch_db (fst (post_events hash s bearer i es now))) = db_joinTokens (ch_db s)"
  "db_joinTokens (ch_db (fst (revoke_agent s i now))) = db_joinTokens (ch_db s)"
  "db_joinTokens (ch_db (fst (rotate_agent hash s i token now))) = db_joinTokens (ch_db s)"
  "db_joinTokens (ch_db (fst (delete_agent s i))) = db_joinTokens (ch_db s)"
  "db_joinTokens (ch_db (fst (update_agent s i payload now))) = db_joinTokens (ch_db s)"
  by (auto simp: enqueueAgentCommand_def wake_def post_events_def revoke_agent_def rotate_agent_def delete_agent_def
      update_agent_def Let_def split: option.splits prod.splits)

lemma join_spent_step: "join_spent h s \<Longrightarrow> join_spent h (channel_step hash s e)"
proof (cases e)
  case (EvJoin token now)
  assume "join_spent h s"
  with EvJoin show ?thesis by (auto simp: channel_step_def join_spent_def issue_join_def Let_def first_row_append)
next
  case (EvRegister j facts i token now)
  assume "join_spent h s"
  then obtain r where r: "first_row (\<lambda>r. join_tokenHash r = h) (db_joinTokens (ch_db s)) = Some r" "join_usedAt r \<noteq> None"
    by (auto simp: join_spent_def)
  have f: "first_row (\<lambda>r. join_tokenHash r = h) (upd_where q (\<lambda>r. r\<lparr>join_usedAt := Some now\<rparr>) (db_joinTokens (ch_db s)))
     = Some (if q r then r\<lparr>join_usedAt := Some now\<rparr> else r)" for q
    by (subst first_row_upd) (simp_all add: r)
  show ?thesis using r EvRegister
    by (auto simp: channel_step_def join_spent_def register_agent_def Let_def f split: option.splits)
qed (simp_all add: channel_step_def join_spent_def)

lemma join_spent_run: "join_spent h s \<Longrightarrow> join_spent h (foldl (channel_step hash) s es)"
  by (induction es arbitrary: s) (simp_all add: join_spent_step)

definition registers_with :: "(string \<Rightarrow> string) \<Rightarrow> string \<Rightarrow> channel_event \<Rightarrow> bool" where
  "registers_with hash tok e \<longleftrightarrow> (case e of EvRegister j _ _ _ _ \<Rightarrow> hash j = hash tok | _ \<Rightarrow> False)"

definition issues :: "(string \<Rightarrow> string) \<Rightarrow> string \<Rightarrow> channel_event \<Rightarrow> bool" where
  "issues hash tok e \<longleftrightarrow> (case e of EvJoin j _ \<Rightarrow> hash j = hash tok | _ \<Rightarrow> False)"

definition join_row :: "string \<Rightarrow> channel \<Rightarrow> join_token_row option" where
  "join_row h s = first_row (\<lambda>r. join_tokenHash r = h) (db_joinTokens (ch_db s))"

lemma join_row_kept: "join_row (hash tok) s = Some r \<Longrightarrow> \<not> registers_with hash tok e \<Longrightarrow> join_row (hash tok) (channel_step hash s e) = Some r"
proof (cases e)
  case (EvJoin token now)
  assume "join_row (hash tok) s = Some r"
  with EvJoin show ?thesis by (auto simp: channel_step_def join_row_def issue_join_def Let_def first_row_append)
next
  case (EvRegister j facts i token now)
  assume r: "join_row (hash tok) s = Some r" and "\<not> registers_with hash tok e"
  then have h: "hash j \<noteq> hash tok" "join_tokenHash r = hash tok" using EvRegister first_row_Some by (fastforce simp: registers_with_def join_row_def)+
  have "first_row (\<lambda>r. join_tokenHash r = hash tok) (upd_where (\<lambda>r. join_tokenHash r = hash j) (\<lambda>r. r\<lparr>join_usedAt := Some now\<rparr>) (db_joinTokens (ch_db s))) = Some r"
    using r h by (subst first_row_upd) (auto simp: join_row_def)
  then show ?thesis using r EvRegister by (auto simp: channel_step_def join_row_def register_agent_def Let_def split: option.splits)
qed (simp_all add: channel_step_def join_row_def)

lemma join_row_run: "join_row (hash tok) s = Some r \<Longrightarrow> list_all (\<lambda>e. \<not> registers_with hash tok e) es \<Longrightarrow>
    join_row (hash tok) (foldl (channel_step hash) s es) = Some r"
  by (induction es arbitrary: s) (simp_all add: join_row_kept)

lemma never_issued: "join_row (hash tok) s = None \<Longrightarrow> list_all (\<lambda>e. \<not> issues hash tok e) es \<Longrightarrow> join_row (hash tok) (foldl (channel_step hash) s es) = None"
proof (induction es arbitrary: s)
  case (Cons e es)
  have "join_row (hash tok) (channel_step hash s e) = None"
  proof (cases e)
    case (EvRegister j facts i token now)
    have "first_row (\<lambda>r. join_tokenHash r = hash tok) (upd_where q (\<lambda>r. r\<lparr>join_usedAt := Some now\<rparr>) (db_joinTokens (ch_db s))) = None" for q
      using Cons.prems(1) by (subst first_row_upd) (auto simp: join_row_def)
    then show ?thesis using Cons.prems(1) EvRegister by (auto simp: channel_step_def join_row_def register_agent_def Let_def split: option.splits)
  next
    case (EvJoin j now)
    then show ?thesis using Cons.prems by (auto simp: channel_step_def join_row_def issue_join_def issues_def Let_def first_row_append) (auto simp: first_row_def)
  qed (use Cons.prems in \<open>simp_all add: channel_step_def join_row_def\<close>)
  then show ?case using Cons.IH Cons.prems(2) by simp
qed simp

lemma register_reply:
  "snd (register_agent hash s tok facts i token now) = (case join_row (hash tok) s of None \<Rightarrow> None
     | Some r \<Rightarrow> if join_usable r now then Some (i, token) else None)"
  by (simp add: register_agent_def join_row_def Let_def split: option.split)

text \<open>
  Claim C15. A join token admits one machine, within fifteen minutes of its issue.  As long as nobody has registered with it, a
  registration with a token that was issued at \<open>t0\<close> succeeds exactly before \<open>t0\<close> plus fifteen minutes, whatever else happens on the
  channel; after one success no later registration with it succeeds, whatever happens in between; and a token that was never issued
  admits nobody.
\<close>

theorem join_token_single_use:
  assumes "issue_join hash s tok t0 = (s1, Some expiresAt)"
    and "list_all (\<lambda>e. \<not> registers_with hash tok e) es" and "s2 = foldl (channel_step hash) s1 es"
  shows "expiresAt = t0 + 15 * 60000 \<and>
    snd (register_agent hash s2 tok facts i token now) = (if now < t0 + 15 * 60000 then Some (i, token) else None) \<and>
    (now < t0 + 15 * 60000 \<longrightarrow>
       snd (register_agent hash (foldl (channel_step hash) (fst (register_agent hash s2 tok facts i token now)) later) tok facts' i' token' now') = None) \<and>
    (list_all (\<lambda>e. \<not> issues hash tok e) others \<longrightarrow>
       snd (register_agent hash (foldl (channel_step hash) (init_channel empty_db) others) tok facts' i' token' now') = None)"
proof -
  let ?r = "\<lparr>join_tokenHash = hash tok, join_expiresAt = t0 + 15 * 60000, join_usedAt = None, join_createdAt = t0\<rparr>"
  have e: "expiresAt = t0 + 15 * 60000" using assms(1) by (auto simp: issue_join_def Let_def JOIN_TOKEN_TTL_MS_def split: if_splits)
  have s1: "s1 = s\<lparr>ch_db := (ch_db s)\<lparr>db_joinTokens := db_joinTokens (ch_db s) @ [?r]\<rparr>\<rparr>" "hash tok \<notin> join_tokenHash ` set (db_joinTokens (ch_db s))"
    using assms(1) by (auto simp: issue_join_def Let_def JOIN_TOKEN_TTL_MS_def split: if_splits)
  have "first_row (\<lambda>r. join_tokenHash r = hash tok) (db_joinTokens (ch_db s)) = None" using s1(2) unfolding first_row_None by (metis imageI)
  then have "join_row (hash tok) s1 = Some ?r" unfolding s1(1) by (simp add: join_row_def first_row_append) (simp add: first_row_def)
  then have r: "join_row (hash tok) s2 = Some ?r" unfolding assms(3) using assms(2) by (rule join_row_run)
  have now: "snd (register_agent hash s2 tok facts i token now) = (if now < t0 + 15 * 60000 then Some (i, token) else None)"
    by (simp add: register_reply r join_usable_def)
  have spent: "join_spent (hash tok) (fst (register_agent hash s2 tok facts i token now))" if "now < t0 + 15 * 60000"
  proof -
    have "first_row (\<lambda>r. join_tokenHash r = hash tok) (upd_where (\<lambda>r. join_tokenHash r = hash tok) (\<lambda>r. r\<lparr>join_usedAt := Some now\<rparr>) (db_joinTokens (ch_db s2))) =
        Some (?r\<lparr>join_usedAt := Some now\<rparr>)" using r by (subst first_row_upd) (simp_all add: join_row_def)
    then show ?thesis using r that by (simp add: join_spent_def register_agent_def join_row_def Let_def join_usable_def)
  qed
  have after: "snd (register_agent hash (foldl (channel_step hash) (fst (register_agent hash s2 tok facts i token now)) later) tok facts' i' token' now') = None"
    if "now < t0 + 15 * 60000"
    using join_spent_run [OF spent [OF that], of hash later] by (auto simp: join_spent_def register_reply join_row_def join_usable_def)
  have "join_row (hash tok) (init_channel empty_db) = None" by (simp add: join_row_def init_channel_def empty_db_def first_row_def)
  then have "snd (register_agent hash (foldl (channel_step hash) (init_channel empty_db) others) tok facts' i' token' now') = None"
    if "list_all (\<lambda>e. \<not> issues hash tok e) others" using never_issued [OF _ that, of "init_channel empty_db"] by (simp add: register_reply)
  then show ?thesis using e now after by blast
qed

section \<open>Identity rotation\<close>

text \<open>
  \<open>holder\<close>: machine \<open>i\<close> has the row \<open>m\<close>, ids are keys, and no other machine carries one of the
  digests \<open>H\<close> (the tokens are 32 random bytes).
\<close>

definition holder :: "string set \<Rightarrow> db \<Rightarrow> id \<Rightarrow> agent_machine_row \<Rightarrow> bool" where
  "holder H d i m \<longleftrightarrow> distinct (map mach_id (db_machines d)) \<and> machine_of d i = Some m \<and>
     (\<forall>q \<in> set (db_machines d). mach_id q \<noteq> i \<longrightarrow>
        (\<forall>h \<in> H. mach_tokenHash q \<noteq> h \<and> mach_prevTokenHash q \<noteq> Some h))"

lemma first_row_unique:
  assumes "m \<in> set rows" and "\<And>q. q \<in> set rows \<Longrightarrow> p q \<Longrightarrow> q = m"
  shows "first_row p rows = (if p m then Some m else None)"
proof (cases "first_row p rows")
  case None
  then show ?thesis using assms(1) by (auto simp: first_row_None)
next
  case (Some r)
  then show ?thesis using assms(2) [of r] first_row_Some [OF Some] by auto
qed

lemma findAgentByToken_holder:
  assumes "holder H d i m" and "hash tok \<in> H"
  shows "findAgentByToken hash d tok now =
    (if mach_revokedAt m = None \<and> (mach_tokenHash m = hash tok \<or> mach_prevTokenHash m = Some (hash tok) \<and>
          (case mach_prevSetAt m of None \<Rightarrow> False | Some t \<Rightarrow> now - t \<le> ROTATION_GRACE_MS))
     then Some i else None)"
proof -
  have m: "m \<in> set (db_machines d)" "mach_id m = i"
    using assms first_row_Some by (fastforce simp: holder_def machine_of_def)+
  have u: "q = m" if "q \<in> set (db_machines d)" "mach_tokenHash q = hash tok \<or> mach_prevTokenHash q = Some (hash tok)" for q
    using assms m that by (auto simp: holder_def distinct_map inj_on_def)
  have "token_row d (hash tok) = (if mach_tokenHash m = hash tok \<or> mach_prevTokenHash m = Some (hash tok) then Some m else None)"
    using first_row_unique [OF m(1), of "\<lambda>m. mach_tokenHash m = hash tok"]
      first_row_unique [OF m(1), of "\<lambda>m. mach_prevTokenHash m = Some (hash tok)"] u
    by (auto simp: token_row_def)
  then show ?thesis using m by (auto simp: findAgentByToken_def split: option.splits)
qed

lemma holder_update:
  assumes "holder H d i m" and "\<And>x. mach_id (f x) = mach_id x"
  shows "holder H (update_machine i f d) i (f m)"
proof -
  have "map mach_id (upd_where (\<lambda>m. mach_id m = i) f (db_machines d)) = map mach_id (db_machines d)"
    by (rule upd_where_map_same) (rule assms(2))
  moreover have "mach_id m = i" using assms(1) first_row_Some by (fastforce simp: holder_def machine_of_def)
  ultimately show ?thesis
    using assms by (auto simp: holder_def update_machine_def machine_of_def first_row_upd set_upd_where split: if_splits)
qed

lemma holder_cong: "db_machines d' = db_machines d \<Longrightarrow> holder H d' i m = holder H d i m"
  by (simp add: holder_def machine_of_def)

lemma enqueue_machines [simp]:
  "db_machines (ch_db (fst (enqueueAgentCommand s i type payload now))) = db_machines (ch_db s)"
  by (simp add: enqueueAgentCommand_def Let_def wake_def)

text \<open>The row of a machine after its identity was rotated at \<open>now\<close>.\<close>

definition rotated_row :: "string \<Rightarrow> time \<Rightarrow> agent_machine_row \<Rightarrow> agent_machine_row" where
  "rotated_row h now m = m\<lparr>mach_tokenHash := h, mach_prevTokenHash := Some (mach_tokenHash m), mach_prevSetAt := Some now\<rparr>"

lemma rotate_agent_state:
  assumes "machine_of (ch_db s) i = Some m" "mach_revokedAt m = None" "machine_online m now"
  shows "rotate_agent hash s i token now = (let p = enqueueAgentCommand
      (s\<lparr>ch_db := update_machine i (\<lambda>q. q\<lparr>mach_tokenHash := hash token,
         mach_prevTokenHash := Some (mach_tokenHash m), mach_prevSetAt := Some now\<rparr>) (ch_db s)\<rparr>)
      i ''config.deliver'' (identity_payload token) now in (fst p, AdminOk (Some (snd p))))"
  using assms by (simp add: rotate_agent_def Let_def split_beta)

lemma rotate_agent_holder:
  assumes "holder H (ch_db s) i m" "mach_revokedAt m = None" "machine_online m now"
  shows "holder H (ch_db (fst (rotate_agent hash s i token now))) i (rotated_row (hash token) now m)"
proof -
  have "holder H (update_machine i (\<lambda>q. q\<lparr>mach_tokenHash := hash token,
      mach_prevTokenHash := Some (mach_tokenHash m), mach_prevSetAt := Some now\<rparr>) (ch_db s)) i (rotated_row (hash token) now m)"
    using holder_update [OF assms(1), of "\<lambda>q. q\<lparr>mach_tokenHash := hash token,
      mach_prevTokenHash := Some (mach_tokenHash m), mach_prevSetAt := Some now\<rparr>"] by (simp add: rotated_row_def)
  moreover have "machine_of (ch_db s) i = Some m" using assms(1) by (simp add: holder_def)
  ultimately show ?thesis using assms(2,3)
    by (simp add: rotate_agent_state Let_def holder_cong [OF enqueue_machines])
qed

lemma settle_rotation_holder:
  assumes "holder H d i m"
  shows "holder H (settle_rotation i ok d) i
    (if ok then m\<lparr>mach_prevTokenHash := None, mach_prevSetAt := None\<rparr>
     else case mach_prevTokenHash m of None \<Rightarrow> m
       | Some prev \<Rightarrow> m\<lparr>mach_tokenHash := prev, mach_prevTokenHash := None, mach_prevSetAt := None\<rparr>)"
proof -
  have "machine_of d i = Some m" using assms by (simp add: holder_def)
  then show ?thesis using assms
      holder_update [OF assms, of "\<lambda>m. m\<lparr>mach_prevTokenHash := None, mach_prevSetAt := None\<rparr>"]
      holder_update [OF assms, of "\<lambda>m. m\<lparr>mach_tokenHash := prev, mach_prevTokenHash := None, mach_prevSetAt := None\<rparr>" for prev]
    by (auto simp: settle_rotation_def split: option.splits)
qed

lemma command_result_machines:
  assumes "sorted_wrt (<) (map cmd_id (db_commands (ch_db s)))"
    and "c \<in> set (db_commands (ch_db s))" "cmd_agentId c = i" "cmd_state c = CmdDelivered" "cmd_type c = ''config.deliver''"
  shows "db_machines (ch_db (command_result s i (cmd_id c) ok result now)) = db_machines (settle_rotation i ok (ch_db s))"
proof -
  have ds: "distinct (map cmd_id (db_commands (ch_db s)))" using assms(1) by (simp add: strict_sorted_iff)
  let ?p = "\<lambda>q. cmd_id q = cmd_id c \<and> cmd_agentId q = i \<and> cmd_state q = CmdDelivered"
  let ?f = "\<lambda>q. q\<lparr>cmd_state := (if ok then CmdDone else CmdFailed), cmd_result := Some result, cmd_doneAt := Some now, cmd_payload := ''{}''\<rparr>"
  have n: "count_where ?p (db_commands (ch_db s)) \<noteq> 0" using assms by (auto simp: count_where_0)
  have fr: "first_row (\<lambda>q. cmd_id q = cmd_id c) (upd_where ?p ?f (db_commands (ch_db s))) = Some (?f c)"
    by (subst first_row_upd) (simp_all add: first_row_key [OF ds assms(2)] assms)
  have fr2: "settle_rotation i ok ((ch_db s)\<lparr>db_commands := cs\<rparr>) = (settle_rotation i ok (ch_db s))\<lparr>db_commands := cs\<rparr>" for cs
    by (auto simp: settle_rotation_def update_machine_def machine_of_def split: option.splits)
  show ?thesis unfolding command_result_def Let_def using n fr assms(5) by (simp add: fr2)
qed

text \<open>
  Claim C14. A rotation does not cut off a machine that holds the token on record (that is, one that has picked up every earlier
  rotation), is online and is not revoked.  After it the old token still authenticates for the grace period and the new one does at once;
  the machine polls with the old token and gets the delivery command.  If it has stored the new token, its report under the new token is
  accepted and from then on exactly the new token authenticates; if it could not, its report under the old token is accepted within
  the grace period and from then on exactly the old token does.
\<close>

theorem rotation_keeps_machine_reachable:
  assumes "s = foldl (channel_step hash) (init_channel empty_db) es"
    and "holder {hash old, hash new} (ch_db s) i m" "mach_revokedAt m = None" "machine_online m now"
    and "mach_tokenHash m = hash old" "hash new \<noteq> hash old" "old \<noteq> ''''" "new \<noteq> ''''"
    and "rotate_agent hash s i new now = (s1, AdminOk (Some n))"
    and "0 \<le> t - now" "t - now \<le> ROTATION_GRACE_MS"
    and "poll_commands hash s1 (Some old) i 0 t = (s2, Commands cs)"
    and stored: "post_events hash s2 (Some new) i [CommandResult n True r] t' = (s3, a3)"
    and failed: "post_events hash s2 (Some old) i [CommandResult n False r] t' = (s4, a4)"
  shows "(findAgentByToken hash (ch_db s1) new t = Some i \<and> findAgentByToken hash (ch_db s1) old t = Some i) \<and>
    n \<in> cmd_id ` set cs \<and>
    (a3 = EventsOk \<and> findAgentByToken hash (ch_db s3) new u = Some i \<and> findAgentByToken hash (ch_db s3) old u = None) \<and>
    (t' - now \<le> ROTATION_GRACE_MS \<longrightarrow>
       a4 = EventsOk \<and> findAgentByToken hash (ch_db s4) old u = Some i \<and> findAgentByToken hash (ch_db s4) new u = None)"
  (is "?A \<and> ?C \<and> ?D \<and> ?E")
proof -
  let ?H = "{hash old, hash new}" and ?m1 = "rotated_row (hash new) now m"
  have inv1: "channel_inv s1"
    using rotate_inv [of s hash i new now] channel_reachable [of hash es] assms(1,9) by simp
  have h1: "holder ?H (ch_db s1) i ?m1"
    using rotate_agent_holder [OF assms(2-4), of hash new] assms(9) by simp
  have A: ?A using assms by (auto simp: findAgentByToken_holder [OF h1] rotated_row_def)
  have mo: "machine_of (ch_db s) i = Some m" using assms(2) by (simp add: holder_def)
  define c where "c = \<lparr>cmd_id = n, cmd_agentId = i, cmd_type = ''config.deliver'', cmd_payload = identity_payload new,
    cmd_state = CmdPending, cmd_result = None, cmd_createdAt = now, cmd_deliveredAt = None, cmd_doneAt = None\<rparr>"
  have c: "c \<in> set (db_commands (ch_db s1))"
    using assms(9) by (auto simp: rotate_agent_state [OF mo assms(3,4)] Let_def enqueueAgentCommand_def wake_def c_def)
  let ?t = "touchHeartbeat s1 i t"
  have invt: "channel_inv ?t" using inv1 by simp
  have ans: "answer_poll ?t i t = (s2, cs)"
    using assms(7,12) A by (auto simp: poll_commands_def channelAgent_def split: prod.splits if_splits)
  have C: ?C
    using answer_poll_eq [OF invt, of i t] c unfolding ans Let_def by (force simp: c_def COMMAND_TYPES_def)
  have s2: "db_machines (ch_db s2) = db_machines (ch_db ?t)"
    "db_commands (ch_db s2) = upd_where (pending_of i) (deliver t) (db_commands (ch_db s1))"
    using answer_poll_eq [OF invt, of i t] unfolding ans Let_def by simp_all
  have inv2: "channel_inv s2" using answer_poll_inv [OF invt, of i t] unfolding ans by simp
  have "holder ?H (ch_db ?t) i (?m1\<lparr>mach_lastSeenAt := Some t\<rparr>)"
    using holder_update [OF h1, of "\<lambda>m. m\<lparr>mach_lastSeenAt := Some t\<rparr>"] by (simp add: touchHeartbeat_def Let_def)
  then have h2: "holder ?H (ch_db s2) i (?m1\<lparr>mach_lastSeenAt := Some t\<rparr>)" by (simp add: holder_cong [OF s2(1)])
  have d: "deliver t c \<in> set (db_commands (ch_db s2))" using c by (force simp: s2 set_upd_where c_def)
  have inv: "channel_inv s" using channel_reachable assms(1) by simp
  have "0 < n" using assms(9) inv unfolding rotate_agent_state [OF mo assms(3,4)]
    by (auto simp: Let_def enqueueAgentCommand_def wake_def channel_inv_def queue_ok_def)
  then have ok: "event_ok (CommandResult n b r)" for b by (simp add: event_ok_def)
  define k where "k = touchHeartbeat s2 i t'"
  let ?m2 = "?m1\<lparr>mach_lastSeenAt := Some t\<rparr>\<lparr>mach_lastSeenAt := Some t'\<rparr>"
  have hk: "holder ?H (ch_db k) i ?m2"
    using holder_update [OF h2, of "\<lambda>m. m\<lparr>mach_lastSeenAt := Some t'\<rparr>"] by (simp add: k_def touchHeartbeat_def Let_def)
  have dk: "deliver t c \<in> set (db_commands (ch_db k))" "sorted_wrt (<) (map cmd_id (db_commands (ch_db k)))"
    using d inv2 by (simp_all add: k_def channel_inv_def queue_ok_def)
  have "db_machines (ch_db (command_result k i (cmd_id (deliver t c)) b r t')) = db_machines (settle_rotation i b (ch_db k))" for b
    using dk by (intro command_result_machines) (simp_all add: c_def)
  then have m3: "db_machines (ch_db (handle_event i t' k (CommandResult n b r))) = db_machines (settle_rotation i b (ch_db k))" for b
    by (simp add: handle_event_def c_def)
  note h3 = holder_cong [OF m3, THEN iffD2, OF settle_rotation_holder [OF hk]]
  have post: "post_events hash s2 (Some tok) i [CommandResult n b r] t' = (handle_event i t' k (CommandResult n b r), EventsOk)"
    if "findAgentByToken hash (ch_db s2) tok t' = Some i" "tok \<noteq> ''''" for tok b
    using that ok by (simp add: post_events_def channelAgent_def k_def)
  have "findAgentByToken hash (ch_db s2) new t' = Some i" using assms(3) by (simp add: findAgentByToken_holder [OF h2] rotated_row_def)
  from post [OF this assms(8), of True] have "s3 = handle_event i t' k (CommandResult n True r)" "a3 = EventsOk" using stored by simp_all
  then have ?D using assms(3,5,6) by (simp add: findAgentByToken_holder [OF h3] rotated_row_def)
  moreover have ?E
  proof
    assume "t' - now \<le> ROTATION_GRACE_MS"
    then have "findAgentByToken hash (ch_db s2) old t' = Some i" using assms(3,5,6) by (simp add: findAgentByToken_holder [OF h2] rotated_row_def)
    from post [OF this assms(7), of False] have "s4 = handle_event i t' k (CommandResult n False r)" "a4 = EventsOk" using failed by simp_all
    then show "a4 = EventsOk \<and> findAgentByToken hash (ch_db s4) old u = Some i \<and> findAgentByToken hash (ch_db s4) new u = None"
      using assms(3,5,6) by (simp add: findAgentByToken_holder [OF h3] rotated_row_def)
  qed
  ultimately show ?thesis using A C by blast
qed

text \<open>
  A second rotation before the machine has picked up the first locks it out: the slot of the old
  token is overwritten with the token that was never delivered, so the token the machine
  holds authenticates nowhere and its poll for the new one is refused.
\<close>

theorem second_rotation_locks_out:
  assumes "holder {hash old, hash new1, hash new2} (ch_db s) i m" "mach_revokedAt m = None"
    and "machine_online m now1" "machine_online m now2"
    and "mach_tokenHash m = hash old" "hash new1 \<noteq> hash old" "hash new2 \<noteq> hash old"
    and "rotate_agent hash s i new1 now1 = (s1, AdminOk n1)"
    and "rotate_agent hash s1 i new2 now2 = (s2, AdminOk n2)"
  shows "findAgentByToken hash (ch_db s2) old t = None \<and>
    poll_commands hash s2 (Some old) i w t = (s2, PollRefused Unauthorized401)"
proof -
  let ?H = "{hash old, hash new1, hash new2}"
  let ?m1 = "rotated_row (hash new1) now1 m"
  have h1: "holder ?H (ch_db s1) i ?m1"
    using rotate_agent_holder [OF assms(1-3), of hash new1] assms(8) by simp
  have "holder ?H (ch_db (fst (rotate_agent hash s1 i new2 now2))) i (rotated_row (hash new2) now2 ?m1)"
    using assms(2,4) by (intro rotate_agent_holder [OF h1]) (simp_all add: rotated_row_def machine_online_def)
  then have h2: "holder ?H (ch_db s2) i (rotated_row (hash new2) now2 ?m1)" using assms(9) by simp
  have "findAgentByToken hash (ch_db s2) old t = None"
    using assms(6,7) by (simp add: findAgentByToken_holder [OF h2] rotated_row_def)
  then show ?thesis by (simp add: poll_commands_def channelAgent_def refuse_auth_def)
qed

section \<open>Witnesses\<close>

definition sample_facts :: machine_facts_in where
  "sample_facts = \<lparr>mf_hostname = ''focal'', mf_os = ''linux'', mf_arch = ''x64'', mf_nodeVersion = ''22'', mf_agentVersion = None\<rparr>"

definition sample_joined :: "channel_event list" where
  "sample_joined = [EvJoin ''j'' 0, EvRegister ''j'' sample_facts ''a'' ''T0'' 10,
     EvEnqueue ''a'' ''node.status'' ''{}'' 12, EvEnqueue ''b'' ''node.status'' ''{}'' 13, EvEnqueue ''a'' ''node.stop'' ''{}'' 14]"

definition sample_channel :: channel where
  "sample_channel = foldl (channel_step (\<lambda>t. t)) (init_channel empty_db) sample_joined"

definition sample_machine :: agent_machine_row where
  "sample_machine = \<lparr>mach_id = ''a'', mach_hostname = ''focal'', mach_os = ''linux'', mach_arch = ''x64'', mach_nodeVersion = ''22'',
     mach_tokenHash = ''T0'', mach_joinedAt = 10, mach_lastSeenAt = Some 10, mach_revokedAt = None,
     mach_prevTokenHash = None, mach_prevSetAt = None, mach_agentVersion = None\<rparr>"

definition sample_poll :: "channel \<times> poll_reply" where
  "sample_poll = poll_commands (\<lambda>t. t) sample_channel (Some ''T0'') ''a'' 0 20"

lemma commands_reply:
  assumes "case snd p of Commands cs \<Rightarrow> f cs = v | _ \<Rightarrow> False"
  shows "\<exists>s' cs. p = (s', Commands cs) \<and> f cs = v"
  using assms by (cases p) (auto split: poll_reply.splits)

lemma sample_poll_shape: "\<exists>s' cs. sample_poll = (s', Commands cs) \<and> map cmd_id cs = [1, 3]"
  by (rule commands_reply) code_simp

theorem commands_delivered_once_in_order_witness:
  "\<exists>s' cs. sample_poll = (s', Commands cs) \<and> map cmd_id cs = [1, 3] \<and> distinct (map snd (ch_claimed s'))"
proof -
  from sample_poll_shape obtain s' cs where p: "sample_poll = (s', Commands cs)" "map cmd_id cs = [1, 3]" by (elim exE conjE)
  note this(1) [unfolded sample_poll_def]
  from commands_delivered_once_in_order [OF sample_channel_def this, of "''a''"]
  have "distinct (map snd (ch_claimed s'))" by (elim conjE)
  with p show ?thesis by (intro exI conjI)
qed

theorem join_token_single_use_witness:
  "snd (register_agent (\<lambda>t. t) (foldl (channel_step (\<lambda>t. t)) (fst (issue_join (\<lambda>t. t) (init_channel empty_db) ''j'' 0)) [EvRegister ''x'' sample_facts ''b'' ''T1'' 5])
     ''j'' sample_facts ''a'' ''T0'' 899999) = Some (''a'', ''T0'') \<and>
   snd (register_agent (\<lambda>t. t) (foldl (channel_step (\<lambda>t. t)) (fst (issue_join (\<lambda>t. t) (init_channel empty_db) ''j'' 0)) [EvRegister ''x'' sample_facts ''b'' ''T1'' 5])
     ''j'' sample_facts ''a'' ''T0'' 900000) = None"
proof -
  have i: "issue_join (\<lambda>t. t) (init_channel empty_db) ''j'' 0 = (fst (issue_join (\<lambda>t. t) (init_channel empty_db) ''j'' 0), Some 900000)"
    by (simp add: issue_join_def init_channel_def empty_db_def JOIN_TOKEN_TTL_MS_def Let_def)
  have e: "list_all (\<lambda>e. \<not> registers_with (\<lambda>t. t) ''j'' e) [EvRegister ''x'' sample_facts ''b'' ''T1'' 5]" by (simp add: registers_with_def)
  note j = join_token_single_use [OF i e refl, THEN conjunct2, THEN conjunct1]
  show ?thesis using j [of sample_facts "''a''" "''T0''" 899999] j [of sample_facts "''a''" "''T0''" 900000] by (simp del: foldl.simps)
qed

lemma sample_holder: "holder {''T0'', ''T1'', ''T2''} (ch_db sample_channel) ''a'' sample_machine"
  by code_simp

definition sample_rotated :: "channel \<times> admin_reply" where
  "sample_rotated = rotate_agent (\<lambda>t. t) sample_channel ''a'' ''T1'' 30"

lemma sample_rotates: "rotate_agent (\<lambda>t. t) sample_channel ''a'' ''T1'' 30 = (fst sample_rotated, AdminOk (Some 4))"
  by (rule prod_eqI, simp add: sample_rotated_def, simp only: snd_conv, code_simp)

theorem rotation_keeps_machine_reachable_witness:
  "findAgentByToken (\<lambda>t. t) (ch_db (fst sample_rotated)) ''T1'' 40 = Some ''a'' \<and>
   findAgentByToken (\<lambda>t. t) (ch_db (fst sample_rotated)) ''T0'' 40 = Some ''a''"
proof -
  have r: "rotate_agent (\<lambda>t. t) sample_channel ''a'' ''T1'' 30 = (fst sample_rotated, AdminOk (Some 4))" by (rule sample_rotates)
  have "\<exists>s2 cs. poll_commands (\<lambda>t. t) (fst sample_rotated) (Some ''T0'') ''a'' 0 40 = (s2, Commands cs) \<and> map cmd_id cs = [1, 3, 4]"
    by (rule commands_reply) code_simp
  then obtain s2 cs where p: "poll_commands (\<lambda>t. t) (fst sample_rotated) (Some ''T0'') ''a'' 0 40 = (s2, Commands cs)" by blast
  have h: "holder {''T0'', ''T1''} (ch_db sample_channel) ''a'' sample_machine" by code_simp
  show ?thesis
    by (rule rotation_keeps_machine_reachable [OF sample_channel_def h _ _ _ _ _ _ r _ _ p surjective_pairing surjective_pairing, THEN conjunct1])
      (simp_all add: sample_machine_def machine_online_def AGENT_OFFLINE_MS_def ROTATION_GRACE_MS_def)
qed

theorem second_rotation_locks_out_witness:
  "findAgentByToken (\<lambda>t. t) (ch_db (fst (rotate_agent (\<lambda>t. t) (fst sample_rotated) ''a'' ''T2'' 31))) ''T0'' 40 = None"
proof -
  have r: "rotate_agent (\<lambda>t. t) sample_channel ''a'' ''T1'' 30 = (fst sample_rotated, AdminOk (Some 4))" by (rule sample_rotates)
  have r2: "rotate_agent (\<lambda>t. t) (fst sample_rotated) ''a'' ''T2'' 31 =
    (fst (rotate_agent (\<lambda>t. t) (fst sample_rotated) ''a'' ''T2'' 31), AdminOk (Some 5))"
    by (rule prod_eqI, simp, simp only: snd_conv, code_simp)
  show ?thesis
    by (rule second_rotation_locks_out [OF sample_holder _ _ _ _ _ _ r r2, THEN conjunct1])
      (simp_all add: sample_machine_def machine_online_def AGENT_OFFLINE_MS_def)
qed

end
