(* ===== verification/Runner.thy ===== *)
theory Runner
  imports Usage
begin

text \<open>
  One agent turn from end to end (\<^verbatim>\<open>src/runner.ts\<close>, \<^verbatim>\<open>src/runner/turn.ts\<close>, ADR-0001): the run row, the
  session, the subscription, the prompt, the live frames with their accounting, the timers, and the final state.

  \<^verbatim>\<open>runAgent\<close> is one asynchronous function.  Its state is a record: the turn state, the closure's counters and
  timers, the place where the function awaits (\<open>ru_pc\<close>) and what it has sent to the session
  driver.  An event is an answer of the driver, a frame, a timer or the caller's stop, each
  handled with everything that runs before the next await.  The driver, the clock, the git snapshots and
  the calendar of the price list are inputs.
\<close>

section \<open>Frames\<close>

datatype frame =
    Message "(string \<rightharpoonup> int) option" string
  | ToolCall
  | ToolResult
  | QuestionAsked "string option"
  | ApprovalPending "string option" "string option" "string option" "string option"
  | QuestionResolved "string option"
  | ApprovalResolved "string option" "string option"
  | TurnEnd "string option" "string option" "string option"
  | StreamReconnected
  | OtherFrame string

text \<open>A string that is present and not empty.\<close>

definition non_empty :: "string option \<Rightarrow> string option" where
  "non_empty x = (case x of None \<Rightarrow> None | Some s \<Rightarrow> if s = '''' then None else Some s)"

definition askIdOfFrame :: "frame \<Rightarrow> string option" where
  "askIdOfFrame f = (case f of
     QuestionAsked q \<Rightarrow> non_empty q | QuestionResolved q \<Rightarrow> non_empty q
   | ApprovalPending d _ _ _ \<Rightarrow> non_empty d | ApprovalResolved d _ \<Rightarrow> non_empty d
   | _ \<Rightarrow> None)"

text \<open>The id by which an ask frame is recognised as a repetition.\<close>

definition askIdOf :: "frame \<Rightarrow> string option" where
  "askIdOf f = (case f of QuestionAsked q \<Rightarrow> non_empty q | ApprovalPending d _ _ _ \<Rightarrow> non_empty d | _ \<Rightarrow> None)"

section \<open>State\<close>

record turn_state =
  ts_sessionId :: "id option"
  ts_provider :: "string option"
  ts_model :: "string option"
  ts_usage :: "token_usage option"
  ts_reason :: "string option"
  ts_toolCalls :: int
  ts_texts :: "string list"
  ts_accruedCost :: int
  ts_accruedPeakCost :: int
  ts_costKnown :: bool

definition newTurnState :: turn_state where
  "newTurnState = \<lparr>ts_sessionId = None, ts_provider = None, ts_model = None, ts_usage = None, ts_reason = None,
     ts_toolCalls = 0, ts_texts = [], ts_accruedCost = 0, ts_accruedPeakCost = 0, ts_costKnown = True\<rparr>"

record run_outcome =
  ro_state :: run_state
  ro_sessionId :: "id option"
  ro_summary :: string
  ro_usage :: "token_usage option"
  ro_cost :: "int option"
  ro_peakCost :: "int option"
  ro_provider :: "string option"
  ro_model :: "string option"
  ro_reason :: "string option"
  ro_error :: "string option"
  ro_toolCalls :: int
  ro_durationMs :: int
  ro_commit :: "string option"
  ro_conflict :: "string option"

text \<open>The input of a run, with what the driver of the agent's endpoint can do.\<close>

record run_input =
  ri_runId :: id
  ri_agentId :: id
  ri_provider :: "string option"
  ri_model :: "string option"
  ri_sandboxMode :: "string option"
  ri_trigger :: run_trigger
  ri_cronId :: "id option"
  ri_idempotencyKey :: "string option"
  ri_apiKeyId :: "id option"
  ri_timeoutMs :: int
  ri_silenceMs :: int
  ri_sessionId :: "id option"
  ri_chatId :: "id option"
  ri_sourceChatId :: "id option"
  ri_driverId :: string
  ri_canSelectModel :: bool
  ri_canSetSandbox :: bool
  ri_pricing :: pricing_table
  ri_weekday :: calendar

definition DEFAULT_TIMEOUT_MS :: int where "DEFAULT_TIMEOUT_MS = 15 * 60 * 1000"
definition DEFAULT_SILENCE_MS :: int where "DEFAULT_SILENCE_MS = 5 * 60 * 1000"
definition DEFAULT_OUTWARD_GRACE_MS :: int where "DEFAULT_OUTWARD_GRACE_MS = 30 * 1000"

text \<open>Where the function awaits.\<close>

datatype run_pc =
    AwaitBefore
  | AwaitCreate
  | AwaitModel bool
  | AwaitSandbox
  | AwaitOverride bool string
  | AwaitAsks
  | AwaitPrompt
  | AwaitTurn
  | Returned run_outcome
  | Ended run_outcome

record runner =
  ru_db :: db
  ru_startedAt :: time
  ru_baseline :: "string option"
  ru_turn :: turn_state
  ru_awaitingHuman :: int
  ru_toolsInFlight :: int
  ru_timer :: bool
  ru_silenceTimer :: bool
  ru_declines :: "(string \<times> frame) list"
  ru_declining :: "string list"
  ru_seenAskIds :: "string list"
  ru_stoppedByUser :: bool
  ru_silenced :: bool
  ru_aborted :: bool
  ru_abortHooked :: bool
  ru_subscribed :: bool
  ru_recovering :: nat
  ru_turnDone :: "run_outcome option"
  ru_finished :: "run_outcome option"
  ru_pc :: run_pc
  ru_relayed :: "frame list"
  ru_prompts :: nat
  ru_cancels :: nat

definition isOutward :: "run_input \<Rightarrow> bool" where
  "isOutward ri \<longleftrightarrow> ri_apiKeyId ri \<noteq> None"

section \<open>Timers\<close>

definition clearSilence :: "runner \<Rightarrow> runner" where
  "clearSilence r = r\<lparr>ru_silenceTimer := False\<rparr>"

definition clearDeclines :: "runner \<Rightarrow> runner" where
  "clearDeclines r = r\<lparr>ru_declines := []\<rparr>"

definition clearTimers :: "runner \<Rightarrow> runner" where
  "clearTimers r = clearDeclines (clearSilence (r\<lparr>ru_timer := False\<rparr>))"

definition armSilence :: "run_input \<Rightarrow> runner \<Rightarrow> runner" where
  "armSilence ri r =
     (if ri_silenceMs ri \<le> 0 then r
      else let r1 = clearSilence r
        in if (ru_awaitingHuman r1 > 0 \<or> ru_toolsInFlight r1 > 0) \<and> \<not> isOutward ri then r1
           else r1\<lparr>ru_silenceTimer := True\<rparr>)"

definition seconds :: "int \<Rightarrow> string" where
  "seconds ms = show_int (js_round (of_int ms / 1000))"

definition cancelledText :: "run_input \<Rightarrow> runner \<Rightarrow> string" where
  "cancelledText ri r =
     (if ru_stoppedByUser r then ''the turn was stopped by the user''
      else if ru_silenced r then ''nothing happened for '' @ seconds (ri_silenceMs ri) @ ''s, so the turn was cancelled. '' @
        ''A turn that goes quiet this long is usually waiting on something this side never saw -- '' @
        ''an interactive question or a permission prompt that went somewhere else. Ask again, and if it '' @
        ''keeps happening check the node's facade wiring (question/approval frames must reach the manager) '' @
        ''and the deployment's approval policy.''
      else ''no response within '' @ seconds (ri_timeoutMs ri) @ ''s; the turn was cancelled'')"

section \<open>The final state\<close>

definition SUMMARY_LIMIT :: nat where "SUMMARY_LIMIT = 4000"

definition truncate_text :: "string \<Rightarrow> string" where
  "truncate_text t =
     (if length t \<le> SUMMARY_LIMIT then t
      else take SUMMARY_LIMIT t @ [CHR 0x0A] @ ''[truncated '' @ show_nat (length t - SUMMARY_LIMIT) @ '' chars]'')"

fun join_lines :: "string list \<Rightarrow> string" where
  "join_lines [] = ''''"
| "join_lines [x] = x"
| "join_lines (x # y # ys) = x @ [CHR 0x0A] @ join_lines (y # ys)"

definition summary_of :: "turn_state \<Rightarrow> string" where
  "summary_of ts = truncate_text (js_trim (join_lines (ts_texts ts)))"

definition cost_of :: "turn_state \<Rightarrow> int option" where
  "cost_of ts = (if ts_usage ts = None \<or> \<not> ts_costKnown ts then None else Some (ts_accruedCost ts))"

definition peak_cost_of :: "turn_state \<Rightarrow> int option" where
  "peak_cost_of ts = (case cost_of ts of None \<Rightarrow> None | Some _ \<Rightarrow> Some (ts_accruedPeakCost ts))"

definition buildOutcome ::
    "turn_state \<Rightarrow> int \<Rightarrow> run_state \<Rightarrow> string option \<Rightarrow> token_usage option \<Rightarrow> int option \<Rightarrow> int option \<Rightarrow> run_outcome" where
  "buildOutcome ts duration st err usage cost peak =
     \<lparr>ro_state = st, ro_sessionId = ts_sessionId ts, ro_summary = summary_of ts, ro_usage = usage, ro_cost = cost,
      ro_peakCost = peak, ro_provider = ts_provider ts, ro_model = ts_model ts, ro_reason = ts_reason ts,
      ro_error = err, ro_toolCalls = ts_toolCalls ts, ro_durationMs = duration, ro_commit = None, ro_conflict = None\<rparr>"

definition update_run :: "id \<Rightarrow> (run_row \<Rightarrow> run_row) \<Rightarrow> db \<Rightarrow> db" where
  "update_run i f d = d\<lparr>db_runs := upd_where (\<lambda>r. run_id r = i) f (db_runs d)\<rparr>"

definition end_run :: "turn_state \<Rightarrow> time \<Rightarrow> run_state \<Rightarrow> string option \<Rightarrow> run_row \<Rightarrow> run_row" where
  "end_run ts now st err r = r\<lparr>run_state := st, run_dshSessionId := ts_sessionId ts,
     run_resultSummary := (if summary_of ts = '''' then None else Some (summary_of ts)),
     run_endedAt := Some now, run_error := err\<rparr>"

text \<open>\<^verbatim>\<open>usage_record.run_id\<close> references \<^verbatim>\<open>run\<close>: the insert throws when the run row is gone.\<close>

definition insert_usage :: "id \<Rightarrow> turn_state \<Rightarrow> token_usage \<Rightarrow> time \<Rightarrow> db \<Rightarrow> db option" where
  "insert_usage i ts u now d =
     (if i \<notin> run_id ` set (db_runs d) then None
      else Some (d\<lparr>db_usage := db_usage d @ [\<lparr>usage_id = db_nextUsage d, usage_runId = i, usage_provider = ts_provider ts,
          usage_model = ts_model ts, usage_inputTokens = tu_inputTokens u, usage_outputTokens = tu_outputTokens u,
          usage_cacheRead = tu_cacheReadTokens u, usage_cacheWrite = tu_cacheWriteTokens u,
          usage_reasoningTokens = tu_reasoningTokens u, usage_cost = cost_of ts, usage_peakCost = peak_cost_of ts,
          usage_at = now\<rparr>], db_nextUsage := db_nextUsage d + 1\<rparr>))"

text \<open>The accounting transaction; \<open>disk\<close> is the message of the exception its commit throws, if any.\<close>

definition account ::
    "string option \<Rightarrow> id \<Rightarrow> turn_state \<Rightarrow> run_state \<Rightarrow> string option \<Rightarrow> time \<Rightarrow> db \<Rightarrow> string + db" where
  "account disk i ts st err now d =
     (case (case ts_usage ts of None \<Rightarrow> Some d | Some u \<Rightarrow> insert_usage i ts u now d) of
        None \<Rightarrow> Inl ''FOREIGN KEY constraint failed''
      | Some d1 \<Rightarrow> (case disk of Some m \<Rightarrow> Inl m | None \<Rightarrow> Inr (update_run i (end_run ts now st err) d1)))"

definition accounting_text :: "string \<Rightarrow> string" where
  "accounting_text m = ''accounting failed, this usage may not have been recorded: '' @ m"

definition finish ::
    "run_input \<Rightarrow> run_state \<Rightarrow> string option \<Rightarrow> time \<Rightarrow> string option \<Rightarrow> runner \<Rightarrow> runner \<times> run_outcome" where
  "finish ri st err now disk r =
     (case ru_finished r of Some o1 \<Rightarrow> (r, o1)
      | None \<Rightarrow>
        (let r1 = clearTimers r; ts = ru_turn r1; dur = now - ru_startedAt r1
         in case account disk (ri_runId ri) ts st err now (ru_db r1) of
              Inr d \<Rightarrow>
                (let out = buildOutcome ts dur st err (ts_usage ts) (cost_of ts) (peak_cost_of ts)
                 in (r1\<lparr>ru_db := d, ru_finished := Some out\<rparr>, out))
            | Inl m \<Rightarrow>
                (let msg = (case err of None \<Rightarrow> accounting_text m | Some e \<Rightarrow> e @ ''; '' @ accounting_text m);
                     out = buildOutcome ts dur Failed (Some msg) None None None
                 in (r1\<lparr>ru_db := update_run (ri_runId ri) (end_run ts now Failed (Some msg)) (ru_db r1),
                        ru_finished := Some out\<rparr>, out))))"

section \<open>Frames of a running turn\<close>

definition or_empty :: "string option \<Rightarrow> string" where
  "or_empty x = (case x of None \<Rightarrow> '''' | Some s \<Rightarrow> s)"

text \<open>The approval registry: a repeated decision id is ignored.\<close>

definition recordPendingApproval :: "run_input \<Rightarrow> frame \<Rightarrow> time \<Rightarrow> db \<Rightarrow> db" where
  "recordPendingApproval ri f now d = (case f of
     ApprovalPending dec ap tool reason \<Rightarrow>
       (case non_empty dec of None \<Rightarrow> d
        | Some i \<Rightarrow> if i \<in> apq_id ` set (db_approvals d) then d
            else d\<lparr>db_approvals := db_approvals d @ [\<lparr>apq_id = i, apq_runId = ri_runId ri, apq_agentId = ri_agentId ri,
                apq_approvalId = (case non_empty ap of None \<Rightarrow> i | Some a \<Rightarrow> a), apq_toolName = or_empty tool,
                apq_reason = reason, apq_state = ApPending, apq_outcome = None, apq_createdAt = now,
                apq_resolvedAt = None\<rparr>]\<rparr>)
   | _ \<Rightarrow> d)"

definition resolveApproval :: "run_input \<Rightarrow> frame \<Rightarrow> time \<Rightarrow> db \<Rightarrow> db" where
  "resolveApproval ri f now d = (case f of
     ApprovalResolved dec out \<Rightarrow>
       (case non_empty dec of None \<Rightarrow> d
        | Some i \<Rightarrow> d\<lparr>db_approvals := upd_where (\<lambda>a. apq_id a = i \<and> apq_runId a = ri_runId ri)
            (\<lambda>a. a\<lparr>apq_state := ApResolved, apq_outcome := out, apq_resolvedAt := Some now\<rparr>) (db_approvals d)\<rparr>)
   | _ \<Rightarrow> d)"

definition scheduleAutoDecline :: "frame \<Rightarrow> runner \<Rightarrow> runner" where
  "scheduleAutoDecline f r = (case askIdOfFrame f of None \<Rightarrow> r
     | Some i \<Rightarrow> if i \<in> fst ` set (ru_declines r) then r else r\<lparr>ru_declines := ru_declines r @ [(i, f)]\<rparr>)"

definition cancelAutoDecline :: "frame \<Rightarrow> runner \<Rightarrow> runner" where
  "cancelAutoDecline f r = (case askIdOfFrame f of None \<Rightarrow> r
     | Some i \<Rightarrow> r\<lparr>ru_declines := filter (\<lambda>p. fst p \<noteq> i) (ru_declines r)\<rparr>)"

definition trackAwaiting :: "run_input \<Rightarrow> frame \<Rightarrow> time \<Rightarrow> runner \<Rightarrow> runner" where
  "trackAwaiting ri f now r = (case f of
     ToolCall \<Rightarrow> r\<lparr>ru_toolsInFlight := ru_toolsInFlight r + 1\<rparr>
   | ToolResult \<Rightarrow> r\<lparr>ru_toolsInFlight := max 0 (ru_toolsInFlight r - 1)\<rparr>
   | QuestionAsked _ \<Rightarrow>
       (let r1 = r\<lparr>ru_awaitingHuman := ru_awaitingHuman r + 1\<rparr>
        in if isOutward ri then scheduleAutoDecline f r1 else r1)
   | ApprovalPending _ _ _ _ \<Rightarrow>
       (let r1 = r\<lparr>ru_awaitingHuman := ru_awaitingHuman r + 1, ru_db := recordPendingApproval ri f now (ru_db r)\<rparr>
        in if isOutward ri then scheduleAutoDecline f r1 else r1)
   | QuestionResolved _ \<Rightarrow>
       (let r1 = r\<lparr>ru_awaitingHuman := max 0 (ru_awaitingHuman r - 1)\<rparr>
        in if isOutward ri then cancelAutoDecline f r1 else r1)
   | ApprovalResolved _ _ \<Rightarrow>
       (let r1 = r\<lparr>ru_awaitingHuman := max 0 (ru_awaitingHuman r - 1), ru_db := resolveApproval ri f now (ru_db r)\<rparr>
        in if isOutward ri then cancelAutoDecline f r1 else r1)
   | TurnEnd _ _ _ \<Rightarrow> clearDeclines (r\<lparr>ru_awaitingHuman := 0, ru_toolsInFlight := 0\<rparr>)
   | _ \<Rightarrow> r)"

definition endFromTurnEnd :: "string option \<Rightarrow> string option \<Rightarrow> string option \<Rightarrow> run_state \<times> string option" where
  "endFromTurnEnd reason message cause =
     (if reason = Some ''error''
      then (Failed, Some (case message of None \<Rightarrow> ''the turn ended with an error'' | Some m \<Rightarrow> m))
      else if reason = Some ''aborted''
      then (Failed, Some (''the turn was aborted ('' @ (case cause of None \<Rightarrow> ''unknown cause'' | Some c \<Rightarrow> c) @ '')''))
      else (Done, None))"

text \<open>A response is priced when it lands.\<close>

definition price_response :: "run_input \<Rightarrow> token_usage option \<Rightarrow> time \<Rightarrow> turn_state \<Rightarrow> turn_state" where
  "price_response ri u now ts =
     (let ts1 = ts\<lparr>ts_usage := sumUsage (ts_usage ts) u\<rparr>
      in case u of None \<Rightarrow> ts1
         | Some _ \<Rightarrow>
           (case computeCost (ri_weekday ri) u (ts_provider ts1) (ts_model ts1) now (ri_pricing ri) of
              None \<Rightarrow> ts1\<lparr>ts_costKnown := False\<rparr>
            | Some c \<Rightarrow> ts1\<lparr>ts_accruedCost := ts_accruedCost ts1 + cb_microUsd c,
                ts_accruedPeakCost := (if cb_peak c then ts_accruedPeakCost ts1 + cb_microUsd c else ts_accruedPeakCost ts1)\<rparr>))"

datatype frame_result = Continue | EndTurn run_state "string option"

definition turn_frame :: "run_input \<Rightarrow> frame \<Rightarrow> time \<Rightarrow> turn_state \<Rightarrow> turn_state \<times> frame_result" where
  "turn_frame ri f now ts = (case f of
     Message raw text' \<Rightarrow>
       (let ts1 = price_response ri (normalizeUsage raw) now ts
        in (if text' = '''' then ts1 else ts1\<lparr>ts_texts := ts_texts ts1 @ [text']\<rparr>, Continue))
   | ToolCall \<Rightarrow> (ts\<lparr>ts_toolCalls := ts_toolCalls ts + 1\<rparr>, Continue)
   | TurnEnd reason message cause \<Rightarrow>
       (ts\<lparr>ts_reason := Some (case reason of None \<Rightarrow> ''unknown'' | Some x \<Rightarrow> x)\<rparr>,
        case endFromTurnEnd reason message cause of (st, err) \<Rightarrow> EndTurn st err)
   | _ \<Rightarrow> (ts, Continue))"

definition handleTurnFrame :: "run_input \<Rightarrow> frame \<Rightarrow> time \<Rightarrow> runner \<Rightarrow> runner \<times> frame_result" where
  "handleTurnFrame ri f now r =
     (let r1 = armSilence ri (trackAwaiting ri f now r);
          r2 = r1\<lparr>ru_relayed := ru_relayed r1 @ [f]\<rparr>
      in case turn_frame ri f now (ru_turn r2) of (ts, res) \<Rightarrow> (r2\<lparr>ru_turn := ts\<rparr>, res))"

text \<open>A repeated ask frame is dropped; otherwise its id is remembered.\<close>

definition seen_before :: "frame \<Rightarrow> runner \<Rightarrow> bool" where
  "seen_before f r = (case askIdOf f of None \<Rightarrow> False | Some i \<Rightarrow> i \<in> set (ru_seenAskIds r))"

definition note_ask :: "frame \<Rightarrow> runner \<Rightarrow> runner" where
  "note_ask f r = (case askIdOf f of None \<Rightarrow> r | Some i \<Rightarrow> r\<lparr>ru_seenAskIds := ru_seenAskIds r @ [i]\<rparr>)"

definition processRecoveredAsk :: "run_input \<Rightarrow> time \<Rightarrow> runner \<Rightarrow> frame \<Rightarrow> runner" where
  "processRecoveredAsk ri now r f =
     (if seen_before f r then r else fst (handleTurnFrame ri f now (note_ask f r)))"

section \<open>Ending and cancelling\<close>

text \<open>\<^verbatim>\<open>driveTurn\<close> returns; its \<^verbatim>\<open>finally\<close> drops the subscription.\<close>

definition return_from :: "run_outcome \<Rightarrow> runner \<Rightarrow> runner" where
  "return_from out r = r\<lparr>ru_pc := Returned out, ru_subscribed := False\<rparr>"

definition resolve_turn :: "run_outcome \<Rightarrow> runner \<Rightarrow> runner" where
  "resolve_turn out r =
     (let out' = (case ru_turnDone r of None \<Rightarrow> out | Some o1 \<Rightarrow> o1); r1 = r\<lparr>ru_turnDone := Some out'\<rparr>
      in if ru_pc r = AwaitTurn then return_from out' r1 else r1)"

definition finish_turn ::
    "run_input \<Rightarrow> run_state \<Rightarrow> string option \<Rightarrow> time \<Rightarrow> string option \<Rightarrow> runner \<Rightarrow> runner" where
  "finish_turn ri st err now disk r = (case finish ri st err now disk r of (r1, out) \<Rightarrow> resolve_turn out r1)"

definition finish_return ::
    "run_input \<Rightarrow> run_state \<Rightarrow> string option \<Rightarrow> time \<Rightarrow> string option \<Rightarrow> runner \<Rightarrow> runner" where
  "finish_return ri st err now disk r = (case finish ri st err now disk r of (r1, out) \<Rightarrow> return_from out r1)"

text \<open>The abort listener of the turn.\<close>

definition abortTurn :: "run_input \<Rightarrow> time \<Rightarrow> string option \<Rightarrow> runner \<Rightarrow> runner" where
  "abortTurn ri now disk r =
     (let r1 = r\<lparr>ru_subscribed := False, ru_cancels := ru_cancels r + 1\<rparr>
      in finish_turn ri Failed (Some (cancelledText ri r1)) now disk r1)"

definition controller_abort :: "run_input \<Rightarrow> time \<Rightarrow> string option \<Rightarrow> runner \<Rightarrow> runner" where
  "controller_abort ri now disk r =
     (if ru_aborted r then r
      else let r1 = r\<lparr>ru_aborted := True\<rparr>
        in if ru_abortHooked r1 then abortTurn ri now disk r1 else r1)"

text \<open>The \<^verbatim>\<open>catch\<close> of \<^verbatim>\<open>driveTurn\<close>.\<close>

definition drive_throws :: "run_input \<Rightarrow> string \<Rightarrow> time \<Rightarrow> string option \<Rightarrow> runner \<Rightarrow> runner" where
  "drive_throws ri msg now disk r =
     finish_return ri Failed (Some (if ru_aborted r then cancelledText ri r else msg)) now disk r"

section \<open>The way to the prompt\<close>

definition wait_turn :: "runner \<Rightarrow> runner" where
  "wait_turn r = (case ru_turnDone r of None \<Rightarrow> r\<lparr>ru_pc := AwaitTurn\<rparr> | Some out \<Rightarrow> return_from out r)"

text \<open>The session id goes to the run row, the frames are subscribed to, then the abort listener is set.\<close>

definition subscribe_turn :: "run_input \<Rightarrow> time \<Rightarrow> string option \<Rightarrow> runner \<Rightarrow> runner" where
  "subscribe_turn ri now disk r =
     (let r1 = r\<lparr>ru_db := update_run (ri_runId ri) (\<lambda>q. q\<lparr>run_dshSessionId := ts_sessionId (ru_turn r)\<rparr>) (ru_db r),
                 ru_subscribed := True, ru_pc := AwaitAsks\<rparr>
      in if ru_aborted r1 then abortTurn ri now disk r1 else r1\<lparr>ru_abortHooked := True\<rparr>)"

definition access_modes :: "string list" where
  "access_modes = [''read-only'', ''workspace-write'', ''danger-full-access'']"

definition pending_override :: "run_input \<Rightarrow> db \<Rightarrow> string option" where
  "pending_override ri d =
     (case ri_chatId ri of None \<Rightarrow> None
      | Some c \<Rightarrow> (case first_row (\<lambda>q. chat_id q = c) (db_chats d) of None \<Rightarrow> None
          | Some row \<Rightarrow> (case chat_accessModeOverride row of None \<Rightarrow> None
              | Some m \<Rightarrow> if m \<in> set access_modes then Some m else None)))"

definition clear_override :: "run_input \<Rightarrow> db \<Rightarrow> db" where
  "clear_override ri d = d\<lparr>db_chats := upd_where (\<lambda>q. Some (chat_id q) = ri_chatId ri)
     (\<lambda>q. q\<lparr>chat_accessModeOverride := None\<rparr>) (db_chats d)\<rparr>"

definition after_override :: "run_input \<Rightarrow> bool \<Rightarrow> time \<Rightarrow> string option \<Rightarrow> runner \<Rightarrow> runner" where
  "after_override ri created now disk r = (if created then subscribe_turn ri now disk r else wait_turn r)"

definition applyAccessOverride :: "run_input \<Rightarrow> bool \<Rightarrow> time \<Rightarrow> string option \<Rightarrow> runner \<Rightarrow> runner" where
  "applyAccessOverride ri created now disk r =
     (case pending_override ri (ru_db r) of None \<Rightarrow> after_override ri created now disk r
      | Some mode \<Rightarrow> if ri_canSetSandbox ri then r\<lparr>ru_pc := AwaitOverride created mode\<rparr>
          else after_override ri created now disk (r\<lparr>ru_db := clear_override ri (ru_db r)\<rparr>))"

definition after_model :: "run_input \<Rightarrow> bool \<Rightarrow> time \<Rightarrow> string option \<Rightarrow> runner \<Rightarrow> runner" where
  "after_model ri created now disk r =
     (if \<not> created then subscribe_turn ri now disk r
      else if ri_sandboxMode ri \<noteq> None \<and> ri_canSetSandbox ri then r\<lparr>ru_pc := AwaitSandbox\<rparr>
      else applyAccessOverride ri True now disk r)"

definition pin_name :: "string option \<Rightarrow> string" where
  "pin_name x = (case x of None \<Rightarrow> ''none'' | Some s \<Rightarrow> s)"

definition settleTurnModel ::
    "run_input \<Rightarrow> bool \<Rightarrow> string option \<Rightarrow> string option \<Rightarrow> time \<Rightarrow> string option \<Rightarrow> runner \<Rightarrow> runner" where
  "settleTurnModel ri created hostProvider hostModel now disk r =
     (case (ri_provider ri, ri_model ri) of
        (None, None) \<Rightarrow> after_model ri created now disk
           (r\<lparr>ru_turn := (ru_turn r)\<lparr>ts_provider := hostProvider, ts_model := hostModel\<rparr>\<rparr>)
      | (Some p, Some m) \<Rightarrow>
          if \<not> ri_canSelectModel ri
          then drive_throws ri (''agent '' @ ri_agentId ri @ '' pins '' @ p @ ''/'' @ m @ '' but driver '' @
                 ri_driverId ri @ '' cannot select a model'') now disk r
          else r\<lparr>ru_pc := AwaitModel created\<rparr>
      | (p, m) \<Rightarrow> drive_throws ri (''agent '' @ ri_agentId ri @ '': provider and model must be set together (got provider='' @
                 pin_name p @ '', model='' @ pin_name m @ '')'') now disk r)"

definition begin_drive :: "run_input \<Rightarrow> time \<Rightarrow> string option \<Rightarrow> runner \<Rightarrow> runner" where
  "begin_drive ri now disk r =
     (case ri_sessionId ri of None \<Rightarrow> r\<lparr>ru_pc := AwaitCreate\<rparr>
      | Some sid \<Rightarrow> settleTurnModel ri False None None now disk (r\<lparr>ru_turn := (ru_turn r)\<lparr>ts_sessionId := Some sid\<rparr>\<rparr>))"

definition send_prompt :: "run_input \<Rightarrow> runner \<Rightarrow> runner" where
  "send_prompt ri r = (armSilence ri r)\<lparr>ru_prompts := ru_prompts r + 1, ru_pc := AwaitPrompt\<rparr>"

section \<open>Start and settlement\<close>

definition start_run :: "run_input \<Rightarrow> bool \<Rightarrow> time \<Rightarrow> db \<Rightarrow> runner option" where
  "start_run ri aborted now d =
     map_option (\<lambda>d1. \<lparr>ru_db = d1, ru_startedAt = now, ru_baseline = None, ru_turn = newTurnState, ru_awaitingHuman = 0,
         ru_toolsInFlight = 0, ru_timer = True, ru_silenceTimer = False, ru_declines = [], ru_declining = [],
         ru_seenAskIds = [], ru_stoppedByUser = aborted, ru_silenced = False, ru_aborted = aborted,
         ru_abortHooked = False, ru_subscribed = False, ru_recovering = 0, ru_turnDone = None, ru_finished = None,
         ru_pc = AwaitBefore, ru_relayed = [], ru_prompts = 0, ru_cancels = 0\<rparr>)
       (insert_run d \<lparr>run_id = ri_runId ri, run_agentId = ri_agentId ri, run_apiKeyId = ri_apiKeyId ri,
          run_chatId = ri_chatId ri, run_sourceChatId = ri_sourceChatId ri, run_conflict = None,
          run_cronId = ri_cronId ri, run_dshSessionId = ri_sessionId ri, run_trigger = ri_trigger ri,
          run_idempotencyKey = ri_idempotencyKey ri, run_state = Running, run_resultSummary = None,
          run_startedAt = now, run_endedAt = None, run_error = None, run_commitHash = None\<rparr>)"

definition conflict_text :: "string \<Rightarrow> string \<Rightarrow> string" where
  "conflict_text before now' = ''concurrent change: the workspace was committed by another turn while this one ran (HEAD '' @
     take 8 before @ [CHR '' '', CHR 0xE2, CHR 0x86, CHR 0x92, CHR '' ''] @ take 8 now' @
     ''); this turn worked from the older state''"

text \<open>After the turn: the conflict check and the closing commit, under the commit lock.\<close>

definition settle_run :: "run_input \<Rightarrow> string option \<Rightarrow> string option \<Rightarrow> run_outcome \<Rightarrow> runner \<Rightarrow> runner" where
  "settle_run ri headNow commit out r =
     (let d1 = (case (ru_baseline r, headNow) of
                  (Some b, Some h) \<Rightarrow> if b \<noteq> h then update_run (ri_runId ri) (\<lambda>q. q\<lparr>run_conflict := Some (conflict_text b h)\<rparr>) (ru_db r)
                                      else ru_db r
                | _ \<Rightarrow> ru_db r);
          d2 = (case commit of None \<Rightarrow> d1 | Some c \<Rightarrow> update_run (ri_runId ri) (\<lambda>q. q\<lparr>run_commitHash := Some c\<rparr>) d1)
      in r\<lparr>ru_db := d2, ru_pc := Ended (out\<lparr>ro_commit := commit,
            ro_conflict := (case first_row (\<lambda>q. run_id q = ri_runId ri) (db_runs d2) of None \<Rightarrow> None | Some q \<Rightarrow> run_conflict q)\<rparr>)\<rparr>)"

section \<open>The registry of active runs\<close>

text \<open>Per agent the set of its runs in progress, in insertion order; an empty set has no entry.\<close>

type_synonym active_runs = "id \<rightharpoonup> id list"

definition active_add :: "id \<Rightarrow> id \<Rightarrow> active_runs \<Rightarrow> active_runs" where
  "active_add a i m = m(a \<mapsto> (case m a of None \<Rightarrow> [] | Some s \<Rightarrow> s) @ [i])"

definition active_delete :: "id \<Rightarrow> id \<Rightarrow> active_runs \<Rightarrow> active_runs" where
  "active_delete a i m = (case m a of None \<Rightarrow> m
     | Some s \<Rightarrow> (let s1 = removeAll i s in m(a := if s1 = [] then None else Some s1)))"

definition runningRunId :: "active_runs \<Rightarrow> id \<Rightarrow> id option" where
  "runningRunId m a = (case m a of None \<Rightarrow> None | Some [] \<Rightarrow> None | Some (i # _) \<Rightarrow> Some i)"

definition activeRunCount :: "active_runs \<Rightarrow> id \<Rightarrow> nat" where
  "activeRunCount m a = (case m a of None \<Rightarrow> 0 | Some s \<Rightarrow> length s)"

lemma active_round:
  assumes "m a \<noteq> Some []" and "\<And>s. m a = Some s \<Longrightarrow> i \<notin> set s"
  shows "active_delete a i (active_add a i m) = m" and "activeRunCount (active_add a i m) a = activeRunCount m a + 1"
  using assms by (auto simp: active_delete_def active_add_def activeRunCount_def Let_def fun_eq_iff removeAll_id split: option.splits)

section \<open>The events\<close>

datatype run_event =
    EvBefore "string option"
  | EvCreated "string + (id \<times> string option \<times> string option)"
  | EvModel "string + (string option \<times> string option)"
  | EvSandbox "string option"
  | EvOverride "string option"
  | EvAsks "frame list option"
  | EvPrompt "string + bool"
  | EvFrame frame
  | EvRecovered "frame list option"
  | EvStop
  | EvTimeout
  | EvSilence
  | EvDecline string
  | EvDeclined string bool
  | EvSettled "string option" "string option"

definition or_nil :: "frame list option \<Rightarrow> frame list" where
  "or_nil x = (case x of None \<Rightarrow> [] | Some fs \<Rightarrow> fs)"

text \<open>A live frame, only while subscribed.\<close>

definition live_frame :: "run_input \<Rightarrow> frame \<Rightarrow> time \<Rightarrow> string option \<Rightarrow> runner \<Rightarrow> runner" where
  "live_frame ri f now disk r =
     (if \<not> ru_subscribed r \<or> seen_before f r then r
      else (case handleTurnFrame ri f now (note_ask f r) of
              (r1, EndTurn st err) \<Rightarrow> finish_turn ri st err now disk (r1\<lparr>ru_subscribed := False\<rparr>)
            | (r1, Continue) \<Rightarrow>
                (case f of StreamReconnected \<Rightarrow> r1\<lparr>ru_recovering := ru_recovering r1 + 1\<rparr> | _ \<Rightarrow> r1)))"

definition reconnect_text :: string where
  "reconnect_text = ''upstream stream reconnected mid-turn: outcome unknown (the turn may have completed); check the session history''"

text \<open>The answer of the recovery channel after a reconnect.\<close>

definition recovered :: "run_input \<Rightarrow> frame list option \<Rightarrow> time \<Rightarrow> string option \<Rightarrow> runner \<Rightarrow> runner" where
  "recovered ri asks now disk r =
     (if ru_recovering r = 0 then r
      else let r1 = foldl (processRecoveredAsk ri now) (r\<lparr>ru_recovering := ru_recovering r - 1\<rparr>) (or_nil asks)
        in if ru_awaitingHuman r1 > 0 then r1
           else finish_turn ri Failed (Some reconnect_text) now disk (r1\<lparr>ru_subscribed := False\<rparr>))"

text \<open>A frame whose grace window has passed; the decline is sent when it carries the ids it needs.\<close>

definition decline_due :: "string \<Rightarrow> runner \<Rightarrow> runner" where
  "decline_due i r =
     (case map_of (ru_declines r) i of None \<Rightarrow> r
      | Some f \<Rightarrow>
        (let r1 = r\<lparr>ru_declines := filter (\<lambda>p. fst p \<noteq> i) (ru_declines r)\<rparr>
         in case f of QuestionAsked (Some _) \<Rightarrow> r1\<lparr>ru_declining := ru_declining r1 @ [i]\<rparr>
            | ApprovalPending (Some _) (Some _) _ _ \<Rightarrow> r1\<lparr>ru_declining := ru_declining r1 @ [i]\<rparr>
            | _ \<Rightarrow> r1))"

definition declined :: "run_input \<Rightarrow> string \<Rightarrow> bool \<Rightarrow> runner \<Rightarrow> runner" where
  "declined ri i accepted r =
     (if i \<notin> set (ru_declining r) then r
      else let r1 = r\<lparr>ru_declining := remove1 i (ru_declining r)\<rparr>
        in if accepted then armSilence ri (r1\<lparr>ru_awaitingHuman := max 0 (ru_awaitingHuman r1 - 1)\<rparr>) else r1)"

definition run_step :: "run_input \<Rightarrow> runner \<Rightarrow> (time \<times> string option) \<times> run_event \<Rightarrow> runner" where
  "run_step ri r te = (case te of ((now, disk), e) \<Rightarrow>
     (case (e, ru_pc r) of
        (EvBefore base, AwaitBefore) \<Rightarrow> begin_drive ri now disk (r\<lparr>ru_baseline := base\<rparr>)
      | (EvCreated (Inl msg), AwaitCreate) \<Rightarrow> drive_throws ri msg now disk r
      | (EvCreated (Inr (sid, p, m)), AwaitCreate) \<Rightarrow>
          settleTurnModel ri True p m now disk (r\<lparr>ru_turn := (ru_turn r)\<lparr>ts_sessionId := Some sid\<rparr>\<rparr>)
      | (EvModel (Inl msg), AwaitModel _) \<Rightarrow> drive_throws ri msg now disk r
      | (EvModel (Inr (p, m)), AwaitModel created) \<Rightarrow>
          after_model ri created now disk (r\<lparr>ru_turn := (ru_turn r)\<lparr>ts_provider := p, ts_model := m\<rparr>\<rparr>)
      | (EvSandbox (Some msg), AwaitSandbox) \<Rightarrow> drive_throws ri msg now disk r
      | (EvSandbox None, AwaitSandbox) \<Rightarrow> applyAccessOverride ri True now disk r
      | (EvOverride (Some _), AwaitOverride created _) \<Rightarrow> after_override ri created now disk r
      | (EvOverride None, AwaitOverride created _) \<Rightarrow>
          after_override ri created now disk (r\<lparr>ru_db := clear_override ri (ru_db r)\<rparr>)
      | (EvAsks asks, AwaitAsks) \<Rightarrow> send_prompt ri (foldl (processRecoveredAsk ri now) r (or_nil asks))
      | (EvPrompt (Inl msg), AwaitPrompt) \<Rightarrow> drive_throws ri msg now disk r
      | (EvPrompt (Inr accepted), AwaitPrompt) \<Rightarrow>
          if accepted then applyAccessOverride ri False now disk r
          else finish_return ri Failed (Some ''the prompt was not accepted by the upstream'') now disk r
      | (EvFrame f, _) \<Rightarrow> live_frame ri f now disk r
      | (EvRecovered asks, _) \<Rightarrow> recovered ri asks now disk r
      | (EvStop, Ended _) \<Rightarrow> r
      | (EvStop, _) \<Rightarrow> controller_abort ri now disk (r\<lparr>ru_stoppedByUser := True\<rparr>)
      | (EvTimeout, _) \<Rightarrow> if ru_timer r then controller_abort ri now disk (r\<lparr>ru_timer := False\<rparr>) else r
      | (EvSilence, _) \<Rightarrow>
          if ru_silenceTimer r then controller_abort ri now disk (r\<lparr>ru_silenceTimer := False, ru_silenced := True\<rparr>) else r
      | (EvDecline i, _) \<Rightarrow> decline_due i r
      | (EvDeclined i accepted, _) \<Rightarrow> declined ri i accepted r
      | (EvSettled headNow commit, Returned out) \<Rightarrow> settle_run ri headNow commit out r
      | _ \<Rightarrow> r))"

section \<open>The books of a run\<close>

definition frame_usage :: "frame \<Rightarrow> token_usage option" where
  "frame_usage f = (case f of Message raw _ \<Rightarrow> normalizeUsage raw | _ \<Rightarrow> None)"

definition usage_of :: "frame list \<Rightarrow> token_usage option" where
  "usage_of fs = foldl sumUsage None (map frame_usage fs)"

lemma sumUsage_None [simp]: "sumUsage u None = u"
  by (simp add: sumUsage_def)

lemma usage_of_snoc: "usage_of (fs @ [f]) = sumUsage (usage_of fs) (frame_usage f)"
  by (simp add: usage_of_def)

definition books_usage :: "id \<Rightarrow> run_outcome \<Rightarrow> usage_row list \<Rightarrow> bool" where
  "books_usage i out us \<longleftrightarrow> (case ro_usage out of None \<Rightarrow> us = []
     | Some u \<Rightarrow> \<exists>x. us = [x] \<and> usage_inputTokens x = tu_inputTokens u \<and> usage_outputTokens x = tu_outputTokens u \<and>
         usage_cacheRead x = tu_cacheReadTokens u \<and> usage_cacheWrite x = tu_cacheWriteTokens u \<and>
         usage_reasoningTokens x = tu_reasoningTokens u \<and> usage_cost x = ro_cost out \<and> usage_peakCost x = ro_peakCost out \<and>
         usage_provider x = ro_provider out \<and> usage_model x = ro_model out)"

text \<open>
  The run has one row; before the end it is running and nothing is billed, after the end the row, the
  outcome and the usage record say the same, and what was billed is the sum over the live frames.
\<close>

definition books_ok :: "id \<Rightarrow> db \<Rightarrow> run_outcome option \<Rightarrow> frame list \<Rightarrow> token_usage option \<Rightarrow> bool" where
  "books_ok i d fin fs u \<longleftrightarrow> u = usage_of fs \<and>
     (\<exists>row. filter (\<lambda>q. run_id q = i) (db_runs d) = [row] \<and>
       (case fin of
          None \<Rightarrow> run_state row = Running \<and> run_endedAt row = None \<and> filter (\<lambda>x. usage_runId x = i) (db_usage d) = []
        | Some out \<Rightarrow> run_state row = ro_state out \<and> run_endedAt row \<noteq> None \<and> run_error row = ro_error out \<and>
            books_usage i out (filter (\<lambda>x. usage_runId x = i) (db_usage d)) \<and>
            (ro_usage out = usage_of fs \<or> ro_state out = Failed \<and> ro_usage out = None)))"

definition books :: "run_input \<Rightarrow> runner \<Rightarrow> bool" where
  "books ri r \<longleftrightarrow> books_ok (ri_runId ri) (ru_db r) (ru_finished r) (ru_relayed r) (ts_usage (ru_turn r))"

lemma books_cong:
  assumes "db_runs (ru_db r') = db_runs (ru_db r)" "db_usage (ru_db r') = db_usage (ru_db r)"
    and "ru_finished r' = ru_finished r" "ru_relayed r' = ru_relayed r" "ts_usage (ru_turn r') = ts_usage (ru_turn r)"
  shows "books ri r' = books ri r"
  unfolding books_def books_ok_def assms ..

lemma filter_update_run:
  assumes "\<And>q. run_id (f q) = run_id q"
  shows "filter (\<lambda>q. run_id q = i) (db_runs (update_run i f d)) = map f (filter (\<lambda>q. run_id q = i) (db_runs d))"
proof -
  have "filter (\<lambda>q. run_id q = i) (upd_where (\<lambda>r. run_id r = i) f xs) = map f (filter (\<lambda>q. run_id q = i) xs)" for xs
    using assms by (induction xs) auto
  then show ?thesis by (simp add: update_run_def)
qed

lemma update_run_usage [simp]: "db_usage (update_run i f d) = db_usage d"
  by (simp add: update_run_def)

lemma books_update_run:
  assumes "books ri r" and "\<And>q. run_id (f q) = run_id q" "\<And>q. run_state (f q) = run_state q"
    and "\<And>q. run_endedAt (f q) = run_endedAt q" "\<And>q. run_error (f q) = run_error q"
  shows "books ri (r\<lparr>ru_db := update_run (ri_runId ri) f (ru_db r)\<rparr>)"
  using assms by (auto simp: books_def books_ok_def filter_update_run split: option.splits)

text \<open>What the handling of a frame leaves alone.\<close>

lemma timers_frame [simp]:
  "ru_db (armSilence ri r) = ru_db r" "ru_finished (armSilence ri r) = ru_finished r"
  "ru_relayed (armSilence ri r) = ru_relayed r" "ru_turn (armSilence ri r) = ru_turn r"
  "ru_pc (armSilence ri r) = ru_pc r" "ru_timer (armSilence ri r) = ru_timer r"
  "ru_aborted (armSilence ri r) = ru_aborted r" "ru_abortHooked (armSilence ri r) = ru_abortHooked r"
  "ru_subscribed (armSilence ri r) = ru_subscribed r" "ru_turnDone (armSilence ri r) = ru_turnDone r"
  "ru_awaitingHuman (armSilence ri r) = ru_awaitingHuman r" "ru_toolsInFlight (armSilence ri r) = ru_toolsInFlight r"
  "ru_recovering (armSilence ri r) = ru_recovering r" "ru_prompts (armSilence ri r) = ru_prompts r"
  "ru_cancels (armSilence ri r) = ru_cancels r" "ru_seenAskIds (armSilence ri r) = ru_seenAskIds r"
  by (simp_all add: armSilence_def clearSilence_def Let_def)

lemma approvals_frame [simp]:
  "db_runs (recordPendingApproval ri f now d) = db_runs d" "db_usage (recordPendingApproval ri f now d) = db_usage d"
  "db_runs (resolveApproval ri f now d) = db_runs d" "db_usage (resolveApproval ri f now d) = db_usage d"
  by (auto simp: recordPendingApproval_def resolveApproval_def split: frame.splits option.splits)

lemma declines_frame:
  "\<exists>x. scheduleAutoDecline f r = r\<lparr>ru_declines := x\<rparr>" "\<exists>x. cancelAutoDecline f r = r\<lparr>ru_declines := x\<rparr>"
  by (auto simp: scheduleAutoDecline_def cancelAutoDecline_def split: option.splits intro: exI [of _ "ru_declines r"])

text \<open>A selector that the declines do not touch.\<close>

lemma trackAwaiting_keeps:
  assumes "\<And>q x. g (q\<lparr>ru_declines := x\<rparr>) = g q" "\<And>q x. g (q\<lparr>ru_awaitingHuman := x\<rparr>) = g q"
    and "\<And>q x. g (q\<lparr>ru_toolsInFlight := x\<rparr>) = g q"
    and "\<And>q d. db_runs d = db_runs (ru_db q) \<Longrightarrow> db_usage d = db_usage (ru_db q) \<Longrightarrow> g (q\<lparr>ru_db := d\<rparr>) = g q"
  shows "g (trackAwaiting ri f now r) = g r"
proof -
  have s: "g (scheduleAutoDecline f' q) = g q" "g (cancelAutoDecline f' q) = g q" for f' q
    using declines_frame [of f' q] assms(1) by metis+
  have d: "g (q\<lparr>ru_awaitingHuman := x, ru_db := d\<rparr>) = g q"
    if "db_runs d = db_runs (ru_db q)" "db_usage d = db_usage (ru_db q)" for q x d
    using assms(4) [where d = d and q = "q\<lparr>ru_awaitingHuman := x\<rparr>"] assms(2) [where q = q and x = x] that by simp
  show ?thesis
    by (cases f) (auto simp: trackAwaiting_def Let_def clearDeclines_def s d assms(1-3))
qed

lemma trackAwaiting_frame [simp]:
  "ru_finished (trackAwaiting ri f now r) = ru_finished r" "ru_relayed (trackAwaiting ri f now r) = ru_relayed r"
  "ru_turn (trackAwaiting ri f now r) = ru_turn r" "ru_pc (trackAwaiting ri f now r) = ru_pc r"
  "ru_timer (trackAwaiting ri f now r) = ru_timer r" "ru_aborted (trackAwaiting ri f now r) = ru_aborted r"
  "ru_abortHooked (trackAwaiting ri f now r) = ru_abortHooked r" "ru_subscribed (trackAwaiting ri f now r) = ru_subscribed r"
  "ru_turnDone (trackAwaiting ri f now r) = ru_turnDone r" "ru_recovering (trackAwaiting ri f now r) = ru_recovering r"
  "ru_prompts (trackAwaiting ri f now r) = ru_prompts r" "ru_cancels (trackAwaiting ri f now r) = ru_cancels r"
  "db_runs (ru_db (trackAwaiting ri f now r)) = db_runs (ru_db r)" "db_usage (ru_db (trackAwaiting ri f now r)) = db_usage (ru_db r)"
  by (rule trackAwaiting_keeps; simp)+

lemma note_ask_frame [simp]:
  "ru_finished (note_ask f r) = ru_finished r" "ru_relayed (note_ask f r) = ru_relayed r" "ru_turn (note_ask f r) = ru_turn r"
  "ru_pc (note_ask f r) = ru_pc r" "ru_timer (note_ask f r) = ru_timer r" "ru_aborted (note_ask f r) = ru_aborted r"
  "ru_abortHooked (note_ask f r) = ru_abortHooked r" "ru_subscribed (note_ask f r) = ru_subscribed r"
  "ru_turnDone (note_ask f r) = ru_turnDone r" "ru_recovering (note_ask f r) = ru_recovering r" "ru_db (note_ask f r) = ru_db r"
  "ru_awaitingHuman (note_ask f r) = ru_awaitingHuman r" "ru_toolsInFlight (note_ask f r) = ru_toolsInFlight r"
  "ru_prompts (note_ask f r) = ru_prompts r" "ru_cancels (note_ask f r) = ru_cancels r"
  by (auto simp: note_ask_def split: option.splits)

lemma turn_frame_usage: "ts_usage (fst (turn_frame ri f now ts)) = sumUsage (ts_usage ts) (frame_usage f)"
  by (auto simp: turn_frame_def frame_usage_def price_response_def Let_def split: frame.splits option.splits)

text \<open>\<open>control\<close> lists what decides the flow; frames only add to what was relayed.\<close>

lemma handleTurnFrame_frame:
  assumes "handleTurnFrame ri f now r = (r', res)"
  shows "ru_finished r' = ru_finished r" "ru_pc r' = ru_pc r" "ru_timer r' = ru_timer r" "ru_aborted r' = ru_aborted r"
    "ru_abortHooked r' = ru_abortHooked r" "ru_subscribed r' = ru_subscribed r" "ru_turnDone r' = ru_turnDone r"
    "ru_recovering r' = ru_recovering r" "ru_prompts r' = ru_prompts r" "ru_cancels r' = ru_cancels r"
    "db_runs (ru_db r') = db_runs (ru_db r)" "db_usage (ru_db r') = db_usage (ru_db r)"
    "ru_relayed r' = ru_relayed r @ [f]" "ts_usage (ru_turn r') = sumUsage (ts_usage (ru_turn r)) (frame_usage f)"
  using assms turn_frame_usage [of ri f now "ru_turn r"] by (auto simp: handleTurnFrame_def Let_def split: prod.splits)

section \<open>Control\<close>

text \<open>The phases of a run: before the subscription, recovering asks, prompting, waiting, returned, ended.\<close>

fun phase :: "run_pc \<Rightarrow> nat" where
  "phase AwaitAsks = 1"
| "phase AwaitPrompt = 2"
| "phase (AwaitOverride created _) = (if created then 0 else 2)"
| "phase AwaitTurn = 3"
| "phase (Returned _) = 4"
| "phase (Ended _) = 5"
| "phase _ = 0"

text \<open>When the silence backstop has to be armed.\<close>

definition backstop :: "run_input \<Rightarrow> runner \<Rightarrow> bool" where
  "backstop ri r \<longleftrightarrow> 0 < ri_silenceMs ri \<and> (isOutward ri \<or> ru_awaitingHuman r \<le> 0 \<and> ru_toolsInFlight r \<le> 0)"

text \<open>What holds even in the middle of an abort, and what holds between events.\<close>

definition flow_ok :: "run_input \<Rightarrow> runner \<Rightarrow> bool" where
  "flow_ok ri r \<longleftrightarrow>
     (ri_silenceMs ri \<le> 0 \<longrightarrow> \<not> ru_silenceTimer r) \<and> (ru_finished r \<noteq> None \<longrightarrow> \<not> ru_timer r) \<and>
     (phase (ru_pc r) = 1 \<or> phase (ru_pc r) = 2 \<longrightarrow> ru_turnDone r = ru_finished r) \<and>
     (phase (ru_pc r) = 3 \<longrightarrow> ru_finished r = None \<and> ru_turnDone r = None) \<and>
     (\<forall>out. ru_pc r = Returned out \<longrightarrow> ru_finished r = Some out) \<and> (phase (ru_pc r) = 5 \<longrightarrow> ru_finished r \<noteq> None)"

definition control :: "run_input \<Rightarrow> runner \<Rightarrow> bool" where
  "control ri r \<longleftrightarrow> flow_ok ri r \<and> (ru_finished r \<noteq> None \<longrightarrow> \<not> ru_subscribed r) \<and>
     (ru_finished r = None \<longrightarrow> ru_aborted r \<or> ru_timer r) \<and>
     (phase (ru_pc r) = 0 \<longrightarrow> ru_finished r = None \<and> ru_turnDone r = None \<and> \<not> ru_abortHooked r \<and>
        \<not> ru_subscribed r \<and> ru_recovering r = 0) \<and>
     (1 \<le> phase (ru_pc r) \<and> ru_finished r = None \<longrightarrow> ru_abortHooked r \<and> \<not> ru_aborted r) \<and>
     ((phase (ru_pc r) = 2 \<or> phase (ru_pc r) = 3) \<and> ru_finished r = None \<longrightarrow> ru_silenceTimer r = backstop ri r)"

lemma phase_Returned: "phase pc = 4 \<longleftrightarrow> (\<exists>out. pc = Returned out)"
  by (cases pc) auto

lemma armSilence_timer:
  "(ri_silenceMs ri \<le> 0 \<longrightarrow> \<not> ru_silenceTimer r) \<Longrightarrow> ru_silenceTimer (armSilence ri r) = backstop ri r"
  by (auto simp: armSilence_def clearSilence_def backstop_def Let_def)

lemma handleTurnFrame_backstop:
  assumes "handleTurnFrame ri f now r = (r', res)" and "ri_silenceMs ri \<le> 0 \<longrightarrow> \<not> ru_silenceTimer r"
  shows "ru_silenceTimer r' = backstop ri r'"
proof -
  have "ru_silenceTimer (trackAwaiting ri f now r) = ru_silenceTimer r" by (rule trackAwaiting_keeps) simp_all
  then have "ru_silenceTimer (armSilence ri (trackAwaiting ri f now r)) = backstop ri (trackAwaiting ri f now r)"
    using assms(2) by (intro armSilence_timer) simp
  then show ?thesis
    using assms(1) by (auto simp: handleTurnFrame_def Let_def backstop_def split: prod.splits)
qed

lemma handleTurnFrame_control:
  assumes "control ri r" and "handleTurnFrame ri f now r = (r', res)"
  shows "control ri r'"
proof -
  have "ru_silenceTimer r' = backstop ri r'"
    using assms by (intro handleTurnFrame_backstop) (auto simp: control_def flow_ok_def)
  then show ?thesis using assms(1) handleTurnFrame_frame [OF assms(2)]
    by (auto simp: control_def flow_ok_def backstop_def)
qed

lemma finish_frame:
  assumes "finish ri st err now disk r = (r', out)"
  shows "ru_finished r' = Some out" "ru_pc r' = ru_pc r" "ru_turnDone r' = ru_turnDone r" "ru_subscribed r' = ru_subscribed r"
    "ru_aborted r' = ru_aborted r" "ru_abortHooked r' = ru_abortHooked r" "ru_recovering r' = ru_recovering r"
    "ru_turn r' = ru_turn r" "ru_relayed r' = ru_relayed r" "ru_prompts r' = ru_prompts r" "ru_cancels r' = ru_cancels r"
    "ru_finished r = None \<longrightarrow> \<not> ru_timer r' \<and> \<not> ru_silenceTimer r'" "ru_finished r \<noteq> None \<longrightarrow> r' = r \<and> ru_finished r = Some out"
  using assms by (auto simp: finish_def clearTimers_def clearDeclines_def clearSilence_def Let_def split: option.splits sum.splits)

lemma finish_flow:
  assumes "finish ri st err now disk r = (r', out)" and "flow_ok ri r"
  shows "ru_finished r' = Some out" "\<not> ru_timer r'" "ri_silenceMs ri \<le> 0 \<longrightarrow> \<not> ru_silenceTimer r'"
  using finish_frame [OF assms(1)] assms(2) by (cases "ru_finished r"; auto simp: flow_ok_def)+

lemma finish_turn_control:
  assumes "flow_ok ri r" "\<not> ru_subscribed r" "phase (ru_pc r) \<noteq> 0"
  shows "control ri (finish_turn ri st err now disk r)"
proof -
  obtain r' out where f: "finish ri st err now disk r = (r', out)" by (cases "finish ri st err now disk r")
  note ff = finish_frame [OF f] finish_flow [OF f assms(1)]
  have td: "ru_turnDone r = None \<or> ru_turnDone r = Some out" if "phase (ru_pc r) = 1 \<or> phase (ru_pc r) = 2"
    using assms(1) that ff by (cases "ru_finished r") (auto simp: flow_ok_def)
  have "finish_turn ri st err now disk r = resolve_turn out r'" by (simp add: finish_turn_def f)
  moreover have "control ri (resolve_turn out r')"
  proof (cases "ru_pc r = AwaitTurn")
    case True
    then show ?thesis using ff assms
      by (auto simp: resolve_turn_def Let_def return_from_def control_def flow_ok_def)
  next
    case False
    then have "phase (ru_pc r) \<noteq> 3" by (cases "ru_pc r") auto
    then show ?thesis using ff assms False td
      by (cases "ru_finished r") (auto simp: resolve_turn_def Let_def control_def flow_ok_def split: option.splits)
  qed
  ultimately show ?thesis by simp
qed

lemma finish_return_control:
  assumes "flow_ok ri r"
  shows "control ri (finish_return ri st err now disk r)"
proof -
  obtain r' out where f: "finish ri st err now disk r = (r', out)" by (cases "finish ri st err now disk r")
  show ?thesis using finish_frame [OF f] finish_flow [OF f assms]
    by (auto simp: finish_return_def f return_from_def control_def flow_ok_def)
qed

lemma abortTurn_control:
  "flow_ok ri r \<Longrightarrow> phase (ru_pc r) \<noteq> 0 \<Longrightarrow> control ri (abortTurn ri now disk r)"
  unfolding abortTurn_def Let_def by (rule finish_turn_control) (simp_all add: flow_ok_def)

lemma controller_abort_control:
  assumes "flow_ok ri r" and "ru_finished r \<noteq> None \<longrightarrow> \<not> ru_subscribed r"
    and "phase (ru_pc r) = 0 \<longrightarrow> ru_finished r = None \<and> ru_turnDone r = None \<and> \<not> ru_abortHooked r \<and> \<not> ru_subscribed r \<and> ru_recovering r = 0"
    and "1 \<le> phase (ru_pc r) \<and> ru_finished r = None \<longrightarrow> ru_abortHooked r \<and> \<not> ru_aborted r"
  shows "control ri (controller_abort ri now disk r)"
proof -
  consider "ru_aborted r" | "\<not> ru_aborted r" "ru_abortHooked r" | "\<not> ru_aborted r" "\<not> ru_abortHooked r" by blast
  then show ?thesis
  proof cases
    case 2
    then have "phase (ru_pc r) \<noteq> 0" using assms(3) by auto
    then have "control ri (abortTurn ri now disk (r\<lparr>ru_aborted := True\<rparr>))"
      using assms(1) by (intro abortTurn_control) (simp_all add: flow_ok_def)
    with 2 show ?thesis by (simp add: controller_abort_def)
  qed (use assms in \<open>auto simp: controller_abort_def control_def flow_ok_def\<close>)
qed

lemma subscribe_turn_control:
  assumes "control ri r" "phase (ru_pc r) = 0"
  shows "control ri (subscribe_turn ri now disk r)"
proof (cases "ru_aborted r")
  case True
  have "control ri (abortTurn ri now disk (r\<lparr>ru_db := update_run (ri_runId ri)
      (\<lambda>q. q\<lparr>run_dshSessionId := ts_sessionId (ru_turn r)\<rparr>) (ru_db r), ru_subscribed := True, ru_pc := AwaitAsks\<rparr>))"
    using assms by (intro abortTurn_control) (auto simp: control_def flow_ok_def)
  with True show ?thesis by (simp add: subscribe_turn_def Let_def)
qed (use assms in \<open>auto simp: subscribe_turn_def control_def flow_ok_def\<close>)

lemma wait_turn_control:
  assumes "control ri r" "phase (ru_pc r) = 2"
  shows "control ri (wait_turn r)"
  using assms by (auto simp: wait_turn_def return_from_def control_def flow_ok_def backstop_def split: option.splits)

lemma after_override_control:
  assumes "control ri r" "phase (ru_pc r) = (if created then 0 else 2)"
  shows "control ri (after_override ri created now disk r)"
  using assms subscribe_turn_control wait_turn_control by (simp add: after_override_def split: if_splits)

lemma control_db [simp]: "control ri (r\<lparr>ru_db := d\<rparr>) = control ri r"
  by (simp add: control_def flow_ok_def backstop_def)

lemma control_turn [simp]: "control ri (r\<lparr>ru_turn := t\<rparr>) = control ri r"
  by (simp add: control_def flow_ok_def backstop_def)

lemma applyAccessOverride_control:
  assumes "control ri r" "phase (ru_pc r) = (if created then 0 else 2)"
  shows "control ri (applyAccessOverride ri created now disk r)"
proof -
  have "control ri (after_override ri created now disk (r\<lparr>ru_db := d\<rparr>))" for d
    using assms by (intro after_override_control) simp_all
  moreover have "control ri (r\<lparr>ru_pc := AwaitOverride created m\<rparr>)" for m
    using assms by (auto simp: control_def flow_ok_def backstop_def)
  moreover have "control ri (after_override ri created now disk r)" using assms by (rule after_override_control)
  ultimately show ?thesis by (simp add: applyAccessOverride_def split: option.splits)
qed

lemma after_model_control:
  assumes "control ri r" "phase (ru_pc r) = 0"
  shows "control ri (after_model ri created now disk r)"
proof -
  have "control ri (r\<lparr>ru_pc := AwaitSandbox\<rparr>)"
    using assms by (auto simp: control_def flow_ok_def backstop_def)
  then show ?thesis
    using assms applyAccessOverride_control [of ri r True] subscribe_turn_control [OF assms] by (simp add: after_model_def)
qed

lemma drive_throws_control:
  "flow_ok ri r \<Longrightarrow> control ri (drive_throws ri msg now disk r)"
  unfolding drive_throws_def by (rule finish_return_control)

lemma settleTurnModel_control:
  assumes "control ri r" "phase (ru_pc r) = 0"
  shows "control ri (settleTurnModel ri created p m now disk r)"
proof -
  have "control ri (r\<lparr>ru_pc := AwaitModel created\<rparr>)"
    using assms by (auto simp: control_def flow_ok_def backstop_def)
  moreover have "flow_ok ri r" using assms(1) by (simp add: control_def)
  ultimately show ?thesis
    using assms by (auto simp: settleTurnModel_def intro!: drive_throws_control after_model_control split: option.splits)
qed

lemma begin_drive_control:
  assumes "control ri r" "phase (ru_pc r) = 0"
  shows "control ri (begin_drive ri now disk r)"
proof -
  have "control ri (r\<lparr>ru_pc := AwaitCreate\<rparr>)"
    using assms by (auto simp: control_def flow_ok_def backstop_def)
  then show ?thesis
    using assms by (auto simp: begin_drive_def intro!: settleTurnModel_control split: option.splits)
qed

lemma note_ask_control [simp]: "control ri (note_ask f r) = control ri r"
  by (auto simp: note_ask_def control_def flow_ok_def backstop_def split: option.splits)

lemma processRecoveredAsk_control:
  assumes "control ri r"
  shows "control ri (processRecoveredAsk ri now r f)" and "ru_pc (processRecoveredAsk ri now r f) = ru_pc r"
proof -
  obtain r' res where h: "handleTurnFrame ri f now (note_ask f r) = (r', res)" by fastforce
  then show "control ri (processRecoveredAsk ri now r f)"
    using handleTurnFrame_control [OF _ h] assms by (simp add: processRecoveredAsk_def)
  show "ru_pc (processRecoveredAsk ri now r f) = ru_pc r"
    using handleTurnFrame_frame [OF h] h by (simp add: processRecoveredAsk_def)
qed

lemma recovered_asks_control:
  assumes "control ri r"
  shows "control ri (foldl (processRecoveredAsk ri now) r fs) \<and> ru_pc (foldl (processRecoveredAsk ri now) r fs) = ru_pc r"
  using assms by (induction fs arbitrary: r) (simp_all add: processRecoveredAsk_control)

lemma send_prompt_control:
  assumes "control ri r" "ru_pc r = AwaitAsks"
  shows "control ri (send_prompt ri r)"
proof -
  have "ru_silenceTimer (armSilence ri r) = backstop ri r"
    using assms by (intro armSilence_timer) (simp add: control_def flow_ok_def)
  then show ?thesis using assms by (auto simp: send_prompt_def control_def flow_ok_def backstop_def)
qed

lemma control_recovering: "control ri r \<Longrightarrow> phase (ru_pc r) \<noteq> 0 \<Longrightarrow> control ri (r\<lparr>ru_recovering := n\<rparr>)"
  by (simp add: control_def flow_ok_def backstop_def) blast

lemma live_frame_control:
  assumes "control ri r"
  shows "control ri (live_frame ri f now disk r)"
proof (cases "\<not> ru_subscribed r \<or> seen_before f r")
  case False
  obtain r' res where h: "handleTurnFrame ri f now (note_ask f r) = (r', res)" by fastforce
  have c: "control ri r'" using handleTurnFrame_control [OF _ h] assms by simp
  have "ru_subscribed r'" using False handleTurnFrame_frame(6) [OF h] by simp
  with c have ph: "phase (ru_pc r') \<noteq> 0" unfolding control_def by blast
  show ?thesis
  proof (cases res)
    case Continue
    have "control ri (r'\<lparr>ru_recovering := ru_recovering r' + 1\<rparr>)" by (rule control_recovering [OF c ph])
    moreover have "live_frame ri f now disk r = (case f of StreamReconnected \<Rightarrow> r'\<lparr>ru_recovering := ru_recovering r' + 1\<rparr> | _ \<Rightarrow> r')"
      using Continue False h by (simp add: live_frame_def)
    ultimately show ?thesis using c by (simp split: frame.split)
  next
    case (EndTurn st err)
    have "control ri (finish_turn ri st err now disk (r'\<lparr>ru_subscribed := False\<rparr>))"
      using c ph by (intro finish_turn_control) (simp_all add: control_def flow_ok_def)
    with EndTurn False h show ?thesis by (simp add: live_frame_def)
  qed
qed (use assms in \<open>auto simp: live_frame_def\<close>)

lemma recovered_control:
  assumes "control ri r"
  shows "control ri (recovered ri asks now disk r)"
proof (cases "ru_recovering r = 0")
  case False
  let ?r1 = "foldl (processRecoveredAsk ri now) (r\<lparr>ru_recovering := ru_recovering r - 1\<rparr>) (or_nil asks)"
  have ph: "phase (ru_pc r) \<noteq> 0" using assms False by (auto simp: control_def)
  then have "control ri (r\<lparr>ru_recovering := ru_recovering r - 1\<rparr>)" by (rule control_recovering [OF assms])
  then have c: "control ri ?r1" "ru_pc ?r1 = ru_pc r" using recovered_asks_control by auto
  then have "control ri (finish_turn ri Failed (Some reconnect_text) now disk (?r1\<lparr>ru_subscribed := False\<rparr>))"
    using ph by (intro finish_turn_control) (simp_all add: control_def flow_ok_def)
  with c False show ?thesis by (simp add: recovered_def Let_def)
qed (simp add: recovered_def assms)

lemma declined_control:
  assumes "control ri r"
  shows "control ri (declined ri i accepted r)"
proof -
  have "control ri (armSilence ri (r\<lparr>ru_declining := dc, ru_awaitingHuman := a\<rparr>))" for dc a
  proof -
    let ?q = "r\<lparr>ru_declining := dc, ru_awaitingHuman := a\<rparr>"
    have "ru_silenceTimer (armSilence ri ?q) = backstop ri ?q"
      using assms by (intro armSilence_timer) (simp add: control_def flow_ok_def)
    then show ?thesis using assms by (auto simp: control_def flow_ok_def backstop_def)
  qed
  then show ?thesis using assms by (auto simp: declined_def Let_def control_def flow_ok_def backstop_def)
qed

lemma decline_due_control: "control ri r \<Longrightarrow> control ri (decline_due i r)"
  by (auto simp: decline_due_def Let_def control_def flow_ok_def backstop_def split: option.splits frame.splits)

lemma settle_run_control: "control ri r \<Longrightarrow> ru_pc r = Returned out \<Longrightarrow> control ri (settle_run ri h c out r)"
  by (auto simp: settle_run_def Let_def control_def flow_ok_def backstop_def)

lemma abort_event_control:
  assumes "control ri r"
  shows "control ri (controller_abort ri now disk (r\<lparr>ru_stoppedByUser := True\<rparr>))"
    and "control ri (controller_abort ri now disk (r\<lparr>ru_timer := False\<rparr>))"
    and "control ri (controller_abort ri now disk (r\<lparr>ru_silenceTimer := False, ru_silenced := True\<rparr>))"
proof -
  have flow: "flow_ok ri (r\<lparr>ru_stoppedByUser := True\<rparr>)" "flow_ok ri (r\<lparr>ru_timer := False\<rparr>)"
    "flow_ok ri (r\<lparr>ru_silenceTimer := False, ru_silenced := True\<rparr>)"
    using assms unfolding control_def flow_ok_def by simp_all
  have c: "ru_finished r \<noteq> None \<longrightarrow> \<not> ru_subscribed r"
    "phase (ru_pc r) = 0 \<longrightarrow> ru_finished r = None \<and> ru_turnDone r = None \<and> \<not> ru_abortHooked r \<and> \<not> ru_subscribed r \<and> ru_recovering r = 0"
    "1 \<le> phase (ru_pc r) \<and> ru_finished r = None \<longrightarrow> ru_abortHooked r \<and> \<not> ru_aborted r"
    using assms unfolding control_def by blast+
  show "control ri (controller_abort ri now disk (r\<lparr>ru_stoppedByUser := True\<rparr>))"
    by (rule controller_abort_control [OF flow(1)]) (use c in \<open>simp_all\<close>)
  show "control ri (controller_abort ri now disk (r\<lparr>ru_timer := False\<rparr>))"
    by (rule controller_abort_control [OF flow(2)]) (use c in \<open>simp_all\<close>)
  show "control ri (controller_abort ri now disk (r\<lparr>ru_silenceTimer := False, ru_silenced := True\<rparr>))"
    by (rule controller_abort_control [OF flow(3)]) (use c in \<open>simp_all\<close>)
qed

lemma run_step_control:
  assumes "control ri r"
  shows "control ri (run_step ri r te)"
proof -
  obtain now disk e where te: "te = ((now, disk), e)" by (metis surj_pair)
  have flow: "flow_ok ri r" using assms by (simp add: control_def)
  have turn: "control ri (r\<lparr>ru_turn := t\<rparr>)" "ru_pc (r\<lparr>ru_turn := t\<rparr>) = ru_pc r" for t using assms by simp_all
  have base: "control ri (r\<lparr>ru_baseline := b\<rparr>)" for b
    using assms by (simp add: control_def flow_ok_def backstop_def)
  note steps = drive_throws_control [OF flow] finish_return_control [OF flow] begin_drive_control [OF base]
    settleTurnModel_control [OF turn(1)] after_model_control [OF turn(1)] applyAccessOverride_control [OF assms]
    after_override_control [OF assms] live_frame_control [OF assms] recovered_control [OF assms]
    decline_due_control [OF assms] declined_control [OF assms] settle_run_control [OF assms] abort_event_control [OF assms]
  have db: "phase (ru_pc r) = (if created then 0 else 2) \<Longrightarrow> control ri (after_override ri created now disk (r\<lparr>ru_db := d\<rparr>))"
    for created d using assms by (intro after_override_control) simp_all
  have asks: "ru_pc r = AwaitAsks \<Longrightarrow> control ri (send_prompt ri (foldl (processRecoveredAsk ri now) r fs))" for fs
    using recovered_asks_control [OF assms, of now fs] by (intro send_prompt_control) simp_all
  show ?thesis
  proof (cases e)
    case EvStop
    then show ?thesis using assms steps(13) by (cases "ru_pc r") (simp_all add: run_step_def te)
  qed (cases "ru_pc r"; simp add: run_step_def te assms steps db asks split: sum.split option.split prod.split)+
qed

section \<open>Keeping the books\<close>

lemma books_handle:
  assumes "books ri r" "handleTurnFrame ri f now r = (r', res)" "ru_finished r = None \<or> frame_usage f = None"
  shows "books ri r'"
  using assms(1,3) unfolding books_def books_ok_def handleTurnFrame_frame [OF assms(2)] usage_of_snoc
  by (auto split: option.splits)

lemma books_note [simp]: "books ri (note_ask f r) = books ri r"
  by (rule books_cong) simp_all

lemma books_finish:
  assumes "books ri r" "finish ri st err now disk r = (r', out)"
  shows "books ri r'"
proof (cases "ru_finished r")
  case None
  let ?i = "ri_runId ri" and ?d = "ru_db r" and ?ts = "ru_turn r" and ?dur = "now - ru_startedAt r"
  obtain row where row: "filter (\<lambda>q. run_id q = ?i) (db_runs ?d) = [row]" "filter (\<lambda>x. usage_runId x = ?i) (db_usage ?d) = []"
    and u: "ts_usage ?ts = usage_of (ru_relayed r)"
    using assms(1) None by (auto simp: books_def books_ok_def)
  have mem: "?i \<in> run_id ` set (db_runs ?d)"
  proof -
    have "row \<in> set (filter (\<lambda>q. run_id q = ?i) (db_runs ?d))" by (simp add: row)
    then show ?thesis by force
  qed
  have c: "ru_db (clearTimers r) = ?d" "ru_turn (clearTimers r) = ?ts" "ru_startedAt (clearTimers r) = ru_startedAt r"
    by (simp_all add: clearTimers_def clearDeclines_def clearSilence_def)
  show ?thesis
  proof (cases "account disk ?i ?ts st err now ?d")
    case (Inr d)
    let ?out = "buildOutcome ?ts ?dur st err (ts_usage ?ts) (cost_of ?ts) (peak_cost_of ?ts)"
    have r': "ru_db r' = d" "ru_finished r' = Some ?out"
      using assms(2) None Inr by (auto simp: finish_def c Let_def)
    obtain d1 where d1: "d = update_run ?i (end_run ?ts now st err) d1" "db_runs d1 = db_runs ?d"
      "books_usage ?i ?out (filter (\<lambda>x. usage_runId x = ?i) (db_usage d1))"
      using Inr mem row(2) by (auto simp: account_def insert_usage_def books_usage_def buildOutcome_def split: option.splits)
    have "filter (\<lambda>q. run_id q = ?i) (db_runs d) = [end_run ?ts now st err row]"
      unfolding d1(1) by (subst filter_update_run) (simp_all add: end_run_def d1(2) row)
    then show ?thesis
      using d1(3) u by (simp add: books_def books_ok_def r' finish_frame [OF assms(2)] d1(1) end_run_def buildOutcome_def)
  next
    case (Inl m)
    obtain msg where msg: "ru_db r' = update_run ?i (end_run ?ts now Failed (Some msg)) ?d"
      "ru_finished r' = Some (buildOutcome ?ts ?dur Failed (Some msg) None None None)"
      using assms(2) None Inl by (auto simp: finish_def c Let_def)
    have "filter (\<lambda>q. run_id q = ?i) (db_runs (ru_db r')) = [end_run ?ts now Failed (Some msg) row]"
      unfolding msg(1) by (subst filter_update_run) (simp_all add: end_run_def row)
    then show ?thesis
      using row u by (simp add: books_def books_ok_def msg finish_frame [OF assms(2)] end_run_def buildOutcome_def books_usage_def)
  qed
next
  case (Some o1)
  then show ?thesis using finish_frame [OF assms(2)] assms(1) by simp
qed

named_theorems books_intro

lemma books_upd [simp]:
  "books ri (r\<lparr>ru_pc := pc\<rparr>) = books ri r" "books ri (r\<lparr>ru_subscribed := b\<rparr>) = books ri r"
  "books ri (r\<lparr>ru_turnDone := x\<rparr>) = books ri r" "books ri (r\<lparr>ru_aborted := b\<rparr>) = books ri r"
  "books ri (r\<lparr>ru_cancels := n\<rparr>) = books ri r" "books ri (r\<lparr>ru_abortHooked := b\<rparr>) = books ri r"
  "books ri (r\<lparr>ru_recovering := n\<rparr>) = books ri r" "books ri (r\<lparr>ru_stoppedByUser := b\<rparr>) = books ri r"
  "books ri (r\<lparr>ru_timer := b\<rparr>) = books ri r" "books ri (r\<lparr>ru_silenced := b\<rparr>) = books ri r"
  "books ri (r\<lparr>ru_silenceTimer := b\<rparr>) = books ri r" "books ri (r\<lparr>ru_declines := ds\<rparr>) = books ri r"
  "books ri (r\<lparr>ru_declining := dc\<rparr>) = books ri r" "books ri (r\<lparr>ru_awaitingHuman := a\<rparr>) = books ri r"
  "books ri (r\<lparr>ru_prompts := n\<rparr>) = books ri r" "books ri (r\<lparr>ru_baseline := base\<rparr>) = books ri r"
  "books ri (armSilence ri' r) = books ri r" "books ri (r\<lparr>ru_db := clear_override ri' (ru_db r)\<rparr>) = books ri r"
  "books ri (r\<lparr>ru_turn := (ru_turn r)\<lparr>ts_sessionId := sid\<rparr>\<rparr>) = books ri r"
  "books ri (r\<lparr>ru_turn := (ru_turn r)\<lparr>ts_provider := p, ts_model := m\<rparr>\<rparr>) = books ri r"
  by (rule books_cong; simp add: clear_override_def)+

lemma books_session [books_intro]:
  "books ri r \<Longrightarrow> books ri (r\<lparr>ru_db := update_run (ri_runId ri) (\<lambda>q. q\<lparr>run_dshSessionId := sid\<rparr>) (ru_db r)\<rparr>)"
  by (rule books_update_run) simp_all

lemma books_finish_turn [books_intro]: "books ri r \<Longrightarrow> books ri (finish_turn ri st err now disk r)"
  by (cases "finish ri st err now disk r")
    (simp add: finish_turn_def resolve_turn_def return_from_def Let_def books_finish)

lemma books_finish_return [books_intro]: "books ri r \<Longrightarrow> books ri (finish_return ri st err now disk r)"
  by (cases "finish ri st err now disk r") (simp add: finish_return_def return_from_def books_finish)

lemma books_abort [books_intro]: "books ri r \<Longrightarrow> books ri (abortTurn ri now disk r)"
  by (simp add: abortTurn_def Let_def books_intro)

lemma books_controller [books_intro]: "books ri r \<Longrightarrow> books ri (controller_abort ri now disk r)"
  by (simp add: controller_abort_def Let_def books_intro)

lemma books_throws [books_intro]: "books ri r \<Longrightarrow> books ri (drive_throws ri msg now disk r)"
  by (simp add: drive_throws_def books_intro)

lemma books_wait [books_intro]: "books ri r \<Longrightarrow> books ri (wait_turn r)"
  by (simp add: wait_turn_def return_from_def split: option.split)

lemma books_subscribe [books_intro]: "books ri r \<Longrightarrow> books ri (subscribe_turn ri now disk r)"
proof -
  assume "books ri r"
  then have "books ri (r\<lparr>ru_db := update_run (ri_runId ri) (\<lambda>q. q\<lparr>run_dshSessionId := ts_sessionId (ru_turn r)\<rparr>) (ru_db r)\<rparr>)"
    by (rule books_session)
  then have "books ri (r\<lparr>ru_db := update_run (ri_runId ri) (\<lambda>q. q\<lparr>run_dshSessionId := ts_sessionId (ru_turn r)\<rparr>) (ru_db r),
      ru_subscribed := True, ru_pc := AwaitAsks\<rparr>)"
    by (simp add: books_def)
  then show ?thesis by (simp add: subscribe_turn_def Let_def books_intro)
qed

lemma books_override [books_intro]:
  "books ri r \<Longrightarrow> books ri (after_override ri created now disk r)"
  "books ri r \<Longrightarrow> books ri (applyAccessOverride ri created now disk r)"
  by (simp_all add: after_override_def applyAccessOverride_def books_intro split: option.split)

lemma books_model [books_intro]:
  "books ri r \<Longrightarrow> books ri (after_model ri created now disk r)"
  "books ri r \<Longrightarrow> books ri (settleTurnModel ri created p m now disk r)"
  by (simp_all add: after_model_def settleTurnModel_def books_intro split: option.split)

lemma books_begin [books_intro]: "books ri r \<Longrightarrow> books ri (begin_drive ri now disk r)"
  by (simp add: begin_drive_def books_intro split: option.split)

lemma books_recovered_ask:
  assumes "books ri r" "frame_usage f = None"
  shows "books ri (processRecoveredAsk ri now r f)"
proof -
  obtain r' res where h: "handleTurnFrame ri f now (note_ask f r) = (r', res)" by fastforce
  then show ?thesis
    using books_handle [OF _ h] assms by (simp add: processRecoveredAsk_def)
qed

lemma books_recovered_asks:
  "books ri r \<Longrightarrow> list_all (\<lambda>f. frame_usage f = None) fs \<Longrightarrow> books ri (foldl (processRecoveredAsk ri now) r fs)"
  by (induction fs arbitrary: r) (simp_all add: books_recovered_ask)

lemma books_live:
  assumes "books ri r" "control ri r"
  shows "books ri (live_frame ri f now disk r)"
proof (cases "\<not> ru_subscribed r \<or> seen_before f r")
  case False
  then have fin: "ru_finished (note_ask f r) = None" using assms(2) unfolding control_def by auto
  obtain r' res where h: "handleTurnFrame ri f now (note_ask f r) = (r', res)" by fastforce
  have "books ri r'" using books_handle [OF _ h] fin assms(1) by simp
  then show ?thesis using False h by (simp add: live_frame_def books_intro split: frame_result.split frame.split)
qed (use assms in \<open>auto simp: live_frame_def\<close>)

lemma books_recovered:
  assumes "books ri r" "list_all (\<lambda>f. frame_usage f = None) (or_nil asks)"
  shows "books ri (recovered ri asks now disk r)"
proof -
  have "books ri (foldl (processRecoveredAsk ri now) (r\<lparr>ru_recovering := ru_recovering r - 1\<rparr>) (or_nil asks))"
    using assms by (intro books_recovered_asks) simp_all
  then show ?thesis using assms(1) by (simp add: recovered_def Let_def books_intro)
qed

lemma books_declines [books_intro]:
  "books ri r \<Longrightarrow> books ri (decline_due i r)" "books ri r \<Longrightarrow> books ri (declined ri i accepted r)"
  by (simp_all add: decline_due_def declined_def Let_def split: option.split frame.split)

lemma books_settle [books_intro]:
  assumes "books ri r"
  shows "books ri (settle_run ri h c out r)"
proof -
  have "books ri (r\<lparr>ru_db := update_run (ri_runId ri) (\<lambda>q. q\<lparr>run_conflict := x\<rparr>) (ru_db r)\<rparr>)" for x
    using assms by (rule books_update_run) simp_all
  then have c: "books ri (r\<lparr>ru_db := update_run (ri_runId ri) (\<lambda>q. q\<lparr>run_commitHash := y\<rparr>)
      (update_run (ri_runId ri) (\<lambda>q. q\<lparr>run_conflict := x\<rparr>) (ru_db r))\<rparr>)"
    "books ri (r\<lparr>ru_db := update_run (ri_runId ri) (\<lambda>q. q\<lparr>run_conflict := x\<rparr>) (ru_db r)\<rparr>)" for x y
    using books_update_run [of ri "r\<lparr>ru_db := update_run (ri_runId ri) (\<lambda>q. q\<lparr>run_conflict := x\<rparr>) (ru_db r)\<rparr>" "\<lambda>q. q\<lparr>run_commitHash := y\<rparr>"]
    by simp_all
  have h: "books ri (r\<lparr>ru_db := update_run (ri_runId ri) (\<lambda>q. q\<lparr>run_commitHash := y\<rparr>) (ru_db r)\<rparr>)" for y
    using assms by (rule books_update_run) simp_all
  have "books ri (r\<lparr>ru_db := d, ru_pc := pc\<rparr>) = books ri (r\<lparr>ru_db := d\<rparr>)" for d pc by (simp add: books_def)
  then show ?thesis using assms c h by (simp add: settle_run_def Let_def split: option.split)
qed

section \<open>Every reachable run\<close>

text \<open>What the driver promises of its recovery channel: it returns asks, which carry no usage.\<close>

definition driver_ok :: "(time \<times> string option) \<times> run_event \<Rightarrow> bool" where
  "driver_ok te = (case snd te of
     EvAsks asks \<Rightarrow> list_all (\<lambda>f. frame_usage f = None) (or_nil asks)
   | EvRecovered asks \<Rightarrow> list_all (\<lambda>f. frame_usage f = None) (or_nil asks)
   | _ \<Rightarrow> True)"

definition run_ok :: "run_input \<Rightarrow> runner \<Rightarrow> bool" where
  "run_ok ri r \<longleftrightarrow> control ri r \<and> books ri r"

lemma run_step_books:
  assumes "control ri r" "books ri r" "driver_ok te"
  shows "books ri (run_step ri r te)"
proof -
  obtain now disk e where te: "te = ((now, disk), e)" by (metis surj_pair)
  note b = assms(2) books_intro books_live [OF assms(2,1)] books_recovered [OF assms(2)]
  have asks: "list_all (\<lambda>f. frame_usage f = None) fs \<Longrightarrow> books ri (send_prompt ri (foldl (processRecoveredAsk ri now) r fs))" for fs
    using books_recovered_asks [OF assms(2)] by (simp add: send_prompt_def)
  show ?thesis
  proof (cases e)
    case EvStop
    then show ?thesis using assms(2) by (cases "ru_pc r") (simp_all add: run_step_def te books_intro)
  qed (use assms(3) in \<open>cases "ru_pc r"; simp add: run_step_def te driver_ok_def b asks split: sum.split option.split prod.split\<close>)+
qed

lemma run_step_ok: "run_ok ri r \<Longrightarrow> driver_ok te \<Longrightarrow> run_ok ri (run_step ri r te)"
  by (simp add: run_ok_def run_step_control run_step_books)

lemma start_run_ok:
  assumes "start_run ri aborted now d = Some r" "filter (\<lambda>x. usage_runId x = ri_runId ri) (db_usage d) = []"
  shows "run_ok ri r"
proof -
  obtain d1 where d1: "insert_run d \<lparr>run_id = ri_runId ri, run_agentId = ri_agentId ri, run_apiKeyId = ri_apiKeyId ri,
          run_chatId = ri_chatId ri, run_sourceChatId = ri_sourceChatId ri, run_conflict = None,
          run_cronId = ri_cronId ri, run_dshSessionId = ri_sessionId ri, run_trigger = ri_trigger ri,
          run_idempotencyKey = ri_idempotencyKey ri, run_state = Running, run_resultSummary = None,
          run_startedAt = now, run_endedAt = None, run_error = None, run_commitHash = None\<rparr> = Some d1"
    using assms(1) by (auto simp: start_run_def)
  from insert_run_Some [OF this] have ins: "db_usage d1 = db_usage d" "filter (\<lambda>q. run_id q = ri_runId ri) (db_runs d) = []"
    "\<exists>row. db_runs d1 = db_runs d @ [row] \<and> run_id row = ri_runId ri \<and> run_state row = Running \<and> run_endedAt row = None"
    by (force simp: filter_empty_conv)+
  then obtain row where row: "filter (\<lambda>q. run_id q = ri_runId ri) (db_runs d1) = [row]" "run_state row = Running" "run_endedAt row = None"
    by auto
  have r: "ru_db r = d1" "ru_finished r = None" "ru_relayed r = []" "ts_usage (ru_turn r) = None"
    using assms(1) d1 by (auto simp: start_run_def newTurnState_def)
  have "books ri r" using row ins assms(2) by (simp add: books_def books_ok_def r usage_of_def)
  moreover have "control ri r"
    using assms(1) by (auto simp: start_run_def control_def flow_ok_def)
  ultimately show ?thesis by (simp add: run_ok_def)
qed

text \<open>
  The run as a system that reacts to events.  A run that could not be recorded has no state.
\<close>

definition no_usage :: "run_input \<Rightarrow> db \<Rightarrow> bool" where
  "no_usage ri d \<longleftrightarrow> filter (\<lambda>x. usage_runId x = ri_runId ri) (db_usage d) = []"

interpretation run: invariant_system "start_run ri aborted now d" "\<lambda>s te. map_option (\<lambda>r. run_step ri r te) s" driver_ok
    "\<lambda>s. no_usage ri d \<longrightarrow> pred_option (run_ok ri) s"
  for ri aborted now d
proof
  show "no_usage ri d \<longrightarrow> pred_option (run_ok ri) (start_run ri aborted now d)"
    using start_run_ok by (cases "start_run ri aborted now d") (auto simp: no_usage_def)
next
  fix s te
  assume "no_usage ri d \<longrightarrow> pred_option (run_ok ri) s" "driver_ok te"
  then show "no_usage ri d \<longrightarrow> pred_option (run_ok ri) (map_option (\<lambda>r. run_step ri r te) s)"
    using run_step_ok by (cases s) auto
qed

lemma foldl_map_option: "foldl (\<lambda>s e. map_option (\<lambda>r. f r e) s) (Some r) es = Some (foldl f r es)"
  by (induction es arbitrary: r) simp_all

lemma reachable_run_ok:
  assumes "start_run ri aborted now d = Some r0" "no_usage ri d" "list_all driver_ok es"
  shows "run_ok ri (foldl (run_step ri) r0 es)"
  using run.inv_reachable [OF assms(3), of ri d aborted now] assms(1,2) by (simp add: foldl_map_option)

text \<open>
  Claim C16. A turn is accounted for exactly once. In every state a run can reach, whatever the order of answers, frames,
  timers, stops and reconnects: before its final state the run row is running and nothing is billed; from then on the row, the
  outcome and the usage record agree, there is at most one usage record, and a run that is done
  has billed exactly the sum of the usage of its live frames.
\<close>

theorem turn_accounted_once:
  assumes "start_run ri aborted now d = Some r0" and "no_usage ri d" and "list_all driver_ok es"
    and "r = foldl (run_step ri) r0 es"
  shows "\<exists>row. filter (\<lambda>q. run_id q = ri_runId ri) (db_runs (ru_db r)) = [row] \<and>
     (case ru_finished r of
        None \<Rightarrow> run_state row = Running \<and> run_endedAt row = None \<and> no_usage ri (ru_db r)
      | Some out \<Rightarrow> run_state row = ro_state out \<and> run_endedAt row \<noteq> None \<and> run_error row = ro_error out \<and>
          books_usage (ri_runId ri) out (filter (\<lambda>x. usage_runId x = ri_runId ri) (db_usage (ru_db r))) \<and>
          (ro_usage out = usage_of (ru_relayed r) \<or> ro_state out = Failed \<and> ro_usage out = None))"
  using reachable_run_ok [OF assms(1-3)] assms(4)
  by (auto simp: run_ok_def books_def books_ok_def no_usage_def split: option.splits)

section \<open>Bounds of a waiting turn\<close>

lemma finish_failed:
  assumes "ru_finished r = None"
  shows "\<exists>out. finish ri Failed err now disk r = (fst (finish ri Failed err now disk r), out) \<and> ro_state out = Failed"
  using assms by (auto simp: finish_def Let_def buildOutcome_def split: sum.splits)

lemma abort_returns:
  assumes "ru_finished r = None" "ru_pc r = AwaitTurn" "ru_turnDone r = None" "ru_abortHooked r" "\<not> ru_aborted r"
  shows "\<exists>out. ru_pc (controller_abort ri now disk r) = Returned out \<and> ro_state out = Failed \<and>
    ru_cancels (controller_abort ri now disk r) = ru_cancels r + 1"
proof -
  let ?r = "r\<lparr>ru_aborted := True, ru_subscribed := False, ru_cancels := ru_cancels r + 1\<rparr>"
  let ?err = "Some (cancelledText ri ?r)"
  obtain r' out where f: "finish ri Failed ?err now disk ?r = (r', out)" "ro_state out = Failed"
    using finish_failed [of ?r ri ?err now disk] assms(1) by auto
  have "controller_abort ri now disk r = resolve_turn out r'"
    using assms f(1) by (simp add: controller_abort_def abortTurn_def finish_turn_def Let_def)
  then show ?thesis using f(2) finish_frame [OF f(1)] assms by (simp add: resolve_turn_def return_from_def Let_def)
qed


text \<open>
  A turn that is stopped while its session is being created is sent to the host all the same: the stop only
  marks the controller, the subscription then cancels the (idle) session and ends the run as failed, and the prompt goes
  out after that; what the host does with it is neither relayed nor billed.
\<close>

theorem stopped_turn_still_prompted:
  assumes "start_run ri False now d = Some r0" and "no_usage ri d" and "list_all driver_ok es"
    and "r = foldl (run_step ri) r0 es" and "ru_pc r = AwaitCreate" and "\<not> ru_aborted r"
    and "ri_provider ri = None" "ri_model ri = None" "ri_sandboxMode ri = None" "ri_chatId ri = None"
    and "r' = foldl (run_step ri) r [(t1, EvStop), (t2, EvCreated (Inr (sid, p, m))), (t3, EvAsks None)]"
  shows "ru_prompts r' = ru_prompts r + 1 \<and> (\<exists>out. ru_finished r' = Some out \<and> ro_state out = Failed) \<and>
    run_step ri r' (t4, EvFrame f) = r'"
proof -
  have ctl: "control ri r" using reachable_run_ok [OF assms(1-3)] assms(4) by (simp add: run_ok_def)
  then have h: "\<not> ru_abortHooked r" "ru_finished r = None" "ru_turnDone r = None" using assms(5) by (auto simp: control_def)
  define a where "a = run_step ri r (t1, EvStop)"
  have a: "a = r\<lparr>ru_stoppedByUser := True, ru_aborted := True\<rparr>"
    using assms(5,6) h by (cases t1) (simp add: a_def run_step_def controller_abort_def)
  define b where "b = run_step ri a (t2, EvCreated (Inr (sid, p, m)))"
  have ctlb: "control ri b" using run_step_control ctl by (simp add: a_def b_def)
  have "\<exists>out. ru_finished b = Some out \<and> ro_state out = Failed \<and> ru_pc b = AwaitAsks \<and> \<not> ru_subscribed b \<and> ru_prompts b = ru_prompts r"
  proof -
    obtain n2 k2 where t2: "t2 = (n2, k2)" by (cases t2)
    define q where "q = a\<lparr>ru_turn := (ru_turn r)\<lparr>ts_sessionId := Some sid, ts_provider := p, ts_model := m\<rparr>\<rparr>"
    define q2 where "q2 = q\<lparr>ru_db := update_run (ri_runId ri) (\<lambda>x. x\<lparr>run_dshSessionId := Some sid\<rparr>) (ru_db r),
      ru_pc := AwaitAsks, ru_subscribed := False, ru_cancels := ru_cancels r + 1\<rparr>"
    have b: "b = finish_turn ri Failed (Some (cancelledText ri q2)) n2 k2 q2"
      using assms(5,7-10) by (simp add: b_def a t2 run_step_def settleTurnModel_def after_model_def applyAccessOverride_def
          pending_override_def after_override_def subscribe_turn_def abortTurn_def q_def q2_def Let_def)
    have n: "ru_finished q2 = None" using h by (simp add: q2_def q_def a)
    obtain r'' out where fin: "finish ri Failed (Some (cancelledText ri q2)) n2 k2 q2 = (r'', out)" "ro_state out = Failed"
      using finish_failed [OF n, of ri "Some (cancelledText ri q2)" n2 k2] by auto
    have "b = resolve_turn out r''" by (simp only: b finish_turn_def fin(1) prod.case)
    moreover have "ru_pc q2 = AwaitAsks" "\<not> ru_subscribed q2" "ru_prompts q2 = ru_prompts r" by (simp_all add: q2_def q_def a)
    ultimately show ?thesis using finish_frame [OF fin(1)] fin(2) by (simp add: resolve_turn_def Let_def)
  qed
  then obtain out where b: "ru_finished b = Some out" "ro_state out = Failed" "ru_pc b = AwaitAsks" "\<not> ru_subscribed b"
    "ru_prompts b = ru_prompts r" by blast
  have "r' = send_prompt ri b"
    using assms(11) b(3) by (cases t3) (simp add: a_def [symmetric] b_def [symmetric] run_step_def [of ri b] or_nil_def)
  then show ?thesis using b by (cases t4) (simp add: send_prompt_def run_step_def live_frame_def)
qed

section \<open>Witnesses\<close>

definition sample_run_input :: run_input where
  "sample_run_input = \<lparr>ri_runId = ''run1'', ri_agentId = ''w1'', ri_provider = None, ri_model = None, ri_sandboxMode = None,
     ri_trigger = Api, ri_cronId = None, ri_idempotencyKey = None, ri_apiKeyId = None, ri_timeoutMs = DEFAULT_TIMEOUT_MS,
     ri_silenceMs = DEFAULT_SILENCE_MS, ri_sessionId = None, ri_chatId = None, ri_sourceChatId = None, ri_driverId = ''n1'',
     ri_canSelectModel = True, ri_canSetSandbox = True, ri_pricing = DEFAULT_PRICING, ri_weekday = (\<lambda>t z. Some ''Mon'')\<rparr>"

definition sample_run_db :: db where
  "sample_run_db = empty_db\<lparr>db_agents := [\<lparr>agent_id = ''w1'', agent_name = ''w'', agent_workspacePath = ''/w'',
     agent_endpoint = ''n1'', agent_preset = None, agent_gitRemote = None, agent_public = 0, agent_createdAt = 0\<rparr>]\<rparr>"

definition sample_run :: runner where
  "sample_run = the (start_run sample_run_input False 5 sample_run_db)"

definition sample_waiting :: "((time \<times> string option) \<times> run_event) list" where
  "sample_waiting = [((6, None), EvBefore None), ((7, None), EvCreated (Inr (''s1'', None, Some ''deepseek-v4-pro''))),
     ((8, None), EvAsks None), ((9, None), EvPrompt (Inr True)),
     ((10, None), EvFrame (Message (Some [''inputTokens'' \<mapsto> 1000]) ''hello''))]"

definition sample_done :: "((time \<times> string option) \<times> run_event) list" where
  "sample_done = sample_waiting @ [((11, None), EvFrame (TurnEnd (Some ''stop'') None None))]"

lemma sample_run_started: "start_run sample_run_input False 5 sample_run_db = Some sample_run"
  by (simp add: sample_run_def start_run_def insert_run_def run_refs_ok_def run_idem_free_def ref_ok_def
      sample_run_db_def sample_run_input_def empty_db_def)

lemma sample_no_usage: "no_usage sample_run_input sample_run_db"
  by (simp add: no_usage_def sample_run_db_def empty_db_def)

theorem turn_accounted_once_witness:
  "\<exists>row. filter (\<lambda>q. run_id q = ''run1'') (db_runs (ru_db (foldl (run_step sample_run_input) sample_run sample_done))) = [row] \<and>
     run_state row = Done"
proof -
  define r where "r = foldl (run_step sample_run_input) sample_run sample_done"
  have ok: "list_all driver_ok sample_done" by (simp add: sample_done_def sample_waiting_def driver_ok_def or_nil_def)
  have "map_option ro_state (ru_finished r) = Some Done" unfolding r_def by code_simp
  then obtain out where out: "ru_finished r = Some out" "ro_state out = Done" by auto
  from turn_accounted_once [OF sample_run_started sample_no_usage ok r_def] out
  show ?thesis unfolding r_def [symmetric] by (auto simp: sample_run_input_def)
qed


theorem stopped_turn_still_prompted_witness:
  "ru_prompts (foldl (run_step sample_run_input) (run_step sample_run_input sample_run ((6, None), EvBefore None))
     [((7, None), EvStop), ((8, None), EvCreated (Inr (''s1'', None, None))), ((9, None), EvAsks None)]) = 1"
proof -
  define r where "r = foldl (run_step sample_run_input) sample_run [((6, None), EvBefore None)]"
  have ok: "list_all driver_ok [((6, None), EvBefore None)]" by (simp add: driver_ok_def)
  have r: "ru_pc r = AwaitCreate" "\<not> ru_aborted r" "ru_prompts r = 0"
    unfolding r_def by code_simp+
  have pins: "ri_provider sample_run_input = None" "ri_model sample_run_input = None" "ri_sandboxMode sample_run_input = None"
    "ri_chatId sample_run_input = None" by (simp_all add: sample_run_input_def)
  from stopped_turn_still_prompted [OF sample_run_started sample_no_usage ok r_def r(1,2) pins refl, of "(7, None)" "(8, None)" "''s1''" None None "(9, None)"]
  have "ru_prompts (foldl (run_step sample_run_input) r [((7, None), EvStop), ((8, None), EvCreated (Inr (''s1'', None, None))), ((9, None), EvAsks None)])
     = ru_prompts r + 1" by blast
  also have "\<dots> = 1" by (simp only: r(3))
  finally show ?thesis by (simp add: r_def)
qed

end
