(* ===== verification/Reconcile.thy ===== *)
theory Reconcile
  imports ChatStore Supervisor
begin

text \<open>
  The reconcile entry (\<^verbatim>\<open>src/reconcile/index.ts\<close>): the registry mirror, the boot hygiene, the idle
  reclaim and the convergence of the managed nodes.  The derived workspace documents are outside; what docker
  and the live probe answer are inputs.
\<close>

section \<open>The registry mirror\<close>

text \<open>The configured agent, as far as its registry row goes; the configuration lists each id once.\<close>

record agent_face =
  af_id :: id
  af_name :: string
  af_workspacePath :: string
  af_endpoint :: id
  af_preset :: "string option"
  af_gitRemote :: "string option"
  af_public :: bool

definition face_row :: "agent_face \<Rightarrow> time \<Rightarrow> agent_row" where
  "face_row a now = \<lparr>agent_id = af_id a, agent_name = af_name a, agent_workspacePath = af_workspacePath a,
     agent_endpoint = af_endpoint a, agent_preset = af_preset a, agent_gitRemote = af_gitRemote a,
     agent_public = (if af_public a then 1 else 0), agent_createdAt = now\<rparr>"

text \<open>An update leaves the creation time.\<close>

definition mirrorAgentRow :: "time \<Rightarrow> db \<Rightarrow> agent_face \<Rightarrow> db \<times> bool" where
  "mirrorAgentRow now d a =
     (if af_id a \<notin> agent_id ` set (db_agents d)
      then (d\<lparr>db_agents := db_agents d @ [face_row a now]\<rparr>, True)
      else (d\<lparr>db_agents := upd_where (\<lambda>r. agent_id r = af_id a) (\<lambda>r. face_row a (agent_createdAt r)) (db_agents d)\<rparr>, False))"

definition removeAgentRow :: "db \<Rightarrow> id \<Rightarrow> db" where
  "removeAgentRow d i = delete_agent_row d i"

record mirror_result =
  mr_inserted :: int
  mr_updated :: int
  mr_deleted :: int

definition mirror_one :: "time \<Rightarrow> db \<times> mirror_result \<Rightarrow> agent_face \<Rightarrow> db \<times> mirror_result" where
  "mirror_one now acc a = (case acc of (d, m) \<Rightarrow>
     (case mirrorAgentRow now d a of (d1, inserted) \<Rightarrow>
        (d1, if inserted then m\<lparr>mr_inserted := mr_inserted m + 1\<rparr> else m\<lparr>mr_updated := mr_updated m + 1\<rparr>)))"

definition remove_stale :: "id set \<Rightarrow> db \<times> mirror_result \<Rightarrow> id \<Rightarrow> db \<times> mirror_result" where
  "remove_stale known acc i = (case acc of (d, m) \<Rightarrow>
     if i \<in> known then (d, m) else (removeAgentRow d i, m\<lparr>mr_deleted := mr_deleted m + 1\<rparr>))"

definition mirrorAgents :: "time \<Rightarrow> db \<Rightarrow> agent_face list \<Rightarrow> bool \<Rightarrow> db \<times> mirror_result" where
  "mirrorAgents now d agents removeStale =
     (let acc = foldl (mirror_one now) (d, \<lparr>mr_inserted = 0, mr_updated = 0, mr_deleted = 0\<rparr>) agents
      in if removeStale then foldl (remove_stale (af_id ` set agents)) acc (map agent_id (db_agents (fst acc))) else acc)"

section \<open>Boot hygiene\<close>

definition in_flight :: "run_row \<Rightarrow> bool" where
  "in_flight r \<longleftrightarrow> run_state r = Pending \<or> run_state r = Running"

definition convergeRuns :: "time \<Rightarrow> db \<Rightarrow> db \<times> int" where
  "convergeRuns now d =
     (d\<lparr>db_runs := upd_where in_flight (\<lambda>r. r\<lparr>run_state := Failed, run_endedAt := Some now,
          run_error := Some ''manager restarted while this run was in flight''\<rparr>) (db_runs d)\<rparr>,
      count_where in_flight (db_runs d))"

definition convergeAgentCommands :: "time \<Rightarrow> db \<Rightarrow> db \<times> int" where
  "convergeAgentCommands now d =
     (let p = (\<lambda>c. cmd_state c = CmdDelivered)
      in (d\<lparr>db_commands := upd_where p (\<lambda>c. c\<lparr>cmd_state := CmdFailed, cmd_doneAt := Some now,
             cmd_result := Some ''{\"message\":\"manager restarted while this command was in flight\"}'',
             cmd_payload := ''{}''\<rparr>) (db_commands d)\<rparr>, count_where p (db_commands d)))"

definition convergeOrphanChats :: "time \<Rightarrow> db \<Rightarrow> agent_face list \<Rightarrow> db \<times> int" where
  "convergeOrphanChats now d agents = archiveOrphanChats d (af_id ` set agents) now"

section \<open>Managed nodes\<close>

text \<open>What docker says about the container of a node: an error, none running, or one with whether it matches.\<close>

datatype docker_answer = DockerError | NoContainer | RunningContainer id bool

text \<open>The world as a node's convergence meets it: whether docker is there, its answer, and the live probe.\<close>

record node_world =
  nw_docker :: bool
  nw_container :: docker_answer
  nw_probe :: "bool \<times> string"

definition heal_node :: "supervisor_deps \<Rightarrow> env \<Rightarrow> node_world \<Rightarrow> spawn_spec \<Rightarrow> supervisor \<Rightarrow> supervisor" where
  "heal_node deps ev w spec s =
     (if sv_state s = Live
      then (let s1 = live_probe_result ev (fst (nw_probe w)) (snd (nw_probe w)) s
            in if sv_state s1 = Offline then restart deps ev spec s1 else s1)
      else if sv_state s \<noteq> Offline then s
      else restart deps ev spec s)"

definition boot_node :: "supervisor_deps \<Rightarrow> env \<Rightarrow> node_world \<Rightarrow> spawn_spec \<Rightarrow> supervisor \<Rightarrow> supervisor" where
  "boot_node deps ev w spec s =
     (if sp_runner spec = DockerRunner
      then if \<not> nw_docker w then s
           else (case nw_container w of
                   DockerError \<Rightarrow> s
                 | NoContainer \<Rightarrow> start deps ev spec s
                 | RunningContainer cid matches \<Rightarrow>
                     if matches then adopt ev spec cid s else start deps ev spec (effect (StopContainer cid) s))
      else start deps ev spec s)"

definition converge_node ::
    "supervisor_deps \<Rightarrow> env \<Rightarrow> (id \<Rightarrow> node_world) \<Rightarrow> (id \<rightharpoonup> spawn_spec) \<Rightarrow> bool \<Rightarrow> id set option \<Rightarrow>
     id \<times> supervisor \<Rightarrow> id \<times> supervisor" where
  "converge_node deps ev world spawn healOnly only node = (case node of (i, s) \<Rightarrow>
     if (case only of None \<Rightarrow> False | Some ids \<Rightarrow> i \<notin> ids) then (i, s)
     else (case spawn i of None \<Rightarrow> (i, s)
           | Some spec \<Rightarrow> (i, if healOnly then heal_node deps ev (world i) spec s else boot_node deps ev (world i) spec s)))"

definition convergeNodes ::
    "supervisor_deps \<Rightarrow> env \<Rightarrow> (id \<Rightarrow> node_world) \<Rightarrow> (id \<rightharpoonup> spawn_spec) \<Rightarrow> bool \<Rightarrow> id set option \<Rightarrow>
     (id \<times> supervisor) list \<Rightarrow> (id \<times> supervisor) list" where
  "convergeNodes deps ev world spawn healOnly only nodes = map (converge_node deps ev world spawn healOnly only) nodes"

section \<open>The entry\<close>

record reconcile_opts =
  opt_runHygiene :: bool
  opt_healOnly :: bool
  opt_onlyNodes :: "id set option"
  opt_removeStaleAgents :: bool
  opt_sweepIdle :: bool

record reconcile_config =
  rc_agents :: "agent_face list"
  rc_spawn :: "id \<rightharpoonup> spawn_spec"
  rc_services :: "service_window list"

record reconcile_counts =
  rk_mirror :: mirror_result
  rk_staleRuns :: int
  rk_dropped :: int
  rk_orphans :: int
  rk_idle :: int

definition hygiene :: "time \<Rightarrow> agent_face list \<Rightarrow> db \<Rightarrow> db \<times> int \<times> int \<times> int" where
  "hygiene now agents d =
     (case convergeRuns now d of (d1, stale) \<Rightarrow>
      (case convergeAgentCommands now d1 of (d2, dropped) \<Rightarrow>
       (case convergeOrphanChats now d2 agents of (d3, orphan) \<Rightarrow> (d3, stale, dropped, orphan))))"

definition reconcile_db :: "reconcile_config \<Rightarrow> reconcile_opts \<Rightarrow> time \<Rightarrow> db \<Rightarrow> db \<times> reconcile_counts" where
  "reconcile_db cfg opts now d =
     (case mirrorAgents now d (rc_agents cfg) (opt_removeStaleAgents opts) of (d1, m) \<Rightarrow>
      (case (if opt_runHygiene opts then hygiene now (rc_agents cfg) d1 else (d1, 0, 0, 0)) of (d2, stale, dropped, orphan) \<Rightarrow>
       (case (if opt_sweepIdle opts then sweepIdleConversations d2 (rc_services cfg) now else (d2, 0)) of (d3, idle) \<Rightarrow>
        (d3, \<lparr>rk_mirror = m, rk_staleRuns = stale, rk_dropped = dropped, rk_orphans = orphan, rk_idle = idle\<rparr>))))"

definition reconcileAll ::
    "supervisor_deps \<Rightarrow> env \<Rightarrow> (id \<Rightarrow> node_world) \<Rightarrow> reconcile_config \<Rightarrow> reconcile_opts \<Rightarrow> db \<Rightarrow> (id \<times> supervisor) list \<Rightarrow>
     (db \<times> reconcile_counts) \<times> (id \<times> supervisor) list" where
  "reconcileAll deps ev world cfg opts d nodes =
     (reconcile_db cfg opts (env_now ev) d,
      convergeNodes deps ev world (rc_spawn cfg) (opt_healOnly opts) (opt_onlyNodes opts) nodes)"

definition boot_opts :: reconcile_opts where
  "boot_opts = \<lparr>opt_runHygiene = True, opt_healOnly = False, opt_onlyNodes = None, opt_removeStaleAgents = True, opt_sweepIdle = True\<rparr>"

definition tick_opts :: reconcile_opts where
  "tick_opts = boot_opts\<lparr>opt_runHygiene := False, opt_healOnly := True\<rparr>"

section \<open>The mirror is exact\<close>

lemma face_row_id [simp]: "agent_id (face_row a now) = af_id a" "agent_createdAt (face_row a now) = now"
  by (simp_all add: face_row_def)

text \<open>One row, on the list of rows.\<close>

definition mirror_rows :: "time \<Rightarrow> agent_face \<Rightarrow> agent_row list \<Rightarrow> agent_row list" where
  "mirror_rows now a rows = (if af_id a \<notin> agent_id ` set rows then rows @ [face_row a now]
     else upd_where (\<lambda>r. agent_id r = af_id a) (\<lambda>r. face_row a (agent_createdAt r)) rows)"

lemma mirrorAgentRow_rows: "fst (mirrorAgentRow now d a) = d\<lparr>db_agents := mirror_rows now a (db_agents d)\<rparr>"
  by (simp add: mirrorAgentRow_def mirror_rows_def)

lemma mirror_one_rows: "fst (mirror_one now (d, m) a) = d\<lparr>db_agents := mirror_rows now a (db_agents d)\<rparr>"
  using mirrorAgentRow_rows [of now d a] by (simp add: mirror_one_def split_beta)

lemma mirror_fold_rows:
  "fst (foldl (mirror_one now) (d, m) as) = d\<lparr>db_agents := foldl (\<lambda>rows a. mirror_rows now a rows) (db_agents d) as\<rparr>"
proof (induction as arbitrary: d m)
  case (Cons a as)
  obtain d1 m1 where o: "mirror_one now (d, m) a = (d1, m1)" by fastforce
  then have "d1 = d\<lparr>db_agents := mirror_rows now a (db_agents d)\<rparr>" using mirror_one_rows [of now d m a] by simp
  then show ?case by (simp add: o Cons)
qed simp

lemma mirror_rows_ids:
  "distinct (map agent_id rows) \<Longrightarrow> distinct (map agent_id (mirror_rows now a rows))"
proof -
  assume d: "distinct (map agent_id rows)"
  have "map agent_id (upd_where (\<lambda>r. agent_id r = af_id a) (\<lambda>r. face_row a (agent_createdAt r)) rows) = map agent_id rows"
    by (induction rows) auto
  with d show ?thesis by (simp add: mirror_rows_def)
qed

definition created_in :: "agent_row list \<Rightarrow> time \<Rightarrow> agent_face \<Rightarrow> time" where
  "created_in rows now a = (case first_row (\<lambda>r. agent_id r = af_id a) rows of None \<Rightarrow> now | Some r \<Rightarrow> agent_createdAt r)"

lemma created_in_row:
  "distinct (map agent_id rows) \<Longrightarrow> r \<in> set rows \<Longrightarrow> agent_id r = af_id a \<Longrightarrow> created_in rows now a = agent_createdAt r"
  using first_row_key [of agent_id rows r] by (simp add: created_in_def)

lemma created_in_none: "af_id a \<notin> agent_id ` set rows \<Longrightarrow> created_in rows now a = now"
  by (force simp: created_in_def split: option.splits dest!: first_row_Some)

lemma mirror_rows_set:
  assumes "distinct (map agent_id rows)"
  shows "set (mirror_rows now a rows) = {r \<in> set rows. agent_id r \<noteq> af_id a} \<union> {face_row a (created_in rows now a)}"
proof (cases "af_id a \<in> agent_id ` set rows")
  case True
  have f: "face_row a (agent_createdAt r) = face_row a (created_in rows now a)" if "r \<in> set rows" "agent_id r = af_id a" for r
    using created_in_row [OF assms that] by simp
  obtain q where "q \<in> set rows" "agent_id q = af_id a" using True by auto
  then have "face_row a (created_in rows now a) \<in> (\<lambda>r. if agent_id r = af_id a then face_row a (agent_createdAt r) else r) ` set rows"
    using f [of q] by (intro image_eqI [of _ _ q]) auto
  then show ?thesis using True f by (auto simp: mirror_rows_def set_upd_where)
next
  case False
  then have "{r \<in> set rows. agent_id r \<noteq> af_id a} = set rows" by (auto simp: image_iff)
  then show ?thesis using False by (simp add: mirror_rows_def created_in_none)
qed

lemma created_in_other:
  assumes "distinct (map agent_id rows)" "af_id b \<noteq> af_id a"
  shows "created_in (mirror_rows now a rows) now b = created_in rows now b"
proof (cases "af_id b \<in> agent_id ` set rows")
  case True
  then obtain q where q: "q \<in> set rows" "agent_id q = af_id b" by auto
  then have "q \<in> set (mirror_rows now a rows)" using assms by (simp add: mirror_rows_set)
  then show ?thesis
    using created_in_row [OF mirror_rows_ids [OF assms(1)] _ q(2)] created_in_row [OF assms(1) q] by simp
next
  case False
  moreover have "agent_id ` set (mirror_rows now a rows) \<subseteq> insert (af_id a) (agent_id ` set rows)"
    by (auto simp: mirror_rows_set [OF assms(1)])
  then have "af_id b \<notin> agent_id ` set (mirror_rows now a rows)" using assms(2) False by auto
  ultimately show ?thesis by (simp add: created_in_none)
qed

lemma mirror_fold_set:
  assumes "distinct (map agent_id rows)" "distinct (map af_id as)"
  shows "distinct (map agent_id (foldl (\<lambda>rows a. mirror_rows now a rows) rows as)) \<and>
    set (foldl (\<lambda>rows a. mirror_rows now a rows) rows as) =
      {r \<in> set rows. agent_id r \<notin> af_id ` set as} \<union> (\<lambda>a. face_row a (created_in rows now a)) ` set as"
  using assms
proof (induction as arbitrary: rows)
  case (Cons a as)
  let ?r = "mirror_rows now a rows"
  have c: "created_in ?r now b = created_in rows now b" if "b \<in> set as" for b
  proof (rule created_in_other [OF Cons.prems(1)])
    have "af_id b \<in> af_id ` set as" using that by simp
    then show "af_id b \<noteq> af_id a" using Cons.prems(2) by auto
  qed
  have "distinct (map agent_id ?r)" using Cons.prems(1) by (rule mirror_rows_ids)
  with Cons.IH [of ?r] Cons.prems(2) c show ?case
    by (auto simp: mirror_rows_set [OF Cons.prems(1)] image_iff)
qed simp

lemma delete_agent_row_rows: "db_agents (delete_agent_row d i) = del_where (\<lambda>a. agent_id a = i) (db_agents d)"
  by (auto simp: delete_agent_row_def Let_def del_where_def intro!: filter_True [symmetric])

lemma remove_stale_fold_agents:
  "db_agents (fst (foldl (remove_stale known) (d, m) is)) =
     filter (\<lambda>r. agent_id r \<notin> set is - known) (db_agents d)"
proof (induction "is" arbitrary: d m)
  case (Cons i "is")
  then show ?case
    by (auto simp: remove_stale_def removeAgentRow_def delete_agent_row_rows del_where_def intro!: filter_cong)
qed simp

lemma mirrorAgents_rows:
  "db_agents (fst (mirrorAgents now d agents True)) =
     filter (\<lambda>r. agent_id r \<in> af_id ` set agents) (foldl (\<lambda>rows a. mirror_rows now a rows) (db_agents d) agents)"
proof -
  let ?m = "\<lparr>mr_inserted = 0, mr_updated = 0, mr_deleted = 0\<rparr>"
  obtain d1 m1 where o: "foldl (mirror_one now) (d, ?m) agents = (d1, m1)" by fastforce
  have d1: "db_agents d1 = foldl (\<lambda>rows a. mirror_rows now a rows) (db_agents d) agents"
    using mirror_fold_rows [of now d ?m agents] by (simp add: o)
  have "db_agents (fst (mirrorAgents now d agents True)) =
      filter (\<lambda>r. agent_id r \<notin> set (map agent_id (db_agents d1)) - af_id ` set agents) (db_agents d1)"
    by (simp only: mirrorAgents_def o Let_def if_True fst_conv remove_stale_fold_agents)
  also have "\<dots> = filter (\<lambda>r. agent_id r \<in> af_id ` set agents) (db_agents d1)"
    by (intro filter_cong refl) auto
  finally show ?thesis by (simp only: d1)
qed

lemma mirror_rows_idem:
  assumes "\<And>r. r \<in> set rows \<Longrightarrow> agent_id r = af_id a \<Longrightarrow> face_row a (agent_createdAt r) = r" "af_id a \<in> agent_id ` set rows"
  shows "mirror_rows now a rows = rows"
  using assms by (auto simp: mirror_rows_def upd_where_def intro!: map_idI)

lemma remove_stale_none: "set is \<subseteq> known \<Longrightarrow> fst (foldl (remove_stale known) (d, m) is) = d"
  by (induction "is" arbitrary: m) (auto simp: remove_stale_def)

text \<open>
  Claim C18. The registry is the mirror of the configuration: after a converging mirror it holds exactly one row per
  configured agent, with the configured fields and the creation time of the row that was there, and
  nothing else; a second mirror, at any time, changes nothing at all.
\<close>

theorem registry_mirrors_config:
  assumes "distinct (map af_id agents)" and "distinct (map agent_id (db_agents d))"
    and "d' = fst (mirrorAgents now d agents True)"
  shows "distinct (map agent_id (db_agents d')) \<and>
    set (db_agents d') = (\<lambda>a. face_row a (created_in (db_agents d) now a)) ` set agents \<and>
    fst (mirrorAgents now' d' agents True) = d'"
proof -
  let ?known = "af_id ` set agents"
  note fold = mirror_fold_set [OF assms(2,1), of now]
  have dist: "distinct (map agent_id (db_agents d'))"
    using fold by (simp add: assms(3) mirrorAgents_rows distinct_map_filter)
  have rows: "set (db_agents d') = (\<lambda>a. face_row a (created_in (db_agents d) now a)) ` set agents"
    using fold by (auto simp: assms(3) mirrorAgents_rows)
  have same: "face_row a (agent_createdAt r) = r" if h: "a \<in> set agents" "r \<in> set (db_agents d')" "agent_id r = af_id a" for a r
  proof -
    obtain b where b: "b \<in> set agents" "r = face_row b (created_in (db_agents d) now b)" using h(2) rows by auto
    then have "b = a" using assms(1) h(1,3) by (auto simp: distinct_map inj_on_def)
    with b(2) show ?thesis by simp
  qed
  have step: "mirror_rows now' a (db_agents d') = db_agents d'" if "a \<in> set agents" for a
    using that by (intro mirror_rows_idem same) (auto simp: rows image_image)
  have "foldl (\<lambda>rows a. mirror_rows now' a rows) (db_agents d') as = db_agents d'" if "set as \<subseteq> set agents" for as
    using that by (induction as) (auto simp: step)
  then have "fst (foldl (mirror_one now') (d', m) agents) = d'" for m by (simp add: mirror_fold_rows)
  moreover have "set (map agent_id (db_agents d')) \<subseteq> ?known" by (auto simp: rows)
  ultimately have "fst (mirrorAgents now' d' agents True) = d'"
    unfolding mirrorAgents_def Let_def if_True
    by (metis (no_types, lifting) prod.collapse remove_stale_none)
  with dist rows show ?thesis by blast
qed

section \<open>What a removed agent leaves behind\<close>

text \<open>The references of the rows, as the foreign keys keep them.\<close>

definition agent_refs_ok :: "db \<Rightarrow> bool" where
  "agent_refs_ok d \<longleftrightarrow> (\<forall>c \<in> set (db_chats d). chat_agentId c \<in> agent_id ` set (db_agents d)) \<and>
     (\<forall>r \<in> set (db_runs d). run_agentId r \<in> agent_id ` set (db_agents d))"

lemma delete_agent_refs:
  assumes "agent_refs_ok d"
  shows "agent_refs_ok (delete_agent_row d i)"
proof (cases "i \<in> agent_id ` set (db_agents d)")
  case True
  then have "db_chats (delete_agent_row d i) = del_where (\<lambda>c. chat_agentId c = i) (db_chats d)"
    "run_agentId ` set (db_runs (delete_agent_row d i)) \<subseteq> run_agentId ` set (db_runs d) - {i}"
    by (auto simp: delete_agent_row_def Let_def)
  then show ?thesis
    using assms unfolding agent_refs_ok_def delete_agent_row_agents by (fastforce simp: image_subset_iff)
next
  case False
  then have "delete_agent_row d i = d" by (simp add: delete_agent_row_def)
  with assms show ?thesis by simp
qed

lemma remove_stale_refs: "agent_refs_ok d \<Longrightarrow> agent_refs_ok (fst (foldl (remove_stale known) (d, m) is))"
  by (induction "is" arbitrary: d m) (auto simp: remove_stale_def removeAgentRow_def delete_agent_refs)

lemma mirror_rows_keeps_ids: "agent_id ` set rows \<subseteq> agent_id ` set (mirror_rows now a rows)"
proof -
  have "map agent_id (upd_where (\<lambda>r. agent_id r = af_id a) (\<lambda>r. face_row a (agent_createdAt r)) rows) = map agent_id rows"
    by (induction rows) auto
  then have "agent_id ` set (upd_where (\<lambda>r. agent_id r = af_id a) (\<lambda>r. face_row a (agent_createdAt r)) rows) = agent_id ` set rows"
    by (metis list.set_map)
  then show ?thesis by (auto simp: mirror_rows_def)
qed

lemma mirror_fold_keeps_ids:
  "agent_id ` set rows \<subseteq> agent_id ` set (foldl (\<lambda>rows a. mirror_rows now a rows) rows as)"
proof (induction as arbitrary: rows)
  case (Cons a as)
  then show ?case using mirror_rows_keeps_ids [of rows now a] by simp (meson order_trans)
qed simp

lemma mirrorAgents_refs:
  assumes "agent_refs_ok d"
  shows "agent_refs_ok (fst (mirrorAgents now d agents True))"
proof -
  let ?m = "\<lparr>mr_inserted = 0, mr_updated = 0, mr_deleted = 0\<rparr>"
  obtain d1 m1 where o: "foldl (mirror_one now) (d, ?m) agents = (d1, m1)" by fastforce
  have "d1 = d\<lparr>db_agents := foldl (\<lambda>rows a. mirror_rows now a rows) (db_agents d) agents\<rparr>"
    using mirror_fold_rows [of now d ?m agents] by (simp add: o)
  then have "agent_refs_ok d1"
    using assms mirror_fold_keeps_ids [of "db_agents d" now agents] by (auto simp: agent_refs_ok_def)
  then show ?thesis by (simp add: mirrorAgents_def o Let_def remove_stale_refs)
qed

lemma mirrorAgents_known:
  "agent_id ` set (db_agents (fst (mirrorAgents now d agents True))) \<subseteq> af_id ` set agents"
  by (auto simp: mirrorAgents_rows)

lemma no_orphans_left:
  assumes "\<forall>c \<in> set (db_chats d). chat_agentId c \<in> known"
  shows "archiveOrphanChats d known now = (d, 0)"
proof -
  have "foldl (\<lambda>(d', n) row. if chat_agentId row \<in> known then (d', n) else (removeChat d' (chat_id row) now, n + 1)) (d, 0 :: int) rows = (d, 0)"
    if "\<forall>c \<in> set rows. chat_agentId c \<in> known" for rows
    using that by (induction rows) auto
  from this [of "filter (\<lambda>c. chat_removedAt c = None) (db_chats d)"] show ?thesis
    using assms by (simp add: archiveOrphanChats_def)
qed

text \<open>The runs of \<open>d\<close> are runs of \<open>d0\<close>, and the ledger refers to runs.\<close>

definition run_owner :: "run_row \<Rightarrow> id \<times> id" where
  "run_owner r = (run_id r, run_agentId r)"

definition ledger_ok :: "db \<Rightarrow> db \<Rightarrow> bool" where
  "ledger_ok d0 d \<longleftrightarrow> run_owner ` set (db_runs d) \<subseteq> run_owner ` set (db_runs d0) \<and>
     usage_runId ` set (db_usage d) \<subseteq> run_id ` set (db_runs d)"

lemma delete_agent_ledger:
  assumes "ledger_ok d0 d"
  shows "ledger_ok d0 (delete_agent_row d i)"
proof (cases "i \<in> agent_id ` set (db_agents d)")
  case True
  have o: "run_owner ` set (db_runs (delete_agent_row d i)) = run_owner ` {r \<in> set (db_runs d). run_agentId r \<noteq> i}"
    using True by (auto simp: delete_agent_row_def Let_def run_owner_def image_iff)
  have ids: "run_id ` set (db_runs (delete_agent_row d i)) = run_id ` {r \<in> set (db_runs d). run_agentId r \<noteq> i}"
    using True by (auto simp: delete_agent_row_def Let_def image_iff)
  have u: "set (db_usage (delete_agent_row d i)) = {u \<in> set (db_usage d). usage_runId u \<notin> run_id ` {r \<in> set (db_runs d). run_agentId r = i}}"
    using True by (auto simp: delete_agent_row_def Let_def)
  have "run_owner ` {r \<in> set (db_runs d). run_agentId r \<noteq> i} \<subseteq> run_owner ` set (db_runs d0)"
    using assms by (auto simp: ledger_ok_def)
  moreover have "usage_runId x \<in> run_id ` {r \<in> set (db_runs d). run_agentId r \<noteq> i}"
    if x: "x \<in> set (db_usage d)" "usage_runId x \<notin> run_id ` {r \<in> set (db_runs d). run_agentId r = i}" for x
  proof -
    obtain q where q: "q \<in> set (db_runs d)" "usage_runId x = run_id q"
      using assms x(1) unfolding ledger_ok_def by blast
    with x(2) have "run_agentId q \<noteq> i" by blast
    with q show ?thesis by blast
  qed
  ultimately show ?thesis unfolding ledger_ok_def o ids u by blast
next
  case False
  then have "delete_agent_row d i = d" by (simp add: delete_agent_row_def)
  with assms show ?thesis by simp
qed

lemma mirrorAgents_ledger:
  assumes "ledger_ok d0 d"
  shows "ledger_ok d0 (fst (mirrorAgents now d agents True))"
proof -
  let ?m = "\<lparr>mr_inserted = 0, mr_updated = 0, mr_deleted = 0\<rparr>"
  obtain d1 m1 where o: "foldl (mirror_one now) (d, ?m) agents = (d1, m1)" by fastforce
  have "d1 = d\<lparr>db_agents := foldl (\<lambda>rows a. mirror_rows now a rows) (db_agents d) agents\<rparr>"
    using mirror_fold_rows [of now d ?m agents] by (simp add: o)
  then have "ledger_ok d0 d1" using assms by (simp add: ledger_ok_def)
  moreover have "ledger_ok d0 (fst (foldl (remove_stale known) (d', m) is))" if "ledger_ok d0 d'" for known d' m "is"
    using that by (induction "is" arbitrary: d' m) (auto simp: remove_stale_def removeAgentRow_def delete_agent_ledger)
  ultimately show ?thesis by (simp add: mirrorAgents_def o Let_def)
qed

lemma convergeRuns_owner:
  "run_owner ` set (db_runs (fst (convergeRuns now d))) = run_owner ` set (db_runs d)"
  "run_id ` set (db_runs (fst (convergeRuns now d))) = run_id ` set (db_runs d)"
  by (simp_all add: convergeRuns_def image_upd_where run_owner_def)

text \<open>The passes after the mirror, when every chat has a configured agent.\<close>

lemma hygiene_shape:
  assumes "\<forall>c \<in> set (db_chats d). chat_agentId c \<in> af_id ` set agents"
  shows "hygiene now agents d = (fst (convergeAgentCommands now (fst (convergeRuns now d))),
    count_where in_flight (db_runs d), count_where (\<lambda>c. cmd_state c = CmdDelivered) (db_commands d), 0)"
proof -
  let ?d2 = "fst (convergeAgentCommands now (fst (convergeRuns now d)))"
  have "convergeOrphanChats now ?d2 agents = (?d2, 0)"
    unfolding convergeOrphanChats_def using assms
    by (intro no_orphans_left) (simp add: convergeAgentCommands_def convergeRuns_def Let_def)
  then show ?thesis by (simp add: hygiene_def convergeAgentCommands_def convergeRuns_def Let_def)
qed

lemma sweep_shape:
  "\<exists>p n. sweepIdleConversations d services now = (update_chat p (\<lambda>c. c\<lparr>chat_removedAt := Some now\<rparr>) d, n)"
  by (simp add: sweepIdleConversations_def remove_loop_start) blast

lemma sweep_frame:
  "db_runs (fst (sweepIdleConversations d services now)) = db_runs d"
  "db_usage (fst (sweepIdleConversations d services now)) = db_usage d"
  "db_commands (fst (sweepIdleConversations d services now)) = db_commands d"
  "chat_agentId ` set (db_chats (fst (sweepIdleConversations d services now))) = chat_agentId ` set (db_chats d)"
proof -
  obtain p n where s: "sweepIdleConversations d services now = (update_chat p (\<lambda>c. c\<lparr>chat_removedAt := Some now\<rparr>) d, n)"
    using sweep_shape by blast
  show "db_runs (fst (sweepIdleConversations d services now)) = db_runs d"
    "db_usage (fst (sweepIdleConversations d services now)) = db_usage d"
    "db_commands (fst (sweepIdleConversations d services now)) = db_commands d"
    "chat_agentId ` set (db_chats (fst (sweepIdleConversations d services now))) = chat_agentId ` set (db_chats d)"
    by (simp_all add: s update_chat_def image_upd_where)
qed

text \<open>
  The boot pass as a whole: what it hands to the idle reclaim.
\<close>

definition boot_db :: "reconcile_config \<Rightarrow> time \<Rightarrow> db \<Rightarrow> db" where
  "boot_db cfg now d = fst (convergeAgentCommands now (fst (convergeRuns now (fst (mirrorAgents now d (rc_agents cfg) True)))))"

lemma boot_reconcile:
  assumes "agent_refs_ok d" "opt_runHygiene opts" "opt_removeStaleAgents opts"
  shows "(fst (reconcile_db cfg opts now d) = boot_db cfg now d \<or>
      fst (reconcile_db cfg opts now d) = fst (sweepIdleConversations (boot_db cfg now d) (rc_services cfg) now)) \<and>
    rk_orphans (snd (reconcile_db cfg opts now d)) = 0"
proof -
  let ?d1 = "fst (mirrorAgents now d (rc_agents cfg) True)"
  have "\<forall>c \<in> set (db_chats ?d1). chat_agentId c \<in> af_id ` set (rc_agents cfg)"
    using mirrorAgents_refs [OF assms(1), of now "rc_agents cfg"] mirrorAgents_known [of now d "rc_agents cfg"]
    unfolding agent_refs_ok_def by blast
  from hygiene_shape [OF this] show ?thesis
    using assms(2,3) by (simp add: reconcile_db_def boot_db_def split_beta)
qed

lemma boot_db_refs:
  assumes "agent_refs_ok d"
  shows "chat_agentId ` set (db_chats (boot_db cfg now d)) \<subseteq> af_id ` set (rc_agents cfg) \<and>
    run_agentId ` set (db_runs (boot_db cfg now d)) \<subseteq> af_id ` set (rc_agents cfg)"
proof -
  let ?d1 = "fst (mirrorAgents now d (rc_agents cfg) True)"
  have "chat_agentId ` set (db_chats ?d1) \<subseteq> af_id ` set (rc_agents cfg)" "run_agentId ` set (db_runs ?d1) \<subseteq> af_id ` set (rc_agents cfg)"
    using mirrorAgents_refs [OF assms, of now "rc_agents cfg"] mirrorAgents_known [of now d "rc_agents cfg"]
    unfolding agent_refs_ok_def by blast+
  then show ?thesis by (simp add: boot_db_def convergeAgentCommands_def convergeRuns_def Let_def image_upd_where)
qed

lemma boot_db_ledger:
  assumes "ledger_ok d d"
  shows "ledger_ok d (boot_db cfg now d)"
  using mirrorAgents_ledger [OF assms, of now "rc_agents cfg"]
  by (simp add: ledger_ok_def boot_db_def convergeAgentCommands_def Let_def convergeRuns_def image_upd_where run_owner_def)

text \<open>Boot leaves no run and no delivered command in flight, and keeps what is still to be delivered.\<close>

lemma boot_nothing_in_flight:
  "\<not> list_ex in_flight (db_runs (boot_db cfg now d))"
  "\<not> list_ex (\<lambda>c. cmd_state c = CmdDelivered) (db_commands (boot_db cfg now d))"
  by (auto simp: boot_db_def convergeAgentCommands_def convergeRuns_def Let_def list_ex_iff set_upd_where in_flight_def)

text \<open>
  An agent that left the configuration takes its history with it: the mirror runs before the orphan pass and
  deletes the row, the foreign keys delete its chats, its runs and the usage records of those runs, and the pass
  that would archive its chats without losing data finds none.
\<close>

theorem removed_agent_loses_history:
  assumes "agent_refs_ok d" and "ledger_ok d d" and "distinct (map run_id (db_runs d))"
    and "opt_runHygiene opts" "opt_removeStaleAgents opts" and "i \<notin> af_id ` set (rc_agents cfg)"
    and "d' = fst (reconcile_db cfg opts now d)"
  shows "rk_orphans (snd (reconcile_db cfg opts now d)) = 0 \<and>
    filter (\<lambda>c. chat_agentId c = i) (db_chats d') = [] \<and> filter (\<lambda>r. run_agentId r = i) (db_runs d') = [] \<and>
    filter (\<lambda>u. list_ex (\<lambda>r. run_id r = usage_runId u \<and> run_agentId r = i) (db_runs d)) (db_usage d') = []"
proof -
  let ?b = "boot_db cfg now d"
  have b: "d' = ?b \<or> d' = fst (sweepIdleConversations ?b (rc_services cfg) now)"
    and z: "rk_orphans (snd (reconcile_db cfg opts now d)) = 0"
    using boot_reconcile [OF assms(1,4,5)] assms(7) by auto
  have d': "chat_agentId ` set (db_chats d') = chat_agentId ` set (db_chats ?b)" "db_runs d' = db_runs ?b" "db_usage d' = db_usage ?b"
    using b sweep_frame [of ?b "rc_services cfg" now] by (elim disjE; simp only:)+
  have refs: "chat_agentId ` set (db_chats d') \<subseteq> af_id ` set (rc_agents cfg)" "run_agentId ` set (db_runs d') \<subseteq> af_id ` set (rc_agents cfg)"
    using boot_db_refs [OF assms(1), of cfg now] by (simp_all only: d')
  have no_usage: "\<not> (run_id r = usage_runId u \<and> run_agentId r = i)" if r: "r \<in> set (db_runs d)" and u: "u \<in> set (db_usage d')" for r u
  proof
    assume h: "run_id r = usage_runId u \<and> run_agentId r = i"
    have "ledger_ok d d'" using boot_db_ledger [OF assms(2), of cfg now] by (simp only: ledger_ok_def d')
    then obtain q where q: "q \<in> set (db_runs d')" "run_id q = usage_runId u" "run_owner q \<in> run_owner ` set (db_runs d)"
      using u unfolding ledger_ok_def by (metis image_eqI imageE subsetD)
    then obtain p where p: "p \<in> set (db_runs d)" "run_id p = run_id q" "run_agentId p = run_agentId q"
      by (auto simp: run_owner_def)
    then have "p = r" using assms(3) r h q(2) by (auto simp: distinct_map inj_on_def)
    then have "run_agentId q = i" using p(3) h by simp
    then show False using refs(2) q(1) assms(6) by blast
  qed
  have "filter (\<lambda>c. chat_agentId c = i) (db_chats d') = []" "filter (\<lambda>r. run_agentId r = i) (db_runs d') = []"
    using refs assms(6) by (auto simp: filter_empty_conv)
  moreover have "filter (\<lambda>u. list_ex (\<lambda>r. run_id r = usage_runId u \<and> run_agentId r = i) (db_runs d)) (db_usage d') = []"
    using no_usage by (auto simp: filter_empty_conv list_ex_iff)
  ultimately show ?thesis using z by blast
qed

section \<open>Witnesses\<close>

definition sample_face :: "id \<Rightarrow> agent_face" where
  "sample_face i = \<lparr>af_id = i, af_name = i, af_workspacePath = ''/w'', af_endpoint = ''n1'', af_preset = None, af_gitRemote = None, af_public = False\<rparr>"

definition sample_registry :: db where
  "sample_registry = empty_db\<lparr>db_agents := [face_row (sample_face ''w1'') 3, face_row (sample_face ''gone'') 4],
     db_runs := [\<lparr>run_id = ''r1'', run_agentId = ''gone'', run_apiKeyId = None, run_chatId = None, run_sourceChatId = None,
       run_conflict = None, run_cronId = None, run_dshSessionId = None, run_trigger = Manual, run_idempotencyKey = None,
       run_state = Done, run_resultSummary = None, run_startedAt = 5, run_endedAt = Some 6, run_error = None, run_commitHash = None\<rparr>],
     db_usage := [\<lparr>usage_id = 1, usage_runId = ''r1'', usage_provider = None, usage_model = None, usage_inputTokens = 10,
       usage_outputTokens = 2, usage_cacheRead = None, usage_cacheWrite = None, usage_reasoningTokens = None,
       usage_cost = Some 7, usage_peakCost = Some 0, usage_at = 6\<rparr>]\<rparr>"

theorem registry_mirrors_config_witness:
  "set (db_agents (fst (mirrorAgents 9 sample_registry [sample_face ''w1'', sample_face ''w2''] True))) =
     {face_row (sample_face ''w1'') 3, face_row (sample_face ''w2'') 9}"
proof -
  have "distinct (map af_id [sample_face ''w1'', sample_face ''w2''])" "distinct (map agent_id (db_agents sample_registry))"
    by code_simp+
  from registry_mirrors_config [OF this refl] show ?thesis
    by (simp add: created_in_def first_row_def sample_registry_def sample_face_def face_row_def)
qed

definition sample_reconcile :: reconcile_config where
  "sample_reconcile = \<lparr>rc_agents = [sample_face ''w1''], rc_spawn = (\<lambda>i. None), rc_services = []\<rparr>"

theorem removed_agent_loses_history_witness:
  "filter (\<lambda>r. run_agentId r = ''gone'') (db_runs (fst (reconcile_db sample_reconcile boot_opts 9 sample_registry))) = []"
proof -
  have "agent_refs_ok sample_registry" "ledger_ok sample_registry sample_registry" "distinct (map run_id (db_runs sample_registry))"
    "opt_runHygiene boot_opts" "opt_removeStaleAgents boot_opts" "''gone'' \<notin> af_id ` set (rc_agents sample_reconcile)"
    by code_simp+
  from removed_agent_loses_history [OF this refl] show ?thesis by blast
qed

end
