(* ===== verification/Transcript.thy ===== *)
theory Transcript
  imports Prelude
begin

text \<open>
  The transcript of a chat: the page's reducer (\<^verbatim>\<open>public/assets/chat-reducer.js\<close>) that folds frames into blocks, the
  compaction of a replayed history on the server (\<^verbatim>\<open>src/chat/replay.ts\<close>), the card registry of the page
  (\<^verbatim>\<open>chat-state.js\<close>), and the wire layer that loads a chat and dispatches live frames
  (\<^verbatim>\<open>chat-wire.js\<close>).

  A field that the code reads with \<^verbatim>\<open>typeof x === 'string'\<close> is an option: None stands for any other value.
  \<^verbatim>\<open>JSON.parse\<close> and the translation function \<^verbatim>\<open>t\<close> are arguments.
\<close>

section \<open>Frames\<close>

datatype json = JNull | JBool bool | JNum int | JStr string | JList "json list" | JObj "(string \<times> json) list"

record chunk =
  ck_type :: "string option"
  ck_text :: "string option"

record wire_usage =
  wu_inputTokens :: "int option"
  wu_outputTokens :: "int option"
  wu_reasoningTokens :: "int option"

record turn_detail =
  td_message :: "string option"
  td_cause :: "string option"

record upstream_goal =
  ug_id :: string
  ug_objective :: string
  ug_phase :: string
  ug_blockedReason :: "string option"

datatype tframe =
    UserFrame "string option" "time option"
  | TurnStartFrame
  | ChunkFrame "chunk option"
  | MessageFrame "string option" "string option" "wire_usage option"
  | ApprovalAskedFrame "string option" "string option"
  | ApprovalDecidedFrame
  | ToolCallFrame "string option" "string option"
  | ToolResultFrame bool "string option"
  | TurnEndFrame "string option" "turn_detail option"
  | TurnDoneFrame "string option" "string option" "string option"
  | QuestionAskedFrame "string option" "json list option"
  | QuestionResolvedFrame "string option"
  | ApprovalPendingFrame "string option" "string option" "string option" "string option"
  | ApprovalResolvedFrame "string option" "string option"
  | TurnQueuedFrame "string option" "string option"
  | GoalFrame "upstream_goal option"
  | HelloFrame
  | ComposerStateFrame "(string \<times> json) list"
  | DelegationDoneFrame
  | UnknownFrame string

text \<open>A frame as it travels, with its sequence number (the frames of the manager itself have none).\<close>

type_synonym tevent = "int option \<times> tframe"

section \<open>Blocks\<close>

record tool_row =
  tl_name :: string
  tl_args :: "json option"
  tl_raw :: string
  tl_path :: "string option"
  tl_write :: bool
  tl_failed :: bool
  tl_done :: bool
  tl_resultText :: string

record block_usage =
  bu_inputTokens :: int
  bu_outputTokens :: int
  bu_reasoningTokens :: int

record chat_run =
  cr_id :: string
  cr_state :: string
  cr_error :: "string option"
  cr_startedAt :: "time option"

record agent_block =
  ab_text :: string
  ab_streamed :: string
  ab_streaming :: bool
  ab_reasoning :: string
  ab_tools :: "tool_row list"
  ab_usage :: "block_usage option"
  ab_reason :: "string option"
  ab_error :: "string option"
  ab_runId :: "string option"
  ab_runState :: "string option"
  ab_awaiting :: "(string \<times> string) option"
  ab_run :: "chat_run option"

definition newAgentBlock :: agent_block where
  "newAgentBlock = \<lparr>ab_text = [], ab_streamed = [], ab_streaming = False, ab_reasoning = [], ab_tools = [], ab_usage = None,
     ab_reason = None, ab_error = None, ab_runId = None, ab_runState = None, ab_awaiting = None, ab_run = None\<rparr>"

datatype block = UserBlock string bool "time option" | AgentBlock agent_block

section \<open>The pieces of the reducer\<close>

definition or0 :: "int option \<Rightarrow> int" where
  "or0 x = (case x of None \<Rightarrow> 0 | Some n \<Rightarrow> n)"

definition str_or_empty :: "string option \<Rightarrow> string" where
  "str_or_empty x = (case x of None \<Rightarrow> [] | Some s \<Rightarrow> s)"

definition addUsage :: "block_usage option \<Rightarrow> wire_usage option \<Rightarrow> block_usage option" where
  "addUsage into usage = (case usage of None \<Rightarrow> into
     | Some u \<Rightarrow> (let base = (case into of None \<Rightarrow> \<lparr>bu_inputTokens = 0, bu_outputTokens = 0, bu_reasoningTokens = 0\<rparr> | Some b \<Rightarrow> b)
         in Some \<lparr>bu_inputTokens = bu_inputTokens base + or0 (wu_inputTokens u),
                  bu_outputTokens = bu_outputTokens base + or0 (wu_outputTokens u),
                  bu_reasoningTokens = bu_reasoningTokens base + or0 (wu_reasoningTokens u)\<rparr>))"

definition PATH_KEYS :: "string list" where
  "PATH_KEYS = [''path'', ''file_path'', ''filePath'', ''file'', ''target'', ''filename'']"

definition path_at :: "(string \<times> json) list \<Rightarrow> string \<Rightarrow> string option" where
  "path_at kvs key = (case map_of kvs key of Some (JStr v) \<Rightarrow> if v = [] then None else Some v | _ \<Rightarrow> None)"

fun first_path :: "(string \<times> json) list \<Rightarrow> string list \<Rightarrow> string option" where
  "first_path kvs [] = None"
| "first_path kvs (key # keys) = (case path_at kvs key of Some v \<Rightarrow> Some v | None \<Rightarrow> first_path kvs keys)"

definition toolPath :: "json option \<Rightarrow> string option" where
  "toolPath args = (case args of Some (JObj kvs) \<Rightarrow> first_path kvs PATH_KEYS | _ \<Rightarrow> None)"

definition ascii_lower :: "char \<Rightarrow> char" where
  "ascii_lower c = (let n = of_char c :: nat in if 65 \<le> n \<and> n \<le> 90 then char_of (n + 32) else c)"

definition WRITE_HINT :: "string list" where
  "WRITE_HINT = [''write'', ''edit'', ''create'', ''save'', ''append'', ''patch'', ''replace'', ''update'', ''insert'', ''move'',
     ''rename'', ''mkdir'', ''delete'', ''remove'']"

definition isWrite :: "string \<Rightarrow> bool" where
  "isWrite name = list_ex (str_includes (map ascii_lower name)) WRITE_HINT"

text \<open>An object or an array survives; a string, a number and null do not, and neither does what does not parse.\<close>

definition parseArgs :: "(string \<Rightarrow> json option) \<Rightarrow> string option \<Rightarrow> json option" where
  "parseArgs json_parse raw = (case raw of None \<Rightarrow> None | Some s \<Rightarrow> if s = [] then None else
     (case json_parse s of Some (JObj fs) \<Rightarrow> Some (JObj fs) | Some (JList xs) \<Rightarrow> Some (JList xs) | _ \<Rightarrow> None))"

definition REMINDER_OPEN :: string where
  "REMINDER_OPEN = ''<system-reminder>''"

definition REMINDER_CLOSE :: string where
  "REMINDER_CLOSE = ''</system-reminder>''"

definition wrapped_reminder :: "string \<Rightarrow> bool" where
  "wrapped_reminder text = (let s = js_trim text in
     length REMINDER_OPEN + length REMINDER_CLOSE \<le> length s \<and> is_prefix REMINDER_OPEN s \<and> is_prefix (rev REMINDER_CLOSE) (rev s))"

definition is_user_block :: "block \<Rightarrow> bool" where
  "is_user_block b = (case b of UserBlock _ _ _ \<Rightarrow> True | AgentBlock _ \<Rightarrow> False)"

definition isInjected :: "string \<Rightarrow> block list \<Rightarrow> bool" where
  "isInjected text bs = (wrapped_reminder text \<or> (bs \<noteq> [] \<and> is_user_block (last bs)))"

section \<open>The reducer\<close>

text \<open>
  Whether the last block is an agent block still being written to, and the update of that block: the code's
  \<^verbatim>\<open>agent()\<close> returns the open block, or pushes a new one.
\<close>

definition is_open :: "block list \<Rightarrow> bool" where
  "is_open bs = (bs \<noteq> [] \<and> (case last bs of AgentBlock b \<Rightarrow> ab_reason b = None | UserBlock _ _ _ \<Rightarrow> False))"

definition agent_of :: "block \<Rightarrow> agent_block" where
  "agent_of b = (case b of AgentBlock a \<Rightarrow> a | UserBlock _ _ _ \<Rightarrow> newAgentBlock)"

definition with_agent :: "(agent_block \<Rightarrow> agent_block) \<Rightarrow> block list \<Rightarrow> block list" where
  "with_agent f bs = (if is_open bs then butlast bs @ [AgentBlock (f (agent_of (last bs)))] else bs @ [AgentBlock (f newAgentBlock)])"

text \<open>The newest call without a result takes the result.\<close>

fun settle_first :: "(tool_row \<Rightarrow> tool_row) \<Rightarrow> tool_row list \<Rightarrow> tool_row list" where
  "settle_first f [] = []"
| "settle_first f (t # ts) = (if tl_done t then t # settle_first f ts else f t # ts)"

definition settle_newest :: "(tool_row \<Rightarrow> tool_row) \<Rightarrow> tool_row list \<Rightarrow> tool_row list" where
  "settle_newest f ts = rev (settle_first f (rev ts))"

record page_env =
  pe_json :: "string \<Rightarrow> json option"
  pe_t :: "string \<Rightarrow> string"

definition chunk_effect :: "chunk \<Rightarrow> agent_block \<Rightarrow> agent_block" where
  "chunk_effect c b = (let text = str_or_empty (ck_text c) in
     if ck_type c = Some ''text-delta'' then b\<lparr>ab_streamed := ab_streamed b @ text, ab_streaming := True\<rparr>
     else if ck_type c = Some ''reasoning-delta'' then b\<lparr>ab_reasoning := ab_reasoning b @ text\<rparr>
     else b)"

definition message_effect :: "string option \<Rightarrow> string option \<Rightarrow> wire_usage option \<Rightarrow> agent_block \<Rightarrow> agent_block" where
  "message_effect text reasoning usage b =
     b\<lparr>ab_text := ab_text b @ str_or_empty text, ab_streamed := [], ab_streaming := False,
       ab_reasoning := (if str_or_empty reasoning = [] then ab_reasoning b else str_or_empty reasoning),
       ab_usage := addUsage (ab_usage b) usage\<rparr>"

definition new_tool :: "page_env \<Rightarrow> string option \<Rightarrow> string option \<Rightarrow> tool_row" where
  "new_tool pe name arguments = (let n = str_or_empty name; args = parseArgs (pe_json pe) arguments in
     \<lparr>tl_name = n, tl_args = args, tl_raw = str_or_empty arguments, tl_path = toolPath args, tl_write = isWrite n,
      tl_failed = False, tl_done = False, tl_resultText = []\<rparr>)"

definition result_effect :: "bool \<Rightarrow> string option \<Rightarrow> agent_block \<Rightarrow> agent_block" where
  "result_effect isError text b =
     b\<lparr>ab_tools := settle_newest (\<lambda>t. t\<lparr>tl_done := True, tl_failed := isError, tl_resultText := str_or_empty text\<rparr>) (ab_tools b)\<rparr>"

definition end_error :: "page_env \<Rightarrow> string \<Rightarrow> turn_detail option \<Rightarrow> string option \<Rightarrow> string option" where
  "end_error pe reason detail err =
     (if reason = ''error'' then Some (case Option.bind detail td_message of None \<Rightarrow> pe_t pe ''chat.reducer.errorEnd'' | Some m \<Rightarrow> m)
      else if reason = ''aborted''
      then Some (if Option.bind detail td_cause = Some ''user_cancelled'' then pe_t pe ''chat.reducer.cancelled''
                 else pe_t pe ''chat.reducer.interrupted'')
      else err)"

definition end_effect :: "page_env \<Rightarrow> string option \<Rightarrow> turn_detail option \<Rightarrow> agent_block \<Rightarrow> agent_block" where
  "end_effect pe reason detail b = (let r = (case reason of None \<Rightarrow> ''unknown'' | Some x \<Rightarrow> x) in
     b\<lparr>ab_streaming := False, ab_reason := Some r, ab_error := end_error pe r detail (ab_error b)\<rparr>)"

definition done_effect :: "string option \<Rightarrow> string option \<Rightarrow> string option \<Rightarrow> agent_block \<Rightarrow> agent_block" where
  "done_effect runId state err b =
     b\<lparr>ab_streaming := False,
       ab_reason := (case ab_reason b of None \<Rightarrow> Some (if state = Some ''done'' then ''completed'' else ''error'') | Some r \<Rightarrow> Some r),
       ab_error := (if str_or_empty err = [] then ab_error b else Some (str_or_empty err)),
       ab_runId := runId, ab_runState := state\<rparr>"

definition reduce :: "page_env \<Rightarrow> block list \<Rightarrow> tframe \<Rightarrow> block list" where
  "reduce pe bs f = (case f of
     UserFrame text time \<Rightarrow> bs @ [UserBlock (str_or_empty text) (isInjected (str_or_empty text) bs) time]
   | ChunkFrame (Some c) \<Rightarrow> with_agent (chunk_effect c) bs
   | MessageFrame text reasoning usage \<Rightarrow> with_agent (message_effect text reasoning usage) bs
   | ApprovalAskedFrame name reason \<Rightarrow> with_agent (\<lambda>b. b\<lparr>ab_awaiting := Some (str_or_empty name, str_or_empty reason)\<rparr>) bs
   | ApprovalDecidedFrame \<Rightarrow> with_agent (\<lambda>b. b\<lparr>ab_awaiting := None\<rparr>) bs
   | ToolCallFrame name arguments \<Rightarrow> with_agent (\<lambda>b. b\<lparr>ab_tools := ab_tools b @ [new_tool pe name arguments]\<rparr>) bs
   | ToolResultFrame isError text \<Rightarrow> with_agent (result_effect isError text) bs
   | TurnEndFrame reason detail \<Rightarrow> with_agent (end_effect pe reason detail) bs
   | TurnDoneFrame runId state err \<Rightarrow> with_agent (done_effect runId state err) bs
   | _ \<Rightarrow> bs)"

text \<open>The rows of the runs are attached by position, and only when the counts agree.\<close>

definition attach_run :: "chat_run \<Rightarrow> agent_block \<Rightarrow> agent_block" where
  "attach_run run b =
     b\<lparr>ab_error := (if ab_error b = None then cr_error run else ab_error b),
       ab_runId := (case ab_runId b of None \<Rightarrow> Some (cr_id run) | Some i \<Rightarrow> Some i),
       ab_runState := (case ab_runState b of None \<Rightarrow> Some (cr_state run) | Some s \<Rightarrow> Some s),
       ab_run := Some run\<rparr>"

fun attach_all :: "block list \<Rightarrow> chat_run list \<Rightarrow> block list" where
  "attach_all (AgentBlock b # bs) (run # runs) = AgentBlock (attach_run run b) # attach_all bs runs"
| "attach_all (UserBlock x y z # bs) runs = UserBlock x y z # attach_all bs runs"
| "attach_all bs [] = bs"
| "attach_all [] runs = []"

definition attachRuns :: "block list \<Rightarrow> chat_run list \<Rightarrow> block list" where
  "attachRuns bs turns = (if length turns \<noteq> length (filter (\<lambda>b. \<not> is_user_block b) bs) then bs else attach_all bs turns)"

definition build :: "page_env \<Rightarrow> tevent list \<Rightarrow> chat_run list \<Rightarrow> block list" where
  "build pe events turns = attachRuns (foldl (reduce pe) [] (map snd events)) turns"

section \<open>Compaction of a replayed history\<close>

definition is_turn_end :: "tevent \<Rightarrow> bool" where
  "is_turn_end e = (case snd e of TurnEndFrame _ _ \<Rightarrow> True | _ \<Rightarrow> False)"

fun segments :: "tevent list \<Rightarrow> tevent list \<Rightarrow> tevent list list" where
  "segments current [] = (if current = [] then [] else [current])"
| "segments current (e # es) = (if is_turn_end e then (current @ [e]) # segments [] es else segments (current @ [e]) es)"

definition is_message :: "tevent \<Rightarrow> bool" where
  "is_message e = (case snd e of MessageFrame _ _ _ \<Rightarrow> True | _ \<Rightarrow> False)"

definition chunkType :: "chunk option \<Rightarrow> string" where
  "chunkType c = str_or_empty (Option.bind c ck_type)"

definition chunkText :: "chunk option \<Rightarrow> string" where
  "chunkText c = str_or_empty (Option.bind c ck_text)"

text \<open>The events kept so far, and for each chunk type where its merged copy stands among them.\<close>

record compaction =
  cp_out :: "tevent list"
  cp_merged :: "(string \<times> nat) list"

definition add_text :: "string \<Rightarrow> tevent \<Rightarrow> tevent" where
  "add_text text e = (case e of (s, ChunkFrame (Some c)) \<Rightarrow> (s, ChunkFrame (Some (c\<lparr>ck_text := Some (str_or_empty (ck_text c) @ text)\<rparr>)))
     | _ \<Rightarrow> e)"

definition compact_event :: "bool \<Rightarrow> compaction \<Rightarrow> tevent \<Rightarrow> compaction" where
  "compact_event hasMessage st e = (case e of
     (s, ChunkFrame c) \<Rightarrow>
       (let type = chunkType c in
        if type = ''text-delta'' \<and> hasMessage then st
        else (case map_of (cp_merged st) type of
            None \<Rightarrow> st\<lparr>cp_out := cp_out st @ [(s, ChunkFrame (Some \<lparr>ck_type = Some type, ck_text = Some (chunkText c)\<rparr>))],
                       cp_merged := (type, length (cp_out st)) # cp_merged st\<rparr>
          | Some i \<Rightarrow> st\<lparr>cp_out := (cp_out st)[i := add_text (chunkText c) (cp_out st ! i)]\<rparr>))
   | _ \<Rightarrow> st\<lparr>cp_out := cp_out st @ [e]\<rparr>)"

definition compactSegment :: "tevent list \<Rightarrow> tevent list" where
  "compactSegment seg = cp_out (foldl (compact_event (list_ex is_message seg)) \<lparr>cp_out = [], cp_merged = []\<rparr> seg)"

definition compactHistory :: "tevent list \<Rightarrow> tevent list" where
  "compactHistory events = concat (map compactSegment (segments [] events))"

section \<open>The cards of the page\<close>

datatype ask = QuestionAsk "json list" | ApprovalAsk "string option" string "string option"

type_synonym asks = "(string \<times> ask) list"

definition ask_for_approval :: "string \<Rightarrow> ask \<Rightarrow> bool" where
  "ask_for_approval approvalId a = (case a of ApprovalAsk (Some i) _ _ \<Rightarrow> i = approvalId | _ \<Rightarrow> False)"

definition track :: "asks \<Rightarrow> tframe \<Rightarrow> asks" where
  "track cards f = (case f of
     QuestionAskedFrame (Some q) (Some questions) \<Rightarrow> AList.update q (QuestionAsk questions) cards
   | ApprovalPendingFrame (Some d) a name reason \<Rightarrow> AList.update d (ApprovalAsk a (str_or_empty name) reason) cards
   | QuestionResolvedFrame (Some q) \<Rightarrow> AList.delete q cards
   | ApprovalResolvedFrame (Some d) a \<Rightarrow> AList.delete d cards
   | ApprovalResolvedFrame None (Some a) \<Rightarrow> filter (\<lambda>(k, v). \<not> ask_for_approval a v) cards
   | TurnEndFrame _ _ \<Rightarrow> []
   | TurnDoneFrame _ _ _ \<Rightarrow> []
   | _ \<Rightarrow> cards)"

section \<open>Loading a chat and dispatching live frames\<close>

record dock_item =
  di_id :: string
  di_text :: string
  di_at :: time

record page_state =
  ps_goal :: "upstream_goal option"
  ps_composer :: "(string \<times> json) list"

record wire =
  wi_state :: "page_state option"
  wi_blocks :: "block list"
  wi_asks :: asks
  wi_pendingUserTexts :: "dock_item list"
  wi_queuedItems :: "dock_item list"
  wi_loading :: bool
  wi_buffered :: "tevent list"
  wi_sending :: bool
  wi_turnStartedAt :: "time option"

record snapshot =
  sn_events :: "tevent list"
  sn_turns :: "chat_run list"
  sn_liveFrames :: "tevent list"
  sn_busyRunId :: "string option"
  sn_state :: page_state

definition load_begin :: "wire \<Rightarrow> wire" where
  "load_begin w = w\<lparr>wi_loading := True, wi_buffered := []\<rparr>"

definition load_failed :: "wire \<Rightarrow> wire" where
  "load_failed w = w\<lparr>wi_loading := False\<rparr>"

fun unique_from :: "tevent list \<Rightarrow> tevent list \<Rightarrow> tevent list" where
  "unique_from seen [] = []"
| "unique_from seen (f # fs) = (if f \<in> set seen then unique_from seen fs else f # unique_from (f # seen) fs)"

definition uniqueFrames :: "tevent list \<Rightarrow> tevent list" where
  "uniqueFrames fs = unique_from [] fs"

definition last_user_text :: "block list \<Rightarrow> string option" where
  "last_user_text bs = (case filter is_user_block (rev bs) of UserBlock t _ _ # _ \<Rightarrow> Some t | _ \<Rightarrow> None)"

definition alreadyLoaded :: "tevent \<Rightarrow> int \<Rightarrow> block list \<Rightarrow> bool" where
  "alreadyLoaded e maxSeq bs = (case e of
     (Some s, f) \<Rightarrow> s \<le> maxSeq
   | (None, UserFrame text _) \<Rightarrow> last_user_text bs \<noteq> None \<and> last_user_text bs = text
   | _ \<Rightarrow> False)"

definition max_seq :: "tevent list \<Rightarrow> int" where
  "max_seq es = foldl (\<lambda>m e. case fst e of Some s \<Rightarrow> if s > m then s else m | None \<Rightarrow> m) (- 1) es"

text \<open>The messages just sent are drawn until the history has them.\<close>

definition shows_text :: "string \<Rightarrow> block list \<Rightarrow> bool" where
  "shows_text text bs = list_ex (\<lambda>b. case b of UserBlock t _ _ \<Rightarrow> t = text | AgentBlock _ \<Rightarrow> False) bs"

definition push_pending :: "block list \<times> dock_item list \<Rightarrow> dock_item \<Rightarrow> block list \<times> dock_item list" where
  "push_pending acc p = (case acc of (bs, still) \<Rightarrow>
     if shows_text (di_text p) bs then (bs, still) else (bs @ [UserBlock (di_text p) False (Some (di_at p))], still @ [p]))"

text \<open>The queued message whose turn starts leaves the dock.\<close>

definition dequeue_started :: "wire \<Rightarrow> wire" where
  "dequeue_started w = (case wi_queuedItems w of [] \<Rightarrow> w
     | q # qs \<Rightarrow> w\<lparr>wi_queuedItems := qs, wi_pendingUserTexts := wi_pendingUserTexts w @ [q]\<rparr>)"

definition dock :: "time \<Rightarrow> string option \<Rightarrow> string option \<Rightarrow> wire \<Rightarrow> wire" where
  "dock now i text w = w\<lparr>wi_queuedItems := wi_queuedItems w @ [\<lparr>di_id = str_or_empty i, di_text = str_or_empty text, di_at = now\<rparr>]\<rparr>"

definition apply_pending :: "time \<Rightarrow> wire \<Rightarrow> tevent \<Rightarrow> wire" where
  "apply_pending now w e = (case snd e of
     TurnQueuedFrame i text \<Rightarrow> dock now i text w
   | TurnStartFrame \<Rightarrow> dequeue_started w
   | GoalFrame g \<Rightarrow> w\<lparr>wi_state := map_option (\<lambda>s. s\<lparr>ps_goal := g\<rparr>) (wi_state w)\<rparr>
   | _ \<Rightarrow> w)"

definition drawn_frame :: "tevent \<Rightarrow> bool" where
  "drawn_frame e = (case snd e of TurnQueuedFrame _ _ \<Rightarrow> False | GoalFrame _ \<Rightarrow> False | _ \<Rightarrow> True)"

definition running_since :: "snapshot \<Rightarrow> time option" where
  "running_since sn = (case sn_busyRunId sn of None \<Rightarrow> None
     | Some i \<Rightarrow> Option.bind (first_row (\<lambda>r. cr_id r = i) (sn_turns sn)) cr_startedAt)"

definition load_done :: "page_env \<Rightarrow> time \<Rightarrow> snapshot \<Rightarrow> wire \<Rightarrow> wire" where
  "load_done pe now sn w =
     (let w1 = w\<lparr>wi_state := Some (sn_state sn),
                wi_turnStartedAt := (case running_since sn of Some t \<Rightarrow> Some t
                                     | None \<Rightarrow> if wi_sending w then wi_turnStartedAt w else None)\<rparr>;
          maxSeq = max_seq (sn_events sn)
      in case foldl push_pending (build pe (sn_events sn) (sn_turns sn), []) (wi_pendingUserTexts w1) of (rebuilt, still) \<Rightarrow>
        (let w2 = w1\<lparr>wi_pendingUserTexts := still\<rparr>;
             frames = filter (\<lambda>e. \<not> alreadyLoaded e maxSeq rebuilt) (uniqueFrames (sn_liveFrames sn @ wi_buffered w2));
             w3 = foldl (apply_pending now) w2 frames
         in w3\<lparr>wi_blocks := foldl (reduce pe) rebuilt (map snd (filter drawn_frame frames)),
               wi_asks := foldl track [] (map snd frames), wi_buffered := [], wi_loading := False\<rparr>))"

definition buffer :: "tevent \<Rightarrow> wire \<Rightarrow> wire" where
  "buffer e w = w\<lparr>wi_buffered := wi_buffered w @ [e]\<rparr>"

definition merge_composer :: "(string \<times> json) list \<Rightarrow> page_state \<Rightarrow> page_state" where
  "merge_composer kvs s = s\<lparr>ps_composer := foldl (\<lambda>m (k, v). AList.update k v m) (ps_composer s) kvs\<rparr>"

definition start_clock :: "time \<Rightarrow> wire \<Rightarrow> wire" where
  "start_clock now w = (if wi_turnStartedAt w = None then w\<lparr>wi_turnStartedAt := Some now\<rparr> else w)"

text \<open>The frame goes into the transcript and the cards; True asks for a reload.\<close>

definition fold_frame :: "page_env \<Rightarrow> tframe \<Rightarrow> wire \<Rightarrow> wire" where
  "fold_frame pe f w = w\<lparr>wi_blocks := reduce pe (wi_blocks w) f, wi_asks := track (wi_asks w) f\<rparr>"

definition handleFrame :: "page_env \<Rightarrow> time \<Rightarrow> tevent \<Rightarrow> wire \<Rightarrow> wire \<times> bool" where
  "handleFrame pe now e w = (case (snd e, wi_state w) of
     (HelloFrame, _) \<Rightarrow> (w, False)
   | (ComposerStateFrame kvs, Some s) \<Rightarrow> (w\<lparr>wi_state := Some (merge_composer kvs s)\<rparr>, False)
   | (DelegationDoneFrame, _) \<Rightarrow> (w, False)
   | (TurnQueuedFrame i text, _) \<Rightarrow> (if wi_loading w then buffer e w else dock now i text w, False)
   | (f, st) \<Rightarrow>
       if wi_loading w then (buffer e w, False)
       else (case (f, st) of
          (GoalFrame g, Some s) \<Rightarrow> (w\<lparr>wi_state := Some (s\<lparr>ps_goal := g\<rparr>)\<rparr>, False)
        | (TurnStartFrame, _) \<Rightarrow> (start_clock now (fold_frame pe f (dequeue_started w)), False)
        | (TurnDoneFrame _ _ _, _) \<Rightarrow> ((fold_frame pe f w)\<lparr>wi_sending := False, wi_turnStartedAt := None\<rparr>, True)
        | _ \<Rightarrow> (fold_frame pe f w, False)))"

section \<open>What is drawn of a block\<close>

text \<open>
  The renderer shows the text of the messages, and the streamed text only while there is none; the reasoning is not drawn.
\<close>

definition drawn_body :: "agent_block \<Rightarrow> string" where
  "drawn_body b = (if ab_text b \<noteq> [] then ab_text b else ab_streamed b)"

definition drawn :: "block \<Rightarrow> block" where
  "drawn x = (case x of UserBlock t i a \<Rightarrow> UserBlock t i a | AgentBlock b \<Rightarrow> AgentBlock (b\<lparr>ab_reasoning := []\<rparr>))"

definition opens :: "tframe \<Rightarrow> bool" where
  "opens f = (case f of ChunkFrame c \<Rightarrow> c \<noteq> None | MessageFrame _ _ _ \<Rightarrow> True | ApprovalAskedFrame _ _ \<Rightarrow> True
     | ApprovalDecidedFrame \<Rightarrow> True | ToolCallFrame _ _ \<Rightarrow> True | ToolResultFrame _ _ \<Rightarrow> True | TurnEndFrame _ _ \<Rightarrow> True
     | TurnDoneFrame _ _ _ \<Rightarrow> True | _ \<Rightarrow> False)"

definition is_user_frame :: "tframe \<Rightarrow> bool" where
  "is_user_frame f = (case f of UserFrame _ _ \<Rightarrow> True | _ \<Rightarrow> False)"

definition ends_turn :: "tframe \<Rightarrow> bool" where
  "ends_turn f = (case f of TurnEndFrame _ _ \<Rightarrow> True | TurnDoneFrame _ _ _ \<Rightarrow> True | _ \<Rightarrow> False)"

definition is_chunk :: "tframe \<Rightarrow> bool" where
  "is_chunk f = (case f of ChunkFrame _ \<Rightarrow> True | _ \<Rightarrow> False)"

text \<open>What a frame does to the open block.\<close>

definition agent_effect :: "page_env \<Rightarrow> tframe \<Rightarrow> agent_block \<Rightarrow> agent_block" where
  "agent_effect pe f = (case f of
     ChunkFrame (Some c) \<Rightarrow> chunk_effect c
   | MessageFrame text reasoning usage \<Rightarrow> message_effect text reasoning usage
   | ApprovalAskedFrame name reason \<Rightarrow> (\<lambda>b. b\<lparr>ab_awaiting := Some (str_or_empty name, str_or_empty reason)\<rparr>)
   | ApprovalDecidedFrame \<Rightarrow> (\<lambda>b. b\<lparr>ab_awaiting := None\<rparr>)
   | ToolCallFrame name arguments \<Rightarrow> (\<lambda>b. b\<lparr>ab_tools := ab_tools b @ [new_tool pe name arguments]\<rparr>)
   | ToolResultFrame isError text \<Rightarrow> result_effect isError text
   | TurnEndFrame reason detail \<Rightarrow> end_effect pe reason detail
   | TurnDoneFrame runId state err \<Rightarrow> done_effect runId state err
   | _ \<Rightarrow> (\<lambda>b. b))"

lemmas effect_defs = agent_effect_def chunk_effect_def message_effect_def result_effect_def end_effect_def done_effect_def Let_def

lemma reduce_opens: "opens f \<Longrightarrow> reduce pe bs f = with_agent (agent_effect pe f) bs"
  by (cases f) (auto simp: opens_def reduce_def agent_effect_def)

lemma reduce_quiet: "\<not> opens f \<Longrightarrow> \<not> is_user_frame f \<Longrightarrow> reduce pe bs f = bs"
  by (cases f) (auto simp: opens_def is_user_frame_def reduce_def)

lemma effect_quiet: "\<not> opens f \<Longrightarrow> agent_effect pe f b = b"
  by (cases f) (auto simp: opens_def agent_effect_def)

lemma effect_keeps_reason: "\<not> ends_turn f \<Longrightarrow> ab_reason (agent_effect pe f b) = ab_reason b"
  by (cases f) (auto simp: ends_turn_def effect_defs split: option.splits)

lemma is_open_snoc [simp]: "is_open (bs @ [AgentBlock b]) \<longleftrightarrow> ab_reason b = None" "\<not> is_open (bs @ [UserBlock t i a])" "\<not> is_open []"
  by (simp_all add: is_open_def)

lemma with_agent_open [simp]: "ab_reason b = None \<Longrightarrow> with_agent f (bs @ [AgentBlock b]) = bs @ [AgentBlock (f b)]"
  by (simp add: with_agent_def agent_of_def)

lemma with_agent_two [simp]: "ab_reason b = None \<Longrightarrow> with_agent f [x, AgentBlock b] = [x, AgentBlock (f b)]"
  using with_agent_open [of b f "[x]"] by simp

lemma with_agent_closed: "\<not> is_open bs \<Longrightarrow> with_agent f bs = bs @ [AgentBlock (f newAgentBlock)]"
  by (simp add: with_agent_def)

lemma newAgentBlock_sel [simp]:
  "ab_reason newAgentBlock = None" "ab_streamed newAgentBlock = []" "ab_streaming newAgentBlock = False" "ab_tools newAgentBlock = []"
  "ab_text newAgentBlock = []"
  by (simp_all add: newAgentBlock_def)

text \<open>Frames without a user message and without the end of the turn are folded into one block.\<close>

definition body_frame :: "tframe \<Rightarrow> bool" where
  "body_frame f \<longleftrightarrow> \<not> is_user_frame f \<and> \<not> ends_turn f"

lemma reduce_body_open:
  "list_all body_frame fs \<Longrightarrow> ab_reason b = None \<Longrightarrow>
     foldl (reduce pe) (bs @ [AgentBlock b]) fs = bs @ [AgentBlock (foldl (\<lambda>b f. agent_effect pe f b) b fs)]"
proof (induction fs arbitrary: b)
  case (Cons f fs)
  then have "reduce pe (bs @ [AgentBlock b]) f = bs @ [AgentBlock (agent_effect pe f b)]"
    by (cases "opens f") (auto simp: reduce_opens reduce_quiet effect_quiet body_frame_def)
  then show ?case using Cons by (simp add: body_frame_def effect_keeps_reason)
qed simp

lemma reduce_body:
  "list_all body_frame fs \<Longrightarrow> \<not> is_open bs \<Longrightarrow>
     foldl (reduce pe) bs fs =
       (if list_ex opens fs then bs @ [AgentBlock (foldl (\<lambda>b f. agent_effect pe f b) newAgentBlock fs)] else bs)"
proof (induction fs)
  case (Cons f fs)
  show ?case
  proof (cases "opens f")
    case True
    then have "reduce pe bs f = bs @ [AgentBlock (agent_effect pe f newAgentBlock)]"
      using Cons.prems(2) by (simp add: reduce_opens with_agent_closed)
    moreover have "list_all body_frame fs" "ab_reason (agent_effect pe f newAgentBlock) = None"
      using Cons.prems(1) by (simp_all add: effect_keeps_reason body_frame_def [of f])
    ultimately show ?thesis using True by (simp add: reduce_body_open)
  next
    case False
    then have "reduce pe bs f = bs" using Cons.prems(1) by (simp add: reduce_quiet body_frame_def)
    then show ?thesis using Cons False by (simp add: effect_quiet)
  qed
qed simp

text \<open>Leading frames that open no block leave the list closed.\<close>

lemma reduce_lead: "list_all (\<lambda>f. \<not> opens f) fs \<Longrightarrow> \<not> is_open bs \<Longrightarrow> \<not> is_open (foldl (reduce pe) bs fs)"
proof (induction fs arbitrary: bs)
  case (Cons f fs)
  then have "\<not> is_open (reduce pe bs f)"
    by (cases f) (auto simp: reduce_def opens_def split: option.splits)
  then show ?case using Cons by simp
qed simp

text \<open>The drawn part of the transcript is a function of the drawn part and the frame.\<close>

lemma drawn_simps [simp]:
  "drawn (UserBlock t i a) = UserBlock t i a" "drawn (AgentBlock b) = AgentBlock (b\<lparr>ab_reasoning := []\<rparr>)"
  by (simp_all add: drawn_def)

lemma drawn_is_user: "drawn x = drawn y \<Longrightarrow> is_user_block x = is_user_block y"
  by (cases x; cases y) (auto simp: is_user_block_def)

lemma effect_drawn:
  "b\<lparr>ab_reasoning := []\<rparr> = c\<lparr>ab_reasoning := []\<rparr> \<Longrightarrow>
     (agent_effect pe f b)\<lparr>ab_reasoning := []\<rparr> = (agent_effect pe f c)\<lparr>ab_reasoning := []\<rparr>"
  by (cases f; cases b; cases c) (auto simp: effect_defs split: option.splits)

lemma drawn_open:
  assumes "map drawn bs = map drawn cs"
  shows "is_open bs = is_open cs"
proof (cases bs rule: rev_cases)
  case (snoc bs' x)
  then obtain cs' y where "cs = cs' @ [y]" "drawn x = drawn y" using assms by (cases cs rule: rev_cases) auto
  then show ?thesis using snoc by (cases x; cases y; auto simp: is_open_def) (metis agent_block.select_convs(7) agent_block.surjective agent_block.update_convs(4))+
qed (use assms in auto)

lemma drawn_last: "map drawn bs = map drawn cs \<Longrightarrow> (bs \<noteq> [] \<and> is_user_block (last bs)) = (cs \<noteq> [] \<and> is_user_block (last cs))"
  by (cases bs rule: rev_cases; cases cs rule: rev_cases) (auto dest: drawn_is_user)

lemma drawn_with_agent:
  assumes "map drawn bs = map drawn cs"
  shows "map drawn (with_agent (agent_effect pe f) bs) = map drawn (with_agent (agent_effect pe f) cs)"
proof (cases "is_open bs")
  case True
  then have "is_open cs" using drawn_open [OF assms] by simp
  then obtain bs' x cs' y where "bs = bs' @ [AgentBlock x]" "cs = cs' @ [AgentBlock y]" "ab_reason x = None" "ab_reason y = None"
    using True by (cases bs rule: rev_cases; cases cs rule: rev_cases) (auto simp: is_open_def split: block.splits)
  then show ?thesis using assms effect_drawn [of x y] by simp
next
  case False
  then have "\<not> is_open cs" using drawn_open [OF assms] by simp
  then show ?thesis using False assms by (simp add: with_agent_closed)
qed

lemma drawn_reduce:
  assumes "map drawn bs = map drawn cs"
  shows "map drawn (reduce pe bs f) = map drawn (reduce pe cs f)"
proof (cases "opens f")
  case True
  then show ?thesis using drawn_with_agent [OF assms] by (simp add: reduce_opens)
next
  case False
  then show ?thesis using assms drawn_last [OF assms]
    by (cases f) (auto simp: opens_def reduce_def isInjected_def)
qed

lemma drawn_foldl: "map drawn bs = map drawn cs \<Longrightarrow> map drawn (foldl (reduce pe) bs fs) = map drawn (foldl (reduce pe) cs fs)"
proof (induction fs arbitrary: bs cs)
  case (Cons f fs)
  show ?case using Cons.IH [OF drawn_reduce [OF Cons.prems]] by simp
qed simp

subsection \<open>Three parts of an agent block\<close>

text \<open>The part chunks do not touch, the streamed text and the streaming flag.\<close>

definition core :: "agent_block \<Rightarrow> agent_block" where
  "core b = b\<lparr>ab_streamed := [], ab_streaming := False, ab_reasoning := []\<rparr>"

lemma core_iff:
  "core b = core c \<longleftrightarrow> ab_text b = ab_text c \<and> ab_tools b = ab_tools c \<and> ab_usage b = ab_usage c \<and> ab_reason b = ab_reason c \<and>
     ab_error b = ab_error c \<and> ab_runId b = ab_runId c \<and> ab_runState b = ab_runState c \<and> ab_awaiting b = ab_awaiting c \<and>
     ab_run b = ab_run c"
  by (cases b; cases c) (auto simp: core_def)

lemma core_chunk: "is_chunk f \<Longrightarrow> core (agent_effect pe f b) = core b"
  by (cases f) (simp_all add: is_chunk_def core_iff effect_defs split: option.splits)

lemma core_effect: "core b = core c \<Longrightarrow> core (agent_effect pe f b) = core (agent_effect pe f c)"
  by (cases f) (simp_all add: core_iff effect_defs split: option.splits)

lemma core_foldl:
  "core b = core c \<Longrightarrow>
     core (foldl (\<lambda>b f. agent_effect pe f b) b fs) =
     core (foldl (\<lambda>b f. agent_effect pe f b) c (filter (\<lambda>f. \<not> is_chunk f) fs))"
proof (induction fs arbitrary: b c)
  case (Cons f fs)
  show ?case
  proof (cases "is_chunk f")
    case True
    then have "core (agent_effect pe f b) = core c" using core_chunk [of f pe b] Cons.prems by simp
    then show ?thesis using Cons.IH True by simp
  next
    case False
    then show ?thesis using Cons.IH [OF core_effect [OF Cons.prems]] by simp
  qed
qed simp

definition delta_text :: "tframe \<Rightarrow> string" where
  "delta_text f = (case f of ChunkFrame (Some c) \<Rightarrow> if ck_type c = Some ''text-delta'' then str_or_empty (ck_text c) else [] | _ \<Rightarrow> [])"

definition is_delta :: "tframe \<Rightarrow> bool" where
  "is_delta f = (case f of ChunkFrame (Some c) \<Rightarrow> ck_type c = Some ''text-delta'' | _ \<Rightarrow> False)"

definition is_msg :: "tframe \<Rightarrow> bool" where
  "is_msg f = (case f of MessageFrame _ _ _ \<Rightarrow> True | _ \<Rightarrow> False)"

definition since_message :: "tframe list \<Rightarrow> tframe list" where
  "since_message fs = rev (takeWhile (\<lambda>f. \<not> is_msg f) (rev fs))"

lemma since_message_snoc: "since_message (fs @ [f]) = (if is_msg f then [] else since_message fs @ [f])"
  by (simp add: since_message_def)

lemma since_message_none: "\<not> list_ex is_msg fs \<Longrightarrow> since_message fs = fs"
  by (induction fs rule: rev_induct) (auto simp: since_message_snoc, simp add: since_message_def)

lemma streamed_foldl:
  "list_all body_frame fs \<Longrightarrow>
     ab_streamed (foldl (\<lambda>b f. agent_effect pe f b) newAgentBlock fs) = concat (map delta_text (since_message fs)) \<and>
     ab_streaming (foldl (\<lambda>b f. agent_effect pe f b) newAgentBlock fs) = list_ex is_delta (since_message fs)"
proof (induction fs rule: rev_induct)
  case Nil
  then show ?case by (simp add: since_message_def)
next
  case (snoc f fs)
  then show ?case
    by (cases f) (auto simp: since_message_snoc is_msg_def body_frame_def ends_turn_def delta_text_def is_delta_def effect_defs
        split: option.splits)
qed

lemma drawn_parts:
  "core b = core c \<Longrightarrow> ab_streamed b = ab_streamed c \<Longrightarrow> ab_streaming b = ab_streaming c \<Longrightarrow>
     b\<lparr>ab_reasoning := []\<rparr> = c\<lparr>ab_reasoning := []\<rparr>"
  by (cases b; cases c) (simp add: core_def)

text \<open>
  Two bodies that agree outside the chunks, on whether they open a block, and on the text streamed since the last message, are
  drawn alike.
\<close>

lemma bodies_drawn_alike:
  assumes "list_all body_frame fs" "list_all body_frame gs" "\<not> is_open bs"
    and "filter (\<lambda>f. \<not> is_chunk f) fs = filter (\<lambda>f. \<not> is_chunk f) gs" "list_ex opens fs = list_ex opens gs"
    and "concat (map delta_text (since_message fs)) = concat (map delta_text (since_message gs))"
    and "list_ex is_delta (since_message fs) = list_ex is_delta (since_message gs)"
  shows "map drawn (foldl (reduce pe) bs fs) = map drawn (foldl (reduce pe) bs gs)"
proof -
  let ?b = "foldl (\<lambda>b f. agent_effect pe f b) newAgentBlock"
  have "core (?b fs) = core (?b gs)"
    using core_foldl [of newAgentBlock newAgentBlock pe fs] core_foldl [of newAgentBlock newAgentBlock pe gs] assms(4) by simp
  then have "(?b fs)\<lparr>ab_reasoning := []\<rparr> = (?b gs)\<lparr>ab_reasoning := []\<rparr>"
    using streamed_foldl [OF assms(1), of pe] streamed_foldl [OF assms(2), of pe] assms(6,7) by (intro drawn_parts) simp_all
  then show ?thesis
    using reduce_body [OF assms(1,3), of pe] reduce_body [OF assms(2,3), of pe] assms(5) by simp
qed

subsection \<open>The loop of the compaction\<close>

definition well_chunk :: "tevent \<Rightarrow> bool" where
  "well_chunk e = (case snd e of ChunkFrame c \<Rightarrow> Option.bind c ck_type \<noteq> None | _ \<Rightarrow> True)"

definition chunk_of :: "tevent \<Rightarrow> string option" where
  "chunk_of e = (case snd e of ChunkFrame c \<Rightarrow> Option.bind c ck_type | _ \<Rightarrow> None)"

text \<open>Every chunk kept is the one its type is registered at; the leading events stand untouched.\<close>

definition compact_ok :: "tevent list \<Rightarrow> compaction \<Rightarrow> bool" where
  "compact_ok lead st \<longleftrightarrow>
     length lead \<le> length (cp_out st) \<and> take (length lead) (cp_out st) = lead \<and>
     (\<forall>i < length (cp_out st). is_chunk (snd (cp_out st ! i)) \<longrightarrow>
        (\<exists>s c t. cp_out st ! i = (s, ChunkFrame (Some c)) \<and> ck_type c = Some t \<and> map_of (cp_merged st) t = Some i)) \<and>
     (\<forall>t i. map_of (cp_merged st) t = Some i \<longrightarrow> i < length (cp_out st) \<and> chunk_of (cp_out st ! i) = Some t)"

lemma compact_okD:
  assumes "compact_ok lead st"
  shows "length lead \<le> length (cp_out st)" "take (length lead) (cp_out st) = lead"
    "i < length (cp_out st) \<Longrightarrow> is_chunk (snd (cp_out st ! i)) \<Longrightarrow>
       \<exists>s c t. cp_out st ! i = (s, ChunkFrame (Some c)) \<and> ck_type c = Some t \<and> map_of (cp_merged st) t = Some i"
    "map_of (cp_merged st) t = Some i \<Longrightarrow> i < length (cp_out st) \<and> chunk_of (cp_out st ! i) = Some t"
  using assms by (auto simp: compact_ok_def)

lemma chunk_of_Some: "chunk_of e = Some t \<longleftrightarrow> (\<exists>s c. e = (s, ChunkFrame (Some c)) \<and> ck_type c = Some t)"
  by (cases e; cases "snd e") (auto simp: chunk_of_def split: Option.bind_splits)

lemma chunk_of_is_chunk: "chunk_of e = Some t \<Longrightarrow> is_chunk (snd e)"
  by (auto simp: chunk_of_Some is_chunk_def)

lemma add_text_simps [simp]:
  "chunk_of e = Some t \<Longrightarrow> chunk_of (add_text x e) = Some t"
  "is_chunk (snd (add_text x e)) = is_chunk (snd e)"
  by (auto simp: chunk_of_Some add_text_def is_chunk_def split: prod.splits tframe.splits option.splits)

lemma compact_event_other: "\<not> is_chunk (snd e) \<Longrightarrow> compact_event hm st e = st\<lparr>cp_out := cp_out st @ [e]\<rparr>"
  by (cases e; cases "snd e") (auto simp: is_chunk_def compact_event_def)

lemma compact_ok_other: "compact_ok lead st \<Longrightarrow> \<not> is_chunk (snd e) \<Longrightarrow> compact_ok lead (st\<lparr>cp_out := cp_out st @ [e]\<rparr>)"
  by (auto simp: compact_ok_def nth_append less_Suc_eq)

lemma compact_ok_new:
  assumes "compact_ok lead st" "map_of (cp_merged st) t = None"
  shows "compact_ok lead (st\<lparr>cp_out := cp_out st @ [(s, ChunkFrame (Some \<lparr>ck_type = Some t, ck_text = x\<rparr>))],
           cp_merged := (t, length (cp_out st)) # cp_merged st\<rparr>)"
  using assms by (auto simp: compact_ok_def nth_append less_Suc_eq chunk_of_def) (metis option.distinct(1))

lemma compact_ok_merge:
  assumes ok: "compact_ok lead st" and i: "map_of (cp_merged st) t = Some i" and lead: "\<forall>e \<in> set lead. \<not> is_chunk (snd e)"
  shows "compact_ok lead (st\<lparr>cp_out := (cp_out st)[i := add_text x (cp_out st ! i)]\<rparr>)"
proof -
  let ?o = "cp_out st"
  have il: "i < length ?o" and ci: "chunk_of (?o ! i) = Some t" using compact_okD(4) [OF ok i] by blast+
  have "\<not> i < length lead"
  proof
    assume h: "i < length lead"
    then have "?o ! i = lead ! i" using compact_okD(2) [OF ok] by (metis nth_take)
    then show False using lead h chunk_of_is_chunk [OF ci] by (metis nth_mem)
  qed
  then have "take (length lead) (?o[i := add_text x (?o ! i)]) = lead"
    using compact_okD(2) [OF ok] by simp
  moreover have "\<exists>s c u. ?o[i := add_text x (?o ! i)] ! j = (s, ChunkFrame (Some c)) \<and> ck_type c = Some u \<and> map_of (cp_merged st) u = Some j"
    if j: "j < length ?o" "is_chunk (snd (?o[i := add_text x (?o ! i)] ! j))" for j
  proof (cases "j = i")
    case True
    then show ?thesis using i add_text_simps(1) [OF ci, of x] il by (auto simp: chunk_of_Some)
  next
    case False
    then show ?thesis using compact_okD(3) [OF ok j(1)] j by simp
  qed
  moreover have "j < length ?o \<and> chunk_of (?o[i := add_text x (?o ! i)] ! j) = Some u" if "map_of (cp_merged st) u = Some j" for u j
    using compact_okD(4) [OF ok that] ci il by (cases "j = i") auto
  ultimately show ?thesis using compact_okD(1) [OF ok] by (simp add: compact_ok_def)
qed

lemma compact_ok_step:
  assumes "compact_ok lead st" "\<forall>e \<in> set lead. \<not> is_chunk (snd e)"
  shows "compact_ok lead (compact_event hm st e)"
proof (cases "is_chunk (snd e)")
  case True
  then obtain s c where e: "e = (s, ChunkFrame c)" by (cases e; cases "snd e") (auto simp: is_chunk_def)
  then show ?thesis
    using assms compact_ok_new [OF assms(1)] compact_ok_merge [OF assms(1) _ assms(2)]
    by (auto simp: compact_event_def Let_def split: option.splits)
qed (simp add: compact_event_other compact_ok_other assms)

lemma compact_ok_foldl:
  "compact_ok lead st \<Longrightarrow> \<forall>e \<in> set lead. \<not> is_chunk (snd e) \<Longrightarrow> compact_ok lead (foldl (compact_event hm) st es)"
  by (induction es arbitrary: st) (simp_all add: compact_ok_step)

subsection \<open>What the compaction keeps\<close>

abbreviation plain :: "tevent list \<Rightarrow> tevent list" where
  "plain es \<equiv> filter (\<lambda>e. \<not> is_chunk (snd e)) es"

abbreviation deltas :: "tevent list \<Rightarrow> string" where
  "deltas es \<equiv> concat (map (\<lambda>e. delta_text (snd e)) es)"

lemma filter_upd: "i < length xs \<Longrightarrow> \<not> P (xs ! i) \<Longrightarrow> \<not> P y \<Longrightarrow> filter P (xs[i := y]) = filter P xs"
  by (induction xs arbitrary: i) (auto simp: nth_Cons' list_update.simps split: nat.splits)

lemma list_ex_upd: "i < length xs \<Longrightarrow> P y = P (xs ! i) \<Longrightarrow> list_ex P (xs[i := y]) = list_ex P xs"
  by (induction xs arbitrary: i) (auto simp: nth_Cons' split: nat.splits)

lemma concat_single:
  "i < length xs \<Longrightarrow> (\<And>j. j < length xs \<Longrightarrow> j \<noteq> i \<Longrightarrow> g (xs ! j) = []) \<Longrightarrow> concat (map g xs) = g (xs ! i)"
proof (induction xs arbitrary: i)
  case (Cons x xs)
  show ?case
  proof (cases i)
    case 0
    then have "\<forall>y \<in> set xs. g y = []" using Cons.prems(2) [of "Suc j" for j] by (auto simp: in_set_conv_nth)
    then show ?thesis using 0 by (simp add: concat_eq_Nil_conv)
  next
    case (Suc k)
    have rest: "g (xs ! j) = []" if "j < length xs" "j \<noteq> k" for j using Cons.prems(2) [of "Suc j"] that Suc by simp
    have "concat (map g xs) = g (xs ! k)" using Cons.prems(1) Suc rest by (intro Cons.IH) simp_all
    then show ?thesis using Suc Cons.prems(2) [of 0] by simp
  qed
qed simp

lemma compact_event_chunk:
  "compact_event hm st (s, ChunkFrame c) =
     (if chunkType c = ''text-delta'' \<and> hm then st
      else (case map_of (cp_merged st) (chunkType c) of
          None \<Rightarrow> st\<lparr>cp_out := cp_out st @ [(s, ChunkFrame (Some \<lparr>ck_type = Some (chunkType c), ck_text = Some (chunkText c)\<rparr>))],
                     cp_merged := (chunkType c, length (cp_out st)) # cp_merged st\<rparr>
        | Some i \<Rightarrow> st\<lparr>cp_out := (cp_out st)[i := add_text (chunkText c) (cp_out st ! i)]\<rparr>))"
  by (simp add: compact_event_def Let_def)

lemma event_cases: obtains s c where "e = (s, ChunkFrame c)" | "\<not> is_chunk (snd e)"
  by (cases e; cases "snd e") (auto simp: is_chunk_def)

lemma plain_step:
  assumes "compact_ok lead st"
  shows "plain (cp_out (compact_event hm st e)) = plain (cp_out st) @ plain [e]"
proof (cases e rule: event_cases)
  case (1 s c)
  then have e: "is_chunk (snd e)" by (simp add: is_chunk_def)
  show ?thesis
  proof (cases "map_of (cp_merged st) (chunkType c)")
    case (Some i)
    then have "i < length (cp_out st)" "is_chunk (snd (cp_out st ! i))"
      using compact_okD(4) [OF assms Some] chunk_of_is_chunk by blast+
    then show ?thesis using 1 e Some by (simp add: compact_event_chunk filter_upd)
  qed (use 1 e in \<open>simp add: compact_event_chunk is_chunk_def\<close>)
qed (simp add: compact_event_other)

lemma plain_foldl:
  assumes "compact_ok lead st" "\<forall>e \<in> set lead. \<not> is_chunk (snd e)"
  shows "plain (cp_out (foldl (compact_event hm) st es)) = plain (cp_out st) @ plain es"
  using assms(1)
proof (induction es arbitrary: st)
  case (Cons e es)
  show ?case
    using Cons.IH [OF compact_ok_step [OF Cons.prems assms(2)]] plain_step [OF Cons.prems, of hm e] by auto
qed simp

text \<open>Without a message nothing is dropped: the merged chunks carry the whole text.\<close>

lemma delta_of: "chunk_of e = Some t \<Longrightarrow> delta_text (snd (add_text x e)) = (if t = ''text-delta'' then delta_text (snd e) @ x else []) \<and>
    is_delta (snd (add_text x e)) = is_delta (snd e) \<and> is_delta (snd e) = (t = ''text-delta'') \<and>
    opens (snd (add_text x e)) \<and> opens (snd e)"
  by (auto simp: chunk_of_Some delta_text_def is_delta_def add_text_def str_or_empty_def opens_def split: option.splits)

lemma delta_unmerged: "\<not> is_delta f \<Longrightarrow> delta_text f = []"
  by (cases f) (auto simp: is_delta_def delta_text_def split: option.splits)

lemma delta_is_chunk: "is_delta f \<Longrightarrow> is_chunk f"
  by (cases f) (auto simp: is_delta_def is_chunk_def)

lemma well_chunkD:
  assumes "well_chunk (s, ChunkFrame c)"
  shows "delta_text (ChunkFrame c) = (if chunkType c = ''text-delta'' then chunkText c else [])"
    "is_delta (ChunkFrame c) = (chunkType c = ''text-delta'')" "opens (ChunkFrame c)"
  using assms by (auto simp: well_chunk_def delta_text_def chunkType_def chunkText_def is_delta_def opens_def str_or_empty_def
      split: option.splits Option.bind_splits)

lemma keep_step:
  assumes ok: "compact_ok lead st" and e: "well_chunk e"
  shows "deltas (cp_out (compact_event False st e)) = deltas (cp_out st) @ delta_text (snd e) \<and>
    list_ex (\<lambda>e. is_delta (snd e)) (cp_out (compact_event False st e)) = (list_ex (\<lambda>e. is_delta (snd e)) (cp_out st) \<or> is_delta (snd e)) \<and>
    list_ex (\<lambda>e. opens (snd e)) (cp_out (compact_event False st e)) = (list_ex (\<lambda>e. opens (snd e)) (cp_out st) \<or> opens (snd e))"
proof (cases e rule: event_cases)
  case (1 s c)
  note w = well_chunkD [OF e [unfolded 1]]
  show ?thesis
  proof (cases "map_of (cp_merged st) (chunkType c)")
    case None
    then show ?thesis using 1 w by (auto simp: compact_event_chunk delta_text_def is_delta_def opens_def str_or_empty_def)
  next
    case (Some i)
    let ?o = "cp_out st" and ?n = "(cp_out st)[i := add_text (chunkText c) (cp_out st ! i)]"
    have i: "i < length ?o" "chunk_of (?o ! i) = Some (chunkType c)" using compact_okD(4) [OF ok Some] by blast+
    note d = delta_of [OF i(2), of "chunkText c"]
    have out: "cp_out (compact_event False st e) = ?n" using 1 Some by (simp add: compact_event_chunk)
    have flags: "list_ex (\<lambda>e. is_delta (snd e)) ?n = list_ex (\<lambda>e. is_delta (snd e)) ?o"
      "list_ex (\<lambda>e. opens (snd e)) ?n = list_ex (\<lambda>e. opens (snd e)) ?o"
      using d i(1) by (simp_all add: list_ex_upd)
    have here: "list_ex (\<lambda>e. opens (snd e)) ?o" unfolding list_ex_iff using d nth_mem [OF i(1)] by blast
    have delta_here: "chunkType c = ''text-delta'' \<Longrightarrow> list_ex (\<lambda>e. is_delta (snd e)) ?o"
      unfolding list_ex_iff using d nth_mem [OF i(1)] by blast
    have "deltas ?n = deltas ?o @ delta_text (snd e)"
    proof (cases "chunkType c = ''text-delta''")
      case True
      have other: "delta_text (snd (?o ! j)) = []" if j: "j < length ?o" "j \<noteq> i" for j
      proof (rule delta_unmerged, rule notI)
        assume del: "is_delta (snd (?o ! j))"
        then obtain s' c' t where "?o ! j = (s', ChunkFrame (Some c'))" "ck_type c' = Some t" "map_of (cp_merged st) t = Some j"
          using compact_okD(3) [OF ok j(1)] delta_is_chunk by blast
        then show False using del True Some j(2) by (simp add: is_delta_def)
      qed
      have "deltas ?o = delta_text (snd (?o ! i))" using i(1) other by (intro concat_single) auto
      moreover have "deltas ?n = delta_text (snd (?n ! i))" using i(1) other by (intro concat_single) auto
      ultimately show ?thesis using d i(1) True w(1) 1 by simp
    next
      case False
      then have "map (\<lambda>e. delta_text (snd e)) ?n = map (\<lambda>e. delta_text (snd e)) ?o"
        using d i(1) delta_unmerged [of "snd (?o ! i)"] list_update_id [of "map (\<lambda>e. delta_text (snd e)) ?o" i]
        by (simp add: map_update)
      then show ?thesis using False w(1) 1 by simp
    qed
    then show ?thesis using out flags here delta_here w(2,3) 1 by auto
  qed
next
  case 2
  then show ?thesis by (auto simp: compact_event_other)
qed

lemma keep_foldl:
  assumes "compact_ok lead st" "\<forall>e \<in> set lead. \<not> is_chunk (snd e)" "list_all well_chunk es"
  shows "deltas (cp_out (foldl (compact_event False) st es)) = deltas (cp_out st) @ deltas es \<and>
    list_ex (\<lambda>e. is_delta (snd e)) (cp_out (foldl (compact_event False) st es)) =
      (list_ex (\<lambda>e. is_delta (snd e)) (cp_out st) \<or> list_ex (\<lambda>e. is_delta (snd e)) es) \<and>
    list_ex (\<lambda>e. opens (snd e)) (cp_out (foldl (compact_event False) st es)) =
      (list_ex (\<lambda>e. opens (snd e)) (cp_out st) \<or> list_ex (\<lambda>e. opens (snd e)) es)"
  using assms(1,3)
proof (induction es arbitrary: st)
  case (Cons e es)
  show ?case
    using Cons.IH [OF compact_ok_step [OF Cons.prems(1) assms(2)]] keep_step [OF Cons.prems(1), of e] Cons.prems(2) by simp
qed simp

text \<open>With a message no text chunk is kept.\<close>

lemma drop_step:
  assumes "compact_ok lead st" "list_all (\<lambda>e. \<not> is_delta (snd e)) (cp_out st)"
  shows "list_all (\<lambda>e. \<not> is_delta (snd e)) (cp_out (compact_event True st e))"
proof (cases e rule: event_cases)
  case (1 s c)
  show ?thesis
  proof (cases "map_of (cp_merged st) (chunkType c)")
    case None
    then show ?thesis using 1 assms(2) by (auto simp: compact_event_chunk is_delta_def)
  next
    case (Some i)
    then have i: "i < length (cp_out st)" "chunk_of (cp_out st ! i) = Some (chunkType c)"
      using compact_okD(4) [OF assms(1) Some] by blast+
    have "\<not> is_delta (snd (cp_out st ! i))" using assms(2) i(1) by (simp add: list_all_length)
    then show ?thesis
      using 1 Some assms(2) delta_of [OF i(2), of "chunkText c"] set_update_subset_insert [of "cp_out st" i]
      by (fastforce simp: compact_event_chunk list_all_iff)
  qed
next
  case 2
  then show ?thesis using assms(2) delta_is_chunk by (auto simp: compact_event_other)
qed

lemma drop_foldl:
  assumes "compact_ok lead st" "\<forall>e \<in> set lead. \<not> is_chunk (snd e)" "list_all (\<lambda>e. \<not> is_delta (snd e)) (cp_out st)"
  shows "list_all (\<lambda>e. \<not> is_delta (snd e)) (cp_out (foldl (compact_event True) st es))"
  using assms(1,3)
proof (induction es arbitrary: st)
  case (Cons e es)
  show ?case using Cons.IH [OF compact_ok_step [OF Cons.prems(1) assms(2)] drop_step [OF Cons.prems]] by simp
qed simp

lemma compact_lead:
  "\<forall>e \<in> set lead. \<not> is_chunk (snd e) \<Longrightarrow> foldl (compact_event hm) st lead = st\<lparr>cp_out := cp_out st @ lead\<rparr>"
  by (induction lead arbitrary: st) (simp_all add: compact_event_other)

lemma compact_start: "\<forall>e \<in> set lead. \<not> is_chunk (snd e) \<Longrightarrow> compact_ok lead \<lparr>cp_out = lead, cp_merged = []\<rparr>"
  by (auto simp: compact_ok_def)

lemma no_deltas: "list_all (\<lambda>f. \<not> is_delta f) fs \<Longrightarrow> concat (map delta_text fs) = [] \<and> \<not> list_ex is_delta fs"
  by (induction fs) (auto simp: delta_unmerged)

lemma set_since_message: "set (since_message fs) \<subseteq> set fs"
  by (auto simp: since_message_def dest: set_takeWhileD)

lemma since_message_append: "list_ex is_msg gs \<Longrightarrow> since_message (fs @ gs) = since_message gs"
  by (auto simp: since_message_def list_ex_iff)

text \<open>
  The turns whose compaction changes nothing on the screen: once the answer has begun no user message and no frame of the
  manager comes in between, and what follows the last message is not text.
\<close>

definition turn_shaped :: "tevent list \<Rightarrow> bool" where
  "turn_shaped seg \<longleftrightarrow> list_all well_chunk seg \<and>
     list_all (\<lambda>e. \<not> is_user_frame (snd e) \<and> (ends_turn (snd e) \<longrightarrow> is_turn_end e)) (dropWhile (\<lambda>e. \<not> opens (snd e)) seg) \<and>
     (list_ex is_message seg \<longrightarrow> \<not> list_ex is_delta (since_message (map snd seg)))"

lemma is_message_msg: "is_message e = is_msg (snd e)"
  by (simp add: is_message_def is_msg_def)

lemma same_filter_mem:
  assumes "filter P xs = filter P ys" "x \<in> set xs" "P x"
  shows "x \<in> set ys"
proof -
  have "x \<in> set (filter P xs)" using assms(2,3) by simp
  then show ?thesis unfolding assms(1) by simp
qed

lemma body_frame_plain:
  "filter (\<lambda>f. \<not> is_chunk f) fs = filter (\<lambda>f. \<not> is_chunk f) gs \<Longrightarrow> list_all body_frame gs \<Longrightarrow> list_all body_frame fs"
proof -
  assume h: "filter (\<lambda>f. \<not> is_chunk f) fs = filter (\<lambda>f. \<not> is_chunk f) gs" "list_all body_frame gs"
  have "body_frame f" if "f \<in> set fs" for f
  proof (cases "is_chunk f")
    case True
    then show ?thesis by (cases f) (auto simp: is_chunk_def body_frame_def is_user_frame_def ends_turn_def)
  next
    case False
    then have "f \<in> set gs" using same_filter_mem [OF h(1) that] by blast
    then show ?thesis using h(2) by (auto simp: list_all_iff)
  qed
  then show ?thesis by (simp add: list_all_iff)
qed

text \<open>The body of a turn is compacted to a body that is drawn alike.\<close>

lemma compact_body:
  assumes lead: "\<forall>e \<in> set lead. \<not> is_chunk (snd e) \<and> \<not> opens (snd e)" and body: "list_all body_frame (map snd body)" "list_all well_chunk body"
    and hm: "hm = list_ex is_message body"
    and late: "list_ex is_message body \<Longrightarrow> \<not> list_ex is_delta (since_message (map snd body))"
    and bs: "\<not> is_open bs"
  obtains out where "cp_out (foldl (compact_event hm) \<lparr>cp_out = lead, cp_merged = []\<rparr> body) = lead @ out"
    "map drawn (foldl (reduce pe) bs (map snd out)) = map drawn (foldl (reduce pe) bs (map snd body))"
proof -
  let ?st = "\<lparr>cp_out = lead, cp_merged = []\<rparr>"
  let ?all = "cp_out (foldl (compact_event hm) ?st body)"
  have lead': "\<forall>e \<in> set lead. \<not> is_chunk (snd e)" using lead by blast
  note ok = compact_start [OF lead']
  obtain out where out: "?all = lead @ out"
    using compact_okD(2) [OF compact_ok_foldl [OF ok lead']] append_take_drop_id by metis
  have plain: "plain out = plain body"
    using plain_foldl [OF ok lead', of hm body] lead' out by simp
  then have plain': "filter (\<lambda>f. \<not> is_chunk f) (map snd out) = filter (\<lambda>f. \<not> is_chunk f) (map snd body)"
    by (simp add: filter_map o_def)
  have no_lead: "deltas lead = []" "\<not> list_ex (\<lambda>e. is_delta (snd e)) lead" "\<not> list_ex (\<lambda>e. opens (snd e)) lead"
    using lead delta_is_chunk delta_unmerged by (auto simp: list_ex_iff)
  have same: "concat (map delta_text (since_message (map snd out))) = concat (map delta_text (since_message (map snd body))) \<and>
    list_ex is_delta (since_message (map snd out)) = list_ex is_delta (since_message (map snd body)) \<and>
    list_ex opens (map snd out) = list_ex opens (map snd body)"
  proof (cases hm)
    case True
    have "list_all (\<lambda>e. \<not> is_delta (snd e)) ?all"
      using drop_foldl [OF ok lead', of body] no_lead(2) True by (simp add: list_all_iff list_ex_iff)
    then have "list_all (\<lambda>f. \<not> is_delta f) (since_message (map snd out))"
      using out set_since_message [of "map snd out"] by (fastforce simp: list_all_iff)
    moreover have "list_all (\<lambda>f. \<not> is_delta f) (since_message (map snd body))"
      using late True hm by (auto simp: list_all_iff list_ex_iff)
    moreover obtain e where e: "e \<in> set body" "is_msg (snd e)" using True hm by (auto simp: list_ex_iff is_message_msg)
    then have "\<not> is_chunk (snd e)" "opens (snd e)" by (auto simp: is_msg_def is_chunk_def opens_def split: tframe.splits)
    then have "e \<in> set out" using same_filter_mem [OF plain [symmetric] e(1)] by blast
    then have "list_ex opens (map snd out)" "list_ex opens (map snd body)" using \<open>opens (snd e)\<close> e(1) by (auto simp: list_ex_iff)
    ultimately show ?thesis by (simp add: no_deltas)
  next
    case False
    have msgs: "\<not> list_ex is_msg (map snd body)" using False hm by (simp add: list_ex_iff is_message_msg)
    have "\<not> list_ex is_msg (map snd out)"
    proof
      assume "list_ex is_msg (map snd out)"
      then obtain e where e: "e \<in> set out" "is_msg (snd e)" by (auto simp: list_ex_iff)
      then have "\<not> is_chunk (snd e)" by (auto simp: is_msg_def is_chunk_def split: tframe.splits)
      then have "e \<in> set body" using same_filter_mem [OF plain e(1)] by blast
      then show False using msgs e(2) by (auto simp: list_ex_iff)
    qed
    moreover have "deltas out = deltas body" "list_ex (\<lambda>e. is_delta (snd e)) out = list_ex (\<lambda>e. is_delta (snd e)) body"
      "list_ex (\<lambda>e. opens (snd e)) out = list_ex (\<lambda>e. opens (snd e)) body"
      using keep_foldl [OF ok lead' body(2)] out False no_lead(2,3) by (simp_all add: no_lead(1) del: concat_eq_Nil_conv)
    ultimately show ?thesis using msgs by (simp add: since_message_none o_def list_ex_iff)
  qed
  have "map drawn (foldl (reduce pe) bs (map snd out)) = map drawn (foldl (reduce pe) bs (map snd body))"
    using same plain' by (intro bodies_drawn_alike body_frame_plain [OF plain' body(1)] body(1) bs) auto
  then show ?thesis using out that by blast
qed

lemma quiet_lead:
  assumes "list_all well_chunk seg" "e \<in> set (takeWhile (\<lambda>e. \<not> opens (snd e)) seg)"
  shows "\<not> is_chunk (snd e) \<and> \<not> opens (snd e)"
proof -
  have "well_chunk e" "\<not> opens (snd e)" using assms set_takeWhileD by (fastforce simp: list_all_iff)+
  then show ?thesis by (cases "snd e") (auto simp: is_chunk_def opens_def well_chunk_def)
qed

lemma turn_end_props: "is_turn_end e \<Longrightarrow> \<not> is_chunk (snd e) \<and> \<not> is_message e \<and> \<not> is_msg (snd e) \<and> \<not> is_delta (snd e)"
  by (cases "snd e") (auto simp: is_turn_end_def is_chunk_def is_message_def is_msg_def is_delta_def)

lemma message_opens: "is_message e \<Longrightarrow> opens (snd e)"
  by (cases "snd e") (auto simp: is_message_def opens_def)

lemma reduce_turn_end: "is_turn_end e \<Longrightarrow> \<not> is_open (reduce pe bs (snd e))"
  by (cases "snd e") (auto simp: is_turn_end_def reduce_def with_agent_def end_effect_def Let_def)

text \<open>One turn: the events before its end, then possibly its end.\<close>

lemma compact_turn:
  assumes shape: "turn_shaped (seg @ fin)" and seg: "list_all (\<lambda>e. \<not> is_turn_end e) seg" and fin: "fin = [] \<or> (\<exists>e. fin = [e] \<and> is_turn_end e)"
    and bs: "\<not> is_open bs"
  shows "map drawn (foldl (reduce pe) bs (map snd (compactSegment (seg @ fin)))) = map drawn (foldl (reduce pe) bs (map snd (seg @ fin)))"
proof -
  let ?lead = "takeWhile (\<lambda>e. \<not> opens (snd e)) seg" and ?body = "dropWhile (\<lambda>e. \<not> opens (snd e)) seg"
  let ?hm = "list_ex is_message (seg @ fin)" and ?st = "\<lparr>cp_out = ?lead, cp_merged = []\<rparr>"
  have well: "list_all well_chunk seg" using shape by (simp add: turn_shaped_def)
  have lead: "\<forall>e \<in> set ?lead. \<not> is_chunk (snd e) \<and> \<not> opens (snd e)" using quiet_lead [OF well] by blast
  have split: "seg = ?lead @ ?body" by simp
  have wbody: "list_all well_chunk ?body" using well list_all_append [of well_chunk ?lead ?body] by simp
  have "list_all (\<lambda>e. \<not> is_user_frame (snd e) \<and> (ends_turn (snd e) \<longrightarrow> is_turn_end e)) ?body"
  proof (cases "?body = []")
    case False
    then have "dropWhile (\<lambda>e. \<not> opens (snd e)) (seg @ fin) = ?body @ fin" by (auto simp: dropWhile_eq_Nil_conv dropWhile_append)
    then show ?thesis using shape by (simp add: turn_shaped_def)
  next
    case True
    show ?thesis unfolding True by simp
  qed
  moreover have "list_all (\<lambda>e. \<not> is_turn_end e) ?body" using seg set_dropWhileD by (fastforce simp: list_all_iff)
  ultimately have body: "list_all body_frame (map snd ?body)" by (auto simp: list_all_iff body_frame_def)
  have no_tail: "\<not> list_ex is_message fin" using fin turn_end_props by auto
  have no_lead: "\<not> list_ex is_message ?lead"
    using lead message_opens unfolding list_ex_iff by blast
  have hm: "?hm = list_ex is_message ?body"
    using no_tail no_lead list_ex_append [of is_message ?lead ?body] by simp
  have late: "\<not> list_ex is_delta (since_message (map snd ?body))" if m: "list_ex is_message ?body"
  proof -
    have msg: "list_ex is_msg (map snd ?body)" using m by (simp add: list_ex_iff is_message_msg)
    have "list_ex is_delta (since_message (map snd (seg @ fin))) = list_ex is_delta (since_message (map snd seg))"
      using fin by (auto simp: since_message_snoc dest: turn_end_props)
    moreover have "since_message (map snd seg) = since_message (map snd ?body)"
      using since_message_append [OF msg, of "map snd ?lead"] map_append [of snd ?lead ?body] by simp
    moreover have "\<not> list_ex is_delta (since_message (map snd (seg @ fin)))"
      using shape m unfolding turn_shaped_def hm [symmetric] by blast
    ultimately show ?thesis by simp
  qed
  have bs': "\<not> is_open (foldl (reduce pe) bs (map snd ?lead))"
    using lead bs by (intro reduce_lead) (simp_all add: list_all_iff)
  obtain out where out: "cp_out (foldl (compact_event ?hm) ?st ?body) = ?lead @ out"
    "map drawn (foldl (reduce pe) (foldl (reduce pe) bs (map snd ?lead)) (map snd out)) =
     map drawn (foldl (reduce pe) (foldl (reduce pe) bs (map snd ?lead)) (map snd ?body))"
    using compact_body [OF lead body wbody hm late bs'] by blast
  have "foldl (compact_event ?hm) \<lparr>cp_out = [], cp_merged = []\<rparr> seg = foldl (compact_event ?hm) ?st ?body"
    using compact_lead [of ?lead ?hm "\<lparr>cp_out = [], cp_merged = []\<rparr>"] lead split
    by (metis append_Nil compaction.select_convs(1) compaction.update_convs(1) foldl_append)
  then have "compactSegment (seg @ fin) = ?lead @ out @ fin"
    using fin out(1) by (auto simp: compactSegment_def compact_event_other dest: turn_end_props)
  then have "map drawn (foldl (reduce pe) bs (map snd (compactSegment (seg @ fin)))) =
      map drawn (foldl (reduce pe) (foldl (reduce pe) (foldl (reduce pe) bs (map snd ?lead)) (map snd out)) (map snd fin))"
    by simp
  also have "\<dots> = map drawn (foldl (reduce pe) (foldl (reduce pe) (foldl (reduce pe) bs (map snd ?lead)) (map snd ?body)) (map snd fin))"
    by (rule drawn_foldl [OF out(2)])
  also have "\<dots> = map drawn (foldl (reduce pe) bs (map snd (seg @ fin)))"
    by (simp flip: foldl_append map_append)
  finally show ?thesis .
qed

lemma compact_segments:
  assumes "\<forall>seg \<in> set (segments cur es). turn_shaped seg" "list_all (\<lambda>e. \<not> is_turn_end e) cur" "\<not> is_open bs" "\<not> is_open cs"
    and "map drawn bs = map drawn cs"
  shows "map drawn (foldl (reduce pe) bs (map snd (concat (map compactSegment (segments cur es))))) =
    map drawn (foldl (reduce pe) cs (map snd (cur @ es)))"
  using assms
proof (induction cur es arbitrary: bs cs rule: segments.induct)
  case (1 cur)
  then show ?case
    using compact_turn [of cur "[]" bs pe] drawn_foldl [of bs cs pe "map snd cur"] by auto
next
  case (2 cur e es)
  show ?case
  proof (cases "is_turn_end e")
    case True
    let ?b = "foldl (reduce pe) bs (map snd (compactSegment (cur @ [e])))" and ?c = "foldl (reduce pe) cs (map snd (cur @ [e]))"
    have shape: "turn_shaped (cur @ [e])" "\<forall>seg \<in> set (segments [] es). turn_shaped seg" using 2(3) True by simp_all
    have "map drawn ?b = map drawn (foldl (reduce pe) bs (map snd (cur @ [e])))"
      using compact_turn [of cur "[e]" bs pe] shape(1) 2(4,5) True by blast
    also have "\<dots> = map drawn ?c" by (rule drawn_foldl [OF 2(7)])
    finally have same: "map drawn ?b = map drawn ?c" .
    have "\<not> is_open ?c" using reduce_turn_end [OF True] by simp
    then have "map drawn (foldl (reduce pe) ?b (map snd (concat (map compactSegment (segments [] es))))) =
        map drawn (foldl (reduce pe) ?c (map snd ([] @ es)))"
      using 2(1) [OF True shape(2), of ?b ?c] same drawn_open [OF same] by simp
    then show ?thesis using True by simp
  next
    case False
    then show ?thesis using 2(2) [of bs cs] 2(3-7) by simp
  qed
qed

section \<open>Compaction draws the same transcript\<close>

lemma attach_all_none: "attach_all bs [] = bs"
proof (induction bs)
  case (Cons x bs)
  then show ?case by (cases x) simp_all
qed simp

lemma drawn_attach:
  "map drawn bs = map drawn cs \<Longrightarrow> map drawn (attach_all bs runs) = map drawn (attach_all cs runs)"
proof (induction bs runs arbitrary: cs rule: attach_all.induct)
  case (1 b bs run runs)
  then obtain c cs' where c: "cs = AgentBlock c # cs'" "b\<lparr>ab_reasoning := []\<rparr> = c\<lparr>ab_reasoning := []\<rparr>" "map drawn bs = map drawn cs'"
    by (cases cs; cases "hd cs") auto
  then have "(attach_run run b)\<lparr>ab_reasoning := []\<rparr> = (attach_run run c)\<lparr>ab_reasoning := []\<rparr>"
    by (cases b; cases c) (simp add: attach_run_def)
  then show ?case using c 1(1) by simp
next
  case (2 x y z bs runs)
  then obtain cs' where "cs = UserBlock x y z # cs'" "map drawn bs = map drawn cs'"
    by (cases cs; cases "hd cs") auto
  then show ?case using 2(1) by simp
next
  case "3_2"
  then show ?case by (simp add: attach_all_none)
qed auto

lemma drawn_agents: "map drawn bs = map drawn cs \<Longrightarrow> length (filter (\<lambda>b. \<not> is_user_block b) bs) = length (filter (\<lambda>b. \<not> is_user_block b) cs)"
proof (induction bs arbitrary: cs)
  case (Cons b bs)
  then obtain c cs' where "cs = c # cs'" by (cases cs) auto
  then show ?case using Cons drawn_is_user [of b c] by simp
qed simp

lemma segments_concat: "concat (segments cur es) = cur @ es"
  by (induction cur es rule: segments.induct) auto

text \<open>
  Claim C19. A page rebuilt from the compacted history shows what it would show from the full one, for every history whose turns
  have the regular shape: chunks carry a type, no user message falls into the answer, and no text follows the last message of
  a turn that has one. The only field that may differ is the reasoning, which is not drawn.
\<close>

theorem compaction_draws_the_same:
  assumes "\<forall>seg \<in> set (segments [] events). turn_shaped seg"
  shows "map drawn (build pe (compactHistory events) turns) = map drawn (build pe events turns)"
proof -
  have same: "map drawn (foldl (reduce pe) [] (map snd (compactHistory events))) = map drawn (foldl (reduce pe) [] (map snd events))"
    using compact_segments [OF assms, of "[]" "[]" pe] by (simp add: compactHistory_def)
  then show ?thesis
    using drawn_attach [OF same, of turns] drawn_agents [OF same] by (simp add: build_def attachRuns_def)
qed

section \<open>Where the transcript departs from what happened\<close>

definition text_chunk :: "int \<times> string \<Rightarrow> tevent" where
  "text_chunk c = (Some (fst c), ChunkFrame (Some \<lparr>ck_type = Some ''text-delta'', ck_text = Some (snd c)\<rparr>))"

lemma text_chunk_effect:
  "agent_effect pe (snd (text_chunk c)) b = b\<lparr>ab_streamed := ab_streamed b @ snd c, ab_streaming := True\<rparr>"
  by (simp add: text_chunk_def agent_effect_def chunk_effect_def str_or_empty_def)

lemma text_chunks_effect:
  "ab_streamed (foldl (\<lambda>b f. agent_effect pe f b) b (map (snd \<circ> text_chunk) cs)) = ab_streamed b @ concat (map snd cs) \<and>
   ab_text (foldl (\<lambda>b f. agent_effect pe f b) b (map (snd \<circ> text_chunk) cs)) = ab_text b \<and>
   ab_reason (foldl (\<lambda>b f. agent_effect pe f b) b (map (snd \<circ> text_chunk) cs)) = ab_reason b"
  by (induction cs arbitrary: b) (simp_all add: text_chunk_effect)

lemma text_chunks_body: "list_all body_frame (map (snd \<circ> text_chunk) cs)"
  by (simp add: list_all_iff text_chunk_def body_frame_def is_user_frame_def ends_turn_def)

lemma text_chunk_props [simp]:
  "snd (text_chunk c) = ChunkFrame (Some \<lparr>ck_type = Some ''text-delta'', ck_text = Some (snd c)\<rparr>)" "fst (text_chunk c) = Some (fst c)"
  "\<not> is_turn_end (text_chunk c)" "\<not> is_message (text_chunk c)" "drawn_frame (text_chunk c)"
  by (simp_all add: text_chunk_def is_turn_end_def is_message_def drawn_frame_def)

lemma reduce_chunks:
  "ab_reason b = None \<Longrightarrow> \<exists>b'. foldl (reduce pe) (bs @ [AgentBlock b]) (map (snd \<circ> text_chunk) cs) = bs @ [AgentBlock b'] \<and>
     ab_streamed b' = ab_streamed b @ concat (map snd cs) \<and> ab_text b' = ab_text b \<and> ab_reason b' = None"
  using reduce_body_open [OF text_chunks_body, of b pe bs cs] text_chunks_effect [of pe b cs] by simp

text \<open>A call that is answered before the next one is made keeps its result; with two calls under way the results change places.\<close>

lemma settle_newest_last: "\<not> tl_done t \<Longrightarrow> settle_newest f (ts @ [t]) = ts @ [f t]"
  by (simp add: settle_newest_def)

lemma settle_newest_done: "tl_done t \<Longrightarrow> settle_newest f (ts @ [t]) = settle_newest f ts @ [t]"
  by (simp add: settle_newest_def)

lemma new_tool_open: "\<not> tl_done (new_tool pe n a)"
  by (simp add: new_tool_def Let_def)

text \<open>
  When two tool calls are under way and their results arrive in the order of the calls, the first result is written
  into the second call and the second result into the first.
\<close>

theorem parallel_results_change_places:
  "map (\<lambda>t. (tl_failed t, tl_resultText t)) (drop (length (ab_tools b))
     (ab_tools (agent_of (last (foldl (reduce pe) (bs @ [AgentBlock (b\<lparr>ab_reason := None\<rparr>)])
        [ToolCallFrame n1 a1, ToolCallFrame n2 a2, ToolResultFrame e1 (Some r1), ToolResultFrame e2 (Some r2)])))))
   = [(e2, r2), (e1, r1)]"
proof -
  have s: "settle_newest f (ab_tools b @ [new_tool pe n1 a1, new_tool pe n2 a2]) = ab_tools b @ [new_tool pe n1 a1, f (new_tool pe n2 a2)]" for f
    using settle_newest_last [OF new_tool_open, of f "ab_tools b @ [new_tool pe n1 a1]"] by simp
  have s2: "settle_newest f (ab_tools b @ [new_tool pe n1 a1, t]) = ab_tools b @ [f (new_tool pe n1 a1), t]" if "tl_done t" for f t
    using settle_newest_done [OF that, of f "ab_tools b @ [new_tool pe n1 a1]"] settle_newest_last [OF new_tool_open, of f "ab_tools b"] by simp
  show ?thesis
    by (simp add: reduce_def result_effect_def s s2 agent_of_def str_or_empty_def)
qed

text \<open>A turn of which only text has arrived is compacted to one chunk with the sequence number of the first.\<close>

lemma compact_chunks:
  "cp_out (foldl (compact_event False) \<lparr>cp_out = lead @ [text_chunk (s, x)], cp_merged = [(''text-delta'', length lead)]\<rparr> (map text_chunk cs)) =
     lead @ [text_chunk (s, x @ concat (map snd cs))]"
proof (induction cs arbitrary: x)
  case (Cons c cs)
  have "compact_event False \<lparr>cp_out = lead @ [text_chunk (s, x)], cp_merged = [(''text-delta'', length lead)]\<rparr> (text_chunk c) =
      \<lparr>cp_out = lead @ [text_chunk (s, x @ snd c)], cp_merged = [(''text-delta'', length lead)]\<rparr>"
    by (simp add: text_chunk_def compact_event_chunk chunkType_def chunkText_def str_or_empty_def add_text_def)
  then show ?case using Cons.IH [of "x @ snd c"] by simp
qed simp

lemma segments_open: "list_all (\<lambda>e. \<not> is_turn_end e) es \<Longrightarrow> cur @ es \<noteq> [] \<Longrightarrow> segments cur es = [cur @ es]"
  by (induction cur es rule: segments.induct) auto

definition turn_log :: "int \<Rightarrow> string \<Rightarrow> int \<Rightarrow> (int \<times> string) list \<Rightarrow> tevent list" where
  "turn_log u q v cs = [(Some u, UserFrame (Some q) None), (Some v, TurnStartFrame)] @ map text_chunk cs"

lemma compact_turn_log:
  "compactHistory (turn_log u q v ((s, t) # cs)) =
     [(Some u, UserFrame (Some q) None), (Some v, TurnStartFrame), text_chunk (s, t @ concat (map snd cs))]"
proof -
  let ?lead = "[(Some u, UserFrame (Some q) None), (Some v, TurnStartFrame)] :: tevent list"
  have "list_all (\<lambda>e. \<not> is_turn_end e) (turn_log u q v ((s, t) # cs))" "turn_log u q v ((s, t) # cs) \<noteq> []"
    by (simp_all add: turn_log_def list_all_iff is_turn_end_def text_chunk_def)
  then have "compactHistory (turn_log u q v ((s, t) # cs)) = compactSegment (turn_log u q v ((s, t) # cs))"
    using segments_open [of "turn_log u q v ((s, t) # cs)" "[]"] by (simp add: compactHistory_def)
  also have "\<dots> = cp_out (foldl (compact_event False) \<lparr>cp_out = ?lead @ [text_chunk (s, t)], cp_merged = [(''text-delta'', length ?lead)]\<rparr> (map text_chunk cs))"
    by (simp add: compactSegment_def turn_log_def list_ex_iff is_message_def text_chunk_def compact_event_chunk compact_event_other is_chunk_def
        chunkType_def chunkText_def str_or_empty_def compact_event_def Let_def)
  finally show ?thesis unfolding compact_chunks by simp
qed

lemma unique_from_id: "distinct fs \<Longrightarrow> set fs \<inter> set seen = {} \<Longrightarrow> unique_from seen fs = fs"
  by (induction seen fs rule: unique_from.induct) auto

lemma build_two:
  obtains b' where "attachRuns [UserBlock q i a, AgentBlock b] turns = [UserBlock q i a, AgentBlock b']"
    "ab_text b' = ab_text b" "ab_streamed b' = ab_streamed b" "ab_reason b' = ab_reason b"
proof (cases turns)
  case Nil
  then show ?thesis using that [of b] by (simp add: attachRuns_def is_user_block_def)
next
  case (Cons r rs)
  show ?thesis
  proof (cases rs)
    case Nil
    then show ?thesis using that [of "attach_run r b"] Cons by (simp add: attachRuns_def is_user_block_def attach_run_def)
  next
    case (Cons r' rs')
    then show ?thesis using that [of b] \<open>turns = r # rs\<close> by (simp add: attachRuns_def is_user_block_def)
  qed
qed

text \<open>
  Reloading the page while an answer streams shows the text that has arrived, followed by all of it but the first
  piece once more: the compacted chunk keeps the first sequence number, so the replayed live frames behind it do not count as
  loaded.
\<close>

theorem reload_repeats_streamed_text:
  assumes "u < s" "v < s" "0 \<le> s" "sorted_wrt (<) (s # map fst cs)"
    and "sn_events sn = compactHistory (turn_log u q v ((s, t) # cs))" "sn_liveFrames sn = map text_chunk ((s, t) # cs)"
    and "wi_pendingUserTexts w = []" "wi_buffered w = []"
  shows "drawn_body (agent_of (last (wi_blocks (load_done pe now sn w)))) = t @ concat (map snd cs) @ concat (map snd cs)"
proof -
  have chunks: "\<forall>c \<in> set cs. s < fst c" and dist: "distinct (map text_chunk ((s, t) # cs))"
  proof -
    show "\<forall>c \<in> set cs. s < fst c" using assms(4) by auto
    have "distinct (map fst ((s, t) # cs))" using assms(4) strict_sorted_iff [of "s # map fst cs"] by simp
    then show "distinct (map text_chunk ((s, t) # cs))"
      by (auto simp: distinct_map inj_on_def text_chunk_def)
  qed
  have max: "max_seq (sn_events sn) = s"
    using assms(1-3,5) by (simp add: compact_turn_log max_seq_def)
  have user: "foldl (reduce pe) [] (map snd (sn_events sn)) = [UserBlock q (wrapped_reminder q) None,
      AgentBlock (newAgentBlock\<lparr>ab_streamed := t @ concat (map snd cs), ab_streaming := True\<rparr>)]"
    using assms(5) by (simp add: compact_turn_log reduce_def isInjected_def with_agent_closed is_open_def chunk_effect_def str_or_empty_def)
  obtain b where b: "build pe (sn_events sn) (sn_turns sn) = [UserBlock q (wrapped_reminder q) None] @ [AgentBlock b]"
    "ab_text b = []" "ab_streamed b = t @ concat (map snd cs)" "ab_reason b = None"
    using build_two [of q "wrapped_reminder q" None "newAgentBlock\<lparr>ab_streamed := t @ concat (map snd cs), ab_streaming := True\<rparr>" "sn_turns sn"]
      user by (auto simp: build_def)
  have frames: "filter (\<lambda>e. \<not> alreadyLoaded e s bs) (uniqueFrames (sn_liveFrames sn)) = map text_chunk cs" for bs
  proof -
    have "uniqueFrames (sn_liveFrames sn) = map text_chunk ((s, t) # cs)"
      using unique_from_id [OF dist, of "[]"] assms(6) by (simp add: uniqueFrames_def)
    moreover have "alreadyLoaded (text_chunk c) s bs = (fst c \<le> s)" for c by (simp add: alreadyLoaded_def text_chunk_def)
    moreover have "filter (\<lambda>e. \<not> alreadyLoaded e s bs) (map text_chunk cs) = map text_chunk cs"
      using chunks by (auto simp: filter_id_conv alreadyLoaded_def text_chunk_def)
    ultimately show ?thesis by simp
  qed
  have "filter drawn_frame (map text_chunk cs) = map text_chunk cs" by (auto simp: filter_id_conv)
  then have keep: "filter (\<lambda>e. \<not> alreadyLoaded e s bs \<and> drawn_frame e) (uniqueFrames (sn_liveFrames sn)) = map text_chunk cs" for bs
    using frames [of bs] filter_filter [of drawn_frame "\<lambda>e. \<not> alreadyLoaded e s bs" "uniqueFrames (sn_liveFrames sn)"] by simp
  have "wi_blocks (load_done pe now sn w) = foldl (reduce pe) ([UserBlock q (wrapped_reminder q) None] @ [AgentBlock b]) (map (snd \<circ> text_chunk) cs)"
    using assms(7,8) b(1) by (simp add: load_done_def Let_def max frames keep o_def)
  then obtain b' where "wi_blocks (load_done pe now sn w) = [UserBlock q (wrapped_reminder q) None] @ [AgentBlock b']"
    "ab_streamed b' = ab_streamed b @ concat (map snd cs)" "ab_text b' = ab_text b"
    using reduce_chunks [OF b(4), of pe "[UserBlock q (wrapped_reminder q) None]" cs] by auto
  then show ?thesis using b by (simp add: drawn_body_def agent_of_def)
qed

definition interrupted_log :: "string \<Rightarrow> string option \<Rightarrow> string option \<Rightarrow> string option \<Rightarrow> (int \<times> string) list \<Rightarrow> tevent list" where
  "interrupted_log q n a r cs = [(Some 1, UserFrame (Some q) None), (Some 2, MessageFrame (Some []) None None), (Some 3, ToolCallFrame n a),
     (Some 4, ToolResultFrame False r)] @ map text_chunk cs @ [(Some 9, TurnEndFrame (Some ''aborted'') None)]"

text \<open>
  The answer that streams after a tool step without text, and is then interrupted, is on the screen until the page is
  reloaded: the compaction drops the text chunks of any turn that has a message, the partial answer with them.
\<close>

theorem interrupted_answer_lost_on_reload:
  "drawn_body (agent_of (last (build pe (interrupted_log q n a r cs) []))) = concat (map snd cs) \<and>
    drawn_body (agent_of (last (build pe (compactHistory (interrupted_log q n a r cs)) []))) = []"
proof -
  let ?h = "[(Some 1, UserFrame (Some q) None), (Some 2, MessageFrame (Some []) None None), (Some 3, ToolCallFrame n a),
      (Some 4, ToolResultFrame False r)] :: tevent list" and ?e = "(Some 9, TurnEndFrame (Some ''aborted'') None) :: tevent"
  have attach: "drawn_body (agent_of (last (attachRuns (bs @ [AgentBlock b]) []))) = drawn_body b" for bs b
    by (simp add: attachRuns_def is_user_block_def agent_of_def)
  have seg: "segments cur (map text_chunk cs @ [?e]) = [cur @ map text_chunk cs @ [?e]]" for cur
    by (induction cs arbitrary: cur) (simp_all add: is_turn_end_def)
  have dropped: "foldl (compact_event True) st (map text_chunk cs) = st" for st
    by (induction cs arbitrary: st) (simp_all add: text_chunk_def compact_event_chunk chunkType_def str_or_empty_def)
  have "compactHistory (interrupted_log q n a r cs) = compactSegment (?h @ map text_chunk cs @ [?e])"
    using seg by (simp add: interrupted_log_def compactHistory_def is_turn_end_def)
  also have "\<dots> = ?h @ [?e]"
    using dropped by (simp add: compactSegment_def is_message_def compact_event_def)
  finally have compacted: "compactHistory (interrupted_log q n a r cs) = ?h @ [?e]" .
  let ?b = "foldl (\<lambda>b f. agent_effect pe f b) newAgentBlock (map snd (tl ?h))"
  have user: "foldl (reduce pe) [] (map snd ?h) = [UserBlock q (wrapped_reminder q) None] @ [AgentBlock ?b]"
    by (simp add: reduce_def isInjected_def with_agent_closed is_open_def agent_effect_def str_or_empty_def message_effect_def result_effect_def)
  have b: "ab_text ?b = []" "ab_streamed ?b = []" "ab_reason ?b = None"
    by (simp_all add: agent_effect_def message_effect_def result_effect_def str_or_empty_def)
  obtain b' where b': "foldl (reduce pe) ([UserBlock q (wrapped_reminder q) None] @ [AgentBlock ?b]) (map (snd \<circ> text_chunk) cs) =
      [UserBlock q (wrapped_reminder q) None] @ [AgentBlock b']" "ab_streamed b' = concat (map snd cs)" "ab_text b' = []" "ab_reason b' = None"
    using reduce_chunks [OF b(3), of pe "[UserBlock q (wrapped_reminder q) None]" cs] b by auto
  have "foldl (reduce pe) [] (map snd (interrupted_log q n a r cs)) = reduce pe (foldl (reduce pe) (foldl (reduce pe) [] (map snd ?h)) (map (snd \<circ> text_chunk) cs)) (snd ?e)"
    by (simp add: interrupted_log_def)
  also have "\<dots> = [UserBlock q (wrapped_reminder q) None] @ [AgentBlock (end_effect pe (Some ''aborted'') None b')]"
    unfolding user b'(1) using b'(4) with_agent_open [of b' _ "[UserBlock q (wrapped_reminder q) None]"] by (simp add: reduce_def)
  finally have full: "foldl (reduce pe) [] (map snd (interrupted_log q n a r cs)) = [UserBlock q (wrapped_reminder q) None] @ [AgentBlock (end_effect pe (Some ''aborted'') None b')]" .
  have "foldl (reduce pe) [] (map snd (?h @ [?e])) = reduce pe (foldl (reduce pe) [] (map snd ?h)) (snd ?e)" by simp
  also have "\<dots> = [UserBlock q (wrapped_reminder q) None] @ [AgentBlock (end_effect pe (Some ''aborted'') None ?b)]"
    unfolding user using b(3) with_agent_open [of ?b _ "[UserBlock q (wrapped_reminder q) None]"] by (simp add: reduce_def)
  finally have short: "foldl (reduce pe) [] (map snd (?h @ [?e])) =
      [UserBlock q (wrapped_reminder q) None] @ [AgentBlock (end_effect pe (Some ''aborted'') None ?b)]" .
  show ?thesis
    unfolding build_def compacted full short attach using b b' by (simp add: drawn_body_def end_effect_def Let_def)
qed

lemma apply_pending_clock:
  "wi_turnStartedAt (foldl (apply_pending now) w es) = wi_turnStartedAt w \<and> wi_sending (foldl (apply_pending now) w es) = wi_sending w"
proof (induction es arbitrary: w)
  case (Cons e es)
  have "wi_turnStartedAt (apply_pending now w e) = wi_turnStartedAt w \<and> wi_sending (apply_pending now w e) = wi_sending w"
    by (cases "snd e") (auto simp: apply_pending_def dequeue_started_def dock_def split: list.splits)
  then show ?case using Cons.IH by simp
qed simp

text \<open>
  The end of a turn that arrives while the page loads is buffered and afterwards only drawn: no reload is asked for,
  and the clock of the run the snapshot still calls running goes on.
\<close>

theorem end_of_turn_during_load_ignored:
  assumes "wi_loading w" "running_since sn = Some t"
  shows "\<not> snd (handleFrame pe now (sq, TurnDoneFrame i st err) w) \<and>
    wi_turnStartedAt (load_done pe later sn (fst (handleFrame pe now (sq, TurnDoneFrame i st err) w))) = Some t"
  using assms by (simp add: handleFrame_def buffer_def load_done_def Let_def apply_pending_clock split_beta)

section \<open>Witnesses\<close>

definition sample_env :: page_env where
  "sample_env = \<lparr>pe_json = (\<lambda>s. None), pe_t = (\<lambda>k. k)\<rparr>"

definition sample_history :: "tevent list" where
  "sample_history = [(Some 1, UserFrame (Some ''hi'') None), (Some 2, TurnStartFrame), text_chunk (3, ''he''), text_chunk (4, ''llo''),
     (Some 5, MessageFrame (Some ''hello'') None None), (Some 6, TurnEndFrame (Some ''completed'') None),
     (Some 7, UserFrame (Some ''more'') None), text_chunk (8, ''par''), text_chunk (9, ''tial'')]"

definition sample_wire :: wire where
  "sample_wire = \<lparr>wi_state = None, wi_blocks = [], wi_asks = [], wi_pendingUserTexts = [], wi_queuedItems = [], wi_loading = True,
     wi_buffered = [], wi_sending = False, wi_turnStartedAt = None\<rparr>"

definition sample_snapshot :: snapshot where
  "sample_snapshot = \<lparr>sn_events = compactHistory (turn_log 1 ''q'' 2 [(3, ''a''), (4, ''b''), (5, ''c'')]),
     sn_turns = [\<lparr>cr_id = ''r'', cr_state = ''running'', cr_error = None, cr_startedAt = Some 70\<rparr>],
     sn_liveFrames = map text_chunk [(3, ''a''), (4, ''b''), (5, ''c'')], sn_busyRunId = Some ''r'',
     sn_state = \<lparr>ps_goal = None, ps_composer = []\<rparr>\<rparr>"

theorem compaction_draws_the_same_witness:
  "map drawn (build sample_env (compactHistory sample_history) []) = map drawn (build sample_env sample_history []) \<and>
   length (compactHistory sample_history) = 6"
proof
  have "list_all turn_shaped (segments [] sample_history)" by code_simp
  then have shaped: "\<forall>seg \<in> set (segments [] sample_history). turn_shaped seg" by (simp add: list_all_iff)
  show "map drawn (build sample_env (compactHistory sample_history) []) = map drawn (build sample_env sample_history [])"
    by (rule compaction_draws_the_same [OF shaped])
  show "length (compactHistory sample_history) = 6" by code_simp
qed

theorem reload_repeats_streamed_text_witness:
  "drawn_body (agent_of (last (wi_blocks (load_done sample_env 90 sample_snapshot sample_wire)))) = ''abcbc''"
proof -
  have "sn_events sample_snapshot = compactHistory (turn_log 1 ''q'' 2 ((3, ''a'') # [(4, ''b''), (5, ''c'')]))"
    "sn_liveFrames sample_snapshot = map text_chunk ((3, ''a'') # [(4, ''b''), (5, ''c'')])"
    "wi_pendingUserTexts sample_wire = []" "wi_buffered sample_wire = []"
    by (simp_all add: sample_snapshot_def sample_wire_def)
  from reload_repeats_streamed_text [OF _ _ _ _ this] show ?thesis by simp
qed

theorem end_of_turn_during_load_ignored_witness:
  "wi_turnStartedAt (load_done sample_env 99 sample_snapshot
     (fst (handleFrame sample_env 90 (None, TurnDoneFrame (Some ''r'') (Some ''done'') None) sample_wire))) = Some 70"
proof -
  have "wi_loading sample_wire" "running_since sample_snapshot = Some 70" by code_simp+
  from end_of_turn_during_load_ignored [OF this] show ?thesis by blast
qed

end
