(* ===== verification/ChatLive.thy ===== *)
theory ChatLive
  imports Transcript
begin

text \<open>
  What the chat routes keep beside the database: the frames of a running turn and the cards waiting for a human
  (\<^verbatim>\<open>src/routes/chat.ts\<close>, lines 95 to 182), and the bounded cache of histories
  (\<^verbatim>\<open>src/chat/history-cache.ts\<close>). The card registry is shown to refine a map from card to frame, and
  the page that replays it (\<^verbatim>\<open>chat-state.js\<close>) to show the cards of that map.
\<close>

section \<open>Live frames and pending cards\<close>

text \<open>A stored card is its frame with the time it was stored.\<close>

type_synonym card = "tframe \<times> time"

record live_state =
  lv_liveFrames :: "id \<rightharpoonup> tframe list"
  lv_pendingCards :: "id \<rightharpoonup> card list"

definition rows_of :: "(id \<rightharpoonup> 'a list) \<Rightarrow> id \<Rightarrow> 'a list" where
  "rows_of m c = (case m c of None \<Rightarrow> [] | Some xs \<Rightarrow> xs)"

definition live_of :: "live_state \<Rightarrow> id \<Rightarrow> tframe list" where
  "live_of st c = rows_of (lv_liveFrames st) c"

definition cards_of :: "live_state \<Rightarrow> id \<Rightarrow> card list" where
  "cards_of st c = rows_of (lv_pendingCards st) c"

text \<open>An empty list is removed from the map.\<close>

definition put_list :: "id \<Rightarrow> 'a list \<Rightarrow> (id \<rightharpoonup> 'a list) \<Rightarrow> (id \<rightharpoonup> 'a list)" where
  "put_list c xs m = (if xs = [] then m(c := None) else m(c \<mapsto> xs))"

definition CARD_TTL_MS :: int where
  "CARD_TTL_MS = 15 * 60000"

definition asks_question :: "string option \<Rightarrow> tframe \<Rightarrow> bool" where
  "asks_question q f = (case f of QuestionAskedFrame i _ \<Rightarrow> i = q | _ \<Rightarrow> False)"

definition asks_approval :: "string option \<Rightarrow> tframe \<Rightarrow> bool" where
  "asks_approval d f = (case f of ApprovalPendingFrame i _ _ _ \<Rightarrow> i = d | _ \<Rightarrow> False)"

text \<open>An approval is resolved by its decision id, or, when the frame has none, by its approval id.\<close>

definition approval_settled :: "string option \<Rightarrow> string option \<Rightarrow> tframe \<Rightarrow> bool" where
  "approval_settled d a f = (case f of
     ApprovalPendingFrame i j _ _ \<Rightarrow> if d \<noteq> None then i = d else if a \<noteq> None then j = a else False
   | _ \<Rightarrow> False)"

definition updatePendingCard :: "time \<Rightarrow> id \<Rightarrow> tframe \<Rightarrow> live_state \<Rightarrow> live_state" where
  "updatePendingCard now c f st = (case f of
     QuestionAskedFrame (Some q) _ \<Rightarrow>
       st\<lparr>lv_pendingCards := (lv_pendingCards st)(c \<mapsto> filter (\<lambda>x. \<not> asks_question (Some q) (fst x)) (cards_of st c) @ [(f, now)])\<rparr>
   | ApprovalPendingFrame (Some d) _ _ _ \<Rightarrow>
       st\<lparr>lv_pendingCards := (lv_pendingCards st)(c \<mapsto> filter (\<lambda>x. \<not> asks_approval (Some d) (fst x)) (cards_of st c) @ [(f, now)])\<rparr>
   | QuestionResolvedFrame (Some q) \<Rightarrow>
       st\<lparr>lv_pendingCards := put_list c (filter (\<lambda>x. \<not> asks_question (Some q) (fst x)) (cards_of st c)) (lv_pendingCards st)\<rparr>
   | ApprovalResolvedFrame d a \<Rightarrow>
       st\<lparr>lv_pendingCards := put_list c (filter (\<lambda>x. \<not> approval_settled d a (fst x)) (cards_of st c)) (lv_pendingCards st)\<rparr>
   | _ \<Rightarrow> st)"

definition drop_live :: "(tframe \<Rightarrow> bool) \<Rightarrow> id \<Rightarrow> live_state \<Rightarrow> live_state" where
  "drop_live p c st = st\<lparr>lv_liveFrames := put_list c (filter (\<lambda>l. \<not> p l) (live_of st c)) (lv_liveFrames st)\<rparr>"

definition rememberLiveFrame :: "time \<Rightarrow> id \<Rightarrow> tframe \<Rightarrow> live_state \<Rightarrow> live_state" where
  "rememberLiveFrame now c f st = (case f of
     TurnDoneFrame _ _ _ \<Rightarrow> st\<lparr>lv_liveFrames := (lv_liveFrames st)(c := None)\<rparr>
   | QuestionResolvedFrame q \<Rightarrow> updatePendingCard now c f (drop_live (asks_question q) c st)
   | ApprovalResolvedFrame d a \<Rightarrow> updatePendingCard now c f (drop_live (approval_settled d a) c st)
   | _ \<Rightarrow> updatePendingCard now c f (st\<lparr>lv_liveFrames := (lv_liveFrames st)(c \<mapsto> live_of st c @ [f])\<rparr>))"

definition freshCards :: "time \<Rightarrow> live_state \<Rightarrow> id \<Rightarrow> card list" where
  "freshCards now st c = filter (\<lambda>x. now - snd x < CARD_TTL_MS) (cards_of st c)"

definition same_card :: "tframe \<Rightarrow> tframe \<Rightarrow> bool" where
  "same_card c l = (case (l, c) of
     (QuestionAskedFrame (Some q) _, QuestionAskedFrame q' _) \<Rightarrow> Some q = q'
   | (QuestionAskedFrame None _, QuestionAskedFrame _ _) \<Rightarrow> True
   | (ApprovalPendingFrame d _ _ _, ApprovalPendingFrame d' _ _ _) \<Rightarrow> d = d'
   | _ \<Rightarrow> False)"

definition replayFrames :: "time \<Rightarrow> live_state \<Rightarrow> id \<Rightarrow> tframe list" where
  "replayFrames now st c = live_of st c @ filter (\<lambda>f. \<not> list_ex (same_card f) (live_of st c)) (map fst (freshCards now st c))"

definition pendingCardFrames :: "time \<Rightarrow> live_state \<Rightarrow> id \<Rightarrow> tframe list" where
  "pendingCardFrames now st c = map fst (freshCards now st c)"

definition no_live :: live_state where
  "no_live = \<lparr>lv_liveFrames = (\<lambda>_. None), lv_pendingCards = (\<lambda>_. None)\<rparr>"

section \<open>The registry as a map\<close>

datatype card_key = QuestionKey string | ApprovalKey string

definition card_key :: "tframe \<Rightarrow> card_key option" where
  "card_key f = (case f of QuestionAskedFrame (Some q) _ \<Rightarrow> Some (QuestionKey q)
     | ApprovalPendingFrame (Some d) _ _ _ \<Rightarrow> Some (ApprovalKey d) | _ \<Rightarrow> None)"

text \<open>
  The contract: an asked card is entered under its key, a resolved one is removed, and no other frame changes the map.
\<close>

type_synonym card_map = "card_key \<rightharpoonup> card"

definition card_step :: "card_map \<Rightarrow> time \<times> tframe \<Rightarrow> card_map" where
  "card_step m e = (case e of (now, f) \<Rightarrow> (case f of
     QuestionAskedFrame (Some q) _ \<Rightarrow> m(QuestionKey q \<mapsto> (f, now))
   | ApprovalPendingFrame (Some d) _ _ _ \<Rightarrow> m(ApprovalKey d \<mapsto> (f, now))
   | QuestionResolvedFrame (Some q) \<Rightarrow> m(QuestionKey q := None)
   | ApprovalResolvedFrame d a \<Rightarrow> (\<lambda>k. case m k of Some (g, t) \<Rightarrow> if approval_settled d a g then None else Some (g, t) | None \<Rightarrow> None)
   | _ \<Rightarrow> m))"

definition keyed :: "card list \<Rightarrow> (card_key option \<times> card) list" where
  "keyed cs = map (\<lambda>x. (card_key (fst x), x)) cs"

definition card_map :: "card list \<Rightarrow> card_map" where
  "card_map cs k = map_of (keyed cs) (Some k)"

definition cards_ok :: "card list \<Rightarrow> bool" where
  "cards_ok cs \<longleftrightarrow> distinct (map (\<lambda>x. card_key (fst x)) cs) \<and> list_all (\<lambda>x. card_key (fst x) \<noteq> None) cs"

lemma card_key_Some:
  assumes "card_key f = Some k"
  shows "(\<exists>q qs. f = QuestionAskedFrame (Some q) qs \<and> k = QuestionKey q) \<or>
    (\<exists>d a n r. f = ApprovalPendingFrame (Some d) a n r \<and> k = ApprovalKey d)"
  using assms by (cases f) (auto simp: card_key_def split: option.splits)

lemma cards_ok_filter: "cards_ok cs \<Longrightarrow> cards_ok (filter p cs)"
  by (auto simp: cards_ok_def list_all_iff distinct_map inj_on_def)

lemma card_map_Some: "cards_ok cs \<Longrightarrow> card_map cs k = Some x \<longleftrightarrow> x \<in> set cs \<and> card_key (fst x) = Some k"
  by (induction cs) (auto simp: card_map_def keyed_def cards_ok_def image_iff split: if_splits)

lemma card_map_filter:
  assumes "cards_ok cs"
  shows "card_map (filter p cs) k = (case card_map cs k of Some x \<Rightarrow> if p x then Some x else None | None \<Rightarrow> None)"
proof (cases "card_map cs k")
  case None
  then have "card_map (filter p cs) k = None"
    using card_map_Some [OF assms] card_map_Some [OF cards_ok_filter [OF assms]] by (metis filter_is_subset not_Some_eq subsetD)
  then show ?thesis using None by simp
next
  case (Some x)
  then have x: "x \<in> set cs" "card_key (fst x) = Some k" using card_map_Some [OF assms] by auto
  show ?thesis
  proof (cases "p x")
    case True
    then show ?thesis using Some x card_map_Some [OF cards_ok_filter [OF assms], of p k x] by simp
  next
    case False
    have "card_map (filter p cs) k \<noteq> Some y" for y
    proof
      assume "card_map (filter p cs) k = Some y"
      then have "y \<in> set cs" "p y" "card_key (fst y) = Some k" using card_map_Some [OF cards_ok_filter [OF assms]] by auto
      then have "card_map cs k = Some y" using card_map_Some [OF assms] by blast
      then show False using Some False \<open>p y\<close> by simp
    qed
    then have "card_map (filter p cs) k = None" unfolding not_Some_eq [symmetric] by blast
    then show ?thesis using Some False by simp
  qed
qed

lemma asks_key:
  "asks_question (Some q) f \<longleftrightarrow> card_key f = Some (QuestionKey q)" "asks_approval (Some d) f \<longleftrightarrow> card_key f = Some (ApprovalKey d)"
  by (cases f; auto simp: asks_question_def asks_approval_def card_key_def split: option.splits)+

lemma cards_ok_replace: "cards_ok cs \<Longrightarrow> card_key f = Some k \<Longrightarrow> cards_ok (filter (\<lambda>x. card_key (fst x) \<noteq> Some k) cs @ [(f, now)])"
  using cards_ok_filter [of cs "\<lambda>x. card_key (fst x) \<noteq> Some k"] by (auto simp: cards_ok_def)

lemma card_map_replace:
  assumes "cards_ok cs" "card_key f = Some k"
  shows "card_map (filter (\<lambda>x. card_key (fst x) \<noteq> Some k) cs @ [(f, now)]) = (card_map cs)(k \<mapsto> (f, now))"
proof
  fix j
  let ?new = "filter (\<lambda>x. card_key (fst x) \<noteq> Some k) cs @ [(f, now)]"
  note ok = cards_ok_replace [OF assms, of now]
  show "card_map ?new j = ((card_map cs)(k \<mapsto> (f, now))) j"
  proof (cases "j = k")
    case True
    then show ?thesis using card_map_Some [OF ok, of k "(f, now)"] assms(2) by simp
  next
    case False
    then have "card_map ?new j = Some x \<longleftrightarrow> card_map cs j = Some x" for x
      using card_map_Some [OF ok, of j x] card_map_Some [OF assms(1), of j x] assms(2) by auto
    then show ?thesis using False by (cases "card_map cs j"; cases "card_map ?new j") auto
  qed
qed

lemma rows_of_simps [simp]:
  "rows_of (put_list c xs m) d = (if d = c then xs else rows_of m d)" "rows_of (m(c \<mapsto> xs)) d = (if d = c then xs else rows_of m d)"
  "rows_of (m(c := None)) d = (if d = c then [] else rows_of m d)" "rows_of (\<lambda>_. None) d = []"
  by (auto simp: rows_of_def put_list_def)

text \<open>The cards after a frame, whatever happens to the live frames.\<close>

definition card_list_step :: "time \<Rightarrow> tframe \<Rightarrow> card list \<Rightarrow> card list" where
  "card_list_step now f cs = (case f of
     QuestionAskedFrame (Some q) _ \<Rightarrow> filter (\<lambda>x. card_key (fst x) \<noteq> Some (QuestionKey q)) cs @ [(f, now)]
   | ApprovalPendingFrame (Some d) _ _ _ \<Rightarrow> filter (\<lambda>x. card_key (fst x) \<noteq> Some (ApprovalKey d)) cs @ [(f, now)]
   | QuestionResolvedFrame (Some q) \<Rightarrow> filter (\<lambda>x. card_key (fst x) \<noteq> Some (QuestionKey q)) cs
   | ApprovalResolvedFrame d a \<Rightarrow> filter (\<lambda>x. \<not> approval_settled d a (fst x)) cs
   | _ \<Rightarrow> cs)"

lemma cards_of_remember:
  "cards_of (rememberLiveFrame now c f st) d = (if d = c then card_list_step now f (cards_of st c) else cards_of st d)"
  by (cases f) (auto simp: rememberLiveFrame_def updatePendingCard_def card_list_step_def asks_key cards_of_def drop_live_def split: option.splits)

lemma card_list_step_ok: "cards_ok cs \<Longrightarrow> cards_ok (card_list_step now f cs)"
proof (cases "card_key f")
  case None
  assume "cards_ok cs"
  then show ?thesis using None by (cases f) (auto simp: card_list_step_def cards_ok_filter card_key_def split: option.splits)
next
  case (Some k)
  assume ok: "cards_ok cs"
  have "card_list_step now f cs = filter (\<lambda>x. card_key (fst x) \<noteq> Some k) cs @ [(f, now)]"
    using card_key_Some [OF Some] by (auto simp: card_list_step_def)
  then show ?thesis using cards_ok_replace [OF ok Some] by simp
qed

lemma card_list_step_map:
  assumes "cards_ok cs"
  shows "card_map (card_list_step now f cs) = card_step (card_map cs) (now, f)"
proof (cases f)
  case (QuestionAskedFrame q qs)
  then show ?thesis
    using card_map_replace [OF assms, of f _ now] by (cases q) (simp_all add: card_list_step_def card_step_def card_key_def)
next
  case (ApprovalPendingFrame d a n r)
  then show ?thesis
    using card_map_replace [OF assms, of f _ now] by (cases d) (simp_all add: card_list_step_def card_step_def card_key_def)
next
  case (QuestionResolvedFrame q)
  show ?thesis
  proof (cases q)
    case (Some i)
    have "card_map (filter (\<lambda>x. card_key (fst x) \<noteq> Some (QuestionKey i)) cs) k = ((card_map cs)(QuestionKey i := None)) k" for k
    proof (cases "card_map cs k")
      case (Some x)
      then have "card_key (fst x) = Some k" using card_map_Some [OF assms] by blast
      then show ?thesis using Some by (auto simp: card_map_filter [OF assms])
    qed (simp add: card_map_filter [OF assms])
    then show ?thesis using QuestionResolvedFrame Some by (auto simp: card_list_step_def card_step_def)
  qed (simp add: QuestionResolvedFrame card_list_step_def card_step_def)
next
  case (ApprovalResolvedFrame d a)
  then show ?thesis
    by (auto simp: card_list_step_def card_step_def card_map_filter [OF assms] fun_eq_iff split: option.splits)
qed (simp_all add: card_list_step_def card_step_def)

section \<open>The registry refines the map\<close>

type_synonym chat_event = "time \<times> id \<times> tframe"

definition remember_event :: "live_state \<Rightarrow> chat_event \<Rightarrow> live_state" where
  "remember_event st e = (case e of (now, c, f) \<Rightarrow> rememberLiveFrame now c f st)"

definition events_of :: "id \<Rightarrow> chat_event list \<Rightarrow> (time \<times> tframe) list" where
  "events_of c es = map (\<lambda>(now, d, f). (now, f)) (filter (\<lambda>(now, d, f). d = c) es)"

lemma registry_run:
  "cards_ok (cards_of st c) \<Longrightarrow>
     cards_ok (cards_of (foldl remember_event st es) c) \<and>
     card_map (cards_of (foldl remember_event st es) c) = foldl card_step (card_map (cards_of st c)) (events_of c es)"
proof (induction es arbitrary: st)
  case (Cons e es)
  obtain now d f where e: "e = (now, d, f)" by (cases e) auto
  let ?st = "remember_event st e"
  have cards: "cards_of ?st c = (if d = c then card_list_step now f (cards_of st c) else cards_of st c)"
    by (simp add: remember_event_def e cards_of_remember)
  then have "cards_ok (cards_of ?st c)" using Cons.prems card_list_step_ok by simp
  then show ?case
    using Cons.IH [of ?st] cards card_list_step_map [OF Cons.prems, of now f] by (simp add: e events_of_def)
qed (simp add: events_of_def)

lemma no_live_cards [simp]: "cards_of no_live c = []"
  by (simp add: no_live_def cards_of_def)

lemma cards_ok_Nil [simp]: "cards_ok []" "card_map [] = Map.empty"
  by (auto simp: cards_ok_def card_map_def keyed_def)

text \<open>
  Claim C20. The lists of pending cards implement a map from the card (question or approval) to its latest frame: after any
  sequence of frames of any chats, the list of a chat read by key is the map its own frames build.
\<close>

theorem pending_cards_refine_map:
  "card_map (cards_of (foldl remember_event no_live es) c) = foldl card_step Map.empty (events_of c es)"
  using registry_run [of no_live c es] by simp

text \<open>The page that reconnects draws the replayed cards, by their ids.\<close>

definition card_id :: "card_key \<Rightarrow> string" where
  "card_id k = (case k of QuestionKey q \<Rightarrow> q | ApprovalKey d \<Rightarrow> d)"

definition drawable :: "tframe \<Rightarrow> bool" where
  "drawable f = (case f of QuestionAskedFrame _ qs \<Rightarrow> qs \<noteq> None | _ \<Rightarrow> True)"

lemma track_card:
  assumes "card_key f = Some k"
  shows "fst ` set (track cards f) = (if drawable f then insert (card_id k) (fst ` set cards) else fst ` set cards)"
proof -
  consider (q) q qs where "f = QuestionAskedFrame (Some q) qs" "k = QuestionKey q"
    | (a) d a n r where "f = ApprovalPendingFrame (Some d) a n r" "k = ApprovalKey d"
    using card_key_Some [OF assms] by blast
  then show ?thesis
  proof cases
    case q
    then show ?thesis by (cases qs) (simp_all add: track_def drawable_def card_id_def dom_update)
  qed (simp add: track_def drawable_def card_id_def dom_update)
qed

lemma track_cards:
  "list_all (\<lambda>f. card_key f \<noteq> None) fs \<Longrightarrow>
     fst ` set (foldl track cards fs) = fst ` set cards \<union> {card_id k | k f. f \<in> set fs \<and> card_key f = Some k \<and> drawable f}"
proof (induction fs arbitrary: cards)
  case (Cons f fs)
  then obtain k where k: "card_key f = Some k" by auto
  then show ?case using Cons.IH [of "track cards f"] Cons.prems track_card [OF k, of cards] by auto
qed simp

text \<open>
  A page that reconnects shows exactly the cards that were asked, not resolved since, and are younger than the time to
  live; each with the id its answer needs.
\<close>

theorem reconnected_page_shows_open_cards:
  "fst ` set (foldl track [] (pendingCardFrames now (foldl remember_event no_live es) c)) =
     {card_id k | k f at'. foldl card_step Map.empty (events_of c es) k = Some (f, at') \<and> now - at' < CARD_TTL_MS \<and> drawable f}"
proof -
  let ?cs = "cards_of (foldl remember_event no_live es) c"
  have ok: "cards_ok ?cs" and m: "card_map ?cs = foldl card_step Map.empty (events_of c es)"
    using registry_run [of no_live c es] by simp_all
  have keys: "list_all (\<lambda>f. card_key f \<noteq> None) (pendingCardFrames now (foldl remember_event no_live es) c)"
    using ok by (auto simp: pendingCardFrames_def freshCards_def cards_ok_def list_all_iff)
  have "foldl card_step Map.empty (events_of c es) k = Some (f, t) \<longleftrightarrow> (f, t) \<in> set ?cs \<and> card_key f = Some k" for k f t
    using card_map_Some [OF ok, of k "(f, t)"] m by simp
  then show ?thesis
    unfolding track_cards [OF keys] by (force simp: pendingCardFrames_def freshCards_def)
qed

text \<open>
  A card that no turn is there to clear is replayed from the live frames for ever: each look at the chat while the
  host still lists it adds a copy, and the time to live does not apply to the copies.
\<close>

theorem card_outlives_time_to_live:
  "replayFrames later (foldl remember_event no_live (map (\<lambda>now. (now, c, QuestionAskedFrame (Some q) (Some qs))) looks)) c =
     replicate (length looks) (QuestionAskedFrame (Some q) (Some qs))"
proof -
  let ?f = "QuestionAskedFrame (Some q) (Some qs)"
  let ?st = "foldl remember_event no_live (map (\<lambda>now. (now, c, ?f)) looks)"
  have live: "live_of (foldl remember_event st (map (\<lambda>now. (now, c, ?f)) ts)) c = live_of st c @ replicate (length ts) ?f" for st ts
  proof (induction ts arbitrary: st)
    case (Cons t ts)
    have "live_of (remember_event st (t, c, ?f)) c = live_of st c @ [?f]"
      by (simp add: remember_event_def rememberLiveFrame_def updatePendingCard_def live_of_def)
    then show ?case using Cons.IH by simp
  qed simp
  have cards: "cards_of (foldl remember_event st (map (\<lambda>now. (now, c, ?f)) ts)) c = (if ts = [] then cards_of st c else
      filter (\<lambda>x. card_key (fst x) \<noteq> Some (QuestionKey q)) (cards_of st c) @ [(?f, last ts)])" for st ts
  proof (induction ts arbitrary: st)
    case (Cons t ts)
    have "cards_of (remember_event st (t, c, ?f)) c = filter (\<lambda>x. card_key (fst x) \<noteq> Some (QuestionKey q)) (cards_of st c) @ [(?f, t)]"
      by (simp add: remember_event_def cards_of_remember card_list_step_def)
    then show ?case using Cons.IH [of "remember_event st (t, c, ?f)"] by (simp add: card_key_def)
  qed simp
  have l: "live_of ?st c = replicate (length looks) ?f" using live [of no_live looks] by (simp add: live_of_def no_live_def)
  have k: "cards_of ?st c = (if looks = [] then [] else [(?f, last looks)])" using cards [of no_live looks] by simp
  show ?thesis
  proof (cases looks)
    case Nil
    then show ?thesis by (simp add: replayFrames_def freshCards_def live_of_def no_live_def cards_of_def)
  next
    case (Cons t ts)
    have "freshCards later ?st c = [] \<or> freshCards later ?st c = [(?f, last looks)]" using k Cons by (simp add: freshCards_def)
    moreover have "list_ex (same_card ?f) (replicate (length looks) ?f)" using Cons by (simp add: same_card_def)
    ultimately show ?thesis unfolding replayFrames_def l by (elim disjE) simp_all
  qed
qed

section \<open>The cache of histories\<close>

text \<open>The JavaScript map in its insertion order, the oldest entry first.\<close>

type_synonym 'v cache = "(string \<times> 'v \<times> time) list"

definition cache_get :: "int \<Rightarrow> string \<Rightarrow> time \<Rightarrow> 'v cache \<Rightarrow> 'v option \<times> 'v cache" where
  "cache_get ttl k now m = (case map_of m k of
     None \<Rightarrow> (None, m)
   | Some (v, t) \<Rightarrow> if now - t > ttl then (None, AList.delete k m) else (Some v, AList.delete k m @ [(k, v, t)]))"

fun evict :: "int \<Rightarrow> 'v cache \<Rightarrow> 'v cache" where
  "evict cap [] = []"
| "evict cap (x # xs) = (if int (length (x # xs)) > cap then evict cap xs else x # xs)"

definition cache_set :: "int \<Rightarrow> string \<Rightarrow> 'v \<Rightarrow> time \<Rightarrow> 'v cache \<Rightarrow> 'v cache" where
  "cache_set cap k v now m = evict cap (AList.delete k m @ [(k, v, now)])"

definition cache_delete :: "string \<Rightarrow> 'v cache \<Rightarrow> 'v cache" where
  "cache_delete k m = AList.delete k m"

datatype 'v cache_op = CacheGet string time | CacheSet string 'v time | CacheDelete string

definition cache_step :: "int \<Rightarrow> int \<Rightarrow> 'v cache \<Rightarrow> 'v cache_op \<Rightarrow> 'v cache" where
  "cache_step cap ttl m c = (case c of CacheGet k now \<Rightarrow> snd (cache_get ttl k now m) | CacheSet k v now \<Rightarrow> cache_set cap k v now m
     | CacheDelete k \<Rightarrow> cache_delete k m)"

text \<open>What was stored last and not invalidated since.\<close>

definition store_step :: "(string \<rightharpoonup> 'v \<times> time) \<Rightarrow> 'v cache_op \<Rightarrow> (string \<rightharpoonup> 'v \<times> time)" where
  "store_step s c = (case c of CacheGet k now \<Rightarrow> s | CacheSet k v now \<Rightarrow> s(k \<mapsto> (v, now)) | CacheDelete k \<Rightarrow> s(k := None))"

definition cache_inv :: "int \<Rightarrow> (string \<rightharpoonup> 'v \<times> time) \<Rightarrow> 'v cache \<Rightarrow> bool" where
  "cache_inv cap s m \<longleftrightarrow> distinct (map fst m) \<and> int (length m) \<le> cap \<and> map_of m \<subseteq>\<^sub>m s"

lemma evict_suffix: "\<exists>n. evict cap m = drop n m"
proof (induction m)
  case (Cons x m)
  then obtain n where "evict cap m = drop n m" by blast
  then show ?case by (cases "int (length (x # m)) > cap") (auto intro: exI [of _ "Suc n"] exI [of _ 0])
qed simp

lemma evict_bound: "0 \<le> cap \<Longrightarrow> int (length (evict cap m)) \<le> cap"
  by (induction m) auto

lemma map_le_drop: "distinct (map fst m) \<Longrightarrow> map_of (drop n m) \<subseteq>\<^sub>m map_of m"
proof -
  assume d: "distinct (map fst m)"
  have "map_of (drop n m) k = Some v \<Longrightarrow> map_of m k = Some v" for k v
    using d map_of_SomeD [of "drop n m" k v] in_set_dropD by (fastforce intro: map_of_is_SomeI)
  then show ?thesis by (auto simp: map_le_def dom_def)
qed

lemma delete_distinct: "distinct (map fst m) \<Longrightarrow> distinct (map fst (AList.delete k m)) \<and> k \<notin> fst ` set (AList.delete k m)"
  by (simp add: AList.delete_keys distinct_removeAll flip: set_map)

lemma length_delete:
  assumes "map_of m k = Some x"
  shows "length (AList.delete k m) < length m"
proof -
  have "(k, x) \<in> set m" using assms by (rule map_of_SomeD)
  then show ?thesis unfolding AList.delete_eq by (rule length_filter_less) simp
qed

lemma map_of_delete_le: "map_of m \<subseteq>\<^sub>m s \<Longrightarrow> map_of (AList.delete k m) \<subseteq>\<^sub>m s(k := None)"
  by (auto simp: map_le_def AList.delete_conv')

lemma map_of_snoc: "k \<notin> fst ` set m \<Longrightarrow> map_of (m @ [(k, x)]) = (map_of m)(k \<mapsto> x)"
  by (rule ext) (auto simp: map_of_append map_add_def split: option.splits dest: map_of_SomeD simp: rev_image_eqI)

lemma cache_inv_push:
  assumes "cache_inv cap s m" "s' k = Some x" "\<And>j. j \<noteq> k \<Longrightarrow> s' j = s j"
  shows "distinct (map fst (AList.delete k m @ [(k, x)])) \<and> map_of (AList.delete k m @ [(k, x)]) \<subseteq>\<^sub>m s'"
proof -
  have d: "distinct (map fst (AList.delete k m))" "k \<notin> fst ` set (AList.delete k m)"
    using delete_distinct [of m k] assms(1) by (simp_all add: cache_inv_def)
  have le: "map_of m \<subseteq>\<^sub>m s" using assms(1) by (simp add: cache_inv_def)
  have "map_of (AList.delete k m @ [(k, x)]) j = Some y \<Longrightarrow> s' j = Some y" for j y
    unfolding map_of_snoc [OF d(2)] AList.delete_conv' using le assms(2,3)
    by (cases "j = k") (auto simp: map_le_def dom_def)
  then have "map_of (AList.delete k m @ [(k, x)]) \<subseteq>\<^sub>m s'" unfolding map_le_def by (metis domD)
  then show ?thesis using d by simp
qed

lemma cache_inv_step:
  assumes inv: "cache_inv cap s m" and cap: "0 \<le> cap"
  shows "cache_inv cap (store_step s c) (cache_step cap ttl m c)"
proof (cases c)
  case (CacheGet k now)
  show ?thesis
  proof (cases "map_of m k")
    case None
    then show ?thesis using inv CacheGet by (simp add: cache_step_def cache_get_def store_step_def)
  next
    case (Some x)
    have len: "int (length (AList.delete k m)) < cap" using length_delete [OF Some] inv by (simp add: cache_inv_def)
    have gone: "map_of (AList.delete k m) \<subseteq>\<^sub>m s"
      using inv by (auto simp: cache_inv_def map_le_def AList.delete_conv')
    have "s k = Some x" using inv Some by (auto simp: cache_inv_def map_le_def dom_def)
    then show ?thesis
      using Some CacheGet inv len gone cache_inv_push [OF inv, of s k x] delete_distinct [of m k]
      by (cases x) (auto simp: cache_step_def cache_get_def store_step_def cache_inv_def)
  qed
next
  case (CacheSet k v now)
  obtain n where n: "evict cap (AList.delete k m @ [(k, v, now)]) = drop n (AList.delete k m @ [(k, v, now)])" using evict_suffix by blast
  have p: "distinct (map fst (AList.delete k m @ [(k, v, now)]))" "map_of (AList.delete k m @ [(k, v, now)]) \<subseteq>\<^sub>m s(k \<mapsto> (v, now))"
    using cache_inv_push [OF inv, of "s(k \<mapsto> (v, now))" k "(v, now)"] by simp_all
  have bound: "int (length (drop n (AList.delete k m @ [(k, v, now)]))) \<le> cap"
    using evict_bound [OF cap, of "AList.delete k m @ [(k, v, now)]"] unfolding n .
  have "map_of (drop n (AList.delete k m @ [(k, v, now)])) \<subseteq>\<^sub>m s(k \<mapsto> (v, now))"
    using map_le_trans [OF map_le_drop [OF p(1)] p(2)] .
  moreover have "distinct (map fst (drop n (AList.delete k m @ [(k, v, now)])))" using p(1) by (metis distinct_drop drop_map)
  ultimately show ?thesis
    using bound n unfolding CacheSet cache_step_def cache_set_def store_step_def cache_inv_def cache_op.case by (metis)
next
  case (CacheDelete k)
  have "length (AList.delete k m) \<le> length m" by (simp add: AList.delete_eq)
  then show ?thesis
    using inv map_of_delete_le [of m s k] delete_distinct [of m k]
    by (simp add: CacheDelete cache_step_def cache_delete_def store_step_def cache_inv_def)
qed

lemma cache_inv_run:
  "cache_inv cap s m \<Longrightarrow> 0 \<le> cap \<Longrightarrow> cache_inv cap (foldl store_step s cs) (foldl (cache_step cap ttl) m cs)"
  by (induction cs arbitrary: s m) (auto intro: cache_inv_step)

text \<open>
  After any sequence of reads, stores and invalidations the cache holds at most its capacity, and a hit is the
  history that was stored last, not invalidated since, and not older than its time to live.
\<close>

theorem cached_history_is_current:
  assumes "0 \<le> cap" "m = foldl (cache_step cap ttl) [] cs" "fst (cache_get ttl k now m) = Some v"
  shows "int (length m) \<le> cap \<and> (\<exists>t. foldl store_step Map.empty cs k = Some (v, t) \<and> now - t \<le> ttl)"
proof -
  have inv: "cache_inv cap (foldl store_step Map.empty cs) m"
    using cache_inv_run [of cap Map.empty "[]" cs ttl] assms(1,2) by (simp add: cache_inv_def)
  obtain t where t: "map_of m k = Some (v, t)" "now - t \<le> ttl"
    using assms(3) by (auto simp: cache_get_def split: option.splits if_splits)
  then show ?thesis using inv by (force simp: cache_inv_def map_le_def dom_def)
qed

theorem cached_history_is_current_witness:
  "\<exists>t. foldl store_step Map.empty [CacheSet ''s'' (1 :: int) 10, CacheSet ''u'' 2 20, CacheDelete ''u'', CacheSet ''w'' 3 30] ''s'' = Some (1, t) \<and>
     35 - t \<le> 30"
proof -
  have "fst (cache_get 30 ''s'' 35 (foldl (cache_step 2 30) []
      [CacheSet ''s'' (1 :: int) 10, CacheSet ''u'' 2 20, CacheDelete ''u'', CacheSet ''w'' 3 30])) = Some 1"
    by code_simp
  from cached_history_is_current [OF _ refl this] show ?thesis by simp
qed

end
