(* ===== verification/Upstream.thy ===== *)
theory Upstream
  imports Transcript
begin

text \<open>
  The translation of the facade's wire values (\<^verbatim>\<open>src/upstream/translate.ts\<close>): events of the durable log become
  history events, bodies of broadcast frames become gateway frames, session lists are unwrapped. A value is a JSON value
  whose numbers are integers; a missing field is None. The fields of a frame that nobody reads (the outcome of a resolved card)
  are left out of the target type.
\<close>

section \<open>Reading untyped values\<close>

definition field :: "json option \<Rightarrow> string \<Rightarrow> json option" where
  "field v k = (case v of Some (JObj kvs) \<Rightarrow> map_of kvs k | _ \<Rightarrow> None)"

text \<open>\<^verbatim>\<open>v ?? null\<close>: null and undefined are the same afterwards.\<close>

definition nullish :: "json option \<Rightarrow> bool" where
  "nullish v \<longleftrightarrow> v = None \<or> v = Some JNull"

fun truthy_json :: "json \<Rightarrow> bool" where
  "truthy_json JNull = False"
| "truthy_json (JBool b) = b"
| "truthy_json (JNum n) = (n \<noteq> 0)"
| "truthy_json (JStr s) = (s \<noteq> [])"
| "truthy_json (JList xs) = True"
| "truthy_json (JObj kvs) = True"

definition truthy :: "json option \<Rightarrow> bool" where
  "truthy v = (case v of None \<Rightarrow> False | Some j \<Rightarrow> truthy_json j)"

fun join_comma :: "string list \<Rightarrow> string" where
  "join_comma [] = []"
| "join_comma [s] = s"
| "join_comma (s # t # ss) = s @ '','' @ join_comma (t # ss)"

text \<open>\<^verbatim>\<open>String(v)\<close>; in an array null is printed as the empty string.\<close>

fun js_string_json :: "json \<Rightarrow> string" where
  "js_string_json JNull = ''null''"
| "js_string_json (JBool b) = (if b then ''true'' else ''false'')"
| "js_string_json (JNum n) = show_int n"
| "js_string_json (JStr s) = s"
| "js_string_json (JList xs) = join_comma (map (\<lambda>x. case x of JNull \<Rightarrow> [] | _ \<Rightarrow> js_string_json x) xs)"
| "js_string_json (JObj kvs) = ''[object Object]''"

definition js_string :: "json option \<Rightarrow> string" where
  "js_string v = (case v of None \<Rightarrow> ''undefined'' | Some j \<Rightarrow> js_string_json j)"

definition string_if_truthy :: "json option \<Rightarrow> string option" where
  "string_if_truthy v = (if truthy v then Some (js_string v) else None)"

definition or_string :: "json option \<Rightarrow> string \<Rightarrow> string" where
  "or_string v d = (if truthy v then js_string v else d)"

definition as_string :: "json option \<Rightarrow> string option" where
  "as_string v = (case v of Some (JStr s) \<Rightarrow> Some s | _ \<Rightarrow> None)"

definition as_int :: "json option \<Rightarrow> int option" where
  "as_int v = (case v of Some (JNum n) \<Rightarrow> Some n | _ \<Rightarrow> None)"

definition as_bool :: "json option \<Rightarrow> bool option" where
  "as_bool v = (case v of Some (JBool b) \<Rightarrow> Some b | _ \<Rightarrow> None)"

definition is_object :: "json option \<Rightarrow> bool" where
  "is_object v = (case v of Some (JObj _) \<Rightarrow> True | Some (JList _) \<Rightarrow> True | _ \<Rightarrow> False)"

section \<open>Events of the log\<close>

definition block_text :: "string \<Rightarrow> json \<Rightarrow> string" where
  "block_text kind b = (if field (Some b) ''type'' = Some (JStr kind) then js_string (field (Some b) ''text'') else [])"

definition extractText :: "json option \<Rightarrow> string" where
  "extractText content = (case content of Some (JList bs) \<Rightarrow> concat (map (block_text ''text'') bs) | _ \<Rightarrow> [])"

definition extractReasoning :: "json option \<Rightarrow> string" where
  "extractReasoning content = (case content of Some (JList bs) \<Rightarrow> concat (map (block_text ''reasoning'') bs) | _ \<Rightarrow> [])"

text \<open>The token counts of a frame, as far as the page reads them.\<close>

definition normalize_usage :: "json option \<Rightarrow> wire_usage option" where
  "normalize_usage v =
     (let i = as_int (field v ''inputTokens''); out = as_int (field v ''outputTokens'')
      in if i = None \<and> out = None then None
         else Some \<lparr>wu_inputTokens = Some (or0 i), wu_outputTokens = Some (or0 out), wu_reasoningTokens = as_int (field v ''reasoningTokens'')\<rparr>)"

definition chunkJson :: "json option \<Rightarrow> chunk option" where
  "chunkJson v = (if \<not> is_object v then None else
     (case field v ''type'' of
        Some (JStr k) \<Rightarrow>
          if k = ''text-delta'' \<or> k = ''reasoning-delta'' then Some \<lparr>ck_type = Some k, ck_text = Some (js_string (field v ''text''))\<rparr>
          else if k = ''tool-call-delta'' \<or> k = ''usage'' \<or> k = ''finish'' then Some \<lparr>ck_type = Some k, ck_text = None\<rparr>
          else None
      | _ \<Rightarrow> None))"

definition end_detail :: "json option \<Rightarrow> turn_detail option" where
  "end_detail reason =
     (if field reason ''kind'' = Some (JStr ''aborted'') \<and> truthy (field reason ''reason'')
      then Some \<lparr>td_message = None, td_cause = Some (if nullish (field (field reason ''reason'') ''kind'') then [] else js_string (field (field reason ''reason'') ''kind''))\<rparr>
      else if field reason ''kind'' = Some (JStr ''error'') \<and> truthy (field reason ''error'')
      then Some \<lparr>td_message = Some (if nullish (field (field reason ''error'') ''message'') then [] else js_string (field (field reason ''error'') ''message'')), td_cause = None\<rparr>
      else None)"

definition first_block :: "json option \<Rightarrow> json option" where
  "first_block message = (case field message ''content'' of Some (JList (b # _)) \<Rightarrow> Some b | _ \<Rightarrow> None)"

definition event_frame :: "string \<Rightarrow> json option \<Rightarrow> tframe option" where
  "event_frame type data =
     (if type = ''user/message'' then Some (UserFrame (Some (extractText (field data ''content''))) None)
      else if type = ''assistant/chunk'' then
        (case chunkJson (field data ''chunk'') of None \<Rightarrow> None | Some c \<Rightarrow> Some (ChunkFrame (Some c)))
      else if type = ''assistant/message'' then
        (let content = field (field data ''message'') ''content''; r = extractReasoning content
         in Some (MessageFrame (Some (extractText content)) (if r = [] then None else Some r) (normalize_usage (field data ''usage''))))
      else if type = ''tool/call'' then
        Some (ToolCallFrame (Some (if truthy data then js_string (field data ''name'') else []))
                            (Some (if truthy data then js_string (field data ''arguments'') else [])))
      else if type = ''tool/result'' then
        (let block = first_block (field data ''message'')
         in Some (ToolResultFrame (truthy data \<and> (truthy (field data ''error'') \<or> (truthy block \<and> truthy (field block ''isError''))))
                   (Some (if truthy (field block ''content'') then extractText (field block ''content'') else []))))
      else if type = ''approval/asked'' then
        Some (ApprovalAskedFrame (Some (or_string (field data ''toolName'') [])) (string_if_truthy (field data ''reason'')))
      else if type = ''approval/decided'' then Some ApprovalDecidedFrame
      else if type = ''approval/policy'' then Some (UnknownFrame ''approval_policy'')
      else if type = ''turn/start'' then Some TurnStartFrame
      else if type = ''turn/end'' then
        (let reason = field data ''reason''
         in Some (TurnEndFrame (Some (if nullish reason \<or> \<not> truthy reason then ''unknown'' else js_string (field reason ''kind'')))
                   (if nullish reason then None else end_detail reason)))
      else None)"

definition eventPayload :: "json option \<Rightarrow> tevent option" where
  "eventPayload e = (if \<not> is_object e then None else
     (let data = (if nullish (field e ''data'') then None else field e ''data'');
          seq = (case as_int (field e ''seq'') of None \<Rightarrow> 0 | Some n \<Rightarrow> n)
      in case as_string (field e ''type'') of None \<Rightarrow> None
         | Some type \<Rightarrow> (case event_frame type data of None \<Rightarrow> None | Some f \<Rightarrow> Some (Some seq, f))))"

definition mapEvents :: "json option list \<Rightarrow> tevent list" where
  "mapEvents es = List.map_filter eventPayload es"

definition unwrapHistoryEvents :: "json option \<Rightarrow> json option list" where
  "unwrapHistoryEvents v = (case field v ''events'' of
     Some (JList es) \<Rightarrow> map (\<lambda>e. field (Some e) ''event'') (filter (\<lambda>e. is_object (Some e)) es)
   | _ \<Rightarrow> [])"

text \<open>The history as the page receives it.\<close>

definition history_events :: "json option \<Rightarrow> tevent list" where
  "history_events v = compactHistory (mapEvents (unwrapHistoryEvents v))"

section \<open>Bodies of broadcast frames\<close>

datatype mux_frame =
    SessionEvent string "json option"
  | SessionProjection string string "json option" "int option"
  | QuestionRequested string "json list"
  | QuestionResolved string string
  | ApprovalRequested string string string "string option"
  | ApprovalResolved string string

definition mux_session :: "mux_frame \<Rightarrow> string" where
  "mux_session f = (case f of SessionEvent s _ \<Rightarrow> s | SessionProjection s _ _ _ \<Rightarrow> s | QuestionRequested s _ \<Rightarrow> s
     | QuestionResolved s _ \<Rightarrow> s | ApprovalRequested s _ _ _ \<Rightarrow> s | ApprovalResolved s _ \<Rightarrow> s)"

definition question_item :: "json \<Rightarrow> bool" where
  "question_item q \<longleftrightarrow> (case q of JObj _ \<Rightarrow> as_string (field (Some q) ''id'') \<noteq> None \<and> as_string (field (Some q) ''question'') \<noteq> None | _ \<Rightarrow> False)"

text \<open>A field that is a string, null or missing.\<close>

definition nullable_string :: "json option \<Rightarrow> bool" where
  "nullable_string v \<longleftrightarrow> nullish v \<or> as_string v \<noteq> None"

definition optional_int :: "json option \<Rightarrow> bool" where
  "optional_int v \<longleftrightarrow> v = None \<or> as_int v \<noteq> None"

definition parseMuxPayload :: "json \<Rightarrow> mux_frame option" where
  "parseMuxPayload payload = (case payload of JObj kvs \<Rightarrow>
     (let v = Some payload; str = (\<lambda>k. as_string (field v k)) in
      case (str ''type'', str ''sessionId'') of
        (Some type, Some s) \<Rightarrow>
          if type = ''session/event'' then Some (SessionEvent s (field v ''event''))
          else if type = ''session/projection'' then
            (case str ''key'' of Some k \<Rightarrow> if optional_int (field v ''seq'') then Some (SessionProjection s k (field v ''value'') (as_int (field v ''seq''))) else None
             | None \<Rightarrow> None)
          else if type = ''question/requested'' then
            (case field v ''questions'' of Some (JList qs) \<Rightarrow> if list_all question_item qs then Some (QuestionRequested s qs) else None | _ \<Rightarrow> None)
          else if type = ''question/resolved'' then
            (case (str ''questionRpcId'', str ''outcome'') of (Some q, Some _) \<Rightarrow> Some (QuestionResolved s q) | _ \<Rightarrow> None)
          else if type = ''approval/requested'' then
            (case (str ''approvalId'', str ''toolName'') of
               (Some a, Some n) \<Rightarrow> if nullable_string (field v ''callId'') \<and> nullable_string (field v ''reason'')
                                    then Some (ApprovalRequested s a n (str ''reason'')) else None
             | _ \<Rightarrow> None)
          else if type = ''approval/resolved'' then
            (case (str ''approvalId'', str ''outcome'') of (Some a, Some _) \<Rightarrow> Some (ApprovalResolved s a) | _ \<Rightarrow> None)
          else None
      | _ \<Rightarrow> None)
   | _ \<Rightarrow> None)"

definition GOAL_PHASES :: "string list" where
  "GOAL_PHASES = [''active'', ''paused'', ''blocked'', ''complete'']"

definition blocked_reason_ok :: "json option \<Rightarrow> bool" where
  "blocked_reason_ok v \<longleftrightarrow> nullish v \<or> (case v of Some (JObj _) \<Rightarrow> field v ''message'' = None \<or> as_string (field v ''message'') \<noteq> None | _ \<Rightarrow> False)"

definition goalOf :: "json option \<Rightarrow> upstream_goal option" where
  "goalOf v = (case v of Some (JObj _) \<Rightarrow>
     (case (as_string (field v ''id''), as_string (field v ''objective''), as_string (field v ''phase'')) of
        (Some i, Some ob, Some ph) \<Rightarrow>
          if ph \<in> set GOAL_PHASES \<and> blocked_reason_ok (field v ''blockedReason'')
          then Some \<lparr>ug_id = i, ug_objective = ob, ug_phase = ph,
                     ug_blockedReason = as_string (field (field v ''blockedReason'') ''message'')\<rparr>
          else None
      | _ \<Rightarrow> None)
   | _ \<Rightarrow> None)"

definition goalProjectionFrame :: "mux_frame \<Rightarrow> tevent option" where
  "goalProjectionFrame f = (case f of SessionProjection s k v seq \<Rightarrow>
     if k = ''goal'' then Some (Some (case seq of None \<Rightarrow> 0 | Some n \<Rightarrow> n), GoalFrame (goalOf v)) else None | _ \<Rightarrow> None)"

definition muxFrameToGatewayFrame :: "mux_frame \<Rightarrow> tevent option" where
  "muxFrameToGatewayFrame f = (case f of SessionEvent s (Some e) \<Rightarrow> eventPayload (Some e) | _ \<Rightarrow> None)"

definition questionRequestedFrame :: "string \<Rightarrow> json list \<Rightarrow> tevent" where
  "questionRequestedFrame rpcId qs = (Some 0, QuestionAskedFrame (Some rpcId) (Some qs))"

definition questionResolvedFrame :: "string \<Rightarrow> tevent" where
  "questionResolvedFrame q = (Some 0, QuestionResolvedFrame (Some q))"

definition approvalRequestedFrame :: "string \<Rightarrow> string \<Rightarrow> string \<Rightarrow> string option \<Rightarrow> tevent" where
  "approvalRequestedFrame rpcId a name reason = (Some 0, ApprovalPendingFrame (Some rpcId) (Some a) (Some name) reason)"

definition approvalResolvedFrame :: "string \<Rightarrow> string option \<Rightarrow> tevent" where
  "approvalResolvedFrame a decisionId = (Some 0, ApprovalResolvedFrame decisionId (Some a))"

section \<open>The session list\<close>

record session_summary =
  ss_sessionId :: string
  ss_title :: "string option"
  ss_updatedAt :: "int option"
  ss_running :: bool
  ss_blank :: bool

definition summary_of :: "json \<Rightarrow> session_summary option" where
  "summary_of j =
     (let v = Some j; values = field (field v ''projections'') ''values'' in
      case (j, as_string (field v ''sessionId'')) of
        (JObj _, Some s) \<Rightarrow>
          if optional_int (field v ''updatedAt'') \<and> (field v ''running'' = None \<or> as_bool (field v ''running'') \<noteq> None)
             \<and> (field v ''blank'' = None \<or> as_bool (field v ''blank'') \<noteq> None)
             \<and> (field v ''projections'' = None \<or>
                 (case values of Some (JObj _) \<Rightarrow> field values ''title'' = None \<or> as_string (field values ''title'') \<noteq> None | _ \<Rightarrow> False))
          then Some \<lparr>ss_sessionId = s, ss_title = as_string (field values ''title''), ss_updatedAt = as_int (field v ''updatedAt''),
                     ss_running = (as_bool (field v ''running'') = Some True), ss_blank = (as_bool (field v ''blank'') = Some True)\<rparr>
          else None
      | _ \<Rightarrow> None)"

text \<open>One entry of a wrong shape empties the list.\<close>

definition mapSessionList :: "json option \<Rightarrow> session_summary list" where
  "mapSessionList v = (case (v, field v ''items'') of
     (Some (JObj _), Some (JList items)) \<Rightarrow> if list_all (\<lambda>j. summary_of j \<noteq> None) items then List.map_filter summary_of items else []
   | _ \<Rightarrow> [])"

section \<open>The translated history is well formed\<close>

text \<open>The frames that only the manager or the broadcast produces.\<close>

definition manager_frame :: "tframe \<Rightarrow> bool" where
  "manager_frame f = (case f of TurnDoneFrame _ _ _ \<Rightarrow> True | QuestionAskedFrame _ _ \<Rightarrow> True | QuestionResolvedFrame _ \<Rightarrow> True
     | ApprovalPendingFrame _ _ _ _ \<Rightarrow> True | ApprovalResolvedFrame _ _ \<Rightarrow> True | TurnQueuedFrame _ _ \<Rightarrow> True | GoalFrame _ \<Rightarrow> True
     | HelloFrame \<Rightarrow> True | ComposerStateFrame _ \<Rightarrow> True | DelegationDoneFrame \<Rightarrow> True | _ \<Rightarrow> False)"

definition log_event :: "tevent \<Rightarrow> bool" where
  "log_event e \<longleftrightarrow> fst e \<noteq> None \<and> well_chunk e \<and> \<not> manager_frame (snd e)"

lemma chunkJson_typed: "chunkJson v = Some c \<Longrightarrow> ck_type c \<noteq> None"
proof (cases "field v ''type''")
  case (Some t)
  then show "chunkJson v = Some c \<Longrightarrow> ck_type c \<noteq> None"
    by (cases t; simp add: chunkJson_def split: if_split_asm) (metis chunk.select_convs(1))+
qed (simp add: chunkJson_def split: if_split_asm)

lemma log_frame:
  "chunkJson v = Some c \<Longrightarrow> log_event (Some s, ChunkFrame (Some c))"
  "log_event (Some s, UserFrame x t)" "log_event (Some s, MessageFrame x y u)" "log_event (Some s, ToolCallFrame x y)"
  "log_event (Some s, ToolResultFrame b x)" "log_event (Some s, ApprovalAskedFrame x y)" "log_event (Some s, ApprovalDecidedFrame)"
  "log_event (Some s, UnknownFrame k)" "log_event (Some s, TurnStartFrame)" "log_event (Some s, TurnEndFrame x d)"
  using chunkJson_typed [of v c] by (simp_all add: log_event_def well_chunk_def manager_frame_def)

text \<open>The branches of the translation, one by one.\<close>

definition log_option :: "tframe option \<Rightarrow> bool" where
  "log_option x \<longleftrightarrow> (\<forall>f s. x = Some f \<longrightarrow> log_event (Some s, f))"

lemma log_option_intros:
  "log_option x \<Longrightarrow> log_option y \<Longrightarrow> log_option (if b then x else y)" "log_option None"
  "(\<And>s. log_event (Some s, f)) \<Longrightarrow> log_option (Some f)"
  "log_option (case chunkJson v of None \<Rightarrow> None | Some c \<Rightarrow> Some (ChunkFrame (Some c)))"
  by (auto simp: log_option_def log_frame split: option.splits)

lemma event_frame_log: "event_frame type data = Some f \<Longrightarrow> log_event (Some s, f)"
proof -
  have "log_option (event_frame type data)"
    unfolding event_frame_def Let_def by (intro log_option_intros log_frame(2-))
  then show "event_frame type data = Some f \<Longrightarrow> log_event (Some s, f)" by (simp add: log_option_def)
qed

lemma eventPayload_log: "eventPayload e = Some x \<Longrightarrow> log_event x"
  by (auto simp: eventPayload_def Let_def split: if_splits option.splits dest: event_frame_log)

lemma mapEvents_log: "x \<in> set (mapEvents es) \<Longrightarrow> log_event x"
  by (auto simp: mapEvents_def List.map_filter_def dest: eventPayload_log)

text \<open>The compaction keeps the events that are not chunks, and types its chunks.\<close>

lemma compact_out_log:
  assumes "\<forall>e \<in> set (cp_out st). log_event e" "log_event e"
  shows "\<forall>x \<in> set (cp_out (compact_event hm st e)). log_event x"
proof (cases e rule: event_cases)
  case (1 s c)
  show ?thesis
  proof (cases "map_of (cp_merged st) (chunkType c)")
    case None
    then show ?thesis using 1 assms by (auto simp: compact_event_chunk log_event_def well_chunk_def manager_frame_def)
  next
    case (Some i)
    have "log_event (add_text x y)" if "log_event y" for x y
      using that by (auto simp: add_text_def log_event_def well_chunk_def manager_frame_def split: prod.splits tframe.splits option.splits)
    note add = this
    have "\<forall>x \<in> set ((cp_out st)[i := add_text (chunkText c) (cp_out st ! i)]). log_event x"
    proof (cases "i < length (cp_out st)")
      case True
      have "log_event (add_text (chunkText c) (cp_out st ! i))" using assms(1) nth_mem [OF True] add by blast
      then show ?thesis using assms(1) set_update_subset_insert [of "cp_out st" i "add_text (chunkText c) (cp_out st ! i)"] by blast
    qed (use assms(1) in \<open>simp add: list_update_beyond\<close>)
    then show ?thesis using 1 Some assms by (simp add: compact_event_chunk)
  qed
next
  case 2
  then show ?thesis using assms by (auto simp: compact_event_other)
qed

lemma compact_foldl_log:
  "\<forall>e \<in> set (cp_out st). log_event e \<Longrightarrow> \<forall>e \<in> set es. log_event e \<Longrightarrow> \<forall>x \<in> set (cp_out (foldl (compact_event hm) st es)). log_event x"
proof (induction es arbitrary: st)
  case (Cons e es)
  have "log_event e" "\<forall>e \<in> set es. log_event e" using Cons.prems(2) by simp_all
  from Cons.IH [OF compact_out_log [OF Cons.prems(1) this(1), of hm] this(2)] show ?case unfolding foldl_Cons .
qed simp

lemma segments_set: "seg \<in> set (segments cur es) \<Longrightarrow> set seg \<subseteq> set cur \<union> set es"
  using arg_cong [OF segments_concat [of cur es], of set] by auto

text \<open>
  Whatever the host answers to a history request, the page receives events with a sequence number, chunks with a
  type, and none of the frames the manager produces itself (the end of a run, cards, queue, goal).
\<close>

theorem host_history_well_formed:
  "list_all log_event (history_events v)"
proof -
  have "\<forall>x \<in> set (compactSegment seg). log_event x" if "seg \<in> set (segments [] (mapEvents es))" for seg es
    unfolding compactSegment_def using segments_set [OF that] mapEvents_log
    by (intro compact_foldl_log) auto
  then show ?thesis by (auto simp: list_all_iff history_events_def compactHistory_def)
qed

end
