(* ===== verification/Mux.thy ===== *)
theory Mux
  imports Upstream
begin

text \<open>
  The consumer of a node's event stream (\<^verbatim>\<open>src/upstream/mux.ts\<close>): one broadcast connection per endpoint, shared by the
  subscriptions of all sessions, with reconnection.

  The objects that closures hold on to (connections, listener sets, sockets) live in lists and are named by their position, so
  that an old closure keeps pointing at its own object. A subscription is named by its position too: the function that
  \<^verbatim>\<open>subscribe\<close> returns is its handle, the listener it registers is the position itself, since every caller passes a closure
  of its own. What listeners receive is recorded in \<open>mx_delivered\<close>; what they do with it are further events.
\<close>

section \<open>State\<close>

record mux_conn =
  mc_base :: string
  mc_ws :: "nat option"
  mc_listeners :: "(string \<times> nat) list"
  mc_closed :: bool
  mc_reconnectTimer :: bool
  mc_approvalRpcIds :: "(string \<times> string) list"
  mc_wasConnected :: bool
  mc_reconnectAttempt :: int

text \<open>What the function returned by \<^verbatim>\<open>subscribe\<close> has captured.\<close>

record handle =
  hd_conn :: nat
  hd_set :: nat
  hd_session :: string
  hd_base :: string

record mux =
  mx_conns :: "mux_conn list"
  mx_sets :: "nat list list"
  mx_sockets :: "(nat \<times> bool) list"
  mx_connections :: "(string \<times> nat) list"
  mx_handles :: "handle list"
  mx_reconnectCount :: int
  mx_delivered :: "(nat \<times> string \<times> tevent) list"
  mx_closing :: "nat list"

definition mux_init :: mux where
  "mux_init = \<lparr>mx_conns = [], mx_sets = [], mx_sockets = [], mx_connections = [], mx_handles = [], mx_reconnectCount = 0,
     mx_delivered = [], mx_closing = []\<rparr>"

definition new_conn :: "string \<Rightarrow> mux_conn" where
  "new_conn base = \<lparr>mc_base = base, mc_ws = None, mc_listeners = [], mc_closed = False, mc_reconnectTimer = False,
     mc_approvalRpcIds = [], mc_wasConnected = False, mc_reconnectAttempt = 0\<rparr>"

definition upd_conn :: "nat \<Rightarrow> (mux_conn \<Rightarrow> mux_conn) \<Rightarrow> mux \<Rightarrow> mux" where
  "upd_conn c f m = m\<lparr>mx_conns := (mx_conns m)[c := f (mx_conns m ! c)]\<rparr>"

definition conn_at :: "mux \<Rightarrow> nat \<Rightarrow> mux_conn" where
  "conn_at m c = mx_conns m ! c"

section \<open>Reconnection delay and address\<close>

definition RECONNECT_BASE_MS :: int where
  "RECONNECT_BASE_MS = 3000"

definition RECONNECT_MAX_MS :: int where
  "RECONNECT_MAX_MS = 30000"

text \<open>\<open>r\<close> is the random draw, a number from 0 up to 1.\<close>

definition backoff :: "int \<Rightarrow> int" where
  "backoff attempt = min (RECONNECT_BASE_MS * 2 ^ nat (max (attempt - 1) 0)) RECONNECT_MAX_MS"

definition nextReconnectDelay :: "rat \<Rightarrow> int \<Rightarrow> int" where
  "nextReconnectDelay r attempt =
     (let e = of_int (backoff attempt); jitter = e * (1 / 4) * (r * 2 - 1) in \<lfloor>e + jitter + 1 / 2\<rfloor>)"

definition muxUrl :: "string \<Rightarrow> string" where
  "muxUrl base = (if is_prefix ''http'' base then ''ws'' @ drop 4 base else base) @ ''/events.mux''"

section \<open>Messages\<close>

record envelope =
  en_rpcId :: string
  en_method :: string
  en_payload :: json

text \<open>\<open>data\<close> is the parsed message; None is text that does not parse.\<close>

definition parseMuxFrame :: "json option \<Rightarrow> envelope option" where
  "parseMuxFrame data = (case data of
     Some (JObj kvs) \<Rightarrow>
       (case (as_string (field data ''method''), field data ''payload'') of
          (Some method, Some (JObj p)) \<Rightarrow>
            if as_string (field data ''type'') = Some ''server-request'' \<and> (field data ''rpcId'' = None \<or> as_string (field data ''rpcId'') \<noteq> None)
            then Some \<lparr>en_rpcId = str_or_empty (as_string (field data ''rpcId'')), en_method = method, en_payload = JObj p\<rparr>
            else None
        | _ \<Rightarrow> None)
   | _ \<Rightarrow> None)"

definition members :: "mux \<Rightarrow> nat \<Rightarrow> string \<Rightarrow> nat list" where
  "members m c s = (case map_of (mc_listeners (conn_at m c)) s of None \<Rightarrow> [] | Some i \<Rightarrow> mx_sets m ! i)"

definition emit :: "nat \<Rightarrow> string \<Rightarrow> tevent \<Rightarrow> mux \<Rightarrow> mux" where
  "emit c s gw m = m\<lparr>mx_delivered := mx_delivered m @ map (\<lambda>l. (l, s, gw)) (members m c s)\<rparr>"

definition emit_some :: "nat \<Rightarrow> string \<Rightarrow> tevent option \<Rightarrow> mux \<Rightarrow> mux" where
  "emit_some c s gw m = (case gw of None \<Rightarrow> m | Some f \<Rightarrow> emit c s f m)"

definition dispatch_frame :: "nat \<Rightarrow> envelope \<Rightarrow> mux \<Rightarrow> mux" where
  "dispatch_frame c env m = (case parseMuxPayload (en_payload env) of
     None \<Rightarrow> m
   | Some f \<Rightarrow> (case f of
       SessionEvent s e \<Rightarrow> emit_some c s (muxFrameToGatewayFrame f) m
     | QuestionRequested s qs \<Rightarrow> emit c s (questionRequestedFrame (en_rpcId env) qs) m
     | QuestionResolved s q \<Rightarrow> emit c s (questionResolvedFrame q) m
     | ApprovalRequested s a name reason \<Rightarrow>
         emit c s (approvalRequestedFrame (en_rpcId env) a name reason)
           (upd_conn c (\<lambda>k. k\<lparr>mc_approvalRpcIds := AList.update a (en_rpcId env) (mc_approvalRpcIds k)\<rparr>) m)
     | ApprovalResolved s a \<Rightarrow>
         emit c s (approvalResolvedFrame a (map_of (mc_approvalRpcIds (conn_at m c)) a))
           (upd_conn c (\<lambda>k. k\<lparr>mc_approvalRpcIds := AList.delete a (mc_approvalRpcIds k)\<rparr>) m)
     | SessionProjection s k v seq \<Rightarrow> emit_some c s (goalProjectionFrame f) m))"

section \<open>Sockets\<close>

text \<open>A socket knows its connection and whether it has opened.\<close>

definition attach :: "nat \<Rightarrow> mux \<Rightarrow> mux" where
  "attach c m = (upd_conn c (\<lambda>k. k\<lparr>mc_ws := Some (length (mx_sockets m))\<rparr>) m)\<lparr>mx_sockets := mx_sockets m @ [(c, False)]\<rparr>"

definition close_ws :: "nat \<Rightarrow> mux \<Rightarrow> mux" where
  "close_ws c m = (case mc_ws (conn_at m c) of None \<Rightarrow> m | Some k \<Rightarrow> m\<lparr>mx_closing := mx_closing m @ [k]\<rparr>)"

definition stream_reconnected :: tevent where
  "stream_reconnected = (Some 0, UnknownFrame ''stream_reconnected'')"

definition ws_open :: "nat \<Rightarrow> mux \<Rightarrow> mux" where
  "ws_open k m =
     (let c = fst (mx_sockets m ! k);
          m1 = upd_conn c (\<lambda>x. x\<lparr>mc_reconnectAttempt := 0\<rparr>) (m\<lparr>mx_sockets := (mx_sockets m)[k := (c, True)]\<rparr>)
      in if \<not> mc_wasConnected (conn_at m c) then m1
         else foldl (\<lambda>x s. emit c s stream_reconnected x) m1 (map fst (mc_listeners (conn_at m c))))"

definition ws_message :: "nat \<Rightarrow> json option \<Rightarrow> mux \<Rightarrow> mux" where
  "ws_message k data m = (case parseMuxFrame data of
     None \<Rightarrow> m
   | Some env \<Rightarrow> if en_method env = ''stream/error'' then m\<lparr>mx_closing := mx_closing m @ [k]\<rparr>
                 else dispatch_frame (fst (mx_sockets m ! k)) env m)"

definition ws_close :: "nat \<Rightarrow> mux \<Rightarrow> mux" where
  "ws_close k m =
     (let c = fst (mx_sockets m ! k) in
      if mc_closed (conn_at m c) then m
      else (let m1 = (if snd (mx_sockets m ! k) then upd_conn c (\<lambda>x. x\<lparr>mc_wasConnected := True\<rparr>) m else m) in
        if mc_listeners (conn_at m c) \<noteq> []
        then (let m2 = m1\<lparr>mx_reconnectCount := mx_reconnectCount m1 + 1\<rparr> in
          if mc_reconnectTimer (conn_at m c) then m2
          else upd_conn c (\<lambda>x. x\<lparr>mc_reconnectAttempt := mc_reconnectAttempt x + 1, mc_reconnectTimer := True\<rparr>) m2)
        else m1\<lparr>mx_connections := AList.delete (mc_base (conn_at m c)) (mx_connections m1)\<rparr>))"

definition reconnect_due :: "nat \<Rightarrow> mux \<Rightarrow> mux" where
  "reconnect_due c m =
     (let m1 = upd_conn c (\<lambda>x. x\<lparr>mc_reconnectTimer := False\<rparr>) m
      in if mc_closed (conn_at m c) then m1 else attach c m1)"

section \<open>Subscriptions\<close>

definition connect :: "string \<Rightarrow> mux \<Rightarrow> mux \<times> nat" where
  "connect base m =
     (let fresh = (attach (length (mx_conns m))
            (m\<lparr>mx_conns := mx_conns m @ [new_conn base], mx_connections := AList.update base (length (mx_conns m)) (mx_connections m)\<rparr>),
          length (mx_conns m))
      in case map_of (mx_connections m) base of
           None \<Rightarrow> fresh
         | Some c \<Rightarrow> if mc_closed (conn_at m c) then fresh else (m, c))"

definition subscribe :: "string \<Rightarrow> string \<Rightarrow> mux \<Rightarrow> mux" where
  "subscribe base session m0 =
     (case connect base m0 of (m, c) \<Rightarrow>
        (let l = length (mx_handles m) in
         case map_of (mc_listeners (conn_at m c)) session of
           Some i \<Rightarrow>
             (upd_conn c (\<lambda>k. k\<lparr>mc_listeners := AList.update session i (mc_listeners k)\<rparr>) m)
             \<lparr>mx_sets := (mx_sets m)[i := mx_sets m ! i @ [l]],
              mx_handles := mx_handles m @ [\<lparr>hd_conn = c, hd_set = i, hd_session = session, hd_base = base\<rparr>]\<rparr>
         | None \<Rightarrow>
             (upd_conn c (\<lambda>k. k\<lparr>mc_listeners := AList.update session (length (mx_sets m)) (mc_listeners k)\<rparr>) m)
             \<lparr>mx_sets := mx_sets m @ [[l]],
              mx_handles := mx_handles m @ [\<lparr>hd_conn = c, hd_set = length (mx_sets m), hd_session = session, hd_base = base\<rparr>]\<rparr>))"

definition maybeClose :: "nat \<Rightarrow> string \<Rightarrow> mux \<Rightarrow> mux" where
  "maybeClose c key m =
     (if mc_listeners (conn_at m c) \<noteq> [] then m
      else (let m1 = close_ws c (upd_conn c (\<lambda>k. k\<lparr>mc_closed := True, mc_reconnectTimer := False\<rparr>) m)
            in m1\<lparr>mx_connections := AList.delete key (mx_connections m1)\<rparr>))"

definition unsubscribe :: "nat \<Rightarrow> mux \<Rightarrow> mux" where
  "unsubscribe i m =
     (let h = mx_handles m ! i; c = hd_conn h;
          rest = removeAll i (mx_sets m ! hd_set h);
          m1 = m\<lparr>mx_sets := (mx_sets m)[hd_set h := rest]\<rparr>;
          m2 = (if rest = [] \<and> map_of (mc_listeners (conn_at m c)) (hd_session h) = Some (hd_set h)
                then upd_conn c (\<lambda>k. k\<lparr>mc_listeners := AList.delete (hd_session h) (mc_listeners k)\<rparr>) m1 else m1)
      in maybeClose c (hd_base h) m2)"

definition close_one :: "mux \<Rightarrow> nat \<Rightarrow> mux" where
  "close_one m c = close_ws c (upd_conn c (\<lambda>k. k\<lparr>mc_closed := True, mc_reconnectTimer := False\<rparr>) m)"

definition closeAllMux :: "mux \<Rightarrow> mux" where
  "closeAllMux m = (foldl close_one m (map snd (mx_connections m)))\<lparr>mx_connections := []\<rparr>"

section \<open>Events\<close>

datatype mux_event =
    Subscribe string string
  | Unsubscribe nat
  | SocketOpen nat
  | SocketMessage nat "json option"
  | SocketClose nat
  | ReconnectTimer nat
  | CloseAll

text \<open>An event that names a handle, a socket or a connection not there is no event.\<close>

definition mux_step :: "mux \<Rightarrow> mux_event \<Rightarrow> mux" where
  "mux_step m e = (case e of
     Subscribe base s \<Rightarrow> subscribe base s m
   | Unsubscribe i \<Rightarrow> if i < length (mx_handles m) then unsubscribe i m else m
   | SocketOpen k \<Rightarrow> if k < length (mx_sockets m) then ws_open k m else m
   | SocketMessage k data \<Rightarrow> if k < length (mx_sockets m) then ws_message k data m else m
   | SocketClose k \<Rightarrow> if k < length (mx_sockets m) then ws_close k m else m
   | ReconnectTimer c \<Rightarrow> if c < length (mx_conns m) \<and> mc_reconnectTimer (conn_at m c) then reconnect_due c m else m
   | CloseAll \<Rightarrow> closeAllMux m)"

section \<open>What subscribers were promised\<close>

text \<open>
  A subscription is an endpoint, a session and a number; it lasts until its function is called. Nothing here knows of
  connections.
\<close>

record subscriptions =
  su_list :: "(string \<times> string) list"
  su_gone :: "nat list"

definition subs_init :: subscriptions where
  "subs_init = \<lparr>su_list = [], su_gone = []\<rparr>"

definition subs_step :: "subscriptions \<Rightarrow> mux_event \<Rightarrow> subscriptions" where
  "subs_step a e = (case e of
     Subscribe base s \<Rightarrow> a\<lparr>su_list := su_list a @ [(base, s)]\<rparr>
   | Unsubscribe i \<Rightarrow> if i < length (su_list a) then a\<lparr>su_gone := i # su_gone a\<rparr> else a
   | _ \<Rightarrow> a)"

definition subscribed :: "subscriptions \<Rightarrow> string \<Rightarrow> string \<Rightarrow> nat list" where
  "subscribed a base s = filter (\<lambda>i. i \<notin> set (su_gone a) \<and> su_list a ! i = (base, s)) [0..<length (su_list a)]"

text \<open>The sessions that an endpoint's current connection serves.\<close>

definition listening :: "mux \<Rightarrow> string \<Rightarrow> string \<Rightarrow> nat list" where
  "listening m base s = (case map_of (mx_connections m) base of None \<Rightarrow> [] | Some c \<Rightarrow> members m c s)"

text \<open>Callers that call the function of a subscription once at most, up to the shutdown.\<close>

fun once_each :: "nat list \<Rightarrow> mux_event list \<Rightarrow> bool" where
  "once_each gone [] = True"
| "once_each gone (Unsubscribe i # es) = (i \<notin> set gone \<and> once_each (i # gone) es)"
| "once_each gone (CloseAll # es) = False"
| "once_each gone (e # es) = once_each gone es"

section \<open>The listener sets\<close>

text \<open>
  The part of the state that decides who listens: per connection its base, its listener map and whether it was closed; the sets;
  the handles; the registered connections; and each socket's connection.
\<close>

definition bases :: "mux \<Rightarrow> string list" where "bases m = map mc_base (mx_conns m)"
definition lsns :: "mux \<Rightarrow> (string \<times> nat) list list" where "lsns m = map mc_listeners (mx_conns m)"
definition closeds :: "mux \<Rightarrow> bool list" where "closeds m = map mc_closed (mx_conns m)"
definition owners :: "mux \<Rightarrow> nat list" where "owners m = map fst (mx_sockets m)"

named_theorems mux_parts

lemma parts_length [simp, mux_parts]:
  "length (bases m) = length (mx_conns m)" "length (lsns m) = length (mx_conns m)" "length (closeds m) = length (mx_conns m)"
  by (simp_all add: bases_def lsns_def closeds_def)

lemma parts_at:
  "c < length (mx_conns m) \<Longrightarrow> mc_listeners (conn_at m c) = lsns m ! c"
  "c < length (mx_conns m) \<Longrightarrow> mc_closed (conn_at m c) = closeds m ! c"
  "c < length (mx_conns m) \<Longrightarrow> mc_base (conn_at m c) = bases m ! c"
  "k < length (mx_sockets m) \<Longrightarrow> fst (mx_sockets m ! k) = owners m ! k"
  by (simp_all add: conn_at_def bases_def lsns_def closeds_def owners_def)

lemma map_upd_keep [simp]: "(map f xs)[c := f (xs ! c)] = map f xs"
  by (cases "c < length xs") (simp_all add: list_update_same_conv list_update_beyond)

lemma map_upd_same: "f (g (xs ! c)) = f (xs ! c) \<Longrightarrow> map f (xs[c := g (xs ! c)]) = map f xs"
  by (simp add: map_update)

lemma upd_conn_parts:
  "(\<And>k. mc_base (f k) = mc_base k) \<Longrightarrow> bases (upd_conn c f m) = bases m"
  "(\<And>k. mc_listeners (f k) = mc_listeners k) \<Longrightarrow> lsns (upd_conn c f m) = lsns m"
  "(\<And>k. mc_closed (f k) = mc_closed k) \<Longrightarrow> closeds (upd_conn c f m) = closeds m"
  "owners (upd_conn c f m) = owners m" "mx_sets (upd_conn c f m) = mx_sets m" "mx_handles (upd_conn c f m) = mx_handles m"
  "mx_connections (upd_conn c f m) = mx_connections m" "length (mx_conns (upd_conn c f m)) = length (mx_conns m)"
  by (simp_all add: upd_conn_def bases_def lsns_def closeds_def owners_def map_update)

definition same_core :: "mux \<Rightarrow> mux \<Rightarrow> bool" where
  "same_core m m' \<longleftrightarrow> bases m' = bases m \<and> lsns m' = lsns m \<and> closeds m' = closeds m \<and> mx_sets m' = mx_sets m \<and>
     mx_handles m' = mx_handles m \<and> mx_connections m' = mx_connections m"

lemma same_core_refl [simp]: "same_core m m"
  by (simp add: same_core_def)

lemma same_core_trans: "same_core m m' \<Longrightarrow> same_core m' m'' \<Longrightarrow> same_core m m''"
  by (simp add: same_core_def)

lemma same_core_length: "bases m' = bases m \<and> P \<Longrightarrow> length (mx_conns m') = length (mx_conns m)"
  using parts_length(1) [of m'] parts_length(1) [of m] by simp

lemma same_core_upd:
  assumes "\<And>k. mc_base (f k) = mc_base k" "\<And>k. mc_listeners (f k) = mc_listeners k" "\<And>k. mc_closed (f k) = mc_closed k"
  shows "same_core m (upd_conn c f m)" "mx_sockets (upd_conn c f m) = mx_sockets m"
  using assms by (simp_all add: same_core_def upd_conn_def bases_def lsns_def closeds_def map_upd_same)

lemma same_core_frames [simp]:
  "same_core m (emit c s gw m)" "mx_sockets (emit c s gw m) = mx_sockets m"
  "same_core m (close_ws c m)" "mx_sockets (close_ws c m) = mx_sockets m"
  by (simp_all add: same_core_def emit_def close_ws_def bases_def lsns_def closeds_def split: option.splits)

lemma same_core_emit_some [simp]:
  "same_core m (emit_some c s gw m)" "mx_sockets (emit_some c s gw m) = mx_sockets m"
  by (simp_all add: emit_some_def split: option.splits)

lemma same_core_dispatch:
  "same_core m (dispatch_frame c env m)" "mx_sockets (dispatch_frame c env m) = mx_sockets m"
  by (auto simp: dispatch_frame_def same_core_upd split: option.splits mux_frame.splits
      intro: same_core_trans [OF same_core_upd(1) same_core_frames(1)])

text \<open>\<open>served\<close>: the listener map of a connection maps a session to the set of its lasting subscriptions, in order.\<close>

definition on_conn :: "handle list \<Rightarrow> nat set \<Rightarrow> nat \<Rightarrow> string \<Rightarrow> nat list" where
  "on_conn hs G c sid = filter (\<lambda>i. i \<notin> G \<and> hd_conn (hs ! i) = c \<and> hd_session (hs ! i) = sid) [0..<length hs]"

definition served :: "string list \<Rightarrow> (string \<times> nat) list list \<Rightarrow> nat list list \<Rightarrow> handle list \<Rightarrow> nat set \<Rightarrow> bool" where
  "served bs ls ss hs G \<longleftrightarrow>
     (\<forall>i \<in> G. i < length hs) \<and> length bs = length ls \<and>
     (\<forall>h \<in> set hs. hd_conn h < length ls \<and> hd_set h < length ss \<and> bs ! hd_conn h = hd_base h) \<and>
     (\<forall>i < length hs. i \<notin> G \<longrightarrow> map_of (ls ! hd_conn (hs ! i)) (hd_session (hs ! i)) = Some (hd_set (hs ! i))) \<and>
     (\<forall>c < length ls. \<forall>sid s. map_of (ls ! c) sid = Some s \<longrightarrow> s < length ss \<and> ss ! s \<noteq> [] \<and> ss ! s = on_conn hs G c sid) \<and>
     (\<forall>s < length ss. \<forall>i \<in> set (ss ! s). i < length hs \<and> i \<notin> G \<and> hd_set (hs ! i) = s)"

lemma servedD:
  assumes "served bs ls ss hs G"
  shows "i \<in> G \<Longrightarrow> i < length hs"
    and "length bs = length ls"
    and "i < length hs \<Longrightarrow> hd_conn (hs ! i) < length ls"
    and "i < length hs \<Longrightarrow> hd_set (hs ! i) < length ss"
    and "i < length hs \<Longrightarrow> bs ! hd_conn (hs ! i) = hd_base (hs ! i)"
    and "i < length hs \<Longrightarrow> i \<notin> G \<Longrightarrow> map_of (ls ! hd_conn (hs ! i)) (hd_session (hs ! i)) = Some (hd_set (hs ! i))"
    and "c < length ls \<Longrightarrow> map_of (ls ! c) sid = Some s \<Longrightarrow> s < length ss"
    and "c < length ls \<Longrightarrow> map_of (ls ! c) sid = Some s \<Longrightarrow> ss ! s \<noteq> []"
    and "c < length ls \<Longrightarrow> map_of (ls ! c) sid = Some s \<Longrightarrow> ss ! s = on_conn hs G c sid"
    and "s < length ss \<Longrightarrow> i \<in> set (ss ! s) \<Longrightarrow> i < length hs \<and> i \<notin> G \<and> hd_set (hs ! i) = s"
proof -
  note D = assms [unfolded served_def]
  from D have "\<forall>i \<in> G. i < length hs" by (elim conjE)
  then show "i \<in> G \<Longrightarrow> i < length hs" by blast
  from D show "length bs = length ls" by (elim conjE)
  from D have "\<forall>h \<in> set hs. hd_conn h < length ls \<and> hd_set h < length ss \<and> bs ! hd_conn h = hd_base h" by (elim conjE)
  then show "i < length hs \<Longrightarrow> hd_conn (hs ! i) < length ls" "i < length hs \<Longrightarrow> hd_set (hs ! i) < length ss"
    "i < length hs \<Longrightarrow> bs ! hd_conn (hs ! i) = hd_base (hs ! i)"
    by simp_all
  from D have "\<forall>i < length hs. i \<notin> G \<longrightarrow> map_of (ls ! hd_conn (hs ! i)) (hd_session (hs ! i)) = Some (hd_set (hs ! i))" by (elim conjE)
  then show "i < length hs \<Longrightarrow> i \<notin> G \<Longrightarrow> map_of (ls ! hd_conn (hs ! i)) (hd_session (hs ! i)) = Some (hd_set (hs ! i))" by blast
  from D have "\<forall>c < length ls. \<forall>sid s. map_of (ls ! c) sid = Some s \<longrightarrow> s < length ss \<and> ss ! s \<noteq> [] \<and> ss ! s = on_conn hs G c sid"
    by (elim conjE)
  then show "c < length ls \<Longrightarrow> map_of (ls ! c) sid = Some s \<Longrightarrow> s < length ss"
    "c < length ls \<Longrightarrow> map_of (ls ! c) sid = Some s \<Longrightarrow> ss ! s \<noteq> []"
    "c < length ls \<Longrightarrow> map_of (ls ! c) sid = Some s \<Longrightarrow> ss ! s = on_conn hs G c sid"
    by blast+
  from D have "\<forall>s < length ss. \<forall>i \<in> set (ss ! s). i < length hs \<and> i \<notin> G \<and> hd_set (hs ! i) = s" by (elim conjE)
  then show "s < length ss \<Longrightarrow> i \<in> set (ss ! s) \<Longrightarrow> i < length hs \<and> i \<notin> G \<and> hd_set (hs ! i) = s" by blast
qed

lemma servedI:
  assumes "\<And>i. i \<in> G \<Longrightarrow> i < length hs"
    and "length bs = length ls"
    and "\<And>h. h \<in> set hs \<Longrightarrow> hd_conn h < length ls \<and> hd_set h < length ss \<and> bs ! hd_conn h = hd_base h"
    and "\<And>i. i < length hs \<Longrightarrow> i \<notin> G \<Longrightarrow> map_of (ls ! hd_conn (hs ! i)) (hd_session (hs ! i)) = Some (hd_set (hs ! i))"
    and "\<And>c sid s. c < length ls \<Longrightarrow> map_of (ls ! c) sid = Some s \<Longrightarrow> s < length ss \<and> ss ! s \<noteq> [] \<and> ss ! s = on_conn hs G c sid"
    and "\<And>s i. s < length ss \<Longrightarrow> i \<in> set (ss ! s) \<Longrightarrow> i < length hs \<and> i \<notin> G \<and> hd_set (hs ! i) = s"
  shows "served bs ls ss hs G"
  unfolding served_def using assms by blast

lemma on_conn_mem: "i \<in> set (on_conn hs G c sid) \<longleftrightarrow> i < length hs \<and> i \<notin> G \<and> hd_conn (hs ! i) = c \<and> hd_session (hs ! i) = sid"
  by (auto simp: on_conn_def)

lemma on_conn_add:
  assumes "\<And>i. i \<in> G \<Longrightarrow> i < length hs"
  shows "on_conn (hs @ [h]) G c sid = on_conn hs G c sid @ (if hd_conn h = c \<and> hd_session h = sid then [length hs] else [])"
proof -
  have "length hs \<notin> G"
    using assms by blast
  moreover have "filter (\<lambda>i. i \<notin> G \<and> hd_conn ((hs @ [h]) ! i) = c \<and> hd_session ((hs @ [h]) ! i) = sid) [0..<length hs] = on_conn hs G c sid"
    unfolding on_conn_def by (rule filter_cong) (simp_all add: nth_append)
  ultimately show ?thesis
    by (simp add: on_conn_def)
qed

lemma on_conn_remove: "removeAll i (on_conn hs G c sid) = on_conn hs (insert i G) c sid"
  by (simp add: on_conn_def removeAll_filter_not_eq) (metis (no_types, lifting))

text \<open>Two sessions of a connection never share a set.\<close>

lemma served_set_owner:
  assumes "served bs ls ss hs G" "c < length ls" "map_of (ls ! c) sid = Some s" "c' < length ls" "map_of (ls ! c') sid' = Some s"
  shows "c' = c \<and> sid' = sid"
proof -
  obtain i where "i \<in> set (ss ! s)"
    using servedD(8) [OF assms(1-3)] by (cases "ss ! s") auto
  then have "i \<in> set (on_conn hs G c sid)" "i \<in> set (on_conn hs G c' sid')"
    using servedD(9) [OF assms(1-3)] servedD(9) [OF assms(1,4,5)] by simp_all
  then show ?thesis
    by (simp add: on_conn_mem)
qed

lemma served_none: "served bs ls ss hs G \<Longrightarrow> map_of (ls ! c) sid = None \<Longrightarrow> on_conn hs G c sid = []"
  unfolding on_conn_def by (auto simp: filter_empty_conv dest: servedD(6))

lemma served_subscribe_set:
  assumes "served bs ls ss hs G" "c < length ls" "map_of (ls ! c) sid = Some s"
  shows "served bs (ls[c := AList.update sid s (ls ! c)]) (ss[s := ss ! s @ [length hs]])
    (hs @ [\<lparr>hd_conn = c, hd_set = s, hd_session = sid, hd_base = bs ! c\<rparr>]) G"
proof -
  have n: "length hs \<notin> G"
    using servedD(1) [OF assms(1)] by blast
  have s: "s < length ss" "ss ! s = on_conn hs G c sid"
    using servedD(7,9) [OF assms] by simp_all
  have same: "map_of ((ls[c := AList.update sid s (ls ! c)]) ! c') = map_of (ls ! c')" for c'
  proof (cases "c' = c")
    case True
    with assms show ?thesis by (simp add: update_conv' fun_upd_idem)
  qed simp
  show ?thesis
  proof (rule servedI, goal_cases)
    case (1 i)
    then show ?case using servedD(1) [OF assms(1)] by force
  next
    case 2
    then show ?case using servedD(2) [OF assms(1)] by simp
  next
    case (3 h)
    then show ?case using servedD(3-5) [OF assms(1)] assms(2) s(1) by (auto simp: in_set_conv_nth)
  next
    case (4 i)
    then show ?case
      using servedD(6) [OF assms(1), of i] assms(2,3) by (cases "i = length hs") (simp_all only: same, simp_all add: nth_append)
  next
    case (5 c' sid' s')
    then have old: "c' < length ls" "map_of (ls ! c') sid' = Some s'"
      by (simp_all add: same del: map_of_eq_Some_iff)
    show ?case
    proof (cases "s' = s")
      case True
      then have "c' = c \<and> sid' = sid"
        using served_set_owner [OF assms old(1)] old(2) by simp
      with True s show ?thesis
        by (simp add: on_conn_add [OF servedD(1) [OF assms(1)]])
    next
      case False
      then have "\<not> (c = c' \<and> sid = sid')"
        using assms(3) old(2) by auto
      with False servedD(7-9) [OF assms(1) old] show ?thesis
        by (simp add: on_conn_add [OF servedD(1) [OF assms(1)]])
    qed
  next
    case (6 s' i)
    show ?case
    proof (cases "i = length hs")
      case True
      with 6 servedD(10) [OF assms(1), of s' i] s(1) n show ?thesis by (cases "s' = s") simp_all
    next
      case False
      with 6 s(1) have "s' < length ss" "i \<in> set (ss ! s')" by (cases "s' = s"; simp)+
      from servedD(10) [OF assms(1) this] show ?thesis by (simp add: nth_append)
    qed
  qed
qed

lemma served_subscribe_new:
  assumes "served bs ls ss hs G" "c < length ls" "map_of (ls ! c) sid = None"
  shows "served bs (ls[c := AList.update sid (length ss) (ls ! c)]) (ss @ [[length hs]])
    (hs @ [\<lparr>hd_conn = c, hd_set = length ss, hd_session = sid, hd_base = bs ! c\<rparr>]) G"
proof -
  have n: "length hs \<notin> G"
    using servedD(1) [OF assms(1)] by blast
  have same: "map_of ((ls[c := AList.update sid (length ss) (ls ! c)]) ! c') k =
      (if c' = c \<and> k = sid then Some (length ss) else map_of (ls ! c') k)" for c' k
    using assms(2) by (cases "c' = c") (simp_all add: update_conv')
  show ?thesis
  proof (rule servedI, goal_cases)
    case (1 i)
    then show ?case using servedD(1) [OF assms(1)] by force
  next
    case 2
    then show ?case using servedD(2) [OF assms(1)] by simp
  next
    case (3 h)
    then show ?case using servedD(3-5) [OF assms(1)] assms(2) by (auto simp: in_set_conv_nth less_Suc_eq)
  next
    case (4 i)
    show ?case
    proof (cases "i = length hs")
      case True
      then show ?thesis by (simp add: same)
    next
      case False
      with 4 have i: "i < length hs" "i \<notin> G" by simp_all
      then have "\<not> (hd_conn (hs ! i) = c \<and> hd_session (hs ! i) = sid)"
        using servedD(6) [OF assms(1) i] assms(3) by auto
      with i servedD(6) [OF assms(1) i] show ?thesis
        by (auto simp: same nth_append)
    qed
  next
    case (5 c' sid' s')
    show ?case
    proof (cases "c' = c \<and> sid' = sid")
      case True
      then have "s' = length ss" using 5(2) unfolding same by simp
      with True served_none [OF assms(1,3)] show ?thesis
        by (simp add: on_conn_add [OF servedD(1) [OF assms(1)]])
    next
      case False
      with 5 have old: "c' < length ls" "map_of (ls ! c') sid' = Some s'" by (simp_all add: same split: if_splits)
      with False servedD(7-9) [OF assms(1) old] show ?thesis
        by (auto simp: on_conn_add [OF servedD(1) [OF assms(1)]] nth_append)
    qed
  next
    case (6 s' i)
    then show ?case
      using servedD(10) [OF assms(1), of s' i] n by (cases "s' = length ss") (simp_all add: nth_append)
  qed
qed

lemma on_conn_other:
  "\<not> (hd_conn (hs ! i) = c \<and> hd_session (hs ! i) = sid) \<Longrightarrow> on_conn hs (insert i G) c sid = on_conn hs G c sid"
  unfolding on_conn_def by (rule filter_cong) auto

lemma served_unsubscribe:
  assumes "served bs ls ss hs G" "i < length hs"
  defines "c \<equiv> hd_conn (hs ! i)" and "sid \<equiv> hd_session (hs ! i)" and "s \<equiv> hd_set (hs ! i)"
  defines "left \<equiv> removeAll i (ss ! s)"
  shows "served bs (if left = [] \<and> map_of (ls ! c) sid = Some s then ls[c := AList.delete sid (ls ! c)] else ls) (ss[s := left]) hs (insert i G)"
proof -
  have c: "c < length ls" and sl: "s < length ss"
    using servedD(3,4) [OF assms(1,2)] by (simp_all add: c_def s_def)
  show ?thesis
  proof (cases "i \<in> G")
    case True
    then have "i \<notin> set (ss ! s)"
      using servedD(10) [OF assms(1) sl] by blast
    then have "left = ss ! s"
      by (simp add: left_def removeAll_id)
    then show ?thesis
      using servedD(8) [OF assms(1) c, of sid s] assms(1) True by (auto simp: insert_absorb)
  next
    case False
    have mapped: "map_of (ls ! c) sid = Some s"
      using servedD(6) [OF assms(1,2) False] by (simp add: c_def sid_def s_def)
    have rest: "left = on_conn hs (insert i G) c sid"
      by (simp add: left_def servedD(9) [OF assms(1) c mapped] on_conn_remove)
    define ls' where "ls' = (if left = [] then ls[c := AList.delete sid (ls ! c)] else ls)"
    have len: "length ls' = length ls"
      by (simp add: ls'_def)
    have same: "map_of (ls' ! c') k = (if c' = c \<and> k = sid \<and> left = [] then None else map_of (ls ! c') k)" for c' k
      using c by (cases "c' = c") (simp_all add: ls'_def delete_conv')
    have "served bs ls' (ss[s := left]) hs (insert i G)"
    proof (rule servedI, goal_cases)
      case (1 j)
      then show ?case using servedD(1) [OF assms(1)] assms(2) by auto
    next
      case 2
      then show ?case using servedD(2) [OF assms(1)] len by simp
    next
      case (3 h)
      then show ?case using servedD(3-5) [OF assms(1)] len by (auto simp: in_set_conv_nth)
    next
      case (4 j)
      then have "map_of (ls ! hd_conn (hs ! j)) (hd_session (hs ! j)) = Some (hd_set (hs ! j))" by (simp add: servedD(6) [OF assms(1)])
      moreover have "left \<noteq> []" if "hd_conn (hs ! j) = c" "hd_session (hs ! j) = sid"
      proof -
        have "j \<in> set left" using 4 that by (simp add: rest on_conn_mem)
        then show ?thesis by auto
      qed
      ultimately show ?case by (auto simp: same)
    next
      case (5 c' sid' s')
      then have old: "c' < length ls" "map_of (ls ! c') sid' = Some s'" and ne: "\<not> (c' = c \<and> sid' = sid \<and> left = [])"
        by (simp_all add: same len split: if_splits)
      show ?case
      proof (cases "s' = s")
        case True
        then have "c' = c \<and> sid' = sid"
          using served_set_owner [OF assms(1) c mapped old(1)] old(2) by simp
        with True ne sl show ?thesis by (simp add: rest)
      next
        case False
        then have "\<not> (hd_conn (hs ! i) = c' \<and> hd_session (hs ! i) = sid')"
          using old(2) mapped by (auto simp: c_def sid_def)
        from on_conn_other [OF this] False servedD(7-9) [OF assms(1) old] show ?thesis by simp
      qed
    next
      case (6 s' j)
      show ?case
      proof (cases "s' = s")
        case True
        with 6 sl show ?thesis using servedD(10) [OF assms(1) sl, of j] by (simp add: left_def)
      next
        case False
        with 6 have j: "s' < length ss" "j \<in> set (ss ! s')" by simp_all
        from servedD(10) [OF assms(1) j] False show ?thesis by (auto simp: s_def)
      qed
    qed
    then show ?thesis
      by (simp add: ls'_def mapped)
  qed
qed

text \<open>A new connection has no subscriptions yet.\<close>

lemma served_new_conn:
  assumes "served bs ls ss hs G"
  shows "served (bs @ [b]) (ls @ [[]]) ss hs G"
proof (rule servedI, goal_cases)
  case (3 h)
  then show ?case using servedD(2-5) [OF assms] by (auto simp: in_set_conv_nth nth_append)
next
  case (4 i)
  then show ?case using servedD(3,6) [OF assms] by (simp add: nth_append)
next
  case (5 c sid s)
  then show ?case using servedD(7-9) [OF assms, of c] by (auto simp: nth_append less_Suc_eq split: if_splits)
qed (use servedD(1,2,10) [OF assms] in auto)

section \<open>Every step serves the subscriptions\<close>

definition valid :: "mux \<Rightarrow> bool" where
  "valid m \<longleftrightarrow> (\<forall>b c. map_of (mx_connections m) b = Some c \<longrightarrow> c < length (mx_conns m) \<and> bases m ! c = b) \<and>
     (\<forall>c \<in> set (owners m). c < length (mx_conns m))"

definition serves :: "mux \<Rightarrow> subscriptions \<Rightarrow> bool" where
  "serves m a \<longleftrightarrow> valid m \<and> served (bases m) (lsns m) (mx_sets m) (mx_handles m) (set (su_gone a)) \<and>
     su_list a = map (\<lambda>h. (hd_base h, hd_session h)) (mx_handles m)"

lemma serves_same_core:
  assumes "serves m a" "same_core m m'" "mx_sockets m' = mx_sockets m"
  shows "serves m' a"
proof -
  have "length (mx_conns m') = length (mx_conns m)"
    using assms(2) unfolding same_core_def by (rule same_core_length)
  then show ?thesis
    using assms by (simp add: serves_def valid_def same_core_def owners_def)
qed

text \<open>What the operations do to these parts.\<close>

lemma attach_parts:
  "bases (attach c m) = bases m" "lsns (attach c m) = lsns m" "closeds (attach c m) = closeds m" "owners (attach c m) = owners m @ [c]"
  "mx_sets (attach c m) = mx_sets m" "mx_handles (attach c m) = mx_handles m" "mx_connections (attach c m) = mx_connections m"
  "length (mx_conns (attach c m)) = length (mx_conns m)"
  by (simp_all add: attach_def bases_def lsns_def closeds_def owners_def upd_conn_def map_upd_same)

definition fresh_conn :: "string \<Rightarrow> mux \<Rightarrow> mux" where
  "fresh_conn base m = attach (length (mx_conns m))
     (m\<lparr>mx_conns := mx_conns m @ [new_conn base], mx_connections := AList.update base (length (mx_conns m)) (mx_connections m)\<rparr>)"

lemma fresh_conn_parts:
  "bases (fresh_conn b m) = bases m @ [b]" "lsns (fresh_conn b m) = lsns m @ [[]]" "closeds (fresh_conn b m) = closeds m @ [False]"
  "owners (fresh_conn b m) = owners m @ [length (mx_conns m)]" "mx_sets (fresh_conn b m) = mx_sets m"
  "mx_handles (fresh_conn b m) = mx_handles m" "mx_connections (fresh_conn b m) = AList.update b (length (mx_conns m)) (mx_connections m)"
  "length (mx_conns (fresh_conn b m)) = Suc (length (mx_conns m))"
  by (simp_all add: fresh_conn_def attach_parts) (simp_all add: bases_def lsns_def closeds_def owners_def new_conn_def)

lemma connect_cases:
  obtains (known) c where "map_of (mx_connections m) base = Some c" "\<not> mc_closed (conn_at m c)" "connect base m = (m, c)"
  | (fresh) "connect base m = (fresh_conn base m, length (mx_conns m))"
      "\<And>c. map_of (mx_connections m) base = Some c \<Longrightarrow> mc_closed (conn_at m c)"
proof (cases "map_of (mx_connections m) base")
  case None
  then show ?thesis by (intro fresh) (simp_all add: connect_def fresh_conn_def)
next
  case (Some c)
  then show ?thesis
    by (cases "mc_closed (conn_at m c)") (use known fresh in \<open>simp_all add: connect_def fresh_conn_def\<close>)
qed

lemma serves_fresh:
  assumes "serves m a"
  shows "serves (fresh_conn b m) a"
  using assms served_new_conn [of "bases m" "lsns m"]
  by (auto simp: serves_def valid_def fresh_conn_parts update_conv' nth_append less_Suc_eq split: if_splits)

lemma connect_serves:
  assumes "serves m a" "connect base m = (m', c)"
  shows "serves m' a" "c < length (mx_conns m')" "bases m' ! c = base" "map_of (mx_connections m') base = Some c" "mx_handles m' = mx_handles m"
proof -
  have "serves m' a \<and> c < length (mx_conns m') \<and> bases m' ! c = base \<and> map_of (mx_connections m') base = Some c \<and> mx_handles m' = mx_handles m"
  proof (rule connect_cases [of m base], goal_cases)
    case (1 c')
    with assms show ?thesis by (auto simp: serves_def valid_def)
  next
    case 2
    with assms serves_fresh [OF assms(1), of base] show ?thesis
      by (auto simp: fresh_conn_parts update_conv' nth_append)
  qed
  then show "serves m' a" "c < length (mx_conns m')" "bases m' ! c = base" "map_of (mx_connections m') base = Some c" "mx_handles m' = mx_handles m"
    by simp_all
qed

text \<open>The second half of \<open>subscribe\<close>.\<close>

definition listen :: "string \<Rightarrow> string \<Rightarrow> nat \<Rightarrow> mux \<Rightarrow> mux" where
  "listen base session c m = (let l = length (mx_handles m) in
     case map_of (mc_listeners (conn_at m c)) session of
       Some i \<Rightarrow>
         (upd_conn c (\<lambda>k. k\<lparr>mc_listeners := AList.update session i (mc_listeners k)\<rparr>) m)
         \<lparr>mx_sets := (mx_sets m)[i := mx_sets m ! i @ [l]],
          mx_handles := mx_handles m @ [\<lparr>hd_conn = c, hd_set = i, hd_session = session, hd_base = base\<rparr>]\<rparr>
     | None \<Rightarrow>
         (upd_conn c (\<lambda>k. k\<lparr>mc_listeners := AList.update session (length (mx_sets m)) (mc_listeners k)\<rparr>) m)
         \<lparr>mx_sets := mx_sets m @ [[l]],
          mx_handles := mx_handles m @ [\<lparr>hd_conn = c, hd_set = length (mx_sets m), hd_session = session, hd_base = base\<rparr>]\<rparr>)"

lemma subscribe_listen: "connect base m = (m', c) \<Longrightarrow> subscribe base session m = listen base session c m'"
  by (simp add: subscribe_def listen_def Let_def)

lemma listen_kept:
  "bases (listen b s c m) = bases m" "closeds (listen b s c m) = closeds m" "owners (listen b s c m) = owners m"
  "mx_connections (listen b s c m) = mx_connections m" "length (mx_conns (listen b s c m)) = length (mx_conns m)"
  by (simp_all add: listen_def Let_def upd_conn_def bases_def closeds_def owners_def map_upd_same split: option.split)

lemma listen_lsns: "c < length (mx_conns m) \<Longrightarrow> \<exists>i. lsns (listen b s c m) = (lsns m)[c := AList.update s i (lsns m ! c)]"
  by (auto simp: listen_def Let_def upd_conn_def lsns_def conn_at_def map_update split: option.split)

lemma listen_handles:
  "\<exists>i. mx_handles (listen b s c m) = mx_handles m @ [\<lparr>hd_conn = c, hd_set = i, hd_session = s, hd_base = b\<rparr>]"
  by (auto simp: listen_def Let_def split: option.split)

lemma listen_serves:
  assumes "serves m a" "c < length (mx_conns m)" "bases m ! c = b"
  shows "serves (listen b s c m) (a\<lparr>su_list := su_list a @ [(b, s)]\<rparr>)"
proof -
  have sv: "served (bases m) (lsns m) (mx_sets m) (mx_handles m) (set (su_gone a))" and c: "c < length (lsns m)"
    using assms by (simp_all add: serves_def)
  have "served (bases m) (lsns (listen b s c m)) (mx_sets (listen b s c m)) (mx_handles (listen b s c m)) (set (su_gone a))"
    using served_subscribe_set [OF sv c, of s] served_subscribe_new [OF sv c, of s] assms(2,3)
    by (auto simp: listen_def Let_def parts_at(1) [OF assms(2)] upd_conn_def lsns_def conn_at_def map_update split: option.split)
  moreover have "su_list a @ [(b, s)] = map (\<lambda>h. (hd_base h, hd_session h)) (mx_handles (listen b s c m))"
    using assms(1) listen_handles [of b s c m] by (auto simp: serves_def)
  ultimately show ?thesis
    using assms(1) by (simp add: serves_def valid_def listen_kept)
qed

lemma subscribe_serves:
  assumes "serves m a"
  shows "serves (subscribe b s m) (subs_step a (Subscribe b s))"
proof -
  obtain m' c where con: "connect b m = (m', c)" by (cases "connect b m")
  from connect_serves [OF assms con] show ?thesis
    by (simp add: subscribe_listen [OF con] listen_serves subs_step_def)
qed

text \<open>\<open>unsubscribe\<close> in two halves: the listener leaves its set, the connection closes when nothing is left.\<close>

definition unlisten :: "nat \<Rightarrow> mux \<Rightarrow> mux" where
  "unlisten i m =
     (let h = mx_handles m ! i; c = hd_conn h; rest = removeAll i (mx_sets m ! hd_set h); m1 = m\<lparr>mx_sets := (mx_sets m)[hd_set h := rest]\<rparr>
      in if rest = [] \<and> map_of (mc_listeners (conn_at m c)) (hd_session h) = Some (hd_set h)
         then upd_conn c (\<lambda>k. k\<lparr>mc_listeners := AList.delete (hd_session h) (mc_listeners k)\<rparr>) m1 else m1)"

lemma unsubscribe_unlisten: "unsubscribe i m = maybeClose (hd_conn (mx_handles m ! i)) (hd_base (mx_handles m ! i)) (unlisten i m)"
  by (simp add: unsubscribe_def unlisten_def Let_def)

lemma unlisten_kept:
  "bases (unlisten i m) = bases m" "closeds (unlisten i m) = closeds m" "owners (unlisten i m) = owners m"
  "mx_connections (unlisten i m) = mx_connections m" "mx_handles (unlisten i m) = mx_handles m"
  "length (mx_conns (unlisten i m)) = length (mx_conns m)"
  by (simp_all add: unlisten_def Let_def upd_conn_def bases_def closeds_def owners_def map_upd_same)

lemma unlisten_lsns: "c \<noteq> hd_conn (mx_handles m ! i) \<Longrightarrow> lsns (unlisten i m) ! c = lsns m ! c"
  by (simp add: unlisten_def Let_def upd_conn_def lsns_def map_update)

lemma unlisten_serves:
  assumes "serves m a" "i < length (mx_handles m)"
  shows "serves (unlisten i m) (a\<lparr>su_gone := i # su_gone a\<rparr>)"
proof -
  have sv: "served (bases m) (lsns m) (mx_sets m) (mx_handles m) (set (su_gone a))"
    using assms(1) by (simp add: serves_def)
  have c: "hd_conn (mx_handles m ! i) < length (mx_conns m)"
    using servedD(3) [OF sv assms(2)] by simp
  have "served (bases m) (lsns (unlisten i m)) (mx_sets (unlisten i m)) (mx_handles m) (set (i # su_gone a))"
    using served_unsubscribe [OF sv assms(2)]
    using c by (auto simp: unlisten_def Let_def upd_conn_def lsns_def conn_at_def map_update cong: if_cong)
  then show ?thesis
    using assms(1) by (simp add: serves_def valid_def unlisten_kept)
qed

lemma maybeClose_parts:
  "bases (maybeClose c b m) = bases m" "lsns (maybeClose c b m) = lsns m" "owners (maybeClose c b m) = owners m"
  "mx_sets (maybeClose c b m) = mx_sets m" "mx_handles (maybeClose c b m) = mx_handles m"
  "length (mx_conns (maybeClose c b m)) = length (mx_conns m)"
  "closeds (maybeClose c b m) = (if mc_listeners (conn_at m c) = [] then (closeds m)[c := True] else closeds m)"
  "mx_connections (maybeClose c b m) = (if mc_listeners (conn_at m c) = [] then AList.delete b (mx_connections m) else mx_connections m)"
  by (simp_all add: maybeClose_def Let_def close_ws_def upd_conn_def bases_def lsns_def closeds_def owners_def map_update
      split: option.split)

lemma serves_fewer:
  assumes "serves m a" "bases m' = bases m" "lsns m' = lsns m" "mx_sets m' = mx_sets m" "mx_handles m' = mx_handles m"
    "set (owners m') \<subseteq> set (owners m) \<union> {..<length (mx_conns m)}" "length (mx_conns m') = length (mx_conns m)"
    "\<And>b c. map_of (mx_connections m') b = Some c \<Longrightarrow> map_of (mx_connections m) b = Some c"
  shows "serves m' a"
proof -
  have v: "valid m"
    using assms(1) by (simp add: serves_def)
  have "c < length (mx_conns m) \<and> bases m ! c = b" if "map_of (mx_connections m') b = Some c" for b c
    using v assms(8) [OF that] by (simp add: valid_def)
  moreover have "c < length (mx_conns m)" if "c \<in> set (owners m')" for c
    using v assms(6) that by (auto simp: valid_def)
  ultimately have "valid m'"
    using assms(2,7) by (simp add: valid_def)
  then show ?thesis
    using assms by (simp add: serves_def)
qed

lemma maybeClose_serves: "serves m a \<Longrightarrow> serves (maybeClose c b m) a"
  by (rule serves_fewer) (auto simp: maybeClose_parts delete_conv' split: if_splits)

lemma unsubscribe_serves: "serves m a \<Longrightarrow> i < length (mx_handles m) \<Longrightarrow> serves (unsubscribe i m) (a\<lparr>su_gone := i # su_gone a\<rparr>)"
  by (simp add: unsubscribe_unlisten maybeClose_serves unlisten_serves)

lemma same_core_emit_all:
  "same_core m (foldl (\<lambda>x s. emit c s gw x) m ss)" "mx_sockets (foldl (\<lambda>x s. emit c s gw x) m ss) = mx_sockets m"
  by (induction ss arbitrary: m) (auto intro: same_core_trans [OF same_core_frames(1)])

lemma ws_message_core: "same_core m (ws_message k d m)" "mx_sockets (ws_message k d m) = mx_sockets m"
  by (auto simp: ws_message_def same_core_dispatch split: option.split) (simp add: same_core_def bases_def lsns_def closeds_def)

lemma ws_open_core: "same_core m (ws_open k m)" "owners (ws_open k m) = owners m"
proof -
  let ?c = "fst (mx_sockets m ! k)"
  define m1 where "m1 = upd_conn ?c (\<lambda>x. x\<lparr>mc_reconnectAttempt := 0\<rparr>) (m\<lparr>mx_sockets := (mx_sockets m)[k := (?c, True)]\<rparr>)"
  have "same_core m m1" "owners m1 = owners m"
    by (simp_all add: m1_def same_core_def upd_conn_def bases_def lsns_def closeds_def owners_def map_update)
  then show "same_core m (ws_open k m)" "owners (ws_open k m) = owners m"
    using same_core_trans [OF _ same_core_emit_all(1)] same_core_emit_all(2) [of ?c stream_reconnected m1]
    by (simp_all add: ws_open_def Let_def m1_def [symmetric]) (simp_all add: owners_def)
qed

lemma ws_close_parts:
  "bases (ws_close k m) = bases m" "lsns (ws_close k m) = lsns m" "owners (ws_close k m) = owners m" "closeds (ws_close k m) = closeds m"
  "mx_sets (ws_close k m) = mx_sets m" "mx_handles (ws_close k m) = mx_handles m" "length (mx_conns (ws_close k m)) = length (mx_conns m)"
  "mx_connections (ws_close k m) = (let c = fst (mx_sockets m ! k) in
     if \<not> mc_closed (conn_at m c) \<and> mc_listeners (conn_at m c) = [] then AList.delete (mc_base (conn_at m c)) (mx_connections m) else mx_connections m)"
  by (simp_all add: ws_close_def Let_def upd_conn_parts)
    (simp_all add: bases_def lsns_def closeds_def owners_def upd_conn_def map_update)

lemma reconnect_due_parts:
  "bases (reconnect_due c m) = bases m" "lsns (reconnect_due c m) = lsns m" "closeds (reconnect_due c m) = closeds m"
  "set (owners (reconnect_due c m)) \<subseteq> insert c (set (owners m))" "mx_sets (reconnect_due c m) = mx_sets m"
  "mx_handles (reconnect_due c m) = mx_handles m" "mx_connections (reconnect_due c m) = mx_connections m"
  "length (mx_conns (reconnect_due c m)) = length (mx_conns m)"
  by (auto simp: reconnect_due_def Let_def attach_parts upd_conn_parts)

lemma close_one_parts:
  "bases (close_one m c) = bases m" "lsns (close_one m c) = lsns m" "owners (close_one m c) = owners m" "closeds (close_one m c) = (closeds m)[c := True]"
  "mx_sets (close_one m c) = mx_sets m" "mx_handles (close_one m c) = mx_handles m" "length (mx_conns (close_one m c)) = length (mx_conns m)"
  "mx_connections (close_one m c) = mx_connections m"
  by (simp_all add: close_one_def close_ws_def upd_conn_def bases_def lsns_def closeds_def owners_def map_update split: option.split)

lemma close_some_parts:
  "bases (foldl close_one m cs) = bases m \<and> lsns (foldl close_one m cs) = lsns m \<and> owners (foldl close_one m cs) = owners m \<and>
   closeds (foldl close_one m cs) = foldl (\<lambda>b c. b[c := True]) (closeds m) cs \<and>
   mx_sets (foldl close_one m cs) = mx_sets m \<and> mx_handles (foldl close_one m cs) = mx_handles m \<and>
   length (mx_conns (foldl close_one m cs)) = length (mx_conns m) \<and> mx_connections (foldl close_one m cs) = mx_connections m"
  by (induction cs arbitrary: m) (simp_all add: close_one_parts)

lemma closeAllMux_parts:
  "bases (closeAllMux m) = bases m" "lsns (closeAllMux m) = lsns m" "owners (closeAllMux m) = owners m"
  "closeds (closeAllMux m) = foldl (\<lambda>b c. b[c := True]) (closeds m) (map snd (mx_connections m))"
  "mx_sets (closeAllMux m) = mx_sets m" "mx_handles (closeAllMux m) = mx_handles m" "length (mx_conns (closeAllMux m)) = length (mx_conns m)"
  "mx_connections (closeAllMux m) = []"
  using close_some_parts [of m "map snd (mx_connections m)"]
  by (simp_all add: closeAllMux_def bases_def lsns_def owners_def closeds_def)

lemma handles_subs: "serves m a \<Longrightarrow> length (su_list a) = length (mx_handles m)"
  by (simp add: serves_def)

lemma step_serves:
  assumes "serves m a"
  shows "serves (mux_step m e) (subs_step a e)"
proof (cases e)
  case (Subscribe b s)
  then show ?thesis using subscribe_serves [OF assms] by (simp add: mux_step_def)
next
  case (Unsubscribe i)
  then show ?thesis using assms unsubscribe_serves [OF assms, of i] handles_subs [OF assms] by (simp add: mux_step_def subs_step_def)
next
  case (SocketOpen k)
  from ws_open_core(1) [of m k] have "length (mx_conns (ws_open k m)) = length (mx_conns m)"
    unfolding same_core_def by (rule same_core_length)
  then have "serves (ws_open k m) a"
    using ws_open_core(1) [of m k] by (intro serves_fewer [OF assms]) (simp_all add: ws_open_core(2) same_core_def)
  then show ?thesis using SocketOpen assms by (simp add: mux_step_def subs_step_def)
next
  case (SocketMessage k d)
  then show ?thesis using assms serves_same_core [OF assms ws_message_core] by (simp add: mux_step_def subs_step_def)
next
  case (SocketClose k)
  have "serves (ws_close k m) a"
    by (rule serves_fewer [OF assms]) (auto simp: ws_close_parts Let_def delete_conv' split: if_splits)
  then show ?thesis using SocketClose assms by (simp add: mux_step_def subs_step_def)
next
  case (ReconnectTimer c)
  have "serves (reconnect_due c m) a" if "c < length (mx_conns m)"
    by (rule serves_fewer [OF assms]) (use that reconnect_due_parts [of c m] in auto)
  then show ?thesis using ReconnectTimer assms by (simp add: mux_step_def subs_step_def)
next
  case CloseAll
  have "serves (closeAllMux m) a"
    by (rule serves_fewer [OF assms]) (simp_all add: closeAllMux_parts)
  then show ?thesis using CloseAll by (simp add: mux_step_def subs_step_def)
qed

lemma init_serves: "serves mux_init subs_init"
  by (simp add: serves_def valid_def served_def mux_init_def subs_init_def bases_def lsns_def owners_def)

definition mux_spec_step :: "mux \<times> subscriptions \<Rightarrow> mux_event \<Rightarrow> mux \<times> subscriptions" where
  "mux_spec_step = (\<lambda>(m, a) e. (mux_step m e, subs_step a e))"

interpretation served_mux: invariant_system "(mux_init, subs_init)" mux_spec_step "\<lambda>e. True" "\<lambda>(m, a). serves m a"
  by unfold_locales (auto simp: mux_spec_step_def init_serves intro: step_serves)

lemma mux_spec_foldl: "foldl mux_spec_step (m, a) es = (foldl mux_step m es, foldl subs_step a es)"
  by (induction es arbitrary: m a) (simp_all add: mux_spec_step_def)

lemma mux_serves: "serves (foldl mux_step mux_init es) (foldl subs_step subs_init es)"
  using served_mux.inv_reachable [of es] by (simp add: mux_spec_foldl list_all_iff)

section \<open>One connection per endpoint\<close>

text \<open>
  While every function is called once at most, a lasting subscription sits on the registered connection of its endpoint, and a
  connection that is not closed is the registered one and has listeners. \<open>except\<close> is a connection about to get its first.
\<close>

definition registered_but :: "nat option \<Rightarrow> mux \<Rightarrow> subscriptions \<Rightarrow> bool" where
  "registered_but except m a \<longleftrightarrow>
     (\<forall>i < length (mx_handles m). i \<notin> set (su_gone a) \<longrightarrow>
        map_of (mx_connections m) (hd_base (mx_handles m ! i)) = Some (hd_conn (mx_handles m ! i)) \<and> \<not> closeds m ! hd_conn (mx_handles m ! i)) \<and>
     (\<forall>c < length (mx_conns m). \<not> closeds m ! c \<longrightarrow>
        map_of (mx_connections m) (bases m ! c) = Some c \<and> (except = Some c \<or> lsns m ! c \<noteq> []))"

lemma registeredD:
  assumes "registered_but x m a"
  shows "i < length (mx_handles m) \<Longrightarrow> i \<notin> set (su_gone a) \<Longrightarrow>
      map_of (mx_connections m) (hd_base (mx_handles m ! i)) = Some (hd_conn (mx_handles m ! i))"
    and "i < length (mx_handles m) \<Longrightarrow> i \<notin> set (su_gone a) \<Longrightarrow> \<not> closeds m ! hd_conn (mx_handles m ! i)"
    and "c < length (mx_conns m) \<Longrightarrow> \<not> closeds m ! c \<Longrightarrow> map_of (mx_connections m) (bases m ! c) = Some c"
    and "c < length (mx_conns m) \<Longrightarrow> \<not> closeds m ! c \<Longrightarrow> x \<noteq> Some c \<Longrightarrow> lsns m ! c \<noteq> []"
  using assms unfolding registered_but_def by blast+

lemma registeredI:
  assumes "\<And>i. i < length (mx_handles m) \<Longrightarrow> i \<notin> set (su_gone a) \<Longrightarrow>
      map_of (mx_connections m) (hd_base (mx_handles m ! i)) = Some (hd_conn (mx_handles m ! i)) \<and> \<not> closeds m ! hd_conn (mx_handles m ! i)"
    and "\<And>c. c < length (mx_conns m) \<Longrightarrow> \<not> closeds m ! c \<Longrightarrow> map_of (mx_connections m) (bases m ! c) = Some c"
    and "\<And>c. c < length (mx_conns m) \<Longrightarrow> \<not> closeds m ! c \<Longrightarrow> x \<noteq> Some c \<Longrightarrow> lsns m ! c \<noteq> []"
  shows "registered_but x m a"
  unfolding registered_but_def using assms by blast

lemma registered_same:
  assumes "registered_but x m a" "bases m' = bases m" "lsns m' = lsns m" "closeds m' = closeds m" "mx_handles m' = mx_handles m"
    "mx_connections m' = mx_connections m" "length (mx_conns m') = length (mx_conns m)"
  shows "registered_but x m' a"
  using assms by (simp add: registered_but_def)

lemma registered_same_core: "registered_but x m a \<Longrightarrow> same_core m m' \<Longrightarrow> registered_but x m' a"
  using parts_length(1) [of m'] parts_length(1) [of m] by (simp add: registered_but_def same_core_def)

lemma connect_registered:
  assumes "serves m a" "registered_but None m a" "connect b m = (m', c)"
  shows "registered_but (Some c) m' a \<and> \<not> closeds m' ! c"
proof (rule connect_cases [of m b], goal_cases)
  case (1 c')
  then have "m' = m" "c < length (mx_conns m)" "c' = c"
    using assms(1,3) by (auto simp: serves_def valid_def)
  with 1 assms(2) show ?thesis
    by (auto simp: registered_but_def parts_at)
next
  case 2
  then have m': "m' = fresh_conn b m" and c: "c = length (mx_conns m)"
    using assms(3) by simp_all
  have sv: "served (bases m) (lsns m) (mx_sets m) (mx_handles m) (set (su_gone a))" and v: "valid m"
    using assms(1) by (simp_all add: serves_def)
  have other: "b' \<noteq> b" if "map_of (mx_connections m) b' = Some c'" "\<not> closeds m ! c'" for b' c'
  proof
    assume "b' = b"
    then have "mc_closed (conn_at m c')" using 2(2) that(1) by simp
    moreover have "c' < length (mx_conns m)" using v that(1) by (simp add: valid_def)
    ultimately show False using that(2) by (simp add: parts_at)
  qed
  have "registered_but (Some c) m' a"
  proof (rule registeredI, goal_cases)
    case (1 i)
    then have i: "i < length (mx_handles m)" "i \<notin> set (su_gone a)" by (simp_all add: m' fresh_conn_parts)
    have "hd_conn (mx_handles m ! i) < length (mx_conns m)" using servedD(3) [OF sv i(1)] by simp
    with registeredD(1,2) [OF assms(2) i] other [OF registeredD(1,2) [OF assms(2) i]] show ?case
      by (simp add: m' fresh_conn_parts update_conv' nth_append)
  next
    case (2 c')
    show ?case
    proof (cases "c' = length (mx_conns m)")
      case False
      with 2 have c': "c' < length (mx_conns m)" "\<not> closeds m ! c'" by (simp_all add: m' fresh_conn_parts nth_append)
      from registeredD(3) [OF assms(2) c'] other [OF registeredD(3) [OF assms(2) c'] c'(2)] c'(1) show ?thesis
        by (simp add: m' fresh_conn_parts update_conv' nth_append)
    qed (simp add: m' fresh_conn_parts update_conv' nth_append)
  next
    case (3 c')
    then have "c' < length (mx_conns m)" "\<not> closeds m ! c'" by (simp_all add: m' c fresh_conn_parts nth_append)
    with registeredD(4) [OF assms(2) this] show ?case by (simp add: m' fresh_conn_parts nth_append)
  qed
  then show ?thesis
    by (simp add: m' c fresh_conn_parts nth_append)
qed

lemma update_not_Nil: "AList.update k v xs \<noteq> []"
  by (cases xs) auto

lemma listen_registered:
  assumes "registered_but (Some c) m a" "\<not> closeds m ! c" "c < length (mx_conns m)" "map_of (mx_connections m) b = Some c"
  shows "registered_but None (listen b s c m) (a\<lparr>su_list := l\<rparr>)"
proof -
  obtain j where l: "lsns (listen b s c m) = (lsns m)[c := AList.update s j (lsns m ! c)]"
    using listen_lsns [OF assms(3)] by blast
  obtain k where h: "mx_handles (listen b s c m) = mx_handles m @ [\<lparr>hd_conn = c, hd_set = k, hd_session = s, hd_base = b\<rparr>]"
    using listen_handles by blast
  show ?thesis
  proof (rule registeredI, goal_cases)
    case (1 i)
    then show ?case
      using assms(2,4) registeredD(1,2) [OF assms(1), of i] by (cases "i = length (mx_handles m)") (simp_all add: h listen_kept nth_append)
  next
    case (2 c')
    then show ?case using registeredD(3) [OF assms(1), of c'] by (simp add: listen_kept)
  next
    case (3 c')
    then show ?case
      using registeredD(4) [OF assms(1), of c'] assms(3) by (cases "c' = c") (simp_all add: listen_kept l update_not_Nil)
  qed
qed

lemma subscribe_registered:
  assumes "serves m a" "registered_but None m a"
  shows "registered_but None (subscribe b s m) (subs_step a (Subscribe b s))"
proof -
  obtain m' c where con: "connect b m = (m', c)" by (cases "connect b m")
  have "registered_but (Some c) m' a" "\<not> closeds m' ! c" using connect_registered [OF assms con] by simp_all
  from listen_registered [OF this connect_serves(2,4) [OF assms(1) con]] show ?thesis
    by (simp add: subscribe_listen [OF con] subs_step_def)
qed

lemma unsubscribe_registered:
  assumes "serves m a" "registered_but None m a" "i < length (mx_handles m)" "i \<notin> set (su_gone a)"
  shows "registered_but None (unsubscribe i m) (a\<lparr>su_gone := i # su_gone a\<rparr>)"
proof -
  let ?h = "mx_handles m ! i"
  let ?c = "hd_conn ?h" and ?m = "unlisten i m" and ?a = "a\<lparr>su_gone := i # su_gone a\<rparr>"
  have sv: "served (bases m) (lsns m) (mx_sets m) (mx_handles m) (set (su_gone a))"
    using assms(1) by (simp add: serves_def)
  have c: "?c < length (mx_conns m)" and b: "bases m ! ?c = hd_base ?h"
    using servedD(3,5) [OF sv assms(3)] by simp_all
  have near: "registered_but (Some ?c) ?m ?a"
    by (rule registeredI) (use registeredD [OF assms(2)] in \<open>auto simp: unlisten_kept unlisten_lsns\<close>)
  show ?thesis
  proof (cases "mc_listeners (conn_at ?m ?c) = []")
    case False
    then have "lsns ?m ! ?c \<noteq> []"
      using c by (simp add: parts_at unlisten_kept)
    with near have "registered_but None ?m ?a"
      by (auto simp: registered_but_def)
    then show ?thesis
      by (rule registered_same) (simp_all add: unsubscribe_unlisten maybeClose_parts False)
  next
    case True
    have sv': "served (bases ?m) (lsns ?m) (mx_sets ?m) (mx_handles ?m) (set (su_gone ?a))"
      using unlisten_serves [OF assms(1,3)] by (simp add: serves_def)
    have empty: "lsns ?m ! ?c = []"
      using True c by (simp add: parts_at unlisten_kept)
    have other: "hd_base (mx_handles m ! j) \<noteq> hd_base ?h \<and> hd_conn (mx_handles m ! j) \<noteq> ?c"
      if j: "j < length (mx_handles m)" "j \<notin> set (su_gone ?a)" for j
    proof -
      have "map_of (lsns ?m ! hd_conn (mx_handles m ! j)) (hd_session (mx_handles m ! j)) \<noteq> None"
        using servedD(6) [OF sv', of j] j by (simp add: unlisten_kept)
      then have nc: "hd_conn (mx_handles m ! j) \<noteq> ?c" using empty by auto
      moreover have "hd_base (mx_handles m ! j) \<noteq> hd_base ?h"
        using nc registeredD(1) [OF assms(2), of j] registeredD(1) [OF assms(2-4)] j by auto
      ultimately show ?thesis by simp
    qed
    show ?thesis unfolding unsubscribe_unlisten
    proof (rule registeredI, goal_cases)
      case (1 j)
      then have j: "j < length (mx_handles m)" "j \<notin> set (su_gone ?a)" by (simp_all add: maybeClose_parts unlisten_kept)
      with other [OF j] registeredD(1,2) [OF near, of j] show ?case
        by (simp add: maybeClose_parts unlisten_kept True delete_conv')
    next
      case (2 d)
      then have d: "d < length (mx_conns m)" "\<not> closeds m ! d" "d \<noteq> ?c"
        using c by (auto simp: maybeClose_parts unlisten_kept True nth_list_update split: if_splits)
      then have "bases m ! d \<noteq> hd_base ?h"
        using registeredD(3) [OF assms(2) d(1,2)] registeredD(1) [OF assms(2-4)] by auto
      with registeredD(3) [OF assms(2) d(1,2)] show ?case
        by (simp add: maybeClose_parts unlisten_kept True delete_conv')
    next
      case (3 d)
      then have "d < length (mx_conns m)" "\<not> closeds m ! d" "d \<noteq> ?c"
        using c by (auto simp: maybeClose_parts unlisten_kept True nth_list_update split: if_splits)
      with registeredD(4) [OF assms(2), of d] show ?case by (simp add: maybeClose_parts unlisten_lsns)
    qed
  qed
qed

lemma step_registered:
  assumes "serves m a" "registered_but None m a" "once_each (su_gone a) (e # es)"
  shows "registered_but None (mux_step m e) (subs_step a e)"
proof (cases e)
  case (Subscribe b s)
  then show ?thesis using subscribe_registered [OF assms(1,2)] by (simp add: mux_step_def)
next
  case (Unsubscribe i)
  then show ?thesis
    using assms unsubscribe_registered [OF assms(1,2), of i] handles_subs [OF assms(1)] by (simp add: mux_step_def subs_step_def)
next
  case (SocketOpen k)
  then show ?thesis using assms(2) registered_same_core [OF assms(2) ws_open_core(1)] by (simp add: mux_step_def subs_step_def)
next
  case (SocketMessage k d)
  then show ?thesis using assms(2) registered_same_core [OF assms(2) ws_message_core(1)] by (simp add: mux_step_def subs_step_def)
next
  case (SocketClose k)
  have "registered_but None (ws_close k m) a" if k: "k < length (mx_sockets m)"
  proof (rule registered_same [OF assms(2)])
    have "owners m ! k \<in> set (owners m)" using k by (simp add: owners_def)
    then have "owners m ! k < length (mx_conns m)" using assms(1) by (simp add: serves_def valid_def)
    then show "mx_connections (ws_close k m) = mx_connections m"
      using registeredD(4) [OF assms(2), of "owners m ! k"] by (auto simp: ws_close_parts Let_def parts_at k)
  qed (simp_all add: ws_close_parts)
  then show ?thesis using SocketClose assms(2) by (simp add: mux_step_def subs_step_def)
next
  case (ReconnectTimer c)
  have "registered_but None (reconnect_due c m) a"
    by (rule registered_same [OF assms(2)]) (simp_all add: reconnect_due_parts)
  then show ?thesis using ReconnectTimer assms(2) by (simp add: mux_step_def subs_step_def)
next
  case CloseAll
  then show ?thesis using assms(3) by simp
qed

lemma once_each_fewer: "once_each g es \<Longrightarrow> set h \<subseteq> set g \<Longrightarrow> once_each h es"
proof (induction g es arbitrary: h rule: once_each.induct)
  case (2 g i es)
  from 2(1) [of "i # h"] 2(2,3) show ?case by auto
qed auto

lemma run_registered:
  assumes "serves m a" "registered_but None m a" "once_each (su_gone a) es"
  shows "registered_but None (foldl mux_step m es) (foldl subs_step a es)"
  using assms
proof (induction es arbitrary: m a)
  case (Cons e es)
  have "once_each (su_gone (subs_step a e)) es"
    using Cons.prems(3) by (cases e) (auto simp: subs_step_def intro: once_each_fewer)
  then show ?case
    using Cons.IH [OF step_serves [OF Cons.prems(1)] step_registered [OF Cons.prems]] by simp
qed simp

lemma mux_registered:
  assumes "once_each [] es"
  shows "registered_but None (foldl mux_step mux_init es) (foldl subs_step subs_init es)"
proof (rule run_registered [OF init_serves])
  show "registered_but None mux_init subs_init"
    by (simp add: registered_but_def mux_init_def)
qed (simp add: assms subs_init_def)

section \<open>Delivery\<close>

lemma members_on_conn:
  assumes "serves m a" "c < length (mx_conns m)"
  shows "members m c s = on_conn (mx_handles m) (set (su_gone a)) c s"
proof -
  have sv: "served (bases m) (lsns m) (mx_sets m) (mx_handles m) (set (su_gone a))"
    using assms(1) by (simp add: serves_def)
  show ?thesis
    using served_none [OF sv, of c s] servedD(9) [OF sv, of c s] assms(2)
    by (simp add: members_def parts_at(1) [OF assms(2)] split: option.split)
qed

lemma members_subscribed:
  assumes "serves m a" "registered_but None m a" "c < length (mx_conns m)" "map_of (mx_connections m) (bases m ! c) = Some c"
  shows "members m c s = subscribed a (bases m ! c) s"
proof -
  have sv: "served (bases m) (lsns m) (mx_sets m) (mx_handles m) (set (su_gone a))"
    and l: "su_list a = map (\<lambda>h. (hd_base h, hd_session h)) (mx_handles m)"
    using assms(1) by (simp_all add: serves_def)
  have "hd_conn (mx_handles m ! i) = c \<longleftrightarrow> hd_base (mx_handles m ! i) = bases m ! c"
    if "i < length (mx_handles m)" "i \<notin> set (su_gone a)" for i
    using registeredD(1) [OF assms(2) that] servedD(5) [OF sv that(1)] assms(4) by auto
  then show ?thesis
    unfolding members_on_conn [OF assms(1,3)] on_conn_def subscribed_def l by (intro filter_cong) auto
qed

text \<open>
  Claim C21. Under the code's connections, listener maps and sets lies a plain registry. After any sequence of subscriptions,
  removals (each called once at most), socket openings, losses, messages and reconnections, the listeners that the endpoint's
  current connection serves for a session are the subscriptions of that endpoint and session not yet removed, each once, in the
  order in which they were made: none is lost to a connection that was replaced, a removed one is never called again, and an old
  removal does not take a newer subscription with it.
\<close>

theorem mux_refines_subscriptions:
  assumes "once_each [] es"
  shows "listening (foldl mux_step mux_init es) base s = subscribed (foldl subs_step subs_init es) base s"
proof -
  let ?m = "foldl mux_step mux_init es" and ?a = "foldl subs_step subs_init es"
  have reg: "registered_but None ?m ?a" by (rule mux_registered [OF assms])
  have l: "su_list ?a = map (\<lambda>h. (hd_base h, hd_session h)) (mx_handles ?m)"
    using mux_serves [of es] by (simp add: serves_def)
  show ?thesis
  proof (cases "map_of (mx_connections ?m) base")
    case None
    then have "subscribed ?a base s = []"
      unfolding subscribed_def filter_empty_conv l using registeredD(1) [OF reg] by auto
    with None show ?thesis by (simp add: listening_def)
  next
    case (Some c)
    then have "c < length (mx_conns ?m)" "bases ?m ! c = base"
      using mux_serves [of es] by (simp_all add: serves_def valid_def)
    with Some members_subscribed [OF mux_serves reg, of c s] show ?thesis by (simp add: listening_def)
  qed
qed

lemma mux_refines_subscriptions_witness:
  "listening (foldl mux_step mux_init
     [Subscribe ''u'' ''a'', Subscribe ''u'' ''a'', SocketOpen 0, Unsubscribe 0, SocketClose 0, ReconnectTimer 0, Subscribe ''u'' ''b'']) ''u'' ''a'' = [1]"
proof -
  have o: "once_each [] [Subscribe ''u'' ''a'', Subscribe ''u'' ''a'', SocketOpen 0, Unsubscribe 0, SocketClose 0, ReconnectTimer 0, Subscribe ''u'' ''b'']"
    by simp
  show ?thesis
    by (rule trans [OF mux_refines_subscriptions [OF o]]) code_simp
qed

text \<open>What the code sends for a frame: the session it goes to, and the event.\<close>

definition frame_out :: "(string \<times> string) list \<Rightarrow> envelope \<Rightarrow> (string \<times> tevent) option" where
  "frame_out rpcs env = (case parseMuxPayload (en_payload env) of
     None \<Rightarrow> None
   | Some f \<Rightarrow> (case f of
       SessionEvent s e \<Rightarrow> map_option (Pair s) (muxFrameToGatewayFrame f)
     | QuestionRequested s qs \<Rightarrow> Some (s, questionRequestedFrame (en_rpcId env) qs)
     | QuestionResolved s q \<Rightarrow> Some (s, questionResolvedFrame q)
     | ApprovalRequested s a name reason \<Rightarrow> Some (s, approvalRequestedFrame (en_rpcId env) a name reason)
     | ApprovalResolved s a \<Rightarrow> Some (s, approvalResolvedFrame a (map_of rpcs a))
     | SessionProjection s k v seq \<Rightarrow> map_option (Pair s) (goalProjectionFrame f)))"

definition message_out :: "(string \<times> string) list \<Rightarrow> json option \<Rightarrow> (string \<times> tevent) option" where
  "message_out rpcs data = (case parseMuxFrame data of
     None \<Rightarrow> None
   | Some env \<Rightarrow> if en_method env = ''stream/error'' then None else frame_out rpcs env)"

definition deliveries :: "subscriptions \<Rightarrow> string \<Rightarrow> (string \<times> tevent) option \<Rightarrow> (nat \<times> string \<times> tevent) list" where
  "deliveries a base out = (case out of None \<Rightarrow> [] | Some (s, gw) \<Rightarrow> map (\<lambda>l. (l, s, gw)) (subscribed a base s))"

lemma members_upd:
  assumes "\<And>k. mc_listeners (f k) = mc_listeners k"
  shows "members (upd_conn c f m) d s = members m d s"
proof -
  have "mc_listeners (conn_at (upd_conn c f m) d) = mc_listeners (conn_at m d)"
    by (cases "c < length (mx_conns m)"; cases "d = c") (simp_all add: conn_at_def upd_conn_def assms list_update_beyond)
  then show ?thesis
    by (simp add: members_def upd_conn_parts split: option.split)
qed

lemma dispatch_delivers:
  "mx_delivered (dispatch_frame c env m) = mx_delivered m @
     (case frame_out (mc_approvalRpcIds (conn_at m c)) env of None \<Rightarrow> [] | Some (s, gw) \<Rightarrow> map (\<lambda>l. (l, s, gw)) (members m c s))"
  by (auto simp: dispatch_frame_def frame_out_def emit_some_def emit_def members_upd split: option.splits mux_frame.splits)
    (simp_all add: upd_conn_def)

text \<open>
  A message that arrives on a connection still in use is delivered to the subscriptions of its endpoint and of the
  session it names, to each once and in the order of subscription, and to nobody else; text that is no envelope, a frame that the
  discrimination rejects and the end-of-stream notice are delivered to nobody.
\<close>

theorem mux_delivers_exactly:
  assumes "once_each [] es" and "m = foldl mux_step mux_init es"
    and "k < length (mx_sockets m)" and "c = fst (mx_sockets m ! k)" and "\<not> mc_closed (conn_at m c)"
  shows "mx_delivered (mux_step m (SocketMessage k data)) = mx_delivered m @
    deliveries (foldl subs_step subs_init es) (mc_base (conn_at m c)) (message_out (mc_approvalRpcIds (conn_at m c)) data)"
proof -
  let ?a = "foldl subs_step subs_init es"
  have sv: "serves m ?a" and reg: "registered_but None m ?a"
    using mux_serves [of es] mux_registered [OF assms(1)] assms(2) by simp_all
  have "c \<in> set (owners m)"
    using assms(3,4) by (simp add: owners_def)
  then have c: "c < length (mx_conns m)"
    using sv by (simp add: serves_def valid_def)
  have base: "mc_base (conn_at m c) = bases m ! c" and "\<not> closeds m ! c"
    using assms(5) c by (simp_all add: parts_at)
  then have "members m c s = subscribed ?a (mc_base (conn_at m c)) s" for s
    using members_subscribed [OF sv reg c registeredD(3) [OF reg c]] by simp
  then show ?thesis
    using assms(3,4)
    by (simp add: mux_step_def ws_message_def message_out_def deliveries_def dispatch_delivers split: option.split)
qed

lemma mux_delivers_exactly_witness:
  "mx_delivered (mux_step (foldl mux_step mux_init [Subscribe ''u'' ''a'', Subscribe ''u'' ''b'', SocketOpen 0]) (SocketMessage 0 None)) = []"
proof -
  let ?es = "[Subscribe ''u'' ''a'', Subscribe ''u'' ''b'', SocketOpen 0]"
  have "mx_delivered (mux_step (foldl mux_step mux_init ?es) (SocketMessage 0 None)) = mx_delivered (foldl mux_step mux_init ?es) @
    deliveries (foldl subs_step subs_init ?es) (mc_base (conn_at (foldl mux_step mux_init ?es) 0))
      (message_out (mc_approvalRpcIds (conn_at (foldl mux_step mux_init ?es) 0)) None)"
    by (rule mux_delivers_exactly [where es = ?es]) (simp, simp, code_simp+)
  also have "\<dots> = []"
    by code_simp
  finally show ?thesis .
qed

text \<open>
  While every subscription is removed once at most there is one connection per endpoint: two connections of the same
  base that are both not closed are the same, however often subscriptions come and go and sockets are lost and reconnected.
\<close>

theorem one_connection_per_endpoint:
  assumes "once_each [] es" and "m = foldl mux_step mux_init es"
    and "c < length (mx_conns m)" "d < length (mx_conns m)" "\<not> mc_closed (conn_at m c)" "\<not> mc_closed (conn_at m d)"
    and "mc_base (conn_at m c) = mc_base (conn_at m d)"
  shows "c = d"
proof -
  have reg: "registered_but None m (foldl subs_step subs_init es)"
    using mux_registered [OF assms(1)] assms(2) by simp
  have "\<not> closeds m ! c" "\<not> closeds m ! d" and b: "bases m ! c = bases m ! d"
    using assms(5-7) by (simp_all only: parts_at(2,3) [OF assms(3)] parts_at(2,3) [OF assms(4)] not_False_eq_True)
  then have "map_of (mx_connections m) (bases m ! c) = Some c" "map_of (mx_connections m) (bases m ! d) = Some d"
    using registeredD(3) [OF reg assms(3)] registeredD(3) [OF reg assms(4)] by blast+
  then show ?thesis
    unfolding b by (metis option.inject)
qed

lemma one_connection_per_endpoint_witness:
  "length (mx_conns (foldl mux_step mux_init [Subscribe ''u'' ''a'', Unsubscribe 0, Subscribe ''u'' ''a''])) = 2 \<and> (1::nat) = 1"
proof -
  have "(1::nat) = 1"
    by (rule one_connection_per_endpoint [where es = "[Subscribe ''u'' ''a'', Unsubscribe 0, Subscribe ''u'' ''a'']"])
      (simp, rule refl, code_simp+)
  then show ?thesis by code_simp
qed

lemma close_flags:
  "length (foldl (\<lambda>b c. b[c := True]) bs cs) = length bs \<and>
   (d < length bs \<longrightarrow> foldl (\<lambda>b c. b[c := True]) bs cs ! d = (d \<in> set cs \<or> bs ! d))"
proof (induction cs arbitrary: bs)
  case (Cons c cs)
  from Cons [of "bs[c := True]"] show ?case
    by (cases "d = c") simp_all
qed simp

text \<open>
  Under the same discipline the shutdown leaves no connection behind: after \<open>closeAllMux\<close> every connection ever made
  is closed, so that none reconnects.
\<close>

theorem shutdown_closes_every_connection:
  assumes "once_each [] es"
  shows "list_all mc_closed (mx_conns (closeAllMux (foldl mux_step mux_init es)))"
proof -
  let ?m = "foldl mux_step mux_init es"
  have reg: "registered_but None ?m (foldl subs_step subs_init es)"
    by (rule mux_registered [OF assms])
  have "closeds (closeAllMux ?m) ! c" if c: "c < length (mx_conns ?m)" for c
  proof (cases "closeds ?m ! c")
    case False
    then have "c \<in> set (map snd (mx_connections ?m))"
      using registeredD(3) [OF reg c] by (force dest: map_of_SomeD)
    then show ?thesis
      using c by (simp add: closeAllMux_parts close_flags)
  qed (use c in \<open>simp add: closeAllMux_parts close_flags\<close>)
  then have "list_all (\<lambda>b. b) (closeds (closeAllMux ?m))"
    by (simp add: list_all_length closeAllMux_parts(7))
  then show ?thesis
    by (simp add: closeds_def list_all_iff)
qed

lemma shutdown_closes_every_connection_witness:
  "list_all mc_closed (mx_conns (closeAllMux (foldl mux_step mux_init [Subscribe ''u'' ''a'', Subscribe ''v'' ''a'', SocketOpen 0])))"
  by (rule shutdown_closes_every_connection) simp

text \<open>
  Calling the function of a subscription twice is not harmless. When another chat subscribed to the endpoint between the
  two calls, the second call takes the new connection out of the registry although it is open and in use: the next subscription
  opens a second connection to the same endpoint, and the shutdown then closes only one of the two.
\<close>

theorem repeated_removal_orphans_connection:
  "(let m = foldl mux_step mux_init [Subscribe base s1, Unsubscribe 0, Subscribe base s2, Unsubscribe 0, Subscribe base s3]
    in map mc_base (filter (\<lambda>k. \<not> mc_closed k) (mx_conns m)) = [base, base] \<and> listening m base s2 = (if s2 = s3 then [2] else []) \<and>
       map mc_closed (mx_conns (closeAllMux m)) = [True, False, True])"
  by (simp add: mux_step_def mux_init_def subscribe_def connect_def attach_def upd_conn_def conn_at_def new_conn_def unsubscribe_def
      maybeClose_def close_ws_def closeAllMux_def close_one_def listening_def members_def Let_def)

section \<open>Loss and recovery\<close>

lemma backoff_range: "3000 \<le> backoff n \<and> backoff n \<le> 30000"
proof -
  have "(1::int) \<le> 2 ^ nat (max (n - 1) 0)" by simp
  then show ?thesis by (simp add: backoff_def RECONNECT_BASE_MS_def RECONNECT_MAX_MS_def)
qed

text \<open>
  Whatever the random draw and however many attempts have failed, the wait before a reconnection is between 2.25 and
  37.5 seconds; the largest wait exceeds the named maximum of 30 seconds because the jitter is added after the cap.
\<close>

theorem reconnect_delay_bounds:
  assumes "0 \<le> r" "r < 1"
  shows "nextReconnectDelay r attempt \<in> {2250..37500}"
proof -
  define e :: rat where "e = of_int (backoff attempt)"
  have "of_int 3000 \<le> e" "e \<le> of_int 30000"
    unfolding e_def of_int_le_iff using backoff_range [of attempt] by simp_all
  then have e: "3000 \<le> e" "e \<le> 30000"
    by simp_all
  define q where "q = e + e * (1 / 4) * (r * 2 - 1) + 1 / 2"
  have q: "q = e * (3 / 4 + r / 2) + 1 / 2"
    by (simp add: q_def field_simps)
  have "2250 \<le> e * (3 / 4 + r / 2)"
    using mult_mono [of 3000 e "3 / 4" "3 / 4 + r / 2"] e assms by simp
  moreover have "e * (3 / 4 + r / 2) \<le> 30000 * (5 / 4)"
    by (rule mult_mono) (use e assms in simp_all)
  ultimately have "2250 \<le> q" "q < 37501"
    by (simp_all add: q)
  then have "2250 \<le> \<lfloor>q\<rfloor>" "\<lfloor>q\<rfloor> \<le> 37500"
    by (simp_all add: le_floor_iff floor_le_iff)
  then show ?thesis
    by (simp add: nextReconnectDelay_def Let_def q_def e_def)
qed

lemma reconnect_delay_bounds_witness: "nextReconnectDelay 0 1 = 2250 \<and> nextReconnectDelay (99999 / 100000) 9 \<in> {2250..37500}"
proof -
  have "nextReconnectDelay (99999 / 100000) 9 \<in> {2250..37500}"
    by (rule reconnect_delay_bounds) simp_all
  moreover have "nextReconnectDelay 0 1 = 2250"
    by code_simp
  ultimately show ?thesis by simp
qed

lemma emit_all_delivers:
  "mx_delivered (foldl (\<lambda>x s. emit c s gw x) m ss) = mx_delivered m @ concat (map (\<lambda>s. map (\<lambda>l. (l, s, gw)) (members m c s)) ss)"
proof (induction ss arbitrary: m)
  case (Cons s ss)
  have "members (emit c s gw m) c = members m c"
    by (rule ext) (simp add: members_def emit_def conn_at_def split: option.split)
  then show ?case
    by (simp add: Cons.IH) (simp add: emit_def)
qed simp

lemma emit_all_parts:
  "mx_conns (foldl (\<lambda>x s. emit c s gw x) m ss) = mx_conns m" "mx_sockets (foldl (\<lambda>x s. emit c s gw x) m ss) = mx_sockets m"
  by (induction ss arbitrary: m) (simp_all add: emit_def)

text \<open>
  A connection that was up and is lost while somebody subscribes comes back: the loss sets the timer (once), the timer
  opens a new socket, and when that opens every listener of the connection is told \<open>stream_reconnected\<close>, session by session, and
  the count of failed attempts starts again at zero.
\<close>

theorem lost_connection_comes_back:
  assumes "k < length (mx_sockets m)" "mx_sockets m ! k = (c, True)" "c < length (mx_conns m)"
    and "\<not> mc_closed (conn_at m c)" "mc_listeners (conn_at m c) \<noteq> []"
    and "m' = foldl mux_step m [SocketClose k, ReconnectTimer c, SocketOpen (length (mx_sockets m))]"
  shows "mc_ws (conn_at m' c) = Some (length (mx_sockets m)) \<and> mc_reconnectAttempt (conn_at m' c) = 0 \<and>
    \<not> mc_reconnectTimer (conn_at m' c) \<and> mx_reconnectCount m' = mx_reconnectCount m + 1 \<and>
    mx_delivered m' = mx_delivered m @
      concat (map (\<lambda>s. map (\<lambda>l. (l, s, stream_reconnected)) (members m c s)) (map fst (mc_listeners (conn_at m c))))"
proof -
  let ?K = "conn_at m c"
  define K1 where "K1 = (if mc_reconnectTimer ?K then ?K\<lparr>mc_wasConnected := True\<rparr>
    else ?K\<lparr>mc_wasConnected := True, mc_reconnectAttempt := mc_reconnectAttempt ?K + 1, mc_reconnectTimer := True\<rparr>)"
  have K1: "mc_listeners K1 = mc_listeners ?K" "\<not> mc_closed K1" "mc_reconnectTimer K1" "mc_wasConnected K1"
    using assms(4) by (simp_all add: K1_def)
  have m1: "ws_close k m = m\<lparr>mx_conns := (mx_conns m)[c := K1], mx_reconnectCount := mx_reconnectCount m + 1\<rparr>"
    by (rule mux.equality) (use assms(2-5) in \<open>simp_all add: K1_def ws_close_def Let_def upd_conn_def conn_at_def\<close>)
  have s1: "mux_step m (SocketClose k) = ws_close k m"
    using assms(1) by (simp add: mux_step_def)
  define m2 where "m2 = m\<lparr>mx_conns := (mx_conns m)[c := K1\<lparr>mc_reconnectTimer := False, mc_ws := Some (length (mx_sockets m))\<rparr>],
    mx_reconnectCount := mx_reconnectCount m + 1, mx_sockets := mx_sockets m @ [(c, False)]\<rparr>"
  have m2: "mux_step (ws_close k m) (ReconnectTimer c) = m2"
    using assms(3) K1 by (simp add: m1 m2_def mux_step_def reconnect_due_def attach_def upd_conn_def conn_at_def Let_def)
  define m3 where "m3 = m\<lparr>mx_reconnectCount := mx_reconnectCount m + 1, mx_sockets := mx_sockets m @ [(c, True)],
    mx_conns := (mx_conns m)[c := K1\<lparr>mc_reconnectTimer := False, mc_ws := Some (length (mx_sockets m)), mc_reconnectAttempt := 0\<rparr>]\<rparr>"
  have "mux_step m2 (SocketOpen (length (mx_sockets m))) =
      foldl (\<lambda>x s. emit c s stream_reconnected x) m3 (map fst (mc_listeners ?K))"
    using assms(3) K1 by (simp add: m2_def m3_def mux_step_def ws_open_def upd_conn_def conn_at_def Let_def)
  then have m': "m' = foldl (\<lambda>x s. emit c s stream_reconnected x) m3 (map fst (mc_listeners ?K))"
    unfolding assms(6) foldl.simps s1 m2 .
  have "mx_reconnectCount (foldl (\<lambda>x s. emit c s gw x) n ss) = mx_reconnectCount n" for gw n ss
    by (induction ss arbitrary: n) (simp_all add: emit_def)
  moreover have "members m3 c s = members m c s" for s
    using assms(3) K1(1) by (simp add: members_def m3_def conn_at_def split: option.split)
  ultimately show ?thesis
    using assms(3) unfolding m' conn_at_def emit_all_delivers emit_all_parts by (simp add: m3_def)
qed

lemma lost_connection_comes_back_witness:
  "mx_delivered (foldl mux_step (foldl mux_step mux_init [Subscribe ''u'' ''a'', SocketOpen 0]) [SocketClose 0, ReconnectTimer 0, SocketOpen 1])
     = [(0, ''a'', stream_reconnected)]"
proof -
  let ?m = "foldl mux_step mux_init [Subscribe ''u'' ''a'', SocketOpen 0]"
  have n: "length (mx_sockets ?m) = 1"
    by code_simp
  have "mx_delivered (foldl mux_step ?m [SocketClose 0, ReconnectTimer 0, SocketOpen (length (mx_sockets ?m))]) = mx_delivered ?m @
      concat (map (\<lambda>s. map (\<lambda>l. (l, s, stream_reconnected)) (members ?m 0 s)) (map fst (mc_listeners (conn_at ?m 0))))"
    by (rule lost_connection_comes_back [where m = ?m and k = 0 and c = 0 and
          m' = "foldl mux_step ?m [SocketClose 0, ReconnectTimer 0, SocketOpen (length (mx_sockets ?m))]", THEN conjunct2, THEN conjunct2,
          THEN conjunct2, THEN conjunct2]) (code_simp, code_simp, code_simp, code_simp, code_simp, rule refl)
  also have "\<dots> = [(0, ''a'', stream_reconnected)]"
    by code_simp
  finally show ?thesis unfolding n .
qed

end
