(* ===== verification/Auth.thy ===== *)
theory Auth
  imports Database Upstream
begin

text \<open>
  Sign-in, sessions and the password of the back office (\<^verbatim>\<open>auth/session.ts\<close>, \<^verbatim>\<open>auth/hooks.ts\<close>,
  \<^verbatim>\<open>auth/password.ts\<close>, \<^verbatim>\<open>routes/auth.ts\<close>, and the first boot of \<^verbatim>\<open>index.ts\<close>).

  A handler that awaits the password check is cut there: the request waits in the state under its number and later events finish
  it, so that every interleaving of requests is a sequence of events. The digest (SHA-256) and the check of a password against a
  stored hash (argon2) are parameters; the check may fail by throwing, which is None. Random tokens, fresh hashes and the clock are
  arguments of the events.
\<close>

section \<open>Sessions\<close>

definition TTL_MS :: int where
  "TTL_MS = 30 * 24 * 60 * 60 * 1000"

record session_user =
  su_id :: int
  su_username :: string
  su_mustChangePassword :: bool

text \<open>The identifier of a session is a primary key, its user a foreign key; None is the insert that throws.\<close>

definition issueSession :: "(string \<Rightarrow> string) \<Rightarrow> db \<Rightarrow> int \<Rightarrow> string \<Rightarrow> time \<Rightarrow> (db \<times> time) option" where
  "issueSession digest d userId token now =
     (let row = \<lparr>session_id = digest token, session_userId = userId, session_expiresAt = now + TTL_MS, session_createdAt = now\<rparr>
      in if digest token \<in> session_id ` set (db_sessions d) \<or> userId \<notin> user_id ` set (db_users d) then None
         else Some (d\<lparr>db_sessions := db_sessions d @ [row]\<rparr>, now + TTL_MS))"

definition joined_user :: "db \<Rightarrow> session_row \<Rightarrow> user_row option" where
  "joined_user d r = first_row (\<lambda>u. user_id u = session_userId r) (db_users d)"

definition resolveSession :: "(string \<Rightarrow> string) \<Rightarrow> db \<Rightarrow> string option \<Rightarrow> time \<Rightarrow> db \<times> session_user option" where
  "resolveSession digest d token now = (case token of
     None \<Rightarrow> (d, None)
   | Some t \<Rightarrow>
       if t = [] then (d, None)
       else (case first_row (\<lambda>r. session_id r = digest t \<and> joined_user d r \<noteq> None) (db_sessions d) of
          None \<Rightarrow> (d, None)
        | Some row \<Rightarrow>
            if session_expiresAt row \<le> now then (d\<lparr>db_sessions := del_where (\<lambda>r. session_id r = digest t) (db_sessions d)\<rparr>, None)
            else (case joined_user d row of
               None \<Rightarrow> (d, None)
             | Some u \<Rightarrow> (d, Some \<lparr>su_id = session_userId row, su_username = user_username u,
                                su_mustChangePassword = (user_mustChangePassword u = 1)\<rparr>))))"

definition revokeSession :: "(string \<Rightarrow> string) \<Rightarrow> db \<Rightarrow> string option \<Rightarrow> db" where
  "revokeSession digest d token = (case token of
     None \<Rightarrow> d
   | Some t \<Rightarrow> if t = [] then d else d\<lparr>db_sessions := del_where (\<lambda>r. session_id r = digest t) (db_sessions d)\<rparr>)"

definition pruneExpiredSessions :: "db \<Rightarrow> time \<Rightarrow> db \<times> int" where
  "pruneExpiredSessions d now =
     (d\<lparr>db_sessions := del_where (\<lambda>r. session_expiresAt r < now) (db_sessions d)\<rparr>,
      count_where (\<lambda>r. session_expiresAt r < now) (db_sessions d))"

definition revokeAllForUser :: "db \<Rightarrow> int \<Rightarrow> db" where
  "revokeAllForUser d userId = d\<lparr>db_sessions := del_where (\<lambda>r. session_userId r = userId) (db_sessions d)\<rparr>"

section \<open>First boot\<close>

text \<open>\<open>hashed\<close> is the hash of the configured or of a generated password. The first account has number one.\<close>

definition first_boot :: "db \<Rightarrow> time \<Rightarrow> string \<Rightarrow> string \<Rightarrow> db" where
  "first_boot d now username hashed =
     (let d1 = fst (pruneExpiredSessions d now) in
      if db_users d1 = []
      then d1\<lparr>db_users := [\<lparr>user_id = 1, user_username = username, user_passwordHash = hashed, user_createdAt = now,
             user_mustChangePassword = 1\<rparr>]\<rparr>
      else d1)"

section \<open>Gates\<close>

definition url_path :: "string \<Rightarrow> string" where
  "url_path url = takeWhile (\<lambda>c. c \<noteq> CHR ''?'') url"

definition open_while_forced :: "string \<Rightarrow> bool" where
  "open_while_forced url \<longleftrightarrow> url_path url \<in> {''/api/me'', ''/api/logout'', ''/api/account/password''}"

datatype gate = Refuse401 | Refuse403 | ToLogin | Pass session_user

definition requireUser :: "(string \<Rightarrow> string) \<Rightarrow> db \<Rightarrow> string option \<Rightarrow> string \<Rightarrow> time \<Rightarrow> db \<times> gate" where
  "requireUser digest d cookie url now = (case resolveSession digest d cookie now of
     (d1, None) \<Rightarrow> (d1, Refuse401)
   | (d1, Some user) \<Rightarrow>
       if su_mustChangePassword user \<and> \<not> open_while_forced url then (d1, Refuse403) else (d1, Pass user))"

definition requirePage :: "(string \<Rightarrow> string) \<Rightarrow> db \<Rightarrow> string option \<Rightarrow> time \<Rightarrow> db \<times> gate" where
  "requirePage digest d cookie now = (case resolveSession digest d cookie now of
     (d1, None) \<Rightarrow> (d1, ToLogin)
   | (d1, Some user) \<Rightarrow> (d1, Pass user))"

text \<open>
  The cross-site gate: the cookie it sets (if any) and whether it refuses. A header may be given several times; an absent cookie
  is the empty string.
\<close>

definition csrf_hook :: "string \<Rightarrow> string \<Rightarrow> string \<Rightarrow> string \<Rightarrow> string \<Rightarrow> string list \<Rightarrow> string option \<times> bool" where
  "csrf_hook draw verb url sessionCookie cookieToken headers =
     (if verb \<in> {''GET'', ''HEAD'', ''OPTIONS''} then (None, False)
      else if url_path url = ''/api/login'' \<or> is_prefix ''/api/internal/'' (url_path url) then (None, False)
      else (let reissued = (if sessionCookie \<noteq> [] \<and> cookieToken = [] then Some draw else None);
                headerValue = (case headers of [] \<Rightarrow> None | h # hs \<Rightarrow> Some h)
            in (reissued, cookieToken = [] \<or> headerValue \<noteq> Some cookieToken)))"

section \<open>Handlers\<close>

text \<open>A string field of the body with its length limits; the limits count characters.\<close>

definition body_text :: "json option \<Rightarrow> string \<Rightarrow> nat \<Rightarrow> string option" where
  "body_text body name most = (case body of
     Some (JObj kvs) \<Rightarrow> (case as_string (field body name) of
        Some s \<Rightarrow> if 1 \<le> length s \<and> length s \<le> most then Some s else None
      | None \<Rightarrow> None)
   | _ \<Rightarrow> None)"

definition loginBody :: "json option \<Rightarrow> (string \<times> string) option" where
  "loginBody body = (case (body_text body ''username'' 64, body_text body ''password'' 256) of
     (Some u, Some p) \<Rightarrow> Some (u, p) | _ \<Rightarrow> None)"

definition passwordBody :: "json option \<Rightarrow> (string \<times> string) option" where
  "passwordBody body = (case (body_text body ''currentPassword'' 256, body_text body ''newPassword'' 256) of
     (Some c, Some n) \<Rightarrow> Some (c, n) | _ \<Rightarrow> None)"

text \<open>A malformed stored hash makes the check throw, which reads as a wrong password.\<close>

definition verifyPassword :: "(string \<Rightarrow> string \<Rightarrow> bool option) \<Rightarrow> string \<Rightarrow> string \<Rightarrow> bool" where
  "verifyPassword verify h p = (case verify h p of Some b \<Rightarrow> b | None \<Rightarrow> False)"

record signin =
  si_username :: string
  si_password :: string
  si_found :: user_row

record change =
  ch_user :: session_user
  ch_found :: user_row
  ch_current :: string
  ch_new :: string
  ch_hashing :: bool

record auth =
  au_db :: db
  au_signins :: "signin option list"
  au_changes :: "change option list"

datatype auth_reply =
    Waiting
  | BadRequest
  | Unauthorized
  | InvalidCredentials
  | PasswordTooShort
  | InvalidCurrentPassword
  | ServerError
  | SignedIn string string string bool time
  | PasswordChanged string string time
  | SignedOut
  | Me string bool
  | Gate gate

definition login :: "json option \<Rightarrow> time \<Rightarrow> auth \<Rightarrow> auth \<times> auth_reply" where
  "login body now s = (case loginBody body of
     None \<Rightarrow> (s, BadRequest)
   | Some (username, password) \<Rightarrow>
       (case first_row (\<lambda>u. user_username u = username) (db_users (au_db s)) of
          None \<Rightarrow> (s\<lparr>au_db := recordAudit (au_db s) now username ''login_failed'' ''sign-in failed''\<rparr>, InvalidCredentials)
        | Some found \<Rightarrow>
            (s\<lparr>au_signins := au_signins s @ [Some \<lparr>si_username = username, si_password = password, si_found = found\<rparr>]\<rparr>, Waiting)))"

definition login_verified :: "(string \<Rightarrow> string) \<Rightarrow> (string \<Rightarrow> string \<Rightarrow> bool option) \<Rightarrow> nat \<Rightarrow> signin \<Rightarrow> string \<Rightarrow> string \<Rightarrow> time \<Rightarrow> auth \<Rightarrow> auth \<times> auth_reply" where
  "login_verified digest verify i p token csrf now s0 =
     (let s = s0\<lparr>au_signins := (au_signins s0)[i := None]\<rparr> in
      if \<not> verifyPassword verify (user_passwordHash (si_found p)) (si_password p)
      then (s\<lparr>au_db := recordAudit (au_db s) now (si_username p) ''login_failed'' ''sign-in failed''\<rparr>, InvalidCredentials)
      else (let d1 = recordAudit (au_db s) now (si_username p) ''login_success'' ''signed in'' in
        case issueSession digest d1 (user_id (si_found p)) token now of
          None \<Rightarrow> (s\<lparr>au_db := d1\<rparr>, ServerError)
        | Some (d2, expiresAt) \<Rightarrow>
            (s\<lparr>au_db := d2\<rparr>, SignedIn token csrf (user_username (si_found p)) (user_mustChangePassword (si_found p) = 1) expiresAt)))"

definition logout :: "(string \<Rightarrow> string) \<Rightarrow> string option \<Rightarrow> auth \<Rightarrow> auth \<times> auth_reply" where
  "logout digest cookie s = (s\<lparr>au_db := revokeSession digest (au_db s) cookie\<rparr>, SignedOut)"

definition me :: "(string \<Rightarrow> string) \<Rightarrow> string option \<Rightarrow> time \<Rightarrow> auth \<Rightarrow> auth \<times> auth_reply" where
  "me digest cookie now s = (case resolveSession digest (au_db s) cookie now of
     (d, None) \<Rightarrow> (s\<lparr>au_db := d\<rparr>, Unauthorized)
   | (d, Some user) \<Rightarrow> (s\<lparr>au_db := d\<rparr>, Me (su_username user) (su_mustChangePassword user)))"

definition change_password :: "(string \<Rightarrow> string) \<Rightarrow> string option \<Rightarrow> json option \<Rightarrow> time \<Rightarrow> auth \<Rightarrow> auth \<times> auth_reply" where
  "change_password digest cookie body now s = (case resolveSession digest (au_db s) cookie now of
     (d, None) \<Rightarrow> (s\<lparr>au_db := d\<rparr>, Unauthorized)
   | (d, Some user) \<Rightarrow> (case passwordBody body of
       None \<Rightarrow> (s\<lparr>au_db := d\<rparr>, BadRequest)
     | Some (current, new) \<Rightarrow>
         if length new < 10
         then (s\<lparr>au_db := recordAudit d now (su_username user) ''password_change''
                  ''failed: the new password is shorter than 10 characters''\<rparr>, PasswordTooShort)
         else (case first_row (\<lambda>u. user_id u = su_id user) (db_users d) of
            None \<Rightarrow> (s\<lparr>au_db := d\<rparr>, Unauthorized)
          | Some found \<Rightarrow>
              (s\<lparr>au_db := d, au_changes := au_changes s @
                 [Some \<lparr>ch_user = user, ch_found = found, ch_current = current, ch_new = new, ch_hashing = False\<rparr>]\<rparr>, Waiting))))"

definition change_verified :: "(string \<Rightarrow> string \<Rightarrow> bool option) \<Rightarrow> nat \<Rightarrow> change \<Rightarrow> time \<Rightarrow> auth \<Rightarrow> auth \<times> auth_reply" where
  "change_verified verify i c now s =
     (if \<not> verifyPassword verify (user_passwordHash (ch_found c)) (ch_current c)
      then (s\<lparr>au_changes := (au_changes s)[i := None],
              au_db := recordAudit (au_db s) now (su_username (ch_user c)) ''password_change'' ''failed: the current password is wrong''\<rparr>,
            InvalidCurrentPassword)
      else (s\<lparr>au_changes := (au_changes s)[i := Some (c\<lparr>ch_hashing := True\<rparr>)]\<rparr>, Waiting))"

definition change_hashed :: "(string \<Rightarrow> string) \<Rightarrow> nat \<Rightarrow> change \<Rightarrow> string \<Rightarrow> string \<Rightarrow> string \<Rightarrow> time \<Rightarrow> auth \<Rightarrow> auth \<times> auth_reply" where
  "change_hashed digest i c hashed token csrf now s0 =
     (let s = s0\<lparr>au_changes := (au_changes s0)[i := None]\<rparr>; userId = su_id (ch_user c);
          d1 = (au_db s)\<lparr>db_users := upd_where (\<lambda>u. user_id u = userId)
                 (\<lambda>u. u\<lparr>user_passwordHash := hashed, user_mustChangePassword := 0\<rparr>) (db_users (au_db s))\<rparr>;
          d2 = revokeAllForUser d1 userId
      in case issueSession digest d2 userId token now of
           None \<Rightarrow> (s\<lparr>au_db := d2\<rparr>, ServerError)
         | Some (d3, expiresAt) \<Rightarrow>
             (s\<lparr>au_db := recordAudit d3 now (su_username (ch_user c)) ''password_change'' ''succeeded (other sessions were revoked)''\<rparr>,
              PasswordChanged token csrf expiresAt))"

datatype auth_event =
    Login time "json option"
  | LoginVerified time nat string string
  | Logout "string option"
  | WhoAmI time "string option"
  | ChangePassword time "string option" "json option"
  | ChangeVerified time nat
  | ChangeHashed time nat string string string
  | ApiRequest time "string option" string
  | PageRequest time "string option"

definition waiting :: "'a option list \<Rightarrow> nat \<Rightarrow> 'a option" where
  "waiting xs i = (if i < length xs then xs ! i else None)"

text \<open>An event for a request that does not wait (any more) is no event.\<close>

definition auth_step :: "(string \<Rightarrow> string) \<Rightarrow> (string \<Rightarrow> string \<Rightarrow> bool option) \<Rightarrow> auth \<Rightarrow> auth_event \<Rightarrow> auth \<times> auth_reply" where
  "auth_step digest verify s e = (case e of
     Login now body \<Rightarrow> login body now s
   | LoginVerified now i token csrf \<Rightarrow> (case waiting (au_signins s) i of
        None \<Rightarrow> (s, Waiting) | Some p \<Rightarrow> login_verified digest verify i p token csrf now s)
   | Logout cookie \<Rightarrow> logout digest cookie s
   | WhoAmI now cookie \<Rightarrow> me digest cookie now s
   | ChangePassword now cookie body \<Rightarrow> change_password digest cookie body now s
   | ChangeVerified now i \<Rightarrow> (case waiting (au_changes s) i of
        None \<Rightarrow> (s, Waiting) | Some c \<Rightarrow> if ch_hashing c then (s, Waiting) else change_verified verify i c now s)
   | ChangeHashed now i hashed token csrf \<Rightarrow> (case waiting (au_changes s) i of
        None \<Rightarrow> (s, Waiting) | Some c \<Rightarrow> if ch_hashing c then change_hashed digest i c hashed token csrf now s else (s, Waiting))
   | ApiRequest now cookie url \<Rightarrow> (case requireUser digest (au_db s) cookie url now of (d, g) \<Rightarrow> (s\<lparr>au_db := d\<rparr>, Gate g))
   | PageRequest now cookie \<Rightarrow> (case requirePage digest (au_db s) cookie now of (d, g) \<Rightarrow> (s\<lparr>au_db := d\<rparr>, Gate g)))"

fun auth_run :: "(string \<Rightarrow> string) \<Rightarrow> (string \<Rightarrow> string \<Rightarrow> bool option) \<Rightarrow> auth \<Rightarrow> auth_event list \<Rightarrow> auth \<times> auth_reply list" where
  "auth_run digest verify s [] = (s, [])"
| "auth_run digest verify s (e # es) =
     (case auth_step digest verify s e of (s1, r) \<Rightarrow> case auth_run digest verify s1 es of (s2, rs) \<Rightarrow> (s2, r # rs))"

section \<open>The initial password in the environment file\<close>

definition LF :: char where "LF = CHR 0x0A"
definition CR :: char where "CR = CHR 0x0D"

text \<open>\<^verbatim>\<open>text.split(/\r?\n/)\<close>\<close>

fun split_lines :: "string \<Rightarrow> string list" where
  "split_lines [] = [[]]"
| "split_lines [c] = (if c = LF then [[], []] else [[c]])"
| "split_lines (c # d # cs) =
     (if c = LF then [] # split_lines (d # cs)
      else if c = CR \<and> d = LF then [] # split_lines cs
      else (case split_lines (d # cs) of [] \<Rightarrow> [[c]] | l # ls \<Rightarrow> (c # l) # ls))"

fun join_with :: "string \<Rightarrow> string list \<Rightarrow> string" where
  "join_with sep [] = []"
| "join_with sep [l] = l"
| "join_with sep (l # m # ls) = l @ sep @ join_with sep (m # ls)"

definition INITIAL_PASSWORD :: string where
  "INITIAL_PASSWORD = ''MANAGER_INITIAL_PASSWORD''"

text \<open>The two groups of \<^verbatim>\<open>/^(\s*MANAGER_INITIAL_PASSWORD\s*=)(.*)$/\<close>; the dot matches no line terminator.\<close>

definition password_line :: "string \<Rightarrow> (string \<times> string) option" where
  "password_line line =
     (let lead = takeWhile is_space line; r = dropWhile is_space line in
      if \<not> is_prefix INITIAL_PASSWORD r then None
      else (let r1 = drop (length INITIAL_PASSWORD) r; gap = takeWhile is_space r1 in
        case dropWhile is_space r1 of
          [] \<Rightarrow> None
        | c # v \<Rightarrow> if c = CHR ''='' \<and> CR \<notin> set v \<and> LF \<notin> set v then Some (lead @ INITIAL_PASSWORD @ gap @ ''='', v) else None))"

definition wipe_line :: "string \<Rightarrow> string" where
  "wipe_line line = (case password_line line of None \<Rightarrow> line | Some (key, v) \<Rightarrow> if v = [] then line else key)"

text \<open>The new text of the file, or None when nothing is to be wiped.\<close>

definition clearInitialPassword :: "string \<Rightarrow> string option" where
  "clearInitialPassword text =
     (let lines = split_lines text; touched = list_ex (\<lambda>l. case password_line l of None \<Rightarrow> False | Some (key, v) \<Rightarrow> v \<noteq> []) lines
      in if \<not> touched then None
         else Some (join_with (if str_includes text [CR, LF] then [CR, LF] else [LF]) (map wipe_line lines)))"

section \<open>What a wrong password cannot do\<close>

definition wrong :: "(string \<Rightarrow> string \<Rightarrow> bool option) \<Rightarrow> string list \<Rightarrow> string \<Rightarrow> bool" where
  "wrong verify hs p \<longleftrightarrow> list_all (\<lambda>h. \<not> verifyPassword verify h p) hs"

text \<open>The password that an event presents, if any, fits none of the hashes.\<close>

definition guess_fails :: "(string \<Rightarrow> string \<Rightarrow> bool option) \<Rightarrow> string list \<Rightarrow> auth_event \<Rightarrow> bool" where
  "guess_fails verify hs e = (case e of
     Login now body \<Rightarrow> (case loginBody body of None \<Rightarrow> True | Some (u, p) \<Rightarrow> wrong verify hs p)
   | ChangePassword now cookie body \<Rightarrow> (case passwordBody body of None \<Rightarrow> True | Some (p, n) \<Rightarrow> wrong verify hs p)
   | _ \<Rightarrow> True)"

definition hashes_of :: "int \<Rightarrow> db \<Rightarrow> string list" where
  "hashes_of u d = map user_passwordHash (filter (\<lambda>r. user_id r = u) (db_users d))"

text \<open>
  \<open>locked\<close>: the account has only the given hashes, its sessions are among the given ones, and whatever waits for it will fail.
\<close>

definition locked :: "(string \<Rightarrow> string \<Rightarrow> bool option) \<Rightarrow> int \<Rightarrow> string list \<Rightarrow> string set \<Rightarrow> auth \<Rightarrow> bool" where
  "locked verify u hs S s \<longleftrightarrow>
     (\<forall>r \<in> set (db_users (au_db s)). user_id r = u \<longrightarrow> user_passwordHash r \<in> set hs) \<and>
     (\<forall>r \<in> set (db_sessions (au_db s)). session_userId r = u \<longrightarrow> session_id r \<in> S) \<and>
     (\<forall>p. Some p \<in> set (au_signins s) \<longrightarrow> user_id (si_found p) = u \<longrightarrow>
        user_passwordHash (si_found p) \<in> set hs \<and> wrong verify hs (si_password p)) \<and>
     (\<forall>c. Some c \<in> set (au_changes s) \<longrightarrow> su_id (ch_user c) = u \<longrightarrow>
        \<not> ch_hashing c \<and> user_passwordHash (ch_found c) \<in> set hs \<and> wrong verify hs (ch_current c))"

lemma lockedI:
  assumes "\<And>r. r \<in> set (db_users (au_db s)) \<Longrightarrow> user_id r = u \<Longrightarrow> user_passwordHash r \<in> set hs"
    and "\<And>r. r \<in> set (db_sessions (au_db s)) \<Longrightarrow> session_userId r = u \<Longrightarrow> session_id r \<in> S"
    and "\<And>p. Some p \<in> set (au_signins s) \<Longrightarrow> user_id (si_found p) = u \<Longrightarrow>
        user_passwordHash (si_found p) \<in> set hs \<and> wrong verify hs (si_password p)"
    and "\<And>c. Some c \<in> set (au_changes s) \<Longrightarrow> su_id (ch_user c) = u \<Longrightarrow>
        \<not> ch_hashing c \<and> user_passwordHash (ch_found c) \<in> set hs \<and> wrong verify hs (ch_current c)"
  shows "locked verify u hs S s"
  unfolding locked_def using assms by blast

lemma lockedD:
  assumes "locked verify u hs S s"
  shows "r \<in> set (db_users (au_db s)) \<Longrightarrow> user_id r = u \<Longrightarrow> user_passwordHash r \<in> set hs"
    and "q \<in> set (db_sessions (au_db s)) \<Longrightarrow> session_userId q = u \<Longrightarrow> session_id q \<in> S"
    and "Some p \<in> set (au_signins s) \<Longrightarrow> user_id (si_found p) = u \<Longrightarrow> user_passwordHash (si_found p) \<in> set hs"
    and "Some p \<in> set (au_signins s) \<Longrightarrow> user_id (si_found p) = u \<Longrightarrow> wrong verify hs (si_password p)"
    and "Some c \<in> set (au_changes s) \<Longrightarrow> su_id (ch_user c) = u \<Longrightarrow> \<not> ch_hashing c"
    and "Some c \<in> set (au_changes s) \<Longrightarrow> su_id (ch_user c) = u \<Longrightarrow> user_passwordHash (ch_found c) \<in> set hs"
    and "Some c \<in> set (au_changes s) \<Longrightarrow> su_id (ch_user c) = u \<Longrightarrow> wrong verify hs (ch_current c)"
  using assms unfolding locked_def by blast+

text \<open>Steps that only drop sessions, waiting requests, or write the audit log, keep an account locked.\<close>

lemma locked_fewer:
  assumes "locked verify u hs S s" "db_users (au_db s') = db_users (au_db s)" "set (db_sessions (au_db s')) \<subseteq> set (db_sessions (au_db s))"
    and "\<And>p. Some p \<in> set (au_signins s') \<Longrightarrow> Some p \<in> set (au_signins s)"
    and "\<And>c. Some c \<in> set (au_changes s') \<Longrightarrow> Some c \<in> set (au_changes s)"
  shows "locked verify u hs S s'"
  by (rule lockedI) (use assms(2-5) lockedD [OF assms(1)] in auto)

lemma set_update_None: "Some p \<in> set (xs[i := None]) \<Longrightarrow> Some p \<in> set xs"
  by (auto dest: subsetD [OF set_update_subset_insert])

lemma waiting_mem: "waiting xs i = Some x \<Longrightarrow> Some x \<in> set xs"
  by (auto simp: waiting_def split: if_splits) (metis nth_mem)

lemma recordAudit_rows [simp]:
  "db_users (recordAudit d now a k x) = db_users d" "db_sessions (recordAudit d now a k x) = db_sessions d"
  by (simp_all add: recordAudit_def)

lemma resolve_rows:
  assumes "resolveSession digest d token now = (d', r)"
  shows "db_users d' = db_users d" "set (db_sessions d') \<subseteq> set (db_sessions d)"
  using assms by (auto simp: resolveSession_def split: option.splits if_splits)

lemma resolve_Some:
  assumes "resolveSession digest d token now = (d', Some user)"
  shows "\<exists>q \<in> set (db_sessions d). session_userId q = su_id user" "d' = d"
  using assms by (auto simp: resolveSession_def dest!: first_row_Some split: option.splits if_splits)

lemma issue_Some:
  assumes "issueSession digest d u token now = Some (d', e)"
  shows "d' = d\<lparr>db_sessions := db_sessions d @
      [\<lparr>session_id = digest token, session_userId = u, session_expiresAt = now + TTL_MS, session_createdAt = now\<rparr>]\<rparr>" "e = now + TTL_MS"
  using assms by (auto simp: issueSession_def Let_def split: if_splits)

lemma locked_signin_refused:
  "locked verify u hs S s \<Longrightarrow> Some p \<in> set (au_signins s) \<Longrightarrow>
   verifyPassword verify (user_passwordHash (si_found p)) (si_password p) \<Longrightarrow> user_id (si_found p) \<noteq> u"
  using lockedD(3,4) [of verify u hs S s p] by (auto simp: wrong_def list_all_iff)

lemma locked_change_refused:
  "locked verify u hs S s \<Longrightarrow> Some c \<in> set (au_changes s) \<Longrightarrow>
   verifyPassword verify (user_passwordHash (ch_found c)) (ch_current c) \<Longrightarrow> su_id (ch_user c) \<noteq> u"
  using lockedD(6,7) [of verify u hs S s c] by (auto simp: wrong_def list_all_iff)

lemma locked_login:
  assumes "locked verify u hs S s" "guess_fails verify hs (Login now body)"
  shows "locked verify u hs S (fst (login body now s))"
proof (cases "loginBody body")
  case (Some up)
  obtain n p where up: "up = (n, p)" by (cases up)
  with Some assms(2) have w: "wrong verify hs p" by (simp add: guess_fails_def)
  show ?thesis
  proof (cases "first_row (\<lambda>u. user_username u = n) (db_users (au_db s))")
    case None
    then show ?thesis using assms(1) by (simp add: login_def Some up) (rule locked_fewer, simp_all)
  next
    case (Some found)
    then have "found \<in> set (db_users (au_db s))" by (simp add: first_row_Some)
    with w \<open>loginBody body = Some up\<close> Some show ?thesis
      by (simp add: login_def up) (rule lockedI, use lockedD [OF assms(1)] in auto)
  qed
qed (use assms in \<open>simp add: login_def\<close>)

lemma locked_login_verified:
  assumes "locked verify u hs S s" "Some p \<in> set (au_signins s)"
  shows "locked verify u hs S (fst (login_verified digest verify i p token csrf now s))"
proof (cases "verifyPassword verify (user_passwordHash (si_found p)) (si_password p)")
  case False
  then show ?thesis
    by (simp add: login_verified_def) (rule locked_fewer [OF assms(1)], simp_all add: set_update_None)
next
  case True
  have o: "user_id (si_found p) \<noteq> u"
    by (rule locked_signin_refused [OF assms True])
  show ?thesis
  proof (cases "issueSession digest (recordAudit (au_db s) now (si_username p) ''login_success'' ''signed in'') (user_id (si_found p)) token now")
    case None
    with True show ?thesis
      by (simp add: login_verified_def) (rule locked_fewer [OF assms(1)], simp_all add: set_update_None)
  next
    case (Some dx)
    obtain d x where dx: "dx = (d, x)" by (cases dx)
    from issue_Some(1) [OF Some [unfolded dx]] True Some o show ?thesis
      by (simp add: login_verified_def dx)
        (rule lockedI, use lockedD [OF assms(1)] in \<open>auto dest!: set_update_None\<close>)
  qed
qed

lemma locked_change_password:
  assumes "locked verify u hs S s" "guess_fails verify hs (ChangePassword now cookie body)"
  shows "locked verify u hs S (fst (change_password digest cookie body now s))"
proof -
  obtain d r where dr: "resolveSession digest (au_db s) cookie now = (d, r)" by (cases "resolveSession digest (au_db s) cookie now")
  note rows = resolve_rows [OF dr]
  have keep: "locked verify u hs S (s\<lparr>au_db := d'\<rparr>)" if "db_users d' = db_users d" "db_sessions d' = db_sessions d" for d'
    by (rule locked_fewer [OF assms(1)]) (use rows that in simp_all)
  show ?thesis
  proof (cases r)
    case None
    then show ?thesis by (simp add: change_password_def dr keep)
  next
    case (Some user)
    show ?thesis
    proof (cases "passwordBody body")
      case None
      then show ?thesis by (simp add: change_password_def dr Some keep)
    next
      case (Some cn)
      obtain p n where cn: "cn = (p, n)" by (cases cn)
      have w: "wrong verify hs p" using assms(2) Some cn by (simp add: guess_fails_def)
      show ?thesis
      proof (cases "length n < 10 \<or> first_row (\<lambda>u. user_id u = su_id user) (db_users d) = None")
        case True
        then show ?thesis by (auto simp: change_password_def dr \<open>r = Some user\<close> Some cn keep)
      next
        case False
        then obtain found where f: "first_row (\<lambda>u. user_id u = su_id user) (db_users d) = Some found" by auto
        from first_row_Some [OF f] have "found \<in> set (db_users (au_db s))" "user_id found = su_id user" by (simp_all add: rows)
        with False f w show ?thesis
          by (simp add: change_password_def dr \<open>r = Some user\<close> Some cn)
            (rule lockedI, use lockedD [OF assms(1)] rows in auto)
      qed
    qed
  qed
qed

lemma locked_change_verified:
  assumes "locked verify u hs S s" "Some c \<in> set (au_changes s)"
  shows "locked verify u hs S (fst (change_verified verify i c now s))"
proof (cases "verifyPassword verify (user_passwordHash (ch_found c)) (ch_current c)")
  case False
  then show ?thesis
    by (simp add: change_verified_def) (rule locked_fewer [OF assms(1)], simp_all add: set_update_None)
next
  case True
  from locked_change_refused [OF assms True] True show ?thesis
    by (simp add: change_verified_def)
      (rule lockedI, use lockedD [OF assms(1)] in \<open>auto dest!: subsetD [OF set_update_subset_insert]\<close>)
qed

lemma locked_change_hashed:
  assumes "locked verify u hs S s" "Some c \<in> set (au_changes s)" "ch_hashing c"
  shows "locked verify u hs S (fst (change_hashed digest i c hashed token csrf now s))"
proof -
  have o: "su_id (ch_user c) \<noteq> u"
    using lockedD(5) [OF assms(1,2)] assms(3) by blast
  define d2 where "d2 = revokeAllForUser ((au_db s)\<lparr>db_users := upd_where (\<lambda>u. user_id u = su_id (ch_user c))
    (\<lambda>u. u\<lparr>user_passwordHash := hashed, user_mustChangePassword := 0\<rparr>) (db_users (au_db s))\<rparr>) (su_id (ch_user c))"
  have users: "r \<in> set (db_users (au_db s))" if "r \<in> set (db_users d2)" "user_id r = u" for r
    using that o by (auto simp: d2_def revokeAllForUser_def set_upd_where split: if_splits)
  have sess: "set (db_sessions d2) \<subseteq> set (db_sessions (au_db s))"
    by (auto simp: d2_def revokeAllForUser_def)
  show ?thesis
  proof (cases "issueSession digest d2 (su_id (ch_user c)) token now")
    case None
    then show ?thesis
      by (simp add: change_hashed_def Let_def d2_def [symmetric])
        (rule lockedI, use lockedD [OF assms(1)] users sess in \<open>auto dest!: set_update_None\<close>)
  next
    case (Some dx)
    obtain d x where dx: "dx = (d, x)" by (cases dx)
    from issue_Some(1) [OF Some [unfolded dx]] Some o show ?thesis
      by (simp add: change_hashed_def Let_def d2_def [symmetric] dx)
        (rule lockedI, use lockedD [OF assms(1)] users sess in \<open>auto dest!: set_update_None\<close>)
  qed
qed

lemma locked_resolve:
  assumes "locked verify u hs S s" "resolveSession digest (au_db s) cookie now = (d, r)"
  shows "locked verify u hs S (s\<lparr>au_db := d\<rparr>)"
  by (rule locked_fewer [OF assms(1)]) (use resolve_rows [OF assms(2)] in simp_all)

lemma locked_step:
  assumes "locked verify u hs S s" "guess_fails verify hs e"
  shows "locked verify u hs S (fst (auth_step digest verify s e))"
proof (cases e)
  case (Login now body)
  then show ?thesis using locked_login assms by (simp add: auth_step_def)
next
  case (LoginVerified now i token csrf)
  then show ?thesis using locked_login_verified [OF assms(1) waiting_mem] assms(1) by (simp add: auth_step_def split: option.split)
next
  case (Logout cookie)
  have "locked verify u hs S (s\<lparr>au_db := revokeSession digest (au_db s) cookie\<rparr>)"
    by (rule locked_fewer [OF assms(1)]) (auto simp: revokeSession_def split: option.splits if_splits)
  then show ?thesis using Logout by (simp add: auth_step_def logout_def)
next
  case (WhoAmI now cookie)
  then show ?thesis using locked_resolve [OF assms(1)] by (simp add: auth_step_def me_def split: prod.split option.split)
next
  case (ChangePassword now cookie body)
  then show ?thesis using locked_change_password assms by (simp add: auth_step_def)
next
  case (ChangeVerified now i)
  then show ?thesis using locked_change_verified [OF assms(1) waiting_mem] assms(1) by (simp add: auth_step_def split: option.split)
next
  case (ChangeHashed now i hashed token csrf)
  then show ?thesis using locked_change_hashed [OF assms(1) waiting_mem] assms(1) by (simp add: auth_step_def split: option.split)
next
  case (ApiRequest now cookie url)
  then show ?thesis using locked_resolve [OF assms(1)] by (simp add: auth_step_def requireUser_def split: prod.split option.split)
next
  case (PageRequest now cookie)
  then show ?thesis using locked_resolve [OF assms(1)] by (simp add: auth_step_def requirePage_def split: prod.split option.split)
qed

lemma auth_run_fst: "fst (auth_run digest verify s (e # es)) = fst (auth_run digest verify (fst (auth_step digest verify s e)) es)"
  by (simp split: prod.split)

lemma locked_run:
  "locked verify u hs S s \<Longrightarrow> list_all (guess_fails verify hs) es \<Longrightarrow> locked verify u hs S (fst (auth_run digest verify s es))"
  by (induction es arbitrary: s) (simp_all add: auth_run_fst locked_step del: auth_run.simps(2))

text \<open>
  Claim C22. Nobody obtains a session of an account without its password. Take any state in which the account has no session and no
  request waits. Whatever is sent then, in any order and however the password checks are delayed and interleaved (sign-ins, password
  changes of this and other accounts, sign-outs, requests), as long as no password sent fits a hash of the account, the account
  still has no session at the end.
\<close>

theorem no_session_without_password:
  assumes "list_all (\<lambda>q. session_userId q \<noteq> u) (db_sessions (au_db s))" "au_signins s = []" "au_changes s = []"
    and "list_all (guess_fails verify (hashes_of u (au_db s))) es"
  shows "list_all (\<lambda>q. session_userId q \<noteq> u) (db_sessions (au_db (fst (auth_run digest verify s es))))"
proof -
  have "locked verify u (hashes_of u (au_db s)) {} s"
    by (rule lockedI) (use assms(1-3) in \<open>auto simp: hashes_of_def list_all_iff\<close>)
  from locked_run [OF this assms(4)] show ?thesis
    by (auto simp: list_all_iff dest: lockedD(2))
qed

definition sample_auth :: auth where
  "sample_auth = \<lparr>au_db = first_boot empty_db 0 ''admin'' ''secret'', au_signins = [], au_changes = []\<rparr>"

definition sample_body :: "string \<Rightarrow> string \<Rightarrow> json option" where
  "sample_body u p = Some (JObj [(''username'', JStr u), (''password'', JStr p)])"

definition sample_verify :: "string \<Rightarrow> string \<Rightarrow> bool option" where
  "sample_verify h p = Some (h = p)"

lemma no_session_without_password_witness:
  "list_all (\<lambda>q. session_userId q \<noteq> 1) (db_sessions (au_db (fst (auth_run (\<lambda>t. t) sample_verify sample_auth
     [Login 1 (sample_body ''admin'' ''guess''), LoginVerified 2 0 ''t'' ''c'']))))"
  by (rule no_session_without_password) code_simp+

text \<open>
  Claim C23. A password change ends every other session for good. When it completes and no other sign-in or change of the account is
  under way, then from that moment on, whatever happens, the only session the account can have is the one the change itself issued,
  as long as nobody presents the new password: a stolen cookie and the old password are worth nothing any more.
\<close>

theorem password_change_locks_out:
  assumes "waiting (au_changes s) i = Some c" "ch_hashing c"
    and "\<And>p. Some p \<in> set (au_signins s) \<Longrightarrow> user_id (si_found p) \<noteq> su_id (ch_user c)"
    and "\<And>c'. Some c' \<in> set ((au_changes s)[i := None]) \<Longrightarrow> su_id (ch_user c') \<noteq> su_id (ch_user c)"
    and "list_all (guess_fails verify [hashed]) es"
  shows "list_all (\<lambda>q. session_userId q = su_id (ch_user c) \<longrightarrow> session_id q = digest token)
    (db_sessions (au_db (fst (auth_run digest verify s (ChangeHashed now i hashed token csrf # es)))))"
proof -
  let ?s1 = "fst (change_hashed digest i c hashed token csrf now s)"
  define d2 where "d2 = revokeAllForUser ((au_db s)\<lparr>db_users := upd_where (\<lambda>u. user_id u = su_id (ch_user c))
    (\<lambda>u. u\<lparr>user_passwordHash := hashed, user_mustChangePassword := 0\<rparr>) (db_users (au_db s))\<rparr>) (su_id (ch_user c))"
  have users: "user_passwordHash r = hashed" if "r \<in> set (db_users d2)" "user_id r = su_id (ch_user c)" for r
    using that by (auto simp: d2_def revokeAllForUser_def set_upd_where split: if_splits)
  have sess: "session_userId q \<noteq> su_id (ch_user c)" if "q \<in> set (db_sessions d2)" for q
    using that by (auto simp: d2_def revokeAllForUser_def)
  have "locked verify (su_id (ch_user c)) [hashed] {digest token} ?s1"
  proof (cases "issueSession digest d2 (su_id (ch_user c)) token now")
    case None
    then show ?thesis
      by (simp add: change_hashed_def Let_def d2_def [symmetric]) (rule lockedI, use users sess assms(3,4) in auto)
  next
    case (Some dx)
    obtain d x where dx: "dx = (d, x)" by (cases dx)
    from issue_Some(1) [OF Some [unfolded dx]] Some show ?thesis
      by (simp add: change_hashed_def Let_def d2_def [symmetric] dx) (rule lockedI, use users sess assms(3,4) in auto)
  qed
  from locked_run [OF this assms(5)]
  have "locked verify (su_id (ch_user c)) [hashed] {digest token} (fst (auth_run digest verify ?s1 es))" .
  moreover have "auth_step digest verify s (ChangeHashed now i hashed token csrf) = change_hashed digest i c hashed token csrf now s"
    using assms(1,2) by (simp add: auth_step_def)
  ultimately show ?thesis
    by (auto simp: auth_run_fst list_all_iff simp del: auth_run.simps(2) dest: lockedD(2))
qed

definition sample_session :: "int \<Rightarrow> string \<Rightarrow> session_row" where
  "sample_session u i = \<lparr>session_id = i, session_userId = u, session_expiresAt = 1000, session_createdAt = 0\<rparr>"

definition sample_user :: user_row where
  "sample_user = \<lparr>user_id = 1, user_username = ''admin'', user_passwordHash = ''secret'', user_createdAt = 0, user_mustChangePassword = 1\<rparr>"

definition sample_change :: change where
  "sample_change = \<lparr>ch_user = \<lparr>su_id = 1, su_username = ''admin'', su_mustChangePassword = True\<rparr>, ch_found = sample_user,
     ch_current = ''secret'', ch_new = ''long enough'', ch_hashing = True\<rparr>"

definition sample_changing :: "signin option list \<Rightarrow> auth" where
  "sample_changing ps = \<lparr>au_db = empty_db\<lparr>db_users := [sample_user], db_sessions := [sample_session 1 ''stolen'', sample_session 1 ''mine'']\<rparr>,
     au_signins = ps, au_changes = [Some sample_change]\<rparr>"

lemma password_change_locks_out_witness:
  "list_all (\<lambda>q. session_userId q = su_id (ch_user sample_change) \<longrightarrow> session_id q = (\<lambda>t. t) ''new'')
     (db_sessions (au_db (fst (auth_run (\<lambda>t. t) sample_verify (sample_changing [])
        (ChangeHashed 5 0 ''long enough'' ''new'' ''c'' # [Login 6 (sample_body ''admin'' ''secret''), LoginVerified 7 0 ''again'' ''c''])))))"
proof (rule password_change_locks_out)
  show "waiting (au_changes (sample_changing [])) 0 = Some sample_change" by code_simp
  show "ch_hashing sample_change" by code_simp
  show "list_all (guess_fails sample_verify [''long enough'']) [Login 6 (sample_body ''admin'' ''secret''), LoginVerified 7 0 ''again'' ''c'']"
    by code_simp
qed (simp_all add: sample_changing_def)

text \<open>
  The premise about sign-ins under way is needed: a sign-in with the old password whose check is still running when the
  change completes gets its session afterwards, and that session resolves although the old password no longer opens the account and
  every session was revoked.
\<close>

theorem signin_survives_password_change:
  assumes "waiting (au_changes s) i = Some c" "ch_hashing c" "waiting (au_signins s) j = Some p"
    and "user_id (si_found p) = su_id (ch_user c)" "si_found p \<in> set (db_users (au_db s))"
    and "verifyPassword verify (user_passwordHash (si_found p)) (si_password p)"
    and "digest token \<noteq> digest token2" "digest token2 \<notin> session_id ` set (db_sessions (au_db s))" "token2 \<noteq> []"
    and "now2 \<le> now3" "now3 < now2 + TTL_MS"
  shows "map_option su_id (snd (resolveSession digest (au_db (fst (auth_run digest verify s
      [ChangeHashed now i hashed token csrf, LoginVerified now2 j token2 csrf2]))) (Some token2) now3)) = Some (su_id (ch_user c))"
proof -
  let ?u = "su_id (ch_user c)"
  let ?s1 = "fst (change_hashed digest i c hashed token csrf now s)"
  have s1: "fst (auth_step digest verify s (ChangeHashed now i hashed token csrf)) = ?s1"
    using assms(1,2) by (simp add: auth_step_def)
  define d2 where "d2 = revokeAllForUser ((au_db s)\<lparr>db_users := upd_where (\<lambda>u. user_id u = ?u)
    (\<lambda>u. u\<lparr>user_passwordHash := hashed, user_mustChangePassword := 0\<rparr>) (db_users (au_db s))\<rparr>) ?u"
  have ids: "user_id ` set (db_users d2) = user_id ` set (db_users (au_db s))"
    by (simp add: d2_def revokeAllForUser_def image_upd_where)
  have "db_users (au_db ?s1) = db_users d2 \<and> au_signins ?s1 = au_signins s \<and> digest token2 \<notin> session_id ` set (db_sessions (au_db ?s1))"
  proof (cases "issueSession digest d2 ?u token now")
    case None
    then show ?thesis
      using assms(8) by (auto simp: change_hashed_def Let_def d2_def [symmetric]) (auto simp: d2_def revokeAllForUser_def)
  next
    case (Some dx)
    obtain d x where dx: "dx = (d, x)" by (cases dx)
    from issue_Some(1) [OF Some [unfolded dx]] Some show ?thesis
      using assms(7,8) by (auto simp: change_hashed_def Let_def d2_def [symmetric] dx) (auto simp: d2_def revokeAllForUser_def)
  qed
  then have users: "db_users (au_db ?s1) = db_users d2" and sg: "au_signins ?s1 = au_signins s"
    and new: "digest token2 \<notin> session_id ` set (db_sessions (au_db ?s1))"
    by simp_all
  have u: "?u \<in> user_id ` set (db_users d2)"
    using imageI [OF assms(5), of user_id] by (simp add: ids assms(4))
  obtain v where v: "first_row (\<lambda>r. user_id r = ?u) (db_users d2) = Some v"
    using u by (cases "first_row (\<lambda>r. user_id r = ?u) (db_users d2)") (auto simp: first_row_None)
  define row where "row = \<lparr>session_id = digest token2, session_userId = ?u, session_expiresAt = now2 + TTL_MS, session_createdAt = now2\<rparr>"
  let ?s2 = "fst (auth_step digest verify ?s1 (LoginVerified now2 j token2 csrf2))"
  have s2: "db_sessions (au_db ?s2) = db_sessions (au_db ?s1) @ [row]" "db_users (au_db ?s2) = db_users d2"
    using assms(3,4,6) new u users
    by (simp_all add: auth_step_def sg login_verified_def issueSession_def Let_def row_def)
  have "first_row (\<lambda>r. session_id r = digest token2 \<and> joined_user (au_db ?s2) r \<noteq> None) (db_sessions (au_db ?s2)) = Some row"
  proof -
    have "first_row (\<lambda>r. session_id r = digest token2 \<and> joined_user (au_db ?s2) r \<noteq> None) (db_sessions (au_db ?s1)) = None"
      unfolding first_row_None using new by (metis imageI)
    then show ?thesis
      by (simp add: s2 first_row_append) (use v in \<open>simp add: first_row_def row_def joined_user_def s2\<close>)
  qed
  moreover have "joined_user (au_db ?s2) row = Some v"
    by (simp add: joined_user_def s2 v row_def)
  ultimately have "map_option su_id (snd (resolveSession digest (au_db ?s2) (Some token2) now3)) = Some ?u"
    using assms(9,11) by (simp add: resolveSession_def) (simp add: row_def)
  then show ?thesis
    by (simp add: auth_run_fst s1 del: auth_run.simps(2))
qed

definition sample_signin :: signin where
  "sample_signin = \<lparr>si_username = ''admin'', si_password = ''secret'', si_found = sample_user\<rparr>"

lemma signin_survives_password_change_witness:
  "map_option su_id (snd (resolveSession (\<lambda>t. t) (au_db (fst (auth_run (\<lambda>t. t) sample_verify (sample_changing [Some sample_signin])
      [ChangeHashed 5 0 ''long enough'' ''new'' ''c'', LoginVerified 6 0 ''thief'' ''c'']))) (Some ''thief'') 7)) = Some (su_id (ch_user sample_change))"
  by (rule signin_survives_password_change [where p = sample_signin]) code_simp+

text \<open>
  For a well-formed body the answer to a sign-in tells whether the account exists: an unknown name is refused on the spot,
  a known one makes the request wait for the password check, whatever the password.
\<close>

theorem signin_reveals_accounts:
  assumes "loginBody body = Some (username, password)"
  shows "snd (auth_step digest verify s (Login now body)) =
    (if username \<in> user_username ` set (db_users (au_db s)) then Waiting else InvalidCredentials)"
proof (cases "first_row (\<lambda>u. user_username u = username) (db_users (au_db s))")
  case None
  then have "username \<notin> user_username ` set (db_users (au_db s))"
    by (auto simp: first_row_None)
  with None show ?thesis
    using assms by (simp add: auth_step_def login_def)
next
  case (Some found)
  then show ?thesis
    using assms first_row_Some [OF Some] by (auto simp: auth_step_def login_def)
qed

lemma signin_reveals_accounts_witness:
  "snd (auth_step (\<lambda>t. t) sample_verify sample_auth (Login 1 (sample_body ''nobody'' ''p''))) = InvalidCredentials"
proof -
  have "loginBody (sample_body ''nobody'' ''p'') = Some (''nobody'', ''p'')" by code_simp
  from signin_reveals_accounts [OF this, of "\<lambda>t. t" sample_verify sample_auth 1]
  show ?thesis by (simp add: sample_auth_def first_boot_def pruneExpiredSessions_def empty_db_def)
qed

text \<open>
  The cross-site gate repairs itself in one round: a request that changes something and carries a session but no token
  cookie is refused and given a token cookie; sent again with that cookie and the same value in the header it passes, whereas with
  another value, or none, in the header it does not.
\<close>

theorem csrf_repaired_by_retry:
  assumes "csrf_hook draw verb url sessionCookie [] headers = (set_cookie, refused)" "refused" "sessionCookie \<noteq> []" "draw \<noteq> []"
  shows "set_cookie = Some draw \<and> csrf_hook draw2 verb url sessionCookie draw [h] = (None, h \<noteq> draw) \<and>
    csrf_hook draw2 verb url sessionCookie draw [] = (None, True)"
  using assms by (auto simp: csrf_hook_def Let_def split: if_splits)

lemma csrf_repaired_by_retry_witness:
  "csrf_hook ''d2'' ''POST'' ''/api/chats?x=1'' ''sid'' ''token'' [''token''] = (None, False)"
proof -
  have "csrf_hook ''token'' ''POST'' ''/api/chats?x=1'' ''sid'' [] [] = (Some ''token'', True)" by code_simp
  from csrf_repaired_by_retry [OF this, of "''d2''" "''token''"] show ?thesis by simp
qed

section \<open>Wiping the initial password\<close>

lemma CR_LF [simp]: "CR \<noteq> LF" "LF \<noteq> CR"
  by (simp_all add: LF_def CR_def)

lemma split_LF [simp]: "split_lines (LF # t) = [] # split_lines t"
  by (cases t) simp_all

lemma split_lines_not_Nil [simp]: "split_lines t \<noteq> []"
  by (induction t rule: split_lines.induct) (auto split: list.splits)

lemma split_line_no_LF: "l \<in> set (split_lines t) \<Longrightarrow> LF \<notin> set l"
proof (induction t arbitrary: l rule: split_lines.induct)
  case (3 c d cs)
  then show ?case by (auto split: if_splits list.splits)
qed (auto split: if_splits)

text \<open>A text without LF splits into itself; a text whose first line is known splits there.\<close>

lemma split_single: "LF \<notin> set l \<Longrightarrow> split_lines l = [l]"
  by (induction l rule: split_lines.induct) (auto simp: LF_def CR_def)

lemma split_first_CRLF: "LF \<notin> set l \<Longrightarrow> split_lines (l @ CR # LF # t) = l # split_lines t"
proof (induction l)
  case (Cons c l)
  then have "split_lines (l @ CR # LF # t) = l # split_lines t" by simp
  with Cons.prems show ?case
    by (cases l) (auto simp: LF_def CR_def)
qed (simp add: LF_def CR_def)

lemma split_first_LF: "LF \<notin> set l \<Longrightarrow> l = [] \<or> last l \<noteq> CR \<Longrightarrow> split_lines (l @ LF # t) = l # split_lines t"
proof (induction l)
  case Nil
  then show ?case by (cases t) simp_all
next
  case (Cons c l)
  then have "split_lines (l @ LF # t) = l # split_lines t" by (auto split: if_splits)
  with Cons.prems show ?case
    by (cases l) (auto simp: LF_def CR_def)
qed

definition line_ok :: "string \<Rightarrow> string \<Rightarrow> bool" where
  "line_ok sep l \<longleftrightarrow> LF \<notin> set l \<and> (sep = [LF] \<longrightarrow> l = [] \<or> last l \<noteq> CR)"

lemma split_join:
  assumes "sep = [LF] \<or> sep = [CR, LF]" "ls \<noteq> []" "list_all (line_ok sep) (butlast ls)" "LF \<notin> set (last ls)"
  shows "split_lines (join_with sep ls) = ls"
  using assms
proof (induction sep ls rule: join_with.induct)
  case (2 sep l)
  then show ?case by (simp add: split_single)
next
  case (3 sep l m ls)
  then have "split_lines (join_with sep (m # ls)) = m # ls" by simp
  with 3(2-) show ?case
    by (auto simp: line_ok_def split_first_LF split_first_CRLF)
qed simp

text \<open>Only the last line of a text without CR LF may end in CR.\<close>

lemma split_CR:
  "\<not> str_includes t [CR, LF] \<Longrightarrow> list_all (line_ok [LF]) (butlast (split_lines t))"
proof (induction t rule: split_lines.induct)
  case (2 c)
  then show ?case by (simp add: line_ok_def)
next
  case (3 c d cs)
  have no: "\<not> (c = CR \<and> d = LF)" "\<not> str_includes (d # cs) [CR, LF]"
    using "3.prems" by auto
  show ?case
  proof (cases "c = LF")
    case True
    with "3.IH"(1) no show ?thesis by (simp add: line_ok_def)
  next
    case False
    then have IH: "list_all (line_ok [LF]) (butlast (split_lines (d # cs)))" using "3.IH"(3) no by simp
    obtain l ls where ls: "split_lines (d # cs) = l # ls"
      by (cases "split_lines (d # cs)") auto
    have "l = [] \<Longrightarrow> ls \<noteq> [] \<Longrightarrow> c \<noteq> CR"
      using ls no by (cases cs) (auto split: if_splits list.splits)
    then have "line_ok [LF] (c # l)" if "ls \<noteq> []"
      using IH False ls that by (auto simp: line_ok_def)
    with IH False no(1) ls show ?thesis
      by (cases "ls = []") auto
  qed
qed simp

lemma takeWhile_append_stop: "(\<forall>x \<in> set xs. P x) \<Longrightarrow> \<not> P y \<Longrightarrow> takeWhile P (xs @ y # ys) = xs \<and> dropWhile P (xs @ y # ys) = y # ys"
  by (induction xs) simp_all

lemma key_no_space: "\<not> is_space CHR ''M''" "\<not> is_space CHR ''=''"
  by (simp_all add: is_space_def)

text \<open>What a matched line looks like; the first group alone matches again, with nothing behind it.\<close>

lemma password_line_Some:
  assumes "password_line line = Some (key, v)"
  shows "line = key @ v \<and> CR \<notin> set v \<and> LF \<notin> set v \<and> key \<noteq> [] \<and> last key = CHR ''='' \<and> password_line key = Some (key, [])"
proof -
  define lead where "lead = takeWhile is_space line"
  define r where "r = dropWhile is_space line"
  define r1 where "r1 = drop (length INITIAL_PASSWORD) r"
  define gap where "gap = takeWhile is_space r1"
  have eq: "password_line line = (if \<not> is_prefix INITIAL_PASSWORD r then None else (case dropWhile is_space r1 of [] \<Rightarrow> None
      | c # w \<Rightarrow> if c = CHR ''='' \<and> CR \<notin> set w \<and> LF \<notin> set w then Some (lead @ INITIAL_PASSWORD @ gap @ ''='', w) else None))"
    by (simp only: password_line_def Let_def lead_def r_def r1_def gap_def)
  then have pre: "is_prefix INITIAL_PASSWORD r"
    using assms by (cases "is_prefix INITIAL_PASSWORD r") simp_all
  obtain c w where cw: "dropWhile is_space r1 = c # w"
    using eq assms pre by (cases "dropWhile is_space r1") simp_all
  have "c = CHR ''='' \<and> CR \<notin> set w \<and> LF \<notin> set w"
    using eq assms pre unfolding cw by (simp split: if_split_asm)
  with eq assms pre cw have d: "dropWhile is_space r1 = CHR ''='' # v" and v: "CR \<notin> set v" "LF \<notin> set v"
    and key: "key = lead @ INITIAL_PASSWORD @ gap @ ''=''"
    by simp_all
  have "r = INITIAL_PASSWORD @ r1"
    using pre by (auto simp: is_prefix_iff r1_def)
  moreover have "r1 = gap @ CHR ''='' # v"
    unfolding gap_def d [symmetric] by simp
  moreover have "line = lead @ r"
    by (simp add: lead_def r_def)
  ultimately have line: "line = key @ v"
    by (simp add: key)
  have lead: "\<forall>x \<in> set lead. is_space x" and gap: "\<forall>x \<in> set gap. is_space x"
    by (auto simp: lead_def gap_def dest: set_takeWhileD)
  obtain k where k: "INITIAL_PASSWORD = CHR ''M'' # k"
    by (simp add: INITIAL_PASSWORD_def)
  have "takeWhile is_space key = lead" "dropWhile is_space key = INITIAL_PASSWORD @ gap @ ''=''"
    unfolding key k using takeWhile_append_stop [OF lead key_no_space(1), of "k @ gap @ ''=''"] by simp_all
  moreover have "takeWhile is_space (gap @ ''='') = gap" "dropWhile is_space (gap @ ''='') = ''=''"
    using takeWhile_append_stop [OF gap key_no_space(2), of "[]"] by simp_all
  ultimately have "password_line key = Some (key, [])"
    by (simp add: password_line_def Let_def) (simp add: key)
  with line v show ?thesis
    by (simp add: key)
qed

lemma wipe_line_ok: "line_ok sep l \<Longrightarrow> line_ok sep (wipe_line l)" "LF \<notin> set l \<Longrightarrow> LF \<notin> set (wipe_line l)"
proof -
  have "wipe_line l = l \<or> (\<exists>v. l = wipe_line l @ v \<and> last (wipe_line l) = CHR ''='')"
    using password_line_Some by (fastforce simp: wipe_line_def split: option.split)
  then show "line_ok sep l \<Longrightarrow> line_ok sep (wipe_line l)" "LF \<notin> set l \<Longrightarrow> LF \<notin> set (wipe_line l)"
    by (auto simp: line_ok_def CR_def) (metis UnI1 set_append)+
qed

lemma wiped_line_done: "case password_line (wipe_line l) of None \<Rightarrow> True | Some (key, v) \<Rightarrow> v = []"
proof (cases "password_line l")
  case (Some kv)
  obtain key v where kv: "kv = (key, v)" by (cases kv)
  with Some password_line_Some [of l key v] show ?thesis
    by (cases "v = []") (simp_all add: wipe_line_def)
qed (simp add: wipe_line_def)

text \<open>
  After a password change the environment file keeps every line but the one with the initial password, whose value alone
  is emptied: read back line by line, the new text is the old one with the values wiped, whether its lines end in LF or in CR LF,
  and wiping it again finds nothing to do.
\<close>

theorem initial_password_wiped:
  assumes "clearInitialPassword text = Some text2"
  shows "split_lines text2 = map wipe_line (split_lines text) \<and> clearInitialPassword text2 = None"
proof -
  define sep where "sep = (if str_includes text [CR, LF] then [CR, LF] else [LF])"
  have t2: "text2 = join_with sep (map wipe_line (split_lines text))"
    using assms by (simp add: clearInitialPassword_def Let_def sep_def split: if_splits)
  have "list_all (line_ok sep) (butlast (split_lines text))"
  proof (cases "str_includes text [CR, LF]")
    case True
    then show ?thesis
      by (auto simp: sep_def list_all_iff line_ok_def dest: in_set_butlastD split_line_no_LF)
  qed (simp add: sep_def split_CR)
  then have "list_all (line_ok sep) (butlast (map wipe_line (split_lines text)))"
    by (simp add: map_butlast [symmetric] list_all_iff wipe_line_ok)
  moreover have "LF \<notin> set (last (map wipe_line (split_lines text)))"
    by (simp add: last_map wipe_line_ok split_line_no_LF [OF last_in_set])
  ultimately have s2: "split_lines text2 = map wipe_line (split_lines text)"
    unfolding t2 by (intro split_join) (simp_all add: sep_def)
  have "\<not> list_ex (\<lambda>l. case password_line l of None \<Rightarrow> False | Some (key, v) \<Rightarrow> v \<noteq> []) (map wipe_line (split_lines text))"
    using wiped_line_done by (auto simp: list_ex_iff split: option.splits) (metis option.simps(5) case_prod_conv)
  then have "clearInitialPassword text2 = None"
    by (simp add: clearInitialPassword_def Let_def s2)
  with s2 show ?thesis by simp
qed

lemma initial_password_wiped_witness:
  "clearInitialPassword (''A=1'' @ CR # LF # '' MANAGER_INITIAL_PASSWORD = secret'' @ CR # LF # ''# end'') =
     Some (''A=1'' @ CR # LF # '' MANAGER_INITIAL_PASSWORD ='' @ CR # LF # ''# end'') \<and>
   clearInitialPassword (''A=1'' @ CR # LF # '' MANAGER_INITIAL_PASSWORD ='' @ CR # LF # ''# end'') = None"
proof -
  have w: "clearInitialPassword (''A=1'' @ CR # LF # '' MANAGER_INITIAL_PASSWORD = secret'' @ CR # LF # ''# end'') =
     Some (''A=1'' @ CR # LF # '' MANAGER_INITIAL_PASSWORD ='' @ CR # LF # ''# end'')"
    by code_simp
  from initial_password_wiped [OF w] w show ?thesis by simp
qed

section \<open>The forced first change\<close>

definition changes_users :: "auth_reply \<Rightarrow> bool" where
  "changes_users r = (case r of PasswordChanged t c x \<Rightarrow> True | ServerError \<Rightarrow> True | _ \<Rightarrow> False)"

definition kept_out :: "int \<Rightarrow> auth_event \<Rightarrow> auth_reply \<Rightarrow> bool" where
  "kept_out u e r = (case e of
     ApiRequest now cookie url \<Rightarrow> (case r of Gate (Pass user) \<Rightarrow> su_id user = u \<longrightarrow> open_while_forced url | _ \<Rightarrow> True)
   | _ \<Rightarrow> True)"

lemma step_users:
  assumes "\<not> changes_users (snd (auth_step digest verify s e))"
  shows "db_users (au_db (fst (auth_step digest verify s e))) = db_users (au_db s)"
  using assms
  by (cases e)
    (auto simp: auth_step_def login_def login_verified_def logout_def me_def change_password_def change_verified_def change_hashed_def
      requireUser_def requirePage_def revokeSession_def changes_users_def Let_def dest!: issue_Some(1) resolve_rows(1)
      split: option.splits prod.splits if_splits)

lemma request_kept_out:
  assumes "\<And>r. r \<in> set (db_users (au_db s)) \<Longrightarrow> user_id r = u \<Longrightarrow> user_mustChangePassword r = 1"
  shows "kept_out u e (snd (auth_step digest verify s e))"
proof (cases e)
  case (ApiRequest now cookie url)
  have "su_mustChangePassword user" if r: "resolveSession digest (au_db s) cookie now = (d, Some user)" and u: "su_id user = u" for d user
  proof -
    obtain q v where "joined_user (au_db s) q = Some v" "su_id user = session_userId q"
      "su_mustChangePassword user = (user_mustChangePassword v = 1)"
      using r by (auto simp: resolveSession_def split: option.splits if_splits)
    then show ?thesis
      using assms [of v] u by (auto simp: joined_user_def dest!: first_row_Some)
  qed
  then show ?thesis
    using ApiRequest by (auto simp: auth_step_def requireUser_def kept_out_def split: prod.split option.split)
qed (simp_all add: kept_out_def)

text \<open>
  An account whose password must be changed can do nothing else: until a change of a password goes through, every request
  it sends with whatever session it has is let through only to the page of its own account, the sign-out and the change itself.
\<close>

theorem forced_change_comes_first:
  assumes "list_all (\<lambda>r. user_id r = u \<longrightarrow> user_mustChangePassword r = 1) (db_users (au_db s))"
    and "list_all (\<lambda>r. \<not> changes_users r) (snd (auth_run digest verify s es))"
  shows "list_all (\<lambda>(e, r). kept_out u e r) (zip es (snd (auth_run digest verify s es)))"
  using assms
proof (induction es arbitrary: s)
  case (Cons e es)
  obtain s1 r where st: "auth_step digest verify s e = (s1, r)" by (cases "auth_step digest verify s e")
  have runs: "snd (auth_run digest verify s (e # es)) = r # snd (auth_run digest verify s1 es)"
    by (simp add: st split: prod.split)
  have "kept_out u e r"
    using request_kept_out [of s u e digest verify] Cons.prems(1) by (simp add: st list_all_iff)
  moreover have "db_users (au_db s1) = db_users (au_db s)"
    using step_users [of digest verify s e] Cons.prems(2) unfolding runs by (simp add: st)
  ultimately show ?case
    using Cons.IH [of s1] Cons.prems unfolding runs by simp
qed simp

lemma forced_change_comes_first_witness:
  "list_all (\<lambda>(e, r). kept_out 1 e r)
     (zip [Login 1 (sample_body ''admin'' ''secret''), LoginVerified 2 0 ''t'' ''c'', ApiRequest 3 (Some ''t'') ''/api/chats'']
       (snd (auth_run (\<lambda>t. t) sample_verify sample_auth
         [Login 1 (sample_body ''admin'' ''secret''), LoginVerified 2 0 ''t'' ''c'', ApiRequest 3 (Some ''t'') ''/api/chats''])))"
  by (rule forced_change_comes_first) code_simp+

end
