(* ===== verification/Schema.thy ===== *)
theory Schema
  imports Prelude "HOL-Library.Monad_Syntax" "HOL-Library.Countable"
begin

text \<open>
  The schema of the configuration file (\<^verbatim>\<open>fileSchema\<close> and its parts in \<^verbatim>\<open>config.ts\<close>): from the parsed YAML value to typed sections
  with their defaults. A schema is a function from the value found (None when the key is absent) to the parsed value, None when it
  is refused; which complaint the package reports is not modelled, only whether it has one. Numbers are rationals. Whether a text
  is a URL is decided by the platform and is a parameter.
\<close>

section \<open>Values and combinators\<close>

datatype yaml = YNull | YBool bool | YNum rat | YStr string | YSeq "yaml list" | YMap "(string \<times> yaml) list"

instance yaml :: countable
  by countable_datatype

text \<open>Steps that may fail, one after the other.\<close>

definition bindE :: "'e + 'a \<Rightarrow> ('a \<Rightarrow> 'e + 'b) \<Rightarrow> 'e + 'b" where
  "bindE r f = (case r of Inl e \<Rightarrow> Inl e | Inr x \<Rightarrow> f x)"

definition failIf :: "bool \<Rightarrow> 'e \<Rightarrow> 'e + unit" where
  "failIf b e = (if b then Inl e else Inr ())"

text \<open>A loop that stops at the first failure.\<close>

fun mapE :: "('a \<Rightarrow> 'e + 'b) \<Rightarrow> 'a list \<Rightarrow> 'e + 'b list" where
  "mapE f [] = Inr []"
| "mapE f (x # xs) = bindE (f x) (\<lambda>y. bindE (mapE f xs) (\<lambda>ys. Inr (y # ys)))"

fun checkE :: "('a \<Rightarrow> 'e + unit) \<Rightarrow> 'a list \<Rightarrow> 'e + unit" where
  "checkE f [] = Inr ()"
| "checkE f (x # xs) = bindE (f x) (\<lambda>_. checkE f xs)"

definition yget :: "yaml option \<Rightarrow> string \<Rightarrow> yaml option" where
  "yget v key = (case v of Some (YMap kvs) \<Rightarrow> map_of kvs key | _ \<Rightarrow> None)"

definition z_string :: "yaml option \<Rightarrow> string option" where
  "z_string v = (case v of Some (YStr s) \<Rightarrow> Some s | _ \<Rightarrow> None)"

definition z_bool :: "yaml option \<Rightarrow> bool option" where
  "z_bool v = (case v of Some (YBool b) \<Rightarrow> Some b | _ \<Rightarrow> None)"

definition z_number :: "yaml option \<Rightarrow> rat option" where
  "z_number v = (case v of Some (YNum n) \<Rightarrow> Some n | _ \<Rightarrow> None)"

definition z_refine :: "('a \<Rightarrow> bool) \<Rightarrow> ('y \<Rightarrow> 'a option) \<Rightarrow> 'y \<Rightarrow> 'a option" where
  "z_refine P p v = (case p v of None \<Rightarrow> None | Some x \<Rightarrow> if P x then Some x else None)"

definition z_int :: "yaml option \<Rightarrow> int option" where
  "z_int v = (case z_number v of None \<Rightarrow> None | Some n \<Rightarrow> if of_int \<lfloor>n\<rfloor> = n then Some \<lfloor>n\<rfloor> else None)"

definition z_nonempty :: "yaml option \<Rightarrow> string option" where
  "z_nonempty = z_refine (\<lambda>s. s \<noteq> []) z_string"

definition z_from :: "int \<Rightarrow> yaml option \<Rightarrow> int option" where
  "z_from lo = z_refine (\<lambda>n. lo \<le> n) z_int"

definition z_nonnegative :: "yaml option \<Rightarrow> rat option" where
  "z_nonnegative = z_refine (\<lambda>n. 0 \<le> n) z_number"

definition z_positive :: "yaml option \<Rightarrow> rat option" where
  "z_positive = z_refine (\<lambda>n. 0 < n) z_number"

definition z_optional :: "(yaml option \<Rightarrow> 'a option) \<Rightarrow> yaml option \<Rightarrow> 'a option option" where
  "z_optional p v = (case v of None \<Rightarrow> Some None | Some y \<Rightarrow> map_option Some (p v))"

definition z_nullable :: "(yaml option \<Rightarrow> 'a option) \<Rightarrow> yaml option \<Rightarrow> 'a option option" where
  "z_nullable p v = (if v = Some YNull then Some None else map_option Some (p v))"

definition z_default :: "'a \<Rightarrow> (yaml option \<Rightarrow> 'a option) \<Rightarrow> yaml option \<Rightarrow> 'a option" where
  "z_default d p v = (case v of None \<Rightarrow> Some d | Some y \<Rightarrow> p v)"

definition z_array :: "(yaml option \<Rightarrow> 'a option) \<Rightarrow> yaml option \<Rightarrow> 'a list option" where
  "z_array p v = (case v of Some (YSeq xs) \<Rightarrow> those (map (\<lambda>x. p (Some x)) xs) | _ \<Rightarrow> None)"

definition z_record :: "(yaml option \<Rightarrow> 'a option) \<Rightarrow> yaml option \<Rightarrow> (string \<times> 'a) list option" where
  "z_record p v = (case v of Some (YMap kvs) \<Rightarrow> those (map (\<lambda>(k, x). map_option (Pair k) (p (Some x))) kvs) | _ \<Rightarrow> None)"

text \<open>The fields of an object; keys not asked for are dropped, or refused by a strict object.\<close>

definition z_object :: "((string \<Rightarrow> yaml option) \<Rightarrow> 'a option) \<Rightarrow> yaml option \<Rightarrow> 'a option" where
  "z_object p v = (case v of Some (YMap kvs) \<Rightarrow> p (map_of kvs) | _ \<Rightarrow> None)"

definition z_strict :: "string list \<Rightarrow> ((string \<Rightarrow> yaml option) \<Rightarrow> 'a option) \<Rightarrow> yaml option \<Rightarrow> 'a option" where
  "z_strict names p v = (case v of Some (YMap kvs) \<Rightarrow> if list_all (\<lambda>(k, x). k \<in> set names) kvs then p (map_of kvs) else None | _ \<Rightarrow> None)"

definition z_enum :: "(string \<times> 'a) list \<Rightarrow> yaml option \<Rightarrow> 'a option" where
  "z_enum vals v = (case z_string v of None \<Rightarrow> None | Some s \<Rightarrow> map_of vals s)"

section \<open>Nodes\<close>

datatype runner_kind = RunProcess | RunDocker | RunAgent
datatype driver = Apiproxy | GatewayDriver

record docker_file =
  fd_image :: string
  fd_container_name :: "string option"
  fd_network :: string
  fd_port :: int
  fd_host_volumes :: "(string \<times> string) list"
  fd_named_volumes :: "(string \<times> string) list"
  fd_memory_limit_mb :: "int option"

definition dockerSpawnSchema :: "yaml option \<Rightarrow> docker_file option" where
  "dockerSpawnSchema = z_object (\<lambda>f. do {
     image \<leftarrow> z_nonempty (f ''image'');
     name \<leftarrow> z_optional z_nonempty (f ''container_name'');
     network \<leftarrow> z_default ''dac-hive'' z_string (f ''network'');
     port \<leftarrow> z_from 1 (f ''port'');
     hv \<leftarrow> z_default [] (z_record z_string) (f ''host_volumes'');
     nv \<leftarrow> z_default [] (z_record z_string) (f ''named_volumes'');
     mem \<leftarrow> z_optional (z_from 1) (f ''memory_limit_mb'');
     Some \<lparr>fd_image = image, fd_container_name = name, fd_network = network, fd_port = port, fd_host_volumes = hv,
       fd_named_volumes = nv, fd_memory_limit_mb = mem\<rparr> })"

record restart_policy =
  rp_max_attempts :: int
  rp_base_delay_ms :: int
  rp_max_delay_ms :: int

definition default_restart :: restart_policy where
  "default_restart = \<lparr>rp_max_attempts = 3, rp_base_delay_ms = 1000, rp_max_delay_ms = 30000\<rparr>"

definition restartSchema :: "yaml option \<Rightarrow> restart_policy option" where
  "restartSchema = z_object (\<lambda>f. do {
     a \<leftarrow> z_default 3 (z_from 1) (f ''max_attempts'');
     b \<leftarrow> z_default 1000 (z_from 0) (f ''base_delay_ms'');
     c \<leftarrow> z_default 30000 (z_from 0) (f ''max_delay_ms'');
     Some \<lparr>rp_max_attempts = a, rp_base_delay_ms = b, rp_max_delay_ms = c\<rparr> })"

record spawn_file =
  fs_managed :: bool
  fs_command :: "string option"
  fs_args :: "string list"
  fs_cwd :: "string option"
  fs_ready_timeout_ms :: int
  fs_detached :: bool
  fs_log_file :: "string option"
  fs_env :: "(string \<times> string) list option"
  fs_restart :: restart_policy
  fs_runner :: runner_kind
  fs_docker :: "docker_file option"
  fs_host :: "string option"
  fs_dsh_version :: "string option"
  fs_gateway_ref :: "string option"

definition spawn_refinement :: "spawn_file \<Rightarrow> bool" where
  "spawn_refinement v \<longleftrightarrow> (case fs_runner v of
     RunDocker \<Rightarrow> fs_docker v \<noteq> None \<and> fs_host v = None
   | RunAgent \<Rightarrow> fs_host v \<noteq> None
   | RunProcess \<Rightarrow> fs_command v \<noteq> None \<and> fs_host v = None)"

definition spawnSchema :: "yaml option \<Rightarrow> spawn_file option" where
  "spawnSchema = z_refine spawn_refinement (z_object (\<lambda>f. do {
     managed \<leftarrow> z_default False z_bool (f ''managed'');
     command \<leftarrow> z_optional z_nonempty (f ''command'');
     args \<leftarrow> z_default [] (z_array z_string) (f ''args'');
     cwd \<leftarrow> z_optional z_string (f ''cwd'');
     ready \<leftarrow> z_default 30000 (z_from 1) (f ''ready_timeout_ms'');
     detached \<leftarrow> z_default False z_bool (f ''detached'');
     logf \<leftarrow> z_optional z_string (f ''log_file'');
     env \<leftarrow> z_optional (z_record z_string) (f ''env'');
     restart \<leftarrow> z_default default_restart restartSchema (f ''restart'');
     runner \<leftarrow> z_default RunProcess (z_enum [(''process'', RunProcess), (''docker'', RunDocker), (''agent'', RunAgent)]) (f ''runner'');
     docker \<leftarrow> z_optional dockerSpawnSchema (f ''docker'');
     host \<leftarrow> z_optional z_nonempty (f ''host'');
     dsh \<leftarrow> z_optional z_nonempty (f ''dsh_version'');
     gw \<leftarrow> z_optional z_nonempty (f ''gateway_ref'');
     Some \<lparr>fs_managed = managed, fs_command = command, fs_args = args, fs_cwd = cwd, fs_ready_timeout_ms = ready,
       fs_detached = detached, fs_log_file = logf, fs_env = env, fs_restart = restart, fs_runner = runner, fs_docker = docker,
       fs_host = host, fs_dsh_version = dsh, fs_gateway_ref = gw\<rparr> }))"

record access_file =
  fx_ssh_user :: string
  fx_ssh_host :: string
  fx_ssh_port :: int
  fx_gui_port :: int
  fx_local_port :: int
  fx_ssh_key :: "string option"

definition accessSchema :: "yaml option \<Rightarrow> access_file option" where
  "accessSchema = z_object (\<lambda>f. do {
     u \<leftarrow> z_nonempty (f ''ssh_user'');
     h \<leftarrow> z_nonempty (f ''ssh_host'');
     p \<leftarrow> z_default 22 (z_from 1) (f ''ssh_port'');
     g \<leftarrow> z_default 3080 (z_from 1) (f ''gui_port'');
     l \<leftarrow> z_from 1 (f ''local_port'');
     k \<leftarrow> z_optional z_nonempty (f ''ssh_key'');
     Some \<lparr>fx_ssh_user = u, fx_ssh_host = h, fx_ssh_port = p, fx_gui_port = g, fx_local_port = l, fx_ssh_key = k\<rparr> })"

record endpoint_file =
  fe_url :: string
  fe_driver :: driver
  fe_prefix :: string
  fe_key_ref :: string
  fe_sandbox_base :: "string option"
  fe_sandbox_key_ref :: string
  fe_spawn :: "spawn_file option"
  fe_access :: "access_file option"

definition starts_with_slash :: "string \<Rightarrow> bool" where
  "starts_with_slash s = is_prefix ''/'' s"

definition endpointSchema :: "(string \<Rightarrow> bool) \<Rightarrow> yaml option \<Rightarrow> endpoint_file option" where
  "endpointSchema is_url = z_object (\<lambda>f. do {
     url \<leftarrow> z_refine is_url z_string (f ''url'');
     driver \<leftarrow> z_default Apiproxy (z_enum [(''apiproxy'', Apiproxy), (''gateway'', GatewayDriver)]) (f ''driver'');
     prefix \<leftarrow> z_default ''/api-gw/v1'' (z_refine starts_with_slash z_string) (f ''prefix'');
     key \<leftarrow> z_default [] z_string (f ''key_ref'');
     sb \<leftarrow> z_optional (z_refine is_url z_string) (f ''sandbox_base'');
     sk \<leftarrow> z_default [] z_string (f ''sandbox_key_ref'');
     sp \<leftarrow> z_optional spawnSchema (f ''spawn'');
     ac \<leftarrow> z_optional accessSchema (f ''access'');
     Some \<lparr>fe_url = url, fe_driver = driver, fe_prefix = prefix, fe_key_ref = key, fe_sandbox_base = sb,
       fe_sandbox_key_ref = sk, fe_spawn = sp, fe_access = ac\<rparr> })"

section \<open>Agents\<close>

datatype sandbox_mode = ReadOnly | WorkspaceWrite | DangerFullAccess

record rule_window =
  rw_path :: string
  rw_max :: int
  rw_archive :: string

record validate_file =
  fr_windows :: "rule_window list"
  fr_forbid_amount_fields :: bool
  fr_acct_flow_max_age_months :: "int option"

definition windowSchema :: "yaml option \<Rightarrow> rule_window option" where
  "windowSchema = z_object (\<lambda>f. do {
     p \<leftarrow> z_nonempty (f ''path'');
     m \<leftarrow> z_from 1 (f ''max'');
     a \<leftarrow> z_nonempty (f ''archive'');
     Some \<lparr>rw_path = p, rw_max = m, rw_archive = a\<rparr> })"

definition validateSchema :: "yaml option \<Rightarrow> validate_file option" where
  "validateSchema = z_object (\<lambda>f. do {
     w \<leftarrow> z_default [] (z_array windowSchema) (f ''windows'');
     b \<leftarrow> z_default False z_bool (f ''forbid_amount_fields'');
     a \<leftarrow> z_default None (z_nullable (z_from 0)) (f ''acct_flow_max_age_months'');
     Some \<lparr>fr_windows = w, fr_forbid_amount_fields = b, fr_acct_flow_max_age_months = a\<rparr> })"

record agent_file =
  fa_name :: string
  fa_endpoint :: string
  fa_workspace :: string
  fa_public :: bool
  fa_preset :: "string option"
  fa_sandbox_mode :: "sandbox_mode option"
  fa_git_remote :: "string option"
  fa_provider :: "string option"
  fa_model :: "string option"
  fa_validate :: "validate_file option"

definition agentSchema :: "yaml option \<Rightarrow> agent_file option" where
  "agentSchema = z_object (\<lambda>f. do {
     name \<leftarrow> z_nonempty (f ''name'');
     endpoint \<leftarrow> z_nonempty (f ''endpoint'');
     ws \<leftarrow> z_nonempty (f ''workspace'');
     pub \<leftarrow> z_default False z_bool (f ''public'');
     preset \<leftarrow> z_optional z_string (f ''preset'');
     sm \<leftarrow> z_optional (z_enum [(''read-only'', ReadOnly), (''workspace-write'', WorkspaceWrite),
             (''danger-full-access'', DangerFullAccess)]) (f ''sandbox_mode'');
     git \<leftarrow> z_optional z_string (f ''git_remote'');
     provider \<leftarrow> z_optional z_string (f ''provider'');
     model \<leftarrow> z_optional z_string (f ''model'');
     v \<leftarrow> z_optional validateSchema (f ''validate'');
     Some \<lparr>fa_name = name, fa_endpoint = endpoint, fa_workspace = ws, fa_public = pub, fa_preset = preset, fa_sandbox_mode = sm,
       fa_git_remote = git, fa_provider = provider, fa_model = model, fa_validate = v\<rparr> })"

section \<open>Prices\<close>

record rate_file =
  ft_input :: rat
  ft_output :: rat
  ft_cache_read :: "rat option"
  ft_cache_write :: "rat option"

definition rateSchema :: "yaml option \<Rightarrow> rate_file option" where
  "rateSchema = z_object (\<lambda>f. do {
     i \<leftarrow> z_nonnegative (f ''input'');
     u \<leftarrow> z_nonnegative (f ''output'');
     r \<leftarrow> z_optional z_nonnegative (f ''cache_read'');
     w \<leftarrow> z_optional z_nonnegative (f ''cache_write'');
     Some \<lparr>ft_input = i, ft_output = u, ft_cache_read = r, ft_cache_write = w\<rparr> })"

record model_file =
  fm_off_peak :: rate_file
  fm_peak :: "rate_file option"

definition modelSchema :: "yaml option \<Rightarrow> model_file option" where
  "modelSchema = z_object (\<lambda>f. do {
     a \<leftarrow> rateSchema (f ''off_peak'');
     b \<leftarrow> z_optional rateSchema (f ''peak'');
     Some \<lparr>fm_off_peak = a, fm_peak = b\<rparr> })"

record pricing_file =
  fp_peak_windows_utc :: "(string \<times> string) list"
  fp_weekends_off_peak :: bool
  fp_timezone :: string
  fp_models :: "(string \<times> model_file) list"

definition peakWindowSchema :: "yaml option \<Rightarrow> (string \<times> string) option" where
  "peakWindowSchema = z_object (\<lambda>f. do { s \<leftarrow> z_string (f ''start''); e \<leftarrow> z_string (f ''end''); Some (s, e) })"

definition pricingSchema :: "yaml option \<Rightarrow> pricing_file option" where
  "pricingSchema = z_object (\<lambda>f. do {
     w \<leftarrow> z_default [] (z_array peakWindowSchema) (f ''peak_windows_utc'');
     o' \<leftarrow> z_default True z_bool (f ''weekends_off_peak'');
     z \<leftarrow> z_default ''Asia/Shanghai'' z_string (f ''timezone'');
     m \<leftarrow> z_default [] (z_record modelSchema) (f ''models'');
     Some \<lparr>fp_peak_windows_utc = w, fp_weekends_off_peak = o', fp_timezone = z, fp_models = m\<rparr> })"

section \<open>Services\<close>

datatype surface = Tasks | Conversations
datatype permission = PermRead | PermWrite
datatype spread = PlaceSpread | PlacePack | PlacePin

record thresholds_file =
  fh_min_free_cpu_percent :: "rat option"
  fh_min_free_mem_bytes :: "rat option"
  fh_min_free_disk_bytes :: "rat option"

definition thresholdsSchema :: "yaml option \<Rightarrow> thresholds_file option" where
  "thresholdsSchema = z_strict [''min_free_cpu_percent'', ''min_free_mem_bytes'', ''min_free_disk_bytes''] (\<lambda>f. do {
     c \<leftarrow> z_optional (z_refine (\<lambda>n. 0 \<le> n \<and> n \<le> 100) z_number) (f ''min_free_cpu_percent'');
     m \<leftarrow> z_optional z_nonnegative (f ''min_free_mem_bytes'');
     d \<leftarrow> z_optional z_nonnegative (f ''min_free_disk_bytes'');
     Some \<lparr>fh_min_free_cpu_percent = c, fh_min_free_mem_bytes = m, fh_min_free_disk_bytes = d\<rparr> })"

record knowledge_file =
  fk_host :: string
  fk_mount :: string
  fk_read_only :: bool

definition knowledgeSchema :: "yaml option \<Rightarrow> knowledge_file option" where
  "knowledgeSchema = z_object (\<lambda>f. do {
     h \<leftarrow> z_nonempty (f ''host'');
     m \<leftarrow> z_refine starts_with_slash z_string (f ''mount'');
     r \<leftarrow> z_default True z_bool (f ''read_only'');
     Some \<lparr>fk_host = h, fk_mount = m, fk_read_only = r\<rparr> })"

definition lower :: "string \<Rightarrow> string" where
  "lower s = map (\<lambda>c. let n = (of_char c :: nat) in if 65 \<le> n \<and> n \<le> 90 then char_of (n + 32) else c) s"

definition all_digits :: "string \<Rightarrow> bool" where
  "all_digits s \<longleftrightarrow> s \<noteq> [] \<and> list_all (\<lambda>c. let n = (of_char c :: nat) in 48 \<le> n \<and> n \<le> 57) s"

definition lower_or_digit :: "char \<Rightarrow> bool" where
  "lower_or_digit c \<longleftrightarrow> (let n = (of_char c :: nat) in 97 \<le> n \<and> n \<le> 122 \<or> 48 \<le> n \<and> n \<le> 57)"

definition service_slug :: "string \<Rightarrow> bool" where
  "service_slug s \<longleftrightarrow> s \<noteq> [] \<and> length s \<le> 41 \<and> lower_or_digit (hd s) \<and> list_all (\<lambda>c. lower_or_digit c \<or> c = CHR ''-'') (tl s)"

record service_file =
  fv_id :: string
  fv_label :: string
  fv_workers :: "string list"
  fv_surfaces :: "surface list"
  fv_count :: int
  fv_max_sessions_per_agent :: int
  fv_permission :: permission
  fv_session_idle_hours :: rat
  fv_placement :: spread
  fv_machines :: "string list"
  fv_max_agents_per_machine :: int
  fv_thresholds :: "thresholds_file option"
  fv_knowledge :: "knowledge_file list"
  fv_persona :: "string option"

definition surface_names :: "(string \<times> surface) list" where
  "surface_names = [(''tasks'', Tasks), (''conversations'', Conversations)]"

definition permission_names :: "(string \<times> permission) list" where
  "permission_names = [(''read'', PermRead), (''write'', PermWrite)]"

definition spread_names :: "(string \<times> spread) list" where
  "spread_names = [(''spread'', PlaceSpread), (''pack'', PlacePack), (''pin'', PlacePin)]"

definition service_fields :: "string list" where
  "service_fields = [''id'', ''label'', ''workers'', ''surfaces'', ''count'', ''capacity'', ''permission'', ''session_idle_hours'',
     ''placement'', ''machines'', ''max_agents_per_machine'', ''thresholds'', ''knowledge'', ''persona'']"

definition capacitySchema :: "yaml option \<Rightarrow> int option" where
  "capacitySchema = z_object (\<lambda>f. z_default 4 (z_from 1) (f ''max_sessions_per_agent''))"

definition serviceSchema :: "yaml option \<Rightarrow> service_file option" where
  "serviceSchema = z_strict service_fields (\<lambda>f. do {
     i \<leftarrow> z_refine service_slug z_string (f ''id'');
     label \<leftarrow> z_nonempty (f ''label'');
     workers \<leftarrow> z_refine (\<lambda>ws. ws \<noteq> []) (z_array z_nonempty) (f ''workers'');
     surfaces \<leftarrow> z_default [Tasks, Conversations] (z_refine (\<lambda>xs. xs \<noteq> []) (z_array (z_enum surface_names))) (f ''surfaces'');
     count \<leftarrow> z_default 1 (z_from 1) (f ''count'');
     cap \<leftarrow> z_default 4 capacitySchema (f ''capacity'');
     perm \<leftarrow> z_default PermRead (z_enum permission_names) (f ''permission'');
     idle \<leftarrow> z_default 24 z_positive (f ''session_idle_hours'');
     place \<leftarrow> z_default PlaceSpread (z_enum spread_names) (f ''placement'');
     machines \<leftarrow> z_default [] (z_array z_nonempty) (f ''machines'');
     per \<leftarrow> z_default 4 (z_from 1) (f ''max_agents_per_machine'');
     th \<leftarrow> z_optional thresholdsSchema (f ''thresholds'');
     kn \<leftarrow> z_default [] (z_array knowledgeSchema) (f ''knowledge'');
     persona \<leftarrow> z_optional (z_refine (\<lambda>s. length s \<le> 8000) z_string) (f ''persona'');
     Some \<lparr>fv_id = i, fv_label = label, fv_workers = workers, fv_surfaces = surfaces, fv_count = count, fv_max_sessions_per_agent = cap,
       fv_permission = perm, fv_session_idle_hours = idle, fv_placement = place, fv_machines = machines,
       fv_max_agents_per_machine = per, fv_thresholds = th, fv_knowledge = kn, fv_persona = persona\<rparr> })"

section \<open>The file\<close>

record listen_file =
  fl_host :: string
  fl_port :: int

definition listenSchema :: "yaml option \<Rightarrow> listen_file option" where
  "listenSchema = z_object (\<lambda>f. do {
     h \<leftarrow> z_default ''127.0.0.1'' z_string (f ''host'');
     p \<leftarrow> z_default 8080 (z_from 1) (f ''port'');
     Some \<lparr>fl_host = h, fl_port = p\<rparr> })"

record runner_file =
  fn_timeout_minutes :: int
  fn_silence_timeout_minutes :: int
  fn_outward_timeout_minutes :: int
  fn_max_consecutive_failures :: int
  fn_daily_budget_usd :: "rat option"

definition default_runner :: runner_file where
  "default_runner = \<lparr>fn_timeout_minutes = 15, fn_silence_timeout_minutes = 5, fn_outward_timeout_minutes = 5,
     fn_max_consecutive_failures = 3, fn_daily_budget_usd = None\<rparr>"

definition runnerSchema :: "yaml option \<Rightarrow> runner_file option" where
  "runnerSchema = z_object (\<lambda>f. do {
     t \<leftarrow> z_default 15 (z_from 1) (f ''timeout_minutes'');
     s \<leftarrow> z_default 5 (z_from 0) (f ''silence_timeout_minutes'');
     u \<leftarrow> z_default 5 (z_from 1) (f ''outward_timeout_minutes'');
     m \<leftarrow> z_default 3 (z_from 1) (f ''max_consecutive_failures'');
     b \<leftarrow> z_optional z_positive (f ''daily_budget_usd'');
     Some \<lparr>fn_timeout_minutes = t, fn_silence_timeout_minutes = s, fn_outward_timeout_minutes = u, fn_max_consecutive_failures = m,
       fn_daily_budget_usd = b\<rparr> })"

record backup_file =
  fb_docker_volumes :: "string list"
  fb_auto :: bool
  fb_interval_minutes :: int

definition backupSchema :: "yaml option \<Rightarrow> backup_file option" where
  "backupSchema = z_object (\<lambda>f. do {
     v \<leftarrow> z_default [] (z_array z_string) (f ''docker_volumes'');
     a \<leftarrow> z_default False z_bool (f ''auto'');
     i \<leftarrow> z_default 15 (z_from 1) (f ''interval_minutes'');
     Some \<lparr>fb_docker_volumes = v, fb_auto = a, fb_interval_minutes = i\<rparr> })"

record public_api_file =
  fq_enabled :: bool
  fq_host :: string
  fq_port :: int

definition publicApiSchema :: "yaml option \<Rightarrow> public_api_file option" where
  "publicApiSchema = z_object (\<lambda>f. do {
     e \<leftarrow> z_default True z_bool (f ''enabled'');
     h \<leftarrow> z_default ''127.0.0.1'' z_nonempty (f ''host'');
     p \<leftarrow> z_default 8081 (z_from 1) (f ''port'');
     Some \<lparr>fq_enabled = e, fq_host = h, fq_port = p\<rparr> })"

record file_config =
  ff_listen :: listen_file
  ff_endpoints :: "(string \<times> endpoint_file) list"
  ff_agents :: "(string \<times> agent_file) list"
  ff_runner :: runner_file
  ff_database_path :: string
  ff_reconcile_interval_minutes :: int
  ff_brain_daily_budget_usd :: "rat option"
  ff_pricing :: "pricing_file option"
  ff_config_version :: "int option"
  ff_backup :: backup_file
  ff_public_api :: public_api_file
  ff_services :: "service_file list"

definition fileSchema :: "(string \<Rightarrow> bool) \<Rightarrow> yaml option \<Rightarrow> file_config option" where
  "fileSchema is_url = z_object (\<lambda>f. do {
     listen \<leftarrow> z_default \<lparr>fl_host = ''127.0.0.1'', fl_port = 8080\<rparr> listenSchema (f ''listen'');
     endpoints \<leftarrow> z_refine (\<lambda>xs. xs \<noteq> []) (z_record (endpointSchema is_url)) (f ''endpoints'');
     agents \<leftarrow> z_refine (\<lambda>xs. xs \<noteq> []) (z_record agentSchema) (f ''agents'');
     runner \<leftarrow> z_default default_runner runnerSchema (f ''runner'');
     path \<leftarrow> z_default ''./data/manager.db'' (z_object (\<lambda>g. z_nonempty (g ''path''))) (f ''database'');
     rec \<leftarrow> z_default 10 (z_from 0) (f ''reconcile_interval_minutes'');
     brain \<leftarrow> z_default None (z_object (\<lambda>g. z_optional z_positive (g ''daily_budget_usd''))) (f ''brain'');
     pricing \<leftarrow> z_optional pricingSchema (f ''pricing'');
     ver \<leftarrow> z_optional (z_from 0) (f ''config_version'');
     backup \<leftarrow> z_default \<lparr>fb_docker_volumes = [], fb_auto = False, fb_interval_minutes = 15\<rparr> backupSchema (f ''backup'');
     api \<leftarrow> z_default \<lparr>fq_enabled = True, fq_host = ''127.0.0.1'', fq_port = 8081\<rparr> publicApiSchema (f ''public_api'');
     services \<leftarrow> z_default [] (z_array serviceSchema) (f ''services'');
     Some \<lparr>ff_listen = listen, ff_endpoints = endpoints, ff_agents = agents, ff_runner = runner, ff_database_path = path,
       ff_reconcile_interval_minutes = rec, ff_brain_daily_budget_usd = brain, ff_pricing = pricing, ff_config_version = ver,
       ff_backup = backup, ff_public_api = api, ff_services = services\<rparr> })"

section \<open>What a schema accepts\<close>

named_theorems z_iff \<open>when a schema yields a value\<close>

lemma those_Some: "those xs = Some ys \<longleftrightarrow> xs = map Some ys"
  by (induction xs arbitrary: ys) (auto split: option.splits)

lemma z_string_iff [z_iff]: "z_string v = Some s \<longleftrightarrow> v = Some (YStr s)"
  by (auto simp: z_string_def split: option.splits yaml.splits)

lemma z_bool_iff [z_iff]: "z_bool v = Some b \<longleftrightarrow> v = Some (YBool b)"
  by (auto simp: z_bool_def split: option.splits yaml.splits)

lemma z_number_iff [z_iff]: "z_number v = Some n \<longleftrightarrow> v = Some (YNum n)"
  by (auto simp: z_number_def split: option.splits yaml.splits)

lemma z_refine_iff [z_iff]: "z_refine P p v = Some x \<longleftrightarrow> p v = Some x \<and> P x"
  by (auto simp: z_refine_def split: option.splits)

lemma z_int_iff [z_iff]: "z_int v = Some n \<longleftrightarrow> v = Some (YNum (of_int n))"
  by (auto simp: z_int_def z_number_iff split: option.splits) (auto simp: z_number_def)

lemma z_nonempty_iff [z_iff]: "z_nonempty v = Some s \<longleftrightarrow> v = Some (YStr s) \<and> s \<noteq> []"
  by (simp add: z_nonempty_def z_iff)

lemma z_from_iff [z_iff]: "z_from lo v = Some n \<longleftrightarrow> v = Some (YNum (of_int n)) \<and> lo \<le> n"
  by (simp add: z_from_def z_iff)

lemma z_positive_iff [z_iff]: "z_positive v = Some n \<longleftrightarrow> v = Some (YNum n) \<and> 0 < n"
  by (simp add: z_positive_def z_iff)

lemma z_default_iff [z_iff]: "z_default d p v = Some x \<longleftrightarrow> (if v = None then x = d else p v = Some x)"
  by (auto simp: z_default_def split: option.split)

lemma z_optional_iff [z_iff]: "z_optional p v = Some x \<longleftrightarrow> (if v = None then x = None else \<exists>y. p v = Some y \<and> x = Some y)"
  by (auto simp: z_optional_def split: option.split)

lemma z_array_iff: "z_array p v = Some ys \<longleftrightarrow> (\<exists>xs. v = Some (YSeq xs) \<and> map (\<lambda>x. p (Some x)) xs = map Some ys)"
  by (auto simp: z_array_def those_Some split: option.splits yaml.splits)

lemma z_strings_iff [z_iff]: "z_array z_nonempty v = Some ws \<longleftrightarrow> v = Some (YSeq (map YStr ws)) \<and> [] \<notin> set ws"
proof -
  have "map (\<lambda>x. z_nonempty (Some x)) xs = map Some ws \<longleftrightarrow> xs = map YStr ws \<and> [] \<notin> set ws" for xs
    by (induction ws arbitrary: xs) (auto simp: Cons_eq_map_conv map_eq_Cons_conv z_nonempty_iff)
  then show ?thesis by (auto simp: z_array_iff)
qed

lemma z_enum_iff [z_iff]: "z_enum vals v = Some x \<longleftrightarrow> (\<exists>s. v = Some (YStr s) \<and> map_of vals s = Some x)"
  by (auto simp: z_enum_def z_string_def split: option.splits yaml.splits)

lemma z_object_iff: "z_object p v = Some x \<longleftrightarrow> (\<exists>kvs. v = Some (YMap kvs) \<and> p (map_of kvs) = Some x)"
  by (auto simp: z_object_def split: option.splits yaml.splits)

lemma z_strict_iff: "z_strict names p v = Some x \<longleftrightarrow> (\<exists>kvs. v = Some (YMap kvs) \<and> list_all (\<lambda>(k, x). k \<in> set names) kvs \<and> p (map_of kvs) = Some x)"
  by (auto simp: z_strict_def split: option.splits yaml.splits if_splits)

definition surfacesSchema :: "yaml option \<Rightarrow> surface list option" where
  "surfacesSchema = z_default [Tasks, Conversations] (z_refine (\<lambda>xs. xs \<noteq> []) (z_array (z_enum surface_names)))"

lemma serviceSchema_iff:
  "serviceSchema v = Some s \<longleftrightarrow> (\<exists>kvs. v = Some (YMap kvs) \<and> list_all (\<lambda>(k, x). k \<in> set service_fields) kvs \<and>
     z_refine service_slug z_string (map_of kvs ''id'') = Some (fv_id s) \<and> z_nonempty (map_of kvs ''label'') = Some (fv_label s) \<and>
     z_refine (\<lambda>ws. ws \<noteq> []) (z_array z_nonempty) (map_of kvs ''workers'') = Some (fv_workers s) \<and>
     surfacesSchema (map_of kvs ''surfaces'') = Some (fv_surfaces s) \<and> z_default 1 (z_from 1) (map_of kvs ''count'') = Some (fv_count s) \<and>
     z_default 4 capacitySchema (map_of kvs ''capacity'') = Some (fv_max_sessions_per_agent s) \<and>
     z_default PermRead (z_enum permission_names) (map_of kvs ''permission'') = Some (fv_permission s) \<and>
     z_default 24 z_positive (map_of kvs ''session_idle_hours'') = Some (fv_session_idle_hours s) \<and>
     z_default PlaceSpread (z_enum spread_names) (map_of kvs ''placement'') = Some (fv_placement s) \<and>
     z_default [] (z_array z_nonempty) (map_of kvs ''machines'') = Some (fv_machines s) \<and>
     z_default 4 (z_from 1) (map_of kvs ''max_agents_per_machine'') = Some (fv_max_agents_per_machine s) \<and>
     z_optional thresholdsSchema (map_of kvs ''thresholds'') = Some (fv_thresholds s) \<and>
     z_default [] (z_array knowledgeSchema) (map_of kvs ''knowledge'') = Some (fv_knowledge s) \<and>
     z_optional (z_refine (\<lambda>t. length t \<le> 8000) z_string) (map_of kvs ''persona'') = Some (fv_persona s))"
  unfolding serviceSchema_def z_strict_iff surfacesSchema_def bind_eq_Some_conv by (cases s) auto

end
