(* ===== verification/Config.thy ===== *)
theory Config
  imports Schema Placement Usage
begin

text \<open>
  Loading the configuration (\<^verbatim>\<open>loadConfig\<close> in \<^verbatim>\<open>config.ts\<close>, \<^verbatim>\<open>config/migrations.ts\<close>, \<^verbatim>\<open>env.ts\<close> and the version
  matrix of \<^verbatim>\<open>dsh-matrix.ts\<close>).

  The checks are stages in the order of the code; the first that fails decides the error. Objects are association lists in the
  order of the file (names that look like numbers, which JavaScript moves to the front, are not treated specially). The
  environment, the resolution of a path against the working directory, and the test whether a text is a URL are parameters.
\<close>

section \<open>Errors\<close>

datatype config_error =
    NewerConfig int
  | InvalidFile
  | InvalidEnvironment
  | GatewayRetired string
  | SandboxKeyEmpty string
  | UnknownDshVersion string string
  | UnknownEndpoint string string
  | RelativeRemoteWorkspace string string
  | NoSandboxBase string string
  | SharedEndpoint string "string list"
  | BadPeakWindow
  | HalfPinned string
  | PublicUnpinned string
  | NoRate string
  | DuplicateService string
  | UnknownWorker string string
  | WorkerNotPublic string string
  | PinWithoutMachines string
  | MachinesWithoutPin string
  | PinTooSmall string
  | CountMismatch string
  | MixedMachine string
  | MachineServesTwo string "string list"
  | PortClash int

text \<open>A \<^verbatim>\<open>Map\<close> from keys to the elements with that key, in insertion order.\<close>

definition first_occurrences :: "'a list \<Rightarrow> 'a list" where
  "first_occurrences xs = rev (remdups (rev xs))"

definition group_by :: "('a \<Rightarrow> 'k) \<Rightarrow> 'a list \<Rightarrow> ('k \<times> 'a list) list" where
  "group_by key xs = map (\<lambda>k. (k, filter (\<lambda>x. key x = k) xs)) (first_occurrences (map key xs))"

section \<open>Migration\<close>

definition CURRENT_CONFIG_VERSION :: int where
  "CURRENT_CONFIG_VERSION = 1"

definition versionOf :: "yaml \<Rightarrow> int" where
  "versionOf raw = (case z_int (yget (Some raw) ''config_version'') of None \<Rightarrow> 0 | Some n \<Rightarrow> if 0 \<le> n then n else 0)"

text \<open>The step from 0 to 1: the version comes first, unless the document (with an unusable version) overwrites it.\<close>

definition up_0_1 :: "yaml \<Rightarrow> yaml" where
  "up_0_1 raw = (case raw of
     YMap kvs \<Rightarrow> YMap ((''config_version'', (case map_of kvs ''config_version'' of None \<Rightarrow> YNum 1 | Some v \<Rightarrow> v)) #
                       filter (\<lambda>(k, v). k \<noteq> ''config_version'') kvs)
   | _ \<Rightarrow> YMap [(''config_version'', YNum 1)])"

text \<open>The document to load and whether it was migrated (and the file rewritten with it).\<close>

definition migrateConfigIfNeeded :: "yaml \<Rightarrow> config_error + (yaml \<times> bool)" where
  "migrateConfigIfNeeded raw =
     (if versionOf raw > CURRENT_CONFIG_VERSION then Inl (NewerConfig (versionOf raw))
      else if versionOf raw = CURRENT_CONFIG_VERSION then Inr (raw, False)
      else Inr (up_0_1 raw, True))"

section \<open>The version matrix\<close>

datatype pair_status = Verified | PendingPair

record dsh_pair =
  dp_dsh :: string
  dp_gateway :: string
  dp_status :: pair_status
  dp_needsLegacyPeerDeps :: bool

definition GATEWAY_REF :: string where
  "GATEWAY_REF = ''github:litestartup-com/dsh-api-gateway#398ea94''"

definition GATEWAY_REF_LEGACY :: string where
  "GATEWAY_REF_LEGACY = ''github:litestartup-com/dsh-api-gateway#b592b4f''"

definition SUPPORTED_DSH :: "dsh_pair list" where
  "SUPPORTED_DSH =
     [\<lparr>dp_dsh = ''0.2.0-rc.2'', dp_gateway = GATEWAY_REF, dp_status = Verified, dp_needsLegacyPeerDeps = True\<rparr>,
      \<lparr>dp_dsh = ''0.1.5-rc.2'', dp_gateway = GATEWAY_REF_LEGACY, dp_status = Verified, dp_needsLegacyPeerDeps = True\<rparr>,
      \<lparr>dp_dsh = ''0.1.2-rc.1'', dp_gateway = GATEWAY_REF_LEGACY, dp_status = Verified, dp_needsLegacyPeerDeps = False\<rparr>]"

definition without_v :: "string \<Rightarrow> string" where
  "without_v s = (case s of [] \<Rightarrow> [] | c # cs \<Rightarrow> if c = CHR ''v'' then cs else s)"

definition resolvePair :: "string \<Rightarrow> dsh_pair option" where
  "resolvePair version = List.find (\<lambda>p. dp_dsh p = without_v version) SUPPORTED_DSH"

definition pairStatus :: "string \<Rightarrow> pair_status option" where
  "pairStatus version = map_option dp_status (resolvePair version)"

definition isSupportedDsh :: "string option \<Rightarrow> bool" where
  "isSupportedDsh version = (case version of None \<Rightarrow> False | Some v \<Rightarrow> resolvePair v \<noteq> None)"

definition isLegacyDshLine :: "string \<Rightarrow> bool" where
  "isLegacyDshLine version =
     (let v = without_v version; rest = drop 5 v in
      is_prefix ''0.1.'' v \<and> length v \<ge> 5 \<and> v ! 4 \<in> {CHR ''2'', CHR ''5''} \<and> (rest = [] \<or> hd rest \<in> {CHR ''-'', CHR ''.''}))"

section \<open>Endpoints\<close>

record resolved_docker =
  rd_image :: string
  rd_containerName :: "string option"
  rd_network :: string
  rd_port :: int
  rd_hostVolumes :: "(string \<times> string) list"
  rd_namedVolumes :: "(string \<times> string) list"
  rd_memoryLimitMb :: "int option"

record resolved_spawn =
  rs_managed :: bool
  rs_command :: string
  rs_args :: "string list"
  rs_cwd :: "string option"
  rs_readyTimeoutMs :: int
  rs_detached :: bool
  rs_logFile :: "string option"
  rs_env :: "(string \<times> string) list"
  rs_maxAttempts :: int
  rs_baseDelayMs :: int
  rs_maxDelayMs :: int
  rs_runner :: runner_kind
  rs_host :: "string option"
  rs_docker :: "resolved_docker option"
  rs_dshVersion :: "string option"
  rs_gatewayRef :: "string option"

record resolved_access =
  rx_sshUser :: string
  rx_sshHost :: string
  rx_sshPort :: int
  rx_guiPort :: int
  rx_localPort :: int
  rx_sshKey :: "string option"

record resolved_endpoint =
  re_id :: string
  re_url :: string
  re_driver :: driver
  re_prefix :: string
  re_key :: string
  re_sandboxBase :: "string option"
  re_sandboxKey :: string
  re_spawn :: "resolved_spawn option"
  re_access :: "resolved_access option"

definition strip_slashes :: "string \<Rightarrow> string" where
  "strip_slashes s = rev (dropWhile (\<lambda>c. c = CHR ''/'') (rev s))"

definition resolve_docker :: "docker_file \<Rightarrow> resolved_docker" where
  "resolve_docker d = \<lparr>rd_image = fd_image d, rd_containerName = fd_container_name d, rd_network = fd_network d, rd_port = fd_port d,
     rd_hostVolumes = fd_host_volumes d, rd_namedVolumes = fd_named_volumes d, rd_memoryLimitMb = fd_memory_limit_mb d\<rparr>"

definition resolve_spawn :: "(string \<Rightarrow> string) \<Rightarrow> spawn_file \<Rightarrow> resolved_spawn" where
  "resolve_spawn resolve s = \<lparr>rs_managed = fs_managed s, rs_command = (case fs_command s of None \<Rightarrow> [] | Some c \<Rightarrow> c),
     rs_args = fs_args s, rs_cwd = map_option resolve (fs_cwd s), rs_readyTimeoutMs = fs_ready_timeout_ms s,
     rs_detached = fs_detached s, rs_logFile = map_option resolve (fs_log_file s),
     rs_env = (case fs_env s of None \<Rightarrow> [] | Some e \<Rightarrow> e), rs_maxAttempts = rp_max_attempts (fs_restart s),
     rs_baseDelayMs = rp_base_delay_ms (fs_restart s), rs_maxDelayMs = rp_max_delay_ms (fs_restart s), rs_runner = fs_runner s,
     rs_host = fs_host s, rs_docker = map_option resolve_docker (fs_docker s), rs_dshVersion = fs_dsh_version s,
     rs_gatewayRef = fs_gateway_ref s\<rparr>"

definition resolve_access :: "access_file \<Rightarrow> resolved_access" where
  "resolve_access a = \<lparr>rx_sshUser = fx_ssh_user a, rx_sshHost = fx_ssh_host a, rx_sshPort = fx_ssh_port a,
     rx_guiPort = fx_gui_port a, rx_localPort = fx_local_port a, rx_sshKey = fx_ssh_key a\<rparr>"

definition env_or_empty :: "(string \<Rightarrow> string option) \<Rightarrow> string \<Rightarrow> string" where
  "env_or_empty env ref = (if ref \<noteq> [] then (case env ref of None \<Rightarrow> [] | Some v \<Rightarrow> v) else [])"

definition pinned_version_unknown :: "spawn_file option \<Rightarrow> string option" where
  "pinned_version_unknown s = (case s of None \<Rightarrow> None | Some sp \<Rightarrow> (case fs_dsh_version sp of None \<Rightarrow> None
     | Some v \<Rightarrow> if resolvePair v = None then Some v else None))"

definition resolve_endpoint :: "(string \<Rightarrow> string option) \<Rightarrow> (string \<Rightarrow> string) \<Rightarrow> string \<times> endpoint_file \<Rightarrow> config_error + resolved_endpoint" where
  "resolve_endpoint env resolve x = (case x of (i, ep) \<Rightarrow>
     if fe_driver ep = GatewayDriver then Inl (GatewayRetired i)
     else (let prefix = (if fe_prefix ep = ''/api-gw/v1'' then ''/api'' else fe_prefix ep);
               sandboxBase = map_option strip_slashes (fe_sandbox_base ep);
               sandboxKey = env_or_empty env (fe_sandbox_key_ref ep)
           in if sandboxBase \<noteq> None \<and> sandboxKey = [] then Inl (SandboxKeyEmpty i)
              else (case pinned_version_unknown (fe_spawn ep) of
                 Some v \<Rightarrow> Inl (UnknownDshVersion i v)
               | None \<Rightarrow> Inr \<lparr>re_id = i, re_url = strip_slashes (fe_url ep), re_driver = fe_driver ep, re_prefix = strip_slashes prefix,
                   re_key = env_or_empty env (fe_key_ref ep), re_sandboxBase = sandboxBase, re_sandboxKey = sandboxKey,
                   re_spawn = map_option (resolve_spawn resolve) (fe_spawn ep), re_access = map_option resolve_access (fe_access ep)\<rparr>)))"

definition endpoint_of :: "resolved_endpoint list \<Rightarrow> string \<Rightarrow> resolved_endpoint option" where
  "endpoint_of eps i = List.find (\<lambda>e. re_id e = i) eps"

section \<open>Agents\<close>

record resolved_agent =
  ra_id :: string
  ra_name :: string
  ra_endpoint :: string
  ra_workspacePath :: string
  ra_public :: bool
  ra_preset :: "string option"
  ra_sandboxMode :: "sandbox_mode option"
  ra_gitRemote :: "string option"
  ra_provider :: "string option"
  ra_model :: "string option"
  ra_validate :: "validate_file option"

definition is_alpha :: "char \<Rightarrow> bool" where
  "is_alpha c \<longleftrightarrow> (let n = (of_char c :: nat) in 65 \<le> n \<and> n \<le> 90 \<or> 97 \<le> n \<and> n \<le> 122)"

definition absolute_anywhere :: "string \<Rightarrow> bool" where
  "absolute_anywhere p \<longleftrightarrow> is_prefix ''/'' p \<or>
     (case p of a # b # c # r \<Rightarrow> is_alpha a \<and> b = CHR '':'' \<and> (c = CHR 0x5C \<or> c = CHR ''/'') | _ \<Rightarrow> False)"

definition on_remote :: "resolved_endpoint \<Rightarrow> bool" where
  "on_remote e = (case re_spawn e of None \<Rightarrow> False | Some s \<Rightarrow> rs_runner s = RunAgent)"

definition resolve_agent :: "(string \<Rightarrow> string) \<Rightarrow> resolved_endpoint list \<Rightarrow> string \<times> agent_file \<Rightarrow> config_error + resolved_agent" where
  "resolve_agent resolve eps x = (case x of (i, a) \<Rightarrow>
     (case endpoint_of eps (fa_endpoint a) of
        None \<Rightarrow> Inl (UnknownEndpoint i (fa_endpoint a))
      | Some e \<Rightarrow>
          if on_remote e \<and> \<not> absolute_anywhere (fa_workspace a) then Inl (RelativeRemoteWorkspace i (fa_workspace a))
          else Inr \<lparr>ra_id = i, ra_name = fa_name a, ra_endpoint = fa_endpoint a,
                 ra_workspacePath = (if on_remote e then fa_workspace a else resolve (fa_workspace a)), ra_public = fa_public a,
                 ra_preset = fa_preset a, ra_sandboxMode = fa_sandbox_mode a, ra_gitRemote = fa_git_remote a,
                 ra_provider = fa_provider a, ra_model = fa_model a, ra_validate = fa_validate a\<rparr>))"

definition check_sandbox :: "resolved_endpoint list \<Rightarrow> resolved_agent \<Rightarrow> config_error + unit" where
  "check_sandbox eps a = failIf (ra_sandboxMode a \<noteq> None \<and>
     (case endpoint_of eps (ra_endpoint a) of None \<Rightarrow> True | Some e \<Rightarrow> re_sandboxBase e = None)) (NoSandboxBase (ra_id a) (ra_endpoint a))"

definition check_shared :: "string \<times> resolved_agent list \<Rightarrow> config_error + unit" where
  "check_shared x = (case x of (ep, as) \<Rightarrow> failIf (2 \<le> length as) (SharedEndpoint ep (map ra_id as)))"

section \<open>Prices and pins\<close>

definition rate_of :: "rate_file \<Rightarrow> rate" where
  "rate_of r = \<lparr>rt_input = ft_input r, rt_output = ft_output r, rt_cacheRead = ft_cache_read r, rt_cacheWrite = ft_cache_write r\<rparr>"

definition peak_window_of :: "string \<times> string \<Rightarrow> config_error + peak_window" where
  "peak_window_of w = (case (parseUtcTime (fst w), parseUtcTime (snd w)) of
     (Some a, Some b) \<Rightarrow> Inr \<lparr>pw_startMinuteUtc = a, pw_endMinuteUtc = b\<rparr> | _ \<Rightarrow> Inl BadPeakWindow)"

definition pricing_of :: "pricing_file option \<Rightarrow> config_error + pricing_table" where
  "pricing_of p = (case p of
     None \<Rightarrow> Inr DEFAULT_PRICING
   | Some f \<Rightarrow> bindE (mapE peak_window_of (fp_peak_windows_utc f)) (\<lambda>ws. Inr
       \<lparr>pt_rates = map_of (map (\<lambda>(k, m). (k, \<lparr>mp_offPeak = rate_of (fm_off_peak m), mp_peak = map_option rate_of (fm_peak m)\<rparr>)) (fp_models f)),
        pt_peakWindows = ws, pt_weekendsOffPeak = Some (fp_weekends_off_peak f), pt_pricingTimeZone = Some (fp_timezone f)\<rparr>))"

definition check_pin :: "pricing_table \<Rightarrow> resolved_agent \<Rightarrow> config_error + unit" where
  "check_pin t a =
     (if (ra_provider a = None) \<noteq> (ra_model a = None) then Inl (HalfPinned (ra_id a))
      else (case (ra_provider a, ra_model a) of
        (Some p, Some m) \<Rightarrow> failIf (ra_public a \<and> pt_rates t m = None \<and> pt_rates t (p @ ''/'' @ m) = None) (NoRate (ra_id a))
      | _ \<Rightarrow> failIf (ra_public a) (PublicUnpinned (ra_id a))))"

section \<open>Services\<close>

record resolved_thresholds =
  rh_minFreeCpuPercent :: rat
  rh_minFreeMemBytes :: rat
  rh_minFreeDiskBytes :: rat

record resolved_service =
  rv_id :: string
  rv_label :: string
  rv_workers :: "string list"
  rv_surfaces :: "surface list"
  rv_knowledge :: "knowledge_file list"
  rv_count :: int
  rv_maxSessionsPerAgent :: int
  rv_permission :: permission
  rv_sessionIdleHours :: rat
  rv_placement :: spread
  rv_machines :: "string list"
  rv_maxAgentsPerMachine :: int
  rv_persona :: "string option"
  rv_thresholds :: resolved_thresholds

definition persona_of :: "string option \<Rightarrow> string option" where
  "persona_of p = (case p of None \<Rightarrow> None | Some s \<Rightarrow> if js_trim s = [] then None else Some (js_trim s))"

definition thresholds_of :: "thresholds_file option \<Rightarrow> resolved_thresholds" where
  "thresholds_of t =
     (let pick = (\<lambda>sel d. case t of None \<Rightarrow> d | Some f \<Rightarrow> (case sel f of None \<Rightarrow> d | Some v \<Rightarrow> v))
      in \<lparr>rh_minFreeCpuPercent = pick fh_min_free_cpu_percent (th_minFreeCpuPercent DEFAULT_THRESHOLDS),
          rh_minFreeMemBytes = pick fh_min_free_mem_bytes (of_int (th_minFreeMemBytes DEFAULT_THRESHOLDS)),
          rh_minFreeDiskBytes = pick fh_min_free_disk_bytes (of_int (th_minFreeDiskBytes DEFAULT_THRESHOLDS))\<rparr>)"

definition service_of :: "service_file \<Rightarrow> resolved_service" where
  "service_of s = \<lparr>rv_id = fv_id s, rv_label = fv_label s, rv_workers = fv_workers s, rv_surfaces = fv_surfaces s,
     rv_knowledge = fv_knowledge s, rv_count = fv_count s, rv_maxSessionsPerAgent = fv_max_sessions_per_agent s,
     rv_permission = fv_permission s, rv_sessionIdleHours = fv_session_idle_hours s, rv_placement = fv_placement s,
     rv_machines = fv_machines s, rv_maxAgentsPerMachine = fv_max_agents_per_machine s, rv_persona = persona_of (fv_persona s),
     rv_thresholds = thresholds_of (fv_thresholds s)\<rparr>"

definition agent_named :: "resolved_agent list \<Rightarrow> string \<Rightarrow> resolved_agent option" where
  "agent_named as i = List.find (\<lambda>a. ra_id a = i) as"

definition check_worker :: "resolved_agent list \<Rightarrow> string \<Rightarrow> string \<Rightarrow> config_error + unit" where
  "check_worker as svc w = (case agent_named as w of
     None \<Rightarrow> Inl (UnknownWorker svc w) | Some a \<Rightarrow> failIf (\<not> ra_public a) (WorkerNotPublic svc w))"

definition check_placement :: "service_file \<Rightarrow> config_error + unit" where
  "check_placement s =
     (if fv_placement s = PlacePin \<and> fv_machines s = [] then Inl (PinWithoutMachines (fv_id s))
      else if fv_placement s \<noteq> PlacePin \<and> fv_machines s \<noteq> [] then Inl (MachinesWithoutPin (fv_id s))
      else if fv_placement s = PlacePin \<and> fv_count s > int (length (fv_machines s)) * fv_max_agents_per_machine s
      then Inl (PinTooSmall (fv_id s))
      else failIf (fv_count s \<noteq> int (length (fv_workers s))) (CountMismatch (fv_id s)))"

fun resolve_services :: "resolved_agent list \<Rightarrow> string list \<Rightarrow> service_file list \<Rightarrow> config_error + resolved_service list" where
  "resolve_services as seen [] = Inr []"
| "resolve_services as seen (s # ss) =
     bindE (failIf (fv_id s \<in> set seen) (DuplicateService (fv_id s))) (\<lambda>_.
     bindE (checkE (check_worker as (fv_id s)) (fv_workers s)) (\<lambda>_.
     bindE (check_placement s) (\<lambda>_.
     bindE (resolve_services as (fv_id s # seen) ss) (\<lambda>rs. Inr (service_of s # rs)))))"

section \<open>Machines\<close>

definition machineIdOf :: "resolved_endpoint list \<Rightarrow> string \<Rightarrow> string" where
  "machineIdOf eps i = (case endpoint_of eps i of None \<Rightarrow> ''local'' | Some e \<Rightarrow> (case re_spawn e of None \<Rightarrow> ''local''
     | Some s \<Rightarrow> (case rs_host s of None \<Rightarrow> ''local'' | Some h \<Rightarrow> h)))"

text \<open>Assigning service by service and worker by worker: the last service that lists an agent has it.\<close>

definition serviceOfAgent :: "resolved_service list \<Rightarrow> string \<rightharpoonup> string" where
  "serviceOfAgent svcs = map_of (rev (concat (map (\<lambda>s. map (\<lambda>w. (w, rv_id s)) (rv_workers s)) svcs)))"

definition check_machine :: "resolved_service list \<Rightarrow> string \<times> resolved_agent list \<Rightarrow> config_error + unit" where
  "check_machine svcs x = (case x of (machine, as) \<Rightarrow>
     (let outward = filter ra_public as; internal = filter (\<lambda>a. \<not> ra_public a) as;
          ids = first_occurrences (List.map_filter (\<lambda>a. serviceOfAgent svcs (ra_id a)) outward)
      in if outward \<noteq> [] \<and> internal \<noteq> [] then Inl (MixedMachine machine)
         else failIf (1 < length ids) (MachineServesTwo machine ids)))"

section \<open>The whole\<close>

datatype trust = NoTrust | FullTrust | TrustHops string

definition parseTrustProxy :: "string option \<Rightarrow> trust" where
  "parseTrustProxy raw =
     (let v = js_trim (case raw of None \<Rightarrow> [] | Some s \<Rightarrow> s) in
      if v = [] \<or> lower v = ''false'' \<or> all_digits v then NoTrust else if lower v = ''true'' then FullTrust else TrustHops v)"

datatype config_warning = Migrated int int | HopCountIgnored

record resolved_config =
  rc_listen :: listen_file
  rc_trustProxy :: trust
  rc_endpoints :: "resolved_endpoint list"
  rc_agents :: "resolved_agent list"
  rc_timeoutMs :: int
  rc_silenceMs :: int
  rc_outwardTimeoutMs :: int
  rc_maxConsecutiveFailures :: int
  rc_dailyBudgetMicroUsd :: "int option"
  rc_databasePath :: string
  rc_reconcileIntervalMs :: int
  rc_brainDailyBudgetMicroUsd :: "int option"
  rc_pricing :: pricing_table
  rc_backup :: backup_file
  rc_publicApi :: public_api_file
  rc_services :: "resolved_service list"
  rc_sessionSecret :: string
  rc_username :: string
  rc_password :: "string option"
  rc_warnings :: "config_warning list"

definition micro_usd :: "rat option \<Rightarrow> int option" where
  "micro_usd b = map_option (\<lambda>x. js_round (x * 1000000)) b"

definition envSchema :: "(string \<Rightarrow> string option) \<Rightarrow> config_error + string" where
  "envSchema env = (case env ''SESSION_SECRET'' of Some s \<Rightarrow> if 32 \<le> length s then Inr s else Inl InvalidEnvironment | None \<Rightarrow> Inl InvalidEnvironment)"

definition warnings_of :: "(string \<Rightarrow> string option) \<Rightarrow> bool \<Rightarrow> config_warning list" where
  "warnings_of env migrated = (if migrated then [Migrated 0 1] else []) @
     (if all_digits (js_trim (case env ''TRUST_PROXY'' of None \<Rightarrow> [] | Some s \<Rightarrow> s)) then [HopCountIgnored] else [])"

definition config_of :: "(string \<Rightarrow> string option) \<Rightarrow> (string \<Rightarrow> string) \<Rightarrow> file_config \<Rightarrow> string \<Rightarrow> resolved_endpoint list \<Rightarrow> resolved_agent list \<Rightarrow>
    pricing_table \<Rightarrow> resolved_service list \<Rightarrow> config_warning list \<Rightarrow> resolved_config" where
  "config_of env resolve file secret eps as prices svcs warnings =
     \<lparr>rc_listen = ff_listen file, rc_trustProxy = parseTrustProxy (env ''TRUST_PROXY''), rc_endpoints = eps, rc_agents = as,
      rc_timeoutMs = fn_timeout_minutes (ff_runner file) * 60000, rc_silenceMs = fn_silence_timeout_minutes (ff_runner file) * 60000,
      rc_outwardTimeoutMs = fn_outward_timeout_minutes (ff_runner file) * 60000,
      rc_maxConsecutiveFailures = fn_max_consecutive_failures (ff_runner file),
      rc_dailyBudgetMicroUsd = micro_usd (fn_daily_budget_usd (ff_runner file)), rc_databasePath = resolve (ff_database_path file),
      rc_reconcileIntervalMs = ff_reconcile_interval_minutes file * 60000,
      rc_brainDailyBudgetMicroUsd = micro_usd (ff_brain_daily_budget_usd file), rc_pricing = prices, rc_backup = ff_backup file,
      rc_publicApi = ff_public_api file, rc_services = svcs, rc_sessionSecret = secret,
      rc_username = (case env ''MANAGER_USERNAME'' of None \<Rightarrow> ''admin'' | Some u \<Rightarrow> u),
      rc_password = (case env ''MANAGER_INITIAL_PASSWORD'' of None \<Rightarrow> None | Some p \<Rightarrow> if p = [] then None else Some p),
      rc_warnings = warnings\<rparr>"

definition resolve_file :: "(string \<Rightarrow> string option) \<Rightarrow> (string \<Rightarrow> string) \<Rightarrow> config_warning list \<Rightarrow> file_config \<Rightarrow> config_error + resolved_config" where
  "resolve_file env resolve warnings file =
     bindE (envSchema env) (\<lambda>secret.
     bindE (mapE (resolve_endpoint env resolve) (ff_endpoints file)) (\<lambda>eps.
     bindE (mapE (resolve_agent resolve eps) (ff_agents file)) (\<lambda>as.
     bindE (checkE (check_sandbox eps) as) (\<lambda>_.
     bindE (checkE check_shared (group_by ra_endpoint as)) (\<lambda>_.
     bindE (pricing_of (ff_pricing file)) (\<lambda>prices.
     bindE (checkE (check_pin prices) as) (\<lambda>_.
     bindE (resolve_services as [] (ff_services file)) (\<lambda>svcs.
     bindE (checkE (check_machine svcs) (group_by (\<lambda>a. machineIdOf eps (ra_endpoint a)) as)) (\<lambda>_.
     bindE (failIf (fq_enabled (ff_public_api file) \<and> fq_port (ff_public_api file) = fl_port (ff_listen file) \<and>
                    fq_host (ff_public_api file) = fl_host (ff_listen file)) (PortClash (fq_port (ff_public_api file)))) (\<lambda>_.
     Inr (config_of env resolve file secret eps as prices svcs warnings)))))))))))"

definition loadConfig :: "(string \<Rightarrow> bool) \<Rightarrow> (string \<Rightarrow> string option) \<Rightarrow> (string \<Rightarrow> string) \<Rightarrow> yaml \<Rightarrow> config_error + resolved_config" where
  "loadConfig is_url env resolve raw =
     bindE (migrateConfigIfNeeded raw) (\<lambda>(doc, migrated).
     (case fileSchema is_url (Some doc) of
        None \<Rightarrow> Inl InvalidFile
      | Some file \<Rightarrow> resolve_file env resolve (warnings_of env migrated) file))"

section \<open>What a successful stage has checked\<close>

lemma bindE_Inr [simp]: "bindE r f = Inr y \<longleftrightarrow> (\<exists>x. r = Inr x \<and> f x = Inr y)"
  by (cases r) (simp_all add: bindE_def)

lemma failIf_Inr [simp]: "failIf b e = Inr u \<longleftrightarrow> \<not> b"
  by (simp add: failIf_def)

lemma checkE_Inr [simp]: "checkE f xs = Inr u \<longleftrightarrow> (\<forall>x \<in> set xs. f x = Inr ())"
  by (induction xs) simp_all

lemma mapE_Inr: "mapE f xs = Inr ys \<longleftrightarrow> list_all2 (\<lambda>x y. f x = Inr y) xs ys"
  by (induction xs arbitrary: ys) (auto simp: list_all2_Cons1)

lemma set_first_occurrences [simp]: "set (first_occurrences xs) = set xs"
  by (simp add: first_occurrences_def)

lemma distinct_first_occurrences [simp]: "distinct (first_occurrences xs)"
  by (simp add: first_occurrences_def)

lemma ball_group_by: "(\<forall>x \<in> set (group_by key xs). P x) \<longleftrightarrow> (\<forall>a \<in> set xs. P (key a, filter (\<lambda>x. key x = key a) xs))"
  by (auto simp: group_by_def)

lemma two_same_key:
  assumes "i < j" "j < length xs" "key (xs ! i) = key (xs ! j)"
  shows "2 \<le> length (filter (\<lambda>x. key x = key (xs ! j)) xs)"
proof -
  let ?P = "\<lambda>x. key x = key (xs ! j)"
  have "length (filter ?P xs) = length (filter ?P (take j xs @ xs ! j # drop (Suc j) xs))"
    by (rule arg_cong [OF id_take_nth_drop [OF assms(2)], of "\<lambda>l. length (filter ?P l)"])
  then have "length (filter ?P xs) = length (filter ?P (take j xs)) + Suc (length (filter ?P (drop (Suc j) xs)))"
    by simp
  moreover have "xs ! i \<in> set (filter ?P (take j xs))"
    using assms by (auto simp: in_set_conv_nth intro!: exI [of _ i])
  then have "1 \<le> length (filter ?P (take j xs))"
    by (cases "filter ?P (take j xs)") auto
  ultimately show ?thesis by linarith
qed

lemma distinct_keys_if_no_pair:
  assumes "\<forall>a \<in> set xs. length (filter (\<lambda>x. key x = key a) xs) < 2"
  shows "distinct (map key xs)"
proof -
  have "key (xs ! i) \<noteq> key (xs ! j)" if "i < j" "j < length xs" for i j
    using two_same_key [of i j xs key] that assms by (metis leD nth_mem)
  then show ?thesis
    by (simp add: distinct_conv_nth) (metis linorder_neqE_nat)
qed

lemma agent_ids: "mapE (resolve_agent resolve eps) xs = Inr as \<Longrightarrow> map ra_id as = map fst xs \<and> map ra_endpoint as = map (fa_endpoint \<circ> snd) xs"
  unfolding mapE_Inr
  by (induction rule: list_all2_induct) (auto simp: resolve_agent_def split: option.splits if_splits)

section \<open>What a loaded configuration guarantees\<close>

definition machine_of :: "resolved_config \<Rightarrow> resolved_agent \<Rightarrow> string" where
  "machine_of c a = machineIdOf (rc_endpoints c) (ra_endpoint a)"

text \<open>
  Isolation: no two agents share an endpoint; on one machine the agents are all outward or all internal; and those that the
  registry of services assigns belong to one service.
\<close>

definition isolated :: "resolved_config \<Rightarrow> bool" where
  "isolated c \<longleftrightarrow> distinct (map ra_endpoint (rc_agents c)) \<and>
     (\<forall>a \<in> set (rc_agents c). \<forall>b \<in> set (rc_agents c). machine_of c a = machine_of c b \<longrightarrow>
        ra_public a = ra_public b \<and>
        (ra_public a \<longrightarrow> (\<forall>s t. serviceOfAgent (rc_services c) (ra_id a) = Some s \<longrightarrow>
                                 serviceOfAgent (rc_services c) (ra_id b) = Some t \<longrightarrow> s = t)))"

definition priced :: "pricing_table \<Rightarrow> resolved_agent \<Rightarrow> bool" where
  "priced t a \<longleftrightarrow> (case (ra_provider a, ra_model a) of
     (Some p, Some m) \<Rightarrow> pt_rates t m \<noteq> None \<or> pt_rates t (p @ ''/'' @ m) \<noteq> None | _ \<Rightarrow> False)"

definition service_sound :: "resolved_config \<Rightarrow> resolved_service \<Rightarrow> bool" where
  "service_sound c s \<longleftrightarrow>
     rv_count s = int (length (rv_workers s)) \<and>
     int (card (set (rv_workers s))) \<le> rv_count s \<and>
     (\<forall>w \<in> set (rv_workers s). \<exists>a \<in> set (rc_agents c). ra_id a = w \<and> ra_public a \<and> priced (rc_pricing c) a) \<and>
     (if rv_placement s = PlacePin then rv_machines s \<noteq> [] \<and> rv_count s \<le> int (length (rv_machines s)) * rv_maxAgentsPerMachine s
      else rv_machines s = [])"

lemma service_of_parts [simp]:
  "rv_id (service_of s) = fv_id s" "rv_workers (service_of s) = fv_workers s" "rv_count (service_of s) = fv_count s"
  "rv_placement (service_of s) = fv_placement s" "rv_machines (service_of s) = fv_machines s"
  "rv_maxAgentsPerMachine (service_of s) = fv_max_agents_per_machine s"
  by (simp_all add: service_of_def)

lemma resolve_services_Inr:
  assumes "resolve_services as seen ss = Inr rs"
  shows "distinct (map fv_id ss) \<and> set (map fv_id ss) \<inter> set seen = {} \<and> rs = map service_of ss \<and>
    (\<forall>s \<in> set ss. (\<forall>w \<in> set (fv_workers s). check_worker as (fv_id s) w = Inr ()) \<and> check_placement s = Inr ())"
  using assms
proof (induction ss arbitrary: seen rs)
  case (Cons s ss)
  then obtain rs' where rs: "rs = service_of s # rs'" and r: "resolve_services as (fv_id s # seen) ss = Inr rs'"
    and w: "\<forall>w \<in> set (fv_workers s). check_worker as (fv_id s) w = Inr ()" and p: "check_placement s = Inr ()" and d: "fv_id s \<notin> set seen"
    by auto
  from Cons.IH [OF r] w p d show ?case
    by (auto simp: rs)
qed simp

lemma resolve_file_Inr:
  assumes "resolve_file env resolve ws file = Inr c"
  obtains secret eps as prices svcs where
    "mapE (resolve_endpoint env resolve) (ff_endpoints file) = Inr eps"
    "mapE (resolve_agent resolve eps) (ff_agents file) = Inr as"
    "\<forall>x \<in> set (group_by ra_endpoint as). check_shared x = Inr ()"
    "pricing_of (ff_pricing file) = Inr prices"
    "\<forall>a \<in> set as. check_pin prices a = Inr ()"
    "resolve_services as [] (ff_services file) = Inr svcs"
    "\<forall>x \<in> set (group_by (\<lambda>a. machineIdOf eps (ra_endpoint a)) as). check_machine svcs x = Inr ()"
    "c = config_of env resolve file secret eps as prices svcs ws"
  using assms unfolding resolve_file_def bindE_Inr checkE_Inr failIf_Inr by auto

lemma loadConfig_Inr:
  assumes "loadConfig is_url env resolve raw = Inr c"
  obtains doc migrated fc where "migrateConfigIfNeeded raw = Inr (doc, migrated)" "fileSchema is_url (Some doc) = Some fc"
    "resolve_file env resolve (warnings_of env migrated) fc = Inr c"
  using assms unfolding loadConfig_def bindE_Inr by (auto split: option.splits)

lemma config_of_parts [simp]:
  "rc_endpoints (config_of env resolve file secret eps as prices svcs ws) = eps"
  "rc_agents (config_of env resolve file secret eps as prices svcs ws) = as"
  "rc_services (config_of env resolve file secret eps as prices svcs ws) = svcs"
  "rc_pricing (config_of env resolve file secret eps as prices svcs ws) = prices"
  by (simp_all add: config_of_def)

lemma one_id:
  assumes "\<not> 1 < length (first_occurrences xs)" "x \<in> set xs" "y \<in> set xs"
  shows "x = y"
proof (rule ccontr)
  assume "x \<noteq> y"
  have "card {x, y} \<le> card (set (first_occurrences xs))"
    using assms(2,3) by (intro card_mono) auto
  also have "\<dots> \<le> length (first_occurrences xs)"
    by (rule card_length)
  finally show False
    using assms(1) \<open>x \<noteq> y\<close> by simp
qed

lemma check_machine_Inr:
  assumes "check_machine svcs (k, as) = Inr ()" "a \<in> set as" "b \<in> set as"
  shows "ra_public a = ra_public b \<and>
    (ra_public a \<longrightarrow> (\<forall>s t. serviceOfAgent svcs (ra_id a) = Some s \<longrightarrow> serviceOfAgent svcs (ra_id b) = Some t \<longrightarrow> s = t))"
proof -
  let ?out = "filter ra_public as" and ?f = "\<lambda>a. serviceOfAgent svcs (ra_id a)"
  have "?out = [] \<or> filter (\<lambda>a. \<not> ra_public a) as = []"
    using assms(1) by (auto simp: check_machine_def Let_def split: if_splits)
  then have pub: "ra_public a = ra_public b"
    using assms(2,3) by (auto simp: filter_empty_conv)
  have one: "\<not> 1 < length (first_occurrences (List.map_filter ?f ?out))"
    using assms(1) by (auto simp: check_machine_def Let_def split: if_splits)
  have "s = t" if "ra_public a" "?f a = Some s" "?f b = Some t" for s t
    by (rule one_id [OF one]) (use that pub assms(2,3) in \<open>auto simp: map_filter_def image_iff intro!: bexI\<close>)
  with pub show ?thesis by blast
qed

lemma in_own_group: "a \<in> set xs \<Longrightarrow> a \<in> set (filter (\<lambda>x. key x = key a) xs)"
  by simp

text \<open>
  Claim C24. A configuration that loads isolates its agents. Every agent has an endpoint of its own; a machine hosts outward agents or
  internal ones but never both; and two outward agents of a machine that the table of memberships assigns are assigned to the same
  service. A file that would break one of these is refused at boot, whatever else it says.
\<close>

theorem loaded_config_isolates:
  assumes "loadConfig is_url env resolve raw = Inr c"
  shows "isolated c"
proof -
  obtain doc migrated fc where "resolve_file env resolve (warnings_of env migrated) fc = Inr c"
    using assms by (rule loadConfig_Inr)
  then obtain secret eps as prices svcs where
    shared: "\<forall>x \<in> set (group_by ra_endpoint as). check_shared x = Inr ()" and
    mach: "\<forall>x \<in> set (group_by (\<lambda>a. machineIdOf eps (ra_endpoint a)) as). check_machine svcs x = Inr ()" and
    c: "c = config_of env resolve fc secret eps as prices svcs (warnings_of env migrated)"
    by (rule resolve_file_Inr)
  have "\<forall>a \<in> set as. length (filter (\<lambda>x. ra_endpoint x = ra_endpoint a) as) < 2"
    using shared unfolding ball_group_by by (simp add: check_shared_def not_le)
  then have "distinct (map ra_endpoint as)"
    by (rule distinct_keys_if_no_pair)
  moreover have "ra_public a = ra_public b \<and> (ra_public a \<longrightarrow> (\<forall>s t. serviceOfAgent svcs (ra_id a) = Some s \<longrightarrow>
      serviceOfAgent svcs (ra_id b) = Some t \<longrightarrow> s = t))"
    if ab: "a \<in> set as" "b \<in> set as" "machineIdOf eps (ra_endpoint a) = machineIdOf eps (ra_endpoint b)" for a b
  proof -
    have "check_machine svcs (machineIdOf eps (ra_endpoint a), filter (\<lambda>x. machineIdOf eps (ra_endpoint x) = machineIdOf eps (ra_endpoint a)) as) = Inr ()"
      using mach ab(1) unfolding ball_group_by by blast
    then show ?thesis
      by (rule check_machine_Inr) (use ab in simp_all)
  qed
  ultimately show ?thesis
    unfolding isolated_def c machine_of_def config_of_parts by blast
qed


section \<open>Migration\<close>

definition sans_migration :: "resolved_config \<Rightarrow> resolved_config" where
  "sans_migration c = c\<lparr>rc_warnings := filter (\<lambda>w. w = HopCountIgnored) (rc_warnings c)\<rparr>"

lemma resolve_file_warnings:
  assumes "resolve_file env resolve ws file = Inr c"
  shows "resolve_file env resolve ws' file = Inr (c\<lparr>rc_warnings := ws'\<rparr>)"
proof -
  have "config_of env resolve file secret eps as prices svcs ws' = config_of env resolve file secret eps as prices svcs ws\<lparr>rc_warnings := ws'\<rparr>"
    for secret eps as prices svcs
    by (simp add: config_of_def)
  then show ?thesis
    using assms unfolding resolve_file_def bindE_Inr by auto
qed

text \<open>
  Migrating a file without a version and writing it back changes nothing but the version: the next boot reads the stamped
  file, does not migrate again, and loads exactly the configuration that the first boot loaded, without the note on the migration.
\<close>

theorem migrated_file_loads_the_same:
  assumes "map_of kvs ''config_version'' = None" and "loadConfig is_url env resolve (YMap kvs) = Inr c"
  shows "migrateConfigIfNeeded (YMap kvs) = Inr (up_0_1 (YMap kvs), True) \<and>
    migrateConfigIfNeeded (up_0_1 (YMap kvs)) = Inr (up_0_1 (YMap kvs), False) \<and>
    loadConfig is_url env resolve (up_0_1 (YMap kvs)) = Inr (sans_migration c)"
proof -
  let ?doc = "up_0_1 (YMap kvs)"
  have v: "versionOf (YMap kvs) = 0" "versionOf ?doc = 1"
    using assms(1) by (simp_all add: versionOf_def yget_def z_int_def z_number_def up_0_1_def)
  then have m: "migrateConfigIfNeeded (YMap kvs) = Inr (?doc, True)" "migrateConfigIfNeeded ?doc = Inr (?doc, False)"
    by (simp_all add: migrateConfigIfNeeded_def CURRENT_CONFIG_VERSION_def)
  then obtain fc where fc: "fileSchema is_url (Some ?doc) = Some fc" "resolve_file env resolve (warnings_of env True) fc = Inr c"
    using assms(2) unfolding loadConfig_def by (auto split: option.splits)
  have "rc_warnings c = warnings_of env True"
    using fc(2) by (rule resolve_file_Inr) (simp add: config_of_def)
  then have "filter (\<lambda>w. w = HopCountIgnored) (rc_warnings c) = warnings_of env False"
    by (simp add: warnings_of_def)
  with resolve_file_warnings [OF fc(2), of "warnings_of env False"]
  have "loadConfig is_url env resolve ?doc = Inr (sans_migration c)"
    by (simp add: loadConfig_def m bindE_def fc(1) sans_migration_def)
  with m show ?thesis by simp
qed

text \<open>
  A file that says version 0 itself is never stamped: the step puts its version in front of the fields of the file, which
  then overwrite it. Migration is reported, the file is rewritten without its comments, and the next boot does the same again.
\<close>

theorem explicit_version_zero_migrates_forever:
  assumes "map_of kvs ''config_version'' = Some (YNum 0)"
  shows "migrateConfigIfNeeded (YMap kvs) = Inr (up_0_1 (YMap kvs), True) \<and>
    migrateConfigIfNeeded (up_0_1 (YMap kvs)) = Inr (up_0_1 (YMap kvs), True)"
proof -
  have "versionOf (YMap kvs) = 0" "versionOf (up_0_1 (YMap kvs)) = 0"
    using assms by (simp_all add: versionOf_def yget_def z_int_def z_number_def up_0_1_def)
  moreover have "up_0_1 (up_0_1 (YMap kvs)) = up_0_1 (YMap kvs)"
    using assms by (auto simp: up_0_1_def filter_id_conv)
  ultimately show ?thesis
    by (simp add: migrateConfigIfNeeded_def CURRENT_CONFIG_VERSION_def)
qed

lemma explicit_version_zero_migrates_forever_witness:
  "migrateConfigIfNeeded (up_0_1 (YMap [(''config_version'', YNum 0), (''agents'', YMap [])])) =
     Inr (YMap [(''config_version'', YNum 0), (''agents'', YMap [])], True)"
proof -
  have "map_of [(''config_version'', YNum 0), (''agents'', YMap [])] ''config_version'' = Some (YNum 0)" by simp
  from explicit_version_zero_migrates_forever [OF this, THEN conjunct2] show ?thesis
    by (simp add: up_0_1_def)
qed

section \<open>Sample files\<close>

definition sample_env :: "string \<Rightarrow> string option" where
  "sample_env name = (if name = ''SESSION_SECRET'' then Some (replicate 32 CHR ''s'') else None)"

definition sample_agent_yaml :: "string \<Rightarrow> yaml" where
  "sample_agent_yaml ep = YMap [(''name'', YStr ''A''), (''endpoint'', YStr ep), (''workspace'', YStr ''/ws''), (''public'', YBool True),
     (''provider'', YStr ''deepseek''), (''model'', YStr ''deepseek-v4-flash'')]"

definition sample_service_yaml :: "string \<Rightarrow> string list \<Rightarrow> yaml" where
  "sample_service_yaml i ws = YMap [(''id'', YStr i), (''label'', YStr ''L''), (''workers'', YSeq (map YStr ws)),
     (''count'', YNum (of_nat (length ws)))]"

definition sample_yaml :: "string \<Rightarrow> string \<Rightarrow> yaml list \<Rightarrow> yaml" where
  "sample_yaml url1 url2 svcs = YMap [(''endpoints'', YMap [(''e1'', YMap [(''url'', YStr url1)]), (''e2'', YMap [(''url'', YStr url2)])]),
     (''agents'', YMap [(''a1'', sample_agent_yaml ''e1''), (''a2'', sample_agent_yaml ''e2'')]), (''services'', YSeq svcs)]"

definition load_sample :: "yaml \<Rightarrow> config_error + resolved_config" where
  "load_sample = loadConfig (\<lambda>s. True) sample_env (\<lambda>p. p)"

definition sample_good :: yaml where
  "sample_good = sample_yaml ''http://x'' ''http://y'' [sample_service_yaml ''s'' [''a1'', ''a2'']]"

lemma sample_loads: "loadConfig (\<lambda>s. True) sample_env (\<lambda>p. p) sample_good = Inr (projr (load_sample sample_good))"
proof -
  have "\<not> isl (load_sample sample_good)" by code_simp
  then show ?thesis by (simp add: load_sample_def)
qed

lemma loaded_config_isolates_witness: "isolated (projr (load_sample sample_good)) \<and> map ra_id (rc_agents (projr (load_sample sample_good))) = [''a1'', ''a2'']"
proof
  show "isolated (projr (load_sample sample_good))"
    by (rule loaded_config_isolates [OF sample_loads])
qed code_simp


lemma migrated_file_loads_the_same_witness:
  "loadConfig (\<lambda>s. True) sample_env (\<lambda>p. p) (up_0_1 sample_good) = Inr (sans_migration (projr (load_sample sample_good)))"
proof -
  obtain kvs where kvs: "sample_good = YMap kvs" "map_of kvs ''config_version'' = None"
    by (simp add: sample_good_def sample_yaml_def)
  from migrated_file_loads_the_same [OF kvs(2) sample_loads [unfolded kvs(1)]] show ?thesis
    by (simp add: kvs(1))
qed

text \<open>
  An agent may serve two services at once: the table of memberships keeps the last service that lists it, so neither the
  check of the workers nor the check of the machines sees the first. The file with two services over the same two agents loads.
\<close>

theorem agent_in_two_services_accepted:
  "map_sum (\<lambda>e. e) (\<lambda>c. (map (\<lambda>s. (rv_id s, rv_workers s)) (rc_services c), serviceOfAgent (rc_services c) ''a1''))
     (load_sample (sample_yaml ''http://x'' ''http://y'' [sample_service_yaml ''s'' [''a1'', ''a2''], sample_service_yaml ''t'' [''a1'', ''a2'']])) =
   Inr ([(''s'', [''a1'', ''a2'']), (''t'', [''a1'', ''a2''])], Some ''t'')"
  by code_simp

text \<open>
  One process may serve two agents: endpoints are compared by name, so two names of the same address pass.
\<close>

theorem same_address_accepted_twice:
  "map_sum (\<lambda>e. e) (\<lambda>c. (map re_url (rc_endpoints c), map ra_endpoint (rc_agents c))) (load_sample (sample_yaml ''http://x'' ''http://x/'' [])) =
   Inr ([''http://x'', ''http://x''], [''e1'', ''e2''])"
  by code_simp

text \<open>
  A service may count one agent twice: the number of workers is the length of the list, repetitions included.
\<close>

theorem repeated_worker_counted_twice:
  "map_sum (\<lambda>e. e) (\<lambda>c. map (\<lambda>s. (rv_count s, rv_workers s)) (rc_services c))
     (load_sample (sample_yaml ''http://x'' ''http://y'' [sample_service_yaml ''s'' [''a1'', ''a1'']])) = Inr [(2, [''a1'', ''a1''])]"
  by code_simp

text \<open>Migrating a migrated document changes nothing any more, whether or not it has its stamp.\<close>

lemma migrate_again:
  assumes "migrateConfigIfNeeded raw = Inr (up_0_1 raw, True)"
  obtains b where "migrateConfigIfNeeded (up_0_1 raw) = Inr (up_0_1 raw, b)"
proof -
  have "versionOf raw = 0"
    using assms by (auto simp: migrateConfigIfNeeded_def CURRENT_CONFIG_VERSION_def versionOf_def split: if_splits option.splits)
  then have "versionOf (up_0_1 raw) \<le> 1 \<and> (versionOf (up_0_1 raw) \<noteq> 1 \<longrightarrow> up_0_1 (up_0_1 raw) = up_0_1 raw)"
    by (cases raw) (auto simp: up_0_1_def versionOf_def yget_def z_int_def z_number_def filter_id_conv split: option.splits)
  then show thesis
    using that by (cases "versionOf (up_0_1 raw) = 1") (auto simp: migrateConfigIfNeeded_def CURRENT_CONFIG_VERSION_def)
qed

end
