(* ===== verification/ConfigEdit.thy ===== *)
theory ConfigEdit
  imports Config Upstream
begin

text \<open>
  Editing the services of the configuration from the back office (\<^verbatim>\<open>services/config-edit.ts\<close>, and the
  validated write \<^verbatim>\<open>mutateYamlFile\<close> of \<^verbatim>\<open>config-store.ts\<close>).

  The YAML package is a parameter: \<open>parse\<close> reads a text (None when it has syntax errors), \<open>edit\<close> prints the document that was
  parsed from a text after its content became the given value (keeping the comments), \<open>print\<close> prints a plain value. The text of the
  file is the state; any write may fail (\<open>disk\<close>), and the lock makes every operation one step.
\<close>

section \<open>Drafts\<close>

record knowledge_draft =
  kd_host :: string
  kd_mount :: string
  kd_read_only :: bool

record service_draft =
  sd_id :: string
  sd_label :: string
  sd_workers :: "string list"
  sd_surfaces :: "string list"
  sd_permission :: permission
  sd_session_idle_hours :: rat
  sd_placement :: spread
  sd_machines :: "string list"
  sd_max_agents_per_machine :: rat
  sd_max_sessions_per_agent :: rat
  sd_knowledge :: "knowledge_draft list"
  sd_thresholds :: "yaml option"
  sd_persona :: "string option"

text \<open>\<^verbatim>\<open>String(v)\<close>; how a number prints is a parameter. In a list null prints as nothing.\<close>

fun yaml_string :: "(rat \<Rightarrow> string) \<Rightarrow> yaml \<Rightarrow> string" where
  "yaml_string num YNull = ''null''"
| "yaml_string num (YBool b) = (if b then ''true'' else ''false'')"
| "yaml_string num (YNum n) = num n"
| "yaml_string num (YStr s) = s"
| "yaml_string num (YSeq xs) = join_comma (map (\<lambda>x. case x of YNull \<Rightarrow> [] | _ \<Rightarrow> yaml_string num x) xs)"
| "yaml_string num (YMap kvs) = ''[object Object]''"

definition string_or_empty :: "(rat \<Rightarrow> string) \<Rightarrow> yaml option \<Rightarrow> string" where
  "string_or_empty num v = (case v of None \<Rightarrow> [] | Some y \<Rightarrow> if y = YNull then [] else yaml_string num y)"

definition strings_or :: "(rat \<Rightarrow> string) \<Rightarrow> string list \<Rightarrow> yaml option \<Rightarrow> string list" where
  "strings_or num d v = (case v of Some (YSeq xs) \<Rightarrow> map (yaml_string num) xs | _ \<Rightarrow> d)"

definition number_or :: "rat \<Rightarrow> yaml option \<Rightarrow> rat" where
  "number_or d v = (case v of Some (YNum n) \<Rightarrow> n | _ \<Rightarrow> d)"

definition knowledge_draft_of :: "(rat \<Rightarrow> string) \<Rightarrow> yaml \<Rightarrow> knowledge_draft" where
  "knowledge_draft_of num row = \<lparr>kd_host = string_or_empty num (yget (Some row) ''host''),
     kd_mount = string_or_empty num (yget (Some row) ''mount''), kd_read_only = (yget (Some row) ''read_only'' \<noteq> Some (YBool False))\<rparr>"

definition draftOf :: "(rat \<Rightarrow> string) \<Rightarrow> yaml \<Rightarrow> service_draft" where
  "draftOf num raw = (let f = yget (Some raw) in
     \<lparr>sd_id = string_or_empty num (f ''id''), sd_label = string_or_empty num (f ''label''),
      sd_workers = strings_or num [] (f ''workers''),
      sd_surfaces = strings_or num [''tasks'', ''conversations''] (f ''surfaces''),
      sd_permission = (if f ''permission'' = Some (YStr ''write'') then PermWrite else PermRead),
      sd_session_idle_hours = number_or 24 (f ''session_idle_hours''),
      sd_placement = (if f ''placement'' = Some (YStr ''pack'') then PlacePack
                      else if f ''placement'' = Some (YStr ''pin'') then PlacePin else PlaceSpread),
      sd_machines = strings_or num [] (f ''machines''),
      sd_max_agents_per_machine = number_or 4 (f ''max_agents_per_machine''),
      sd_max_sessions_per_agent = number_or 4 (yget (f ''capacity'') ''max_sessions_per_agent''),
      sd_knowledge = (case f ''knowledge'' of Some (YSeq xs) \<Rightarrow> map (knowledge_draft_of num) xs | _ \<Rightarrow> []),
      sd_thresholds = (case f ''thresholds'' of Some (YMap t) \<Rightarrow> Some (YMap t) | Some (YSeq t) \<Rightarrow> Some (YSeq t) | _ \<Rightarrow> None),
      sd_persona = (case f ''persona'' of Some (YStr p) \<Rightarrow> if js_trim p = [] then None else Some p | _ \<Rightarrow> None)\<rparr>)"

definition permission_name :: "permission \<Rightarrow> string" where
  "permission_name p = (case p of PermRead \<Rightarrow> ''read'' | PermWrite \<Rightarrow> ''write'')"

definition spread_name :: "spread \<Rightarrow> string" where
  "spread_name p = (case p of PlaceSpread \<Rightarrow> ''spread'' | PlacePack \<Rightarrow> ''pack'' | PlacePin \<Rightarrow> ''pin'')"

definition knowledge_entry :: "knowledge_draft \<Rightarrow> yaml" where
  "knowledge_entry k = YMap [(''host'', YStr (kd_host k)), (''mount'', YStr (kd_mount k)), (''read_only'', YBool (kd_read_only k))]"

text \<open>The entry is an object whose keys are in the order of the code.\<close>

definition serviceEntryOf :: "service_draft \<Rightarrow> (string \<times> yaml) list" where
  "serviceEntryOf d =
     [(''id'', YStr (sd_id d)), (''label'', YStr (sd_label d)), (''workers'', YSeq (map YStr (sd_workers d))),
      (''count'', YNum (of_nat (length (sd_workers d)))), (''surfaces'', YSeq (map YStr (sd_surfaces d))),
      (''capacity'', YMap [(''max_sessions_per_agent'', YNum (sd_max_sessions_per_agent d))]),
      (''permission'', YStr (permission_name (sd_permission d))), (''session_idle_hours'', YNum (sd_session_idle_hours d)),
      (''placement'', YStr (spread_name (sd_placement d)))] @
     (if sd_placement d = PlacePin then [(''machines'', YSeq (map YStr (sd_machines d)))] else []) @
     [(''max_agents_per_machine'', YNum (sd_max_agents_per_machine d))] @
     (case sd_thresholds d of None \<Rightarrow> [] | Some t \<Rightarrow> [(''thresholds'', t)]) @
     (case sd_persona d of None \<Rightarrow> [] | Some p \<Rightarrow> if js_trim p = [] then [] else [(''persona'', YStr (js_trim p))]) @
     (if sd_knowledge d = [] then [] else [(''knowledge'', YSeq (map knowledge_entry (sd_knowledge d)))])"

section \<open>The document\<close>

definition service_items :: "yaml \<Rightarrow> yaml list" where
  "service_items doc = (case yget (Some doc) ''services'' of Some (YSeq xs) \<Rightarrow> xs | _ \<Rightarrow> [])"

definition has_id :: "string \<Rightarrow> yaml \<Rightarrow> bool" where
  "has_id i item \<longleftrightarrow> yget (Some item) ''id'' = Some (YStr i)"

text \<open>Replace the first element with a property.\<close>

fun replace_first :: "('a \<Rightarrow> bool) \<Rightarrow> 'a \<Rightarrow> 'a list \<Rightarrow> 'a list" where
  "replace_first P y [] = []"
| "replace_first P y (x # xs) = (if P x then y # xs else x # replace_first P y xs)"

fun remove_first :: "('a \<Rightarrow> bool) \<Rightarrow> 'a list \<Rightarrow> 'a list" where
  "remove_first P [] = []"
| "remove_first P (x # xs) = (if P x then xs else x # remove_first P xs)"

definition set_services :: "yaml list \<Rightarrow> yaml \<Rightarrow> yaml" where
  "set_services xs doc = (case doc of YMap kvs \<Rightarrow> YMap (AList.update ''services'' (YSeq xs) kvs) | _ \<Rightarrow> YMap [(''services'', YSeq xs)])"

text \<open>A section that is there but is no list makes the package throw when an item is added: None.\<close>

definition mergeInto :: "string \<Rightarrow> yaml \<Rightarrow> yaml \<Rightarrow> yaml option" where
  "mergeInto i entry doc = (case yget (Some doc) ''services'' of
     None \<Rightarrow> Some (set_services [entry] doc)
   | Some (YSeq xs) \<Rightarrow>
       Some (set_services (if list_ex (has_id i) xs then replace_first (has_id i) entry xs else xs @ [entry]) doc)
   | Some _ \<Rightarrow> None)"

definition entryOf :: "yaml \<Rightarrow> service_draft \<Rightarrow> yaml" where
  "entryOf onDisk d =
     (let entry = serviceEntryOf d in
      if sd_thresholds d \<noteq> None then YMap entry
      else (case List.find (has_id (sd_id d)) (service_items onDisk) of
          None \<Rightarrow> YMap entry
        | Some item \<Rightarrow> (case yget (Some item) ''thresholds'' of
              None \<Rightarrow> YMap entry
            | Some t \<Rightarrow> if t = YNull then YMap entry else YMap (entry @ [(''thresholds'', t)]))))"

section \<open>Loading and writing the file\<close>

datatype load_error = BadConfig config_error | CannotMigrate string

datatype write_error = YamlSyntax | SectionNotAList | CannotWrite string | Rejected load_error | RestoreFailed load_error string | ChangedOnDisk | DidNotSurvive

text \<open>
  The writes of an operation that may fail, with their messages. \<^verbatim>\<open>writeFileAtomic\<close> writes beside the file and renames; where a rename is impossible
  it writes in place, and when that fails the file has what was written so far: the text that is given, if any. A migration renames, and
  leaves the file as it was when it fails.
\<close>

datatype disk_step = WriteNew | MigrateNew | WriteBack | MigrateAgain

type_synonym disk = "disk_step \<Rightarrow> (string \<times> string option) option"

definition left_by :: "string option \<Rightarrow> string \<Rightarrow> string" where
  "left_by torn old = (case torn of None \<Rightarrow> old | Some t \<Rightarrow> t)"

text \<open>The operations of the YAML package and the platform.\<close>

record platform =
  pf_parse :: "string \<Rightarrow> yaml option"
  pf_edit :: "string \<Rightarrow> yaml \<Rightarrow> string"
  pf_print :: "yaml \<Rightarrow> string"
  pf_is_url :: "string \<Rightarrow> bool"
  pf_env :: "string \<Rightarrow> string option"
  pf_resolve :: "string \<Rightarrow> string"

text \<open>Loading may rewrite the file (a migration): the text afterwards and the result. None of the errors is a syntax error.\<close>

definition load_file :: "platform \<Rightarrow> (string \<times> string option) option \<Rightarrow> string \<Rightarrow> string \<times> (load_error + resolved_config)" where
  "load_file pf fault text = (case pf_parse pf text of
     None \<Rightarrow> (text, Inl (BadConfig InvalidFile))
   | Some raw \<Rightarrow>
       (let result = map_sum BadConfig (\<lambda>c. c) (loadConfig (pf_is_url pf) (pf_env pf) (pf_resolve pf) raw) in
        case migrateConfigIfNeeded raw of
          Inr (doc, True) \<Rightarrow> (case fault of Some (m, torn) \<Rightarrow> (text, Inl (CannotMigrate m)) | None \<Rightarrow> (pf_print pf doc, result))
        | _ \<Rightarrow> (text, result)))"

text \<open>\<^verbatim>\<open>mutateYamlFile\<close> with full validation: the text of the file afterwards, and the error. The first write is outside its \<^verbatim>\<open>try\<close>.\<close>

definition mutateYamlFile :: "disk \<Rightarrow> platform \<Rightarrow> (yaml \<Rightarrow> yaml option) \<Rightarrow> string \<Rightarrow> string \<times> (write_error + unit)" where
  "mutateYamlFile disk pf mutate before = (case pf_parse pf before of
     None \<Rightarrow> (before, Inl YamlSyntax)
   | Some doc \<Rightarrow> (case mutate doc of
       None \<Rightarrow> (before, Inl SectionNotAList)
     | Some doc2 \<Rightarrow>
         (let text2 = pf_edit pf before doc2 in
          if text2 = before then (before, Inr ())
          else (case disk WriteNew of
             Some (m, torn) \<Rightarrow> (left_by torn before, Inl (CannotWrite m))
           | None \<Rightarrow> (case load_file pf (disk MigrateNew) text2 of
                (text3, Inr c) \<Rightarrow> (text3, Inr ())
              | (text3, Inl e) \<Rightarrow> (case disk WriteBack of
                    None \<Rightarrow> (before, Inl (Rejected e))
                  | Some (m, torn) \<Rightarrow> (left_by torn text3, Inl (RestoreFailed e m))))))))"

definition lineDiff :: "string list \<Rightarrow> string list \<Rightarrow> (bool \<times> string) list" where
  "lineDiff old new = map (Pair False) (filter (\<lambda>l. l \<notin> set new \<and> js_trim l \<noteq> []) old) @
     map (Pair True) (filter (\<lambda>l. l \<notin> set old \<and> js_trim l \<noteq> []) new)"

definition previewService :: "platform \<Rightarrow> service_draft \<Rightarrow> string \<Rightarrow> write_error + (string \<times> (load_error + resolved_service option))" where
  "previewService pf d before = (case pf_parse pf before of
     None \<Rightarrow> Inl YamlSyntax
   | Some doc \<Rightarrow> (case mergeInto (sd_id d) (entryOf doc d) doc of
       None \<Rightarrow> Inl SectionNotAList
     | Some doc2 \<Rightarrow>
         (let text2 = pf_edit pf before doc2 in
          Inr (text2, map_sum (\<lambda>e. e) (\<lambda>c. List.find (\<lambda>s. rv_id s = sd_id d) (rc_services c)) (snd (load_file pf None text2))))))"

text \<open>What the running manager holds in memory of the configuration.\<close>

record live_config =
  lc_services :: "resolved_service list"
  lc_public :: "(string \<times> bool) list"

definition swap_public :: "resolved_agent list \<Rightarrow> (string \<times> bool) list \<Rightarrow> (string \<times> bool) list" where
  "swap_public as = map (\<lambda>(i, p). (i, case agent_named as i of None \<Rightarrow> p | Some a \<Rightarrow> ra_public a))"

definition applyService :: "(string \<Rightarrow> string) \<Rightarrow> disk \<Rightarrow> platform \<Rightarrow> service_draft \<Rightarrow> string option \<Rightarrow> string \<times> live_config \<Rightarrow>
    (string \<times> live_config) \<times> (write_error + bool)" where
  "applyService hash disk pf d expectHash s = (case s of (before, live) \<Rightarrow>
     if expectHash \<noteq> None \<and> expectHash \<noteq> Some (hash before) then (s, Inl ChangedOnDisk)
     else (case mutateYamlFile disk pf (\<lambda>doc. mergeInto (sd_id d) (entryOf doc d) doc) before of
         (text2, Inl e) \<Rightarrow> ((text2, live), Inl e)
       | (text2, Inr u) \<Rightarrow>
           (case load_file pf (disk MigrateAgain) text2 of
              (text3, Inl e) \<Rightarrow> ((text3, live), Inl (Rejected e))
            | (text3, Inr c) \<Rightarrow>
                if list_ex (\<lambda>v. rv_id v = sd_id d) (rc_services c)
                then ((text3, live\<lparr>lc_services := rc_services c, lc_public := swap_public (rc_agents c) (lc_public live)\<rparr>), Inr (text3 \<noteq> before))
                else ((text3, live), Inl DidNotSurvive))))"

definition deleteService :: "disk \<Rightarrow> platform \<Rightarrow> string \<Rightarrow> string \<times> live_config \<Rightarrow> (string \<times> live_config) \<times> (write_error + bool)" where
  "deleteService disk pf i s = (case s of (before, live) \<Rightarrow>
     (case pf_parse pf before of
        None \<Rightarrow> (s, Inl YamlSyntax)
      | Some doc \<Rightarrow>
          if \<not> list_ex (has_id i) (service_items doc) then (s, Inr False)
          else (case disk WriteNew of
             Some (m, torn) \<Rightarrow> ((left_by torn before, live), Inl (CannotWrite m))
           | None \<Rightarrow> (case load_file pf (disk MigrateNew) (pf_edit pf before (set_services (remove_first (has_id i) (service_items doc)) doc)) of
                (text3, Inr c) \<Rightarrow> ((text3, live\<lparr>lc_services := rc_services c\<rparr>), Inr True)
              | (text3, Inl e) \<Rightarrow> (case disk WriteBack of
                    None \<Rightarrow> ((before, live), Inl (Rejected e))
                  | Some (m, torn) \<Rightarrow> ((left_by torn text3, live), Inl (RestoreFailed e m)))))))"

section \<open>Candidates\<close>

datatype blocked = NoModelPin | NoRateFor string | AlreadyServes string

definition memberships :: "resolved_service list \<Rightarrow> string \<rightharpoonup> string" where
  "memberships svcs = serviceOfAgent svcs"

definition blockedReason :: "resolved_config \<Rightarrow> resolved_agent \<Rightarrow> blocked option" where
  "blockedReason c a =
     (if ra_provider a = None \<or> ra_model a = None then Some NoModelPin
      else (case ra_model a of None \<Rightarrow> Some NoModelPin
        | Some m \<Rightarrow>
            if pt_rates (rc_pricing c) m = None then Some (NoRateFor m)
            else (case memberships (rc_services c) (ra_id a) of
                None \<Rightarrow> None
              | Some s \<Rightarrow> Some (AlreadyServes (case List.find (\<lambda>v. ra_id a \<in> set (rv_workers v)) (rc_services c) of None \<Rightarrow> s | Some v \<Rightarrow> rv_id v)))))"

record worker_candidate =
  wc_id :: string
  wc_serviceId :: "string option"
  wc_machine :: string
  wc_priced :: bool
  wc_blocked :: "blocked option"

definition candidate_of :: "resolved_config \<Rightarrow> resolved_agent \<Rightarrow> worker_candidate" where
  "candidate_of c a = \<lparr>wc_id = ra_id a, wc_serviceId = memberships (rc_services c) (ra_id a),
     wc_machine = machineIdOf (rc_endpoints c) (ra_endpoint a),
     wc_priced = (case ra_model a of None \<Rightarrow> False | Some m \<Rightarrow> pt_rates (rc_pricing c) m \<noteq> None), wc_blocked = blockedReason c a\<rparr>"

definition candidates :: "resolved_config \<Rightarrow> worker_candidate list" where
  "candidates c = js_sort (\<lambda>a b. locale_compare (wc_id a) (wc_id b)) (map (candidate_of c) (filter ra_public (rc_agents c)))"

record machine_entry =
  me_id :: string
  me_services :: "string list"
  me_outwardAgents :: int

definition machine_entry_of :: "string \<times> worker_candidate list \<Rightarrow> machine_entry" where
  "machine_entry_of x = (case x of (m, ws) \<Rightarrow>
     \<lparr>me_id = m, me_services = first_occurrences (List.map_filter wc_serviceId ws), me_outwardAgents = int (length ws)\<rparr>)"

definition editor_machines :: "worker_candidate list \<Rightarrow> machine_entry list" where
  "editor_machines ws = js_sort (\<lambda>a b. locale_compare (me_id a) (me_id b)) (map machine_entry_of (group_by wc_machine ws))"

definition serviceEditorContext :: "(string \<Rightarrow> string) \<Rightarrow> (rat \<Rightarrow> string) \<Rightarrow> platform \<Rightarrow> resolved_config \<Rightarrow> string \<Rightarrow>
    (string \<times> service_draft list \<times> worker_candidate list \<times> machine_entry list) option" where
  "serviceEditorContext hash num pf c text = (case pf_parse pf text of
     None \<Rightarrow> None
   | Some doc \<Rightarrow> Some (hash text, map (draftOf num) (service_items doc), candidates c, editor_machines (candidates c)))"

section \<open>An edit that changes nothing\<close>

lemma length_js_trim: "length (js_trim s) \<le> length s"
  unfolding js_trim_def by (metis length_dropWhile_le length_rev order_trans)

lemma js_trim_edges:
  assumes "js_trim s \<noteq> []"
  shows "\<not> is_space (hd (js_trim s))" "\<not> is_space (last (js_trim s))"
proof -
  let ?t = "dropWhile is_space s"
  obtain u where u: "rev ?t = u @ dropWhile is_space (rev ?t)"
    by (metis takeWhile_dropWhile_id)
  then have t: "?t = js_trim s @ rev u"
    unfolding js_trim_def by (metis rev_append rev_rev_ident)
  then have "hd ?t = hd (js_trim s)" "?t \<noteq> []"
    using assms by (simp_all add: hd_append)
  then show "\<not> is_space (hd (js_trim s))"
    using hd_dropWhile [of is_space s] by simp
  have "dropWhile is_space (rev ?t) \<noteq> []"
    using assms by (simp add: js_trim_def)
  from hd_dropWhile [OF this] show "\<not> is_space (last (js_trim s))"
    by (simp add: js_trim_def last_rev)
qed

lemma js_trim_idem [simp]: "js_trim (js_trim s) = js_trim s"
proof (cases "js_trim s = []")
  case True
  show ?thesis unfolding True by (simp add: js_trim_def)
next
  case False
  have drop: "dropWhile is_space xs = xs" if "xs \<noteq> []" "\<not> is_space (hd xs)" for xs
    using that by (cases xs) simp_all
  have "dropWhile is_space (rev (js_trim s)) = rev (js_trim s)"
    by (rule drop) (use False js_trim_edges(2) [OF False] in \<open>simp_all add: hd_rev\<close>)
  then show ?thesis
    unfolding js_trim_def [of "js_trim s"] drop [OF False js_trim_edges(1) [OF False]] by simp
qed

text \<open>The draft of a declaration that the schema accepts, field by field.\<close>

lemma yaml_string_YStr [simp]: "yaml_string num \<circ> YStr = (\<lambda>s. s)"
  by (rule ext) simp

definition surface_name :: "surface \<Rightarrow> string" where
  "surface_name x = (case x of Tasks \<Rightarrow> ''tasks'' | Conversations \<Rightarrow> ''conversations'')"

lemma surface_enum: "z_enum surface_names v = Some x \<longleftrightarrow> v = Some (YStr (surface_name x))"
proof -
  have "map_of surface_names s = Some x \<longleftrightarrow> s = surface_name x" for s
    by (cases x; simp add: surface_names_def surface_name_def)
  then show ?thesis by (auto simp: z_enum_iff)
qed

lemma permission_enum: "z_enum permission_names v = Some x \<longleftrightarrow> v = Some (YStr (permission_name x))"
proof -
  have "map_of permission_names s = Some x \<longleftrightarrow> s = permission_name x" for s
    by (cases x; simp add: permission_names_def permission_name_def)
  then show ?thesis by (auto simp: z_enum_iff)
qed

lemma spread_enum: "z_enum spread_names v = Some x \<longleftrightarrow> v = Some (YStr (spread_name x))"
proof -
  have "map_of spread_names s = Some x \<longleftrightarrow> s = spread_name x" for s
    by (cases x; simp add: spread_names_def spread_name_def)
  then show ?thesis by (auto simp: z_enum_iff)
qed

lemma surface_list: "z_array (z_enum surface_names) v = Some xs \<longleftrightarrow> v = Some (YSeq (map (YStr \<circ> surface_name) xs))"
proof -
  have "map (\<lambda>y. z_enum surface_names (Some y)) ys = map Some xs \<longleftrightarrow> ys = map (YStr \<circ> surface_name) xs" for ys
    by (induction xs arbitrary: ys) (auto simp: map_eq_Cons_conv Cons_eq_map_conv surface_enum)
  then show ?thesis by (auto simp: z_array_iff)
qed

lemma draft_surfaces:
  assumes "surfacesSchema v = Some xs"
  shows "strings_or num [''tasks'', ''conversations''] v = map surface_name xs"
proof (cases v)
  case None
  with assms show ?thesis by (simp add: surfacesSchema_def z_iff strings_or_def surface_name_def)
next
  case (Some y)
  with assms have "y = YSeq (map (YStr \<circ> surface_name) xs)"
    by (simp add: surfacesSchema_def z_default_iff z_refine_iff surface_list)
  then show ?thesis by (simp add: strings_or_def Some)
qed

lemma draft_numbers:
  "z_default n (z_from lo) v = Some m \<Longrightarrow> number_or (of_int n) v = of_int m"
  "z_default r z_positive v = Some q \<Longrightarrow> number_or r v = q"
  by (auto simp: z_iff number_or_def split: if_splits)

lemma draft_capacity: "z_default 4 capacitySchema v = Some m \<Longrightarrow> number_or 4 (yget v ''max_sessions_per_agent'') = of_int m \<and> 1 \<le> m"
  by (auto simp: z_default_iff capacitySchema_def z_object_iff yget_def number_or_def z_from_iff split: if_splits)

lemma draft_permission: "z_default PermRead (z_enum permission_names) v = Some p \<Longrightarrow> (if v = Some (YStr ''write'') then PermWrite else PermRead) = p"
  by (cases p) (auto simp: z_default_iff permission_enum permission_name_def split: if_splits)

lemma draft_placement:
  "z_default PlaceSpread (z_enum spread_names) v = Some p \<Longrightarrow>
   (if v = Some (YStr ''pack'') then PlacePack else if v = Some (YStr ''pin'') then PlacePin else PlaceSpread) = p"
  by (cases p) (auto simp: z_default_iff spread_enum spread_name_def split: if_splits)

lemma draft_machines: "z_default [] (z_array z_nonempty) v = Some ms \<Longrightarrow> strings_or num [] v = ms \<and> [] \<notin> set ms"
  by (auto simp: z_iff strings_or_def split: if_splits)

lemma knowledge_one:
  "knowledgeSchema (Some y) = Some k \<Longrightarrow> knowledgeSchema (Some (knowledge_entry (knowledge_draft_of num y))) = Some k"
  by (cases k)
    (auto simp: knowledgeSchema_def z_object_iff bind_eq_Some_conv z_iff knowledge_entry_def knowledge_draft_of_def yget_def string_or_empty_def
      split: if_splits)

lemma knowledge_list:
  assumes "z_default [] (z_array knowledgeSchema) v = Some ks"
  shows "z_default [] (z_array knowledgeSchema)
    (let ds = (case v of Some (YSeq xs) \<Rightarrow> map (knowledge_draft_of num) xs | _ \<Rightarrow> []) in
     if ds = [] then None else Some (YSeq (map knowledge_entry ds))) = Some ks"
proof (cases v)
  case None
  with assms show ?thesis by (simp add: z_default_iff)
next
  case (Some y)
  then obtain xs where y: "y = YSeq xs" and m: "map (\<lambda>x. knowledgeSchema (Some x)) xs = map Some ks"
    using assms by (auto simp: z_default_iff z_array_iff)
  have "map (\<lambda>x. knowledgeSchema (Some (knowledge_entry (knowledge_draft_of num x)))) xs = map Some ks"
    using m by (induction xs arbitrary: ks) (auto simp: Cons_eq_map_conv map_eq_Cons_conv knowledge_one)
  then show ?thesis
    using m by (auto simp: Some y z_default_iff z_array_iff comp_def)
qed

lemma draft_thresholds:
  assumes "z_optional thresholdsSchema v = Some t"
  shows "(case v of Some (YMap m) \<Rightarrow> Some (YMap m) | Some (YSeq m) \<Rightarrow> Some (YSeq m) | _ \<Rightarrow> None) = v"
  using assms by (auto simp: z_optional_iff thresholdsSchema_def z_strict_iff split: if_splits)

lemma yget_YMap: "yget (Some (YMap kvs)) k = map_of kvs k"
  by (simp add: yget_def)

lemma entry_fields:
  "map_of (serviceEntryOf d) ''id'' = Some (YStr (sd_id d))"
  "map_of (serviceEntryOf d) ''label'' = Some (YStr (sd_label d))"
  "map_of (serviceEntryOf d) ''workers'' = Some (YSeq (map YStr (sd_workers d)))"
  "map_of (serviceEntryOf d) ''count'' = Some (YNum (of_nat (length (sd_workers d))))"
  "map_of (serviceEntryOf d) ''surfaces'' = Some (YSeq (map YStr (sd_surfaces d)))"
  "map_of (serviceEntryOf d) ''capacity'' = Some (YMap [(''max_sessions_per_agent'', YNum (sd_max_sessions_per_agent d))])"
  "map_of (serviceEntryOf d) ''permission'' = Some (YStr (permission_name (sd_permission d)))"
  "map_of (serviceEntryOf d) ''session_idle_hours'' = Some (YNum (sd_session_idle_hours d))"
  "map_of (serviceEntryOf d) ''placement'' = Some (YStr (spread_name (sd_placement d)))"
  "map_of (serviceEntryOf d) ''max_agents_per_machine'' = Some (YNum (sd_max_agents_per_machine d))"
  by (simp_all add: serviceEntryOf_def)

lemma entry_optional_fields:
  "map_of (serviceEntryOf d) ''machines'' = (if sd_placement d = PlacePin then Some (YSeq (map YStr (sd_machines d))) else None)"
  "map_of (serviceEntryOf d) ''thresholds'' = sd_thresholds d"
  "map_of (serviceEntryOf d) ''persona'' =
     (case sd_persona d of None \<Rightarrow> None | Some p \<Rightarrow> if js_trim p = [] then None else Some (YStr (js_trim p)))"
  "map_of (serviceEntryOf d) ''knowledge'' = (if sd_knowledge d = [] then None else Some (YSeq (map knowledge_entry (sd_knowledge d))))"
  by (simp_all add: serviceEntryOf_def split: option.split)

lemma entry_keys: "list_all (\<lambda>(k, x). k \<in> set service_fields) (serviceEntryOf d)"
  by (simp add: serviceEntryOf_def service_fields_def split: option.split)

lemma draft_persona:
  assumes "z_optional (z_refine (\<lambda>t. length t \<le> 8000) z_string) v = Some p"
  shows "z_optional (z_refine (\<lambda>t. length t \<le> 8000) z_string)
    (case (case v of Some (YStr q) \<Rightarrow> if js_trim q = [] then None else Some q | _ \<Rightarrow> None) of
       None \<Rightarrow> None | Some q \<Rightarrow> if js_trim q = [] then None else Some (YStr (js_trim q))) = Some (persona_of p)"
proof (cases v)
  case None
  with assms show ?thesis by (simp add: z_optional_iff persona_of_def)
next
  case (Some y)
  then obtain q where q: "y = YStr q" "p = Some q" "length q \<le> 8000"
    using assms by (auto simp: z_iff)
  then show ?thesis
    using length_js_trim [of q] by (auto simp: Some z_iff persona_of_def)
qed

text \<open>
  Opening a service in the editor and saving it unchanged keeps the service. For every declaration that the schema accepts
  and the loader's placement checks pass, the entry that the editor writes back from its draft is accepted again and resolves to the
  same service: defaults are spelled out, fields the editor does not show (the thresholds) survive, texts are trimmed as the loader
  trims them, and nothing else moves.
\<close>

theorem unchanged_edit_keeps_service:
  assumes "serviceSchema (Some raw) = Some sf" and "check_placement sf = Inr ()"
  shows "map_option service_of (serviceSchema (Some (YMap (serviceEntryOf (draftOf num raw))))) = Some (service_of sf)"
proof -
  let ?d = "draftOf num raw"
  let ?e = "serviceEntryOf ?d"
  obtain kvs where raw: "raw = YMap kvs"
    and i: "z_refine service_slug z_string (map_of kvs ''id'') = Some (fv_id sf)"
    and label: "z_nonempty (map_of kvs ''label'') = Some (fv_label sf)"
    and workers: "z_refine (\<lambda>ws. ws \<noteq> []) (z_array z_nonempty) (map_of kvs ''workers'') = Some (fv_workers sf)"
    and surfaces: "surfacesSchema (map_of kvs ''surfaces'') = Some (fv_surfaces sf)"
    and cap: "z_default 4 capacitySchema (map_of kvs ''capacity'') = Some (fv_max_sessions_per_agent sf)"
    and perm: "z_default PermRead (z_enum permission_names) (map_of kvs ''permission'') = Some (fv_permission sf)"
    and idle: "z_default 24 z_positive (map_of kvs ''session_idle_hours'') = Some (fv_session_idle_hours sf)"
    and place: "z_default PlaceSpread (z_enum spread_names) (map_of kvs ''placement'') = Some (fv_placement sf)"
    and machines: "z_default [] (z_array z_nonempty) (map_of kvs ''machines'') = Some (fv_machines sf)"
    and per: "z_default 4 (z_from 1) (map_of kvs ''max_agents_per_machine'') = Some (fv_max_agents_per_machine sf)"
    and th: "z_optional thresholdsSchema (map_of kvs ''thresholds'') = Some (fv_thresholds sf)"
    and kn: "z_default [] (z_array knowledgeSchema) (map_of kvs ''knowledge'') = Some (fv_knowledge sf)"
    and persona: "z_optional (z_refine (\<lambda>t. length t \<le> 8000) z_string) (map_of kvs ''persona'') = Some (fv_persona sf)"
    using assms(1) unfolding serviceSchema_iff by auto
  have count: "fv_count sf = int (length (fv_workers sf))" and pin: "fv_placement sf \<noteq> PlacePin \<Longrightarrow> fv_machines sf = []"
    using assms(2) by (auto simp: check_placement_def split: if_splits)
  have ids: "sd_id ?d = fv_id sf" "service_slug (fv_id sf)" "sd_label ?d = fv_label sf" "fv_label sf \<noteq> []"
    "sd_workers ?d = fv_workers sf" "[] \<notin> set (fv_workers sf)" "fv_workers sf \<noteq> []"
    using i label workers by (auto simp: draftOf_def raw yget_def z_iff string_or_empty_def strings_or_def)
  have sets: "sd_surfaces ?d = map surface_name (fv_surfaces sf)" "sd_permission ?d = fv_permission sf" "sd_placement ?d = fv_placement sf"
    "sd_machines ?d = fv_machines sf" "[] \<notin> set (fv_machines sf)" "sd_thresholds ?d = map_of kvs ''thresholds''"
    using draft_surfaces [OF surfaces] draft_permission [OF perm] draft_placement [OF place] draft_machines [OF machines] draft_thresholds [OF th]
    unfolding draftOf_def Let_def raw yget_YMap by (simp_all split del: if_split)
  have nums: "sd_session_idle_hours ?d = fv_session_idle_hours sf" "0 < fv_session_idle_hours sf"
    "sd_max_agents_per_machine ?d = of_int (fv_max_agents_per_machine sf)" "1 \<le> fv_max_agents_per_machine sf"
    "sd_max_sessions_per_agent ?d = of_int (fv_max_sessions_per_agent sf)" "1 \<le> fv_max_sessions_per_agent sf"
    using draft_numbers(2) [OF idle] draft_numbers(1) [OF per] draft_capacity [OF cap] idle per
    by (auto simp: draftOf_def raw yget_def z_iff split: if_splits)
  have kd: "sd_knowledge ?d = (case map_of kvs ''knowledge'' of Some (YSeq xs) \<Rightarrow> map (knowledge_draft_of num) xs | _ \<Rightarrow> [])"
    by (simp add: draftOf_def raw yget_def Let_def)
  have sne: "fv_surfaces sf \<noteq> []"
    using surfaces by (auto simp: surfacesSchema_def z_iff split: if_splits)
  define sf2 where "sf2 = sf\<lparr>fv_count := int (length (fv_workers sf)), fv_persona := persona_of (fv_persona sf)\<rparr>"
  have "serviceSchema (Some (YMap ?e)) = Some sf2"
    unfolding serviceSchema_iff
  proof (intro exI conjI)
    show "list_all (\<lambda>(k, x). k \<in> set service_fields) ?e" by (rule entry_keys)
    show "surfacesSchema (map_of ?e ''surfaces'') = Some (fv_surfaces sf2)"
      using sne by (simp add: entry_fields sets surfacesSchema_def z_default_iff z_refine_iff surface_list sf2_def)
    show "z_default 4 capacitySchema (map_of ?e ''capacity'') = Some (fv_max_sessions_per_agent sf2)"
      using nums by (simp add: entry_fields capacitySchema_def z_default_iff z_object_iff z_from_iff sf2_def)
    show "z_default PermRead (z_enum permission_names) (map_of ?e ''permission'') = Some (fv_permission sf2)"
      by (simp add: entry_fields sets z_default_iff permission_enum sf2_def)
    show "z_default PlaceSpread (z_enum spread_names) (map_of ?e ''placement'') = Some (fv_placement sf2)"
      by (simp add: entry_fields sets z_default_iff spread_enum sf2_def)
    show "z_default [] (z_array z_nonempty) (map_of ?e ''machines'') = Some (fv_machines sf2)"
      using sets pin by (auto simp: entry_optional_fields z_iff sf2_def)
    show "z_optional thresholdsSchema (map_of ?e ''thresholds'') = Some (fv_thresholds sf2)"
      using th by (simp add: entry_optional_fields sets sf2_def)
    show "z_default [] (z_array knowledgeSchema) (map_of ?e ''knowledge'') = Some (fv_knowledge sf2)"
      using knowledge_list [OF kn, of num] unfolding entry_optional_fields kd Let_def by (simp add: sf2_def split del: if_split)
    show "z_optional (z_refine (\<lambda>t. length t \<le> 8000) z_string) (map_of ?e ''persona'') = Some (fv_persona sf2)"
      using draft_persona [OF persona] by (simp add: entry_optional_fields draftOf_def raw yget_def sf2_def)
  qed (use ids nums in \<open>auto simp: entry_fields z_iff sf2_def Suc_le_eq\<close>)
  then show ?thesis
    by (simp add: service_of_def sf2_def count persona_of_def split: option.split)
qed

lemma unchanged_edit_keeps_service_witness:
  "map_option rv_workers (map_option service_of (serviceSchema (Some (YMap (serviceEntryOf (draftOf (\<lambda>n. []) (sample_service_yaml ''s'' [''a1'', ''a2'']))))))) =
     Some [''a1'', ''a2'']"
proof -
  obtain sf where sf: "serviceSchema (Some (sample_service_yaml ''s'' [''a1'', ''a2''])) = Some sf"
    "check_placement sf = Inr ()" "fv_workers sf = [''a1'', ''a2'']"
  proof -
    have "case serviceSchema (Some (sample_service_yaml ''s'' [''a1'', ''a2''])) of None \<Rightarrow> False
      | Some sf \<Rightarrow> check_placement sf = Inr () \<and> fv_workers sf = [''a1'', ''a2'']"
      by code_simp
    with that show ?thesis by (auto split: option.splits)
  qed
  show ?thesis
    by (simp add: unchanged_edit_keeps_service [OF sf(1,2)] sf(3))
qed

section \<open>The file after an operation\<close>

text \<open>
  The laws of the YAML package that the code relies on: a printed document is read back as what was printed.
\<close>

definition yaml_laws :: "platform \<Rightarrow> bool" where
  "yaml_laws pf \<longleftrightarrow> (\<forall>t y. pf_parse pf t \<noteq> None \<longrightarrow> pf_parse pf (pf_edit pf t y) = Some y) \<and> (\<forall>y. pf_parse pf (pf_print pf y) = Some y)"

text \<open>The configuration that a boot from this file gives, on a disk that can be written.\<close>

definition booted :: "platform \<Rightarrow> string \<Rightarrow> resolved_config option" where
  "booted pf text = (case snd (load_file pf None text) of Inl e \<Rightarrow> None | Inr c \<Rightarrow> Some c)"

lemma load_ok: "load_file pf fault text = (text2, Inr c) \<Longrightarrow> load_file pf None text = (text2, Inr c)"
  by (auto simp: load_file_def Let_def split: option.splits sum.splits prod.splits bool.splits)

lemma load_raw:
  assumes "load_file pf fault text = (text2, Inr c)"
  obtains raw where "pf_parse pf text = Some raw" "loadConfig (pf_is_url pf) (pf_env pf) (pf_resolve pf) raw = Inr c"
    "text2 = (case migrateConfigIfNeeded raw of Inr (doc, True) \<Rightarrow> pf_print pf doc | _ \<Rightarrow> text)"
  using assms by (cases "pf_parse pf text"; cases "loadConfig (pf_is_url pf) (pf_env pf) (pf_resolve pf) (the (pf_parse pf text))")
    (auto simp: load_file_def Let_def split: option.splits sum.splits prod.splits bool.splits)

lemma booted_load: "load_file pf fault text = (text2, Inr c) \<Longrightarrow> booted pf text = Some c"
  by (frule load_ok) (simp add: booted_def)

lemma load_of_raw:
  "pf_parse pf text = Some raw \<Longrightarrow> loadConfig (pf_is_url pf) (pf_env pf) (pf_resolve pf) raw = Inr c \<Longrightarrow> \<exists>t. load_file pf None text = (t, Inr c)"
  by (auto simp: load_file_def Let_def split: sum.splits prod.splits bool.splits)

text \<open>Loading what a load left behind gives the same services and agents; a load that fails on a file that boots leaves it alone.\<close>

lemma reload_after_load:
  assumes "yaml_laws pf" "load_file pf fault text = (text2, Inr c)"
  obtains text3 c2 where "load_file pf None text2 = (text3, Inr c2)" "rc_services c2 = rc_services c" "rc_agents c2 = rc_agents c"
proof -
  obtain raw where raw: "pf_parse pf text = Some raw" and l: "loadConfig (pf_is_url pf) (pf_env pf) (pf_resolve pf) raw = Inr c"
    and t2: "text2 = (case migrateConfigIfNeeded raw of Inr (doc, True) \<Rightarrow> pf_print pf doc | _ \<Rightarrow> text)"
    using assms(2) by (rule load_raw)
  from l obtain doc migrated fc where m: "migrateConfigIfNeeded raw = Inr (doc, migrated)"
    and fc: "fileSchema (pf_is_url pf) (Some doc) = Some fc"
    and rf: "resolve_file (pf_env pf) (pf_resolve pf) (warnings_of (pf_env pf) migrated) fc = Inr c"
    by (rule loadConfig_Inr)
  show thesis
  proof (cases migrated)
    case False
    then have "text2 = text" using t2 m by simp
    with load_ok [OF assms(2)] that show ?thesis by blast
  next
    case True
    then have t2: "text2 = pf_print pf doc" and d: "doc = up_0_1 raw"
      using t2 m by (auto simp: migrateConfigIfNeeded_def split: if_splits)
    have "migrateConfigIfNeeded raw = Inr (up_0_1 raw, True)"
      using m True d by simp
    then obtain b where m2: "migrateConfigIfNeeded doc = Inr (doc, b)"
      unfolding d by (rule migrate_again)
    have "loadConfig (pf_is_url pf) (pf_env pf) (pf_resolve pf) doc = Inr (c\<lparr>rc_warnings := warnings_of (pf_env pf) b\<rparr>)"
      using resolve_file_warnings [OF rf] by (simp add: loadConfig_def m2 bindE_def fc)
    moreover have "pf_parse pf text2 = Some doc"
      using assms(1) by (simp add: yaml_laws_def t2)
    ultimately obtain text3 where "load_file pf None text2 = (text3, Inr (c\<lparr>rc_warnings := warnings_of (pf_env pf) b\<rparr>))"
      using load_of_raw by blast
    then show ?thesis
      by (rule that) simp_all
  qed
qed

lemma load_fails_clean: "load_file pf fault text = (text2, Inl e) \<Longrightarrow> booted pf text \<noteq> None \<Longrightarrow> text2 = text"
  by (auto simp: booted_def load_file_def Let_def split: option.splits sum.splits prod.splits bool.splits)

text \<open>A disk that may have damaged the file: the new text was torn, or the old one could not be written back.\<close>

definition damages :: "disk \<Rightarrow> bool" where
  "damages disk \<longleftrightarrow> (\<exists>m t. disk WriteNew = Some (m, Some t)) \<or> disk WriteBack \<noteq> None"

lemma mutate_boots:
  assumes "yaml_laws pf" "mutateYamlFile disk pf mutate before = (text2, r)" "\<not> damages disk"
  shows "text2 = before \<or> r = Inr () \<and> booted pf text2 \<noteq> None"
proof (rule disjCI)
  assume ne: "\<not> (r = Inr () \<and> booted pf text2 \<noteq> None)"
  show "text2 = before"
  proof (rule ccontr)
    assume "text2 \<noteq> before"
    then obtain doc2 c where l: "load_file pf (disk MigrateNew) (pf_edit pf before doc2) = (text2, Inr c)" "r = Inr ()"
      using assms(2,3) by (auto simp: mutateYamlFile_def damages_def left_by_def Let_def split: option.splits if_splits prod.splits sum.splits)
    then obtain text3 c2 where "load_file pf None text2 = (text3, Inr c2)"
      by (blast elim: reload_after_load [OF assms(1)])
    with l(2) ne show False by (simp add: booted_load)
  qed
qed


section \<open>The other services\<close>

text \<open>A schema list parsed element by element.\<close>

abbreviation parsed :: "yaml list \<Rightarrow> service_file list \<Rightarrow> bool" where
  "parsed xs ss \<equiv> map (\<lambda>x. serviceSchema (Some x)) xs = map Some ss"

lemma has_id_schema: "serviceSchema (Some x) = Some sf \<Longrightarrow> has_id i x \<longleftrightarrow> fv_id sf = i"
  by (auto simp: serviceSchema_iff has_id_def yget_def z_iff)

lemma parsed_replace:
  assumes "parsed xs ss" "parsed (replace_first (has_id i) e xs) ss2" "has_id i e"
  shows "filter (\<lambda>v. fv_id v \<noteq> i) ss2 = filter (\<lambda>v. fv_id v \<noteq> i) ss"
  using assms(1,2)
proof (induction xs arbitrary: ss ss2)
  case (Cons x xs)
  then obtain v vs v2 vs2 where ss: "ss = v # vs" "serviceSchema (Some x) = Some v" "parsed xs vs" and
    ss2: "ss2 = v2 # vs2" "serviceSchema (Some (if has_id i x then e else x)) = Some v2"
      "parsed (if has_id i x then xs else replace_first (has_id i) e xs) vs2"
    by (auto simp: map_eq_Cons_conv Cons_eq_map_conv split: if_splits)
  show ?case
  proof (cases "has_id i x")
    case True
    then have "fv_id v = i" "fv_id v2 = i" "vs2 = vs"
      using ss ss2 assms(3) has_id_schema by (auto dest: map_injective [OF _ injI])
    then show ?thesis by (simp add: ss(1) ss2(1))
  next
    case False
    then show ?thesis using Cons.IH [of vs vs2] ss ss2 by simp
  qed
qed simp

lemma parsed_append:
  assumes "parsed xs ss" "parsed (xs @ [e]) ss2" "has_id i e"
  shows "filter (\<lambda>v. fv_id v \<noteq> i) ss2 = filter (\<lambda>v. fv_id v \<noteq> i) ss"
proof -
  obtain v where v: "serviceSchema (Some e) = Some v" and s2: "ss2 = ss @ [v]"
    using assms(1,2) by (auto simp: map_eq_append_conv map_eq_Cons_conv append_eq_map_conv dest: map_injective [OF _ injI])
  from has_id_schema [OF v] assms(3) show ?thesis by (simp add: s2)
qed

lemma parsed_remove:
  assumes "parsed xs ss" "parsed (remove_first (has_id i) xs) ss2"
  shows "filter (\<lambda>v. fv_id v \<noteq> i) ss2 = filter (\<lambda>v. fv_id v \<noteq> i) ss"
  using assms
proof (induction xs arbitrary: ss ss2)
  case (Cons x xs)
  then obtain v vs where ss: "ss = v # vs" "serviceSchema (Some x) = Some v" "parsed xs vs"
    by (auto simp: map_eq_Cons_conv Cons_eq_map_conv)
  show ?case
  proof (cases "has_id i x")
    case True
    then have "fv_id v = i" "ss2 = vs"
      using ss Cons.prems(2) has_id_schema by (auto dest: map_injective [OF _ injI])
    then show ?thesis by (simp add: ss(1))
  next
    case False
    with Cons.prems(2) obtain vs2 where "ss2 = v # vs2" "parsed (remove_first (has_id i) xs) vs2"
      using ss(2) by (auto simp: map_eq_Cons_conv Cons_eq_map_conv)
    with Cons.IH [OF ss(3)] show ?thesis by (simp add: ss(1))
  qed
qed simp

text \<open>The services section of a file decides the services of the configuration, migrated or not.\<close>

definition section_list :: "yaml \<Rightarrow> yaml list option" where
  "section_list doc = (case yget (Some doc) ''services'' of None \<Rightarrow> Some [] | Some (YSeq xs) \<Rightarrow> Some xs | _ \<Rightarrow> None)"

lemma fileSchema_services:
  assumes "fileSchema is_url (Some doc) = Some fc"
  shows "\<exists>xs. section_list doc = Some xs \<and> parsed xs (ff_services fc)"
proof -
  obtain kvs where kvs: "doc = YMap kvs" and z: "z_default [] (z_array serviceSchema) (map_of kvs ''services'') = Some (ff_services fc)"
    using assms unfolding fileSchema_def z_object_iff bind_eq_Some_conv by auto
  show ?thesis
  proof (cases "map_of kvs ''services''")
    case None
    with z show ?thesis by (simp add: kvs section_list_def yget_def z_default_iff)
  next
    case (Some y)
    with z show ?thesis by (auto simp: kvs section_list_def yget_def z_default_iff z_array_iff)
  qed
qed

lemma map_of_filter_other: "k \<noteq> j \<Longrightarrow> map_of (filter (\<lambda>(k, v). k \<noteq> j) kvs) k = map_of kvs k"
  by (induction kvs) auto

lemma section_list_up: "section_list (up_0_1 doc) = section_list doc"
  by (cases doc) (simp_all add: section_list_def yget_def up_0_1_def map_of_filter_other)

lemma load_services:
  assumes "load_file pf fault text = (text2, Inr c)" "pf_parse pf text = Some doc"
  obtains xs ss where "section_list doc = Some xs" "parsed xs ss" "rc_services c = map service_of ss"
proof -
  have l: "loadConfig (pf_is_url pf) (pf_env pf) (pf_resolve pf) doc = Inr c"
    using load_raw [OF assms(1)] assms(2) by fastforce
  obtain doc2 b fc where m: "migrateConfigIfNeeded doc = Inr (doc2, b)" and fc: "fileSchema (pf_is_url pf) (Some doc2) = Some fc"
    and rf: "resolve_file (pf_env pf) (pf_resolve pf) (warnings_of (pf_env pf) b) fc = Inr c"
    using l by (rule loadConfig_Inr)
  have sec: "section_list doc2 = section_list doc"
    using m by (auto simp: migrateConfigIfNeeded_def section_list_up split: if_splits)
  obtain as svcs where "resolve_services as [] (ff_services fc) = Inr svcs" "rc_services c = svcs"
    using rf by (rule resolve_file_Inr) simp
  then have "rc_services c = map service_of (ff_services fc)"
    using resolve_services_Inr by blast
  with fileSchema_services [OF fc] sec that show thesis by auto
qed

lemma section_set: "section_list (set_services xs doc) = Some xs"
  by (cases doc) (simp_all add: section_list_def yget_def set_services_def update_conv')

lemma entryOf_id: "has_id (sd_id d) (entryOf doc d)"
  by (auto simp: entryOf_def Let_def has_id_def yget_def entry_fields(1) map_add_def split: option.split)

definition others :: "string \<Rightarrow> resolved_service list \<Rightarrow> resolved_service list" where
  "others i svcs = filter (\<lambda>v. rv_id v \<noteq> i) svcs"

lemma others_map: "others i (map service_of ss) = map service_of (filter (\<lambda>v. fv_id v \<noteq> i) ss)"
  by (simp add: others_def filter_map comp_def)

lemma merged_others:
  assumes "parsed xs ss" "section_list doc = Some xs" "mergeInto i e doc = Some doc2" "has_id i e"
    and "section_list doc2 = Some ys" "parsed ys ss2"
  shows "others i (map service_of ss2) = others i (map service_of ss)"
proof -
  have "doc2 = set_services (if list_ex (has_id i) xs then replace_first (has_id i) e xs else xs @ [e]) doc"
    using assms(2,3) by (auto simp: mergeInto_def section_list_def split: option.splits yaml.splits)
  then have ys: "ys = (if list_ex (has_id i) xs then replace_first (has_id i) e xs else xs @ [e])"
    using assms(5) by (simp add: section_set)
  show ?thesis
  proof (cases "list_ex (has_id i) xs")
    case True
    with parsed_replace [OF assms(1) _ assms(4)] assms(6) show ?thesis by (simp add: ys others_map)
  next
    case False
    with parsed_append [OF assms(1) _ assms(4)] assms(6) show ?thesis by (simp add: ys others_map)
  qed
qed

text \<open>
  Applying one service leaves every other as it was: after a successful apply the other services in memory are those that
  the file gave before, in their order.
\<close>

theorem apply_keeps_other_services:
  assumes "yaml_laws pf" "booted pf before = Some c0"
    and "applyService hash disk pf d expect (before, live) = ((after, live2), Inr b)"
  shows "others (sd_id d) (lc_services live2) = others (sd_id d) (rc_services c0)"
proof -
  let ?mut = "\<lambda>doc. mergeInto (sd_id d) (entryOf doc d) doc"
  obtain text2 c where mut: "mutateYamlFile disk pf ?mut before = (text2, Inr ())" and l: "load_file pf (disk MigrateAgain) text2 = (after, Inr c)"
    and live: "lc_services live2 = rc_services c"
    using assms(3) by (auto simp: applyService_def split: if_splits prod.splits sum.splits)
  obtain t0 where l0: "load_file pf None before = (t0, Inr c0)"
    using assms(2) by (cases "load_file pf None before") (auto simp: booted_def split: sum.splits)
  obtain doc where p: "pf_parse pf before = Some doc"
    using l0 by (auto simp: load_file_def split: option.splits)
  obtain xs ss where s0: "section_list doc = Some xs" "parsed xs ss" "rc_services c0 = map service_of ss"
    using l0 p by (rule load_services)
  obtain doc2 where m: "?mut doc = Some doc2" and
    t2: "text2 = before \<and> pf_edit pf before doc2 = before \<or> (\<exists>c'. load_file pf (disk MigrateNew) (pf_edit pf before doc2) = (text2, Inr c'))"
    using mut p by (auto simp: mutateYamlFile_def Let_def split: option.splits if_splits prod.splits sum.splits)
  have p2: "pf_parse pf (pf_edit pf before doc2) = Some doc2"
    using assms(1) p by (simp add: yaml_laws_def)
  have "\<exists>c'. rc_services c' = rc_services c \<and> (\<exists>f t. load_file pf f (pf_edit pf before doc2) = (t, Inr c'))"
    using t2
  proof
    assume "text2 = before \<and> pf_edit pf before doc2 = before"
    with l show ?thesis by auto
  next
    assume "\<exists>c'. load_file pf (disk MigrateNew) (pf_edit pf before doc2) = (text2, Inr c')"
    then obtain c' where c': "load_file pf (disk MigrateNew) (pf_edit pf before doc2) = (text2, Inr c')" by blast
    obtain t3 c2 where "load_file pf None text2 = (t3, Inr c2)" "rc_services c2 = rc_services c'"
      using assms(1) c' by (rule reload_after_load)
    with load_ok [OF l] c' show ?thesis by auto
  qed
  then obtain f t c' where c': "load_file pf f (pf_edit pf before doc2) = (t, Inr c')" "rc_services c' = rc_services c" by blast
  obtain ys ss2 where s2: "section_list doc2 = Some ys" "parsed ys ss2" "rc_services c' = map service_of ss2"
    using c'(1) p2 by (rule load_services)
  from merged_others [OF s0(2,1) m entryOf_id s2(1,2)] show ?thesis
    by (simp add: live c'(2) [symmetric] s2(3) s0(3))
qed

section \<open>Samples\<close>

text \<open>A package that prints a document as its number: it satisfies the laws.\<close>

definition sample_platform :: platform where
  "sample_platform = \<lparr>pf_parse = (\<lambda>t. Some (from_nat (length t))), pf_edit = (\<lambda>t y. replicate (to_nat y) CHR ''x''),
     pf_print = (\<lambda>y. replicate (to_nat y) CHR ''x''), pf_is_url = (\<lambda>s. True), pf_env = Config.sample_env, pf_resolve = (\<lambda>p. p)\<rparr>"

lemma sample_laws: "yaml_laws sample_platform"
  by (simp add: yaml_laws_def sample_platform_def)

lemma sample_fields:
  "pf_edit sample_platform t y = pf_print sample_platform y"
  "pf_parse sample_platform (pf_print sample_platform y) = Some y"
  "pf_is_url sample_platform = (\<lambda>s. True)" "pf_env sample_platform = Config.sample_env" "pf_resolve sample_platform = (\<lambda>p. p)"
  by (simp_all add: sample_platform_def)

lemma sample_print_inj: "pf_print sample_platform x = pf_print sample_platform y \<Longrightarrow> x = y"
  by (metis option.inject sample_fields(2))

lemma sample_load:
  "load_file sample_platform None (pf_print sample_platform y) =
     ((case migrateConfigIfNeeded y of Inr (doc, True) \<Rightarrow> pf_print sample_platform doc | _ \<Rightarrow> pf_print sample_platform y), map_sum BadConfig (\<lambda>c. c) (load_sample y))"
  unfolding load_file_def sample_fields load_sample_def option.case Let_def
  by (cases "migrateConfigIfNeeded y") (auto split: bool.split)

text \<open>Two agents on two machines; the service \<^verbatim>\<open>s\<close> has the second.\<close>

definition sample_node :: "string \<Rightarrow> string \<Rightarrow> yaml" where
  "sample_node url host = YMap [(''url'', YStr url), (''spawn'', YMap [(''runner'', YStr ''agent''), (''host'', YStr host)])]"

definition sample_two :: yaml where
  "sample_two = YMap [(''endpoints'', YMap [(''e1'', sample_node ''http://x'' ''m1''), (''e2'', sample_node ''http://y'' ''m2'')]),
     (''agents'', YMap [(''a1'', sample_agent_yaml ''e1''), (''a2'', sample_agent_yaml ''e2'')]), (''services'', YSeq [sample_service_yaml ''s'' [''a2'']])]"

definition sample_draft :: service_draft where
  "sample_draft = draftOf (\<lambda>n. []) (sample_service_yaml ''t'' [''a1''])"

definition sample_merged :: yaml where
  "sample_merged = the (mergeInto ''t'' (entryOf sample_two sample_draft) sample_two)"

lemma sample_booted: "booted sample_platform (pf_print sample_platform sample_two) = Some (projr (load_sample sample_two))"
proof -
  have "\<not> isl (load_sample sample_two)" by code_simp
  then show ?thesis by (cases "load_sample sample_two") (simp_all add: booted_def sample_load)
qed

lemma sample_draft_id: "sd_id sample_draft = ''t''"
  by (simp add: sample_draft_def draftOf_def Let_def yget_def sample_service_yaml_def string_or_empty_def)


lemma sample_merge:
  "mergeInto (sd_id sample_draft) (entryOf sample_two sample_draft) sample_two = Some sample_merged"
proof -
  have "mergeInto ''t'' (entryOf sample_two sample_draft) sample_two \<noteq> None" by code_simp
  then show ?thesis by (auto simp: sample_merged_def sample_draft_id)
qed

lemma sample_merged_loads:
  "load_sample sample_merged = Inr (projr (load_sample sample_merged))"
  "load_sample (up_0_1 sample_merged) = Inr (projr (load_sample (up_0_1 sample_merged)))"
  "list_ex (\<lambda>v. rv_id v = ''t'') (rc_services (projr (load_sample (up_0_1 sample_merged))))"
proof -
  have "\<not> isl (load_sample sample_merged)" "\<not> isl (load_sample (up_0_1 sample_merged))" by code_simp+
  then show "load_sample sample_merged = Inr (projr (load_sample sample_merged))"
    "load_sample (up_0_1 sample_merged) = Inr (projr (load_sample (up_0_1 sample_merged)))" by simp_all
qed code_simp

lemma sample_mutated:
  "mutateYamlFile (\<lambda>k. None) sample_platform (\<lambda>doc. mergeInto (sd_id sample_draft) (entryOf doc sample_draft) doc) (pf_print sample_platform sample_two) =
     (pf_print sample_platform (up_0_1 sample_merged), Inr ())"
proof -
  have "sample_merged \<noteq> sample_two" by code_simp
  then have ne: "pf_print sample_platform sample_merged \<noteq> pf_print sample_platform sample_two"
    using sample_print_inj by blast
  have mig: "migrateConfigIfNeeded sample_merged = Inr (up_0_1 sample_merged, True)" by code_simp
  have l: "load_file sample_platform None (pf_print sample_platform sample_merged) =
      (pf_print sample_platform (up_0_1 sample_merged), Inr (projr (load_sample sample_merged)))"
    unfolding sample_load mig sum.case prod.case bool.case by (subst sample_merged_loads(1)) simp
  show ?thesis
    unfolding mutateYamlFile_def sample_fields option.case sample_merge Let_def l prod.case sum.case if_not_P [OF ne] ..
qed

lemma apply_keeps_other_services_witness:
  "others ''t'' (lc_services (snd (fst (applyService (\<lambda>t. t) (\<lambda>k. None) sample_platform sample_draft None
     (pf_print sample_platform sample_two, \<lparr>lc_services = [], lc_public = []\<rparr>))))) =
   others ''t'' (rc_services (projr (load_sample sample_two))) \<and>
   map rv_id (others ''t'' (rc_services (projr (load_sample sample_two)))) = [''s'']"
proof
  let ?live = "\<lparr>lc_services = [], lc_public = []\<rparr> :: live_config"
  let ?before = "pf_print sample_platform sample_two"
  let ?R = "applyService (\<lambda>t. t) (\<lambda>k. None) sample_platform sample_draft None (?before, ?live)"
  define after where "after = fst (load_file sample_platform None (pf_print sample_platform (up_0_1 sample_merged)))"
  have l: "load_file sample_platform None (pf_print sample_platform (up_0_1 sample_merged)) =
      (after, Inr (projr (load_sample (up_0_1 sample_merged))))"
    using sample_merged_loads(2) by (cases "load_sample (up_0_1 sample_merged)") (simp_all add: after_def sample_load)
  have "snd ?R = Inr (after \<noteq> ?before)"
    unfolding applyService_def prod.case sample_mutated [unfolded sample_draft_id] sum.case l sample_draft_id if_P [OF sample_merged_loads(3)] by simp
  then have R: "?R = ((fst (fst ?R), snd (fst ?R)), Inr (after \<noteq> ?before))"
    by (metis prod.collapse)
  show "others ''t'' (lc_services (snd (fst ?R))) = others ''t'' (rc_services (projr (load_sample sample_two)))"
    by (rule apply_keeps_other_services [OF sample_laws sample_booted R, unfolded sample_draft_id])
  show "map rv_id (others ''t'' (rc_services (projr (load_sample sample_two)))) = [''s'']"
    by code_simp
qed

section \<open>What the editor does not tell\<close>

text \<open>
  A failed write may leave a file that does not boot: the writing of the new text is not among the steps that are taken back, so when it is done in place and
  breaks off, what was written so far stays.
\<close>

theorem torn_write_stays:
  assumes "expect = None \<or> expect = Some (hash before)" "pf_parse pf before = Some doc" "mergeInto (sd_id d) (entryOf doc d) doc = Some doc2"
    "pf_edit pf before doc2 \<noteq> before" "disk WriteNew = Some (m, Some t)"
  shows "applyService hash disk pf d expect (before, live) = ((t, live), Inl (CannotWrite m))"
  using assms by (auto simp: applyService_def mutateYamlFile_def left_by_def)

text \<open>
  The preview shows no difference whenever old and new file have the same set of lines: a line that moves from one service
  to another, or is repeated, is not shown, although the file written is a different one.
\<close>

theorem preview_hides_moved_lines:
  "lineDiff old new = [] \<longleftrightarrow> filter (\<lambda>l. js_trim l \<noteq> []) (filter (\<lambda>l. l \<notin> set new) old) = [] \<and>
     filter (\<lambda>l. js_trim l \<noteq> []) (filter (\<lambda>l. l \<notin> set old) new) = []"
  by (auto simp: lineDiff_def filter_empty_conv)

text \<open>
  The editor refuses workers that the loader accepts: an outward agent whose rate is listed under provider and model, and
  not under the model alone, passes the boot checks but is offered only as blocked for want of a rate.
\<close>

theorem editor_blocks_priced_worker:
  assumes "ra_provider a = Some p" "ra_model a = Some m" "pt_rates (rc_pricing c) m = None" "pt_rates (rc_pricing c) (p @ ''/'' @ m) \<noteq> None"
  shows "check_pin (rc_pricing c) a = Inr () \<and> priced (rc_pricing c) a \<and> wc_blocked (candidate_of c a) = Some (NoRateFor m)"
  using assms by (simp add: check_pin_def failIf_def priced_def candidate_of_def blockedReason_def)

definition sample_priced_config :: resolved_config where
  "sample_priced_config = (projr (load_sample sample_good))
     \<lparr>rc_pricing := DEFAULT_PRICING\<lparr>pt_rates := [''p/m'' \<mapsto> \<lparr>mp_offPeak = flat_rate 1 1 1, mp_peak = None\<rparr>]\<rparr>\<rparr>"

definition sample_priced_agent :: resolved_agent where
  "sample_priced_agent = \<lparr>ra_id = ''a'', ra_name = ''A'', ra_endpoint = ''e1'', ra_workspacePath = ''/ws'', ra_public = True, ra_preset = None,
     ra_sandboxMode = None, ra_gitRemote = None, ra_provider = Some ''p'', ra_model = Some ''m'', ra_validate = None\<rparr>"

lemma editor_blocks_priced_worker_witness: "wc_blocked (candidate_of sample_priced_config sample_priced_agent) = Some (NoRateFor ''m'')"
  by (rule editor_blocks_priced_worker [where p = "''p''", THEN conjunct2, THEN conjunct2])
    (simp_all add: sample_priced_agent_def sample_priced_config_def)

end
