(* ===== verification/Patterns.thy ===== *)
theory Patterns
  imports Prelude
begin

text \<open>
  Regular expressions as the code uses them: \<^verbatim>\<open>re.test(text)\<close> asks whether some part of the text matches. The executable test
  takes derivatives along the text; its meaning is the language of the expression, and the two are proved equal. A word boundary
  (\<^verbatim>\<open>\b\<close>) occurs in the code only before the first or after the last character of a pattern, and always beside a letter or a digit,
  so it is a condition on the neighbour.
\<close>

section \<open>Expressions and their languages\<close>

datatype rx = RNone | REps | RSet "char \<Rightarrow> bool" | RAlt rx rx | RSeq rx rx | RStar rx

inductive_set star :: "string set \<Rightarrow> string set" for A where
  star_Nil: "[] \<in> star A"
| star_app: "u \<in> A \<Longrightarrow> v \<in> star A \<Longrightarrow> u @ v \<in> star A"

fun lang :: "rx \<Rightarrow> string set" where
  "lang RNone = {}"
| "lang REps = {[]}"
| "lang (RSet p) = {[c] |c. p c}"
| "lang (RAlt r t) = lang r \<union> lang t"
| "lang (RSeq r t) = {u @ v |u v. u \<in> lang r \<and> v \<in> lang t}"
| "lang (RStar r) = star (lang r)"

fun nullable :: "rx \<Rightarrow> bool" where
  "nullable RNone = False"
| "nullable REps = True"
| "nullable (RSet p) = False"
| "nullable (RAlt r t) = (nullable r \<or> nullable t)"
| "nullable (RSeq r t) = (nullable r \<and> nullable t)"
| "nullable (RStar r) = True"

text \<open>Joining derivatives drops what cannot match any more, so that a failed attempt stays small.\<close>

fun alt_of :: "rx \<Rightarrow> rx \<Rightarrow> rx" where
  "alt_of RNone t = t"
| "alt_of r RNone = r"
| "alt_of r t = RAlt r t"

fun seq_of :: "rx \<Rightarrow> rx \<Rightarrow> rx" where
  "seq_of RNone t = RNone"
| "seq_of REps t = t"
| "seq_of r t = RSeq r t"

fun deriv :: "char \<Rightarrow> rx \<Rightarrow> rx" where
  "deriv c RNone = RNone"
| "deriv c REps = RNone"
| "deriv c (RSet p) = (if p c then REps else RNone)"
| "deriv c (RAlt r t) = alt_of (deriv c r) (deriv c t)"
| "deriv c (RSeq r t) = (if nullable r then alt_of (seq_of (deriv c r) t) (deriv c t) else seq_of (deriv c r) t)"
| "deriv c (RStar r) = seq_of (deriv c r) (RStar r)"

text \<open>Shorthands: a literal text, \<^verbatim>\<open>r{n}\<close>, \<^verbatim>\<open>r{n,}\<close> and \<^verbatim>\<open>r+\<close>, a choice, an optional part.\<close>

fun r_lit :: "string \<Rightarrow> rx" where
  "r_lit [] = REps"
| "r_lit (c # cs) = RSeq (RSet (\<lambda>d. d = c)) (r_lit cs)"

fun r_times :: "nat \<Rightarrow> rx \<Rightarrow> rx \<Rightarrow> rx" where
  "r_times 0 r t = t"
| "r_times (Suc n) r t = RSeq r (r_times n r t)"

definition r_exactly :: "nat \<Rightarrow> rx \<Rightarrow> rx" where
  "r_exactly n r = r_times n r REps"

definition r_least :: "nat \<Rightarrow> rx \<Rightarrow> rx" where
  "r_least n r = r_times n r (RStar r)"

definition r_opt :: "rx \<Rightarrow> rx" where
  "r_opt r = RAlt r REps"

fun r_any :: "rx list \<Rightarrow> rx" where
  "r_any [] = RNone"
| "r_any (r # rs) = RAlt r (r_any rs)"

fun r_cat :: "rx list \<Rightarrow> rx" where
  "r_cat [] = REps"
| "r_cat (r # rs) = RSeq r (r_cat rs)"

section \<open>Searching\<close>

definition in_range :: "nat \<Rightarrow> nat \<Rightarrow> char \<Rightarrow> bool" where
  "in_range a b c \<longleftrightarrow> a \<le> of_char c \<and> of_char c \<le> b"

definition is_upper :: "char \<Rightarrow> bool" where "is_upper = in_range 65 90"
definition is_lower :: "char \<Rightarrow> bool" where "is_lower = in_range 97 122"
definition is_digit :: "char \<Rightarrow> bool" where "is_digit = in_range 48 57"

definition alnum :: "char \<Rightarrow> bool" where
  "alnum c \<longleftrightarrow> is_upper c \<or> is_lower c \<or> is_digit c"

definition word_char :: "char \<Rightarrow> bool" where
  "word_char c \<longleftrightarrow> alnum c \<or> c = CHR ''_''"

record pattern =
  pt_start :: bool
  pt_rx :: rx
  pt_end :: bool

fun match_here :: "bool \<Rightarrow> rx \<Rightarrow> string \<Rightarrow> bool" where
  "match_here e r [] = nullable r"
| "match_here e r (c # cs) = (nullable r \<and> (e \<longrightarrow> \<not> word_char c) \<or> match_here e (deriv c r) cs)"

fun search_from :: "pattern \<Rightarrow> bool \<Rightarrow> string \<Rightarrow> bool" where
  "search_from p w [] = ((pt_start p \<longrightarrow> \<not> w) \<and> match_here (pt_end p) (pt_rx p) [])"
| "search_from p w (c # cs) = ((pt_start p \<longrightarrow> \<not> w) \<and> match_here (pt_end p) (pt_rx p) (c # cs) \<or> search_from p (word_char c) cs)"

definition rx_test :: "pattern \<Rightarrow> string \<Rightarrow> bool" where
  "rx_test p s = search_from p False s"

section \<open>The test means what it says\<close>

lemma nullable_lang: "nullable r \<longleftrightarrow> [] \<in> lang r"
  by (induction r) (auto intro: star_Nil)

lemma star_Cons: "c # w \<in> star A \<longleftrightarrow> (\<exists>u v. w = u @ v \<and> c # u \<in> A \<and> v \<in> star A)"
proof
  show "c # w \<in> star A \<Longrightarrow> \<exists>u v. w = u @ v \<and> c # u \<in> A \<and> v \<in> star A"
    by (induction "c # w" rule: star.induct) (auto simp: append_eq_Cons_conv)
next
  assume "\<exists>u v. w = u @ v \<and> c # u \<in> A \<and> v \<in> star A"
  then obtain u v where "w = u @ v" "c # u \<in> A" "v \<in> star A" by blast
  then show "c # w \<in> star A" using star_app [of "c # u" A v] by simp
qed

lemma lang_alt_of [simp]: "lang (alt_of r t) = lang r \<union> lang t"
  by (induction r t rule: alt_of.induct) auto

lemma lang_seq_of [simp]: "lang (seq_of r t) = {u @ v |u v. u \<in> lang r \<and> v \<in> lang t}"
  by (induction r t rule: seq_of.induct) auto

lemma deriv_lang: "w \<in> lang (deriv c r) \<longleftrightarrow> c # w \<in> lang r"
  by (induction r arbitrary: w) (auto simp: nullable_lang star_Cons Cons_eq_append_conv append_eq_Cons_conv; metis append_Cons append_Nil)+

lemma ex_prefix_Cons:
  "(\<exists>v w. c # cs = v @ w \<and> P v w) \<longleftrightarrow> P [] (c # cs) \<or> (\<exists>v w. cs = v @ w \<and> P (c # v) w)"
proof
  assume "\<exists>v w. c # cs = v @ w \<and> P v w"
  then obtain v w where "c # cs = v @ w" "P v w" by blast
  then show "P [] (c # cs) \<or> (\<exists>v w. cs = v @ w \<and> P (c # v) w)" by (cases v) auto
next
  assume "P [] (c # cs) \<or> (\<exists>v w. cs = v @ w \<and> P (c # v) w)"
  then show "\<exists>v w. c # cs = v @ w \<and> P v w" by (metis append_Cons append_Nil)
qed

lemma ex_infix: "(\<exists>u v w. s = u @ v @ w \<and> P u v w) \<longleftrightarrow> (\<exists>u x. s = u @ x \<and> (\<exists>v w. x = v @ w \<and> P u v w))"
  by auto

lemma ex_infix_Cons:
  "(\<exists>u v w. c # cs = u @ v @ w \<and> P u v w) \<longleftrightarrow> (\<exists>v w. c # cs = v @ w \<and> P [] v w) \<or> (\<exists>u v w. cs = u @ v @ w \<and> P (c # u) v w)"
  unfolding ex_infix [of "c # cs"] ex_infix [of cs] ex_prefix_Cons ..

lemma match_here_iff: "match_here e r s \<longleftrightarrow> (\<exists>v w. s = v @ w \<and> v \<in> lang r \<and> (e \<longrightarrow> w = [] \<or> \<not> word_char (hd w)))"
proof (induction s arbitrary: r)
  case (Cons c cs)
  show ?case unfolding ex_prefix_Cons by (simp add: Cons.IH nullable_lang deriv_lang)
qed (simp add: nullable_lang)

definition fits :: "pattern \<Rightarrow> bool \<Rightarrow> string \<Rightarrow> string \<Rightarrow> string \<Rightarrow> bool" where
  "fits p b u v w \<longleftrightarrow> v \<in> lang (pt_rx p) \<and> (pt_start p \<longrightarrow> (if u = [] then \<not> b else \<not> word_char (last u))) \<and>
     (pt_end p \<longrightarrow> w = [] \<or> \<not> word_char (hd w))"

lemma fits_Cons: "fits p b (c # u) v w = fits p (word_char c) u v w"
  by (simp add: fits_def)

lemma fits_Nil: "(pt_start p \<longrightarrow> \<not> b) \<and> match_here (pt_end p) (pt_rx p) s \<longleftrightarrow> (\<exists>v w. s = v @ w \<and> fits p b [] v w)"
  unfolding match_here_iff fits_def by auto

lemma search_from_iff: "search_from p b s \<longleftrightarrow> (\<exists>u v w. s = u @ v @ w \<and> fits p b u v w)"
proof (induction s arbitrary: b)
  case Nil
  show ?case unfolding search_from.simps fits_Nil by auto
next
  case (Cons c cs)
  show ?case unfolding search_from.simps fits_Nil Cons.IH ex_infix_Cons fits_Cons ..
qed

text \<open>The test finds a match exactly when a part of the text, between the boundaries asked for, is in the language.\<close>

lemma rx_test_iff:
  "rx_test p s \<longleftrightarrow> (\<exists>u v w. s = u @ v @ w \<and> v \<in> lang (pt_rx p) \<and>
     (pt_start p \<longrightarrow> u = [] \<or> \<not> word_char (last u)) \<and> (pt_end p \<longrightarrow> w = [] \<or> \<not> word_char (hd w)))"
  unfolding rx_test_def search_from_iff fits_def by (intro ex_cong1) simp

lemma lang_lit [simp]: "lang (r_lit s) = {s}"
  by (induction s) auto

end
