(* ===== verification/NoteData.thy ===== *)
theory NoteData
  imports Schema Patterns
begin

text \<open>
  The data files of a workspace (\<^verbatim>\<open>workspace/notedata.ts\<close>) and the rules they are held to (\<^verbatim>\<open>workspace/validate.ts\<close>). A value is a
  \<open>yaml\<close>, which is also the shape of JSON. The script engine that evaluates the files is a parameter; so is the text of a number.
  Strings are sequences of bytes in UTF-8, which is how the Chinese names of directories and fields are written here.
\<close>

section \<open>Texts\<close>

fun split_on :: "char \<Rightarrow> string \<Rightarrow> string list" where
  "split_on d [] = [[]]"
| "split_on d (c # cs) = (if c = d then [] # split_on d cs
     else (case split_on d cs of [] \<Rightarrow> [[c]] | w # ws \<Rightarrow> (c # w) # ws))"

fun join_with :: "string \<Rightarrow> string list \<Rightarrow> string" where
  "join_with sep [] = []"
| "join_with sep [x] = x"
| "join_with sep (x # xs) = x @ sep @ join_with sep xs"

definition trim_end :: "string \<Rightarrow> string" where
  "trim_end s = rev (dropWhile is_space (rev s))"

fun index_of :: "string \<Rightarrow> string \<Rightarrow> nat option" where
  "index_of needle [] = (if needle = [] then Some 0 else None)"
| "index_of needle (c # cs) = (if is_prefix needle (c # cs) then Some 0 else map_option Suc (index_of needle cs))"

section \<open>Reading the files\<close>

definition NOTE_DATA_FILES :: "string list" where
  "NOTE_DATA_FILES = [''core.js'', ''weekly.js'', ''trade.js'', ''acct.js'', ''mind.js'']"

definition KEY_OWNER :: "(string \<times> string) list" where
  "KEY_OWNER = [(''meta'', ''core.js''), (''core'', ''core.js''), (''weekly'', ''weekly.js''), (''trade'', ''trade.js''),
     (''acct'', ''acct.js''), (''mind'', ''mind.js'')]"

type_synonym note_data = "(string \<times> yaml) list"

datatype problem_kind = Missing | Invalid

record data_problem =
  dp_file :: string
  dp_kind :: problem_kind

record read_result =
  rr_data :: note_data
  rr_loaded :: "string list"
  rr_problems :: "data_problem list"

datatype read_answer = Absent | Unreadable | Content string

text \<open>
  The engine: a fresh context, running one source in it (the context afterwards, and whether the source ran to its end), and the
  keys of \<^verbatim>\<open>window.NOTE_DATA\<close> with their values as plain data, None for a value that is none.
\<close>

record 'w engine =
  en_fresh :: 'w
  en_run :: "string \<Rightarrow> 'w \<Rightarrow> 'w \<times> bool"
  en_data :: "'w \<Rightarrow> (string \<times> yaml option) list"

fun read_files :: "'w engine \<Rightarrow> (string \<Rightarrow> read_answer) \<Rightarrow> string list \<Rightarrow> 'w \<Rightarrow> 'w \<times> string list \<times> data_problem list" where
  "read_files en rd [] w = (w, [], [])"
| "read_files en rd (f # fs) w = (case rd f of
     Absent \<Rightarrow> (case read_files en rd fs w of (w', l, ps) \<Rightarrow> (w', l, \<lparr>dp_file = f, dp_kind = Missing\<rparr> # ps))
   | Unreadable \<Rightarrow> (case read_files en rd fs w of (w', l, ps) \<Rightarrow> (w', l, \<lparr>dp_file = f, dp_kind = Invalid\<rparr> # ps))
   | Content src \<Rightarrow> (case en_run en src w of
       (w1, True) \<Rightarrow> (case read_files en rd fs w1 of (w', l, ps) \<Rightarrow> (w', f # l, ps))
     | (w1, False) \<Rightarrow> (case read_files en rd fs w1 of (w', l, ps) \<Rightarrow> (w', l, \<lparr>dp_file = f, dp_kind = Invalid\<rparr> # ps))))"

definition owner_or_first :: "string \<Rightarrow> string" where
  "owner_or_first key = (case map_of KEY_OWNER key of None \<Rightarrow> ''core.js'' | Some f \<Rightarrow> f)"

definition readNoteData :: "'w engine \<Rightarrow> (string \<Rightarrow> read_answer) \<Rightarrow> read_result" where
  "readNoteData en rd = (case read_files en rd NOTE_DATA_FILES (en_fresh en) of (w, loaded, ps) \<Rightarrow>
     \<lparr>rr_data = map (\<lambda>(k, v). (k, the v)) (filter (\<lambda>(k, v). v \<noteq> None) (en_data en w)), rr_loaded = loaded,
      rr_problems = ps @ map (\<lambda>(k, v). \<lparr>dp_file = owner_or_first k, dp_kind = Invalid\<rparr>) (filter (\<lambda>(k, v). v = None) (en_data en w))\<rparr>)"

definition keysForFile :: "string \<Rightarrow> string list" where
  "keysForFile f = map fst (filter (\<lambda>(k, owner). owner = f) KEY_OWNER)"

section \<open>Writing a file\<close>

definition ident_start :: "char \<Rightarrow> bool" where
  "ident_start c \<longleftrightarrow> is_upper c \<or> is_lower c \<or> c = CHR ''_'' \<or> c = CHR ''$''"

definition is_ident :: "string \<Rightarrow> bool" where
  "is_ident k \<longleftrightarrow> (case k of [] \<Rightarrow> False | c # cs \<Rightarrow> ident_start c \<and> list_all (\<lambda>d. ident_start d \<or> is_digit d) cs)"

definition hex_digit :: "nat \<Rightarrow> char" where
  "hex_digit n = char_of (if n < 10 then 48 + n else 87 + n)"

definition json_escape :: "char \<Rightarrow> string" where
  "json_escape c = (let n = (of_char c :: nat) in
     if n = 34 then [CHR 0x5C, c] else if n = 92 then [CHR 0x5C, c]
     else if n = 8 then [CHR 0x5C, CHR ''b''] else if n = 12 then [CHR 0x5C, CHR ''f'']
     else if n = 10 then [CHR 0x5C, CHR ''n''] else if n = 13 then [CHR 0x5C, CHR ''r'']
     else if n = 9 then [CHR 0x5C, CHR ''t'']
     else if n < 32 then [CHR 0x5C, CHR ''u'', CHR ''0'', CHR ''0'', hex_digit (n div 16), hex_digit (n mod 16)]
     else [c])"

definition json_string :: "string \<Rightarrow> string" where
  "json_string s = CHR 0x22 # concat (map json_escape s) @ [CHR 0x22]"

definition INLINE_BUDGET :: nat where
  "INLINE_BUDGET = 240"

definition isPrimitive :: "yaml \<Rightarrow> bool" where
  "isPrimitive v \<longleftrightarrow> (case v of YSeq xs \<Rightarrow> False | YMap kvs \<Rightarrow> False | _ \<Rightarrow> True)"

definition js_literal :: "(rat \<Rightarrow> string) \<Rightarrow> yaml \<Rightarrow> string" where
  "js_literal num v = (case v of YNull \<Rightarrow> ''null'' | YBool b \<Rightarrow> (if b then ''true'' else ''false'') | YNum n \<Rightarrow> num n
     | YStr s \<Rightarrow> json_string s | _ \<Rightarrow> ''null'')"

definition propKey :: "string \<Rightarrow> string" where
  "propKey k = (if is_ident k then k else json_string k)"

definition within_budget :: "string \<Rightarrow> string option" where
  "within_budget t = (if length t \<le> INLINE_BUDGET then Some t else None)"

definition inlineOf :: "(rat \<Rightarrow> string) \<Rightarrow> yaml \<Rightarrow> string option" where
  "inlineOf num v = (case v of
     YSeq xs \<Rightarrow> if list_all isPrimitive xs
       then within_budget (let body = join_with '', '' (map (js_literal num) xs) in if body = [] then ''[]'' else ''['' @ body @ '']'') else None
   | YMap kvs \<Rightarrow> if \<not> list_all (\<lambda>(k, v). isPrimitive v) kvs then None else if kvs = [] then Some ''{}''
       else within_budget (''{ '' @ join_with '', '' (map (\<lambda>(k, v). propKey k @ '':'' @ js_literal num v) kvs) @ '' }'')
   | _ \<Rightarrow> Some (js_literal num v))"

definition padding :: "nat \<Rightarrow> string" where
  "padding d = concat (replicate d ''  '')"

definition newline :: string where
  "newline = [CHR 0x0A]"

fun serializeValue :: "(rat \<Rightarrow> string) \<Rightarrow> nat \<Rightarrow> yaml \<Rightarrow> string"
  and serialize_items :: "(rat \<Rightarrow> string) \<Rightarrow> nat \<Rightarrow> yaml list \<Rightarrow> string list"
  and serialize_fields :: "(rat \<Rightarrow> string) \<Rightarrow> nat \<Rightarrow> (string \<times> yaml) list \<Rightarrow> string list" where
  "serializeValue num d (YSeq xs) = (case inlineOf num (YSeq xs) of Some t \<Rightarrow> t | None \<Rightarrow>
     if xs = [] then ''[]'' else ''['' @ newline @ join_with newline (serialize_items num (Suc d) xs) @ newline @ padding d @ '']'')"
| "serializeValue num d (YMap kvs) = (case inlineOf num (YMap kvs) of Some t \<Rightarrow> t | None \<Rightarrow>
     if kvs = [] then ''{}'' else ''{'' @ newline @ join_with newline (serialize_fields num (Suc d) kvs) @ newline @ padding d @ ''}'')"
| "serializeValue num d v = js_literal num v"
| "serialize_items num d [] = []"
| "serialize_items num d (x # xs) = (padding d @ serializeValue num d x @ '','') # serialize_items num d xs"
| "serialize_fields num d [] = []"
| "serialize_fields num d ((k, v) # kvs) = (padding d @ propKey k @ '': '' @ serializeValue num d v @ '','') # serialize_fields num d kvs"

definition MARKER :: string where
  "MARKER = ''window.NOTE_DATA''"

definition splitHeader :: "string \<Rightarrow> string option" where
  "splitHeader source = (case index_of MARKER source of None \<Rightarrow> None
     | Some i \<Rightarrow> if i = 0 then None else Some (trim_end (take i source)))"

definition header_of :: "string option \<Rightarrow> string" where
  "header_of previous = (case previous of None \<Rightarrow> [] | Some src \<Rightarrow> (case splitHeader src of None \<Rightarrow> [] | Some h \<Rightarrow> h))"

definition assignment :: "(rat \<Rightarrow> string) \<Rightarrow> note_data \<Rightarrow> string \<Rightarrow> string list" where
  "assignment num dat key = (case map_of dat key of None \<Rightarrow> []
     | Some v \<Rightarrow> [MARKER @ ''.'' @ key @ '' = '' @ serializeValue num 0 v @ '';'', []])"

definition serializeNoteDataFile :: "(rat \<Rightarrow> string) \<Rightarrow> string option \<Rightarrow> string list \<Rightarrow> note_data \<Rightarrow> string" where
  "serializeNoteDataFile num previous keys dat =
     (let header = header_of previous;
          parts = (if header \<noteq> [] then [header, []] else []) @ [MARKER @ '' = window.NOTE_DATA || {};'', []] @
                  concat (map (assignment num dat) keys)
      in trim_end (join_with newline parts) @ newline)"

definition readRawFile :: "(string \<Rightarrow> read_answer) \<Rightarrow> string \<Rightarrow> string option option" where
  "readRawFile rd f = (case rd f of Absent \<Rightarrow> Some None | Unreadable \<Rightarrow> None | Content s \<Rightarrow> Some (Some s))"

section \<open>The rules\<close>

datatype detail = OverCap nat int string | AmountField | LooksLike string | StaleEntry string int

record violation =
  vi_rule :: string
  vi_path :: string
  vi_detail :: detail

definition DEFAULT_RULES :: validate_file where
  "DEFAULT_RULES = \<lparr>fr_windows = [], fr_forbid_amount_fields = False, fr_acct_flow_max_age_months = None\<rparr>"

text \<open>An array answers to the decimal form of its positions; its length is a number, which no rule asks for.\<close>

definition dig_step :: "yaml option \<Rightarrow> string \<Rightarrow> yaml option" where
  "dig_step v segment = (case v of
     Some (YMap kvs) \<Rightarrow> map_of kvs segment
   | Some (YSeq xs) \<Rightarrow> map_option snd (List.find (\<lambda>(i, x). show_nat i = segment) (enumerate 0 xs))
   | _ \<Rightarrow> None)"

definition dig :: "note_data \<Rightarrow> string list \<Rightarrow> yaml option" where
  "dig dat path = foldl dig_step (Some (YMap dat)) path"

definition check_window :: "note_data \<Rightarrow> rule_window \<Rightarrow> violation list" where
  "check_window dat w = (case dig dat (split_on CHR ''.'' (rw_path w)) of
     Some (YSeq xs) \<Rightarrow> if int (length xs) > rw_max w
       then [\<lparr>vi_rule = ''governance-window'', vi_path = rw_path w, vi_detail = OverCap (length xs) (rw_max w) (rw_archive w)\<rparr>] else []
   | _ \<Rightarrow> [])"

definition checkWindows :: "note_data \<Rightarrow> rule_window list \<Rightarrow> violation list" where
  "checkWindows dat windows = concat (map (check_window dat) windows)"

text \<open>The walk both scans make: what is reported for a key, and what for a text.\<close>

definition item_path :: "string \<Rightarrow> nat \<Rightarrow> string" where
  "item_path path i = path @ ''['' @ show_nat i @ '']''"

definition field_path :: "string \<Rightarrow> string \<Rightarrow> string" where
  "field_path path key = path @ ''.'' @ key"

fun walk :: "(string \<Rightarrow> string \<Rightarrow> 'a list) \<Rightarrow> (string \<Rightarrow> string \<Rightarrow> 'a list) \<Rightarrow> string \<Rightarrow> yaml \<Rightarrow> 'a list"
  and walk_items :: "(string \<Rightarrow> string \<Rightarrow> 'a list) \<Rightarrow> (string \<Rightarrow> string \<Rightarrow> 'a list) \<Rightarrow> string \<Rightarrow> nat \<Rightarrow> yaml list \<Rightarrow> 'a list"
  and walk_fields :: "(string \<Rightarrow> string \<Rightarrow> 'a list) \<Rightarrow> (string \<Rightarrow> string \<Rightarrow> 'a list) \<Rightarrow> string \<Rightarrow> (string \<times> yaml) list \<Rightarrow> 'a list" where
  "walk on_key on_text path (YStr s) = on_text path s"
| "walk on_key on_text path (YSeq xs) = walk_items on_key on_text path 0 xs"
| "walk on_key on_text path (YMap kvs) = walk_fields on_key on_text path kvs"
| "walk on_key on_text path v = []"
| "walk_items on_key on_text path i [] = []"
| "walk_items on_key on_text path i (x # xs) = walk on_key on_text (item_path path i) x @ walk_items on_key on_text path (Suc i) xs"
| "walk_fields on_key on_text path [] = []"
| "walk_fields on_key on_text path ((k, v) # kvs) =
     on_key (field_path path k) k @ walk on_key on_text (field_path path k) v @ walk_fields on_key on_text path kvs"

definition MONEY_FIELDS :: "string list" where
  "MONEY_FIELDS = [''amount'', ''amt'', ''money'', ''cashvalue'', ''cash_value'', ''value'', ''total'', ''shares'', ''qty'', ''quantity'',
     [CHR 0xE9, CHR 0x87, CHR 0x91, CHR 0xE9, CHR 0xA2, CHR 0x9D], [CHR 0xE5, CHR 0xB8, CHR 0x82, CHR 0xE5, CHR 0x80, CHR 0xBC],
     [CHR 0xE6, CHR 0x95, CHR 0xB0, CHR 0xE9, CHR 0x87, CHR 0x8F], [CHR 0xE8, CHR 0x82, CHR 0xA1, CHR 0xE6, CHR 0x95, CHR 0xB0],
     [CHR 0xE6, CHR 0x88, CHR 0x90, CHR 0xE6, CHR 0x9C, CHR 0xAC, CHR 0xE9, CHR 0xA2, CHR 0x9D]]"

definition money_field :: "string \<Rightarrow> bool" where
  "money_field k \<longleftrightarrow> lower k \<in> set MONEY_FIELDS"

definition checkTradePrivacy :: "note_data \<Rightarrow> violation list" where
  "checkTradePrivacy dat = (case map_of dat ''trade'' of None \<Rightarrow> []
     | Some t \<Rightarrow> walk (\<lambda>p k. if money_field k then [\<lparr>vi_rule = ''no-amounts'', vi_path = p, vi_detail = AmountField\<rparr>] else [])
         (\<lambda>p s. []) ''trade'' t)"

text \<open>The patterns of credentials. Those that ignore case are tested on the text in lower case.\<close>

definition one_of :: "string \<Rightarrow> char \<Rightarrow> bool" where
  "one_of cs c \<longleftrightarrow> c \<in> set cs"

definition blanks :: rx where
  "blanks = RStar (RSet is_space)"

definition user_part :: rx where
  "user_part = r_least 1 (RSet (\<lambda>c. \<not> is_space c \<and> \<not> one_of ''/@'' c))"

definition credential_label :: rx where
  "credential_label = r_any [r_lit ''password'', r_lit ''passwd'', r_cat [r_lit ''api'', r_opt (RSet (one_of ''_-'')), r_lit ''key''],
     r_lit ''secret'', r_lit ''token'']"

definition SECRET_PATTERNS :: "(string \<times> bool \<times> pattern) list" where
  "SECRET_PATTERNS =
    [(''private key block'', False, \<lparr>pt_start = False, pt_rx = r_cat [r_lit ''-----BEGIN '', RStar (RSet (\<lambda>c. is_upper c \<or> c = CHR '' '')), r_lit ''PRIVATE KEY-----''], pt_end = False\<rparr>),
     (''bearer token'', False, \<lparr>pt_start = True, pt_rx = r_cat [r_lit ''Bearer'', r_least 1 (RSet is_space), r_least 20 (RSet (\<lambda>c. alnum c \<or> one_of ''._~+/-'' c))], pt_end = False\<rparr>),
     (''openai-style key'', False, \<lparr>pt_start = True, pt_rx = RSeq (r_lit ''sk-'') (r_least 20 (RSet alnum)), pt_end = False\<rparr>),
     (''github token'', False, \<lparr>pt_start = True, pt_rx = r_cat [r_lit ''gh'', RSet (one_of ''pousr''), r_lit ''_'', r_least 20 (RSet alnum)], pt_end = False\<rparr>),
     (''aws access key id'', False, \<lparr>pt_start = True, pt_rx = RSeq (r_lit ''AKIA'') (r_exactly 16 (RSet (\<lambda>c. is_digit c \<or> is_upper c))), pt_end = True\<rparr>),
     (''url with inline credentials'', True, \<lparr>pt_start = True, pt_rx = r_cat [RSet is_lower, RStar (RSet (\<lambda>c. is_lower c \<or> is_digit c \<or> one_of ''+.-'' c)), r_lit ''://'',
          user_part, r_lit '':'', user_part, r_lit ''@''], pt_end = False\<rparr>),
     (''labelled credential'', True, \<lparr>pt_start = True, pt_rx = r_cat [credential_label, blanks, RSet (one_of '':=''), blanks, r_least 8 (RSet (\<lambda>c. \<not> is_space c))], pt_end = False\<rparr>)]"

definition secret_test :: "string \<times> bool \<times> pattern \<Rightarrow> string \<Rightarrow> bool" where
  "secret_test x s = (case x of (name, ignore_case, p) \<Rightarrow> rx_test p (if ignore_case then lower s else s))"

definition secrets_in :: "string \<Rightarrow> string \<Rightarrow> violation list" where
  "secrets_in p s = map (\<lambda>x. \<lparr>vi_rule = ''no-secrets'', vi_path = p, vi_detail = LooksLike (fst x)\<rparr>) (filter (\<lambda>x. secret_test x s) SECRET_PATTERNS)"

definition checkSecrets :: "note_data \<Rightarrow> violation list" where
  "checkSecrets dat = walk (\<lambda>p k. []) secrets_in ''$'' (YMap dat)"

definition pad2 :: "string \<Rightarrow> string" where
  "pad2 s = replicate (2 - length s) CHR ''0'' @ s"

definition digits_upto :: "nat \<Rightarrow> nat \<Rightarrow> string \<Rightarrow> bool" where
  "digits_upto a b s \<longleftrightarrow> a \<le> length s \<and> length s \<le> b \<and> list_all is_digit s"

text \<open>The month of an entry as the code spells it, with its year when the date has one.\<close>

definition month_of :: "string \<Rightarrow> string option" where
  "month_of d = (case split_on CHR ''-'' (js_trim d) of
     [m, dd] \<Rightarrow> if digits_upto 1 2 m \<and> digits_upto 1 2 dd then Some (pad2 m) else None
   | [y, m, dd] \<Rightarrow> if digits_upto 4 4 y \<and> digits_upto 1 2 m \<and> digits_upto 1 2 dd then Some (y @ ''-'' @ pad2 m) else None
   | _ \<Rightarrow> None)"

text \<open>The months from the current one back; the clock gives year and month.\<close>

definition allowed_months :: "int \<times> int \<Rightarrow> int \<Rightarrow> string list" where
  "allowed_months now n = concat (map (\<lambda>b. let t = fst now * 12 + (snd now - 1) - int b; m = pad2 (show_int (t mod 12 + 1))
     in [show_int (t div 12) @ ''-'' @ m, m]) [0..<nat (n + 1)])"

definition check_entry :: "string list \<Rightarrow> int \<Rightarrow> nat \<times> yaml \<Rightarrow> violation list" where
  "check_entry allowed n x = (case x of (i, e) \<Rightarrow> (case yget (Some e) ''d'' of
     Some (YStr d) \<Rightarrow> (case month_of d of None \<Rightarrow> []
       | Some m \<Rightarrow> if m \<in> set allowed then [] else [\<lparr>vi_rule = ''governance-window'', vi_path = item_path ''acct.flow'' i, vi_detail = StaleEntry d (n + 1)\<rparr>])
   | _ \<Rightarrow> []))"

definition checkAcctFlow :: "note_data \<Rightarrow> int \<Rightarrow> int \<times> int \<Rightarrow> violation list" where
  "checkAcctFlow dat n now = (case dig dat [''acct'', ''flow''] of
     Some (YSeq xs) \<Rightarrow> concat (map (check_entry (allowed_months now n) n) (enumerate 0 xs)) | _ \<Rightarrow> [])"

definition validateNoteData :: "validate_file \<Rightarrow> int \<times> int \<Rightarrow> note_data \<Rightarrow> violation list" where
  "validateNoteData rules now dat = checkWindows dat (fr_windows rules) @
     (if fr_forbid_amount_fields rules then checkTradePrivacy dat else []) @ checkSecrets dat @
     (case fr_acct_flow_max_age_months rules of None \<Rightarrow> [] | Some n \<Rightarrow> checkAcctFlow dat n now)"

section \<open>What accepted data is\<close>

text \<open>The keys and the texts that stand anywhere in a value.\<close>

fun keys_in :: "yaml \<Rightarrow> string set" and item_keys :: "yaml list \<Rightarrow> string set" and field_keys :: "(string \<times> yaml) list \<Rightarrow> string set" where
  "keys_in (YSeq xs) = item_keys xs"
| "keys_in (YMap kvs) = field_keys kvs"
| "keys_in v = {}"
| "item_keys [] = {}"
| "item_keys (x # xs) = keys_in x \<union> item_keys xs"
| "field_keys [] = {}"
| "field_keys ((k, v) # kvs) = insert k (keys_in v \<union> field_keys kvs)"

fun texts_in :: "yaml \<Rightarrow> string set" and item_texts :: "yaml list \<Rightarrow> string set" and field_texts :: "(string \<times> yaml) list \<Rightarrow> string set" where
  "texts_in (YStr s) = {s}"
| "texts_in (YSeq xs) = item_texts xs"
| "texts_in (YMap kvs) = field_texts kvs"
| "texts_in v = {}"
| "item_texts [] = {}"
| "item_texts (x # xs) = texts_in x \<union> item_texts xs"
| "field_texts [] = {}"
| "field_texts ((k, v) # kvs) = texts_in v \<union> field_texts kvs"

lemma walk_empty:
  assumes "\<And>p k. fk p k = [] \<longleftrightarrow> P k" and "\<And>p s. ft p s = [] \<longleftrightarrow> Q s"
  shows "walk fk ft p v = [] \<longleftrightarrow> Ball (keys_in v) P \<and> Ball (texts_in v) Q"
    and "walk_items fk ft p i xs = [] \<longleftrightarrow> Ball (item_keys xs) P \<and> Ball (item_texts xs) Q"
    and "walk_fields fk ft p kvs = [] \<longleftrightarrow> Ball (field_keys kvs) P \<and> Ball (field_texts kvs) Q"
proof (induction v and xs and kvs arbitrary: p and p i and p rule: keys_in_item_keys_field_keys.induct)
qed (auto simp: assms)

definition within_window :: "note_data \<Rightarrow> rule_window \<Rightarrow> bool" where
  "within_window dat w \<longleftrightarrow> (case dig dat (split_on CHR ''.'' (rw_path w)) of Some (YSeq xs) \<Rightarrow> int (length xs) \<le> rw_max w | _ \<Rightarrow> True)"

definition no_amounts :: "note_data \<Rightarrow> bool" where
  "no_amounts dat \<longleftrightarrow> (case map_of dat ''trade'' of None \<Rightarrow> True | Some t \<Rightarrow> \<forall>k \<in> keys_in t. \<not> money_field k)"

text \<open>A text holds a credential if a part of it, between the boundaries asked for, is in the language of a pattern.\<close>

definition holds_secret :: "string \<Rightarrow> bool" where
  "holds_secret s \<longleftrightarrow> (\<exists>(name, ignore_case, p) \<in> set SECRET_PATTERNS. \<exists>u v w. (if ignore_case then lower s else s) = u @ v @ w \<and>
     v \<in> lang (pt_rx p) \<and> (pt_start p \<longrightarrow> u = [] \<or> \<not> word_char (last u)) \<and> (pt_end p \<longrightarrow> w = [] \<or> \<not> word_char (hd w)))"

definition recent_flow :: "int \<Rightarrow> int \<times> int \<Rightarrow> note_data \<Rightarrow> bool" where
  "recent_flow n now dat \<longleftrightarrow> (case dig dat [''acct'', ''flow''] of
     Some (YSeq xs) \<Rightarrow> (\<forall>e \<in> set xs. \<forall>d m. yget (Some e) ''d'' = Some (YStr d) \<and> month_of d = Some m \<longrightarrow> m \<in> set (allowed_months now n)) | _ \<Rightarrow> True)"

lemma checkWindows_empty: "checkWindows dat ws = [] \<longleftrightarrow> list_all (within_window dat) ws"
  by (induction ws) (auto simp: checkWindows_def check_window_def within_window_def split: option.splits yaml.splits)

lemma checkTradePrivacy_empty: "checkTradePrivacy dat = [] \<longleftrightarrow> no_amounts dat"
  unfolding checkTradePrivacy_def no_amounts_def
  by (simp add: walk_empty(1) [where P = "\<lambda>k. \<not> money_field k" and Q = "\<lambda>s. True"] split: option.split)

lemma secrets_in_empty: "secrets_in p s = [] \<longleftrightarrow> \<not> holds_secret s"
  unfolding secrets_in_def holds_secret_def secret_test_def rx_test_iff
  by (simp add: filter_empty_conv split_beta)

lemma checkSecrets_empty: "checkSecrets dat = [] \<longleftrightarrow> (\<forall>s \<in> texts_in (YMap dat). \<not> holds_secret s)"
  unfolding checkSecrets_def
  by (subst walk_empty(1) [where P = "\<lambda>k. True" and Q = "\<lambda>s. \<not> holds_secret s"]) (simp_all add: secrets_in_empty)

lemma check_entry_empty:
  "check_entry allowed n (i, e) = [] \<longleftrightarrow> (\<forall>d m. yget (Some e) ''d'' = Some (YStr d) \<and> month_of d = Some m \<longrightarrow> m \<in> set allowed)"
  by (auto simp: check_entry_def split: option.splits yaml.splits)

lemma entries_empty:
  "(\<forall>x \<in> set (enumerate i xs). check_entry allowed n x = []) \<longleftrightarrow> (\<forall>e \<in> set xs. check_entry allowed n (0, e) = [])"
  by (induction xs arbitrary: i) (auto simp: check_entry_empty)

lemma checkAcctFlow_empty: "checkAcctFlow dat n now = [] \<longleftrightarrow> recent_flow n now dat"
  unfolding checkAcctFlow_def recent_flow_def
  by (cases "dig dat [''acct'', ''flow'']") (simp_all add: entries_empty check_entry_empty split: yaml.split)


text \<open>
  Only texts are searched for credentials, one by one: a credential under the key that names it, the usual form in a data
  file, passes, and so does one that is itself a key; written as one text it is refused.
\<close>

theorem labelled_secret_passes:
  "(let rules = DEFAULT_RULES; check = (\<lambda>dat. length (validateNoteData rules (2026, 9) dat))
    in (check [(''mind'', YMap [(''password'', YStr ''hunter22'')])],
        check [(''mind'', YMap [(''sk-abcdefghijklmnopqrstuvwxyz'', YBool True)])],
        check [(''mind'', YStr ''password: hunter22'')])) = (0, 0, 1)"
  by code_simp

section \<open>What a rewritten file is\<close>

lemma trim_end_Nil [simp]: "trim_end [] = []"
  by (simp add: trim_end_def)

lemma trim_end_idem [simp]: "trim_end (trim_end s) = trim_end s"
  by (simp add: trim_end_def)

lemma trim_end_append_space: "list_all is_space w \<Longrightarrow> trim_end (s @ w) = trim_end s"
proof (induction w rule: rev_induct)
  case (snoc c w)
  then have "trim_end (s @ w @ [c]) = trim_end (s @ w)" by (simp add: trim_end_def)
  with snoc show ?case by simp
qed simp

lemma trim_end_prefix: "\<exists>w. s = trim_end s @ w"
  unfolding trim_end_def
  by (metis rev_append rev_rev_ident takeWhile_dropWhile_id)

lemma index_of_prefix: "is_prefix needle s \<Longrightarrow> s \<noteq> [] \<Longrightarrow> index_of needle s = Some 0"
  by (cases s) auto

lemma index_of_None: "index_of needle s = None \<longleftrightarrow> \<not> str_includes s needle"
  by (induction s) (auto simp: is_prefix_iff split: if_splits)

lemma index_of_Some: "index_of needle s = Some i \<Longrightarrow> i \<le> length s \<and> is_prefix needle (drop i s) \<and> (\<forall>j < i. \<not> is_prefix needle (drop j s))"
proof (induction s arbitrary: i)
  case (Cons c cs)
  show ?case
  proof (cases "is_prefix needle (c # cs)")
    case True with Cons.prems show ?thesis by simp
  next
    case False
    with Cons.prems obtain k where k: "index_of needle cs = Some k" "i = Suc k" by auto
    from Cons.IH [OF k(1)] False show ?thesis by (auto simp: k(2) less_Suc_eq_0_disj)
  qed
qed (auto split: if_splits)

lemma index_of_least:
  assumes "i < length s" "is_prefix needle (drop i s)" "\<And>j. j < i \<Longrightarrow> \<not> is_prefix needle (drop j s)"
  shows "index_of needle s = Some i"
  using assms
proof (induction s arbitrary: i)
  case (Cons c cs)
  show ?case
  proof (cases i)
    case 0 with Cons.prems show ?thesis by simp
  next
    case (Suc k)
    have "\<not> is_prefix needle (c # cs)" using Cons.prems(3) [of 0] Suc by simp
    moreover have "index_of needle cs = Some k"
    proof (rule Cons.IH)
      show "k < length cs" "is_prefix needle (drop k cs)" using Cons.prems(1,2) Suc by simp_all
      show "\<not> is_prefix needle (drop j cs)" if "j < k" for j using Cons.prems(3) [of "Suc j"] that Suc by simp
    qed
    ultimately show ?thesis using Suc by simp
  qed
qed simp

lemma trim_end_append:
  assumes "trim_end t \<noteq> []"
  shows "trim_end (s @ t) = s @ trim_end t"
proof -
  obtain x where "x \<in> set (rev t)" "\<not> is_space x"
    using assms by (auto simp: trim_end_def dropWhile_eq_Nil_conv)
  then show ?thesis by (simp add: trim_end_def dropWhile_append1)
qed

lemma prefix_before: "is_prefix m (u @ c # v) \<Longrightarrow> c \<notin> set m \<Longrightarrow> is_prefix m u"
proof (induction m arbitrary: u)
  case (Cons a m)
  then show ?case by (cases u) auto
qed simp

lemma MARKER_facts: "MARKER \<noteq> []" "CHR 0x0A \<notin> set MARKER" "\<not> is_space (last MARKER)"
  by (simp_all add: MARKER_def is_space_def)

lemma header_no_marker: "j \<le> length (header_of previous) \<Longrightarrow> \<not> is_prefix MARKER (drop j (header_of previous))"
proof
  let ?h = "header_of previous"
  assume p: "is_prefix MARKER (drop j ?h)"
  then have "?h \<noteq> []" using MARKER_facts(1) by (cases ?h) (auto simp: MARKER_def)
  then obtain src i where i: "index_of MARKER src = Some i" "?h = trim_end (take i src)"
    by (auto simp: header_of_def splitHeader_def split: option.splits if_splits)
  obtain w where w: "take i src = ?h @ w" using trim_end_prefix [of "take i src"] i(2) by auto
  have "src = ?h @ w @ drop i src" using w append_take_drop_id [of i src] by simp
  moreover have "j < length ?h" using p MARKER_facts(1) by (cases "j < length ?h") (auto simp: MARKER_def)
  ultimately have "is_prefix MARKER (drop j src)" using p by (auto simp: is_prefix_iff) (metis append.assoc drop_append less_imp_le_nat diff_is_0_eq' drop0)
  moreover have "j < i"
    using \<open>j < length ?h\<close> w by (metis length_append length_take min.bounded_iff not_add_less1 not_le_imp_less order_less_le_trans trans_less_add1)
  ultimately show False using index_of_Some [OF i(1)] by blast
qed

lemma header_trimmed: "trim_end (header_of previous) = header_of previous"
  by (auto simp: header_of_def splitHeader_def split: option.split)

definition file_body :: "(rat \<Rightarrow> string) \<Rightarrow> string list \<Rightarrow> note_data \<Rightarrow> string" where
  "file_body num keys dat = join_with newline ([MARKER @ '' = window.NOTE_DATA || {};'', []] @ concat (map (assignment num dat) keys))"

lemma file_body_marker: "\<exists>w. file_body num keys dat = MARKER @ w"
  by (cases "concat (map (assignment num dat) keys)") (auto simp: file_body_def newline_def)

lemma trim_body: "\<exists>w. trim_end (file_body num keys dat) = MARKER @ w"
proof -
  obtain w where w: "file_body num keys dat = MARKER @ w" using file_body_marker by blast
  show ?thesis
  proof (cases "trim_end w = []")
    case True
    then have "list_all is_space w" by (simp add: trim_end_def dropWhile_eq_Nil_conv list_all_iff)
    then have "trim_end (MARKER @ w) = trim_end MARKER" by (rule trim_end_append_space)
    moreover have "trim_end MARKER = MARKER" by code_simp
    ultimately show ?thesis using w by auto
  next
    case False
    with w show ?thesis by (simp add: trim_end_append)
  qed
qed

lemma serialize_eq:
  "serializeNoteDataFile num previous keys dat =
     (if header_of previous = [] then [] else header_of previous @ newline @ newline) @ trim_end (file_body num keys dat) @ newline"
proof -
  obtain w where w: "trim_end (file_body num keys dat) = MARKER @ w" using trim_body by blast
  then have ne: "trim_end (file_body num keys dat) \<noteq> []" by (simp add: MARKER_def)
  let ?b = "file_body num keys dat" and ?h = "header_of previous"
  let ?rest = "[MARKER @ '' = window.NOTE_DATA || {};'', []] @ concat (map (assignment num dat) keys)"
  have parts: "join_with newline ?rest = ?b" "join_with newline ([?h, []] @ ?rest) = ?h @ newline @ newline @ ?b"
    by (simp_all add: file_body_def)
  show ?thesis
  proof (cases "?h = []")
    case True
    then show ?thesis unfolding serializeNoteDataFile_def Let_def by (simp only: parts simp_thms if_False if_True append_Nil)
  next
    case False
    have "trim_end (?h @ newline @ newline @ ?b) = ?h @ newline @ newline @ trim_end ?b"
      using trim_end_append [OF ne, of "?h @ newline @ newline"] by simp
    with False show ?thesis
      unfolding serializeNoteDataFile_def Let_def by (simp only: parts simp_thms if_False if_True append_assoc)
  qed
qed

text \<open>
  Rewriting a data file keeps its header and settles: what is written over a file that was itself written this way, with
  whatever data either time, is what would have been written over the original.
\<close>

theorem rewriting_keeps_header:
  "serializeNoteDataFile num (Some (serializeNoteDataFile num previous keys dat)) keys2 dat2 =
     serializeNoteDataFile num previous keys2 dat2"
proof -
  let ?h = "header_of previous" and ?t = "serializeNoteDataFile num previous keys dat"
  obtain w where w: "trim_end (file_body num keys dat) = MARKER @ w" using trim_body by blast
  have "header_of (Some ?t) = ?h"
  proof (cases "?h = []")
    case True
    then have "?t = MARKER @ w @ newline" by (simp add: serialize_eq w)
    moreover have "index_of MARKER (MARKER @ w @ newline) = Some 0"
      by (rule index_of_prefix) (simp_all add: MARKER_def)
    ultimately show ?thesis using True by (simp add: header_of_def splitHeader_def)
  next
    case False
    then have t: "?t = ?h @ newline @ newline @ MARKER @ w @ newline" by (simp add: serialize_eq w)
    have "index_of MARKER ?t = Some (length ?h + 2)"
    proof (rule index_of_least)
      show "length ?h + 2 < length ?t" by (simp add: t newline_def)
      show "is_prefix MARKER (drop (length ?h + 2) ?t)" by (simp add: t newline_def)
      fix j assume "j < length ?h + 2"
      then consider "j \<le> length ?h" | "j = length ?h + 1" by linarith
      then show "\<not> is_prefix MARKER (drop j ?t)"
      proof cases
        case 1
        then have "drop j ?t = drop j ?h @ CHR 0x0A # newline @ MARKER @ w @ newline" by (simp add: t newline_def)
        then show ?thesis using prefix_before MARKER_facts(2) header_no_marker [OF 1] by metis
      next
        case 2
        then show ?thesis by (simp add: t newline_def MARKER_def)
      qed
    qed
    then have "splitHeader ?t = Some (trim_end (?h @ newline @ newline))"
      by (simp add: splitHeader_def t newline_def)
    also have "trim_end (?h @ newline @ newline) = ?h"
      using trim_end_append_space [of "newline @ newline" ?h] by (simp add: header_trimmed newline_def is_space_def)
    finally show ?thesis by (simp add: header_of_def)
  qed
  then show ?thesis
    unfolding serialize_eq [of num "Some ?t" keys2 dat2] serialize_eq [of num previous keys2 dat2] by (simp only:)
qed

text \<open>
  The header ends at the first mention of the assigned object, wherever it stands: a comment that mentions it is cut there,
  and the file written in its place is no longer a script, because the comment never closes.
\<close>

theorem header_cut_in_comment:
  "serializeNoteDataFile num (Some ''/* fills window.NOTE_DATA */ window.NOTE_DATA = {};'') [] [] =
     ''/* fills'' @ newline @ newline @ ''window.NOTE_DATA = window.NOTE_DATA || {};'' @ newline"
  by code_simp

end
