(* ===== verification/Writer.thy ===== *)
theory Writer
  imports NoteData
begin

text \<open>
  The channel through which the manager writes into a workspace (\<^verbatim>\<open>workspace/writer.ts\<close>). A path is the list of its names from the
  wsroot of the file system, the disk a map from paths to contents. Symbolic links, the answers of git and which operations on the
  disk fail are parameters.
\<close>

section \<open>Paths\<close>

type_synonym path = "string list"

record file_system =
  fs_real :: "path \<Rightarrow> path"
  fs_exists :: "path \<Rightarrow> bool"

text \<open>\<^verbatim>\<open>path.resolve\<close> and \<^verbatim>\<open>path.relative\<close> on names.\<close>

fun walk_path :: "path \<Rightarrow> string list \<Rightarrow> path" where
  "walk_path base [] = base"
| "walk_path base (s # ss) = walk_path (if s = [] \<or> s = ''.'' then base else if s = ''..'' then butlast base else base @ [s]) ss"

fun relative :: "path \<Rightarrow> path \<Rightarrow> string list" where
  "relative [] target = target"
| "relative (a # as) [] = replicate (length (a # as)) ''..''"
| "relative (a # as) (b # bs) = (if a = b then relative as bs else replicate (length (a # as)) ''..'' @ b # bs)"

definition starts_up :: "string list \<Rightarrow> bool" where
  "starts_up rel \<longleftrightarrow> (case rel of [] \<Rightarrow> False | s # ss \<Rightarrow> is_prefix ''..'' s)"

function nearest :: "(path \<Rightarrow> bool) \<Rightarrow> path \<Rightarrow> path" where
  "nearest ex p = (if ex p \<or> p = [] then p else nearest ex (butlast p))"
  by auto
termination by (relation "measure (\<lambda>(ex, p). length p)") auto

declare nearest.simps [simp del]

datatype rejection =
    EmptyPath | AbsolutePath | NullByte | EscapesWorkspace | ForbiddenPath | EscapesBySymlink
  | NothingToWrite | NotARepository | UncommittedChanges "string list" | DataDoesNotParse "data_problem list"
  | RulesViolated "violation list" | CommitFailed | NotMarkdown | UnknownDataset "string list" | Thrown

definition FORBIDDEN_PREFIXES :: "string list" where
  "FORBIDDEN_PREFIXES = [''.git'']"

definition resolveInside :: "file_system \<Rightarrow> path \<Rightarrow> string \<Rightarrow> rejection + path" where
  "resolveInside fs workspace relPath =
     (if js_trim relPath = [] then Inl EmptyPath
      else if is_prefix ''/'' relPath then Inl AbsolutePath
      else if CHR 0x00 \<in> set relPath then Inl NullByte
      else (let wsroot = fs_real fs workspace; target = walk_path wsroot (split_on CHR ''/'' relPath); inside = relative wsroot target in
        if inside = [] \<or> starts_up inside then Inl EscapesWorkspace
        else if hd inside \<in> set FORBIDDEN_PREFIXES then Inl ForbiddenPath
        else if starts_up (relative wsroot (fs_real fs (nearest (fs_exists fs) (butlast target)))) then Inl EscapesBySymlink
        else Inr target))"

text \<open>Where the system puts a file: the real place of the nearest directory that exists, and the missing names below it.\<close>

definition physical :: "file_system \<Rightarrow> path \<Rightarrow> path" where
  "physical fs target = (let anc = nearest (fs_exists fs) (butlast target) in fs_real fs anc @ drop (length anc) target)"

section \<open>Writing\<close>

type_synonym disk = "path \<rightharpoonup> string"

record disk_io =
  io_write :: "path \<Rightarrow> string \<Rightarrow> bool"
  io_unlink :: "path \<Rightarrow> bool"
  io_read :: "path \<Rightarrow> bool"

record git_answers =
  ga_repo :: bool
  ga_dirty :: "string list"
  ga_add :: bool
  ga_commit :: "string option"

datatype git_call = GitAdd "string list" | GitCommit string "string list"

record file_write =
  fw_relPath :: string
  fw_contents :: string

record apply_options =
  ao_message :: string
  ao_originalRequest :: "string option"
  ao_commit :: bool
  ao_rules :: "validate_file option"

record apply_result =
  ar_files :: "string list"
  ar_commit :: "string option"

definition NOTE_DATA_PATH :: "string list" where
  "NOTE_DATA_PATH = [''Z-'' @ [CHR 0xE5, CHR 0x85, CHR 0x83, CHR 0xE6, CHR 0x95, CHR 0xB0, CHR 0xE6, CHR 0x8D, CHR 0xAE], ''note-data'']"

definition NOTE_DATA_DIR :: string where
  "NOTE_DATA_DIR = join_with ''/'' NOTE_DATA_PATH"

definition read_file :: "disk_io \<Rightarrow> disk \<Rightarrow> path \<Rightarrow> string \<Rightarrow> read_answer" where
  "read_file io disk wsroot f = (let p = wsroot @ NOTE_DATA_PATH @ [f] in
     case disk p of None \<Rightarrow> Absent | Some t \<Rightarrow> if io_read io p then Content t else Unreadable)"

fun write_all :: "disk_io \<Rightarrow> (path \<times> string) list \<Rightarrow> disk \<Rightarrow> disk \<times> bool" where
  "write_all io [] disk = (disk, True)"
| "write_all io ((p, c) # ts) disk = (if io_write io p c then write_all io ts (disk(p \<mapsto> c)) else (disk, False))"

definition restore :: "disk_io \<Rightarrow> path \<times> string option \<Rightarrow> disk \<Rightarrow> disk" where
  "restore io x disk = (case x of
     (p, None) \<Rightarrow> if disk p \<noteq> None \<and> io_unlink io p then disk(p := None) else disk
   | (p, Some c) \<Rightarrow> if io_write io p c then disk(p \<mapsto> c) else disk)"

definition rollback :: "disk_io \<Rightarrow> (path \<times> string option) list \<Rightarrow> disk \<Rightarrow> disk" where
  "rollback io before disk = fold (restore io) before disk"

definition corrupt :: "read_result \<Rightarrow> data_problem list" where
  "corrupt r = filter (\<lambda>p. dp_kind p = Invalid) (rr_problems r)"

definition readback :: "disk_io \<Rightarrow> 'w engine \<Rightarrow> int \<times> int \<Rightarrow> validate_file option \<Rightarrow> path \<Rightarrow> disk \<Rightarrow> rejection option" where
  "readback io en now rules wsroot disk =
     (let r = readNoteData en (read_file io disk wsroot);
          vs = validateNoteData (case rules of None \<Rightarrow> DEFAULT_RULES | Some x \<Rightarrow> x) now (rr_data r) in
      if corrupt r \<noteq> [] then Some (DataDoesNotParse (corrupt r)) else if vs \<noteq> [] then Some (RulesViolated vs) else None)"

definition commit_text :: "apply_options \<Rightarrow> string" where
  "commit_text o1 = join_with newline (ao_message o1 # (case ao_originalRequest o1 of None \<Rightarrow> [] | Some r \<Rightarrow> [[], ''Requested: '' @ r]))"

text \<open>The part after the checks: write, read back, commit.\<close>

definition write_batch :: "disk_io \<Rightarrow> 'w engine \<Rightarrow> git_answers \<Rightarrow> int \<times> int \<Rightarrow> path \<Rightarrow> (path \<times> string) list \<Rightarrow> apply_options \<Rightarrow> disk \<Rightarrow>
    disk \<times> git_call list \<times> (rejection + apply_result)" where
  "write_batch io en git now wsroot targets o1 disk =
     (let rels = map (\<lambda>t. join_with ''/'' (relative wsroot (fst t))) targets;
          before = map (\<lambda>t. (fst t, disk (fst t))) targets in
      if list_ex (\<lambda>t. disk (fst t) \<noteq> None \<and> \<not> io_read io (fst t)) targets then (disk, [], Inl Thrown)
      else (case write_all io targets disk of
        (disk1, False) \<Rightarrow> (disk1, [], Inl Thrown)
      | (disk1, True) \<Rightarrow>
          (case (if list_ex (is_prefix NOTE_DATA_DIR) rels then readback io en now (ao_rules o1) wsroot disk1 else None) of
             Some e \<Rightarrow> (rollback io before disk1, [], Inl e)
           | None \<Rightarrow>
               if \<not> ao_commit o1 then (disk1, [], Inr \<lparr>ar_files = rels, ar_commit = None\<rparr>)
               else if \<not> ga_add git then (rollback io before disk1, [GitAdd rels], Inl CommitFailed)
               else (case ga_commit git of
                   None \<Rightarrow> (rollback io before disk1, [GitAdd rels, GitCommit (commit_text o1) rels], Inl CommitFailed)
                 | Some h \<Rightarrow> (disk1, [GitAdd rels, GitCommit (commit_text o1) rels],
                     Inr \<lparr>ar_files = rels, ar_commit = (if h = [] then None else Some h)\<rparr>)))))"

definition resolve_writes :: "file_system \<Rightarrow> path \<Rightarrow> file_write list \<Rightarrow> rejection + (path \<times> string) list" where
  "resolve_writes fs ws writes = mapE (\<lambda>w. bindE (resolveInside fs ws (fw_relPath w)) (\<lambda>p. Inr (p, fw_contents w))) writes"

definition applyWrites :: "file_system \<Rightarrow> disk_io \<Rightarrow> 'w engine \<Rightarrow> git_answers \<Rightarrow> int \<times> int \<Rightarrow> path \<Rightarrow> file_write list \<Rightarrow> apply_options \<Rightarrow> disk \<Rightarrow>
    disk \<times> git_call list \<times> (rejection + apply_result)" where
  "applyWrites fs io en git now ws writes o1 disk =
     (if writes = [] then (disk, [], Inl NothingToWrite)
      else (case resolve_writes fs ws writes of
        Inl e \<Rightarrow> (disk, [], Inl e)
      | Inr targets \<Rightarrow>
          (let wsroot = fs_real fs ws; rels = map (\<lambda>t. join_with ''/'' (relative wsroot (fst t))) targets;
               conflicts = filter (\<lambda>p. p \<in> set (ga_dirty git)) rels in
           if \<not> ga_repo git then (disk, [], Inl NotARepository)
           else if conflicts \<noteq> [] then (disk, [], Inl (UncommittedChanges conflicts))
           else write_batch io en git now wsroot targets o1 disk)))"

definition appendMarkdown :: "file_system \<Rightarrow> disk_io \<Rightarrow> 'w engine \<Rightarrow> git_answers \<Rightarrow> int \<times> int \<Rightarrow> path \<Rightarrow> string \<Rightarrow> string \<Rightarrow> apply_options \<Rightarrow> disk \<Rightarrow>
    disk \<times> git_call list \<times> (rejection + apply_result)" where
  "appendMarkdown fs io en git now ws relPath line o1 disk = (case resolveInside fs ws relPath of
     Inl e \<Rightarrow> (disk, [], Inl e)
   | Inr p \<Rightarrow>
       if \<not> is_prefix (rev ''.md'') (rev (lower relPath)) then (disk, [], Inl NotMarkdown)
       else if disk p \<noteq> None \<and> \<not> io_read io p then (disk, [], Inl Thrown)
       else (let existing = (case disk p of None \<Rightarrow> [] | Some t \<Rightarrow> t);
                 separator = (if existing = [] \<or> last existing = CHR 0x0A then [] else newline) in
             applyWrites fs io en git now ws [\<lparr>fw_relPath = relPath, fw_contents = existing @ separator @ trim_end line @ newline\<rparr>] o1 disk))"

section \<open>Writing data\<close>

text \<open>\<^verbatim>\<open>isDeepStrictEqual\<close>: the order of keys does not count.\<close>

fun deep_equal :: "yaml \<Rightarrow> yaml \<Rightarrow> bool" and equal_items :: "yaml list \<Rightarrow> yaml list \<Rightarrow> bool" and equal_fields :: "(string \<times> yaml) list \<Rightarrow> (string \<times> yaml) list \<Rightarrow> bool" where
  "deep_equal (YSeq xs) b = (case b of YSeq ys \<Rightarrow> equal_items xs ys | _ \<Rightarrow> False)"
| "deep_equal (YMap kvs) b = (case b of YMap lws \<Rightarrow> length kvs = length lws \<and> equal_fields kvs lws | _ \<Rightarrow> False)"
| "deep_equal YNull b = (b = YNull)"
| "deep_equal (YBool x) b = (b = YBool x)"
| "deep_equal (YNum x) b = (b = YNum x)"
| "deep_equal (YStr x) b = (b = YStr x)"
| "equal_items [] ys = (ys = [])"
| "equal_items (x # xs) ys = (case ys of [] \<Rightarrow> False | y # ys' \<Rightarrow> deep_equal x y \<and> equal_items xs ys')"
| "equal_fields [] lws = True"
| "equal_fields ((k, v) # kvs) lws = ((case map_of lws k of None \<Rightarrow> False | Some w \<Rightarrow> deep_equal v w) \<and> equal_fields kvs lws)"

definition same_value :: "yaml option \<Rightarrow> yaml option \<Rightarrow> bool" where
  "same_value a b = (case (a, b) of (None, None) \<Rightarrow> True | (Some x, Some y) \<Rightarrow> deep_equal x y | _ \<Rightarrow> False)"

definition merge_patch :: "note_data \<Rightarrow> note_data \<Rightarrow> note_data" where
  "merge_patch current patch = map (\<lambda>(k, v). (k, case map_of patch k of None \<Rightarrow> v | Some w \<Rightarrow> w)) current @
     filter (\<lambda>(k, v). map_of current k = None) patch"

text \<open>What is written for one file: nothing when no patched key is its own, when its data stays the same, or when its text does.\<close>

definition data_write :: "(rat \<Rightarrow> string) \<Rightarrow> (string \<Rightarrow> read_answer) \<Rightarrow> note_data \<Rightarrow> note_data \<Rightarrow> string list \<Rightarrow> string \<Rightarrow> file_write list option" where
  "data_write num rd current merged owners f =
     (if f \<notin> set owners \<or> list_all (\<lambda>k. same_value (map_of current k) (map_of merged k)) (keysForFile f) then Some []
      else (case readRawFile rd f of
          None \<Rightarrow> None
        | Some previous \<Rightarrow>
            (let text = serializeNoteDataFile num previous (keysForFile f) merged in
             if previous = Some text then Some [] else Some [\<lparr>fw_relPath = NOTE_DATA_DIR @ ''/'' @ f, fw_contents = text\<rparr>])))"

primrec data_writes :: "(rat \<Rightarrow> string) \<Rightarrow> (string \<Rightarrow> read_answer) \<Rightarrow> note_data \<Rightarrow> note_data \<Rightarrow> string list \<Rightarrow> string list \<Rightarrow> file_write list option" where
  "data_writes num rd current merged owners [] = Some []"
| "data_writes num rd current merged owners (f # fs) = (case data_write num rd current merged owners f of
     None \<Rightarrow> None
   | Some w \<Rightarrow> (case data_writes num rd current merged owners fs of None \<Rightarrow> None | Some ws \<Rightarrow> Some (w @ ws)))"

definition writeNoteData :: "(rat \<Rightarrow> string) \<Rightarrow> file_system \<Rightarrow> disk_io \<Rightarrow> 'w engine \<Rightarrow> git_answers \<Rightarrow> int \<times> int \<Rightarrow> path \<Rightarrow> note_data \<Rightarrow> apply_options \<Rightarrow>
    validate_file \<Rightarrow> disk \<Rightarrow> disk \<times> git_call list \<times> (rejection + apply_result)" where
  "writeNoteData num fs io en git now ws patch o1 rules disk =
     (let unknown = filter (\<lambda>k. map_of KEY_OWNER k = None) (map fst patch);
          rd = read_file io disk (fs_real fs ws); current = readNoteData en rd; merged = merge_patch (rr_data current) patch;
          vs = validateNoteData rules now merged; owners = map owner_or_first (map fst patch) in
      if patch = [] then (disk, [], Inl NothingToWrite)
      else if unknown \<noteq> [] then (disk, [], Inl (UnknownDataset unknown))
      else if corrupt current \<noteq> [] then (disk, [], Inl (DataDoesNotParse (corrupt current)))
      else if vs \<noteq> [] then (disk, [], Inl (RulesViolated vs))
      else (case data_writes num rd (rr_data current) merged owners NOTE_DATA_FILES of
          None \<Rightarrow> (disk, [], Inl Thrown)
        | Some [] \<Rightarrow> (disk, [], Inr \<lparr>ar_files = [], ar_commit = None\<rparr>)
        | Some writes \<Rightarrow> applyWrites fs io en git now ws writes (o1\<lparr>ao_rules := Some rules\<rparr>) disk))"

section \<open>Paths stay inside\<close>

lemma relative_down: "\<not> starts_up (relative wsroot target) \<Longrightarrow> target = wsroot @ relative wsroot target"
  by (induction wsroot target rule: relative.induct) (auto simp: starts_up_def split: if_splits)

lemma relative_append [simp]: "relative wsroot (wsroot @ ss) = ss"
  by (induction wsroot) auto

lemma resolveInside_Inr:
  assumes "resolveInside fs ws rel = Inr t"
  shows "t = walk_path (fs_real fs ws) (split_on CHR ''/'' rel)" "t = fs_real fs ws @ relative (fs_real fs ws) t"
    "relative (fs_real fs ws) t \<noteq> []" "hd (relative (fs_real fs ws) t) \<noteq> ''.git''"
    "\<not> starts_up (relative (fs_real fs ws) (fs_real fs (nearest (fs_exists fs) (butlast t))))"
  using assms relative_down [of "fs_real fs ws" t]
  by (auto simp: resolveInside_def Let_def FORBIDDEN_PREFIXES_def split: if_splits)

text \<open>
  Claim C28. No write leaves the workspace: a path that is accepted lies below the root of the workspace, not directly under the git
  directory, and the place where the system puts the file, with every symbolic link on the way followed, is below the root too.
\<close>

theorem accepted_path_stays_inside:
  assumes "resolveInside fs ws rel = Inr t"
  shows "\<exists>s ss. t = fs_real fs ws @ s # ss \<and> s \<noteq> ''.git'' \<and> is_prefix (fs_real fs ws) (physical fs t)"
proof -
  let ?r = "fs_real fs ws"
  obtain s ss where ss: "relative ?r t = s # ss"
    using resolveInside_Inr(3) [OF assms] by (cases "relative ?r t") auto
  let ?real = "fs_real fs (nearest (fs_exists fs) (butlast t))"
  have "?real = ?r @ relative ?r ?real"
    by (rule relative_down) (rule resolveInside_Inr(5) [OF assms])
  then have "is_prefix ?r (physical fs t)"
    unfolding physical_def Let_def by (metis append.assoc is_prefix_append)
  then show ?thesis
    using resolveInside_Inr(2,4) [OF assms] ss by (metis list.sel(1))
qed

definition plain_fs :: file_system where
  "plain_fs = \<lparr>fs_real = (\<lambda>p. p), fs_exists = (\<lambda>p. length p \<le> 1)\<rparr>"

lemma accepted_path_stays_inside_witness:
  "\<exists>s ss. [''ws'', ''notes'', ''a.md''] = [''ws''] @ s # ss \<and> s \<noteq> ''.git'' \<and> is_prefix [''ws''] (physical plain_fs [''ws'', ''notes'', ''a.md''])"
proof -
  have "resolveInside plain_fs [''ws''] ''notes/./x/../a.md'' = Inr [''ws'', ''notes'', ''a.md'']" by code_simp
  from accepted_path_stays_inside [OF this] show ?thesis by (simp add: plain_fs_def)
qed

text \<open>A workspace with a link to its git directory.\<close>

definition link_fs :: file_system where
  "link_fs = \<lparr>fs_real = (\<lambda>p. if take 2 p = [''ws'', ''link''] then [''ws'', ''.git''] @ drop 2 p else p), fs_exists = (\<lambda>p. length p \<le> 3)\<rparr>"

text \<open>
  The git directory is protected by its name only: through a link inside the workspace that leads to it, a path is accepted
  whose file the system puts among the hooks of the repository.
\<close>

theorem link_into_git_accepted:
  "map_sum (\<lambda>e. e) (physical link_fs) (resolveInside link_fs [''ws''] ''link/hooks/pre-commit'') = Inr [''ws'', ''.git'', ''hooks'', ''pre-commit'']"
  by code_simp

section \<open>All or nothing\<close>

abbreviation put_all :: "(path \<times> string) list \<Rightarrow> disk \<Rightarrow> disk" where
  "put_all targets disk \<equiv> fold (\<lambda>(p, c) d. d(p \<mapsto> c)) targets disk"

lemma write_all_done: "write_all io targets disk = (disk1, True) \<Longrightarrow> disk1 = put_all targets disk"
  by (induction io targets disk rule: write_all.induct) (auto split: if_splits)

lemma put_all_other: "p \<notin> fst ` set targets \<Longrightarrow> put_all targets disk p = disk p"
  by (induction targets arbitrary: disk) auto

text \<open>The disk lets itself be restored: what stood in a file can be written there again, and a file can be removed.\<close>

definition restorable :: "disk_io \<Rightarrow> disk \<Rightarrow> bool" where
  "restorable io disk \<longleftrightarrow> (\<forall>p c. disk p = Some c \<longrightarrow> io_write io p c) \<and> (\<forall>p. io_unlink io p)"

lemma restore_restorable: "restorable io disk \<Longrightarrow> restore io (p, disk p) d = d(p := disk p)"
  by (cases "disk p") (auto simp: restore_def restorable_def)

lemma rollback_value:
  assumes "restorable io disk"
  shows "rollback io (map (\<lambda>t. (fst t, disk (fst t))) ts) d q = (if q \<in> fst ` set ts then disk q else d q)"
  unfolding rollback_def
  by (induction ts arbitrary: d) (auto simp: restore_restorable [OF assms])

lemma rollback_undoes:
  assumes "restorable io disk"
  shows "rollback io (map (\<lambda>t. (fst t, disk (fst t))) ts) (put_all ts disk) = disk"
  by (rule ext) (simp add: rollback_value [OF assms] put_all_other)

definition touches_data :: "path \<Rightarrow> (path \<times> string) list \<Rightarrow> bool" where
  "touches_data wsroot targets \<longleftrightarrow> list_ex (is_prefix NOTE_DATA_DIR) (map (\<lambda>t. join_with ''/'' (relative wsroot (fst t))) targets)"

lemma write_batch_outcome:
  assumes "restorable io disk" and "write_batch io en git now wsroot targets o1 disk = (disk2, calls, r)"
  shows "case r of Inl e \<Rightarrow> e = Thrown \<or> disk2 = disk
    | Inr x \<Rightarrow> disk2 = put_all targets disk \<and> (touches_data wsroot targets \<longrightarrow> readback io en now (ao_rules o1) wsroot disk2 = None)"
proof -
  obtain d1 ok where w: "write_all io targets disk = (d1, ok)" by (cases "write_all io targets disk")
  note undo = rollback_undoes [OF assms(1), of targets]
  show ?thesis
  proof (cases ok)
    case True
    with w have d1: "d1 = put_all targets disk" by (simp add: write_all_done)
    show ?thesis
      using assms(2) w True undo unfolding d1 touches_data_def
      by (auto simp: write_batch_def Let_def split: if_splits option.splits)
  next
    case False
    with assms(2) w show ?thesis by (auto simp: write_batch_def Let_def split: if_splits)
  qed
qed

lemma batch_outcome:
  assumes "restorable io disk" and "applyWrites fs io en git now ws writes o1 disk = (disk2, calls, r)"
  shows "case r of Inl e \<Rightarrow> e = Thrown \<or> disk2 = disk
    | Inr x \<Rightarrow> (\<exists>targets. resolve_writes fs ws writes = Inr targets \<and> disk2 = put_all targets disk \<and>
        (touches_data (fs_real fs ws) targets \<longrightarrow> readback io en now (ao_rules o1) (fs_real fs ws) disk2 = None))"
proof (cases "writes = [] \<or> isl (resolve_writes fs ws writes)")
  case True
  with assms(2) show ?thesis by (auto simp: applyWrites_def Let_def isl_def split: if_splits)
next
  case False
  then obtain targets where t: "writes \<noteq> []" "resolve_writes fs ws writes = Inr targets" by (cases "resolve_writes fs ws writes") auto
  show ?thesis
  proof (cases "ga_repo git \<and> filter (\<lambda>p. p \<in> set (ga_dirty git)) (map (\<lambda>t. join_with ''/'' (relative (fs_real fs ws) (fst t))) targets) = []")
    case True
    with assms(2) t have "write_batch io en git now (fs_real fs ws) targets o1 disk = (disk2, calls, r)"
      by (simp add: applyWrites_def Let_def)
    from write_batch_outcome [OF assms(1) this] t(2) show ?thesis by (cases r) auto
  next
    case False
    with assms(2) t show ?thesis by (auto simp: applyWrites_def Let_def split: if_splits)
  qed
qed

text \<open>
  Claim C29. A batch of writes is all or nothing as long as the disk takes the writes: if it is rejected, for whatever reason before or
  after the writing, every file is as it was; if it succeeds, every file holds what was to be written and no other file changed, and
  data files, read back from the disk, obey the rules. The exception is an operation on the disk that throws.
\<close>

theorem batch_all_or_nothing:
  assumes "restorable io disk" and "applyWrites fs io en git now ws writes o1 disk = (disk2, calls, r)"
  shows "case r of Inl e \<Rightarrow> e = Thrown \<or> disk2 = disk
    | Inr x \<Rightarrow> (\<exists>targets. resolve_writes fs ws writes = Inr targets \<and> disk2 = put_all targets disk \<and>
        (touches_data (fs_real fs ws) targets \<longrightarrow> readback io en now (ao_rules o1) (fs_real fs ws) disk2 = None))"
  by (rule batch_outcome [OF assms])

definition sample_io :: disk_io where
  "sample_io = \<lparr>io_write = (\<lambda>p c. True), io_unlink = (\<lambda>p. True), io_read = (\<lambda>p. True)\<rparr>"

definition sample_engine :: "unit engine" where
  "sample_engine = \<lparr>en_fresh = (), en_run = (\<lambda>src w. (w, True)), en_data = (\<lambda>w. [])\<rparr>"

definition sample_git :: git_answers where
  "sample_git = \<lparr>ga_repo = True, ga_dirty = [''other.md''], ga_add = True, ga_commit = None\<rparr>"

definition sample_options :: apply_options where
  "sample_options = \<lparr>ao_message = ''note'', ao_originalRequest = None, ao_commit = True, ao_rules = None\<rparr>"

definition sample_writes :: "file_write list" where
  "sample_writes = [\<lparr>fw_relPath = ''a.md'', fw_contents = ''one''\<rparr>, \<lparr>fw_relPath = ''b.md'', fw_contents = ''two''\<rparr>]"

definition sample_disk :: disk where
  "sample_disk = [[''ws'', ''a.md''] \<mapsto> ''old'']"

lemma batch_all_or_nothing_witness:
  "fst (applyWrites plain_fs sample_io sample_engine sample_git (2026, 9) [''ws''] sample_writes sample_options sample_disk) = sample_disk"
proof -
  let ?R = "applyWrites plain_fs sample_io sample_engine sample_git (2026, 9) [''ws''] sample_writes sample_options sample_disk"
  have e: "snd (snd ?R) = Inl CommitFailed" by code_simp
  have "restorable sample_io sample_disk" by (simp add: restorable_def sample_io_def)
  moreover have "?R = (fst ?R, fst (snd ?R), Inl CommitFailed)" using e by (metis prod.collapse)
  ultimately have "case (Inl CommitFailed :: rejection + apply_result) of Inl e \<Rightarrow> e = Thrown \<or> fst ?R = sample_disk
    | Inr x \<Rightarrow> (\<exists>targets. resolve_writes plain_fs [''ws''] sample_writes = Inr targets \<and> fst ?R = put_all targets sample_disk \<and>
        (touches_data (fs_real plain_fs [''ws'']) targets \<longrightarrow>
          readback sample_io sample_engine (2026, 9) (ao_rules sample_options) (fs_real plain_fs [''ws'']) (fst ?R) = None))"
    by (rule batch_all_or_nothing)
  then show ?thesis by simp
qed

text \<open>
  A write that throws leaves the batch half done: the writing itself stands outside every handler, so the files written
  before the one that failed keep their new contents, uncommitted, and the next write to them is refused as uncommitted work.
\<close>

theorem thrown_write_leaves_half_a_batch:
  "(case applyWrites plain_fs (sample_io\<lparr>io_write := (\<lambda>p c. p \<noteq> [''ws'', ''b.md''])\<rparr>) sample_engine sample_git (2026, 9) [''ws'']
      sample_writes sample_options sample_disk of (d, calls, r) \<Rightarrow> (d [''ws'', ''a.md''], d [''ws'', ''b.md''], calls, r)) =
   (Some ''one'', None, [], Inl Thrown)"
  by code_simp

section \<open>Data\<close>

lemma walk_path_plain: "list_all (\<lambda>s. s \<noteq> [] \<and> s \<noteq> ''.'' \<and> s \<noteq> ''..'') ss \<Longrightarrow> walk_path base ss = base @ ss"
  by (induction ss arbitrary: base) auto

lemma data_file_path: "f \<in> set NOTE_DATA_FILES \<Longrightarrow> split_on CHR ''/'' (NOTE_DATA_DIR @ ''/'' @ f) = NOTE_DATA_PATH @ [f]"
proof -
  have "list_all (\<lambda>f. split_on CHR ''/'' (NOTE_DATA_DIR @ ''/'' @ f) = NOTE_DATA_PATH @ [f]) NOTE_DATA_FILES" by code_simp
  then show "f \<in> set NOTE_DATA_FILES \<Longrightarrow> ?thesis" by (simp add: list_all_iff)
qed

lemma data_file_plain: "f \<in> set NOTE_DATA_FILES \<Longrightarrow> list_all (\<lambda>s. s \<noteq> [] \<and> s \<noteq> ''.'' \<and> s \<noteq> ''..'') (NOTE_DATA_PATH @ [f])"
  by (auto simp: NOTE_DATA_FILES_def NOTE_DATA_PATH_def)

lemma resolve_data_file:
  assumes "f \<in> set NOTE_DATA_FILES" "resolveInside fs ws (NOTE_DATA_DIR @ ''/'' @ f) = Inr t"
  shows "t = fs_real fs ws @ NOTE_DATA_PATH @ [f]"
  using resolveInside_Inr(1) [OF assms(2)] walk_path_plain [OF data_file_plain [OF assms(1)]] data_file_path [OF assms(1)] by simp

lemma data_write_owned:
  assumes "data_write num rd current merged owners f = Some ws" "w \<in> set ws"
  shows "f \<in> set owners \<and> fw_relPath w = NOTE_DATA_DIR @ ''/'' @ f"
  using assms by (auto simp: data_write_def Let_def split: if_splits option.splits)

lemma data_writes_owned:
  assumes "data_writes num rd current merged owners fs = Some ws" "w \<in> set ws"
  shows "\<exists>f \<in> set fs. f \<in> set owners \<and> fw_relPath w = NOTE_DATA_DIR @ ''/'' @ f"
  using assms
proof (induction fs arbitrary: ws)
  case (Cons f fs)
  from Cons.prems(1) obtain u v where u: "data_write num rd current merged owners f = Some u"
    "data_writes num rd current merged owners fs = Some v" "ws = u @ v" by (auto split: option.splits)
  with Cons.prems(2) data_write_owned [OF u(1)] Cons.IH [OF u(2)] show ?case by auto
qed simp

lemma resolve_writes_Inr:
  "resolve_writes fs ws writes = Inr targets \<Longrightarrow> map (\<lambda>w. resolveInside fs ws (fw_relPath w)) writes = map (\<lambda>t. Inr (fst t)) targets"
  by (induction writes arbitrary: targets) (auto simp: resolve_writes_def bindE_def split: sum.splits)

lemma data_targets:
  assumes "data_writes num rd current merged owners NOTE_DATA_FILES = Some writes" "resolve_writes fs ws writes = Inr targets" "t \<in> set targets"
  shows "\<exists>f \<in> set owners. fst t = fs_real fs ws @ NOTE_DATA_PATH @ [f]"
proof -
  have "Inr (fst t) \<in> set (map (\<lambda>w. resolveInside fs ws (fw_relPath w)) writes)"
    using assms(3) by (simp add: resolve_writes_Inr [OF assms(2)])
  then obtain w where w: "w \<in> set writes" "resolveInside fs ws (fw_relPath w) = Inr (fst t)" by auto
  obtain f where f: "f \<in> set NOTE_DATA_FILES" "f \<in> set owners" "fw_relPath w = NOTE_DATA_DIR @ ''/'' @ f"
    using data_writes_owned [OF assms(1) w(1)] by blast
  with resolve_data_file [OF f(1)] w(2) show ?thesis by auto
qed

lemma data_touches:
  assumes "fst t = wsroot @ NOTE_DATA_PATH @ [f]" "t \<in> set targets"
  shows "touches_data wsroot targets"
proof -
  have "join_with ''/'' (NOTE_DATA_PATH @ [f]) = NOTE_DATA_DIR @ ''/'' @ f" by (simp add: NOTE_DATA_DIR_def NOTE_DATA_PATH_def)
  then have "is_prefix NOTE_DATA_DIR (join_with ''/'' (relative wsroot (fst t)))" using assms(1) by simp
  with assms(2) show ?thesis unfolding touches_data_def by (auto simp: list_ex_iff)
qed

lemma readback_None: "readback io en now (Some rules) wsroot disk = None \<Longrightarrow> validateNoteData rules now (rr_data (readNoteData en (read_file io disk wsroot))) = []"
  by (auto simp: readback_def Let_def split: if_splits)

text \<open>
  Claim C30. Replacing datasets touches only the files that own them: whatever the outcome, as long as no operation on the disk throws,
  every other file of the workspace, data file or not, keeps its contents; a rejection changes nothing at all; and after a success
  that wrote something the data on the disk obeys the rules of the agent.
\<close>

theorem data_write_touches_owners_only:
  assumes "restorable io disk" and "writeNoteData num fs io en git now ws patch o1 rules disk = (disk2, calls, r)" and "r \<noteq> Inl Thrown"
  shows "(\<forall>p. disk2 p \<noteq> disk p \<longrightarrow> (\<exists>k \<in> fst ` set patch. p = fs_real fs ws @ NOTE_DATA_PATH @ [owner_or_first k])) \<and>
    (case r of Inl e \<Rightarrow> disk2 = disk
     | Inr x \<Rightarrow> disk2 = disk \<or> validateNoteData rules now (rr_data (readNoteData en (read_file io disk2 (fs_real fs ws)))) = [])"
proof (cases "disk2 = disk")
  case True
  then show ?thesis by (cases r) auto
next
  case False
  let ?owners = "map owner_or_first (map fst patch)"
  obtain current merged writes where w: "data_writes num (read_file io disk (fs_real fs ws)) current merged ?owners NOTE_DATA_FILES = Some writes"
    and a: "applyWrites fs io en git now ws writes (o1\<lparr>ao_rules := Some rules\<rparr>) disk = (disk2, calls, r)"
    using assms(2) False by (auto simp: writeNoteData_def Let_def split: if_splits option.splits list.splits)
  from batch_outcome [OF assms(1) a] False assms(3) obtain x targets where x: "r = Inr x"
    and t: "resolve_writes fs ws writes = Inr targets" "disk2 = put_all targets disk"
    and rb: "touches_data (fs_real fs ws) targets \<longrightarrow> readback io en now (Some rules) (fs_real fs ws) disk2 = None"
    by (cases r) auto
  note own = data_targets [OF w t(1)]
  have only: "\<exists>k \<in> fst ` set patch. p = fs_real fs ws @ NOTE_DATA_PATH @ [owner_or_first k]" if "disk2 p \<noteq> disk p" for p
  proof -
    have "p \<in> fst ` set targets" using that t(2) put_all_other [of p targets disk] by blast
    then obtain u where "u \<in> set targets" "p = fst u" by blast
    with own [of u] show ?thesis by auto
  qed
  obtain u where "u \<in> set targets" using False t(2) by (cases targets) auto
  with own [of u] data_touches [of u] have "touches_data (fs_real fs ws) targets" by blast
  with rb have "readback io en now (Some rules) (fs_real fs ws) disk2 = None" by blast
  then have "validateNoteData rules now (rr_data (readNoteData en (read_file io disk2 (fs_real fs ws)))) = []" by (rule readback_None)
  with only x show ?thesis by auto
qed

lemma data_write_touches_owners_only_witness:
  "(let R = writeNoteData (\<lambda>n. ''0'') plain_fs sample_io sample_engine (sample_git\<lparr>ga_commit := Some ''abc''\<rparr>) (2026, 9) [''ws'']
      [(''mind'', YStr ''x'')] sample_options DEFAULT_RULES sample_disk
    in fst R [''ws'', ''a.md''] = Some ''old'' \<and> fst R ([''ws''] @ NOTE_DATA_PATH @ [''mind.js'']) \<noteq> None)"
proof -
  let ?R = "writeNoteData (\<lambda>n. ''0'') plain_fs sample_io sample_engine (sample_git\<lparr>ga_commit := Some ''abc''\<rparr>) (2026, 9) [''ws'']
      [(''mind'', YStr ''x'')] sample_options DEFAULT_RULES sample_disk"
  have r: "snd (snd ?R) \<noteq> Inl Thrown" by code_simp
  have "fst ?R ([''ws''] @ NOTE_DATA_PATH @ [''mind.js'']) \<noteq> None" by code_simp
  moreover have d: "restorable sample_io sample_disk" by (simp add: restorable_def sample_io_def)
  have R: "?R = (fst ?R, fst (snd ?R), snd (snd ?R))" by simp
  have "fst ?R [''ws'', ''a.md''] \<noteq> sample_disk [''ws'', ''a.md''] \<longrightarrow>
      (\<exists>k \<in> fst ` set [(''mind'', YStr ''x'')]. [''ws'', ''a.md''] = fs_real plain_fs [''ws''] @ NOTE_DATA_PATH @ [owner_or_first k])"
    by (rule data_write_touches_owners_only [OF d R r, THEN conjunct1, THEN spec])
  then have "fst ?R [''ws'', ''a.md''] = Some ''old''"
    by (auto simp: plain_fs_def NOTE_DATA_PATH_def sample_disk_def)
  ultimately show ?thesis by (simp add: Let_def)
qed

end
