(* ===== verification/Brain.thy ===== *)
theory Brain
  imports NoteData ChatStore ChatTurns Scheduler
begin

text \<open>
  The door of the brain (\<^verbatim>\<open>routes/internal.ts\<close>) and the decision of pending permission prompts that it shares with the back office
  (\<^verbatim>\<open>approval.ts\<close>, \<^verbatim>\<open>routes/approval.ts\<close>).  A handler that awaits is cut there: \<open>br_open\<close> are the turns the brain waits for,
  \<open>br_deciding\<close> the decisions on their way to a host.  The turn registry of the back office runs beside it.  A number in an address
  is written in decimal digits, as the addresses of sockets are.
\<close>

section \<open>The gate\<close>

definition digits_value :: "string \<Rightarrow> int" where
  "digits_value s = foldl (\<lambda>n c. 10 * n + (of_char c - 48)) 0 s"

definition js_number :: "string \<Rightarrow> int option" where
  "js_number s = (let t = js_trim s in if t = [] then Some 0 else if list_all is_digit t then Some (digits_value t) else None)"

fun split_dots :: "string \<Rightarrow> string list" where
  "split_dots [] = [[]]"
| "split_dots (c # cs) = (if c = CHR ''.'' then [] # split_dots cs else (case split_dots cs of [] \<Rightarrow> [[c]] | w # ws \<Rightarrow> (c # w) # ws))"

definition without_mapped :: "string \<Rightarrow> string" where
  "without_mapped ip = (if is_prefix ''::ffff:'' ip then drop 7 ip else ip)"

definition byte :: "int option \<Rightarrow> bool" where
  "byte n \<longleftrightarrow> (case n of None \<Rightarrow> False | Some i \<Rightarrow> 0 \<le> i \<and> i \<le> 255)"

definition private_range :: "int \<Rightarrow> int \<Rightarrow> bool" where
  "private_range a b \<longleftrightarrow> a = 10 \<or> a = 172 \<and> 16 \<le> b \<and> b \<le> 31 \<or> a = 192 \<and> b = 168 \<or> a = 169 \<and> b = 254"

definition isPrivateSource :: "string \<Rightarrow> bool" where
  "isPrivateSource ip = (let raw = without_mapped ip in
     raw = ''127.0.0.1'' \<or> raw = ''::1'' \<or>
     (case map js_number (split_dots raw) of
        [a, b, c, d] \<Rightarrow> byte a \<and> byte b \<and> byte c \<and> byte d \<and> private_range (the a) (the b)
      | _ \<Rightarrow> False))"

definition tokenOk :: "string option \<Rightarrow> string option \<Rightarrow> bool" where
  "tokenOk env candidate = (let token = (case env of None \<Rightarrow> [] | Some t \<Rightarrow> t) in token \<noteq> [] \<and> candidate = Some token)"

datatype brain_door = PrivateNetworkOnly403 | BrainDisabled503 | BrainUnauthorized401 | Admitted

definition brainGate :: "string option \<Rightarrow> string \<Rightarrow> string option \<Rightarrow> brain_door" where
  "brainGate env peer header =
     (if \<not> isPrivateSource peer then PrivateNetworkOnly403
      else if env = None \<or> env = Some [] then BrainDisabled503
      else if \<not> tokenOk env header then BrainUnauthorized401
      else Admitted)"

section \<open>State\<close>

record brain_agent =
  ba_id :: id
  ba_name :: string
  ba_endpoint :: id

record brain_config =
  bc_agents :: "brain_agent list"
  bc_upstreams :: "id list"
  bc_dailyBudget :: "int option"
  bc_dayStart :: "time \<Rightarrow> time"
  bc_scheduleProblem :: "string \<Rightarrow> string \<Rightarrow> bool"

datatype brain_frame = TurnDone id run_state "string option" | DelegationDone id id string run_state "string option" "string option"

record brain_turn =
  bt_runId :: id
  bt_agentId :: id
  bt_chat :: "chat_row option"
  bt_sourceChatId :: "string option"

record brain_outcome =
  bo_sessionId :: "id option"
  bo_state :: run_state
  bo_summary :: "string option"
  bo_error :: "string option"

record decision =
  de_id :: id
  de_row :: approval_row
  de_sessionId :: id
  de_outcome :: string
  de_actor :: string

record brain =
  br_db :: db
  br_turns :: turns_state
  br_open :: "brain_turn list"
  br_deciding :: "decision list"
  br_frames :: "(id \<times> brain_frame) list"
  br_reloads :: nat

datatype brain_reply =
    InvalidBody400 | UnknownChat404 | UnknownAgent404 | AgentGone409 | BudgetExhausted409 | ChatBusy409 | NotConfigured500 | TurnFailed500
  | TurnStarted id | InvalidSchedule400 | DuplicateName409 | Drafted201 id | Threw500
  | InvalidOutcome400 | UnknownApproval404 | AlreadyDecided409 | NoSession409 | Deciding | DecideFailed502 | Decided200 string | NoReply

definition agent_of_config :: "brain_config \<Rightarrow> id \<Rightarrow> brain_agent option" where
  "agent_of_config cfg i = first_row (\<lambda>a. ba_id a = i) (bc_agents cfg)"

definition brainSpendToday :: "brain_config \<Rightarrow> time \<Rightarrow> db \<Rightarrow> int" where
  "brainSpendToday cfg now d =
     sum_list (map (\<lambda>u. case usage_cost u of None \<Rightarrow> 0 | Some c \<Rightarrow> c)
       (filter (\<lambda>u. usage_at u \<ge> bc_dayStart cfg now \<and> list_ex (\<lambda>r. run_id r = usage_runId u \<and> run_trigger r = Brain) (db_runs d)) (db_usage d)))"

definition over_budget :: "brain_config \<Rightarrow> time \<Rightarrow> db \<Rightarrow> bool" where
  "over_budget cfg now d \<longleftrightarrow> (case bc_dailyBudget cfg of None \<Rightarrow> False | Some cap \<Rightarrow> brainSpendToday cfg now d \<ge> cap)"

definition budget_text :: "brain_config \<Rightarrow> time \<Rightarrow> db \<Rightarrow> string" where
  "budget_text cfg now d = ''the brain's dispatch budget for today is used up ('' @ to_fixed 2 (of_int (brainSpendToday cfg now d) / USD_TO_MICRO) @
     '' / '' @ to_fixed 2 (of_int (case bc_dailyBudget cfg of None \<Rightarrow> 0 | Some cap \<Rightarrow> cap) / USD_TO_MICRO) @ '' USD); try again tomorrow or act by hand.''"

definition note_budget :: "brain_config \<Rightarrow> id \<Rightarrow> time \<Rightarrow> brain \<Rightarrow> brain" where
  "note_budget cfg uuid now s = s\<lparr>br_db := notify (br_db s) uuid now ''brain_budget'' ''the brain's dispatch budget for today is used up''
     (budget_text cfg now (br_db s)) (Some ''/spend'')\<rparr>"

text \<open>The row that the runner records before its first await.\<close>

definition brain_run :: "id \<Rightarrow> id \<Rightarrow> time \<Rightarrow> chat_row option \<Rightarrow> string option \<Rightarrow> run_row" where
  "brain_run runId agentId now chat source =
     \<lparr>run_id = runId, run_agentId = agentId, run_apiKeyId = None, run_chatId = map_option chat_id chat, run_sourceChatId = source,
      run_conflict = None, run_cronId = None, run_dshSessionId = (case chat of None \<Rightarrow> None | Some c \<Rightarrow> chat_dshSessionId c),
      run_trigger = Brain, run_idempotencyKey = None, run_state = Running, run_resultSummary = None, run_startedAt = now,
      run_endedAt = None, run_error = None, run_commitHash = None\<rparr>"

definition begin_turn :: "id \<Rightarrow> id \<Rightarrow> time \<Rightarrow> chat_row option \<Rightarrow> string option \<Rightarrow> brain \<Rightarrow> brain \<times> brain_reply" where
  "begin_turn runId agentId now chat source s = (case insert_run (br_db s) (brain_run runId agentId now chat source) of
     None \<Rightarrow> (s, TurnFailed500)
   | Some d \<Rightarrow> (s\<lparr>br_db := d, br_open := br_open s @ [\<lparr>bt_runId = runId, bt_agentId = agentId, bt_chat = chat, bt_sourceChatId = source\<rparr>]\<rparr>,
       TurnStarted runId))"

definition text_ok :: "nat \<Rightarrow> string option \<Rightarrow> bool" where
  "text_ok limit t \<longleftrightarrow> (case t of None \<Rightarrow> False | Some x \<Rightarrow> 1 \<le> length x \<and> length x \<le> limit)"

definition live_run :: "db \<Rightarrow> id \<Rightarrow> bool" where
  "live_run d chat \<longleftrightarrow> list_ex (\<lambda>r. run_chatId r = Some chat \<and> (run_state r = Pending \<or> run_state r = Running)) (db_runs d)"

section \<open>Prompt and dispatch\<close>

definition brain_prompt :: "brain_config \<Rightarrow> (id \<times> id) \<Rightarrow> time \<Rightarrow> id \<Rightarrow> string option \<Rightarrow> brain \<Rightarrow> brain \<times> brain_reply" where
  "brain_prompt cfg fresh now chatId text s =
     (if \<not> text_ok 20000 text then (s, InvalidBody400)
      else (case getChat (br_db s) chatId of
        None \<Rightarrow> (s, UnknownChat404)
      | Some chat \<Rightarrow>
          if chat_removedAt chat \<noteq> None then (s, UnknownChat404)
          else (case agent_of_config cfg (chat_agentId chat) of
            None \<Rightarrow> (s, AgentGone409)
          | Some agent \<Rightarrow>
              if over_budget cfg now (br_db s) then (note_budget cfg (snd fresh) now s, BudgetExhausted409)
              else if live_run (br_db s) chatId then (s, ChatBusy409)
              else if ba_endpoint agent \<notin> set (bc_upstreams cfg) then (s, NotConfigured500)
              else begin_turn (fst fresh) (ba_id agent) now (Some chat) None s)))"

definition brain_dispatch :: "brain_config \<Rightarrow> (id \<times> id) \<Rightarrow> time \<Rightarrow> id \<Rightarrow> string option \<Rightarrow> string option \<Rightarrow> brain \<Rightarrow> brain \<times> brain_reply" where
  "brain_dispatch cfg fresh now agentId text source s =
     (if agentId = [] \<or> \<not> text_ok 20000 text then (s, InvalidBody400)
      else (case agent_of_config cfg agentId of
        None \<Rightarrow> (s, UnknownAgent404)
      | Some agent \<Rightarrow>
          if over_budget cfg now (br_db s) then (note_budget cfg (snd fresh) now s, BudgetExhausted409)
          else if ba_endpoint agent \<notin> set (bc_upstreams cfg) then (s, NotConfigured500)
          else begin_turn (fst fresh) (ba_id agent) now None source s))"

definition open_turn :: "id \<Rightarrow> brain \<Rightarrow> brain_turn option" where
  "open_turn runId s = first_row (\<lambda>t. bt_runId t = runId) (br_open s)"

text \<open>The runner knows the session: it writes it on the row and calls \<^verbatim>\<open>onSession\<close>, which binds it if the chat of a prompt has none yet.\<close>

definition note_session :: "id \<Rightarrow> id \<Rightarrow> db \<Rightarrow> db" where
  "note_session runId sid d = d\<lparr>db_runs := upd_where (\<lambda>r. run_id r = runId) (\<lambda>r. r\<lparr>run_dshSessionId := Some sid\<rparr>) (db_runs d)\<rparr>"

definition brain_session :: "time \<Rightarrow> id \<Rightarrow> id \<Rightarrow> brain \<Rightarrow> brain" where
  "brain_session now runId sid s = (case open_turn runId s of
     None \<Rightarrow> s
   | Some t \<Rightarrow> (let d = note_session runId sid (br_db s); s1 = s\<lparr>br_db := d\<rparr> in
       (case bt_chat t of
         None \<Rightarrow> s1
       | Some chat \<Rightarrow> (case getChat d (chat_id chat) of
           Some c \<Rightarrow> if chat_dshSessionId c = None
               then (case bindSession d (chat_id chat) sid now of None \<Rightarrow> s1 | Some d2 \<Rightarrow> s\<lparr>br_db := d2\<rparr>) else s1
         | None \<Rightarrow> s1))))"

definition end_row :: "id \<Rightarrow> time \<Rightarrow> brain_outcome \<Rightarrow> db \<Rightarrow> db" where
  "end_row runId now out d = d\<lparr>db_runs := upd_where (\<lambda>r. run_id r = runId)
     (\<lambda>r. r\<lparr>run_dshSessionId := bo_sessionId out, run_state := bo_state out, run_resultSummary := bo_summary out, run_error := bo_error out, run_endedAt := Some now\<rparr>) (db_runs d)\<rparr>"

definition hex_digit :: "nat \<Rightarrow> char" where
  "hex_digit n = ''0123456789ABCDEF'' ! (n mod 16)"

definition uri_kept :: "char \<Rightarrow> bool" where
  "uri_kept c \<longleftrightarrow> (let n = of_char c :: nat in 48 \<le> n \<and> n \<le> 57 \<or> 65 \<le> n \<and> n \<le> 90 \<or> 97 \<le> n \<and> n \<le> 122) \<or> c \<in> set ''-_.!~*()'' \<or> c = CHR 0x27"

definition encodeURIComponent :: "string \<Rightarrow> string" where
  "encodeURIComponent s = concat (map (\<lambda>c. if uri_kept c then [c] else [CHR ''%'', hex_digit (of_char c div 16), hex_digit (of_char c)]) s)"

definition agent_title :: "brain_config \<Rightarrow> id \<Rightarrow> string" where
  "agent_title cfg i = (case agent_of_config cfg i of None \<Rightarrow> [] | Some a \<Rightarrow> ba_name a)"

text \<open>The runner has settled the row; what the handlers do with its outcome.\<close>

definition brain_ends :: "brain_config \<Rightarrow> id \<Rightarrow> time \<Rightarrow> id \<Rightarrow> brain_outcome \<Rightarrow> brain \<Rightarrow> brain \<times> brain_reply" where
  "brain_ends cfg uuid now runId out s = (case open_turn runId s of
     None \<Rightarrow> (s, NoReply)
   | Some t \<Rightarrow>
       (let d = end_row runId now out (br_db s); s1 = s\<lparr>br_db := d, br_open := del_where (\<lambda>u. bt_runId u = runId) (br_open s)\<rparr> in
        (case bt_chat t of
           Some chat \<Rightarrow>
             (case (if bo_sessionId out \<noteq> None \<and> chat_dshSessionId chat = None then bindSession d (chat_id chat) (the (bo_sessionId out)) now
                    else Some (touchChat d (chat_id chat) now)) of
                None \<Rightarrow> (s1, TurnFailed500)
              | Some d2 \<Rightarrow> (s1\<lparr>br_db := d2, br_frames := br_frames s @ [(chat_id chat, TurnDone runId (bo_state out) (bo_error out))]\<rparr>, TurnStarted runId))
         | None \<Rightarrow>
             (case bt_sourceChatId t of
                None \<Rightarrow> (s1, TurnStarted runId)
              | Some source \<Rightarrow>
                  if source = [] then (s1, TurnStarted runId)
                  else (s1\<lparr>br_frames := br_frames s @ [(source, DelegationDone runId (bt_agentId t) (agent_title cfg (bt_agentId t)) (bo_state out) (bo_summary out) (bo_error out))],
                        br_db := notify d uuid now ''brain_done'' (''brain dispatch finished: '' @ agent_title cfg (bt_agentId t))
                          (case bo_summary out of None \<Rightarrow> ''(no output text)'' | Some x \<Rightarrow> x) (Some (''/chat/'' @ encodeURIComponent source))\<rparr>, TurnStarted runId)))))"

section \<open>Schedules\<close>

record cron_draft =
  cd_agentId :: string
  cd_name :: string
  cd_schedule :: string
  cd_timezone :: "string option"
  cd_prompt :: string

definition cron_draft_ok :: "cron_draft \<Rightarrow> bool" where
  "cron_draft_ok b \<longleftrightarrow> cd_agentId b \<noteq> [] \<and> text_ok 80 (Some (cd_name b)) \<and> text_ok 120 (Some (cd_schedule b)) \<and>
     (cd_timezone b = None \<or> text_ok 60 (cd_timezone b)) \<and> text_ok 20000 (Some (cd_prompt b))"

definition timezone_of :: "cron_draft \<Rightarrow> string" where
  "timezone_of b = (case cd_timezone b of None \<Rightarrow> ''Asia/Shanghai'' | Some z \<Rightarrow> z)"

definition drafted_row :: "id \<Rightarrow> time \<Rightarrow> cron_draft \<Rightarrow> cron_row" where
  "drafted_row i now b = \<lparr>cron_id = i, cron_agentId = cd_agentId b, cron_name = cd_name b, cron_schedule = cd_schedule b,
     cron_timezone = timezone_of b, cron_prompt = cd_prompt b, cron_enabled = 0, cron_consecutiveFailures = 0, cron_lastRunAt = None,
     cron_createdAt = now, cron_lastError = None, cron_disabledReason = None, cron_lastState = None\<rparr>"

definition brain_cron :: "brain_config \<Rightarrow> id \<Rightarrow> time \<Rightarrow> cron_draft \<Rightarrow> brain \<Rightarrow> brain \<times> brain_reply" where
  "brain_cron cfg fresh now b s =
     (if \<not> cron_draft_ok b then (s, InvalidBody400)
      else if agent_of_config cfg (cd_agentId b) = None then (s, UnknownAgent404)
      else if bc_scheduleProblem cfg (cd_schedule b) (timezone_of b) then (s, InvalidSchedule400)
      else if list_ex (\<lambda>c. cron_agentId c = cd_agentId b \<and> cron_name c = cd_name b) (db_crons (br_db s)) then (s, DuplicateName409)
      else if cd_agentId b \<notin> agent_id ` set (db_agents (br_db s)) then (s, Threw500)
      else (s\<lparr>br_db := (br_db s)\<lparr>db_crons := db_crons (br_db s) @ [drafted_row fresh now b]\<rparr>, br_reloads := Suc (br_reloads s)\<rparr>, Drafted201 fresh))"

section \<open>Deciding\<close>

definition approval_of :: "db \<Rightarrow> id \<Rightarrow> approval_row option" where
  "approval_of d i = first_row (\<lambda>q. apq_id q = i) (db_approvals d)"

definition run_of :: "db \<Rightarrow> id \<Rightarrow> run_row option" where
  "run_of d i = first_row (\<lambda>r. run_id r = i) (db_runs d)"

definition decidePendingApproval :: "brain_config \<Rightarrow> id \<Rightarrow> string \<Rightarrow> string \<Rightarrow> brain \<Rightarrow> brain \<times> brain_reply" where
  "decidePendingApproval cfg i out actor s =
     (if out \<noteq> ''allowed-once'' \<and> out \<noteq> ''rejected'' then (s, InvalidOutcome400)
      else (case approval_of (br_db s) i of
        None \<Rightarrow> (s, UnknownApproval404)
      | Some row \<Rightarrow>
          if apq_state row \<noteq> ApPending then (s, AlreadyDecided409)
          else (case run_of (br_db s) (apq_runId row) of
            None \<Rightarrow> (s, NoSession409)
          | Some r \<Rightarrow> (case run_dshSessionId r of
              None \<Rightarrow> (s, NoSession409)
            | Some sid \<Rightarrow> (case agent_of_config cfg (apq_agentId row) of
                None \<Rightarrow> (s, UnknownAgent404)
              | Some agent \<Rightarrow>
                  if ba_endpoint agent \<notin> set (bc_upstreams cfg) then (s, NotConfigured500)
                  else (s\<lparr>br_deciding := br_deciding s @ [\<lparr>de_id = i, de_row = row, de_sessionId = sid, de_outcome = out, de_actor = actor\<rparr>]\<rparr>, Deciding))))))"

definition decision_detail :: "decision \<Rightarrow> string" where
  "decision_detail x = CHR ''{'' # json_string ''decisionId'' @ '':'' @ json_string (de_id x) @ '','' @ json_string ''agentId'' @ '':'' @
     json_string (apq_agentId (de_row x)) @ '','' @ json_string ''outcome'' @ '':'' @ json_string (de_outcome x) @ ''}''"

text \<open>The host has answered the decision at the given place of those on their way.\<close>

definition decision_answered :: "time \<Rightarrow> nat \<Rightarrow> bool \<Rightarrow> brain \<Rightarrow> brain \<times> brain_reply" where
  "decision_answered now n accepted s =
     (if length (br_deciding s) \<le> n then (s, NoReply)
      else (let x = br_deciding s ! n; s1 = s\<lparr>br_deciding := take n (br_deciding s) @ drop (Suc n) (br_deciding s)\<rparr> in
        if \<not> accepted then (s1, DecideFailed502)
        else (s1\<lparr>br_db := recordAudit ((br_db s)\<lparr>db_approvals := upd_where (\<lambda>q. apq_id q = de_id x)
                 (\<lambda>q. q\<lparr>apq_state := ApResolved, apq_outcome := Some (de_outcome x), apq_resolvedAt := Some now\<rparr>) (db_approvals (br_db s))\<rparr>)
               now (de_actor x) ''approval_decide'' (decision_detail x)\<rparr>, Decided200 (de_outcome x))))"

section \<open>Events\<close>

datatype brain_event =
    Prompt "id \<times> id" id "string option"
  | Dispatch "id \<times> id" id "string option" "string option"
  | TurnSession id id
  | TurnEnds id id brain_outcome
  | DraftCron id cron_draft
  | Decide id string string
  | DecisionAnswered nat bool
  | BackOffice turn_event

fun brain_act :: "brain_config \<Rightarrow> time \<Rightarrow> brain_event \<Rightarrow> brain \<Rightarrow> brain \<times> brain_reply" where
  "brain_act cfg now (Prompt fresh c t) s = brain_prompt cfg fresh now c t s"
| "brain_act cfg now (Dispatch fresh a t src) s = brain_dispatch cfg fresh now a t src s"
| "brain_act cfg now (TurnSession r sid) s = (brain_session now r sid s, NoReply)"
| "brain_act cfg now (TurnEnds uuid r out) s = brain_ends cfg uuid now r out s"
| "brain_act cfg now (DraftCron i b) s = brain_cron cfg i now b s"
| "brain_act cfg now (Decide i out actor) s = decidePendingApproval cfg i out actor s"
| "brain_act cfg now (DecisionAnswered n ok) s = decision_answered now n ok s"
| "brain_act cfg now (BackOffice e) s = (s\<lparr>br_turns := turns_step (br_turns s) e\<rparr>, NoReply)"

definition brain_step :: "brain_config \<Rightarrow> brain \<Rightarrow> time \<times> brain_event \<Rightarrow> brain" where
  "brain_step cfg s e = fst (brain_act cfg (fst e) (snd e) s)"

section \<open>Who may enter\<close>

text \<open>
  The door of the brain is shut by default: a request passes exactly when it comes from a private address, a token is
  configured and not empty, and the request carries that very token.
\<close>

theorem brain_door_closed_by_default:
  "brainGate env peer header = Admitted \<longleftrightarrow> isPrivateSource peer \<and> (\<exists>t. env = Some t \<and> t \<noteq> [] \<and> header = Some t)"
  by (cases env) (auto simp: brainGate_def tokenOk_def)

lemma show_nat_all_digits: "list_all is_digit (show_nat n)"
proof (induction n rule: show_nat.induct)
  case (1 n)
  have d: "is_digit (char_of (48 + k :: nat))" if "k < 10" for k
    using that by (simp add: is_digit_def in_range_def)
  show ?case
  proof (cases "n < 10")
    case True
    then show ?thesis using d [of n] by (simp add: show_nat.simps [of n])
  next
    case False
    then show ?thesis using 1 d [of "n mod 10"] by (simp add: show_nat.simps [of n])
  qed
qed

lemma digits_value_append: "digits_value (s @ [c]) = 10 * digits_value s + (of_char c - 48)"
  by (simp add: digits_value_def)

lemma digit_value:
  assumes "k < 10"
  shows "(of_char (char_of (48 + k :: nat)) :: int) = 48 + int k"
proof -
  have "k = 0 \<or> k = 1 \<or> k = 2 \<or> k = 3 \<or> k = 4 \<or> k = 5 \<or> k = 6 \<or> k = 7 \<or> k = 8 \<or> k = 9" using assms by arith
  then show ?thesis by (elim disjE; hypsubst; code_simp)
qed

lemma digits_value_show: "digits_value (show_nat n) = int n"
proof (induction n rule: show_nat.induct)
  case (1 n)
  show ?case
  proof (cases "n < 10")
    case True
    then show ?thesis using digit_value [of n] by (simp add: show_nat.simps [of n] digits_value_def)
  next
    case False
    have "int n = 10 * int (n div 10) + int (n mod 10)" by (simp add: zdiv_int zmod_int)
    then show ?thesis using 1 False digit_value [of "n mod 10"] by (simp add: show_nat.simps [of n] digits_value_append)
  qed
qed

lemma show_nat_not_Nil: "show_nat n \<noteq> []"
  by (subst show_nat.simps) simp

lemma digit_not_space: "is_digit c \<Longrightarrow> \<not> is_space c"
  by (simp add: is_digit_def in_range_def is_space_def Let_def)

lemma trim_digits: "list_all is_digit s \<Longrightarrow> js_trim s = s"
proof -
  assume d: "list_all is_digit s"
  have "dropWhile is_space t = t" if "set t = set s" for t
  proof -
    have "\<forall>x \<in> set t. \<not> is_space x" using d that by (simp add: list_all_iff digit_not_space)
    then show ?thesis by (cases t) simp_all
  qed
  from this [of s] this [of "rev s"] show ?thesis by (simp add: js_trim_def)
qed

lemma js_number_show: "js_number (show_nat n) = Some (int n)"
  using show_nat_all_digits [of n] show_nat_not_Nil [of n] by (simp add: js_number_def trim_digits digits_value_show Let_def)

lemma split_dots_digits: "list_all is_digit s \<Longrightarrow> split_dots (s @ CHR ''.'' # t) = s # split_dots t"
  by (induction s) (auto simp: is_digit_def in_range_def)

lemma split_dots_last: "list_all is_digit s \<Longrightarrow> split_dots s = [s]"
  by (induction s) (auto simp: is_digit_def in_range_def)

definition dotted :: "nat \<Rightarrow> nat \<Rightarrow> nat \<Rightarrow> nat \<Rightarrow> string" where
  "dotted a b c d = show_nat a @ ''.'' @ show_nat b @ ''.'' @ show_nat c @ ''.'' @ show_nat d"

lemma split_dotted: "split_dots (dotted a b c d) = [show_nat a, show_nat b, show_nat c, show_nat d]"
  by (simp add: dotted_def split_dots_digits split_dots_last show_nat_all_digits)

lemma show_nat_inj: "show_nat a = show_nat b \<longleftrightarrow> a = b"
  by (metis digits_value_show of_nat_eq_iff)

lemma dotted_inj: "dotted a b c d = dotted a' b' c' d' \<longleftrightarrow> (a, b, c, d) = (a', b', c', d')"
proof
  assume "dotted a b c d = dotted a' b' c' d'"
  then have "[show_nat a, show_nat b, show_nat c, show_nat d] = [show_nat a', show_nat b', show_nat c', show_nat d']"
    by (metis split_dotted)
  then show "(a, b, c, d) = (a', b', c', d')" by (simp add: show_nat_inj)
qed simp

lemma dotted_no_colon: "\<not> is_prefix (CHR '':'' # x) (dotted a b c d)"
proof -
  obtain e cs where e: "show_nat a = e # cs" using show_nat_not_Nil [of a] by (cases "show_nat a") auto
  moreover have "is_digit e" using show_nat_all_digits [of a] e by simp
  then have "e \<noteq> CHR '':''" by (auto simp: is_digit_def in_range_def)
  ultimately show ?thesis by (simp add: dotted_def)
qed

lemma isPrivate_dotted:
  assumes "a \<le> 255" "b \<le> 255" "c \<le> 255" "d \<le> 255"
  shows "isPrivateSource (dotted a b c d) \<longleftrightarrow> private_range (int a) (int b) \<or> (a, b, c, d) = (127, 0, 0, 1)"
    and "isPrivateSource (''::ffff:'' @ dotted a b c d) \<longleftrightarrow> private_range (int a) (int b) \<or> (a, b, c, d) = (127, 0, 0, 1)"
proof -
  have raw: "without_mapped (dotted a b c d) = dotted a b c d" "without_mapped (''::ffff:'' @ dotted a b c d) = dotted a b c d"
    using dotted_no_colon by (simp_all add: without_mapped_def)
  have home: "dotted a b c d = ''127.0.0.1'' \<longleftrightarrow> (a, b, c, d) = (127, 0, 0, 1)"
  proof -
    have "''127.0.0.1'' = dotted 127 0 0 1" by code_simp
    then show ?thesis by (simp only: dotted_inj)
  qed
  have six: "dotted a b c d \<noteq> ''::1''" using dotted_no_colon [of "'':1''" a b c d] is_prefix_append [of "''::1''" "[]"] by auto
  have parts: "map js_number (split_dots (dotted a b c d)) = [Some (int a), Some (int b), Some (int c), Some (int d)]"
    by (simp add: split_dotted js_number_show)
  show "isPrivateSource (dotted a b c d) \<longleftrightarrow> private_range (int a) (int b) \<or> (a, b, c, d) = (127, 0, 0, 1)"
    and "isPrivateSource (''::ffff:'' @ dotted a b c d) \<longleftrightarrow> private_range (int a) (int b) \<or> (a, b, c, d) = (127, 0, 0, 1)"
    unfolding isPrivateSource_def raw Let_def home parts using six assms by (auto simp: byte_def)
qed

text \<open>
  For an address in dotted notation, also when mapped into IPv6, private means the loopback address 127.0.0.1 or one of the
  ranges 10/8, 172.16/12, 192.168/16 and 169.254/16, and nothing else.
\<close>

theorem private_source_ranges:
  assumes "a \<le> 255" "b \<le> 255" "c \<le> 255" "d \<le> 255"
  shows "isPrivateSource (dotted a b c d) = isPrivateSource (''::ffff:'' @ dotted a b c d) \<and>
    (isPrivateSource (dotted a b c d) \<longleftrightarrow> private_range (int a) (int b) \<or> (a, b, c, d) = (127, 0, 0, 1))"
  using isPrivate_dotted [OF assms] by simp

lemma private_source_ranges_witness: "isPrivateSource (dotted 172 31 0 9) \<and> \<not> isPrivateSource (dotted 172 32 0 9)"
  using private_source_ranges [of 172 31 0 9, THEN conjunct2] private_source_ranges [of 172 32 0 9, THEN conjunct2] by (simp add: private_range_def)

section \<open>Turns of the brain\<close>

definition brain_init :: "db \<Rightarrow> turns_state \<Rightarrow> brain" where
  "brain_init d t = \<lparr>br_db = d, br_turns = t, br_open = [], br_deciding = [], br_frames = [], br_reloads = 0\<rparr>"

lemma begin_turn_started:
  assumes "begin_turn r a now chat src s = (s2, TurnStarted x)"
  shows "x = r \<and> s2 = s\<lparr>br_db := (br_db s)\<lparr>db_runs := db_runs (br_db s) @ [brain_run r a now chat src]\<rparr>,
      br_open := br_open s @ [\<lparr>bt_runId = r, bt_agentId = a, bt_chat = chat, bt_sourceChatId = src\<rparr>]\<rparr> \<and> r \<notin> run_id ` set (db_runs (br_db s))"
proof (cases "insert_run (br_db s) (brain_run r a now chat src)")
  case None
  with assms show ?thesis by (simp add: begin_turn_def)
next
  case (Some d)
  have "run_id (brain_run r a now chat src) = r" by (simp add: brain_run_def)
  with insert_run_Some [OF Some] Some assms show ?thesis by (auto simp: begin_turn_def)
qed

lemma brain_prompt_cases:
  "(\<exists>r. brain_prompt cfg fresh now c t s = (s, r) \<and> (\<forall>x. r \<noteq> TurnStarted x)) \<or>
   brain_prompt cfg fresh now c t s = (note_budget cfg (snd fresh) now s, BudgetExhausted409) \<or>
   (\<exists>chat a. getChat (br_db s) c = Some chat \<and> \<not> over_budget cfg now (br_db s) \<and> \<not> live_run (br_db s) c \<and>
      brain_prompt cfg fresh now c t s = begin_turn (fst fresh) a now (Some chat) None s)"
  by (auto simp: brain_prompt_def split: option.split)

lemma brain_dispatch_cases:
  "(\<exists>r. brain_dispatch cfg fresh now i t src s = (s, r) \<and> (\<forall>x. r \<noteq> TurnStarted x)) \<or>
   brain_dispatch cfg fresh now i t src s = (note_budget cfg (snd fresh) now s, BudgetExhausted409) \<or>
   (\<exists>a. \<not> over_budget cfg now (br_db s) \<and> brain_dispatch cfg fresh now i t src s = begin_turn (fst fresh) a now None src s)"
  by (auto simp: brain_dispatch_def split: option.split)

lemma begin_turn_cases:
  "begin_turn r a now chat src s = (s, TurnFailed500) \<or> (\<exists>s2. begin_turn r a now chat src s = (s2, TurnStarted r))"
  by (auto simp: begin_turn_def split: option.split)

text \<open>
  Claim C32. The brain starts no turn on an exhausted budget: a prompt or a dispatch that starts one found less spent today on the
  turns of the brain than the cap allows, and the turn is recorded as the brain's before anything else happens.
\<close>

theorem no_brain_turn_over_budget:
  assumes "brain_act cfg now e s = (s2, TurnStarted r)" and "case e of Prompt fresh c t \<Rightarrow> True | Dispatch fresh i t src \<Rightarrow> True | _ \<Rightarrow> False"
  shows "(case bc_dailyBudget cfg of None \<Rightarrow> True | Some cap \<Rightarrow> brainSpendToday cfg now (br_db s) < cap) \<and>
    (\<exists>row. db_runs (br_db s2) = db_runs (br_db s) @ [row] \<and> run_id row = r \<and> run_trigger row = Brain \<and> run_state row = Running)"
proof -
  have "\<exists>a chat src i. \<not> over_budget cfg now (br_db s) \<and> begin_turn i a now chat src s = (s2, TurnStarted r)"
  proof (cases e)
    case (Prompt fresh c t)
    show ?thesis
      using brain_prompt_cases [of cfg fresh now c t s] assms(1) Prompt by auto blast
  next
    case (Dispatch fresh i t src)
    show ?thesis
      using brain_dispatch_cases [of cfg fresh now i t src s] assms(1) Dispatch by auto blast
  qed (use assms(2) in auto)
  then obtain a chat src i where b: "\<not> over_budget cfg now (br_db s)" "begin_turn i a now chat src s = (s2, TurnStarted r)" by blast
  from begin_turn_started [OF b(2)] b(1) show ?thesis
    by (auto simp: over_budget_def brain_run_def split: option.splits)
qed

text \<open>Every open prompt of the brain has its run, still running, on its chat; run identifiers are not used twice.\<close>

definition running_on :: "db \<Rightarrow> id \<Rightarrow> id \<Rightarrow> bool" where
  "running_on d runId chat \<longleftrightarrow> (\<exists>r \<in> set (db_runs d). run_id r = runId \<and> run_chatId r = Some chat \<and> run_state r = Running)"

definition open_chats :: "brain \<Rightarrow> id list" where
  "open_chats s = map (\<lambda>t. chat_id (the (bt_chat t))) (filter (\<lambda>t. bt_chat t \<noteq> None) (br_open s))"

definition brain_inv :: "brain \<Rightarrow> bool" where
  "brain_inv s \<longleftrightarrow> distinct (map bt_runId (br_open s)) \<and> set (map bt_runId (br_open s)) \<subseteq> run_id ` set (db_runs (br_db s)) \<and>
     distinct (map run_id (db_runs (br_db s))) \<and> distinct (open_chats s) \<and>
     (\<forall>t \<in> set (br_open s). \<forall>c. bt_chat t = Some c \<longrightarrow> running_on (br_db s) (bt_runId t) (chat_id c))"

lemma brain_inv_same:
  "brain_inv s \<Longrightarrow> br_open s2 = br_open s \<Longrightarrow> db_runs (br_db s2) = db_runs (br_db s) \<Longrightarrow> brain_inv s2"
  by (simp add: brain_inv_def open_chats_def running_on_def)

lemma live_of_running: "running_on d i c \<Longrightarrow> live_run d c"
  by (auto simp: running_on_def live_run_def list_ex_iff)

lemma getChat_id: "getChat d c = Some chat \<Longrightarrow> chat_id chat = c"
  by (auto simp: getChat_def dest: first_row_Some)

lemma begin_turn_inv:
  assumes "brain_inv s" "begin_turn r a now chat src s = (s2, TurnStarted r)" "\<And>c. chat = Some c \<Longrightarrow> \<not> live_run (br_db s) (chat_id c)"
  shows "brain_inv s2"
proof -
  let ?t = "\<lparr>bt_runId = r, bt_agentId = a, bt_chat = chat, bt_sourceChatId = src\<rparr>"
  let ?d = "(br_db s)\<lparr>db_runs := db_runs (br_db s) @ [brain_run r a now chat src]\<rparr>"
  have s2: "br_db s2 = ?d" "br_open s2 = br_open s @ [?t]" and r: "r \<notin> run_id ` set (db_runs (br_db s))"
    using begin_turn_started [OF assms(2)] by simp_all
  have row: "run_id (brain_run r a now chat src) = r" "run_chatId (brain_run r a now chat src) = map_option chat_id chat"
    "run_state (brain_run r a now chat src) = Running" by (simp_all add: brain_run_def)
  have keep: "running_on (br_db s) i c \<Longrightarrow> running_on ?d i c" for i c by (auto simp: running_on_def)
  have fresh: "chat_id c \<notin> set (open_chats s)" if "chat = Some c" for c
  proof
    assume "chat_id c \<in> set (open_chats s)"
    then obtain t c2 where t: "t \<in> set (br_open s)" "bt_chat t = Some c2" "chat_id c2 = chat_id c" by (auto simp: open_chats_def)
    with assms(1) have "running_on (br_db s) (bt_runId t) (chat_id c)" by (auto simp: brain_inv_def)
    with assms(3) [OF that] live_of_running show False by blast
  qed
  have "distinct (open_chats s2)"
    using assms(1) fresh by (cases chat) (simp_all add: open_chats_def s2(2) brain_inv_def)
  moreover have "running_on ?d r (chat_id c)" if "chat = Some c" for c
    using row that by (auto simp: running_on_def)
  ultimately show ?thesis
    using assms(1) r row keep by (auto simp: brain_inv_def s2)
qed

lemma end_row_other: "i \<noteq> runId \<Longrightarrow> running_on d i c \<Longrightarrow> running_on (end_row runId now out d) i c"
  by (auto simp: running_on_def end_row_def set_upd_where intro!: image_eqI)

lemma end_row_ids: "map run_id (db_runs (end_row runId now out d)) = map run_id (db_runs d)"
  by (simp add: end_row_def upd_where_def)

lemma bindSession_runs: "bindSession d i sid now = Some d2 \<Longrightarrow> db_runs d2 = db_runs d \<and> db_crons d2 = db_crons d \<and> db_approvals d2 = db_approvals d"
  by (auto simp: bindSession_def write_chats_def split: if_splits)

lemma touchChat_runs [simp]:
  "db_runs (touchChat d i now) = db_runs d" "db_crons (touchChat d i now) = db_crons d" "db_approvals (touchChat d i now) = db_approvals d"
  by (simp_all add: touchChat_def update_chat_def)

lemma notify_keeps [simp]:
  "db_runs (notify d u now k t b l) = db_runs d" "db_crons (notify d u now k t b l) = db_crons d" "db_approvals (notify d u now k t b l) = db_approvals d"
  by (simp_all add: notify_def)

lemma note_budget_keeps [simp]:
  "db_runs (br_db (note_budget cfg u now s)) = db_runs (br_db s)" "db_crons (br_db (note_budget cfg u now s)) = db_crons (br_db s)"
  "db_approvals (br_db (note_budget cfg u now s)) = db_approvals (br_db s)" "br_open (note_budget cfg u now s) = br_open s"
  "br_deciding (note_budget cfg u now s) = br_deciding s"
  by (simp_all add: note_budget_def)

text \<open>The end of a turn: the state without it, or that state with the chat, the frames and the notifications brought up to date.\<close>

definition ended :: "id \<Rightarrow> time \<Rightarrow> brain_outcome \<Rightarrow> brain \<Rightarrow> brain" where
  "ended runId now out s = s\<lparr>br_db := end_row runId now out (br_db s), br_open := del_where (\<lambda>u. bt_runId u = runId) (br_open s)\<rparr>"

lemma brain_ends_fields:
  assumes "brain_ends cfg uuid now runId out s = (s2, r)"
  shows "s2 = s \<or> (db_runs (br_db s2) = db_runs (end_row runId now out (br_db s)) \<and> br_open s2 = br_open (ended runId now out s))"
    and "db_crons (br_db s2) = db_crons (br_db s)" "db_approvals (br_db s2) = db_approvals (br_db s)" "br_deciding s2 = br_deciding s"
  using assms bindSession_runs
  by (auto simp: brain_ends_def ended_def Let_def end_row_def split: option.splits if_splits)

lemma ended_inv: "brain_inv s \<Longrightarrow> brain_inv (ended runId now out s)"
proof -
  assume inv: "brain_inv s"
  let ?open = "filter (\<lambda>u. bt_runId u \<noteq> runId) (br_open s)"
  have o: "br_open (ended runId now out s) = ?open" by (simp add: ended_def del_where_def)
  have "distinct (open_chats (ended runId now out s))"
  proof -
    have "open_chats (ended runId now out s) = map (\<lambda>t. chat_id (the (bt_chat t))) (filter (\<lambda>u. bt_runId u \<noteq> runId) (filter (\<lambda>t. bt_chat t \<noteq> None) (br_open s)))"
      by (simp add: open_chats_def o conj_commute)
    moreover have "distinct (map (\<lambda>t. chat_id (the (bt_chat t))) (filter (\<lambda>t. bt_chat t \<noteq> None) (br_open s)))"
      using inv by (simp add: brain_inv_def open_chats_def)
    ultimately show ?thesis by (simp only: distinct_map_filter)
  qed
  moreover have ids: "map run_id (db_runs (br_db (ended runId now out s))) = map run_id (db_runs (br_db s))"
    by (simp add: ended_def end_row_ids)
  moreover have "running_on (br_db (ended runId now out s)) (bt_runId t) (chat_id c)" if "t \<in> set ?open" "bt_chat t = Some c" for t c
    using inv that by (auto simp: ended_def brain_inv_def intro!: end_row_other)
  moreover have "set (map bt_runId ?open) \<subseteq> run_id ` set (db_runs (br_db (ended runId now out s)))"
    using inv arg_cong [OF ids, of set] by (auto simp: brain_inv_def)
  ultimately show ?thesis
    using inv unfolding brain_inv_def o by (auto simp: distinct_map_filter)
qed

lemma brain_cron_fields:
  "br_open (fst (brain_cron cfg i now b s)) = br_open s" "db_runs (br_db (fst (brain_cron cfg i now b s))) = db_runs (br_db s)"
  "db_approvals (br_db (fst (brain_cron cfg i now b s))) = db_approvals (br_db s)" "br_deciding (fst (brain_cron cfg i now b s)) = br_deciding s"
  by (simp_all add: brain_cron_def)

lemma brain_session_fields:
  "br_open (brain_session now r sid s) = br_open s"
  "db_runs (br_db (brain_session now r sid s)) \<in> {db_runs (br_db s), db_runs (note_session r sid (br_db s))}"
  "db_crons (br_db (brain_session now r sid s)) = db_crons (br_db s)" "db_approvals (br_db (brain_session now r sid s)) = db_approvals (br_db s)"
  "br_deciding (brain_session now r sid s) = br_deciding s"
  using bindSession_runs by (auto simp: brain_session_def Let_def note_session_def split: option.splits)

lemma note_session_inv: "brain_inv s \<Longrightarrow> brain_inv (s\<lparr>br_db := note_session r sid (br_db s)\<rparr>)"
proof -
  assume inv: "brain_inv s"
  have ids: "map run_id (db_runs (note_session r sid (br_db s))) = map run_id (db_runs (br_db s))"
    by (simp add: note_session_def upd_where_def)
  have "running_on (note_session r sid (br_db s)) i c" if "running_on (br_db s) i c" for i c
  proof -
    from that obtain x where x: "x \<in> set (db_runs (br_db s))" "run_id x = i" "run_chatId x = Some c" "run_state x = Running"
      by (auto simp: running_on_def)
    let ?y = "if run_id x = r then x\<lparr>run_dshSessionId := Some sid\<rparr> else x"
    have "?y \<in> set (db_runs (note_session r sid (br_db s)))"
      using x(1) by (auto simp: note_session_def upd_where_def)
    then show ?thesis using x unfolding running_on_def by (intro bexI [of _ ?y]) auto
  qed
  then show ?thesis
    using inv ids arg_cong [OF ids, of set] unfolding brain_inv_def open_chats_def set_map by simp
qed

lemma brain_session_inv: "brain_inv s \<Longrightarrow> brain_inv (brain_session now r sid s)"
  using brain_session_fields [of now r sid s] brain_inv_same [of s "brain_session now r sid s"]
    brain_inv_same [OF note_session_inv [of s r sid], of "brain_session now r sid s"] by auto

lemma decide_fields:
  "br_db (fst (decidePendingApproval cfg i out actor s)) = br_db s" "br_open (fst (decidePendingApproval cfg i out actor s)) = br_open s"
  by (simp_all add: decidePendingApproval_def split: option.split)

lemma answered_fields:
  "br_open (fst (decision_answered now n ok s)) = br_open s" "db_runs (br_db (fst (decision_answered now n ok s))) = db_runs (br_db s)"
  "db_crons (br_db (fst (decision_answered now n ok s))) = db_crons (br_db s)"
  by (simp_all add: decision_answered_def Let_def recordAudit_def)

lemma brain_step_inv: "brain_inv s \<Longrightarrow> brain_inv (brain_step cfg s e)"
proof -
  assume inv: "brain_inv s"
  obtain now ev where e: "e = (now, ev)" by (cases e)
  have begin_ok: "brain_inv (fst (begin_turn r a now chat src s))" if "\<And>c. chat = Some c \<Longrightarrow> \<not> live_run (br_db s) (chat_id c)" for r a chat src
    using begin_turn_cases [of r a now chat src s] begin_turn_inv [OF inv _ that] inv by auto
  have noted: "brain_inv (note_budget cfg u now s)" for u by (rule brain_inv_same [OF inv]) simp_all
  show ?thesis
  proof (cases ev)
    case (Prompt fresh c t)
    have ok: "brain_inv (fst (begin_turn r a now (Some chat) None s))" if "getChat (br_db s) c = Some chat" "\<not> live_run (br_db s) c" for r a chat
      by (rule begin_ok) (use that getChat_id in auto)
    show ?thesis
      using brain_prompt_cases [of cfg fresh now c t s] inv noted ok unfolding brain_step_def e Prompt brain_act.simps fst_conv snd_conv
      by (elim disjE exE conjE) simp_all
  next
    case (Dispatch fresh i t src)
    have ok: "brain_inv (fst (begin_turn r a now None src s))" for r a by (rule begin_ok) simp
    show ?thesis
      using brain_dispatch_cases [of cfg fresh now i t src s] inv noted ok unfolding brain_step_def e Dispatch brain_act.simps fst_conv snd_conv
      by (elim disjE exE conjE) simp_all
  next
    case (TurnSession r sid)
    show ?thesis using brain_session_inv [OF inv] by (simp add: brain_step_def e TurnSession)
  next
    case (TurnEnds uuid r out)
    obtain s2 rep where b: "brain_ends cfg uuid now r out s = (s2, rep)" by (cases "brain_ends cfg uuid now r out s")
    have "brain_inv s2"
      using brain_ends_fields(1) [OF b] inv brain_inv_same [OF ended_inv [OF inv, of r now out], of s2] by (auto simp: ended_def)
    then show ?thesis by (simp add: brain_step_def e TurnEnds b)
  next
    case (DraftCron i b)
    show ?thesis unfolding brain_step_def e DraftCron brain_act.simps fst_conv snd_conv
      by (rule brain_inv_same [OF inv]) (simp_all add: brain_cron_fields)
  next
    case (Decide i out actor)
    show ?thesis unfolding brain_step_def e Decide brain_act.simps fst_conv snd_conv
      by (rule brain_inv_same [OF inv]) (simp_all add: decide_fields)
  next
    case (DecisionAnswered n ok)
    show ?thesis unfolding brain_step_def e DecisionAnswered brain_act.simps fst_conv snd_conv
      by (rule brain_inv_same [OF inv]) (simp_all add: answered_fields)
  next
    case (BackOffice b)
    show ?thesis unfolding brain_step_def e BackOffice brain_act.simps fst_conv snd_conv
      by (rule brain_inv_same [OF inv]) simp_all
  qed
qed

lemma brain_init_inv: "distinct (map run_id (db_runs d)) \<Longrightarrow> brain_inv (brain_init d t)"
  by (simp add: brain_inv_def brain_init_def open_chats_def)

interpretation brain_turns: invariant_system "brain_init empty_db init_turns" "brain_step cfg" "\<lambda>e. True" brain_inv for cfg
  by unfold_locales (simp_all add: brain_step_inv brain_init_inv empty_db_def)


section \<open>What the brain may not do\<close>

definition enabled_crons :: "brain \<Rightarrow> cron_row list" where
  "enabled_crons s = filter (\<lambda>c. cron_enabled c \<noteq> 0) (db_crons (br_db s))"

lemma brain_cron_enabled: "enabled_crons (fst (brain_cron cfg i now b s)) = enabled_crons s"
  by (simp add: brain_cron_def enabled_crons_def drafted_row_def)

lemma begin_turn_fields:
  "db_crons (br_db (fst (begin_turn r a now chat src s))) = db_crons (br_db s)"
  "db_approvals (br_db (fst (begin_turn r a now chat src s))) = db_approvals (br_db s)"
  "br_deciding (fst (begin_turn r a now chat src s)) = br_deciding s"
  by (auto simp: begin_turn_def dest!: insert_run_Some split: option.split)

lemma brain_prompt_fields:
  "db_crons (br_db (fst (brain_prompt cfg fresh now c t s))) = db_crons (br_db s)"
  "db_approvals (br_db (fst (brain_prompt cfg fresh now c t s))) = db_approvals (br_db s)"
  "br_deciding (fst (brain_prompt cfg fresh now c t s)) = br_deciding s"
  using brain_prompt_cases [of cfg fresh now c t s] begin_turn_fields by auto

lemma brain_dispatch_fields:
  "db_crons (br_db (fst (brain_dispatch cfg fresh now i t src s))) = db_crons (br_db s)"
  "db_approvals (br_db (fst (brain_dispatch cfg fresh now i t src s))) = db_approvals (br_db s)"
  "br_deciding (fst (brain_dispatch cfg fresh now i t src s)) = br_deciding s"
  using brain_dispatch_cases [of cfg fresh now i t src s] begin_turn_fields by auto

lemma brain_ends_keeps:
  "db_crons (br_db (fst (brain_ends cfg uuid now r out s))) = db_crons (br_db s)"
  "db_approvals (br_db (fst (brain_ends cfg uuid now r out s))) = db_approvals (br_db s)"
  "br_deciding (fst (brain_ends cfg uuid now r out s)) = br_deciding s"
  using brain_ends_fields [of cfg uuid now r out s] by (cases "brain_ends cfg uuid now r out s", simp)+

lemmas brain_fields = brain_prompt_fields brain_dispatch_fields brain_ends_keeps brain_session_fields(1,3-5) brain_cron_fields decide_fields answered_fields

lemma enabled_crons_step: "enabled_crons (brain_step cfg s e) = enabled_crons s"
  by (cases "snd e") (simp_all add: brain_step_def brain_fields brain_cron_enabled enabled_crons_def [symmetric], simp_all add: enabled_crons_def brain_fields)

text \<open>
  The brain cannot schedule anything: whatever it asks for, in any order, the schedules that are switched on are the very
  rows that were switched on before; what it adds is a draft.
\<close>

theorem brain_schedules_stay_off:
  "enabled_crons (foldl (brain_step cfg) s es) = enabled_crons s"
  by (induction es arbitrary: s) (simp_all add: enabled_crons_step)

section \<open>Approvals\<close>

definition valid_outcome :: "string \<Rightarrow> bool" where
  "valid_outcome x \<longleftrightarrow> x = ''allowed-once'' \<or> x = ''rejected''"

definition was_decided :: "(time \<times> brain_event) list \<Rightarrow> id \<Rightarrow> string \<Rightarrow> bool" where
  "was_decided es i x \<longleftrightarrow> (\<exists>now actor. (now, Decide i x actor) \<in> set es)"

text \<open>A row as it was, or one resolved by a decision that somebody made in the meantime.\<close>

definition decided_only :: "approval_row list \<Rightarrow> (time \<times> brain_event) list \<Rightarrow> brain \<Rightarrow> bool" where
  "decided_only rows es s \<longleftrightarrow>
     (\<forall>x \<in> set (br_deciding s). valid_outcome (de_outcome x) \<and> was_decided es (de_id x) (de_outcome x)) \<and>
     (\<forall>q \<in> set (db_approvals (br_db s)). q \<in> set rows \<or>
        (\<exists>x. apq_outcome q = Some x \<and> valid_outcome x \<and> was_decided es (apq_id q) x))"

lemma was_decided_more: "was_decided es i x \<Longrightarrow> was_decided (es @ fs) i x"
  by (auto simp: was_decided_def)

lemma decided_only_more: "decided_only rows es s \<Longrightarrow> decided_only rows (es @ fs) s"
  unfolding decided_only_def using was_decided_more by blast

lemma decided_only_same:
  "decided_only rows es s \<Longrightarrow> br_deciding s2 = br_deciding s \<Longrightarrow> db_approvals (br_db s2) = db_approvals (br_db s) \<Longrightarrow> decided_only rows es s2"
  by (simp add: decided_only_def)

lemma decide_new:
  "br_deciding (fst (decidePendingApproval cfg i out actor s)) = br_deciding s \<or>
   (valid_outcome out \<and> (\<exists>x. de_id x = i \<and> de_outcome x = out \<and> br_deciding (fst (decidePendingApproval cfg i out actor s)) = br_deciding s @ [x]))"
  by (auto simp: decidePendingApproval_def valid_outcome_def split: option.split)

lemma decide_decided:
  assumes "decided_only rows es s"
  shows "decided_only rows (es @ [(now, Decide i out actor)]) (fst (decidePendingApproval cfg i out actor s))"
proof -
  have w: "was_decided (es @ [(now, Decide i out actor)]) i out" by (auto simp: was_decided_def)
  show ?thesis
    using decide_new [of cfg i out actor s] decided_only_more [OF assms, of "[(now, Decide i out actor)]"] w
    by (auto simp: decided_only_def decide_fields)
qed

lemma answered_decided:
  assumes "decided_only rows es s"
  shows "decided_only rows es (fst (decision_answered now n ok s))"
proof (cases "n < length (br_deciding s)")
  case False
  then show ?thesis using assms by (simp add: decision_answered_def)
next
  case True
  let ?x = "br_deciding s ! n"
  have x: "valid_outcome (de_outcome ?x)" "was_decided es (de_id ?x) (de_outcome ?x)"
    using assms True by (auto simp: decided_only_def)
  have sub: "set (take n (br_deciding s) @ drop (Suc n) (br_deciding s)) \<subseteq> set (br_deciding s)"
    by (auto dest: in_set_takeD in_set_dropD)
  show ?thesis
    using assms True x sub
    by (auto simp: decision_answered_def Let_def recordAudit_def decided_only_def set_upd_where split: if_splits)
qed

lemma approvals_step:
  assumes "decided_only rows es s"
  shows "decided_only rows (es @ [e]) (brain_step cfg s e)"
proof -
  obtain now ev where e: "e = (now, ev)" by (cases e)
  show ?thesis
  proof (cases ev)
    case (Decide i out actor)
    then show ?thesis using decide_decided [OF assms] by (simp add: brain_step_def e)
  next
    case (DecisionAnswered n ok)
    then show ?thesis using answered_decided [OF decided_only_more [OF assms]] by (simp add: brain_step_def e)
  qed (rule decided_only_same [OF decided_only_more [OF assms]]; simp add: brain_step_def e brain_fields)+
qed

lemma approvals_reachable:
  "decided_only (db_approvals d) es (foldl (brain_step cfg) (brain_init d t) es)"
proof (induction es rule: rev_induct)
  case Nil
  show ?case by (simp add: decided_only_def brain_init_def)
next
  case (snoc e es)
  then show ?case by (simp add: approvals_step)
qed


section \<open>Samples, and what slips through\<close>

definition sample_brain_config :: brain_config where
  "sample_brain_config = \<lparr>bc_agents = [\<lparr>ba_id = ''w1'', ba_name = ''W'', ba_endpoint = ''w1''\<rparr>], bc_upstreams = [''w1''],
     bc_dailyBudget = Some 100, bc_dayStart = (\<lambda>t. 0), bc_scheduleProblem = (\<lambda>s z. False)\<rparr>"

definition sample_chat :: chat_row where
  "sample_chat = \<lparr>chat_id = ''c1'', chat_agentId = ''w1'', chat_dshSessionId = Some ''s1'', chat_title = None, chat_createdAt = 0, chat_lastActiveAt = 0,
     chat_removedAt = None, chat_accessModeOverride = None, chat_accessMode = None, chat_apiKeyId = None, chat_externalUserId = None, chat_serviceId = None\<rparr>"

definition sample_approval :: approval_row where
  "sample_approval = \<lparr>apq_id = ''q1'', apq_runId = ''r0'', apq_agentId = ''w1'', apq_approvalId = ''p1'', apq_toolName = ''Bash'', apq_reason = None,
     apq_state = ApPending, apq_outcome = None, apq_createdAt = 0, apq_resolvedAt = None\<rparr>"

definition sample_brain_db :: db where
  "sample_brain_db = empty_db\<lparr>db_agents := [sample_agent], db_chats := [sample_chat],
     db_runs := [(brain_run ''r0'' ''w1'' 1 None None)\<lparr>run_dshSessionId := Some ''s0''\<rparr>], db_approvals := [sample_approval]\<rparr>"

abbreviation sample_history :: "(time \<times> brain_event) list \<Rightarrow> brain" where
  "sample_history es \<equiv> foldl (brain_step sample_brain_config) (brain_init sample_brain_db init_turns) es"

lemma no_brain_turn_over_budget_witness:
  "brainSpendToday sample_brain_config 5 sample_brain_db < 100"
proof -
  let ?r = "brain_act sample_brain_config 5 (Prompt (''r1'', ''n1'') ''c1'' (Some ''go'')) (brain_init sample_brain_db init_turns)"
  have "snd ?r = TurnStarted ''r1''" by code_simp
  then have "?r = (fst ?r, TurnStarted ''r1'')" by (metis prod.collapse)
  from no_brain_turn_over_budget [OF this] show ?thesis by (simp add: sample_brain_config_def brain_init_def)
qed



text \<open>
  A prompt can be decided twice: the row is read before the host is called and written after, so a second decision that
  arrives in between passes the check too; both callers are told that they decided, and the later answer overwrites the earlier.
\<close>

theorem approval_decided_twice:
  "(let s1 = sample_history [(5, Decide ''q1'' ''allowed-once'' ''internal''), (6, Decide ''q1'' ''rejected'' ''ada'')];
        (s2, r2) = brain_act sample_brain_config 7 (DecisionAnswered 0 True) s1;
        (s3, r3) = brain_act sample_brain_config 8 (DecisionAnswered 0 True) s2
    in (r2, r3, map apq_outcome (db_approvals (br_db s3)), length (db_audit (br_db s3)))) =
   (Decided200 ''allowed-once'', Decided200 ''rejected'', [Some ''rejected''], 2)"
  by code_simp

text \<open>
  The gate that makes a chat serial works in one direction only: the brain waits for the back office, but a message of the
  back office looks at the turns it started itself, so while a prompt of the brain runs on a chat a message to it starts at once.
\<close>

theorem back_office_ignores_the_brain:
  "(let s = sample_history [(5, Prompt (''r1'', ''n1'') ''c1'' (Some ''go''))]
    in (open_chats s, live_run (br_db s) ''c1'', snd (send_message (br_turns s) ''c1'' ''u1'' ''hello''))) = ([''c1''], True, TurnAccepted)"
  by code_simp

lemma zero_sum: "(\<And>x. x \<in> set xs \<Longrightarrow> f x = (0 :: int)) \<Longrightarrow> sum_list (map f xs) = 0"
  by (induction xs) auto

text \<open>
  The budget of the brain does not see what has no price: turns on a model without a rate are recorded without a cost, and
  however many there are, the budget is not used up.
\<close>

theorem unpriced_brain_spends_nothing:
  assumes "\<forall>u \<in> set (db_usage d). usage_cost u = None" and "bc_dailyBudget cfg = Some cap" and "0 < cap"
  shows "\<not> over_budget cfg now d"
proof -
  have "brainSpendToday cfg now d = 0"
    using assms(1) unfolding brainSpendToday_def by (intro zero_sum) auto
  then show ?thesis using assms(2,3) by (simp add: over_budget_def)
qed

lemma unpriced_brain_spends_nothing_witness:
  "\<not> over_budget sample_brain_config 9 (sample_brain_db\<lparr>db_usage := replicate 1000 (sample_usage ''r0'' 1 None None)\<rparr>)"
  by (rule unpriced_brain_spends_nothing [where cap = 100]) (simp_all add: sample_brain_config_def sample_usage_def)

end
