(* ===== verification/Watchdog.thy ===== *)
theory Watchdog
  imports AgentChannel
begin

text \<open>
  The fleet watchdog (\<^verbatim>\<open>fleet/watchdog.ts\<close>): one sweep over the machines and the nodes that run on them, which compares what it
  sees with what the last sweep saw and writes alerts to the bell.  \<open>wt_last\<close> is the map that the process keeps; a restart begins
  with the empty one.  The identifiers of new notifications come from \<open>fresh\<close>.
\<close>

section \<open>What it watches\<close>

record fleet_node =
  fn_id :: id
  fn_state :: string
  fn_runner :: string
  fn_host :: "string option"
  fn_lastError :: "string option"

record fleet_agent =
  fa_id :: id
  fa_hostname :: string
  fa_online :: bool

record watch =
  wt_db :: db
  wt_last :: "string \<Rightarrow> string option"
  wt_alerts :: nat

definition fleet_agents :: "db \<Rightarrow> time \<Rightarrow> fleet_agent list" where
  "fleet_agents d now = map (\<lambda>r. \<lparr>fa_id = mach_id r, fa_hostname = mach_hostname r, fa_online = machine_online r now\<rparr>)
     (filter (\<lambda>r. mach_revokedAt r = None) (db_machines d))"

definition hasUnreadAlert :: "db \<Rightarrow> string \<Rightarrow> string \<Rightarrow> bool" where
  "hasUnreadAlert d kind needle \<longleftrightarrow> list_ex (\<lambda>n. ntf_read n = 0 \<and> str_includes (ntf_body n) needle)
     (filter (\<lambda>n. ntf_kind n = kind) (db_notifications d))"

definition raise_alert :: "(nat \<Rightarrow> id) \<Rightarrow> time \<Rightarrow> string \<Rightarrow> string \<Rightarrow> string \<Rightarrow> watch \<Rightarrow> watch" where
  "raise_alert fresh now kind title body w = w\<lparr>
     wt_db := notify (wt_db w) (fresh (length (db_notifications (wt_db w)))) now kind title body (Some ''/nodes''),
     wt_alerts := Suc (wt_alerts w)\<rparr>"

definition agent_key :: "id \<Rightarrow> string" where "agent_key i = ''agent:'' @ i"
definition node_key :: "id \<Rightarrow> string" where "node_key i = ''node:'' @ i"

text \<open>The needle is written with the full-width parentheses of the source, three bytes each.\<close>

definition full_width :: "string \<Rightarrow> string" where
  "full_width s = [CHR 0xEF, CHR 0xBC, CHR 0x88] @ s @ [CHR 0xEF, CHR 0xBC, CHR 0x89]"

definition em_dash :: string where "em_dash = [CHR 0xE2, CHR 0x80, CHR 0x94]"

definition offline_body :: "fleet_agent \<Rightarrow> string" where
  "offline_body a = ''machine '' @ fa_hostname a @ '' ('' @ fa_id a @ '') has not sent a heartbeat for over '' @ show_nat 90 @ ''s '' @ em_dash @
     '' commands for nodes on it cannot be delivered''"

definition recovered_body :: "fleet_agent \<Rightarrow> string" where
  "recovered_body a = ''machine '' @ fa_hostname a @ '' ('' @ fa_id a @ '') is sending heartbeats again''"

definition down_body :: "fleet_node \<Rightarrow> string" where
  "down_body n = ''node '' @ fn_id n @ '' is down'' @ (case fn_host n of None \<Rightarrow> [] | Some h \<Rightarrow> '' (agent '' @ h @ '')'') @ '': '' @
     (case fn_lastError n of None \<Rightarrow> ''probe failed'' | Some e \<Rightarrow> e)"

section \<open>The sweep\<close>

definition see_agent :: "(nat \<Rightarrow> id) \<Rightarrow> time \<Rightarrow> fleet_agent \<Rightarrow> watch \<Rightarrow> watch" where
  "see_agent fresh now a w = (let key = agent_key (fa_id a); prev = wt_last w key in
     if \<not> fa_online a
     then (if prev \<noteq> Some ''offline'' \<and> \<not> hasUnreadAlert (wt_db w) ''agent_offline'' (full_width (fa_id a))
           then raise_alert fresh now ''agent_offline'' (''machine '' @ fa_hostname a @ '' went offline'') (offline_body a) w
           else w)\<lparr>wt_last := (wt_last w)(key \<mapsto> ''offline'')\<rparr>
     else (if prev = Some ''offline''
           then raise_alert fresh now ''agent_recovered'' (''machine '' @ fa_hostname a @ '' recovered'') (recovered_body a) w
           else w)\<lparr>wt_last := (wt_last w)(key \<mapsto> ''online'')\<rparr>)"

definition see_node :: "(nat \<Rightarrow> id) \<Rightarrow> time \<Rightarrow> fleet_node \<Rightarrow> watch \<Rightarrow> watch" where
  "see_node fresh now n w =
     (if fn_runner n \<noteq> ''agent'' then w
      else (let key = node_key (fn_id n); prev = wt_last w key in
        if fn_state n = ''offline''
        then (if prev \<noteq> Some ''offline'' \<and> \<not> hasUnreadAlert (wt_db w) ''node_offline'' (''node '' @ fn_id n)
              then raise_alert fresh now ''node_offline'' (''node '' @ fn_id n @ '' is abnormal'') (down_body n) w
              else w)\<lparr>wt_last := (wt_last w)(key \<mapsto> ''offline'')\<rparr>
        else if fn_state n = ''live''
        then (if prev = Some ''offline''
              then raise_alert fresh now ''node_recovered'' (''node '' @ fn_id n @ '' recovered'') (''node '' @ fn_id n @ '' is online again'') w
              else w)\<lparr>wt_last := (wt_last w)(key \<mapsto> ''live'')\<rparr>
        else w))"

definition sweep :: "(nat \<Rightarrow> id) \<Rightarrow> time \<Rightarrow> fleet_agent list \<Rightarrow> fleet_node list \<Rightarrow> watch \<Rightarrow> watch" where
  "sweep fresh now agents nodes w = fold (see_node fresh now) nodes (fold (see_agent fresh now) agents (w\<lparr>wt_alerts := 0\<rparr>))"

definition watch_tick :: "(nat \<Rightarrow> id) \<Rightarrow> time \<Rightarrow> fleet_node list \<Rightarrow> watch \<Rightarrow> watch" where
  "watch_tick fresh now nodes w = sweep fresh now (fleet_agents (wt_db w) now) nodes w"

definition fresh_watch :: "db \<Rightarrow> watch" where
  "fresh_watch d = \<lparr>wt_db = d, wt_last = Map.empty, wt_alerts = 0\<rparr>"

section \<open>Edges\<close>

text \<open>
  A reporter of edges: it looks at one object at a time, keeps its verdict under the slot of the object and reports a comeback when
  an object that was down is up.  An object without a verdict (a node that is starting) leaves everything as it is.
\<close>

fun comebacks :: "bool list \<Rightarrow> nat" where
  "comebacks (x # y # ys) = (if \<not> x \<and> y then 1 else 0) + comebacks (y # ys)"
| "comebacks _ = 0"

lemma comebacks_snoc: "comebacks (xs @ [x]) = comebacks xs + (if xs \<noteq> [] \<and> \<not> last xs \<and> x then 1 else 0)"
  by (induction xs rule: comebacks.induct) auto

lemma sum_one_more:
  assumes "finite S" "k \<in> S"
  shows "(\<Sum>i\<in>S. f i + (if k = i \<and> b \<and> P i then 1 else 0)) = (\<Sum>i\<in>S. f i) + (if b \<and> P k then (1 :: nat) else 0)"
proof -
  have "(\<Sum>i\<in>S. if k = i \<and> b \<and> P i then 1 else 0) = (\<Sum>i\<in>S. if k = i then (if b \<and> P k then 1 else 0) else (0 :: nat))"
    by (rule sum.cong) auto
  then show ?thesis using assms by (simp add: sum.distrib)
qed

definition bell_count :: "string \<Rightarrow> watch \<Rightarrow> int" where
  "bell_count kind w = count_where (\<lambda>n. ntf_kind n = kind) (db_notifications (wt_db w))"

definition seen :: "('o \<Rightarrow> bool option) \<Rightarrow> ('o \<Rightarrow> id) \<Rightarrow> id \<Rightarrow> 'o list \<Rightarrow> bool list" where
  "seen verdict key i obs = List.map_filter verdict (filter (\<lambda>x. key x = i) obs)"

lemma seen_snoc: "seen verdict key i (obs @ [x]) = seen verdict key i obs @ (if key x = i then (case verdict x of None \<Rightarrow> [] | Some b \<Rightarrow> [b]) else [])"
  by (simp add: seen_def List.map_filter_def split: option.split)

locale edge_reporter =
  fixes see :: "'o \<Rightarrow> watch \<Rightarrow> watch" and key :: "'o \<Rightarrow> id" and slot :: "id \<Rightarrow> string" and verdict :: "'o \<Rightarrow> bool option" and kind :: string
  assumes slot_inj: "slot i = slot j \<Longrightarrow> i = j"
    and silent: "verdict x = None \<Longrightarrow> see x w = w"
    and remembers: "verdict x = Some b \<Longrightarrow> wt_last (see x w) = (wt_last w)(slot (key x) \<mapsto> v) \<Longrightarrow> v = ''offline'' \<longleftrightarrow> \<not> b"
    and only_slot: "verdict x = Some b \<Longrightarrow> \<exists>v. wt_last (see x w) = (wt_last w)(slot (key x) \<mapsto> v)"
    and reports: "verdict x = Some b \<Longrightarrow> bell_count kind (see x w) = bell_count kind w + (if b \<and> wt_last w (slot (key x)) = Some ''offline'' then 1 else 0)"
begin

definition tracks :: "int \<Rightarrow> id set \<Rightarrow> 'o list \<Rightarrow> watch \<Rightarrow> bool" where
  "tracks base S obs w \<longleftrightarrow>
     (\<forall>i. wt_last w (slot i) = Some ''offline'' \<longleftrightarrow> seen verdict key i obs \<noteq> [] \<and> \<not> last (seen verdict key i obs)) \<and>
     bell_count kind w = base + int (\<Sum>i\<in>S. comebacks (seen verdict key i obs))"

lemma tracks_see:
  assumes t: "tracks base S obs w" and S: "finite S" "key x \<in> S"
  shows "tracks base S (obs @ [x]) (see x w)"
proof (cases "verdict x")
  case None
  then have "seen verdict key i (obs @ [x]) = seen verdict key i obs" for i by (simp add: seen_snoc)
  then show ?thesis using t None by (simp add: tracks_def silent)
next
  case (Some b)
  obtain v where v: "wt_last (see x w) = (wt_last w)(slot (key x) \<mapsto> v)" using only_slot [OF Some] by blast
  have vb: "v = ''offline'' \<longleftrightarrow> \<not> b" by (rule remembers [OF Some v])
  have last: "wt_last (see x w) (slot i) = Some ''offline'' \<longleftrightarrow>
      seen verdict key i (obs @ [x]) \<noteq> [] \<and> \<not> last (seen verdict key i (obs @ [x]))" for i
    using t slot_inj [of i "key x"] by (auto simp: tracks_def seen_snoc v vb Some)
  have "(\<Sum>i\<in>S. comebacks (seen verdict key i (obs @ [x]))) =
      (\<Sum>i\<in>S. comebacks (seen verdict key i obs) + (if key x = i \<and> b \<and> wt_last w (slot i) = Some ''offline'' then 1 else 0))"
    by (rule sum.cong) (use t in \<open>auto simp: tracks_def seen_snoc comebacks_snoc Some\<close>)
  also have "\<dots> = (\<Sum>i\<in>S. comebacks (seen verdict key i obs)) + (if b \<and> wt_last w (slot (key x)) = Some ''offline'' then 1 else 0)"
    by (rule sum_one_more) (rule S)+
  finally show ?thesis using t reports [OF Some, of w] last by (simp add: tracks_def)
qed

lemma tracks_fold:
  assumes "tracks base S obs w" "finite S" "key ` set xs \<subseteq> S"
  shows "tracks base S (obs @ xs) (fold see xs w)"
  using assms by (induction xs arbitrary: obs w) (simp_all, metis append.assoc append_Cons append_Nil tracks_see)

lemma tracks_other:
  assumes "tracks base S obs w" "\<And>i. wt_last w2 (slot i) = wt_last w (slot i)" "bell_count kind w2 = bell_count kind w"
  shows "tracks base S obs w2"
  using assms by (simp add: tracks_def)

lemma tracks_init: "wt_last w = Map.empty \<Longrightarrow> tracks (bell_count kind w) S [] w"
  by (simp add: tracks_def seen_def List.map_filter_def)

end

lemma raise_alert_simps [simp]:
  "wt_last (raise_alert fresh now k t b w) = wt_last w" "wt_alerts (raise_alert fresh now k t b w) = Suc (wt_alerts w)"
  "bell_count kind (raise_alert fresh now k t b w) = bell_count kind w + (if k = kind then 1 else 0)"
  by (simp_all add: raise_alert_def bell_count_def notify_def)

lemma bell_count_last [simp]:
  "bell_count kind (w\<lparr>wt_last := l\<rparr>) = bell_count kind w" "bell_count kind (w\<lparr>wt_alerts := n\<rparr>) = bell_count kind w"
  by (simp_all add: bell_count_def)

definition node_verdict :: "fleet_node \<Rightarrow> bool option" where
  "node_verdict n = (if fn_runner n \<noteq> ''agent'' then None else if fn_state n = ''offline'' then Some False
     else if fn_state n = ''live'' then Some True else None)"

lemma keys_apart [simp]: "agent_key i \<noteq> node_key j" "node_key j \<noteq> agent_key i" "agent_key i = agent_key k \<longleftrightarrow> i = k" "node_key i = node_key k \<longleftrightarrow> i = k"
  by (simp_all add: agent_key_def node_key_def)

lemma see_agent_last: "wt_last (see_agent fresh now a w) = (wt_last w)(agent_key (fa_id a) \<mapsto> if fa_online a then ''online'' else ''offline'')"
  by (simp add: see_agent_def Let_def)

lemma see_agent_bell:
  "bell_count ''agent_recovered'' (see_agent fresh now a w) =
     bell_count ''agent_recovered'' w + (if fa_online a \<and> wt_last w (agent_key (fa_id a)) = Some ''offline'' then 1 else 0)"
  "bell_count ''node_recovered'' (see_agent fresh now a w) = bell_count ''node_recovered'' w"
  by (simp_all add: see_agent_def Let_def)

lemma see_node_last: "wt_last (see_node fresh now n w) = (case node_verdict n of None \<Rightarrow> wt_last w
     | Some b \<Rightarrow> (wt_last w)(node_key (fn_id n) \<mapsto> if b then ''live'' else ''offline''))"
  by (simp add: see_node_def Let_def node_verdict_def)

lemma see_node_bell:
  "bell_count ''node_recovered'' (see_node fresh now n w) =
     bell_count ''node_recovered'' w + (if node_verdict n = Some True \<and> wt_last w (node_key (fn_id n)) = Some ''offline'' then 1 else 0)"
  "bell_count ''agent_recovered'' (see_node fresh now n w) = bell_count ''agent_recovered'' w"
  by (simp_all add: see_node_def Let_def node_verdict_def)

lemma see_node_silent: "node_verdict n = None \<Longrightarrow> see_node fresh now n w = w"
  by (auto simp: see_node_def Let_def node_verdict_def split: if_splits)

interpretation machines: edge_reporter "\<lambda>(t, a). see_agent fresh t a" "\<lambda>(t, a). fa_id a" agent_key "\<lambda>(t, a). Some (fa_online a)" "''agent_recovered''" for fresh
  by unfold_locales (auto simp: see_agent_last see_agent_bell dest: map_upd_eqD1 split: if_splits)

interpretation remote_nodes: edge_reporter "\<lambda>(t, n). see_node fresh t n" "\<lambda>(t, n). fn_id n" node_key "\<lambda>(t, n). node_verdict n" "''node_recovered''" for fresh
  by unfold_locales (auto simp: see_node_last see_node_bell see_node_silent dest: map_upd_eqD1 split: if_splits)

definition watch_run :: "(nat \<Rightarrow> id) \<Rightarrow> (time \<times> fleet_agent list \<times> fleet_node list) list \<Rightarrow> watch \<Rightarrow> watch" where
  "watch_run fresh h w = foldl (\<lambda>w (t, as, ns). sweep fresh t as ns w) w h"

definition agent_sightings :: "(time \<times> fleet_agent list \<times> fleet_node list) list \<Rightarrow> (time \<times> fleet_agent) list" where
  "agent_sightings h = concat (map (\<lambda>(t, as, ns). map (Pair t) as) h)"

definition node_sightings :: "(time \<times> fleet_agent list \<times> fleet_node list) list \<Rightarrow> (time \<times> fleet_node) list" where
  "node_sightings h = concat (map (\<lambda>(t, as, ns). map (Pair t) ns) h)"

lemma fold_agents:
  "fold (see_agent fresh t) as w = fold (\<lambda>(t, a). see_agent fresh t a) (map (Pair t) as) w"
  "wt_last (fold (see_agent fresh t) as w) (node_key i) = wt_last w (node_key i)"
  "bell_count ''node_recovered'' (fold (see_agent fresh t) as w) = bell_count ''node_recovered'' w"
  by (induction as arbitrary: w) (simp_all add: see_agent_last see_agent_bell)

lemma fold_nodes:
  "fold (see_node fresh t) ns w = fold (\<lambda>(t, n). see_node fresh t n) (map (Pair t) ns) w"
  "wt_last (fold (see_node fresh t) ns w) (agent_key i) = wt_last w (agent_key i)"
  "bell_count ''agent_recovered'' (fold (see_node fresh t) ns w) = bell_count ''agent_recovered'' w"
  by (induction ns arbitrary: w) (simp_all add: see_node_last see_node_bell split: option.split)

lemma machines_run:
  assumes "finite S" "(\<lambda>(t, a). fa_id a) ` set (agent_sightings h) \<subseteq> S" "wt_last w = Map.empty"
  shows "machines.tracks (bell_count ''agent_recovered'' w) S (agent_sightings h) (watch_run fresh h w)"
  using assms(2)
proof (induction h rule: rev_induct)
  case Nil
  then show ?case using machines.tracks_init [OF assms(3)] by (simp add: agent_sightings_def watch_run_def)
next
  case (snoc e h)
  obtain t as ns where e: "e = (t, as, ns)" by (cases e)
  let ?w = "watch_run fresh h w"
  let ?w1 = "fold (see_agent fresh t) as (?w\<lparr>wt_alerts := 0\<rparr>)"
  have s: "agent_sightings (h @ [e]) = agent_sightings h @ map (Pair t) as" by (simp add: agent_sightings_def e)
  have run: "watch_run fresh (h @ [e]) w = fold (see_node fresh t) ns ?w1" by (simp add: watch_run_def e sweep_def)
  have "machines.tracks (bell_count ''agent_recovered'' w) S (agent_sightings h) (?w\<lparr>wt_alerts := 0\<rparr>)"
    by (rule machines.tracks_other [OF snoc.IH]) (use snoc.prems s in auto)
  then have "machines.tracks (bell_count ''agent_recovered'' w) S (agent_sightings h @ map (Pair t) as) ?w1"
    unfolding fold_agents(1) by (rule machines.tracks_fold) (use assms(1) snoc.prems s in auto)
  then show ?case unfolding run s by (rule machines.tracks_other) (simp_all add: fold_nodes(2,3))
qed

lemma nodes_run:
  assumes "finite S" "(\<lambda>(t, n). fn_id n) ` set (node_sightings h) \<subseteq> S" "wt_last w = Map.empty"
  shows "remote_nodes.tracks (bell_count ''node_recovered'' w) S (node_sightings h) (watch_run fresh h w)"
  using assms(2)
proof (induction h rule: rev_induct)
  case Nil
  then show ?case using remote_nodes.tracks_init [OF assms(3)] by (simp add: node_sightings_def watch_run_def)
next
  case (snoc e h)
  obtain t as ns where e: "e = (t, as, ns)" by (cases e)
  let ?w = "watch_run fresh h w"
  let ?w1 = "fold (see_agent fresh t) as (?w\<lparr>wt_alerts := 0\<rparr>)"
  have s: "node_sightings (h @ [e]) = node_sightings h @ map (Pair t) ns" by (simp add: node_sightings_def e)
  have run: "watch_run fresh (h @ [e]) w = fold (see_node fresh t) ns ?w1" by (simp add: watch_run_def e sweep_def)
  have "remote_nodes.tracks (bell_count ''node_recovered'' w) S (node_sightings h) ?w1"
    by (rule remote_nodes.tracks_other [OF snoc.IH]) (use snoc.prems s in \<open>auto simp: fold_agents(2,3)\<close>)
  then show ?case unfolding run s fold_nodes(1) by (rule remote_nodes.tracks_fold) (use assms(1) snoc.prems s in auto)
qed

text \<open>
  Claim C34. Recoveries are reported exactly: over any history of sweeps since the manager started, the bell gains as many machine recoveries
  as there are, over all machines, sightings up that follow a sighting down of the same machine; and as many node recoveries as there are
  such pairs for the nodes that run on machines, their transitional states left out.
\<close>

theorem recoveries_reported_exactly:
  "bell_count ''agent_recovered'' (watch_run fresh h (fresh_watch d)) = bell_count ''agent_recovered'' (fresh_watch d) +
     int (\<Sum>i\<in>(\<lambda>(t, a). fa_id a) ` set (agent_sightings h). comebacks (seen (\<lambda>(t, a). Some (fa_online a)) (\<lambda>(t, a). fa_id a) i (agent_sightings h))) \<and>
   bell_count ''node_recovered'' (watch_run fresh h (fresh_watch d)) = bell_count ''node_recovered'' (fresh_watch d) +
     int (\<Sum>i\<in>(\<lambda>(t, n). fn_id n) ` set (node_sightings h). comebacks (seen (\<lambda>(t, n). node_verdict n) (\<lambda>(t, n). fn_id n) i (node_sightings h)))"
  using machines_run [OF _ order.refl, of h "fresh_watch d" fresh] nodes_run [OF _ order.refl, of h "fresh_watch d" fresh]
  by (simp add: machines.tracks_def remote_nodes.tracks_def fresh_watch_def)

section \<open>A steady fleet\<close>

lemma see_agent_again:
  "wt_last w (agent_key (fa_id a)) = Some (if fa_online a then ''online'' else ''offline'') \<Longrightarrow> see_agent fresh now a w = w"
  by (cases w) (simp add: see_agent_def Let_def fun_upd_idem)

lemma see_node_again:
  "\<forall>b. node_verdict n = Some b \<longrightarrow> wt_last w (node_key (fn_id n)) = Some (if b then ''live'' else ''offline'') \<Longrightarrow> see_node fresh now n w = w"
  by (cases w) (auto simp: see_node_def Let_def node_verdict_def fun_upd_idem split: if_splits)

lemma fold_agents_known:
  "distinct (map fa_id as) \<Longrightarrow> a \<in> set as \<Longrightarrow>
     wt_last (fold (see_agent fresh t) as w) (agent_key (fa_id a)) = Some (if fa_online a then ''online'' else ''offline'')"
proof (induction as arbitrary: w rule: rev_induct)
  case (snoc x xs)
  then show ?case by (cases "a = x") (auto simp: see_agent_last image_iff)
qed simp

lemma fold_nodes_known:
  "distinct (map fn_id ns) \<Longrightarrow> n \<in> set ns \<Longrightarrow> node_verdict n = Some b \<Longrightarrow>
     wt_last (fold (see_node fresh t) ns w) (node_key (fn_id n)) = Some (if b then ''live'' else ''offline'')"
proof (induction ns arbitrary: w rule: rev_induct)
  case (snoc x xs)
  then show ?case by (cases "n = x") (auto simp: see_node_last image_iff split: option.split)
qed simp

lemma fold_id: "(\<And>x. x \<in> set xs \<Longrightarrow> f x w = w) \<Longrightarrow> fold f xs w = w"
  by (induction xs) simp_all

text \<open>
  A steady fleet is quiet: a sweep that sees the same machines and nodes in the same states as the sweep before raises no
  alert and leaves the bell and what the watchdog remembers as they are.
\<close>

theorem steady_fleet_is_quiet:
  assumes "distinct (map fa_id agents)" "distinct (map fn_id nodes)"
  shows "sweep fresh later agents nodes (sweep fresh now agents nodes w) = (sweep fresh now agents nodes w)\<lparr>wt_alerts := 0\<rparr>"
proof -
  let ?w = "(sweep fresh now agents nodes w)\<lparr>wt_alerts := 0\<rparr>"
  have a: "fold (see_agent fresh later) agents ?w = ?w"
    by (rule fold_id, rule see_agent_again) (simp add: sweep_def fold_nodes(2) fold_agents_known assms)
  have n: "fold (see_node fresh later) nodes ?w = ?w"
    by (rule fold_id, rule see_node_again) (simp add: sweep_def fold_nodes_known assms)
  show ?thesis unfolding sweep_def [of fresh later] a n ..
qed

definition box :: "bool \<Rightarrow> fleet_agent" where "box b = \<lparr>fa_id = ''agent-a1'', fa_hostname = ''box-1'', fa_online = b\<rparr>"

definition ops_node :: "id \<Rightarrow> string \<Rightarrow> fleet_node" where
  "ops_node i st = \<lparr>fn_id = i, fn_state = st, fn_runner = ''agent'', fn_host = Some ''agent-a1'', fn_lastError = None\<rparr>"

lemma steady_fleet_is_quiet_witness:
  "sweep (\<lambda>n. show_nat n) 60000 [box False] [ops_node ''ops01'' ''offline''] (sweep (\<lambda>n. show_nat n) 30000 [box False] [ops_node ''ops01'' ''offline''] (fresh_watch empty_db)) =
    (sweep (\<lambda>n. show_nat n) 30000 [box False] [ops_node ''ops01'' ''offline''] (fresh_watch empty_db))\<lparr>wt_alerts := 0\<rparr>"
  by (rule steady_fleet_is_quiet) simp_all

section \<open>What is seen as read\<close>

text \<open>
  A restart alerts again: one machine that stays down across a restart of the manager gets a second alert although the first is
  unread, because the alert is written with plain parentheses and looked for with full-width ones.
\<close>

theorem restart_alerts_again:
  "bell_count ''agent_offline'' (sweep (\<lambda>n. show_nat n) 60000 [box False] []
     (fresh_watch (wt_db (sweep (\<lambda>n. show_nat n) 30000 [box False] [] (fresh_watch empty_db))))) = 2"
  by code_simp

text \<open>
  An unread alert of one node hides the fault of another: with an unread alert for ops10 in the bell, the fault of ops1 is
  never reported, because its name is looked for as a part of the text.
\<close>

theorem longer_name_hides_fault:
  "map ntf_body (db_notifications (wt_db (watch_run (\<lambda>n. show_nat n)
      [(30000, [], [ops_node ''ops1'' ''live'', ops_node ''ops10'' ''offline'']),
       (60000, [], [ops_node ''ops1'' ''offline'', ops_node ''ops10'' ''offline''])] (fresh_watch empty_db)))) =
   [''node ops10 is down (agent agent-a1): probe failed'']"
  by code_simp

end
