(* ===== verification/Setup.thy ===== *)
theory Setup
  imports Config Auth Brain
begin

text \<open>
  Setting up a manager (\<^verbatim>\<open>cli/setup.ts\<close>): the merge of the secrets into \<^verbatim>\<open>.env\<close>, the command line, the workspaces kept from an old
  configuration, the preflight decision and the configuration file that is generated.  What a probe of the machine answers (the
  versions of the tools, the free ports, the files that exist) is given to the operations; the random secrets are arguments. Ports are
  written in decimal digits.
\<close>

section \<open>The environment file\<close>

definition key_start :: "char \<Rightarrow> bool" where "key_start c \<longleftrightarrow> Patterns.is_upper c \<or> c = CHR ''_''"
definition key_char :: "char \<Rightarrow> bool" where "key_char c \<longleftrightarrow> key_start c \<or> Patterns.is_digit c"

text \<open>\<^verbatim>\<open>/^([A-Z_][A-Z0-9_]*)=(.*)$/\<close> on the trimmed line; the dot matches no line terminator.\<close>

definition env_line :: "string \<Rightarrow> (string \<times> string) option" where
  "env_line l = (let t = js_trim l; k = takeWhile key_char t in
     (case dropWhile key_char t of
        c # v \<Rightarrow> if c = CHR ''='' \<and> k \<noteq> [] \<and> key_start (hd k) \<and> CR \<notin> set v \<and> LF \<notin> set v then Some (k, v) else None
      | [] \<Rightarrow> None))"

text \<open>An object as an association list: a key that is there keeps its place.\<close>

fun assign :: "string \<Rightarrow> 'v \<Rightarrow> (string \<times> 'v) list \<Rightarrow> (string \<times> 'v) list" where
  "assign k v [] = [(k, v)]"
| "assign k v ((a, b) # r) = (if a = k then (a, v) # r else (a, b) # assign k v r)"

definition env_values :: "string list \<Rightarrow> (string \<times> string) list" where
  "env_values lines = fold (\<lambda>l acc. case env_line l of Some (k, v) \<Rightarrow> if v = [] then acc else assign k v acc | None \<Rightarrow> acc) lines []"

definition merged_values :: "(string \<times> string) list \<Rightarrow> (string \<times> string) list \<Rightarrow> string list \<Rightarrow> (string \<times> string) list" where
  "merged_values values existing forced =
     fold (\<lambda>k acc. case map_of values k of None \<Rightarrow> acc | Some v \<Rightarrow> assign k v acc) forced
       (fold (\<lambda>(k, v). assign k v) existing values)"

definition rewrite_line :: "(string \<times> string) list \<Rightarrow> string \<Rightarrow> string" where
  "rewrite_line merged l = (case env_line l of
     None \<Rightarrow> l
   | Some (k, v) \<Rightarrow> (case map_of merged k of
       None \<Rightarrow> l
     | Some x \<Rightarrow> if x = [] then l else k @ ''='' @ x))"

definition is_handled :: "(string \<times> string) list \<Rightarrow> string list \<Rightarrow> string \<Rightarrow> bool" where
  "is_handled merged lines k \<longleftrightarrow> list_ex (\<lambda>l. case env_line l of None \<Rightarrow> False
     | Some (k2, v) \<Rightarrow> k2 = k \<and> (case map_of merged k of None \<Rightarrow> False | Some x \<Rightarrow> x \<noteq> [])) lines"

definition merged_lines :: "(string \<times> string) list \<Rightarrow> string list \<Rightarrow> string list" where
  "merged_lines merged lines = map (rewrite_line merged) lines @
     map (\<lambda>(k, v). k @ ''='' @ v) (filter (\<lambda>(k, v). \<not> is_handled merged lines k \<and> v \<noteq> []) merged)"

definition env_lines_of :: "string option \<Rightarrow> string list" where
  "env_lines_of text = (case text of None \<Rightarrow> [] | Some t \<Rightarrow> split_lines t)"

definition ended_text :: "string \<Rightarrow> string" where
  "ended_text t = (if t \<noteq> [] \<and> last t = LF then t else t @ [LF])"

text \<open>The new text of the file and the merged values.\<close>

definition mergeEnv :: "string option \<Rightarrow> (string \<times> string) list \<Rightarrow> string list \<Rightarrow> string \<times> (string \<times> string) list" where
  "mergeEnv text values forced =
     (let lines = env_lines_of text; merged = merged_values values (env_values lines) forced in
      (ended_text (Auth.join_with [LF] (merged_lines merged lines)), merged))"

section \<open>What the merge does to a file\<close>

lemma map_of_assign [simp]: "map_of (assign k v xs) = (map_of xs)(k \<mapsto> v)"
  by (induction xs) (auto simp: fun_eq_iff)

lemma trim_snoc_space: "is_space c \<Longrightarrow> js_trim (l @ [c]) = js_trim l"
proof (cases "dropWhile is_space l")
  case Nil
  assume "is_space c"
  with Nil have "dropWhile is_space (l @ [c]) = []" by (simp add: dropWhile_append)
  then show ?thesis by (simp only: js_trim_def Nil)
next
  case (Cons a b)
  assume "is_space c"
  moreover have "dropWhile is_space (l @ [c]) = dropWhile is_space l @ [c]" by (metis Cons dropWhile_append dropWhile_eq_Nil_conv list.distinct(1))
  ultimately show ?thesis by (simp add: js_trim_def)
qed

lemma trim_idem [simp]: "js_trim (js_trim l) = js_trim l"
proof -
  have r: "rev (dropWhile is_space (rev t)) = [] \<or> \<not> is_space (hd (rev (dropWhile is_space (rev t))))"
    if t: "t = [] \<or> \<not> is_space (hd t)" for t
    using t by (cases t) (simp_all add: dropWhile_append)
  have h: "dropWhile is_space l = [] \<or> \<not> is_space (hd (dropWhile is_space l))"
    using hd_dropWhile by blast
  have d: "dropWhile is_space x = x" if "x = [] \<or> \<not> is_space (hd x)" for x using that by (cases x) simp_all
  show ?thesis unfolding js_trim_def d [OF r [OF h]] by simp
qed

lemma env_line_trim: "js_trim l = js_trim l2 \<Longrightarrow> env_line l = env_line l2"
  by (simp add: env_line_def)

lemma env_line_Some:
  assumes "env_line l = Some (k, v)"
  shows "js_trim l = k @ CHR ''='' # v" "list_all key_char k" "k \<noteq> []" "key_start (hd k)" "CR \<notin> set v" "LF \<notin> set v"
proof -
  let ?t = "js_trim l"
  have t: "takeWhile key_char ?t @ dropWhile key_char ?t = ?t" by simp
  from assms show "js_trim l = k @ CHR ''='' # v"
    by (subst t [symmetric]) (auto simp: env_line_def Let_def simp del: takeWhile_dropWhile_id split: list.splits if_splits)
  from assms show "list_all key_char k" "k \<noteq> []" "key_start (hd k)" "CR \<notin> set v" "LF \<notin> set v"
    by (auto simp: env_line_def Let_def list_all_iff dest: set_takeWhileD split: list.splits if_splits)
qed

definition entry_text :: "string \<times> string \<Rightarrow> string" where
  "entry_text e = (case e of (k, v) \<Rightarrow> k @ ''='' @ v)"

definition plain_entry :: "string \<times> string \<Rightarrow> bool" where
  "plain_entry e \<longleftrightarrow> env_line (entry_text e) = Some e \<and> snd e \<noteq> []"

lemma env_line_plain:
  assumes "env_line l = Some (k, v)" "v \<noteq> []"
  shows "plain_entry (k, v)"
proof -
  have "env_line (js_trim l) = env_line l" by (rule env_line_trim) simp
  then show ?thesis using assms env_line_Some(1) [OF assms(1)] by (simp add: plain_entry_def entry_text_def)
qed

lemma key_char_no_LF: "key_char c \<Longrightarrow> c \<noteq> LF"
  by (auto simp: key_char_def key_start_def Patterns.is_upper_def Patterns.is_digit_def in_range_def LF_def)

lemma plain_no_LF:
  assumes "plain_entry e"
  shows "LF \<notin> set (entry_text e)"
proof -
  obtain k v where e: "e = (k, v)" by (cases e)
  have l: "env_line (entry_text e) = Some (k, v)" using assms by (simp add: plain_entry_def e)
  have "LF \<noteq> CHR ''=''" by (simp add: LF_def)
  then show ?thesis using env_line_Some(2,6) [OF l] key_char_no_LF by (auto simp: e entry_text_def list_all_iff)
qed

lemma split_joined_lines:
  "ls \<noteq> [] \<Longrightarrow> list_all (\<lambda>l. LF \<notin> set l) ls \<Longrightarrow> map js_trim (split_lines (Auth.join_with [LF] ls)) = map js_trim ls"
proof (induction ls rule: induct_list012)
  case (2 l)
  then show ?case by (simp add: split_single)
next
  case (3 l m ls)
  show ?case
  proof (cases "l = [] \<or> last l \<noteq> CR")
    case True
    then show ?thesis using 3 by (simp add: split_first_LF)
  next
    case False
    then obtain l0 where l: "l = l0 @ [CR]" by (metis append_butlast_last_id)
    have "split_lines (l0 @ CR # LF # Auth.join_with [LF] (m # ls)) = l0 # split_lines (Auth.join_with [LF] (m # ls))"
      using 3(4) by (intro split_first_CRLF) (simp add: l)
    moreover have "js_trim (l0 @ [CR]) = js_trim l0" by (rule trim_snoc_space) (simp add: is_space_def CR_def)
    ultimately show ?thesis using 3 by (simp add: l)
  qed
qed simp

lemma env_values_cong: "map js_trim ls = map js_trim ms \<Longrightarrow> env_values ls = env_values ms"
proof -
  have f: "fold (\<lambda>l acc. case env_line l of Some (k, v) \<Rightarrow> if v = [] then acc else assign k v acc | None \<Rightarrow> acc) xs =
      fold (\<lambda>l acc. case env_line l of Some (k, v) \<Rightarrow> if v = [] then acc else assign k v acc | None \<Rightarrow> acc) (map js_trim xs)" for xs
  proof (induction xs)
    case (Cons l xs)
    have "env_line (js_trim l) = env_line l" by (rule env_line_trim) simp
    then show ?case using Cons by simp
  qed simp
  assume "map js_trim ls = map js_trim ms"
  then show ?thesis unfolding env_values_def f [of ls] f [of ms] by simp
qed

lemma env_values_blank [simp]: "env_values (ls @ [[]]) = env_values ls"
  by (simp add: env_values_def env_line_def js_trim_def)

lemma join_snoc: "ls \<noteq> [] \<Longrightarrow> Auth.join_with [LF] (ls @ [[]]) = Auth.join_with [LF] ls @ [LF]"
  by (induction ls rule: induct_list012) simp_all

lemma env_read_join:
  assumes "list_all (\<lambda>l. LF \<notin> set l) ls"
  shows "env_values (split_lines (ended_text (Auth.join_with [LF] ls))) = env_values ls"
proof (cases "ls = []")
  case True
  then show ?thesis by (simp add: ended_text_def env_values_def env_line_def js_trim_def)
next
  case False
  have "env_values (split_lines (Auth.join_with [LF] ls)) = env_values ls"
    by (rule env_values_cong) (rule split_joined_lines [OF False assms])
  moreover have "env_values (split_lines (Auth.join_with [LF] ls @ [LF])) = env_values (ls @ [[]])"
    by (rule env_values_cong) (use split_joined_lines [of "ls @ [[]]"] False assms in \<open>simp add: join_snoc\<close>)
  ultimately show ?thesis by (simp add: ended_text_def)
qed

lemma assign_fst: "map fst (assign k v xs) = (if k \<in> fst ` set xs then map fst xs else map fst xs @ [k])"
  by (induction xs) (auto, force)

lemma assign_keys: "distinct (map fst (assign k v xs)) \<longleftrightarrow> distinct (map fst xs)"
  by (simp add: assign_fst)

lemma assign_all:
  "distinct (map fst xs) \<Longrightarrow> map_of (fold (\<lambda>(k, v). assign k v) xs ys) = map_of ys ++ map_of xs"
  "distinct (map fst ys) \<Longrightarrow> distinct (map fst (fold (\<lambda>(k, v). assign k v) xs ys))"
proof (induction xs arbitrary: ys)
  case (Cons e xs)
  obtain k v where e: "e = (k, v)" by (cases e)
  { case 1
    then have "map_of xs k = None" by (auto simp: e map_of_eq_None_iff)
    then show ?case using Cons.IH(1) [of "assign k v ys"] 1 by (auto simp: e fun_eq_iff map_add_def split: option.split) }
  { case 2
    then show ?case using Cons.IH(2) [of "assign k v ys"] by (simp add: e assign_keys) }
qed simp_all

lemma env_values_snoc:
  "env_values (ls @ [l]) = (case env_line l of Some (k, v) \<Rightarrow> if v = [] then env_values ls else assign k v (env_values ls) | None \<Rightarrow> env_values ls)"
  unfolding env_values_def by simp

lemma env_values_distinct: "distinct (map fst (env_values ls))"
  by (induction ls rule: rev_induct) (auto simp: env_values_snoc assign_keys simp: env_values_def split: option.split)

lemma env_values_plain: "map_of (env_values ls) k = Some v \<Longrightarrow> plain_entry (k, v)"
proof (induction ls rule: rev_induct)
  case (snoc l ls)
  then show ?case using env_line_plain by (auto simp: env_values_snoc split: option.splits if_splits)
qed (simp add: env_values_def)

text \<open>A file whose lines agree on their values is read as those values.\<close>

lemma env_values_agree:
  "\<forall>l \<in> set ls. \<forall>k v. env_line l = Some (k, v) \<longrightarrow> v \<noteq> [] \<longrightarrow> M k = Some v \<Longrightarrow>
   map_of (env_values ls) k = (if \<exists>l \<in> set ls. \<exists>v. env_line l = Some (k, v) \<and> v \<noteq> [] then M k else None)"
proof (induction ls rule: rev_induct)
  case (snoc l ls)
  then show ?case by (auto simp: env_values_snoc split: option.split)
qed (simp add: env_values_def)

lemma merged_values_map:
  "map_of (merged_values values (env_values ls) forced) k =
     (if k \<in> set forced \<and> map_of values k \<noteq> None then map_of values k
      else (case map_of (env_values ls) k of Some v \<Rightarrow> Some v | None \<Rightarrow> map_of values k))"
proof -
  have f: "map_of (fold (\<lambda>k acc. case map_of values k of None \<Rightarrow> acc | Some v \<Rightarrow> assign k v acc) forced acc) k =
      (if k \<in> set forced \<and> map_of values k \<noteq> None then map_of values k else map_of acc k)" for acc
    by (induction forced arbitrary: acc) (auto split: option.split)
  show ?thesis unfolding merged_values_def f assign_all(1) [OF env_values_distinct] by (auto simp: map_add_def split: option.split)
qed

lemma merged_values_distinct: "distinct (map fst values) \<Longrightarrow> distinct (map fst (merged_values values existing forced))"
proof -
  assume d: "distinct (map fst values)"
  have f: "distinct (map fst acc) \<Longrightarrow> distinct (map fst (fold (\<lambda>k acc. case map_of values k of None \<Rightarrow> acc | Some v \<Rightarrow> assign k v acc) forced acc))" for acc
    by (induction forced arbitrary: acc) (auto simp: assign_keys split: option.split)
  show ?thesis unfolding merged_values_def by (rule f) (rule assign_all(2) [OF d])
qed

lemma merged_values_plain:
  "list_all plain_entry values \<Longrightarrow> map_of (merged_values values (env_values ls) forced) k = Some v \<Longrightarrow> plain_entry (k, v)"
  using env_values_plain [of ls k v] map_of_SomeD [of "values" k v]
  by (auto simp: merged_values_map list_all_iff split: if_splits option.splits)

lemma rewrite_line_value:
  assumes M: "\<And>k v. map_of merged k = Some v \<Longrightarrow> plain_entry (k, v)"
  shows "env_line (rewrite_line merged l) = (case env_line l of None \<Rightarrow> None | Some (k, v) \<Rightarrow> Some (k, case map_of merged k of None \<Rightarrow> v | Some x \<Rightarrow> x))"
  using M by (auto simp: rewrite_line_def plain_entry_def entry_text_def split: option.split)

lemma rewrite_line_no_LF: "LF \<notin> set l \<Longrightarrow> (\<And>k v. map_of merged k = Some v \<Longrightarrow> plain_entry (k, v)) \<Longrightarrow> LF \<notin> set (rewrite_line merged l)"
proof -
  assume l: "LF \<notin> set l" and M: "\<And>k v. map_of merged k = Some v \<Longrightarrow> plain_entry (k, v)"
  have "LF \<notin> set (k @ ''='' @ v)" if "map_of merged k = Some v" for k v
    using plain_no_LF [OF M [OF that]] by (simp add: entry_text_def)
  with l show ?thesis by (auto simp: rewrite_line_def split: option.split)
qed

text \<open>The values that a file gives to its reader.\<close>

definition env_read :: "string option \<Rightarrow> string \<Rightarrow> string option" where
  "env_read text = map_of (env_values (env_lines_of text))"

lemma merged_lines_read:
  assumes d: "distinct (map fst merged)" and M: "\<And>k v. map_of merged k = Some v \<Longrightarrow> plain_entry (k, v)"
    and all: "\<And>k v. map_of (env_values lines) k = Some v \<Longrightarrow> map_of merged k \<noteq> None"
  shows "map_of (env_values (merged_lines merged lines)) k = map_of merged k"
proof -
  let ?new = "merged_lines merged lines"
  have in_values: "\<exists>x. map_of (env_values lines) a = Some x" if "l \<in> set lines" "env_line l = Some (a, v)" "v \<noteq> []" for l a v
    using that by (induction lines rule: rev_induct) (auto simp: env_values_snoc split: option.split)
  have agree: "\<forall>l \<in> set ?new. \<forall>k v. env_line l = Some (k, v) \<longrightarrow> v \<noteq> [] \<longrightarrow> map_of merged k = Some v"
  proof (intro ballI allI impI)
    fix l a v assume l: "l \<in> set ?new" "env_line l = Some (a, v)" "v \<noteq> []"
    then consider (old) l0 where "l0 \<in> set lines" "l = rewrite_line merged l0" | (extra) b x where "(b, x) \<in> set merged" "l = entry_text (b, x)"
      by (auto simp: merged_lines_def entry_text_def)
    then show "map_of merged a = Some v"
    proof cases
      case old
      then show ?thesis using l(2,3) in_values [OF old(1)] all by (force simp: rewrite_line_value [OF M] split: option.splits)
    next
      case extra
      then have m: "map_of merged b = Some x" using d by simp
      then show ?thesis using M [OF m] l(2) extra(2) by (simp add: plain_entry_def)
    qed
  qed
  have "\<exists>l \<in> set ?new. \<exists>x. env_line l = Some (k, x) \<and> x \<noteq> []" if m: "map_of merged k = Some v" for v
  proof (cases "is_handled merged lines k")
    case True
    then obtain l w where l: "l \<in> set lines" "env_line l = Some (k, w)" by (auto simp: is_handled_def list_ex_iff split: option.splits)
    show ?thesis
      by (rule bexI [of _ "rewrite_line merged l"]) (use l m M [OF m] in \<open>auto simp: rewrite_line_value [OF M] plain_entry_def merged_lines_def\<close>)
  next
    case False
    have "entry_text (k, v) \<in> set ?new"
      using False M [OF m] map_of_SomeD [OF m] by (force simp: merged_lines_def entry_text_def plain_entry_def)
    then show ?thesis using M [OF m] by (auto simp: plain_entry_def)
  qed
  then show ?thesis using env_values_agree [OF agree, of k] by (cases "map_of merged k") auto
qed


definition sample_values :: "(string \<times> string) list" where
  "sample_values = [(''GW_KEY_A'', ''k1''), (''SESSION_SECRET'', ''s1'')]"


section \<open>The command line\<close>

record setup_options =
  so_personalWorkspace :: string
  so_brainWorkspace :: string
  so_personalPort :: int
  so_brainPort :: int
  so_dshHome :: string
  so_nodesHome :: string
  so_dshBin :: "string option"
  so_installProfiles :: bool
  so_gatewayLocal :: "string option"
  so_force :: bool
  so_skipVersionCheck :: bool

record parsed_args =
  pa_options :: setup_options
  pa_help :: bool
  pa_explicitPersonal :: bool
  pa_explicitBrain :: bool

text \<open>The defaults: the home directory, \<^verbatim>\<open>DSH_HOME\<close> and the force flag that npm passes in the environment.\<close>

definition default_options :: "string \<Rightarrow> string option \<Rightarrow> bool \<Rightarrow> setup_options" where
  "default_options user dshHome npmForce = \<lparr>so_personalWorkspace = user @ ''/.dac/workspaces/personal'', so_brainWorkspace = user @ ''/.dac/brain-workspace'',
     so_personalPort = 3081, so_brainPort = 3082, so_dshHome = (case dshHome of None \<Rightarrow> user @ ''/.dsh'' | Some h \<Rightarrow> h),
     so_nodesHome = user @ ''/.dac'', so_dshBin = None, so_installProfiles = True, so_gatewayLocal = None, so_force = npmForce, so_skipVersionCheck = False\<rparr>"

definition port_of :: "string list \<Rightarrow> nat \<Rightarrow> int \<Rightarrow> int" where
  "port_of parts n d = (if n < length parts then (case js_number (parts ! n) of Some p \<Rightarrow> if 0 < p then p else d | None \<Rightarrow> d) else d)"

definition value_args :: "string list" where
  "value_args = [''--workspace'', ''--brain-workspace'', ''--ports'', ''--dsh-home'', ''--nodes-home'', ''--dsh-bin'', ''--gateway-local'']"

definition set_value :: "string \<Rightarrow> string \<Rightarrow> parsed_args \<Rightarrow> parsed_args" where
  "set_value arg v p = (let opts = pa_options p in
     if arg = ''--workspace'' then p\<lparr>pa_options := opts\<lparr>so_personalWorkspace := v\<rparr>, pa_explicitPersonal := True\<rparr>
     else if arg = ''--brain-workspace'' then p\<lparr>pa_options := opts\<lparr>so_brainWorkspace := v\<rparr>, pa_explicitBrain := True\<rparr>
     else if arg = ''--ports'' then (let parts = split_on CHR '','' v in
       p\<lparr>pa_options := opts\<lparr>so_personalPort := port_of parts 0 (so_personalPort opts), so_brainPort := port_of parts 1 (so_brainPort opts)\<rparr>\<rparr>)
     else if arg = ''--dsh-home'' then p\<lparr>pa_options := opts\<lparr>so_dshHome := v\<rparr>\<rparr>
     else if arg = ''--nodes-home'' then p\<lparr>pa_options := opts\<lparr>so_nodesHome := v\<rparr>\<rparr>
     else if arg = ''--dsh-bin'' then p\<lparr>pa_options := opts\<lparr>so_dshBin := Some v\<rparr>\<rparr>
     else p\<lparr>pa_options := opts\<lparr>so_gatewayLocal := Some v\<rparr>\<rparr>)"

definition set_flag :: "string \<Rightarrow> parsed_args \<Rightarrow> parsed_args" where
  "set_flag arg p = (let opts = pa_options p in
     if arg = ''--help'' \<or> arg = ''-h'' then p\<lparr>pa_help := True\<rparr>
     else if arg = ''--no-install'' then p\<lparr>pa_options := opts\<lparr>so_installProfiles := False\<rparr>\<rparr>
     else if arg = ''--force'' then p\<lparr>pa_options := opts\<lparr>so_force := True\<rparr>\<rparr>
     else if arg = ''--skip-version-check'' then p\<lparr>pa_options := opts\<lparr>so_skipVersionCheck := True\<rparr>\<rparr>
     else p)"

fun read_args :: "parsed_args \<Rightarrow> string list \<Rightarrow> parsed_args" where
  "read_args p [] = p"
| "read_args p [a] = (if a \<in> set value_args then set_value a [] p else set_flag a p)"
| "read_args p (a # v # rest) = (if a \<in> set value_args then read_args (set_value a v p) rest else read_args (set_flag a p) (v # rest))"

definition parseArgs :: "string \<Rightarrow> string option \<Rightarrow> bool \<Rightarrow> string list \<Rightarrow> parsed_args" where
  "parseArgs user dshHome npmForce argv =
     read_args \<lparr>pa_options = default_options user dshHome npmForce, pa_help = False, pa_explicitPersonal = False, pa_explicitBrain = False\<rparr> argv"

section \<open>Workspaces kept from the old configuration\<close>

definition old_workspace :: "yaml option \<Rightarrow> string \<Rightarrow> string option" where
  "old_workspace old agent = (case yget (yget (yget old ''agents'') agent) ''workspace'' of
     Some (YStr s) \<Rightarrow> if s = [] then None else Some s | _ \<Rightarrow> None)"

definition adoptOldWorkspaces :: "yaml option \<Rightarrow> parsed_args \<Rightarrow> parsed_args" where
  "adoptOldWorkspaces old p = (let opts = pa_options p;
       o1 = (if pa_explicitPersonal p then opts else case old_workspace old ''personal'' of None \<Rightarrow> opts | Some w \<Rightarrow> opts\<lparr>so_personalWorkspace := w\<rparr>);
       o2 = (if pa_explicitBrain p then o1 else case old_workspace old ''brain'' of None \<Rightarrow> o1 | Some w \<Rightarrow> o1\<lparr>so_brainWorkspace := w\<rparr>)
     in p\<lparr>pa_options := o2\<rparr>)"

datatype setup_refusal = ConfigExists | NoCredentials | NoDsh | NoGit | WrongDshVersion | PortsInUse "int list"

text \<open>The old file, if there is one: its contents, or nothing if it cannot be read.\<close>

definition checkPreconditions :: "yaml option option \<Rightarrow> bool \<Rightarrow> parsed_args \<Rightarrow> setup_refusal + parsed_args" where
  "checkPreconditions oldFile credentials p =
     (if oldFile \<noteq> None \<and> \<not> so_force (pa_options p) then Inl ConfigExists
      else (let p1 = (case oldFile of Some (Some old) \<Rightarrow> adoptOldWorkspaces (Some old) p | _ \<Rightarrow> p)
            in if credentials then Inr p1 else Inl NoCredentials))"

section \<open>The preflight\<close>

record machine_probe =
  mp_dshBin :: "string option"
  mp_dsh :: "string option"
  mp_git :: "string option"
  mp_portFree :: "int \<Rightarrow> bool"

definition selfCheck :: "machine_probe \<Rightarrow> setup_options \<Rightarrow> setup_refusal + string" where
  "selfCheck m opts = (case mp_dshBin m of
     None \<Rightarrow> Inl NoDsh
   | Some bin \<Rightarrow>
       if mp_git m = None then Inl NoGit
       else if \<not> isSupportedDsh (mp_dsh m) \<and> \<not> so_skipVersionCheck opts then Inl WrongDshVersion
       else (let busy = filter (\<lambda>p. \<not> mp_portFree m p) [8080, so_personalPort opts, so_brainPort opts]
             in if busy \<noteq> [] then Inl (PortsInUse busy) else Inr bin))"

section \<open>The generated files\<close>

definition setupEnvValues :: "string \<Rightarrow> string \<Rightarrow> string \<Rightarrow> string \<Rightarrow> string \<Rightarrow> (string \<times> string) list" where
  "setupEnvValues secret token password personalKey brainKey =
     [(''SESSION_SECRET'', secret), (''GW_KEY_A'', personalKey), (''GW_KEY_B'', brainKey), (''BRAIN_TOKEN'', token), (''MANAGER_INITIAL_PASSWORD'', password)]"

record manager_file_options =
  mo_personalWorkspace :: string
  mo_brainWorkspace :: string
  mo_personalPort :: int
  mo_brainPort :: int
  mo_personalBin :: string
  mo_brainBin :: string
  mo_personalProfile :: string
  mo_brainProfile :: string
  mo_personalHome :: string
  mo_brainHome :: string
  mo_brainToken :: string

text \<open>The program of a node is the one installed in its profile, or the global one: \<open>mo_personalBin\<close> and \<open>mo_brainBin\<close>.\<close>

definition local_url :: "int \<Rightarrow> string" where
  "local_url port = ''http://127.0.0.1:'' @ show_int port"

definition setup_endpoint :: "int \<Rightarrow> string \<Rightarrow> string \<Rightarrow> string \<Rightarrow> string \<Rightarrow> (string \<times> string) list \<Rightarrow> yaml" where
  "setup_endpoint port bin profile home keyRef extraEnv = YMap [(''url'', YStr (local_url port)), (''driver'', YStr ''apiproxy''), (''prefix'', YStr ''/api''),
     (''key_ref'', YStr []), (''sandbox_base'', YStr (local_url port @ ''/api-gw/v1'')), (''sandbox_key_ref'', YStr keyRef),
     (''spawn'', YMap [(''managed'', YBool True), (''command'', YStr ''node''), (''args'', YSeq [YStr bin, YStr ''--profile'', YStr profile, YStr ''--no-open'']),
        (''ready_timeout_ms'', YNum 30000), (''detached'', YBool False), (''runner'', YStr ''process''),
        (''restart'', YMap [(''max_attempts'', YNum 3), (''base_delay_ms'', YNum 1000), (''max_delay_ms'', YNum 30000)]),
        (''env'', YMap ((''DSH_HOME'', YStr home) # map (\<lambda>(k, v). (k, YStr v)) extraEnv))])]"

definition setup_agent :: "string \<Rightarrow> string \<Rightarrow> string \<Rightarrow> yaml" where
  "setup_agent name ep ws = YMap [(''name'', YStr name), (''endpoint'', YStr ep), (''workspace'', YStr ws), (''public'', YBool False),
     (''preset'', YStr ''standard''), (''sandbox_mode'', YStr ''workspace-write'')]"

definition setup_rate :: "rat \<Rightarrow> rat \<Rightarrow> rat \<Rightarrow> yaml" where
  "setup_rate i opts c = YMap [(''input'', YNum i), (''output'', YNum opts), (''cache_read'', YNum c)]"

definition setup_pricing :: yaml where
  "setup_pricing = YMap [(''weekends_off_peak'', YBool True), (''timezone'', YStr ''Asia/Shanghai''),
     (''peak_windows_utc'', YSeq [YMap [(''start'', YStr ''01:00''), (''end'', YStr ''04:00'')], YMap [(''start'', YStr ''06:00''), (''end'', YStr ''10:00'')]]),
     (''models'', YMap
       [(''deepseek-v4-pro'', YMap [(''off_peak'', setup_rate (66 / 100) (198 / 100) (22 / 1000)), (''peak'', setup_rate (132 / 100) (396 / 100) (44 / 1000))]),
        (''deepseek-v4-flash'', YMap [(''off_peak'', setup_rate (22 / 100) (66 / 100) (7 / 1000)), (''peak'', setup_rate (44 / 100) (132 / 100) (14 / 1000))])])]"

definition buildManagerConfig :: "manager_file_options \<Rightarrow> yaml" where
  "buildManagerConfig opts = YMap
     [(''listen'', YMap [(''host'', YStr ''127.0.0.1''), (''port'', YNum 8080)]),
      (''endpoints'', YMap [(''personal'', setup_endpoint (mo_personalPort opts) (mo_personalBin opts) (mo_personalProfile opts) (mo_personalHome opts) ''GW_KEY_A'' []),
                            (''brain'', setup_endpoint (mo_brainPort opts) (mo_brainBin opts) (mo_brainProfile opts) (mo_brainHome opts) ''GW_KEY_B'' [(''BRAIN_TOKEN'', mo_brainToken opts)])]),
      (''agents'', YMap [(''personal'', setup_agent ''Personal'' ''personal'' (mo_personalWorkspace opts)), (''brain'', setup_agent ''Brain'' ''brain'' (mo_brainWorkspace opts))]),
      (''runner'', YMap [(''timeout_minutes'', YNum 15), (''silence_timeout_minutes'', YNum 5), (''outward_timeout_minutes'', YNum 5),
                         (''max_consecutive_failures'', YNum 3), (''daily_budget_usd'', YNum 2)]),
      (''brain'', YMap [(''daily_budget_usd'', YNum 1)]),
      (''database'', YMap [(''path'', YStr ''./data/manager.db'')]),
      (''reconcile_interval_minutes'', YNum 10),
      (''backup'', YMap [(''docker_volumes'', YSeq []), (''auto'', YBool False), (''interval_minutes'', YNum 15)]),
      (''public_api'', YMap [(''enabled'', YBool True), (''host'', YStr ''127.0.0.1''), (''port'', YNum 8081)]),
      (''services'', YSeq []),
      (''pricing'', setup_pricing)]"

section \<open>The generated file loads\<close>

lemmas z_defs = z_object_def z_default_def z_optional_def z_refine_def z_string_def z_bool_def z_number_def z_int_def z_from_def z_nonempty_def
  z_enum_def z_array_def z_record_def z_positive_def

definition setup_spawn :: "string \<Rightarrow> string \<Rightarrow> (string \<times> string) list \<Rightarrow> spawn_file" where
  "setup_spawn bin profile env = \<lparr>fs_managed = True, fs_command = Some ''node'', fs_args = [bin, ''--profile'', profile, ''--no-open''], fs_cwd = None,
     fs_ready_timeout_ms = 30000, fs_detached = False, fs_log_file = None, fs_env = Some env, fs_restart = default_restart, fs_runner = RunProcess,
     fs_docker = None, fs_host = None, fs_dsh_version = None, fs_gateway_ref = None\<rparr>"

lemma those_map_Some [simp]: "those (map (\<lambda>x. Some (f x)) xs) = Some (map f xs)"
  by (induction xs) simp_all

lemma z_record_strings: "z_record z_string (Some (YMap (map (\<lambda>(k, v). (k, YStr v)) kvs))) = Some kvs"
  by (induction kvs) (auto simp: z_defs)

lemma setup_spawn_accepted:
  "spawnSchema (Some (YMap [(''managed'', YBool True), (''command'', YStr ''node''), (''args'', YSeq [YStr bin, YStr ''--profile'', YStr profile, YStr ''--no-open'']),
        (''ready_timeout_ms'', YNum 30000), (''detached'', YBool False), (''runner'', YStr ''process''),
        (''restart'', YMap [(''max_attempts'', YNum 3), (''base_delay_ms'', YNum 1000), (''max_delay_ms'', YNum 30000)]),
        (''env'', YMap ((''DSH_HOME'', YStr home) # map (\<lambda>(k, v). (k, YStr v)) extraEnv))])) =
   Some (setup_spawn bin profile ((''DSH_HOME'', home) # extraEnv))"
  using z_record_strings [of "(''DSH_HOME'', home) # extraEnv"]
  by (simp add: spawnSchema_def restartSchema_def spawn_refinement_def setup_spawn_def default_restart_def z_object_def z_default_def z_optional_def z_refine_def
      z_string_def z_bool_def z_number_def z_int_def z_from_def z_nonempty_def z_enum_def z_array_def)

lemma setup_endpoint_accepted:
  assumes "is_url (local_url port)" "is_url (local_url port @ ''/api-gw/v1'')"
  shows "endpointSchema is_url (Some (setup_endpoint port bin profile home keyRef extraEnv)) =
    Some \<lparr>fe_url = local_url port, fe_driver = Apiproxy, fe_prefix = ''/api'', fe_key_ref = [], fe_sandbox_base = Some (local_url port @ ''/api-gw/v1''),
      fe_sandbox_key_ref = keyRef, fe_spawn = Some (setup_spawn bin profile ((''DSH_HOME'', home) # extraEnv)), fe_access = None\<rparr>"
  using assms setup_spawn_accepted [of bin profile home extraEnv]
  by (simp add: endpointSchema_def setup_endpoint_def starts_with_slash_def z_object_def z_default_def z_optional_def z_refine_def z_string_def z_enum_def)

lemma setup_agent_accepted:
  assumes "name \<noteq> []" "ep \<noteq> []" "ws \<noteq> []"
  shows "agentSchema (Some (setup_agent name ep ws)) =
    Some \<lparr>fa_name = name, fa_endpoint = ep, fa_workspace = ws, fa_public = False, fa_preset = Some ''standard'', fa_sandbox_mode = Some WorkspaceWrite,
      fa_git_remote = None, fa_provider = None, fa_model = None, fa_validate = None\<rparr>"
  using assms by (simp add: agentSchema_def setup_agent_def z_defs)

definition setup_pricing_file :: pricing_file where
  "setup_pricing_file = the (pricingSchema (Some setup_pricing))"

lemma setup_pricing_accepted: "pricingSchema (Some setup_pricing) = Some setup_pricing_file"
proof -
  have "pricingSchema (Some setup_pricing) \<noteq> None" by code_simp
  then show ?thesis by (auto simp: setup_pricing_file_def)
qed

lemma setup_pricing_resolves: "\<exists>t. pricing_of (Some setup_pricing_file) = Inr t"
proof -
  have "\<not> isl (pricing_of (Some setup_pricing_file))" by code_simp
  then show ?thesis by (cases "pricing_of (Some setup_pricing_file)") simp_all
qed

definition setup_ready :: "(string \<Rightarrow> bool) \<Rightarrow> (string \<Rightarrow> string option) \<Rightarrow> manager_file_options \<Rightarrow> bool" where
  "setup_ready is_url env opts \<longleftrightarrow>
     list_all (\<lambda>p. is_url (local_url p) \<and> is_url (local_url p @ ''/api-gw/v1'')) [mo_personalPort opts, mo_brainPort opts] \<and>
     (case env ''SESSION_SECRET'' of None \<Rightarrow> False | Some s \<Rightarrow> 32 \<le> length s) \<and>
     env_or_empty env ''GW_KEY_A'' \<noteq> [] \<and> env_or_empty env ''GW_KEY_B'' \<noteq> [] \<and> mo_personalWorkspace opts \<noteq> [] \<and> mo_brainWorkspace opts \<noteq> []"

lemma strip_local: "strip_slashes (local_url p) = local_url p"
proof -
  have "CHR ''/'' \<notin> set (show_nat n)" for n
    using show_nat_all_digits [of n] by (auto simp: list_all_iff Patterns.is_digit_def in_range_def)
  then have no: "CHR ''/'' \<notin> set (rev (show_int p))" by (simp add: show_int_def)
  have "show_int p \<noteq> []" by (simp add: show_int_def show_nat_not_Nil)
  with no show ?thesis by (cases "rev (show_int p)") (auto simp: strip_slashes_def local_url_def)
qed

definition setup_file :: "manager_file_options \<Rightarrow> file_config" where
  "setup_file opts =
     (let ep = (\<lambda>port bin profile env keyRef. \<lparr>fe_url = local_url port, fe_driver = Apiproxy, fe_prefix = ''/api'', fe_key_ref = [],
        fe_sandbox_base = Some (local_url port @ ''/api-gw/v1''), fe_sandbox_key_ref = keyRef, fe_spawn = Some (setup_spawn bin profile env), fe_access = None\<rparr>);
          ag = (\<lambda>name ep ws. \<lparr>fa_name = name, fa_endpoint = ep, fa_workspace = ws, fa_public = False, fa_preset = Some ''standard'',
            fa_sandbox_mode = Some WorkspaceWrite, fa_git_remote = None, fa_provider = None, fa_model = None, fa_validate = None\<rparr>) in
      \<lparr>ff_listen = \<lparr>fl_host = ''127.0.0.1'', fl_port = 8080\<rparr>,
       ff_endpoints = [(''personal'', ep (mo_personalPort opts) (mo_personalBin opts) (mo_personalProfile opts) [(''DSH_HOME'', mo_personalHome opts)] ''GW_KEY_A''),
         (''brain'', ep (mo_brainPort opts) (mo_brainBin opts) (mo_brainProfile opts) [(''DSH_HOME'', mo_brainHome opts), (''BRAIN_TOKEN'', mo_brainToken opts)] ''GW_KEY_B'')],
       ff_agents = [(''personal'', ag ''Personal'' ''personal'' (mo_personalWorkspace opts)), (''brain'', ag ''Brain'' ''brain'' (mo_brainWorkspace opts))],
       ff_runner = \<lparr>fn_timeout_minutes = 15, fn_silence_timeout_minutes = 5, fn_outward_timeout_minutes = 5, fn_max_consecutive_failures = 3, fn_daily_budget_usd = Some 2\<rparr>,
       ff_database_path = ''./data/manager.db'', ff_reconcile_interval_minutes = 10, ff_brain_daily_budget_usd = Some 1, ff_pricing = Some setup_pricing_file,
       ff_config_version = Some 1, ff_backup = \<lparr>fb_docker_volumes = [], fb_auto = False, fb_interval_minutes = 15\<rparr>,
       ff_public_api = \<lparr>fq_enabled = True, fq_host = ''127.0.0.1'', fq_port = 8081\<rparr>, ff_services = []\<rparr>)"

lemma setup_file_accepted:
  assumes "setup_ready is_url env opts"
  shows "fileSchema is_url (Some (up_0_1 (buildManagerConfig opts))) = Some (setup_file opts)"
proof -
  let ?ep = "\<lambda>port bin profile home key extra. setup_endpoint port bin profile home key extra"
  have e: "endpointSchema is_url (Some (?ep (mo_personalPort opts) b pr h k x)) = Some \<lparr>fe_url = local_url (mo_personalPort opts), fe_driver = Apiproxy, fe_prefix = ''/api'', fe_key_ref = [],
      fe_sandbox_base = Some (local_url (mo_personalPort opts) @ ''/api-gw/v1''), fe_sandbox_key_ref = k, fe_spawn = Some (setup_spawn b pr ((''DSH_HOME'', h) # x)), fe_access = None\<rparr>"
    "endpointSchema is_url (Some (?ep (mo_brainPort opts) b pr h k x)) = Some \<lparr>fe_url = local_url (mo_brainPort opts), fe_driver = Apiproxy, fe_prefix = ''/api'', fe_key_ref = [],
      fe_sandbox_base = Some (local_url (mo_brainPort opts) @ ''/api-gw/v1''), fe_sandbox_key_ref = k, fe_spawn = Some (setup_spawn b pr ((''DSH_HOME'', h) # x)), fe_access = None\<rparr>" for b pr h k x
    using assms by (simp_all add: setup_endpoint_accepted setup_ready_def)
  have ws: "mo_personalWorkspace opts \<noteq> []" "mo_brainWorkspace opts \<noteq> []" using assms by (simp_all add: setup_ready_def)
  show ?thesis
    by (simp add: fileSchema_def buildManagerConfig_def up_0_1_def setup_file_def Let_def e setup_agent_accepted ws setup_pricing_accepted
        listenSchema_def runnerSchema_def backupSchema_def publicApiSchema_def z_record_def z_array_def z_object_def z_default_def z_optional_def z_refine_def
        z_string_def z_bool_def z_number_def z_int_def z_from_def z_nonempty_def z_positive_def)
qed

lemma generated_loads:
  assumes "setup_ready is_url env opts"
  shows "\<exists>c. loadConfig is_url env resolve (buildManagerConfig opts) = Inr c \<and>
    map (\<lambda>a. (ra_id a, ra_endpoint a, ra_workspacePath a, ra_public a, ra_sandboxMode a)) (rc_agents c) =
      [(''personal'', ''personal'', resolve (mo_personalWorkspace opts), False, Some WorkspaceWrite), (''brain'', ''brain'', resolve (mo_brainWorkspace opts), False, Some WorkspaceWrite)] \<and>
    map (\<lambda>e. (re_id e, re_url e, re_sandboxKey e)) (rc_endpoints c) =
      [(''personal'', local_url (mo_personalPort opts), env_or_empty env ''GW_KEY_A''), (''brain'', local_url (mo_brainPort opts), env_or_empty env ''GW_KEY_B'')] \<and>
    rc_services c = []"
proof -
  obtain secret where sec: "envSchema env = Inr secret"
    using assms by (auto simp: setup_ready_def envSchema_def split: option.splits)
  obtain prices where pr: "pricing_of (Some setup_pricing_file) = Inr prices" using setup_pricing_resolves by blast
  have keys: "env_or_empty env ''GW_KEY_A'' \<noteq> []" "env_or_empty env ''GW_KEY_B'' \<noteq> []" using assms by (simp_all add: setup_ready_def)
  have m: "migrateConfigIfNeeded (buildManagerConfig opts) = Inr (up_0_1 (buildManagerConfig opts), True)"
    by (simp add: migrateConfigIfNeeded_def versionOf_def yget_def buildManagerConfig_def CURRENT_CONFIG_VERSION_def z_int_def z_number_def)
  have none: "env_or_empty env [] = []" by (simp add: env_or_empty_def)
  show ?thesis
    unfolding loadConfig_def m bindE_def sum.case prod.case setup_file_accepted [OF assms] option.case resolve_file_def sec
    by (simp add: setup_file_def Let_def resolve_endpoint_def pinned_version_unknown_def setup_spawn_def strip_local keys none resolve_agent_def endpoint_of_def
        on_remote_def resolve_spawn_def check_sandbox_def check_shared_def group_by_def first_occurrences_def pr check_pin_def failIf_def bindE_def
        check_machine_def machineIdOf_def config_of_def)
qed

text \<open>
  Claim C36. A fresh installation boots: whatever ports, workspaces, homes and programs setup is given, the manager loads the file that it
  generates, provided the addresses are URLs, the workspaces are named and the environment has the secrets; the two agents stand on
  nodes of their own with the keys of the environment, and nothing is offered outward.
\<close>

theorem generated_config_loads:
  assumes "setup_ready is_url env opts"
  shows "\<exists>c. loadConfig is_url env resolve (buildManagerConfig opts) = Inr c \<and>
    map (\<lambda>a. (ra_id a, ra_endpoint a, ra_workspacePath a, ra_public a, ra_sandboxMode a)) (rc_agents c) =
      [(''personal'', ''personal'', resolve (mo_personalWorkspace opts), False, Some WorkspaceWrite), (''brain'', ''brain'', resolve (mo_brainWorkspace opts), False, Some WorkspaceWrite)] \<and>
    map (\<lambda>e. (re_id e, re_url e, re_sandboxKey e)) (rc_endpoints c) =
      [(''personal'', local_url (mo_personalPort opts), env_or_empty env ''GW_KEY_A''), (''brain'', local_url (mo_brainPort opts), env_or_empty env ''GW_KEY_B'')] \<and>
    rc_services c = []"
  by (rule generated_loads [OF assms])

definition sample_setup :: "int \<Rightarrow> int \<Rightarrow> manager_file_options" where
  "sample_setup p q = \<lparr>mo_personalWorkspace = ''/w/p'', mo_brainWorkspace = ''/w/b'', mo_personalPort = p, mo_brainPort = q, mo_personalBin = ''/bin.js'',
     mo_brainBin = ''/bin.js'', mo_personalProfile = ''dac-personal'', mo_brainProfile = ''dac-brain'', mo_personalHome = ''/h/p'', mo_brainHome = ''/h/b'', mo_brainToken = ''t''\<rparr>"

definition setup_env :: "string \<Rightarrow> string option" where
  "setup_env = map_of (setupEnvValues (replicate 32 CHR ''s'') ''t'' ''pw'' ''k1'' ''k2'')"

lemma sample_ready: "setup_ready (\<lambda>s. True) setup_env (sample_setup p q)"
proof -
  have e: "(case setup_env ''SESSION_SECRET'' of None \<Rightarrow> False | Some s \<Rightarrow> 32 \<le> length s)" "env_or_empty setup_env ''GW_KEY_A'' \<noteq> []" "env_or_empty setup_env ''GW_KEY_B'' \<noteq> []"
    by code_simp+
  then show ?thesis by (simp add: setup_ready_def sample_setup_def)
qed

lemma generated_config_loads_witness:
  "\<exists>c. loadConfig (\<lambda>s. True) setup_env (\<lambda>p. p) (buildManagerConfig (sample_setup 3081 3082)) = Inr c \<and> rc_services c = []"
  using generated_config_loads [OF sample_ready [of 3081 3082], of "\<lambda>p. p"] by blast

text \<open>
  Setup accepts two nodes on one port: with \<^verbatim>\<open>--ports 3082\<close> both nodes get the port 3082, the preflight finds it free for each
  of them, and the file that is generated loads with two nodes at one address.
\<close>

theorem one_port_for_two_nodes:
  "(let opts = pa_options (parseArgs ''/root'' None False [''--ports'', ''3082'']) in
      (so_personalPort opts, so_brainPort opts,
       selfCheck \<lparr>mp_dshBin = Some ''/bin.js'', mp_dsh = Some ''0.2.0-rc.2'', mp_git = Some ''2'', mp_portFree = \<lambda>p. True\<rparr> opts)) = (3082, 3082, Inr ''/bin.js'') \<and>
   map_sum id (\<lambda>c. map re_url (rc_endpoints c)) (loadConfig (\<lambda>s. True) setup_env (\<lambda>p. p) (buildManagerConfig (sample_setup 3082 3082))) =
     Inr [''http://127.0.0.1:3082'', ''http://127.0.0.1:3082'']"
proof
  show "(let opts = pa_options (parseArgs ''/root'' None False [''--ports'', ''3082'']) in
      (so_personalPort opts, so_brainPort opts,
       selfCheck \<lparr>mp_dshBin = Some ''/bin.js'', mp_dsh = Some ''0.2.0-rc.2'', mp_git = Some ''2'', mp_portFree = \<lambda>p. True\<rparr> opts)) = (3082, 3082, Inr ''/bin.js'')"
    by code_simp
  obtain c where c: "loadConfig (\<lambda>s. True) setup_env (\<lambda>p. p) (buildManagerConfig (sample_setup 3082 3082)) = Inr c"
    "map (\<lambda>e. (re_id e, re_url e, re_sandboxKey e)) (rc_endpoints c) =
      [(''personal'', local_url 3082, env_or_empty setup_env ''GW_KEY_A''), (''brain'', local_url 3082, env_or_empty setup_env ''GW_KEY_B'')]"
    using generated_loads [OF sample_ready [of 3082 3082], of "\<lambda>p. p"] by (auto simp: sample_setup_def)
  have "map re_url (rc_endpoints c) = map (\<lambda>x. fst (snd x)) (map (\<lambda>e. (re_id e, re_url e, re_sandboxKey e)) (rc_endpoints c))" by simp
  also have "\<dots> = [''http://127.0.0.1:3082'', ''http://127.0.0.1:3082'']"
  proof -
    have "local_url 3082 = ''http://127.0.0.1:3082''" by code_simp
    then show ?thesis unfolding c(2) by simp
  qed
  finally show "map_sum id (\<lambda>c. map re_url (rc_endpoints c)) (loadConfig (\<lambda>s. True) setup_env (\<lambda>p. p) (buildManagerConfig (sample_setup 3082 3082))) =
     Inr [''http://127.0.0.1:3082'', ''http://127.0.0.1:3082'']"
    by (simp add: c(1))
qed

end
