(* ===== verification/Provision.thy ===== *)
theory Provision
  imports Setup Watchdog Reconcile ConfigEdit
begin

text \<open>
  Adding and deleting nodes at runtime (\<^verbatim>\<open>routes/provision.ts\<close>): the checks of a request, the three forms of a node (container,
  process on a machine, local process), the pipeline with its ledger, the rollback, the end of the background install, the deletion.

  The configuration file is the document it holds; a write that fails leaves the document as it was (a write in place that breaks off is in
  ConfigEdit, \<open>torn_write_stays\<close>). A step may fail where the code may throw: \<open>fault\<close> says which steps fail and with
  what message. The environment of the manager (its platform, its home, the ports of URLs, what the lookups find) is a record.
\<close>

section \<open>The request\<close>

record agent_input =
  ai_id :: "string option"
  ai_name :: "string option"
  ai_workspace :: "string option"
  ai_preset :: "string option"
  ai_sandboxMode :: "sandbox_mode option"

record provision_body =
  pb_name :: string
  pb_port :: "int option"
  pb_install :: "bool option"
  pb_runner :: "Schema.runner_kind option"
  pb_host :: "string option"
  pb_url :: "string option"
  pb_dsh_version :: "string option"
  pb_agent :: "agent_input option"

definition node_name_char :: "char \<Rightarrow> bool" where
  "node_name_char c \<longleftrightarrow> lower_or_digit c \<or> c = CHR ''_'' \<or> c = CHR ''-''"

definition nodeNameSchema :: "string \<Rightarrow> bool" where
  "nodeNameSchema s \<longleftrightarrow> (case s of [] \<Rightarrow> False | c # cs \<Rightarrow> lower_or_digit c \<and> list_all node_name_char cs \<and> length cs \<le> 30)"

definition when_given :: "('a \<Rightarrow> bool) \<Rightarrow> 'a option \<Rightarrow> bool" where
  "when_given P x \<longleftrightarrow> (case x of None \<Rightarrow> True | Some y \<Rightarrow> P y)"

definition provisionBody :: "(string \<Rightarrow> bool) \<Rightarrow> provision_body \<Rightarrow> bool" where
  "provisionBody is_url b \<longleftrightarrow> nodeNameSchema (pb_name b) \<and> when_given (\<lambda>p. 0 < p) (pb_port b) \<and>
     when_given (\<lambda>r. r \<noteq> RunAgent) (pb_runner b) \<and> when_given (\<lambda>h. h \<noteq> []) (pb_host b) \<and> when_given is_url (pb_url b) \<and>
     when_given (\<lambda>v. v \<noteq> []) (pb_dsh_version b) \<and>
     when_given (\<lambda>a. when_given nodeNameSchema (ai_id a) \<and> when_given (\<lambda>n. n \<noteq> [] \<and> length n \<le> 80) (ai_name a)) (pb_agent b)"

section \<open>The manager\<close>

record prov_env =
  pe_is_url :: "string \<Rightarrow> bool"
  pe_urlPort :: "string \<Rightarrow> int option"
  pe_resolve :: "string \<Rightarrow> string"
  pe_nodesHome :: string
  pe_listenPort :: int
  pe_container :: bool
  pe_docker :: bool
  pe_nodeImage :: "string option"
  pe_dshBin :: string
  pe_key :: string
  pe_actor :: string

record prov_state =
  ps_endpoints :: "resolved_endpoint list"
  ps_agents :: "resolved_agent list"
  ps_upstreams :: "id list"
  ps_supervisors :: "(id \<times> supervisor) list"
  ps_db :: db
  ps_file :: yaml
  ps_env :: "string option"
  ps_homes :: "id list"
  ps_workspaces :: "string list"

text \<open>The port of a URL is 0 when it is the default of its scheme; a text that is no URL has none.\<close>

definition usedPorts :: "prov_env \<Rightarrow> resolved_endpoint list \<Rightarrow> int list" where
  "usedPorts pe eps = pe_listenPort pe # List.map_filter (\<lambda>e. pe_urlPort pe (re_url e)) eps"

function next_free :: "int list \<Rightarrow> int \<Rightarrow> int" where
  "next_free used port = (if port \<in> set used then next_free used (port + 1) else port)"
  by pat_completeness auto

lemma next_free_decreases: "(port :: int) \<in> set used \<Longrightarrow> length (filter (\<lambda>p. port + 1 \<le> p) used) < length (filter (\<lambda>p. port \<le> p) used)"
proof (induction used)
  case (Cons a used)
  have le: "length (filter (\<lambda>p. port + 1 \<le> p) xs) \<le> length (filter (\<lambda>p. port \<le> p) xs)" for xs
  proof (induction xs)
    case (Cons x xs)
    have "port + 1 \<le> x \<Longrightarrow> port \<le> x" by simp
    then show ?case using Cons by auto
  qed simp
  show ?case using Cons le [of used] by (cases "port \<in> set used") (auto simp: less_Suc_eq_le)
qed simp

termination next_free
  by (relation "measure (\<lambda>(used, port). length (filter (\<lambda>p. port \<le> p) used))") (auto simp: next_free_decreases)


declare next_free.simps [simp del]

definition suggestPort :: "prov_env \<Rightarrow> resolved_endpoint list \<Rightarrow> int" where
  "suggestPort pe eps = next_free (usedPorts pe eps) 3090"

definition is_docker :: "resolved_endpoint \<Rightarrow> bool" where
  "is_docker e \<longleftrightarrow> (case re_spawn e of None \<Rightarrow> False | Some s \<Rightarrow> rs_runner s = RunDocker)"

text \<open>The host side of the first volume mounted under \<^verbatim>\<open>/opt/dac/workspaces/\<close>, with its last part exchanged.\<close>

definition tail_of :: "string \<Rightarrow> string" where
  "tail_of s = CHR ''/'' # rev (takeWhile (\<lambda>c. c \<noteq> CHR ''/'') (rev s))"

definition ends_with :: "string \<Rightarrow> string \<Rightarrow> bool" where
  "ends_with s t \<longleftrightarrow> is_prefix (rev t) (rev s)"

definition WORKSPACES :: string where "WORKSPACES = ''/opt/dac/workspaces/''"

definition host_prefix :: "id \<Rightarrow> string \<times> string \<Rightarrow> string" where
  "host_prefix node v = (case v of (host, mounted) \<Rightarrow> let t = tail_of mounted in
     if ends_with host t then take (length host - length t) host @ ''/'' @ node else host)"

definition volumes_of :: "resolved_endpoint \<Rightarrow> (string \<times> string) list" where
  "volumes_of e = (case re_spawn e of None \<Rightarrow> [] | Some s \<Rightarrow> if rs_runner s \<noteq> RunDocker then [] else
     (case rs_docker s of None \<Rightarrow> [] | Some d \<Rightarrow> rd_hostVolumes d))"

definition deriveHostWorkspacePath :: "resolved_endpoint list \<Rightarrow> id \<Rightarrow> string option \<Rightarrow> string" where
  "deriveHostWorkspacePath eps node ws = (case first_row (\<lambda>v. is_prefix WORKSPACES (snd v)) (concat (map volumes_of eps)) of
     Some v \<Rightarrow> host_prefix node v
   | None \<Rightarrow> (case ws of Some w \<Rightarrow> w | None \<Rightarrow> WORKSPACES @ node))"

section \<open>What is planned\<close>

datatype node_form = ContainerNode | MachineNode id string | LocalNode

record agent_spec =
  as_id :: id
  as_name :: string
  as_workspace :: string
  as_preset :: string
  as_sandboxMode :: sandbox_mode

record node_plan =
  np_name :: id
  np_port :: int
  np_form :: node_form
  np_agent :: "agent_spec option"
  np_pin :: "(string \<times> string) option"
  np_hostVolumes :: "(string \<times> string) list"
  np_explicitProcess :: bool
  np_install :: bool

datatype prov_refusal =
    PvInvalidBody400 | PvDuplicateNode409 | PvDockerUnavailable400 | PvHostProcessUnavailable400 | PvHostConflict400 | PvAgentUrlRequired400
  | PvUnknownDshVersion400 | PvDuplicateAgent409 | PvPortTaken409

definition wantDocker :: "resolved_endpoint list \<Rightarrow> provision_body \<Rightarrow> bool" where
  "wantDocker eps b \<longleftrightarrow> pb_runner b = Some RunDocker \<or> pb_runner b = None \<and> list_ex is_docker eps"

definition wantProcess :: "resolved_endpoint list \<Rightarrow> provision_body \<Rightarrow> bool" where
  "wantProcess eps b \<longleftrightarrow> pb_runner b = Some RunProcess \<or> pb_runner b = None \<and> \<not> list_ex is_docker eps"

definition form_of :: "resolved_endpoint list \<Rightarrow> provision_body \<Rightarrow> node_form" where
  "form_of eps b = (if wantDocker eps b then ContainerNode
     else (case pb_host b of Some h \<Rightarrow> MachineNode h (case pb_url b of Some u \<Rightarrow> strip_slashes u | None \<Rightarrow> []) | None \<Rightarrow> LocalNode))"

definition workspace_default :: "prov_env \<Rightarrow> resolved_endpoint list \<Rightarrow> provision_body \<Rightarrow> string" where
  "workspace_default pe eps b = (if wantProcess eps b then pe_nodesHome pe @ ''/workspaces/'' @ pb_name b else WORKSPACES @ pb_name b)"

definition spec_of :: "prov_env \<Rightarrow> resolved_endpoint list \<Rightarrow> provision_body \<Rightarrow> agent_input \<Rightarrow> agent_spec" where
  "spec_of pe eps b a = (let ws = (case ai_workspace a of Some w \<Rightarrow> w | None \<Rightarrow> workspace_default pe eps b) in
     \<lparr>as_id = (case ai_id a of Some i \<Rightarrow> i | None \<Rightarrow> pb_name b), as_name = (case ai_name a of Some n \<Rightarrow> n | None \<Rightarrow> pb_name b),
      as_workspace = (if pb_host b \<noteq> None then ws else pe_resolve pe ws),
      as_preset = (case ai_preset a of Some p \<Rightarrow> p | None \<Rightarrow> ''standard''),
      as_sandboxMode = (case ai_sandboxMode a of Some m \<Rightarrow> m | None \<Rightarrow> WorkspaceWrite)\<rparr>)"

definition host_volumes_of :: "prov_env \<Rightarrow> resolved_endpoint list \<Rightarrow> provision_body \<Rightarrow> (string \<times> string) list" where
  "host_volumes_of pe eps b = (let ws = map_option (\<lambda>a. as_workspace (spec_of pe eps b a)) (pb_agent b) in
     [(deriveHostWorkspacePath eps (pb_name b) ws, case ws of Some w \<Rightarrow> w | None \<Rightarrow> workspace_default pe eps b)])"

definition plan_node :: "prov_env \<Rightarrow> prov_state \<Rightarrow> provision_body \<Rightarrow> prov_refusal + node_plan" where
  "plan_node pe s b = (let eps = ps_endpoints s; spec = map_option (spec_of pe eps b) (pb_agent b);
       port = (case pb_port b of Some p \<Rightarrow> p | None \<Rightarrow> suggestPort pe eps); pair = (case pb_dsh_version b of None \<Rightarrow> None | Some v \<Rightarrow> resolvePair v) in
     bindE (failIf (\<not> provisionBody (pe_is_url pe) b) PvInvalidBody400) (\<lambda>_.
     bindE (failIf (endpoint_of eps (pb_name b) \<noteq> None) PvDuplicateNode409) (\<lambda>_.
     bindE (failIf (pb_runner b = Some RunDocker \<and> \<not> pe_docker pe) PvDockerUnavailable400) (\<lambda>_.
     bindE (failIf (pb_runner b = Some RunProcess \<and> pe_container pe) PvHostProcessUnavailable400) (\<lambda>_.
     bindE (failIf (pb_host b \<noteq> None \<and> pb_runner b = Some RunDocker) PvHostConflict400) (\<lambda>_.
     bindE (failIf (pb_host b \<noteq> None \<and> pb_url b = None) PvAgentUrlRequired400) (\<lambda>_.
     bindE (failIf (pb_dsh_version b \<noteq> None \<and> pair = None) PvUnknownDshVersion400) (\<lambda>_.
     bindE (failIf (case spec of None \<Rightarrow> False | Some a \<Rightarrow> agent_named (ps_agents s) (as_id a) \<noteq> None) PvDuplicateAgent409) (\<lambda>_.
     bindE (failIf (port \<in> set (usedPorts pe eps)) PvPortTaken409) (\<lambda>_.
     Inr \<lparr>np_name = pb_name b, np_port = port, np_form = form_of eps b, np_agent = spec, np_pin = map_option (\<lambda>p. (dp_dsh p, dp_gateway p)) pair,
       np_hostVolumes = host_volumes_of pe eps b, np_explicitProcess = (pb_runner b = Some RunProcess), np_install = (pb_install b \<noteq> Some False)\<rparr>))))))))))"

section \<open>What is written and what is held\<close>

definition to_upper :: "string \<Rightarrow> string" where
  "to_upper s = map (\<lambda>c. if 97 \<le> (of_char c :: nat) \<and> (of_char c :: nat) \<le> 122 then char_of (of_char c - 32 :: nat) else c) s"

definition key_ref_of :: "id \<Rightarrow> string" where
  "key_ref_of name = ''GW_KEY_'' @ to_upper name"

definition node_url :: "node_plan \<Rightarrow> string" where
  "node_url p = (case np_form p of
     ContainerNode \<Rightarrow> ''http://node-'' @ np_name p @ '':'' @ show_int (np_port p)
   | MachineNode h u \<Rightarrow> u
   | LocalNode \<Rightarrow> local_url (np_port p))"

definition pin_fields :: "node_plan \<Rightarrow> (string \<times> yaml) list" where
  "pin_fields p = (case np_pin p of None \<Rightarrow> [] | Some (v, g) \<Rightarrow> [(''dsh_version'', YStr v), (''gateway_ref'', YStr g)])"

definition node_image :: "prov_env \<Rightarrow> node_plan \<Rightarrow> string" where
  "node_image pe p = (case np_pin p of
     Some (v, g) \<Rightarrow> ''hellodac/dac-node:'' @ v
   | None \<Rightarrow> (case pe_nodeImage pe of Some i \<Rightarrow> i | None \<Rightarrow> ''hellodac/dac-node:'' @ dp_dsh (hd SUPPORTED_DSH)))"

definition named_volumes_of :: "node_plan \<Rightarrow> (string \<times> string) list" where
  "named_volumes_of p = [(''dac-'' @ np_name p, ''/data'')]"

definition docker_fields :: "prov_env \<Rightarrow> node_plan \<Rightarrow> (string \<times> yaml) list" where
  "docker_fields pe p = [(''image'', YStr (node_image pe p)), (''network'', YStr ''dac-hive''), (''port'', YNum (of_int (np_port p))),
     (''host_volumes'', YMap (map (\<lambda>(k, v). (k, YStr v)) (np_hostVolumes p))),
     (''named_volumes'', YMap (map (\<lambda>(k, v). (k, YStr v)) (named_volumes_of p))), (''memory_limit_mb'', YNull)]"

definition machine_args :: "node_plan \<Rightarrow> string list" where
  "machine_args p = [''--profile'', np_name p, ''--port'', show_int (np_port p), ''--no-open'']"

definition local_args :: "string \<Rightarrow> node_plan \<Rightarrow> string list" where
  "local_args bin p = [bin, ''--profile'', np_name p, ''--no-open'']"

definition home_of :: "prov_env \<Rightarrow> id \<Rightarrow> string" where
  "home_of pe name = pe_nodesHome pe @ ''/'' @ name"

definition spawn_fields :: "prov_env \<Rightarrow> node_plan \<Rightarrow> (string \<times> yaml) list" where
  "spawn_fields pe p = (case np_form p of
     ContainerNode \<Rightarrow> [(''managed'', YBool True), (''runner'', YStr ''docker''), (''ready_timeout_ms'', YNum 30000), (''docker'', YMap (docker_fields pe p))]
   | MachineNode h u \<Rightarrow> [(''managed'', YBool True), (''runner'', YStr ''agent''), (''host'', YStr h), (''args'', YSeq (map YStr (machine_args p))), (''ready_timeout_ms'', YNum 120000)]
   | LocalNode \<Rightarrow> [(''managed'', YBool True), (''command'', YStr ''node''), (''args'', YSeq (map YStr (local_args (pe_dshBin pe) p))), (''ready_timeout_ms'', YNum 30000),
       (''env'', YMap [(''DSH_HOME'', YStr (home_of pe (np_name p)))])]) @ pin_fields p"

definition endpoint_yaml :: "prov_env \<Rightarrow> node_plan \<Rightarrow> yaml" where
  "endpoint_yaml pe p = YMap [(''url'', YStr (node_url p)), (''driver'', YStr ''apiproxy''), (''prefix'', YStr ''/api-gw/v1/proxy''),
     (''key_ref'', YStr (key_ref_of (np_name p))), (''sandbox_base'', YStr (node_url p @ ''/api-gw/v1'')), (''sandbox_key_ref'', YStr (key_ref_of (np_name p))),
     (''spawn'', YMap (spawn_fields pe p))]"

definition mode_name :: "sandbox_mode \<Rightarrow> string" where
  "mode_name m = (case m of ReadOnly \<Rightarrow> ''read-only'' | WorkspaceWrite \<Rightarrow> ''workspace-write'' | DangerFullAccess \<Rightarrow> ''danger-full-access'')"

definition agent_yaml :: "id \<Rightarrow> agent_spec \<Rightarrow> yaml" where
  "agent_yaml ep a = YMap [(''name'', YStr (as_name a)), (''endpoint'', YStr ep), (''workspace'', YStr (as_workspace a)), (''public'', YBool False),
     (''preset'', YStr (as_preset a)), (''sandbox_mode'', YStr (mode_name (as_sandboxMode a)))]"

definition spawnFor :: "prov_env \<Rightarrow> string \<Rightarrow> node_plan \<Rightarrow> resolved_spawn" where
  "spawnFor pe bin p = \<lparr>rs_managed = True, rs_command = ''node'', rs_args = local_args bin p, rs_cwd = None, rs_readyTimeoutMs = 30000, rs_detached = False,
     rs_logFile = None, rs_env = [(''DSH_HOME'', home_of pe (np_name p))], rs_maxAttempts = 3, rs_baseDelayMs = 1000, rs_maxDelayMs = 30000,
     rs_runner = RunProcess, rs_host = None, rs_docker = None, rs_dshVersion = map_option fst (np_pin p), rs_gatewayRef = map_option snd (np_pin p)\<rparr>"

definition spawn_memory :: "prov_env \<Rightarrow> node_plan \<Rightarrow> resolved_spawn" where
  "spawn_memory pe p = (let base = (spawnFor pe (pe_dshBin pe) p) in case np_form p of
     ContainerNode \<Rightarrow> base\<lparr>rs_command := [], rs_args := [], rs_env := [], rs_runner := RunDocker,
       rs_docker := Some \<lparr>rd_image = node_image pe p, rd_containerName = None, rd_network = ''dac-hive'', rd_port = np_port p,
         rd_hostVolumes = np_hostVolumes p, rd_namedVolumes = named_volumes_of p, rd_memoryLimitMb = None\<rparr>\<rparr>
   | MachineNode h u \<Rightarrow> base\<lparr>rs_command := [], rs_args := machine_args p, rs_env := [], rs_readyTimeoutMs := 120000, rs_runner := RunAgent, rs_host := Some h\<rparr>
   | LocalNode \<Rightarrow> base)"

definition endpoint_memory :: "prov_env \<Rightarrow> node_plan \<Rightarrow> resolved_endpoint" where
  "endpoint_memory pe p = \<lparr>re_id = np_name p, re_url = node_url p, re_driver = Apiproxy, re_prefix = ''/api-gw/v1/proxy'', re_key = pe_key pe,
     re_sandboxBase = Some (node_url p @ ''/api-gw/v1''), re_sandboxKey = pe_key pe, re_spawn = Some (spawn_memory pe p), re_access = None\<rparr>"

definition hotLoadAgent :: "id \<Rightarrow> agent_spec \<Rightarrow> resolved_agent" where
  "hotLoadAgent ep a = \<lparr>ra_id = as_id a, ra_name = as_name a, ra_endpoint = ep, ra_workspacePath = as_workspace a, ra_public = False,
     ra_preset = Some (as_preset a), ra_sandboxMode = Some (as_sandboxMode a), ra_gitRemote = None, ra_provider = None, ra_model = None, ra_validate = None\<rparr>"

text \<open>\<^verbatim>\<open>setIn\<close> and \<^verbatim>\<open>deleteIn\<close> of a document at a path of two names; a section that is not a collection throws.\<close>

definition set_in :: "string \<Rightarrow> string \<Rightarrow> yaml \<Rightarrow> yaml \<Rightarrow> yaml option" where
  "set_in a b v doc = (case doc of
     YMap kvs \<Rightarrow> (case map_of kvs a of
         None \<Rightarrow> Some (YMap (assign a (YMap [(b, v)]) kvs))
       | Some (YMap ys) \<Rightarrow> Some (YMap (assign a (YMap (assign b v ys)) kvs))
       | Some x \<Rightarrow> None)
   | _ \<Rightarrow> None)"

definition delete_in :: "string \<Rightarrow> string \<Rightarrow> yaml \<Rightarrow> yaml option" where
  "delete_in a b doc = (case doc of
     YMap kvs \<Rightarrow> (case map_of kvs a of
         Some (YMap ys) \<Rightarrow> Some (YMap (assign a (YMap (filter (\<lambda>(k, v). k \<noteq> b) ys)) kvs))
       | _ \<Rightarrow> None)
   | _ \<Rightarrow> None)"

definition node_document :: "prov_env \<Rightarrow> node_plan \<Rightarrow> yaml \<Rightarrow> yaml option" where
  "node_document pe p doc = (case set_in ''endpoints'' (np_name p) (endpoint_yaml pe p) doc of
     None \<Rightarrow> None
   | Some d \<Rightarrow> (case np_agent p of None \<Rightarrow> Some d | Some a \<Rightarrow> set_in ''agents'' (as_id a) (agent_yaml (np_name p) a) d))"

section \<open>The pipeline\<close>

text \<open>
  The steps at which the code may throw. The first row is the request up to its wait for the lock of the configuration, the second what runs
  under the lock (\<open>Reread\<close> is the check of the file after the write, \<open>RestoreVersion\<close> the writing back of the earlier version when that
  check fails), the third the hot load and the reconciliation, the last the rollback, where a failure is caught and the next step goes on.
\<close>

datatype prov_step =
    FindBin | MakeProfile | CopyCredentials | PlaceKey | MakeWorkspace | LookupRow | WriteAudit | ReadFile
  | WriteEnv | WriteFile | Reread | RestoreVersion
  | Mirror | Converge
  | RemoveRow | RestoreFile | RestoreEnv | RemoveHome | MirrorAgain | AuditAgain

record ledger =
  lg_dbRow :: bool
  lg_seen :: "(string option \<times> yaml) option"
  lg_env :: "string option option"
  lg_yaml :: "yaml option"
  lg_started :: bool
  lg_home :: bool

definition empty_ledger :: ledger where
  "empty_ledger = \<lparr>lg_dbRow = False, lg_seen = None, lg_env = None, lg_yaml = None, lg_started = False, lg_home = False\<rparr>"

fun run_steps :: "('s \<Rightarrow> 's \<times> string option) list \<Rightarrow> 's \<Rightarrow> 's \<times> string option" where
  "run_steps [] s = (s, None)"
| "run_steps (f # fs) s = (case f s of (s1, None) \<Rightarrow> run_steps fs s1 | (s1, Some e) \<Rightarrow> (s1, Some e))"

type_synonym faults = "prov_step \<Rightarrow> string option"

definition step_at :: "faults \<Rightarrow> prov_step \<Rightarrow> (prov_state \<times> ledger \<Rightarrow> prov_state \<times> ledger) \<Rightarrow> prov_state \<times> ledger \<Rightarrow> (prov_state \<times> ledger) \<times> string option" where
  "step_at fault k f x = (case fault k of Some e \<Rightarrow> (x, Some e) | None \<Rightarrow> (f x, None))"

definition mark_db :: "node_plan \<Rightarrow> prov_state \<times> ledger \<Rightarrow> prov_state \<times> ledger" where
  "mark_db p x = (case x of (s, g) \<Rightarrow> (s, g\<lparr>lg_dbRow := (case np_agent p of None \<Rightarrow> False | Some a \<Rightarrow> as_id a \<notin> agent_id ` set (db_agents (ps_db s)))\<rparr>))"

definition make_workspace :: "node_plan \<Rightarrow> prov_state \<times> ledger \<Rightarrow> prov_state \<times> ledger" where
  "make_workspace p x = (case x of (s, g) \<Rightarrow> ((case np_agent p of None \<Rightarrow> s | Some a \<Rightarrow> s\<lparr>ps_workspaces := List.insert (as_workspace a) (ps_workspaces s)\<rparr>), g))"

definition make_profile :: "node_plan \<Rightarrow> prov_state \<times> ledger \<Rightarrow> prov_state \<times> ledger" where
  "make_profile p x = (case x of (s, g) \<Rightarrow> (s\<lparr>ps_homes := List.insert (np_name p) (ps_homes s)\<rparr>, g\<lparr>lg_home := True\<rparr>))"

definition create_detail :: "node_plan \<Rightarrow> string" where
  "create_detail p = ''node '' @ np_name p @ (case np_form p of ContainerNode \<Rightarrow> '' (docker node'' | MachineNode h u \<Rightarrow> '' (agent remote host process, host='' @ h
       | LocalNode \<Rightarrow> if np_explicitProcess p then '' (host process'' else '' (process'') @ '', port '' @ show_int (np_port p) @ '', workspace '' @
     (case np_agent p of Some a \<Rightarrow> as_workspace a | None \<Rightarrow> em_dash) @ '')''"

definition create_kind :: "node_plan \<Rightarrow> string" where
  "create_kind p = (case np_form p of ContainerNode \<Rightarrow> ''node_create'' | MachineNode h u \<Rightarrow> ''node_create_host''
     | LocalNode \<Rightarrow> if np_explicitProcess p then ''node_create_host'' else ''node_create'')"

definition write_audit :: "prov_env \<Rightarrow> time \<Rightarrow> node_plan \<Rightarrow> prov_state \<times> ledger \<Rightarrow> prov_state \<times> ledger" where
  "write_audit pe now p x = (case x of (s, g) \<Rightarrow> (s\<lparr>ps_db := recordAudit (ps_db s) now (pe_actor pe) (create_kind p) (create_detail p)\<rparr>, g))"

text \<open>
  \<^verbatim>\<open>writeNodeTruth\<close> in its two halves: it reads both files, and waits for the lock; with the lock it writes them. What it has read is the
  snapshot a rollback restores, but it reaches the ledger only when both files are written.
\<close>

definition read_truth :: "prov_state \<times> ledger \<Rightarrow> prov_state \<times> ledger" where
  "read_truth x = (case x of (s, g) \<Rightarrow> (s, g\<lparr>lg_seen := Some (ps_env s, ps_file s)\<rparr>))"

definition write_doc :: "faults \<Rightarrow> yaml option \<Rightarrow> yaml \<Rightarrow> yaml \<times> string option" where
  "write_doc fault new old = (case new of
     None \<Rightarrow> (old, Some ''Expected YAML collection'')
   | Some doc \<Rightarrow> if doc = old then (old, None)
     else (case fault WriteFile of Some e \<Rightarrow> (old, Some e)
       | None \<Rightarrow> (case fault Reread of None \<Rightarrow> (doc, None)
         | Some e \<Rightarrow> (case fault RestoreVersion of None \<Rightarrow> (old, Some (''config write rejected (validation failed, previous version restored): '' @ e))
           | Some r \<Rightarrow> (doc, Some (''config write rejected and restore failed: '' @ e @ ''; restore: '' @ r))))))"

definition secret_text :: "prov_env \<Rightarrow> node_plan \<Rightarrow> prov_state \<Rightarrow> string" where
  "secret_text pe p s = fst (mergeEnv (ps_env s) [(key_ref_of (np_name p), pe_key pe)] [key_ref_of (np_name p)])"

definition write_truth :: "faults \<Rightarrow> prov_env \<Rightarrow> node_plan \<Rightarrow> prov_state \<times> ledger \<Rightarrow> (prov_state \<times> ledger) \<times> string option" where
  "write_truth fault pe p x = (case x of (s, g) \<Rightarrow>
     (case fault WriteEnv of Some e \<Rightarrow> (x, Some e)
      | None \<Rightarrow> (let w = write_doc fault (node_document pe p (ps_file s)) (ps_file s); s1 = s\<lparr>ps_env := Some (secret_text pe p s), ps_file := fst w\<rparr> in
         (case snd w of
            None \<Rightarrow> ((s1, g\<lparr>lg_env := map_option fst (lg_seen g), lg_yaml := map_option snd (lg_seen g)\<rparr>), None)
          | Some e \<Rightarrow> ((s1, g), Some e)))))"

text \<open>Assigning to a member of an object and \<^verbatim>\<open>Map.set\<close>: an entry that is there is replaced in its place.\<close>

definition put_by :: "('a \<Rightarrow> 'k) \<Rightarrow> 'a \<Rightarrow> 'a list \<Rightarrow> 'a list" where
  "put_by k x xs = (if k x \<in> k ` set xs then map (\<lambda>y. if k y = k x then x else y) xs else xs @ [x])"

definition hot_load :: "prov_env \<Rightarrow> time \<Rightarrow> node_plan \<Rightarrow> prov_state \<times> ledger \<Rightarrow> prov_state \<times> ledger" where
  "hot_load pe now p x = (case x of (s, g) \<Rightarrow>
     (s\<lparr>ps_endpoints := put_by re_id (endpoint_memory pe p) (ps_endpoints s), ps_upstreams := List.insert (np_name p) (ps_upstreams s),
        ps_supervisors := put_by fst (np_name p, new_supervisor now) (ps_supervisors s),
        ps_agents := (case np_agent p of None \<Rightarrow> ps_agents s | Some a \<Rightarrow> put_by ra_id (hotLoadAgent (np_name p) a) (ps_agents s))\<rparr>,
      g\<lparr>lg_started := (np_form p \<noteq> LocalNode)\<rparr>))"

definition face_of :: "resolved_agent \<Rightarrow> agent_face" where
  "face_of a = \<lparr>af_id = ra_id a, af_name = ra_name a, af_workspacePath = ra_workspacePath a, af_endpoint = ra_endpoint a, af_preset = ra_preset a,
     af_gitRemote = ra_gitRemote a, af_public = ra_public a\<rparr>"

definition spawn_spec_of :: "resolved_spawn \<Rightarrow> spawn_spec" where
  "spawn_spec_of r = \<lparr>sp_runner = (case rs_runner r of RunProcess \<Rightarrow> ProcessRunner | RunDocker \<Rightarrow> DockerRunner | RunAgent \<Rightarrow> AgentRunner),
     sp_host = rs_host r, sp_docker = map_option rd_image (rs_docker r), sp_readyTimeoutMs = rs_readyTimeoutMs r, sp_maxAttempts = rs_maxAttempts r,
     sp_baseDelayMs = rs_baseDelayMs r, sp_maxDelayMs = rs_maxDelayMs r, sp_logFile = rs_logFile r\<rparr>"

definition spawn_table :: "resolved_endpoint list \<Rightarrow> id \<rightharpoonup> spawn_spec" where
  "spawn_table eps i = (case endpoint_of eps i of None \<Rightarrow> None | Some e \<Rightarrow> map_option spawn_spec_of (re_spawn e))"

definition hot_opts :: "id set \<Rightarrow> reconcile_opts" where
  "hot_opts only = \<lparr>opt_runHygiene = False, opt_healOnly = False, opt_onlyNodes = Some only, opt_removeStaleAgents = False, opt_sweepIdle = False\<rparr>"

text \<open>
  The reconciliation of a hot change: the mirror at once; then, when the documents of the fleet have been written, the nodes in \<open>only\<close>.
\<close>

record node_side =
  ns_deps :: supervisor_deps
  ns_env :: env
  ns_world :: "id \<Rightarrow> node_world"

definition mirror_hot :: "node_side \<Rightarrow> id set \<Rightarrow> prov_state \<Rightarrow> prov_state" where
  "mirror_hot nd only s = s\<lparr>ps_db := fst (reconcile_db (Reconcile.reconcile_config.make (map face_of (ps_agents s)) (spawn_table (ps_endpoints s)) [])
     (hot_opts only) (env_now (ns_env nd)) (ps_db s))\<rparr>"

definition converge_hot :: "node_side \<Rightarrow> id set \<Rightarrow> prov_state \<Rightarrow> prov_state" where
  "converge_hot nd only s =
     s\<lparr>ps_supervisors := convergeNodes (ns_deps nd) (ns_env nd) (ns_world nd) (spawn_table (ps_endpoints s)) False (Some only) (ps_supervisors s)\<rparr>"

definition reconcile_hot :: "faults \<Rightarrow> node_side \<Rightarrow> id set \<Rightarrow> prov_state \<Rightarrow> prov_state \<times> string option" where
  "reconcile_hot fault nd only s = (case fault Mirror of
     Some e \<Rightarrow> (s, Some e)
   | None \<Rightarrow> (case fault Converge of Some e \<Rightarrow> (mirror_hot nd only s, Some e) | None \<Rightarrow> (converge_hot nd only (mirror_hot nd only s), None)))"

definition on_state :: "(prov_state \<Rightarrow> prov_state) \<Rightarrow> prov_state \<times> ledger \<Rightarrow> prov_state \<times> ledger" where
  "on_state f x = (f (fst x), snd x)"

definition started_now :: "node_plan \<Rightarrow> id set" where
  "started_now p = (if np_form p = LocalNode then {} else {np_name p})"

text \<open>
  The request in its four stretches; the handler waits between one and the next (for the lock, for the lock's promise, for the documents of the fleet
  and the nodes), and other requests may run there.
\<close>

type_synonym pipe_step = "prov_state \<times> ledger \<Rightarrow> (prov_state \<times> ledger) \<times> string option"

definition before_lock :: "faults \<Rightarrow> node_side \<Rightarrow> prov_env \<Rightarrow> node_plan \<Rightarrow> pipe_step list" where
  "before_lock fault nd pe p = (case np_form p of
        ContainerNode \<Rightarrow> [step_at fault MakeWorkspace (make_workspace p)]
      | MachineNode h u \<Rightarrow> []
      | LocalNode \<Rightarrow> [step_at fault FindBin id, step_at fault MakeProfile (make_profile p), step_at fault CopyCredentials id, step_at fault PlaceKey id,
          step_at fault MakeWorkspace (make_workspace p)]) @
     [step_at fault LookupRow (mark_db p), step_at fault WriteAudit (write_audit pe (env_now (ns_env nd)) p), step_at fault ReadFile read_truth]"

definition load_steps :: "faults \<Rightarrow> node_side \<Rightarrow> prov_env \<Rightarrow> node_plan \<Rightarrow> pipe_step list" where
  "load_steps fault nd pe p = [(\<lambda>x. (hot_load pe (env_now (ns_env nd)) p x, None)), step_at fault Mirror (on_state (mirror_hot nd (started_now p)))]"

definition converge_steps :: "faults \<Rightarrow> node_side \<Rightarrow> node_plan \<Rightarrow> pipe_step list" where
  "converge_steps fault nd p = [step_at fault Converge (on_state (converge_hot nd (started_now p)))]"

definition pipeline :: "faults \<Rightarrow> node_side \<Rightarrow> prov_env \<Rightarrow> node_plan \<Rightarrow> pipe_step list" where
  "pipeline fault nd pe p = before_lock fault nd pe p @ [write_truth fault pe p] @ load_steps fault nd pe p @ converge_steps fault nd p"

section \<open>The rollback\<close>

definition forget_node :: "node_plan \<Rightarrow> prov_state \<Rightarrow> prov_state" where
  "forget_node p s = (if endpoint_of (ps_endpoints s) (np_name p) \<noteq> None
     then s\<lparr>ps_endpoints := del_where (\<lambda>e. re_id e = np_name p) (ps_endpoints s), ps_upstreams := removeAll (np_name p) (ps_upstreams s)\<rparr> else s)"

definition forget_agent :: "node_plan \<Rightarrow> prov_state \<Rightarrow> prov_state" where
  "forget_agent p s = (case np_agent p of None \<Rightarrow> s | Some a \<Rightarrow> s\<lparr>ps_agents := del_where (\<lambda>r. ra_id r = as_id a) (ps_agents s)\<rparr>)"

definition deregister :: "ledger \<Rightarrow> node_plan \<Rightarrow> prov_state \<Rightarrow> prov_state" where
  "deregister g p s = (if lg_started g then s\<lparr>ps_supervisors := del_where (\<lambda>v. fst v = np_name p) (ps_supervisors s)\<rparr> else s)"

definition forget_row :: "faults \<Rightarrow> ledger \<Rightarrow> node_plan \<Rightarrow> prov_state \<Rightarrow> prov_state" where
  "forget_row fault g p s = (case np_agent p of None \<Rightarrow> s
     | Some a \<Rightarrow> if lg_dbRow g \<and> fault RemoveRow = None then s\<lparr>ps_db := removeAgentRow (ps_db s) (as_id a)\<rparr> else s)"

definition restore_file :: "faults \<Rightarrow> ledger \<Rightarrow> prov_state \<Rightarrow> prov_state" where
  "restore_file fault g s = (case lg_yaml g of None \<Rightarrow> s | Some y \<Rightarrow> if fault RestoreFile = None then s\<lparr>ps_file := y\<rparr> else s)"

definition restore_env :: "faults \<Rightarrow> ledger \<Rightarrow> prov_state \<Rightarrow> prov_state" where
  "restore_env fault g s = (case lg_env g of None \<Rightarrow> s | Some e \<Rightarrow> if fault RestoreEnv = None then s\<lparr>ps_env := e\<rparr> else s)"

definition remove_home :: "faults \<Rightarrow> ledger \<Rightarrow> node_plan \<Rightarrow> prov_state \<Rightarrow> prov_state" where
  "remove_home fault g p s = (if lg_home g \<and> fault RemoveHome = None then s\<lparr>ps_homes := removeAll (np_name p) (ps_homes s)\<rparr> else s)"

definition note_failure :: "faults \<Rightarrow> node_side \<Rightarrow> prov_env \<Rightarrow> string \<Rightarrow> prov_state \<Rightarrow> prov_state" where
  "note_failure fault nd pe msg s = (let s1 = (if fault MirrorAgain = None then mirror_hot nd {} s else s) in
     (if fault AuditAgain = None then s1\<lparr>ps_db := recordAudit (ps_db s1) (env_now (ns_env nd)) (pe_actor pe) ''node_create'' (''failed: '' @ msg)\<rparr> else s1))"

definition rollback_node :: "faults \<Rightarrow> node_side \<Rightarrow> prov_env \<Rightarrow> node_plan \<Rightarrow> string \<Rightarrow> prov_state \<times> ledger \<Rightarrow> prov_state" where
  "rollback_node fault nd pe p msg x = (case x of (s, g) \<Rightarrow>
     note_failure fault nd pe msg (remove_home fault g p (restore_env fault g (restore_file fault g
       (forget_row fault g p (forget_agent p (forget_node p (deregister g p s))))))))"

text \<open>A request that is handled to its end before any other runs.\<close>

datatype prov_reply = PvRefused prov_refusal | PvCreated201 id int | PvFailed500 string

definition create_node :: "faults \<Rightarrow> node_side \<Rightarrow> prov_env \<Rightarrow> provision_body \<Rightarrow> prov_state \<Rightarrow> prov_state \<times> prov_reply" where
  "create_node fault nd pe b s = (case plan_node pe s b of
     Inl e \<Rightarrow> (s, PvRefused e)
   | Inr p \<Rightarrow> (case run_steps (pipeline fault nd pe p) (s, empty_ledger) of
       ((s1, g), None) \<Rightarrow> (s1, PvCreated201 (np_name p) (np_port p))
     | ((s1, g), Some msg) \<Rightarrow> (rollback_node fault nd pe p msg (s1, g), PvFailed500 msg)))"

text \<open>The background install of a local node has ended; \<open>ownBin\<close> is the program it has put into the profile, if any.\<close>

definition install_ends :: "faults \<Rightarrow> node_side \<Rightarrow> prov_env \<Rightarrow> node_plan \<Rightarrow> bool \<Rightarrow> string option \<Rightarrow> string option \<Rightarrow> prov_state \<Rightarrow> prov_state" where
  "install_ends fault nd pe p rolledBack installError ownBin s =
     (if rolledBack then s
      else (let s1 = (case installError of None \<Rightarrow> s
              | Some m \<Rightarrow> s\<lparr>ps_db := recordAudit (ps_db s) (env_now (ns_env nd)) (pe_actor pe) ''node_create'' (''failed: dependency install for node '' @ np_name p @ '' failed: '' @ m)\<rparr>);
            s2 = (case ownBin of None \<Rightarrow> s1
              | Some bin \<Rightarrow> s1\<lparr>ps_endpoints := upd_where (\<lambda>e. re_id e = np_name p) (\<lambda>e. e\<lparr>re_spawn := Some (spawnFor pe bin p)\<rparr>) (ps_endpoints s1)\<rparr>)
            in fst (reconcile_hot fault nd {np_name p} s2)))"

section \<open>Deleting a node\<close>

datatype delete_reply = PvUnknownNode404 | PvNotManaged409 | PvDeleteThrew500 | PvDeleted200 "id list"

definition delete_document :: "id \<Rightarrow> id list \<Rightarrow> yaml \<Rightarrow> yaml option" where
  "delete_document i bound doc = fold (\<lambda>a d. case d of None \<Rightarrow> None | Some y \<Rightarrow> delete_in ''agents'' a y) bound (delete_in ''endpoints'' i doc)"

text \<open>The memory first; then, with the lock, the file, the audit and the reconciliation.\<close>

definition delete_memory :: "id \<Rightarrow> prov_state \<Rightarrow> delete_reply + prov_state \<times> id list" where
  "delete_memory i s = (case endpoint_of (ps_endpoints s) i of
     None \<Rightarrow> Inl PvUnknownNode404
   | Some e \<Rightarrow> if re_spawn e = None \<or> i \<notin> fst ` set (ps_supervisors s) then Inl PvNotManaged409
       else Inr (s\<lparr>ps_supervisors := del_where (\<lambda>v. fst v = i) (ps_supervisors s), ps_endpoints := del_where (\<lambda>e. re_id e = i) (ps_endpoints s),
                   ps_agents := del_where (\<lambda>a. ra_endpoint a = i) (ps_agents s)\<rparr>,
                 map ra_id (filter (\<lambda>a. ra_endpoint a = i) (ps_agents s))))"

definition delete_truth :: "faults \<Rightarrow> node_side \<Rightarrow> prov_env \<Rightarrow> id \<Rightarrow> id list \<Rightarrow> prov_state \<Rightarrow> prov_state \<times> delete_reply" where
  "delete_truth fault nd pe i bound s = (let w = write_doc fault (delete_document i bound (ps_file s)) (ps_file s); s1 = s\<lparr>ps_file := fst w\<rparr> in
     (if snd w \<noteq> None then (s1, PvDeleteThrew500)
      else (case fault WriteAudit of Some e \<Rightarrow> (s1, PvDeleteThrew500)
        | None \<Rightarrow> (case reconcile_hot fault nd {} (s1\<lparr>ps_db := recordAudit (ps_db s1) (env_now (ns_env nd)) (pe_actor pe) ''node_delete'' (''node '' @ i @ '' deleted (files on disk are kept)'')\<rparr>) of
            (s2, None) \<Rightarrow> (s2, PvDeleted200 bound)
          | (s2, Some m) \<Rightarrow> (s2, PvDeleteThrew500)))))"

definition delete_node :: "faults \<Rightarrow> node_side \<Rightarrow> prov_env \<Rightarrow> id \<Rightarrow> prov_state \<Rightarrow> prov_state \<times> delete_reply" where
  "delete_node fault nd pe i s = (case delete_memory i s of Inl r \<Rightarrow> (s, r) | Inr (s1, bound) \<Rightarrow> delete_truth fault nd pe i bound s1)"

section \<open>Requests that overlap\<close>

text \<open>
  The requests that are open: those that wait for the lock, in the order they came (\<^verbatim>\<open>withConfigLock\<close> is a queue); additions whose files are
  written and whose handlers have not gone on; additions that wait for the documents of the fleet and for their node. What a deletion does
  after its write changes nothing that others wait for, so it is one event with the write.
\<close>

record open_add =
  oa_side :: node_side
  oa_fault :: faults
  oa_plan :: node_plan
  oa_ledger :: ledger

datatype lock_job = AddJob open_add | DeleteJob faults node_side id "id list"

record prov_world =
  pw_state :: prov_state
  pw_lock :: "lock_job list"
  pw_written :: "open_add list"
  pw_loaded :: "open_add list"

datatype prov_event =
    AddRequested faults node_side provision_body
  | DeleteRequested faults node_side id
  | LockGranted
  | AddResumed nat
  | AddConverged nat
  | InstallEnds faults node_side node_plan bool "string option" "string option"

definition undo_add :: "prov_env \<Rightarrow> open_add \<Rightarrow> string \<Rightarrow> prov_state \<times> ledger \<Rightarrow> prov_state" where
  "undo_add pe a msg x = rollback_node (oa_fault a) (oa_side a) pe (oa_plan a) msg x"

definition without :: "nat \<Rightarrow> 'a list \<Rightarrow> 'a list" where
  "without k xs = take k xs @ drop (Suc k) xs"

fun prov_handle :: "prov_env \<Rightarrow> prov_world \<Rightarrow> prov_event \<Rightarrow> prov_world" where
  "prov_handle pe w (AddRequested fault nd b) = (case plan_node pe (pw_state w) b of
     Inl e \<Rightarrow> w
   | Inr p \<Rightarrow> (case run_steps (before_lock fault nd pe p) (pw_state w, empty_ledger) of
       ((s, g), None) \<Rightarrow> w\<lparr>pw_state := s, pw_lock := pw_lock w @ [AddJob \<lparr>oa_side = nd, oa_fault = fault, oa_plan = p, oa_ledger = g\<rparr>]\<rparr>
     | (x, Some msg) \<Rightarrow> w\<lparr>pw_state := rollback_node fault nd pe p msg x\<rparr>))"
| "prov_handle pe w (DeleteRequested fault nd i) = (case delete_memory i (pw_state w) of
     Inl r \<Rightarrow> w
   | Inr (s, bound) \<Rightarrow> w\<lparr>pw_state := s, pw_lock := pw_lock w @ [DeleteJob fault nd i bound]\<rparr>)"
| "prov_handle pe w LockGranted = (case pw_lock w of
     [] \<Rightarrow> w
   | AddJob a # js \<Rightarrow> (case write_truth (oa_fault a) pe (oa_plan a) (pw_state w, oa_ledger a) of
       ((s, g), None) \<Rightarrow> w\<lparr>pw_state := s, pw_lock := js, pw_written := pw_written w @ [a\<lparr>oa_ledger := g\<rparr>]\<rparr>
     | (x, Some msg) \<Rightarrow> w\<lparr>pw_state := undo_add pe a msg x, pw_lock := js\<rparr>)
   | DeleteJob fault nd i bound # js \<Rightarrow> w\<lparr>pw_state := fst (delete_truth fault nd pe i bound (pw_state w)), pw_lock := js\<rparr>)"
| "prov_handle pe w (AddResumed k) = (if k < length (pw_written w) then
     (let a = pw_written w ! k; w1 = w\<lparr>pw_written := without k (pw_written w)\<rparr> in
       (case run_steps (load_steps (oa_fault a) (oa_side a) pe (oa_plan a)) (pw_state w, oa_ledger a) of
          ((s, g), None) \<Rightarrow> w1\<lparr>pw_state := s, pw_loaded := pw_loaded w @ [a\<lparr>oa_ledger := g\<rparr>]\<rparr>
        | (x, Some msg) \<Rightarrow> w1\<lparr>pw_state := undo_add pe a msg x\<rparr>))
     else w)"
| "prov_handle pe w (AddConverged k) = (if k < length (pw_loaded w) then
     (let a = pw_loaded w ! k; w1 = w\<lparr>pw_loaded := without k (pw_loaded w)\<rparr> in
       (case run_steps (converge_steps (oa_fault a) (oa_side a) (oa_plan a)) (pw_state w, oa_ledger a) of
          ((s, g), None) \<Rightarrow> w1\<lparr>pw_state := s\<rparr>
        | (x, Some msg) \<Rightarrow> w1\<lparr>pw_state := undo_add pe a msg x\<rparr>))
     else w)"
| "prov_handle pe w (InstallEnds fault nd p rolledBack err bin) = w\<lparr>pw_state := install_ends fault nd pe p rolledBack err bin (pw_state w)\<rparr>"

definition quiet :: "prov_state \<Rightarrow> prov_world" where
  "quiet s = \<lparr>pw_state = s, pw_lock = [], pw_written = [], pw_loaded = []\<rparr>"

section \<open>The suggested port\<close>

lemma next_free_least: "next_free used port \<notin> set used \<and> port \<le> next_free used port \<and> (\<forall>q. port \<le> q \<and> q < next_free used port \<longrightarrow> q \<in> set used)"
proof (induction used port rule: next_free.induct)
  case (1 used port)
  show ?case
  proof (cases "port \<in> set used")
    case True
    have "q \<in> set used" if "port \<le> q" "q < next_free used (port + 1)" for q
      using 1 [OF True] True that by (cases "q = port") auto
    then show ?thesis using 1 [OF True] True by (subst (1 2 3) next_free.simps) auto
  next
    case False
    then show ?thesis by (subst (1 2 3) next_free.simps) auto
  qed
qed

lemma usedPorts_set: "q \<in> set (usedPorts pe eps) \<longleftrightarrow> q = pe_listenPort pe \<or> (\<exists>e \<in> set eps. pe_urlPort pe (re_url e) = Some q)"
  by (force simp: usedPorts_def List.map_filter_def)

text \<open>
  Claim C40. The port suggested for a node is at least 3090, is neither the port the manager listens on nor the port in the address of any
  node, and is the least such port: every port from 3090 up to it is the manager's or in the address of a node. The search for it always ends.
\<close>

theorem suggested_port_least:
  "suggestPort pe eps \<noteq> pe_listenPort pe \<and> (\<forall>e \<in> set eps. pe_urlPort pe (re_url e) \<noteq> Some (suggestPort pe eps)) \<and> 3090 \<le> suggestPort pe eps \<and>
   (\<forall>q. 3090 \<le> q \<and> q < suggestPort pe eps \<longrightarrow> q = pe_listenPort pe \<or> (\<exists>e \<in> set eps. pe_urlPort pe (re_url e) = Some q))"
  using next_free_least [of "usedPorts pe eps" 3090] unfolding suggestPort_def [symmetric] usedPorts_set by blast

section \<open>Planning\<close>

lemma plan_node_Inr:
  assumes "plan_node pe s b = Inr p"
  shows "provisionBody (pe_is_url pe) b" "endpoint_of (ps_endpoints s) (np_name p) = None" "np_name p = pb_name b" "np_form p = form_of (ps_endpoints s) b"
    "\<And>a. np_agent p = Some a \<Longrightarrow> agent_named (ps_agents s) (as_id a) = None"
    "np_pin p = (case pb_dsh_version b of None \<Rightarrow> None | Some v \<Rightarrow> map_option (\<lambda>q. (dp_dsh q, dp_gateway q)) (resolvePair v))"
    "np_agent p = map_option (spec_of pe (ps_endpoints s) b) (pb_agent b)"
    "np_port p \<notin> set (usedPorts pe (ps_endpoints s))"
proof -
  let ?pair = "case pb_dsh_version b of None \<Rightarrow> None | Some v \<Rightarrow> resolvePair v" and ?spec = "map_option (spec_of pe (ps_endpoints s) b) (pb_agent b)"
  let ?port = "case pb_port b of Some p \<Rightarrow> p | None \<Rightarrow> suggestPort pe (ps_endpoints s)"
  have all: "provisionBody (pe_is_url pe) b \<and> endpoint_of (ps_endpoints s) (pb_name b) = None \<and>
      \<not> (case ?spec of None \<Rightarrow> False | Some a \<Rightarrow> agent_named (ps_agents s) (as_id a) \<noteq> None) \<and> ?port \<notin> set (usedPorts pe (ps_endpoints s)) \<and>
      \<lparr>np_name = pb_name b, np_port = ?port, np_form = form_of (ps_endpoints s) b, np_agent = ?spec, np_pin = map_option (\<lambda>p. (dp_dsh p, dp_gateway p)) ?pair,
       np_hostVolumes = host_volumes_of pe (ps_endpoints s) b, np_explicitProcess = (pb_runner b = Some RunProcess), np_install = (pb_install b \<noteq> Some False)\<rparr> = p"
    using assms unfolding plan_node_def Let_def bindE_Inr failIf_Inr by blast
  show "provisionBody (pe_is_url pe) b" using all by blast
  have p: "p = \<lparr>np_name = pb_name b, np_port = ?port, np_form = form_of (ps_endpoints s) b, np_agent = ?spec, np_pin = map_option (\<lambda>p. (dp_dsh p, dp_gateway p)) ?pair,
       np_hostVolumes = host_volumes_of pe (ps_endpoints s) b, np_explicitProcess = (pb_runner b = Some RunProcess), np_install = (pb_install b \<noteq> Some False)\<rparr>"
    using all by blast
  show "endpoint_of (ps_endpoints s) (np_name p) = None" "np_port p \<notin> set (usedPorts pe (ps_endpoints s))" using all unfolding p by simp_all
  show "np_name p = pb_name b" "np_form p = form_of (ps_endpoints s) b" "np_agent p = ?spec" unfolding p by simp_all
  show "np_pin p = (case pb_dsh_version b of None \<Rightarrow> None | Some v \<Rightarrow> map_option (\<lambda>q. (dp_dsh q, dp_gateway q)) (resolvePair v))"
    unfolding p by (simp split: option.split)
  show "agent_named (ps_agents s) (as_id a) = None" if "np_agent p = Some a" for a using all that unfolding p by auto
qed

section \<open>The stretches of a request\<close>

lemma run_steps_append:
  "run_steps (fs @ gs) s = (case run_steps fs s of (s1, None) \<Rightarrow> run_steps gs s1 | (s1, Some e) \<Rightarrow> (s1, Some e))"
  by (induction fs arbitrary: s) (auto split: prod.split option.split)

lemma run_steps_keeps: "(\<And>f x. f \<in> set fs \<Longrightarrow> I x \<Longrightarrow> I (fst (f x))) \<Longrightarrow> I x \<Longrightarrow> I (fst (run_steps fs x))"
proof (induction fs arbitrary: x)
  case (Cons f fs)
  have "I (fst (f x))" using Cons.prems by simp
  then show ?case using Cons.IH [of "fst (f x)"] Cons.prems(1) by (cases "f x") (auto split: option.split)
qed simp

definition same_memory :: "prov_state \<Rightarrow> prov_state \<Rightarrow> bool" where
  "same_memory s t \<longleftrightarrow> ps_endpoints t = ps_endpoints s \<and> ps_agents t = ps_agents s \<and> ps_upstreams t = ps_upstreams s \<and> ps_supervisors t = ps_supervisors s"

text \<open>Up to its wait for the lock a request has changed nothing that a rollback restores.\<close>

definition untouched :: "prov_state \<Rightarrow> prov_state \<times> ledger \<Rightarrow> bool" where
  "untouched s0 x \<longleftrightarrow> (case x of (s, g) \<Rightarrow> same_memory s0 s \<and> ps_file s = ps_file s0 \<and> ps_env s = ps_env s0 \<and> lg_yaml g = None \<and> lg_env g = None \<and> \<not> lg_started g)"

lemma before_step_untouched:
  assumes "f \<in> set (before_lock fault nd pe p)" "untouched s0 x"
  shows "untouched s0 (fst (f x))"
proof -
  let ?fs = "{id, make_workspace p, make_profile p, mark_db p, write_audit pe (env_now (ns_env nd)) p, read_truth}"
  have "untouched s0 (g x)" if "g \<in> ?fs" for g
    using that assms(2)
    by (cases x) (auto simp: untouched_def same_memory_def make_workspace_def make_profile_def mark_db_def write_audit_def read_truth_def split: option.split)
  moreover obtain k g where "f = step_at fault k g" "g \<in> ?fs"
    using assms(1) by (auto simp: before_lock_def split: node_form.splits)
  ultimately show ?thesis using assms(2) by (auto simp: step_at_def split: option.split)
qed

lemma before_lock_last: "\<exists>fs. before_lock fault nd pe p = fs @ [step_at fault ReadFile read_truth]"
  by (cases "np_form p") (simp_all add: before_lock_def)

lemma before_lock_run:
  assumes "run_steps (before_lock fault nd pe p) (s0, empty_ledger) = (x, r)"
  shows "untouched s0 x" "r = None \<Longrightarrow> lg_seen (snd x) = Some (ps_env s0, ps_file s0)"
proof -
  have u0: "untouched s0 (s0, empty_ledger)" by (simp add: untouched_def same_memory_def empty_ledger_def)
  have u: "untouched s0 (fst (run_steps fs (s0, empty_ledger)))" if fs: "set fs \<subseteq> set (before_lock fault nd pe p)" for fs
  proof (rule run_steps_keeps [where I = "untouched s0", OF _ u0])
    show "untouched s0 (fst (f x))" if "f \<in> set fs" "untouched s0 x" for f x
      by (rule before_step_untouched [OF _ that(2)]) (use fs that(1) in blast)
  qed
  show "untouched s0 x" using u [of "before_lock fault nd pe p"] assms by simp
  obtain fs where fs: "before_lock fault nd pe p = fs @ [step_at fault ReadFile read_truth]" using before_lock_last by blast
  obtain y q where y: "run_steps fs (s0, empty_ledger) = (y, q)" by fastforce
  have uy: "untouched s0 y" using u [of fs] y by (auto simp: fs)
  assume "r = None"
  then have "x = read_truth y" using assms by (auto simp: fs run_steps_append y step_at_def split: option.splits)
  with uy show "lg_seen (snd x) = Some (ps_env s0, ps_file s0)" by (cases y) (simp add: read_truth_def untouched_def)
qed

definition unrestored :: "faults \<Rightarrow> bool" where
  "unrestored fault \<longleftrightarrow> fault Reread \<noteq> None \<and> fault RestoreVersion \<noteq> None"

lemma write_doc_cases:
  "snd (write_doc fault new old) = None \<Longrightarrow> new = Some (fst (write_doc fault new old))"
  "snd (write_doc fault new old) \<noteq> None \<Longrightarrow> fst (write_doc fault new old) = old \<or> unrestored fault"
  "new \<noteq> None \<Longrightarrow> fault WriteFile = None \<Longrightarrow> fault Reread = None \<Longrightarrow> snd (write_doc fault new old) = None"
  by (auto simp: write_doc_def unrestored_def split: option.splits if_splits)

definition write_fails :: "faults \<Rightarrow> node_plan \<Rightarrow> prov_env \<Rightarrow> prov_state \<Rightarrow> bool" where
  "write_fails fault p pe s \<longleftrightarrow> snd (write_doc fault (node_document pe p (ps_file s)) (ps_file s)) \<noteq> None"

lemma write_truth_run:
  assumes "write_truth fault pe p (s, g) = ((t, h), r)"
  shows "same_memory s t"
    "r = None \<Longrightarrow> node_document pe p (ps_file s) = Some (ps_file t) \<and> h = g\<lparr>lg_env := map_option fst (lg_seen g), lg_yaml := map_option snd (lg_seen g)\<rparr>"
    "r \<noteq> None \<Longrightarrow> h = g \<and> (ps_file t = ps_file s \<or> unrestored fault) \<and> (ps_env t = ps_env s \<or> write_fails fault p pe s)"
proof -
  let ?w = "write_doc fault (node_document pe p (ps_file s)) (ps_file s)"
  show "same_memory s t" using assms by (auto simp: write_truth_def same_memory_def Let_def split: option.splits)
  show "node_document pe p (ps_file s) = Some (ps_file t) \<and> h = g\<lparr>lg_env := map_option fst (lg_seen g), lg_yaml := map_option snd (lg_seen g)\<rparr>" if "r = None"
    using assms that write_doc_cases(1) [of fault "node_document pe p (ps_file s)" "ps_file s"] by (auto simp: write_truth_def Let_def split: option.splits)
  show "h = g \<and> (ps_file t = ps_file s \<or> unrestored fault) \<and> (ps_env t = ps_env s \<or> write_fails fault p pe s)" if "r \<noteq> None"
    using assms that write_doc_cases(2) [of fault "node_document pe p (ps_file s)" "ps_file s"]
    by (auto simp: write_truth_def write_fails_def Let_def split: option.splits)
qed

definition agents_of :: "node_plan \<Rightarrow> id list" where
  "agents_of p = (case np_agent p of None \<Rightarrow> [] | Some a \<Rightarrow> [as_id a])"

text \<open>Memory as the hot load leaves it.\<close>

definition loaded_onto :: "prov_env \<Rightarrow> node_side \<Rightarrow> node_plan \<Rightarrow> prov_state \<Rightarrow> prov_state \<Rightarrow> bool" where
  "loaded_onto pe nd p s t \<longleftrightarrow>
     ps_endpoints t = put_by re_id (endpoint_memory pe p) (ps_endpoints s) \<and> ps_upstreams t = List.insert (np_name p) (ps_upstreams s) \<and>
     ps_agents t = (case np_agent p of None \<Rightarrow> ps_agents s | Some a \<Rightarrow> put_by ra_id (hotLoadAgent (np_name p) a) (ps_agents s)) \<and>
     ps_supervisors t = put_by fst (np_name p, new_supervisor (env_now (ns_env nd))) (ps_supervisors s)"

lemma load_run:
  assumes "run_steps (load_steps fault nd pe p) (s, g) = ((t, h), r)"
  shows "r = fault Mirror" "loaded_onto pe nd p s t" "h = g\<lparr>lg_started := (np_form p \<noteq> LocalNode)\<rparr>" "ps_file t = ps_file s" "ps_env t = ps_env s"
  using assms by (auto simp: load_steps_def hot_load_def step_at_def on_state_def mirror_hot_def loaded_onto_def split: option.splits)

lemma converge_run:
  assumes "run_steps (converge_steps fault nd p) (s, g) = ((t, h), r)"
  shows "r = fault Converge" "h = g" "ps_endpoints t = ps_endpoints s" "ps_agents t = ps_agents s" "ps_upstreams t = ps_upstreams s"
    "ps_file t = ps_file s" "ps_env t = ps_env s" "r \<noteq> None \<Longrightarrow> ps_supervisors t = ps_supervisors s"
  using assms by (auto simp: converge_steps_def step_at_def on_state_def converge_hot_def split: option.splits)

section \<open>Rollback\<close>

lemma mirror_hot_fields [simp]:
  "ps_endpoints (mirror_hot nd only s) = ps_endpoints s" "ps_agents (mirror_hot nd only s) = ps_agents s"
  "ps_upstreams (mirror_hot nd only s) = ps_upstreams s" "ps_supervisors (mirror_hot nd only s) = ps_supervisors s"
  "ps_file (mirror_hot nd only s) = ps_file s" "ps_env (mirror_hot nd only s) = ps_env s"
  by (simp_all add: mirror_hot_def)

lemma forget_node_fields [simp]:
  "ps_endpoints (forget_node p s) = del_where (\<lambda>e. re_id e = np_name p) (ps_endpoints s)" "ps_agents (forget_node p s) = ps_agents s"
  "ps_upstreams (forget_node p s) = (if endpoint_of (ps_endpoints s) (np_name p) \<noteq> None then removeAll (np_name p) (ps_upstreams s) else ps_upstreams s)"
  "ps_supervisors (forget_node p s) = ps_supervisors s" "ps_file (forget_node p s) = ps_file s" "ps_env (forget_node p s) = ps_env s"
  by (auto simp: forget_node_def endpoint_of_def find_None_iff del_where_def filter_id_conv)

lemma forget_agent_fields [simp]:
  "ps_endpoints (forget_agent p s) = ps_endpoints s" "ps_upstreams (forget_agent p s) = ps_upstreams s" "ps_supervisors (forget_agent p s) = ps_supervisors s"
  "ps_agents (forget_agent p s) = (case np_agent p of None \<Rightarrow> ps_agents s | Some a \<Rightarrow> del_where (\<lambda>r. ra_id r = as_id a) (ps_agents s))"
  "ps_file (forget_agent p s) = ps_file s" "ps_env (forget_agent p s) = ps_env s"
  by (simp_all add: forget_agent_def split: option.split)

lemma deregister_fields [simp]:
  "ps_endpoints (deregister g p s) = ps_endpoints s" "ps_agents (deregister g p s) = ps_agents s" "ps_upstreams (deregister g p s) = ps_upstreams s" "ps_file (deregister g p s) = ps_file s" "ps_env (deregister g p s) = ps_env s"
  "ps_supervisors (deregister g p s) = (if lg_started g then del_where (\<lambda>v. fst v = np_name p) (ps_supervisors s) else ps_supervisors s)"
  by (simp_all add: deregister_def)

lemma forget_row_fields [simp]:
  "ps_endpoints (forget_row fault g p s) = ps_endpoints s" "ps_agents (forget_row fault g p s) = ps_agents s" "ps_upstreams (forget_row fault g p s) = ps_upstreams s" "ps_supervisors (forget_row fault g p s) = ps_supervisors s" "ps_file (forget_row fault g p s) = ps_file s" "ps_env (forget_row fault g p s) = ps_env s"
  by (simp_all add: forget_row_def split: option.split)

lemma restore_file_fields [simp]:
  "ps_endpoints (restore_file fault g s) = ps_endpoints s" "ps_agents (restore_file fault g s) = ps_agents s" "ps_upstreams (restore_file fault g s) = ps_upstreams s" "ps_supervisors (restore_file fault g s) = ps_supervisors s" "ps_env (restore_file fault g s) = ps_env s"
  "ps_file (restore_file fault g s) = (case lg_yaml g of None \<Rightarrow> ps_file s | Some y \<Rightarrow> if fault RestoreFile = None then y else ps_file s)"
  by (auto simp: restore_file_def split: option.split)

lemma restore_env_fields [simp]:
  "ps_endpoints (restore_env fault g s) = ps_endpoints s" "ps_agents (restore_env fault g s) = ps_agents s" "ps_upstreams (restore_env fault g s) = ps_upstreams s" "ps_supervisors (restore_env fault g s) = ps_supervisors s" "ps_file (restore_env fault g s) = ps_file s"
  "ps_env (restore_env fault g s) = (case lg_env g of None \<Rightarrow> ps_env s | Some t \<Rightarrow> if fault RestoreEnv = None then t else ps_env s)"
  by (auto simp: restore_env_def split: option.split)

lemma remove_home_fields [simp]:
  "ps_endpoints (remove_home fault g p s) = ps_endpoints s" "ps_agents (remove_home fault g p s) = ps_agents s" "ps_upstreams (remove_home fault g p s) = ps_upstreams s" "ps_supervisors (remove_home fault g p s) = ps_supervisors s" "ps_file (remove_home fault g p s) = ps_file s" "ps_env (remove_home fault g p s) = ps_env s"
  by (simp_all add: remove_home_def)

lemma note_failure_fields [simp]:
  "ps_endpoints (note_failure fault nd pe m s) = ps_endpoints s" "ps_agents (note_failure fault nd pe m s) = ps_agents s" "ps_upstreams (note_failure fault nd pe m s) = ps_upstreams s" "ps_supervisors (note_failure fault nd pe m s) = ps_supervisors s" "ps_file (note_failure fault nd pe m s) = ps_file s" "ps_env (note_failure fault nd pe m s) = ps_env s"
  by (simp_all add: note_failure_def Let_def)

lemma rollback_fields:
  "ps_endpoints (rollback_node fault nd pe p m (s, g)) = del_where (\<lambda>e. re_id e = np_name p) (ps_endpoints s)"
  "ps_agents (rollback_node fault nd pe p m (s, g)) = (case np_agent p of None \<Rightarrow> ps_agents s | Some a \<Rightarrow> del_where (\<lambda>r. ra_id r = as_id a) (ps_agents s))"
  "ps_upstreams (rollback_node fault nd pe p m (s, g)) = (if endpoint_of (ps_endpoints s) (np_name p) \<noteq> None then removeAll (np_name p) (ps_upstreams s) else ps_upstreams s)"
  "ps_supervisors (rollback_node fault nd pe p m (s, g)) = (if lg_started g then del_where (\<lambda>v. fst v = np_name p) (ps_supervisors s) else ps_supervisors s)"
  "ps_file (rollback_node fault nd pe p m (s, g)) = (case lg_yaml g of None \<Rightarrow> ps_file s | Some y \<Rightarrow> if fault RestoreFile = None then y else ps_file s)"
  "ps_env (rollback_node fault nd pe p m (s, g)) = (case lg_env g of None \<Rightarrow> ps_env s | Some t \<Rightarrow> if fault RestoreEnv = None then t else ps_env s)"
  by (simp_all add: rollback_node_def cong: option.case_cong if_cong)

lemma del_absent: "(\<And>x. x \<in> set xs \<Longrightarrow> \<not> P x) \<Longrightarrow> del_where P xs = xs"
  by (simp add: del_where_def)

lemma put_by_fresh: "k x \<notin> k ` set xs \<Longrightarrow> put_by k x xs = xs @ [x]"
  by (simp add: put_by_def)

lemma put_by_del: "k x = i \<Longrightarrow> del_where (\<lambda>y. k y = i) (put_by k x xs) = del_where (\<lambda>y. k y = i) xs"
proof -
  assume i: "k x = i"
  have "filter (\<lambda>y. k y \<noteq> k x) (map (\<lambda>y. if k y = k x then x else y) ys) = filter (\<lambda>y. k y \<noteq> k x) ys" for ys by (induction ys) auto
  then show ?thesis using i by (auto simp: put_by_def del_where_def)
qed

lemma put_by_keys: "k ` set (put_by k x xs) = insert (k x) (k ` set xs)"
  by (auto simp: put_by_def image_image cong: image_cong)

lemma endpoint_memory_id [simp]: "re_id (endpoint_memory pe p) = np_name p"
  by (simp add: endpoint_memory_def)

lemma hotLoadAgent_id [simp]: "ra_id (hotLoadAgent n a) = as_id a" "ra_endpoint (hotLoadAgent n a) = n"
  by (simp_all add: hotLoadAgent_def)

lemma fresh_node:
  assumes "plan_node pe s b = Inr p"
  shows "np_name p \<notin> re_id ` set (ps_endpoints s)" "set (agents_of p) \<inter> ra_id ` set (ps_agents s) = {}"
  using plan_node_Inr(2,5) [OF assms] by (auto simp: endpoint_of_def agent_named_def find_None_iff agents_of_def split: option.split)

text \<open>Rolling back a request that has loaded nothing, and one that has.\<close>

lemma rollback_unloaded:
  assumes "same_memory s0 s" "lg_yaml g = None" "lg_env g = None" "\<not> lg_started g"
    "np_name p \<notin> re_id ` set (ps_endpoints s0)" "set (agents_of p) \<inter> ra_id ` set (ps_agents s0) = {}"
  shows "same_memory s0 (rollback_node fault nd pe p m (s, g))" "ps_file (rollback_node fault nd pe p m (s, g)) = ps_file s"
    "ps_env (rollback_node fault nd pe p m (s, g)) = ps_env s"
proof -
  have "endpoint_of (ps_endpoints s0) (np_name p) = None" unfolding endpoint_of_def find_None_iff by (metis assms(5) imageI)
  moreover have "del_where (\<lambda>e. re_id e = np_name p) (ps_endpoints s0) = ps_endpoints s0" by (rule del_absent) (metis assms(5) imageI)
  moreover have "del_where (\<lambda>r. ra_id r = as_id a) (ps_agents s0) = ps_agents s0" if "np_agent p = Some a" for a
    by (rule del_absent) (use assms(6) that in \<open>simp add: agents_of_def, metis imageI\<close>)
  ultimately show "same_memory s0 (rollback_node fault nd pe p m (s, g))" "ps_file (rollback_node fault nd pe p m (s, g)) = ps_file s"
    "ps_env (rollback_node fault nd pe p m (s, g)) = ps_env s"
    using assms(1-4) by (simp_all add: same_memory_def rollback_fields split: option.split)
qed

lemma rollback_loaded:
  assumes "loaded_onto pe nd p s t" "np_name p \<notin> re_id ` set (ps_endpoints s)" "set (agents_of p) \<inter> ra_id ` set (ps_agents s) = {}"
  shows "ps_endpoints (rollback_node fault nd pe p m (t, g)) = ps_endpoints s" "ps_agents (rollback_node fault nd pe p m (t, g)) = ps_agents s"
    "ps_upstreams (rollback_node fault nd pe p m (t, g)) = removeAll (np_name p) (ps_upstreams s)"
    "del_where (\<lambda>v. fst v = np_name p) (ps_supervisors (rollback_node fault nd pe p m (t, g))) = del_where (\<lambda>v. fst v = np_name p) (ps_supervisors s)"
    "lg_started g \<Longrightarrow> np_name p \<notin> fst ` set (ps_supervisors (rollback_node fault nd pe p m (t, g)))"
proof -
  have t: "ps_endpoints t = put_by re_id (endpoint_memory pe p) (ps_endpoints s)" "ps_upstreams t = List.insert (np_name p) (ps_upstreams s)"
    "ps_agents t = (case np_agent p of None \<Rightarrow> ps_agents s | Some a \<Rightarrow> put_by ra_id (hotLoadAgent (np_name p) a) (ps_agents s))"
    "ps_supervisors t = put_by fst (np_name p, new_supervisor (env_now (ns_env nd))) (ps_supervisors s)" using assms(1) by (simp_all add: loaded_onto_def)
  have e: "endpoint_of (ps_endpoints t) (np_name p) \<noteq> None"
    unfolding t endpoint_of_def find_None_iff using put_by_keys [of re_id "endpoint_memory pe p" "ps_endpoints s"] by (metis endpoint_memory_id imageE insertI1)
  have a: "del_where (\<lambda>e. re_id e = np_name p) (ps_endpoints s) = ps_endpoints s" by (rule del_absent) (metis assms(2) imageI)
  have b: "del_where (\<lambda>r. ra_id r = as_id x) (ps_agents s) = ps_agents s" if "np_agent p = Some x" for x
    by (rule del_absent) (use assms(3) that in \<open>simp add: agents_of_def, metis imageI\<close>)
  show "ps_endpoints (rollback_node fault nd pe p m (t, g)) = ps_endpoints s" by (simp add: rollback_fields t put_by_del a)
  show "ps_agents (rollback_node fault nd pe p m (t, g)) = ps_agents s" by (simp add: rollback_fields t put_by_del b split: option.split)
  show "ps_upstreams (rollback_node fault nd pe p m (t, g)) = removeAll (np_name p) (ps_upstreams s)"
    using e by (simp add: rollback_fields t(2) List.insert_def)
  show "del_where (\<lambda>v. fst v = np_name p) (ps_supervisors (rollback_node fault nd pe p m (t, g))) = del_where (\<lambda>v. fst v = np_name p) (ps_supervisors s)"
    by (simp add: rollback_fields t put_by_del) (simp add: del_where_def)
  show "np_name p \<notin> fst ` set (ps_supervisors (rollback_node fault nd pe p m (t, g)))" if "lg_started g"
    using that by (auto simp: rollback_fields del_where_def)
qed

text \<open>What a request that was handled alone has left when it answers that it failed.\<close>

definition load_fails :: "faults \<Rightarrow> bool" where
  "load_fails fault \<longleftrightarrow> fault Mirror \<noteq> None \<or> fault Converge \<noteq> None"

lemma failed_outcome:
  assumes p: "plan_node pe s b = Inr p" and c: "create_node fault nd pe b s = (s1, PvFailed500 m)"
  obtains (unloaded) "same_memory s s1" "ps_file s1 = ps_file s \<or> unrestored fault" "ps_env s1 = ps_env s \<or> write_fails fault p pe s"
  | (loaded) t g where "loaded_onto pe nd p s t" "s1 = rollback_node fault nd pe p m (t, g)" "lg_yaml g = Some (ps_file s)" "lg_env g = Some (ps_env s)"
      "lg_started g = (np_form p \<noteq> LocalNode)" "load_fails fault"
proof -
  obtain sa ga ra where a: "run_steps (before_lock fault nd pe p) (s, empty_ledger) = ((sa, ga), ra)" by (metis prod.collapse)
  note f = fresh_node [OF p] and u = before_lock_run [OF a]
  have sa: "same_memory s sa" "ps_file sa = ps_file s" "ps_env sa = ps_env s" "lg_yaml ga = None" "lg_env ga = None" "\<not> lg_started ga"
    using u(1) by (simp_all add: untouched_def)
  show ?thesis
  proof (cases ra)
    case (Some e)
    then have "s1 = rollback_node fault nd pe p m (sa, ga)" using c by (auto simp: create_node_def p pipeline_def run_steps_append a)
    then show ?thesis using rollback_unloaded [OF sa(1,4-6) f] sa(2,3) by (intro unloaded) simp_all
  next
    case ra: None
    obtain sb gb rb where w: "write_truth fault pe p (sa, ga) = ((sb, gb), rb)" by (metis prod.collapse)
    note w1 = write_truth_run [OF w]
    have sb: "same_memory s sb" using sa(1) w1(1) by (simp add: same_memory_def)
    show ?thesis
    proof (cases rb)
      case (Some e)
      then have s1: "s1 = rollback_node fault nd pe p m (sb, ga)"
        using c w1(3) by (auto simp: create_node_def p pipeline_def run_steps_append a ra w)
      have wf: "write_fails fault p pe sa = write_fails fault p pe s" by (simp add: write_fails_def sa)
      show ?thesis using rollback_unloaded [OF sb sa(4-6) f, of fault nd pe m] w1(3) Some sa(2,3)
        by (intro unloaded) (simp_all add: s1 wf)
    next
      case rb: None
      have gb: "lg_yaml gb = Some (ps_file s)" "lg_env gb = Some (ps_env s)" using w1(2) [OF rb] u(2) [OF ra] by simp_all
      obtain sc gc rc where l: "run_steps (load_steps fault nd pe p) (sb, gb) = ((sc, gc), rc)" by (metis prod.collapse)
      note l1 = load_run [OF l]
      have gc: "lg_yaml gc = Some (ps_file s)" "lg_env gc = Some (ps_env s)" "lg_started gc = (np_form p \<noteq> LocalNode)" by (simp_all add: l1(3) gb)
      have on: "loaded_onto pe nd p s sc" using l1(2) sb by (simp add: loaded_onto_def same_memory_def cong: option.case_cong)
      obtain sd gd rd where d: "run_steps (converge_steps fault nd p) (sc, gc) = ((sd, gd), rd)" by (metis prod.collapse)
      note d1 = converge_run [OF d]
      show ?thesis
      proof (cases rc)
        case (Some e)
        then have "s1 = rollback_node fault nd pe p m (sc, gc)"
          using c by (auto simp: create_node_def p pipeline_def run_steps_append a ra w rb l)
        then show ?thesis using loaded [OF on _ gc] l1(1) [symmetric] Some by (simp add: load_fails_def)
      next
        case rc: None
        with c d1(1) have "rd \<noteq> None \<and> s1 = rollback_node fault nd pe p m (sd, gc)"
          by (simp add: create_node_def p pipeline_def run_steps_append a ra w rb l d d1(2) split: option.splits)
        moreover from this have "loaded_onto pe nd p s sd" using on d1 by (simp add: loaded_onto_def)
        ultimately show ?thesis using loaded [OF _ _ gc] d1(1) by (simp add: load_fails_def)
      qed
    qed
  qed
qed


section \<open>Memory and file name the same nodes\<close>

definition section_keys :: "string \<Rightarrow> yaml \<Rightarrow> string set" where
  "section_keys a doc = (case doc of YMap kvs \<Rightarrow> (case map_of kvs a of Some (YMap ys) \<Rightarrow> fst ` set ys | _ \<Rightarrow> {}) | _ \<Rightarrow> {})"

lemma section_assign: "section_keys c (YMap (assign a (YMap ys) kvs)) = (if c = a then fst ` set ys else section_keys c (YMap kvs))"
  by (simp add: section_keys_def)

lemma assign_fst_set: "fst ` set (assign b v ys) = insert b (fst ` set ys)"
  using arg_cong [OF assign_fst [of b v ys], of set] by (cases "b \<in> fst ` set ys") (simp_all add: insert_absorb)

lemma set_in_keys:
  assumes "set_in a b v doc = Some d"
  shows "section_keys c d = (if c = a then insert b (section_keys a doc) else section_keys c doc)"
proof -
  obtain kvs where doc: "doc = YMap kvs" using assms by (cases doc) (simp_all add: set_in_def)
  show ?thesis
  proof (cases "map_of kvs a")
    case None
    then have "d = YMap (assign a (YMap [(b, v)]) kvs)" using assms by (simp add: set_in_def doc)
    then show ?thesis using None by (simp add: section_assign doc) (simp add: section_keys_def)
  next
    case (Some y)
    then obtain ys where y: "y = YMap ys" "d = YMap (assign a (YMap (assign b v ys)) kvs)"
      using assms by (cases y) (simp_all add: set_in_def doc)
    then show ?thesis using Some by (simp add: section_assign assign_fst_set doc) (simp add: section_keys_def)
  qed
qed

lemma delete_in_forms:
  assumes "delete_in a b doc = Some d"
  obtains kvs ys where "doc = YMap kvs" "map_of kvs a = Some (YMap ys)" "d = YMap (assign a (YMap (filter (\<lambda>(k, v). k \<noteq> b) ys)) kvs)"
proof -
  obtain kvs where doc: "doc = YMap kvs" using assms by (cases doc) (simp_all add: delete_in_def)
  obtain y where y: "map_of kvs a = Some y" using assms by (cases "map_of kvs a") (simp_all add: delete_in_def doc)
  show ?thesis using assms y that doc by (cases y) (simp_all add: delete_in_def)
qed

lemma delete_in_keys: "delete_in a b doc = Some d \<Longrightarrow> section_keys c d = (if c = a then section_keys a doc - {b} else section_keys c doc)"
  by (erule delete_in_forms, simp only: section_assign) (auto simp: section_keys_def)

lemma delete_document_keys:
  "delete_document i bound doc = Some d \<Longrightarrow> section_keys ''endpoints'' d = section_keys ''endpoints'' doc - {i} \<and>
     section_keys ''agents'' d = section_keys ''agents'' doc - set bound"
proof (induction bound arbitrary: d rule: rev_induct)
  case Nil
  then show ?case by (simp add: delete_document_def delete_in_keys)
next
  case (snoc a bound)
  then obtain y where "delete_document i bound doc = Some y" "delete_in ''agents'' a y = Some d"
    by (auto simp: delete_document_def split: option.splits)
  then show ?case using snoc.IH [of y] delete_in_keys [of "''agents''" a y d] by auto
qed

definition in_step :: "prov_state \<Rightarrow> bool" where
  "in_step s \<longleftrightarrow> re_id ` set (ps_endpoints s) = section_keys ''endpoints'' (ps_file s) \<and> ra_id ` set (ps_agents s) = section_keys ''agents'' (ps_file s) \<and>
     ra_endpoint ` set (ps_agents s) \<subseteq> re_id ` set (ps_endpoints s) \<and> distinct (map ra_id (ps_agents s)) \<and> distinct (map re_id (ps_endpoints s))"

lemma delete_in_works: "b \<in> section_keys a doc \<or> section_keys a doc \<noteq> {} \<Longrightarrow> delete_in a b doc \<noteq> None"
  by (auto simp: delete_in_def section_keys_def split: yaml.splits option.splits)

lemma delete_in_section: "delete_in a b doc = Some d \<Longrightarrow> delete_in c x doc \<noteq> None \<Longrightarrow> delete_in c x d \<noteq> None"
proof -
  assume d: "delete_in a b doc = Some d" and x: "delete_in c x doc \<noteq> None"
  from d obtain kvs ys where f: "doc = YMap kvs" "map_of kvs a = Some (YMap ys)" "d = YMap (assign a (YMap (filter (\<lambda>(k, v). k \<noteq> b) ys)) kvs)"
    by (rule delete_in_forms)
  from x obtain e where "delete_in c x doc = Some e" by auto
  then obtain zs where "map_of kvs c = Some (YMap zs)" using f(1) by (auto elim: delete_in_forms)
  then show ?thesis by (auto simp: delete_in_def f(3))
qed

lemma delete_document_works:
  assumes "i \<in> section_keys ''endpoints'' doc" "set bound \<subseteq> section_keys ''agents'' doc"
  shows "delete_document i bound doc \<noteq> None"
proof -
  have "\<exists>d. delete_document i xs doc = Some d \<and> (delete_in ''agents'' x doc \<noteq> None \<longrightarrow> delete_in ''agents'' x d \<noteq> None)" if "set xs \<subseteq> section_keys ''agents'' doc" for xs x
    using that
  proof (induction xs arbitrary: x rule: rev_induct)
    case Nil
    then show ?case using delete_in_works [of i "''endpoints''" doc] assms(1) delete_in_section [of "''endpoints''" i doc]
      by (auto simp: delete_document_def)
  next
    case (snoc a xs)
    have a: "delete_in ''agents'' a doc \<noteq> None" by (rule delete_in_works) (use snoc.prems in auto)
    from snoc.IH [of a] snoc.prems a obtain d where d: "delete_document i xs doc = Some d" "delete_in ''agents'' a d \<noteq> None" by auto
    then obtain e where e: "delete_in ''agents'' a d = Some e" by auto
    have "delete_in ''agents'' x e \<noteq> None" if x: "delete_in ''agents'' x doc \<noteq> None"
    proof -
      from snoc.IH [of x] snoc.prems x d(1) have "delete_in ''agents'' x d \<noteq> None" by auto
      then show ?thesis by (rule delete_in_section [OF e])
    qed
    moreover have "delete_document i (xs @ [a]) doc = Some e" using d(1) e by (simp add: delete_document_def)
    ultimately show ?case by blast
  qed
  then show ?thesis using assms(2) by fastforce
qed

lemma node_document_keys:
  assumes "node_document pe p doc = Some d"
  shows "section_keys ''endpoints'' d = insert (np_name p) (section_keys ''endpoints'' doc) \<and>
     section_keys ''agents'' d = (case np_agent p of None \<Rightarrow> {} | Some a \<Rightarrow> {as_id a}) \<union> section_keys ''agents'' doc"
proof -
  obtain d1 where d1: "set_in ''endpoints'' (np_name p) (endpoint_yaml pe p) doc = Some d1"
    using assms by (auto simp: node_document_def split: option.splits)
  show ?thesis
  proof (cases "np_agent p")
    case None
    then show ?thesis using assms d1 set_in_keys [OF d1] by (simp add: node_document_def)
  next
    case (Some a)
    then have "set_in ''agents'' (as_id a) (agent_yaml (np_name p) a) d1 = Some d" using assms d1 by (simp add: node_document_def)
    from set_in_keys [OF this] set_in_keys [OF d1] Some show ?thesis by simp
  qed
qed

section \<open>Requests that overlap keep the accounts\<close>

text \<open>
  The accounts of a kind of entry: the names in memory (\<open>mem\<close>), in the file (\<open>keys\<close>), and of the open requests, which wait for the lock (\<open>w\<close>), have written
  (\<open>p\<close>), have loaded (\<open>l\<close>), or are deletions that wait for the lock (\<open>d\<close>).
\<close>

definition accounts :: "id list \<Rightarrow> string set \<Rightarrow> id list \<Rightarrow> id list \<Rightarrow> id list \<Rightarrow> id list \<Rightarrow> bool" where
  "accounts mem keys w p l d \<longleftrightarrow> distinct mem \<and> distinct (w @ p @ l @ d) \<and> set (w @ p @ d) \<inter> set mem = {} \<and> set l \<subseteq> set mem \<and>
     keys = set mem \<union> set p \<union> set d"

lemma accounts_requested: "accounts mem keys w p l d \<Longrightarrow> distinct ns \<Longrightarrow> set ns \<inter> set (w @ p @ l @ d) = {} \<Longrightarrow> set ns \<inter> set mem = {} \<Longrightarrow> accounts mem keys (w @ ns) p l d"
  unfolding accounts_def by auto

lemma accounts_written: "accounts mem keys (ns @ w) p l d \<Longrightarrow> accounts mem (set ns \<union> keys) w (p @ ns) l d"
  unfolding accounts_def by auto

lemma accounts_unwritten: "accounts mem keys (ns @ w) p l d \<Longrightarrow> accounts mem keys w p l d"
  unfolding accounts_def by auto

lemma accounts_loaded: "accounts mem keys w (p @ ns @ q) l d \<Longrightarrow> accounts (mem @ ns) keys w (p @ q) (l @ ns) d"
  unfolding accounts_def by auto

lemma accounts_unloaded: "accounts mem keys w (p @ ns @ q) l d \<Longrightarrow> accounts mem (keys - set ns) w (p @ q) l d"
  unfolding accounts_def by auto

lemma accounts_ended: "accounts mem keys w p (l @ ns @ m) d \<Longrightarrow> accounts mem keys w p (l @ m) d"
  unfolding accounts_def by auto

lemma accounts_undone: "accounts mem keys w p (l @ ns @ m) d \<Longrightarrow> accounts (filter (\<lambda>i. i \<notin> set ns) mem) (keys - set ns) w p (l @ m) d"
  unfolding accounts_def by auto

lemma accounts_deleting:
  "accounts mem keys w p l d \<Longrightarrow> distinct ns \<Longrightarrow> set ns \<subseteq> set mem \<Longrightarrow> set ns \<inter> set l = {} \<Longrightarrow> accounts (filter (\<lambda>i. i \<notin> set ns) mem) keys w p l (d @ ns)"
  unfolding accounts_def by auto

lemma accounts_deleted: "accounts mem keys w p l (ns @ d) \<Longrightarrow> accounts mem (keys - set ns) w p l d"
  unfolding accounts_def by auto

fun add_of :: "lock_job \<Rightarrow> open_add list" where
  "add_of (AddJob a) = [a]"
| "add_of (DeleteJob fault nd i bound) = []"

fun deleted_nodes :: "lock_job \<Rightarrow> id list" where
  "deleted_nodes (AddJob a) = []"
| "deleted_nodes (DeleteJob fault nd i bound) = [i]"

fun deleted_agents :: "lock_job \<Rightarrow> id list" where
  "deleted_agents (AddJob a) = []"
| "deleted_agents (DeleteJob fault nd i bound) = bound"

definition new_nodes :: "open_add list \<Rightarrow> id list" where
  "new_nodes as = map (\<lambda>a. np_name (oa_plan a)) as"

definition new_agents :: "open_add list \<Rightarrow> id list" where
  "new_agents as = concat (map (\<lambda>a. agents_of (oa_plan a)) as)"

definition waiting :: "prov_world \<Rightarrow> open_add list" where
  "waiting w = concat (map add_of (pw_lock w))"

definition open_nodes :: "prov_world \<Rightarrow> id list" where
  "open_nodes w = new_nodes (waiting w) @ new_nodes (pw_written w) @ new_nodes (pw_loaded w) @ concat (map deleted_nodes (pw_lock w))"

definition open_agents :: "prov_world \<Rightarrow> id list" where
  "open_agents w = new_agents (waiting w) @ new_agents (pw_written w) @ new_agents (pw_loaded w) @ concat (map deleted_agents (pw_lock w))"

definition accounts_kept :: "prov_world \<Rightarrow> bool" where
  "accounts_kept w \<longleftrightarrow>
     accounts (map re_id (ps_endpoints (pw_state w))) (section_keys ''endpoints'' (ps_file (pw_state w))) (new_nodes (waiting w)) (new_nodes (pw_written w))
       (new_nodes (pw_loaded w)) (concat (map deleted_nodes (pw_lock w))) \<and>
     accounts (map ra_id (ps_agents (pw_state w))) (section_keys ''agents'' (ps_file (pw_state w))) (new_agents (waiting w)) (new_agents (pw_written w))
       (new_agents (pw_loaded w)) (concat (map deleted_agents (pw_lock w)))"

text \<open>What a request has seen did not have its node and its agent; of an added node there are no agents but its own.\<close>

definition lacks :: "node_plan \<Rightarrow> yaml \<Rightarrow> bool" where
  "lacks p y \<longleftrightarrow> np_name p \<notin> section_keys ''endpoints'' y \<and> set (agents_of p) \<inter> section_keys ''agents'' y = {}"

definition waits_well :: "open_add \<Rightarrow> bool" where
  "waits_well a \<longleftrightarrow> lg_yaml (oa_ledger a) = None \<and> lg_env (oa_ledger a) = None \<and> \<not> lg_started (oa_ledger a) \<and>
     (case lg_seen (oa_ledger a) of None \<Rightarrow> False | Some (e, y) \<Rightarrow> lacks (oa_plan a) y)"

definition wrote_well :: "open_add \<Rightarrow> bool" where
  "wrote_well a \<longleftrightarrow> (case lg_yaml (oa_ledger a) of None \<Rightarrow> False | Some y \<Rightarrow> lacks (oa_plan a) y)"

definition own_agents :: "resolved_agent list \<Rightarrow> open_add \<Rightarrow> bool" where
  "own_agents ags a \<longleftrightarrow> (\<forall>r \<in> set ags. ra_endpoint r = np_name (oa_plan a) \<longrightarrow> ra_id r \<in> set (agents_of (oa_plan a)))"

definition world_ok :: "prov_world \<Rightarrow> bool" where
  "world_ok w \<longleftrightarrow> accounts_kept w \<and> ra_endpoint ` set (ps_agents (pw_state w)) \<subseteq> re_id ` set (ps_endpoints (pw_state w)) \<and>
     list_all waits_well (waiting w) \<and> list_all wrote_well (pw_written w) \<and> list_all wrote_well (pw_loaded w) \<and>
     list_all (own_agents (ps_agents (pw_state w))) (pw_loaded w)"

text \<open>
  The histories considered: no two open requests are about the same node or agent; a deletion can write its file, and no write leaves behind a
  file that was to be taken back; and an addition that fails after it has written the file finds it as it wrote it, onto what it had
  seen before it waited for the lock, and can write that back.
\<close>

definition snapshot_current :: "prov_env \<Rightarrow> prov_world \<Rightarrow> open_add \<Rightarrow> bool" where
  "snapshot_current pe w a \<longleftrightarrow> oa_fault a RestoreFile = None \<and>
     (case lg_yaml (oa_ledger a) of None \<Rightarrow> False | Some y \<Rightarrow> node_document pe (oa_plan a) y = Some (ps_file (pw_state w)))"

fun undisturbed :: "prov_env \<Rightarrow> prov_world \<Rightarrow> prov_event \<Rightarrow> bool" where
  "undisturbed pe w (AddRequested fault nd b) = (case plan_node pe (pw_state w) b of
     Inl e \<Rightarrow> True
   | Inr p \<Rightarrow> np_name p \<notin> set (open_nodes w) \<and> list_all (\<lambda>i. i \<notin> set (open_agents w)) (agents_of p))"
| "undisturbed pe w (DeleteRequested fault nd i) = (case delete_memory i (pw_state w) of
     Inl r \<Rightarrow> True
   | Inr (s, bound) \<Rightarrow> i \<notin> set (open_nodes w) \<and> list_all (\<lambda>j. j \<notin> set (open_agents w)) bound)"
| "undisturbed pe w LockGranted = (case pw_lock w of
     AddJob a # js \<Rightarrow> \<not> unrestored (oa_fault a)
   | DeleteJob fault nd i bound # js \<Rightarrow> fault WriteFile = None \<and> fault Reread = None
   | [] \<Rightarrow> True)"
| "undisturbed pe w (AddResumed k) = (if k < length (pw_written w) \<and> oa_fault (pw_written w ! k) Mirror \<noteq> None then snapshot_current pe w (pw_written w ! k) else True)"
| "undisturbed pe w (AddConverged k) = (if k < length (pw_loaded w) \<and> oa_fault (pw_loaded w ! k) Converge \<noteq> None then snapshot_current pe w (pw_loaded w ! k) else True)"
| "undisturbed pe w (InstallEnds fault nd p rolledBack err bin) = True"

lemma new_nodes_simps [simp]: "new_nodes [] = []" "new_nodes (a # as) = np_name (oa_plan a) # new_nodes as" "new_nodes (as @ bs) = new_nodes as @ new_nodes bs"
  by (simp_all add: new_nodes_def)

lemma new_agents_simps [simp]: "new_agents [] = []" "new_agents (a # as) = agents_of (oa_plan a) @ new_agents as" "new_agents (as @ bs) = new_agents as @ new_agents bs"
  by (simp_all add: new_agents_def)

lemma agents_of_distinct [simp]: "distinct (agents_of p)"
  by (simp add: agents_of_def split: option.split)

lemma document_keys:
  "node_document pe p doc = Some d \<Longrightarrow> section_keys ''endpoints'' d = set [np_name p] \<union> section_keys ''endpoints'' doc \<and>
     section_keys ''agents'' d = set (agents_of p) \<union> section_keys ''agents'' doc"
  using node_document_keys [of pe p doc d] by (simp add: agents_of_def split: option.splits)

lemma keys_before: "node_document pe p y = Some d \<Longrightarrow> lacks p y \<Longrightarrow>
    section_keys ''endpoints'' y = section_keys ''endpoints'' d - set [np_name p] \<and> section_keys ''agents'' y = section_keys ''agents'' d - set (agents_of p)"
  using document_keys [of pe p y d] unfolding lacks_def by auto

lemma world_ok_same:
  assumes "world_ok w" "map re_id (ps_endpoints t) = map re_id (ps_endpoints (pw_state w))" "ps_agents t = ps_agents (pw_state w)" "ps_file t = ps_file (pw_state w)"
  shows "world_ok (w\<lparr>pw_state := t\<rparr>)"
proof -
  have "re_id ` set (ps_endpoints t) = re_id ` set (ps_endpoints (pw_state w))" using assms(2) by (metis list.set_map)
  then show ?thesis using assms by (simp add: world_ok_def accounts_kept_def waiting_def)
qed

lemma requested_ok:
  assumes w: "world_ok w" and ok: "undisturbed pe w (AddRequested fault nd b)"
  shows "world_ok (prov_handle pe w (AddRequested fault nd b))"
proof (cases "plan_node pe (pw_state w) b")
  case (Inl e)
  then show ?thesis using w by simp
next
  case (Inr p)
  note f = fresh_node [OF Inr]
  obtain s g r where r: "run_steps (before_lock fault nd pe p) (pw_state w, empty_ledger) = ((s, g), r)" by (metis prod.collapse)
  note u = before_lock_run [OF r]
  have s: "same_memory (pw_state w) s" "ps_file s = ps_file (pw_state w)" "lg_yaml g = None" "lg_env g = None" "\<not> lg_started g" using u(1) by (simp_all add: untouched_def)
  show ?thesis
  proof (cases r)
    case (Some m)
    have "world_ok (w\<lparr>pw_state := rollback_node fault nd pe p m (s, g)\<rparr>)"
      using rollback_unloaded [OF s(1,3-5) f, of fault nd pe m] s(2) by (intro world_ok_same [OF w]) (simp_all add: same_memory_def)
    then show ?thesis by (simp add: Inr r Some)
  next
    case None
    let ?a = "\<lparr>oa_side = nd, oa_fault = fault, oa_plan = p, oa_ledger = g\<rparr>"
    have o: "np_name p \<notin> set (open_nodes w)" "set (agents_of p) \<inter> set (open_agents w) = {}" using ok by (auto simp: Inr list_all_iff)
    have k: "accounts_kept w" using w by (simp add: world_ok_def)
    have "lacks p (ps_file (pw_state w))"
      using k f o unfolding lacks_def accounts_kept_def accounts_def open_nodes_def open_agents_def by auto
    then have "waits_well ?a" using s u(2) [OF None] by (simp add: waits_well_def)
    moreover have "accounts_kept (w\<lparr>pw_state := s, pw_lock := pw_lock w @ [AddJob ?a]\<rparr>)"
      using k f o s(1,2) accounts_requested [where ns = "[np_name p]"] accounts_requested [where ns = "agents_of p"]
      unfolding accounts_kept_def open_nodes_def open_agents_def same_memory_def waiting_def by simp
    moreover have "prov_handle pe w (AddRequested fault nd b) = w\<lparr>pw_state := s, pw_lock := pw_lock w @ [AddJob ?a]\<rparr>" by (simp add: Inr r None)
    ultimately show ?thesis using w s(1) by (simp add: world_ok_def same_memory_def waiting_def)
  qed
qed

lemma map_filter_keys: "distinct (map k xs) \<Longrightarrow> map k (filter (\<lambda>x. \<not> P x) xs) = filter (\<lambda>i. i \<notin> set (map k (filter P xs))) (map k xs)"
proof -
  assume "distinct (map k xs)"
  then have "inj_on k (set xs)" by (simp add: distinct_map)
  then have "\<not> P x \<longleftrightarrow> k x \<notin> k ` {y \<in> set xs. P y}" if "x \<in> set xs" for x using that by (auto dest: inj_onD)
  then show ?thesis by (auto simp: filter_map o_def intro!: arg_cong [of _ _ "map k"] filter_cong)
qed

lemma delete_requested_ok:
  assumes w: "world_ok w" and ok: "undisturbed pe w (DeleteRequested fault nd i)"
  shows "world_ok (prov_handle pe w (DeleteRequested fault nd i))"
proof (cases "delete_memory i (pw_state w)")
  case (Inl r)
  then show ?thesis using w by simp
next
  case (Inr x)
  let ?s = "pw_state w"
  obtain t bound where x: "x = (t, bound)" by (cases x)
  have t: "bound = map ra_id (filter (\<lambda>a. ra_endpoint a = i) (ps_agents ?s))" "ps_endpoints t = filter (\<lambda>e. \<not> re_id e = i) (ps_endpoints ?s)"
    "ps_agents t = filter (\<lambda>a. \<not> ra_endpoint a = i) (ps_agents ?s)" "ps_file t = ps_file ?s" and i: "endpoint_of (ps_endpoints ?s) i \<noteq> None"
    using Inr by (auto simp: x delete_memory_def del_where_def split: option.splits if_splits)
  have k: "accounts_kept w" and e: "ra_endpoint ` set (ps_agents ?s) \<subseteq> re_id ` set (ps_endpoints ?s)" using w by (simp_all add: world_ok_def)
  have d: "distinct (map re_id (ps_endpoints ?s))" "distinct (map ra_id (ps_agents ?s))" using k by (simp_all add: accounts_kept_def accounts_def)
  have o: "i \<notin> set (open_nodes w)" "set bound \<inter> set (open_agents w) = {}" using ok by (auto simp: Inr x list_all_iff)
  have ids: "map re_id (ps_endpoints t) = filter (\<lambda>j. j \<notin> set [i]) (map re_id (ps_endpoints ?s))" by (simp add: t(2) filter_map o_def)
  have ags: "map ra_id (ps_agents t) = filter (\<lambda>j. j \<notin> set bound) (map ra_id (ps_agents ?s))" unfolding t(1,3) by (rule map_filter_keys [OF d(2)])
  have mem: "set [i] \<subseteq> set (map re_id (ps_endpoints ?s))" "set bound \<subseteq> set (map ra_id (ps_agents ?s))" "distinct bound"
    using i d(2) by (auto simp: t(1) endpoint_of_def find_None_iff distinct_map_filter)
  have "accounts_kept (w\<lparr>pw_state := t, pw_lock := pw_lock w @ [DeleteJob fault nd i bound]\<rparr>)"
  proof -
    have "accounts (map re_id (ps_endpoints t)) (section_keys ''endpoints'' (ps_file t)) (new_nodes (waiting w)) (new_nodes (pw_written w))
       (new_nodes (pw_loaded w)) (concat (map deleted_nodes (pw_lock w)) @ [i])"
      unfolding ids t(4) by (rule accounts_deleting) (use k o(1) mem(1) in \<open>auto simp: accounts_kept_def open_nodes_def\<close>)
    moreover have "accounts (map ra_id (ps_agents t)) (section_keys ''agents'' (ps_file t)) (new_agents (waiting w)) (new_agents (pw_written w))
       (new_agents (pw_loaded w)) (concat (map deleted_agents (pw_lock w)) @ bound)"
      unfolding ags t(4) by (rule accounts_deleting) (use k o(2) mem(2,3) in \<open>auto simp: accounts_kept_def open_agents_def\<close>)
    ultimately show ?thesis by (simp add: accounts_kept_def waiting_def)
  qed
  moreover have "ra_endpoint ` set (ps_agents t) \<subseteq> re_id ` set (ps_endpoints t)" using e by (auto simp: t(2,3) image_subset_iff)
  moreover have "list_all (own_agents (ps_agents t)) (pw_loaded w)" using w by (auto simp: world_ok_def list_all_iff own_agents_def t(3))
  ultimately show ?thesis using w by (simp add: Inr x world_ok_def waiting_def)
qed

lemma mirror_converge_fields:
  "ps_endpoints (fst (reconcile_hot fault nd only s)) = ps_endpoints s" "ps_agents (fst (reconcile_hot fault nd only s)) = ps_agents s"
  "ps_file (fst (reconcile_hot fault nd only s)) = ps_file s"
  by (simp_all add: reconcile_hot_def converge_hot_def split: option.split)

lemma delete_truth_fields:
  assumes "delete_document i bound (ps_file s) = Some doc" "fault WriteFile = None" "fault Reread = None"
  shows "ps_endpoints (fst (delete_truth fault nd pe i bound s)) = ps_endpoints s" "ps_agents (fst (delete_truth fault nd pe i bound s)) = ps_agents s"
    "ps_file (fst (delete_truth fault nd pe i bound s)) = doc"
proof -
  have w: "snd (write_doc fault (Some doc) (ps_file s)) = None" by (rule write_doc_cases(3)) (simp_all add: assms)
  have f: "fst (write_doc fault (Some doc) (ps_file s)) = doc" using write_doc_cases(1) [OF w] by simp
  have r: "fst (case reconcile_hot fault nd {} t of (s2, None) \<Rightarrow> (s2, PvDeleted200 bound) | (s2, Some m) \<Rightarrow> (s2, PvDeleteThrew500)) = fst (reconcile_hot fault nd {} t)" for t
    by (simp split: prod.split option.split)
  show "ps_endpoints (fst (delete_truth fault nd pe i bound s)) = ps_endpoints s" "ps_agents (fst (delete_truth fault nd pe i bound s)) = ps_agents s"
    "ps_file (fst (delete_truth fault nd pe i bound s)) = doc"
    by (simp_all add: delete_truth_def Let_def assms(1) w f r mirror_converge_fields split: option.split)
qed

lemma granted_ok:
  assumes w: "world_ok w" and ok: "undisturbed pe w LockGranted"
  shows "world_ok (prov_handle pe w LockGranted)"
proof (cases "pw_lock w")
  case Nil
  then show ?thesis using w by simp
next
  case (Cons job js)
  let ?s = "pw_state w"
  have k: "accounts_kept w" and v: "list_all waits_well (waiting w)" using w by (simp_all add: world_ok_def)
  show ?thesis
  proof (cases job)
    case (AddJob a)
    let ?p = "oa_plan a"
    have ws: "waiting w = a # concat (map add_of js)" by (simp add: waiting_def Cons AddJob)
    have g: "lg_yaml (oa_ledger a) = None" "lg_env (oa_ledger a) = None" "\<not> lg_started (oa_ledger a)" using v by (simp_all add: ws waits_well_def)
    obtain e y where y: "lg_seen (oa_ledger a) = Some (e, y)" "lacks ?p y" using v by (auto simp: ws waits_well_def split: option.splits)
    have f: "np_name ?p \<notin> re_id ` set (ps_endpoints ?s)" "set (agents_of ?p) \<inter> ra_id ` set (ps_agents ?s) = {}"
      using k by (auto simp: accounts_kept_def accounts_def ws)
    have kn: "accounts (map re_id (ps_endpoints ?s)) (section_keys ''endpoints'' (ps_file ?s)) ([np_name ?p] @ new_nodes (concat (map add_of js))) (new_nodes (pw_written w))
         (new_nodes (pw_loaded w)) (concat (map deleted_nodes js))"
      and ka: "accounts (map ra_id (ps_agents ?s)) (section_keys ''agents'' (ps_file ?s)) (agents_of ?p @ new_agents (concat (map add_of js))) (new_agents (pw_written w))
         (new_agents (pw_loaded w)) (concat (map deleted_agents js))"
      using k by (simp_all add: accounts_kept_def ws Cons AddJob)
    obtain t g r where r: "write_truth (oa_fault a) pe ?p (?s, oa_ledger a) = ((t, g), r)" by (metis prod.collapse)
    note w1 = write_truth_run [OF r]
    show ?thesis
    proof (cases r)
      case (Some m)
      have "g = oa_ledger a" "ps_file t = ps_file ?s" using w1(3) Some ok by (simp_all add: Cons AddJob)
      note b = rollback_unloaded [OF w1(1) \<open>lg_yaml (oa_ledger a) = None\<close> \<open>lg_env (oa_ledger a) = None\<close> \<open>\<not> lg_started (oa_ledger a)\<close> f, of "oa_fault a" "oa_side a" pe m]
      have "accounts_kept (w\<lparr>pw_lock := js\<rparr>)"
        using accounts_unwritten [OF kn] accounts_unwritten [OF ka] by (simp add: accounts_kept_def waiting_def)
      then have "world_ok (w\<lparr>pw_lock := js\<rparr>)" using w v by (simp add: world_ok_def ws) (simp add: waiting_def)
      then have "world_ok (w\<lparr>pw_lock := js\<rparr>\<lparr>pw_state := undo_add pe a m (t, oa_ledger a)\<rparr>)"
        using b \<open>ps_file t = ps_file ?s\<close> by (rule_tac world_ok_same) (simp_all add: same_memory_def undo_add_def)
      moreover have "w\<lparr>pw_lock := js\<rparr>\<lparr>pw_state := undo_add pe a m (t, oa_ledger a)\<rparr> = w\<lparr>pw_state := undo_add pe a m (t, oa_ledger a), pw_lock := js\<rparr>" by (cases w) simp
      ultimately show ?thesis using \<open>g = oa_ledger a\<close> by (simp add: Cons AddJob r Some)
    next
      case None
      have d: "node_document pe ?p (ps_file ?s) = Some (ps_file t)" "lg_yaml g = Some y" using w1(2) [OF None] y(1) by simp_all
      let ?w = "w\<lparr>pw_state := t, pw_lock := js, pw_written := pw_written w @ [a\<lparr>oa_ledger := g\<rparr>]\<rparr>"
      have "accounts_kept ?w"
      proof -
        show ?thesis using accounts_written [OF kn] accounts_written [OF ka] document_keys [OF d(1)] w1(1)
          by (simp add: accounts_kept_def waiting_def same_memory_def)
      qed
      moreover have "wrote_well (a\<lparr>oa_ledger := g\<rparr>)" using d(2) y(2) by (simp add: wrote_well_def)
      moreover have "list_all waits_well (concat (map add_of js))" using v by (simp add: ws)
      ultimately have "world_ok ?w" using w w1(1) by (simp add: world_ok_def same_memory_def waiting_def)
      then show ?thesis by (simp add: Cons AddJob r None)
    qed
  next
    case (DeleteJob fault nd i bound)
    have ws: "waiting w = concat (map add_of js)" by (simp add: waiting_def Cons DeleteJob)
    have kn: "accounts (map re_id (ps_endpoints ?s)) (section_keys ''endpoints'' (ps_file ?s)) (new_nodes (waiting w)) (new_nodes (pw_written w))
         (new_nodes (pw_loaded w)) ([i] @ concat (map deleted_nodes js))"
      and ka: "accounts (map ra_id (ps_agents ?s)) (section_keys ''agents'' (ps_file ?s)) (new_agents (waiting w)) (new_agents (pw_written w))
         (new_agents (pw_loaded w)) (bound @ concat (map deleted_agents js))"
      using k by (simp_all add: accounts_kept_def Cons DeleteJob)
    have "delete_document i bound (ps_file ?s) \<noteq> None"
      by (rule delete_document_works) (use kn ka in \<open>auto simp: accounts_def\<close>)
    then obtain doc where doc: "delete_document i bound (ps_file ?s) = Some doc" by blast
    have ff: "fault WriteFile = None" "fault Reread = None" using ok by (simp_all add: Cons DeleteJob)
    note t = delete_truth_fields [OF doc ff, of nd pe]
    have "accounts_kept (w\<lparr>pw_state := fst (delete_truth fault nd pe i bound ?s), pw_lock := js\<rparr>)"
      using accounts_deleted [OF kn] accounts_deleted [OF ka] delete_document_keys [OF doc] by (simp add: accounts_kept_def t waiting_def Cons DeleteJob)
    then show ?thesis using w by (simp add: Cons DeleteJob world_ok_def t waiting_def)
  qed
qed

lemma without_split: "k < length xs \<Longrightarrow> xs = take k xs @ [xs ! k] @ drop (Suc k) xs"
  using id_take_nth_drop [of k xs] by simp

lemma without_set: "set (without k xs) \<subseteq> set xs"
  using set_take_subset [of k xs] set_drop_subset [of "Suc k" xs] by (auto simp: without_def)

lemma without_all: "list_all P xs \<Longrightarrow> list_all P (without k xs)"
  using without_set [of k xs] by (auto simp: list_all_iff)

lemma undo_fields:
  "ps_endpoints (undo_add pe a m (t, g)) = filter (\<lambda>e. re_id e \<noteq> np_name (oa_plan a)) (ps_endpoints t)"
  "ps_agents (undo_add pe a m (t, g)) = filter (\<lambda>r. ra_id r \<notin> set (agents_of (oa_plan a))) (ps_agents t)"
  by (simp_all add: undo_add_def rollback_fields del_where_def agents_of_def split: option.split)

lemma undo_file:
  assumes "snapshot_current pe w a" "wrote_well a" "lg_yaml g = lg_yaml (oa_ledger a)"
  shows "section_keys ''endpoints'' (ps_file (undo_add pe a m (t, g))) = section_keys ''endpoints'' (ps_file (pw_state w)) - set [np_name (oa_plan a)]"
    "section_keys ''agents'' (ps_file (undo_add pe a m (t, g))) = section_keys ''agents'' (ps_file (pw_state w)) - set (agents_of (oa_plan a))"
proof -
  obtain y where y: "lg_yaml (oa_ledger a) = Some y" "node_document pe (oa_plan a) y = Some (ps_file (pw_state w))" "oa_fault a RestoreFile = None" "lacks (oa_plan a) y"
    using assms(1,2) by (auto simp: snapshot_current_def wrote_well_def split: option.splits)
  then have "ps_file (undo_add pe a m (t, g)) = y" using assms(3) by (simp add: undo_add_def rollback_fields)
  then show "section_keys ''endpoints'' (ps_file (undo_add pe a m (t, g))) = section_keys ''endpoints'' (ps_file (pw_state w)) - set [np_name (oa_plan a)]"
    "section_keys ''agents'' (ps_file (undo_add pe a m (t, g))) = section_keys ''agents'' (ps_file (pw_state w)) - set (agents_of (oa_plan a))"
    using keys_before [OF y(2,4)] by simp_all
qed

lemma loaded_agents:
  assumes "loaded_onto pe nd p s t" "np_name p \<notin> re_id ` set (ps_endpoints s)" "set (agents_of p) \<inter> ra_id ` set (ps_agents s) = {}"
  shows "map re_id (ps_endpoints t) = map re_id (ps_endpoints s) @ [np_name p]" "map ra_id (ps_agents t) = map ra_id (ps_agents s) @ agents_of p"
    "\<And>r. r \<in> set (ps_agents t) \<Longrightarrow> r \<in> set (ps_agents s) \<or> ra_endpoint r = np_name p \<and> ra_id r \<in> set (agents_of p)"
proof -
  have e: "ps_endpoints t = ps_endpoints s @ [endpoint_memory pe p]" using assms(1,2) by (simp add: loaded_onto_def put_by_fresh)
  have a: "ps_agents t = ps_agents s @ (case np_agent p of None \<Rightarrow> [] | Some a \<Rightarrow> [hotLoadAgent (np_name p) a])"
    using assms(1,3) by (simp add: loaded_onto_def put_by_fresh agents_of_def split: option.splits)
  show "map re_id (ps_endpoints t) = map re_id (ps_endpoints s) @ [np_name p]" by (simp add: e)
  show "map ra_id (ps_agents t) = map ra_id (ps_agents s) @ agents_of p" by (simp add: a agents_of_def split: option.split)
  show "r \<in> set (ps_agents s) \<or> ra_endpoint r = np_name p \<and> ra_id r \<in> set (agents_of p)" if "r \<in> set (ps_agents t)" for r
    using that by (auto simp: a agents_of_def split: option.splits)
qed

lemma resumed_ok:
  assumes w: "world_ok w" and ok: "undisturbed pe w (AddResumed k)"
  shows "world_ok (prov_handle pe w (AddResumed k))"
proof (cases "k < length (pw_written w)")
  case False
  then show ?thesis using w by simp
next
  case True
  let ?s = "pw_state w" and ?a = "pw_written w ! k" and ?rest = "without k (pw_written w)"
  let ?p = "oa_plan ?a" and ?b = "take k (pw_written w)" and ?c = "drop (Suc k) (pw_written w)"
  have split: "pw_written w = ?b @ [?a] @ ?c" by (rule without_split [OF True])
  have kept: "accounts_kept w" and sub: "ra_endpoint ` set (ps_agents ?s) \<subseteq> re_id ` set (ps_endpoints ?s)" and lw: "list_all wrote_well (pw_written w)"
    and lo: "list_all (own_agents (ps_agents ?s)) (pw_loaded w)" using w by (simp_all add: world_ok_def)
  have nn: "new_nodes (pw_written w) = new_nodes ?b @ [np_name ?p] @ new_nodes ?c" using arg_cong [OF split, of new_nodes] by simp
  have na: "new_agents (pw_written w) = new_agents ?b @ agents_of ?p @ new_agents ?c" using arg_cong [OF split, of new_agents] by simp
  have kn: "accounts (map re_id (ps_endpoints ?s)) (section_keys ''endpoints'' (ps_file ?s)) (new_nodes (waiting w)) (new_nodes ?b @ [np_name ?p] @ new_nodes ?c)
       (new_nodes (pw_loaded w)) (concat (map deleted_nodes (pw_lock w)))"
    and ka: "accounts (map ra_id (ps_agents ?s)) (section_keys ''agents'' (ps_file ?s)) (new_agents (waiting w)) (new_agents ?b @ agents_of ?p @ new_agents ?c)
       (new_agents (pw_loaded w)) (concat (map deleted_agents (pw_lock w)))"
    using kept unfolding accounts_kept_def nn na by simp_all
  have f: "np_name ?p \<notin> re_id ` set (ps_endpoints ?s)" "set (agents_of ?p) \<inter> ra_id ` set (ps_agents ?s) = {}"
    using kn ka by (auto simp: accounts_def)
  have wa: "wrote_well ?a" using lw True by (simp add: list_all_length)
  obtain t g r where r: "run_steps (load_steps (oa_fault ?a) (oa_side ?a) pe ?p) (?s, oa_ledger ?a) = ((t, g), r)" by (metis prod.collapse)
  note l = load_run [OF r]
  show ?thesis
  proof (cases r)
    case None
    let ?w = "w\<lparr>pw_written := ?rest, pw_state := t, pw_loaded := pw_loaded w @ [?a\<lparr>oa_ledger := g\<rparr>]\<rparr>"
    note la = loaded_agents [OF l(2) f]
    have "accounts_kept ?w"
      using accounts_loaded [OF kn] accounts_loaded [OF ka] by (simp add: accounts_kept_def waiting_def without_def la(1,2) l(4))
    moreover have "ra_endpoint ` set (ps_agents t) \<subseteq> re_id ` set (ps_endpoints t)"
    proof -
      have "re_id ` set (ps_endpoints t) = insert (np_name ?p) (re_id ` set (ps_endpoints ?s))" using arg_cong [OF la(1), of set] by simp
      moreover have "ra_endpoint x = np_name ?p \<or> ra_endpoint x \<in> re_id ` set (ps_endpoints ?s)" if "x \<in> set (ps_agents t)" for x
        using la(3) [OF that] sub by (auto simp: image_subset_iff)
      ultimately show ?thesis by (simp add: image_subset_iff)
    qed
    moreover have "own_agents (ps_agents t) (?a\<lparr>oa_ledger := g\<rparr>)"
      unfolding own_agents_def
    proof (intro ballI impI)
      fix x
      assume x: "x \<in> set (ps_agents t)" "ra_endpoint x = np_name (oa_plan (?a\<lparr>oa_ledger := g\<rparr>))"
      have "x \<notin> set (ps_agents ?s)"
      proof
        assume "x \<in> set (ps_agents ?s)"
        then have "ra_endpoint x \<in> re_id ` set (ps_endpoints ?s)" using sub by blast
        then show False using x(2) f(1) by simp
      qed
      then show "ra_id x \<in> set (agents_of (oa_plan (?a\<lparr>oa_ledger := g\<rparr>)))" using la(3) [OF x(1)] by simp
    qed
    moreover have "list_all (own_agents (ps_agents t)) (pw_loaded w)"
    proof -
      have "own_agents (ps_agents t) b" if b: "b \<in> set (pw_loaded w)" for b
      proof -
        have "np_name (oa_plan b) \<in> set (new_nodes (pw_loaded w))" using b by (simp add: new_nodes_def)
        then have "np_name (oa_plan b) \<in> set (map re_id (ps_endpoints ?s))" using kn unfolding accounts_def by blast
        then have "np_name (oa_plan b) \<noteq> np_name ?p" using f(1) by auto
        moreover have "own_agents (ps_agents ?s) b" using lo b by (simp add: list_all_iff)
        ultimately show ?thesis using la(3) unfolding own_agents_def by metis
      qed
      then show ?thesis by (simp add: list_all_iff)
    qed
    moreover have "wrote_well (?a\<lparr>oa_ledger := g\<rparr>)" using wa by (auto simp: wrote_well_def l(3) split: option.splits)
    ultimately have "world_ok ?w" using w without_all [OF lw, of k] by (simp add: world_ok_def waiting_def)
    then show ?thesis using True by (simp add: r None Let_def)
  next
    case (Some m)
    let ?t = "undo_add pe ?a m (t, g)"
    have c: "snapshot_current pe w ?a" using ok l(1) [symmetric] Some by (simp add: True)
    note u = undo_file [OF c wa, where g = g and m = m and t = t]
    note rb = rollback_loaded [OF l(2) f]
    have mem: "ps_endpoints ?t = ps_endpoints ?s" "ps_agents ?t = ps_agents ?s" by (simp_all add: undo_add_def rb)
    have "accounts_kept (w\<lparr>pw_written := ?rest, pw_state := ?t\<rparr>)"
      using accounts_unloaded [OF kn] accounts_unloaded [OF ka] u by (simp add: accounts_kept_def waiting_def without_def mem [unfolded l(3)] l(3))
    then have "world_ok (w\<lparr>pw_written := ?rest, pw_state := ?t\<rparr>)" using w without_all [OF lw, of k] by (simp add: world_ok_def waiting_def mem)
    then show ?thesis using True by (simp add: r Some Let_def)
  qed
qed

lemma converged_ok:
  assumes w: "world_ok w" and ok: "undisturbed pe w (AddConverged k)"
  shows "world_ok (prov_handle pe w (AddConverged k))"
proof (cases "k < length (pw_loaded w)")
  case False
  then show ?thesis using w by simp
next
  case True
  let ?s = "pw_state w" and ?a = "pw_loaded w ! k" and ?rest = "without k (pw_loaded w)"
  let ?p = "oa_plan ?a" and ?b = "take k (pw_loaded w)" and ?c = "drop (Suc k) (pw_loaded w)"
  have split: "pw_loaded w = ?b @ [?a] @ ?c" by (rule without_split [OF True])
  have kept: "accounts_kept w" and sub: "ra_endpoint ` set (ps_agents ?s) \<subseteq> re_id ` set (ps_endpoints ?s)" and lw: "list_all wrote_well (pw_loaded w)"
    and lo: "list_all (own_agents (ps_agents ?s)) (pw_loaded w)" using w by (simp_all add: world_ok_def)
  have nn: "new_nodes (pw_loaded w) = new_nodes ?b @ [np_name ?p] @ new_nodes ?c" using arg_cong [OF split, of new_nodes] by simp
  have na: "new_agents (pw_loaded w) = new_agents ?b @ agents_of ?p @ new_agents ?c" using arg_cong [OF split, of new_agents] by simp
  have kn: "accounts (map re_id (ps_endpoints ?s)) (section_keys ''endpoints'' (ps_file ?s)) (new_nodes (waiting w)) (new_nodes (pw_written w))
       (new_nodes ?b @ [np_name ?p] @ new_nodes ?c) (concat (map deleted_nodes (pw_lock w)))"
    and ka: "accounts (map ra_id (ps_agents ?s)) (section_keys ''agents'' (ps_file ?s)) (new_agents (waiting w)) (new_agents (pw_written w))
       (new_agents ?b @ agents_of ?p @ new_agents ?c) (concat (map deleted_agents (pw_lock w)))"
    using kept unfolding accounts_kept_def nn na by simp_all
  have wa: "wrote_well ?a" and oa: "own_agents (ps_agents ?s) ?a" using lw lo True by (simp_all add: list_all_length)
  obtain t g r where r: "run_steps (converge_steps (oa_fault ?a) (oa_side ?a) ?p) (?s, oa_ledger ?a) = ((t, g), r)" by (metis prod.collapse)
  note l = converge_run [OF r]
  show ?thesis
  proof (cases r)
    case None
    have "accounts_kept (w\<lparr>pw_loaded := ?rest, pw_state := t\<rparr>)"
      using accounts_ended [OF kn] accounts_ended [OF ka] by (simp add: accounts_kept_def waiting_def without_def l(3-6))
    then have "world_ok (w\<lparr>pw_loaded := ?rest, pw_state := t\<rparr>)"
      using w without_all [OF lw, of k] without_all [OF lo, of k] by (simp add: world_ok_def waiting_def l(3-6))
    then show ?thesis using True by (simp add: r None Let_def)
  next
    case (Some m)
    let ?t = "undo_add pe ?a m (t, g)"
    have c: "snapshot_current pe w ?a" using ok l(1) [symmetric] Some by (simp add: True)
    note u = undo_file [OF c wa, where g = g and m = m and t = t]
    have e: "ps_endpoints ?t = filter (\<lambda>e. re_id e \<noteq> np_name ?p) (ps_endpoints ?s)" and ag: "ps_agents ?t = filter (\<lambda>r. ra_id r \<notin> set (agents_of ?p)) (ps_agents ?s)"
      by (simp_all add: undo_fields l(3,4))
    have ids: "map re_id (ps_endpoints ?t) = filter (\<lambda>i. i \<notin> set [np_name ?p]) (map re_id (ps_endpoints ?s))"
      and ags: "map ra_id (ps_agents ?t) = filter (\<lambda>i. i \<notin> set (agents_of ?p)) (map ra_id (ps_agents ?s))"
      unfolding e ag by (simp_all add: filter_map o_def)
    have "accounts_kept (w\<lparr>pw_loaded := ?rest, pw_state := ?t\<rparr>)"
      using accounts_undone [OF kn] accounts_undone [OF ka] u unfolding accounts_kept_def by (simp add: waiting_def without_def ids [unfolded l(2)] ags [unfolded l(2)] l(2))
    moreover have "ra_endpoint ` set (ps_agents ?t) \<subseteq> re_id ` set (ps_endpoints ?t)"     proof -
      have "ra_endpoint x \<in> re_id ` set (ps_endpoints ?s) - {np_name ?p}" if "x \<in> set (ps_agents ?t)" for x
        using that sub oa by (auto simp: ag own_agents_def)
      moreover have "re_id ` set (ps_endpoints ?t) = re_id ` set (ps_endpoints ?s) - {np_name ?p}" by (auto simp: e)
      ultimately show ?thesis by blast
    qed
    moreover have "list_all (own_agents (ps_agents ?t)) ?rest" using without_all [OF lo, of k] by (auto simp: list_all_iff own_agents_def ag)
    ultimately have "world_ok (w\<lparr>pw_loaded := ?rest, pw_state := ?t\<rparr>)" using w without_all [OF lw, of k] by (simp add: world_ok_def waiting_def)
    then show ?thesis using True by (simp add: r Some Let_def)
  qed
qed

lemma install_ok: "world_ok w \<Longrightarrow> world_ok (prov_handle pe w (InstallEnds fault nd p rolledBack err bin))"
proof -
  assume w: "world_ok w"
  have m: "map re_id (upd_where (\<lambda>e. re_id e = np_name p) (\<lambda>e. e\<lparr>re_spawn := x\<rparr>) xs) = map re_id xs" for x xs
    by (simp add: upd_where_def)
  have "map re_id (ps_endpoints (install_ends fault nd pe p rolledBack err bin s)) = map re_id (ps_endpoints s)"
    "ps_agents (install_ends fault nd pe p rolledBack err bin s) = ps_agents s" "ps_file (install_ends fault nd pe p rolledBack err bin s) = ps_file s" for s
    by (auto simp: install_ends_def Let_def mirror_converge_fields m split: option.split)
  with world_ok_same [OF w] show ?thesis by simp
qed

lemma handle_ok: "world_ok w \<Longrightarrow> undisturbed pe w e \<Longrightarrow> world_ok (prov_handle pe w e)"
  by (cases e) (simp_all only: requested_ok delete_requested_ok granted_ok resumed_ok converged_ok install_ok)

lemma quiet_ok: "in_step s \<Longrightarrow> world_ok (quiet s)"
  unfolding in_step_def world_ok_def by (simp add: accounts_kept_def accounts_def quiet_def waiting_def) blast

text \<open>A history is followed as long as it is undisturbed.\<close>

fun undisturbed_run :: "prov_env \<Rightarrow> prov_world \<Rightarrow> prov_event list \<Rightarrow> bool" where
  "undisturbed_run pe w [] \<longleftrightarrow> True"
| "undisturbed_run pe w (e # es) \<longleftrightarrow> undisturbed pe w e \<and> undisturbed_run pe (prov_handle pe w e) es"

definition guarded_handle :: "prov_env \<Rightarrow> prov_world \<Rightarrow> prov_event \<Rightarrow> prov_world" where
  "guarded_handle pe w e = (if undisturbed pe w e then prov_handle pe w e else w)"

lemma guarded_run: "undisturbed_run pe w es \<Longrightarrow> foldl (guarded_handle pe) w es = foldl (prov_handle pe) w es"
  by (induction es arbitrary: w) (auto simp: guarded_handle_def)

definition nothing_configured :: prov_state where
  "nothing_configured = \<lparr>ps_endpoints = [], ps_agents = [], ps_upstreams = [], ps_supervisors = [], ps_db = empty_db, ps_file = YMap [], ps_env = None,
     ps_homes = [], ps_workspaces = []\<rparr>"

interpretation provisioning: invariant_system "quiet nothing_configured" "guarded_handle pe" "\<lambda>e. True" world_ok for pe
proof
  show "world_ok (quiet nothing_configured)" by (rule quiet_ok) (simp add: in_step_def nothing_configured_def section_keys_def)
qed (simp add: guarded_handle_def handle_ok)

lemma undisturbed_ok:
  assumes "in_step s" "undisturbed_run pe (quiet s) es"
  shows "world_ok (foldl (prov_handle pe) (quiet s) es)"
  using provisioning.inv_foldl [OF quiet_ok [OF assms(1)], of es pe] by (simp add: guarded_run [OF assms(2)] list_all_iff)

text \<open>
  Claim C38. Memory and file stay in step while additions, deletions and ends of installs overlap. Start where memory and file name the same nodes and agents,
  with every agent on a node that is there, and let requests run in any interleaving of their stretches, with any steps failing, under these
  conditions: no two open requests are about the same node or agent; a deletion can write the file and no write leaves behind a file that was
  to be taken back; and an addition that fails after its write finds the file as it wrote it, onto what it had seen before it waited for
  the lock, and can write that back. Then at every moment the file names exactly the nodes (and agents) in memory, those written by additions that
  have not loaded them yet, and those of deletions that wait for the lock; every agent in memory is on a node in memory; and when no request
  is in between, memory and file are in step again.
\<close>

theorem memory_and_file_in_step:
  assumes "in_step s" "undisturbed_run pe (quiet s) es" "w = foldl (prov_handle pe) (quiet s) es"
  shows "section_keys ''endpoints'' (ps_file (pw_state w)) =
      re_id ` set (ps_endpoints (pw_state w)) \<union> set (new_nodes (pw_written w)) \<union> set (concat (map deleted_nodes (pw_lock w))) \<and>
    section_keys ''agents'' (ps_file (pw_state w)) =
      ra_id ` set (ps_agents (pw_state w)) \<union> set (new_agents (pw_written w)) \<union> set (concat (map deleted_agents (pw_lock w))) \<and>
    ra_endpoint ` set (ps_agents (pw_state w)) \<subseteq> re_id ` set (ps_endpoints (pw_state w)) \<and>
    (pw_lock w = [] \<and> pw_written w = [] \<longrightarrow> in_step (pw_state w))"
  using undisturbed_ok [OF assms(1,2)] unfolding assms(3) [symmetric]
  by (auto simp: world_ok_def accounts_kept_def accounts_def in_step_def)

text \<open>A request that is handled alone goes through its four stretches.\<close>

lemma handled_alone:
  "pw_state (foldl (prov_handle pe) (quiet s) [AddRequested fault nd b, LockGranted, AddResumed 0, AddConverged 0]) = fst (create_node fault nd pe b s)"
proof (cases "plan_node pe s b")
  case (Inr p)
  obtain sa ga ra where a: "run_steps (before_lock fault nd pe p) (s, empty_ledger) = ((sa, ga), ra)" by (metis prod.collapse)
  obtain sb gb rb where w: "write_truth fault pe p (sa, ga) = ((sb, gb), rb)" by (metis prod.collapse)
  obtain sc gc rc where l: "run_steps (load_steps fault nd pe p) (sb, gb) = ((sc, gc), rc)" by (metis prod.collapse)
  obtain sd gd rd where d: "run_steps (converge_steps fault nd p) (sc, gc) = ((sd, gd), rd)" by (metis prod.collapse)
  show ?thesis
    by (cases ra; cases rb; cases rc; cases rd)
      (simp_all add: quiet_def Inr a w l d create_node_def pipeline_def run_steps_append Let_def without_def undo_add_def)
qed (simp add: quiet_def create_node_def)

section \<open>What a restart reads\<close>

definition supported_pin :: "(string \<times> string) option \<Rightarrow> bool" where
  "supported_pin pin \<longleftrightarrow> (case pin of None \<Rightarrow> True | Some (v, g) \<Rightarrow> v \<noteq> [] \<and> g \<noteq> [] \<and> resolvePair v \<noteq> None)"

lemma matrix_pins: "q \<in> set SUPPORTED_DSH \<Longrightarrow> dp_dsh q \<noteq> [] \<and> dp_gateway q \<noteq> [] \<and> resolvePair (dp_dsh q) \<noteq> None"
proof -
  have "list_all (\<lambda>q. dp_dsh q \<noteq> [] \<and> dp_gateway q \<noteq> [] \<and> resolvePair (dp_dsh q) \<noteq> None) SUPPORTED_DSH" by code_simp
  then show "q \<in> set SUPPORTED_DSH \<Longrightarrow> ?thesis" by (simp add: list_all_iff)
qed

lemma planned_pin: "plan_node pe s b = Inr p \<Longrightarrow> supported_pin (np_pin p)"
proof -
  assume "plan_node pe s b = Inr p"
  from plan_node_Inr(6) [OF this] show ?thesis
  proof (cases "pb_dsh_version b")
    case (Some v)
    then show ?thesis using plan_node_Inr(6) [OF \<open>plan_node pe s b = Inr p\<close>] matrix_pins
      by (auto simp: supported_pin_def resolvePair_def find_Some_iff split: option.splits) (metis nth_mem)+
  qed (simp add: supported_pin_def)
qed

lemma strip_planned: "strip_slashes (strip_slashes u) = strip_slashes u"
proof -
  have d: "dropWhile P (dropWhile P xs) = dropWhile P xs" for P and xs :: string by (induction xs) auto
  show ?thesis unfolding strip_slashes_def using d by simp
qed

definition spawn_of_plan :: "prov_env \<Rightarrow> node_plan \<Rightarrow> spawn_file" where
  "spawn_of_plan pe p = (case np_form p of
     MachineNode h u \<Rightarrow> \<lparr>fs_managed = True, fs_command = None, fs_args = machine_args p, fs_cwd = None, fs_ready_timeout_ms = 120000, fs_detached = False,
       fs_log_file = None, fs_env = None, fs_restart = default_restart, fs_runner = RunAgent, fs_docker = None, fs_host = Some h,
       fs_dsh_version = map_option fst (np_pin p), fs_gateway_ref = map_option snd (np_pin p)\<rparr>
   | _ \<Rightarrow> \<lparr>fs_managed = True, fs_command = Some ''node'', fs_args = local_args (pe_dshBin pe) p, fs_cwd = None, fs_ready_timeout_ms = 30000, fs_detached = False,
       fs_log_file = None, fs_env = Some [(''DSH_HOME'', home_of pe (np_name p))], fs_restart = default_restart, fs_runner = RunProcess, fs_docker = None, fs_host = None,
       fs_dsh_version = map_option fst (np_pin p), fs_gateway_ref = map_option snd (np_pin p)\<rparr>)"

lemma z_array_strings: "z_array z_string (Some (YSeq (map YStr xs))) = Some xs"
  by (induction xs) (auto simp: z_array_def z_string_def)

lemma spawn_of_plan_accepted:
  assumes "np_form p \<noteq> ContainerNode" "supported_pin (np_pin p)" "\<And>h u. np_form p = MachineNode h u \<Longrightarrow> h \<noteq> []"
  shows "spawnSchema (Some (YMap (spawn_fields pe p))) = Some (spawn_of_plan pe p)"
  using assms z_record_strings [of "[(''DSH_HOME'', home_of pe (np_name p))]"]
  by (cases "np_form p"; cases "np_pin p")
    (auto simp: spawn_fields_def spawn_of_plan_def spawnSchema_def spawn_refinement_def pin_fields_def supported_pin_def z_object_def z_default_def z_optional_def
      z_refine_def z_string_def z_bool_def z_number_def z_int_def z_from_def z_nonempty_def z_enum_def z_array_strings)

lemma memory_of_plan:
  assumes "np_form p \<noteq> ContainerNode"
  shows "resolve_spawn rsv (spawn_of_plan pe p) = spawn_memory pe p"
  using assms by (cases "np_form p") (simp_all add: resolve_spawn_def spawn_of_plan_def spawn_memory_def spawnFor_def default_restart_def Let_def)

lemma hot_load_is_reload:
  assumes p: "plan_node pe s b = Inr p" and form: "np_form p \<noteq> ContainerNode"
    and url: "is_url (node_url p)" "is_url (node_url p @ ''/api-gw/v1'')"
    and key: "env (key_ref_of (np_name p)) = Some (pe_key pe)" "pe_key pe \<noteq> []"
  shows "\<exists>f. endpointSchema is_url (Some (endpoint_yaml pe p)) = Some f \<and> resolve_endpoint env rsv (np_name p, f) = Inr (endpoint_memory pe p)"
proof -
  note pin = planned_pin [OF p]
  have host: "h \<noteq> []" if "np_form p = MachineNode h u" for h u
    using that plan_node_Inr(1,4) [OF p] by (auto simp: form_of_def provisionBody_def when_given_def split: if_splits option.splits)
  have strip: "strip_slashes (node_url p) = node_url p"
    using form plan_node_Inr(4) [OF p] by (cases "np_form p")
      (auto simp: node_url_def strip_local form_of_def strip_planned strip_slashes_def [of "[]"] split: if_splits option.splits)
  have sb: "strip_slashes (node_url p @ ''/api-gw/v1'') = node_url p @ ''/api-gw/v1''" by (simp add: strip_slashes_def)
  have kr: "env_or_empty env (key_ref_of (np_name p)) = pe_key pe" using key by (simp add: env_or_empty_def key_ref_of_def)
  have np: "pinned_version_unknown (Some (spawn_of_plan pe p)) = None"
    using form pin by (cases "np_form p"; cases "np_pin p") (auto simp: pinned_version_unknown_def spawn_of_plan_def supported_pin_def)
  let ?f = "\<lparr>fe_url = node_url p, fe_driver = Apiproxy, fe_prefix = ''/api-gw/v1/proxy'', fe_key_ref = key_ref_of (np_name p),
      fe_sandbox_base = Some (node_url p @ ''/api-gw/v1''), fe_sandbox_key_ref = key_ref_of (np_name p), fe_spawn = Some (spawn_of_plan pe p), fe_access = None\<rparr>"
  have "endpointSchema is_url (Some (endpoint_yaml pe p)) = Some ?f"
    using url spawn_of_plan_accepted [OF form pin host, where pe = pe]
    by (simp add: endpointSchema_def endpoint_yaml_def starts_with_slash_def z_object_def z_default_def z_optional_def z_refine_def z_string_def z_enum_def)
  moreover have "resolve_endpoint env rsv (np_name p, ?f) = Inr (endpoint_memory pe p)"
    using key(2) np memory_of_plan [OF form, where rsv = rsv and pe = pe]
    by (simp add: resolve_endpoint_def kr sb strip endpoint_memory_def Let_def) (simp add: strip_slashes_def)
  ultimately show ?thesis by blast
qed

lemma docker_entry_refused: "dockerSpawnSchema (Some (YMap (docker_fields pe p))) = None"
proof -
  have m: "map_of (docker_fields pe p) ''memory_limit_mb'' = Some YNull" by (simp add: docker_fields_def)
  have "z_optional (z_from 1) (Some YNull) = None" by (simp add: z_optional_def z_from_def z_refine_def z_int_def z_number_def)
  then show ?thesis by (simp add: dockerSpawnSchema_def z_object_def m)
qed

lemma container_entry_refused: "np_form p = ContainerNode \<Longrightarrow> endpointSchema is_url (Some (endpoint_yaml pe p)) = None"
proof -
  assume f: "np_form p = ContainerNode"
  have "map_of (spawn_fields pe p) ''docker'' = Some (YMap (docker_fields pe p))" by (simp add: spawn_fields_def f)
  then have "spawnSchema (Some (YMap (spawn_fields pe p))) = None"
    by (simp add: spawnSchema_def z_refine_def z_object_def z_optional_def docker_entry_refused)
  then have s: "z_optional spawnSchema (Some (YMap (spawn_fields pe p))) = None" by (simp add: z_optional_def)
  have m: "map_of [(''url'', YStr (node_url p)), (''driver'', YStr ''apiproxy''), (''prefix'', YStr ''/api-gw/v1/proxy''),
     (''key_ref'', YStr (key_ref_of (np_name p))), (''sandbox_base'', YStr (node_url p @ ''/api-gw/v1'')), (''sandbox_key_ref'', YStr (key_ref_of (np_name p))),
     (''spawn'', YMap (spawn_fields pe p))] ''spawn'' = Some (YMap (spawn_fields pe p))" by simp
  show ?thesis unfolding endpointSchema_def endpoint_yaml_def z_object_def option.case yaml.case m s by (simp split: option.split)
qed

lemma record_entry_refused: "map_of kvs k = Some y \<Longrightarrow> P (Some y) = None \<Longrightarrow> z_record P (Some (YMap kvs)) = None"
proof -
  assume k: "map_of kvs k = Some y" and P: "P (Some y) = None"
  have "None \<in> set (map (\<lambda>(k, x). map_option (Pair k) (P (Some x))) kvs)" using map_of_SomeD [OF k] P by force
  then have "those (map (\<lambda>(k, x). map_option (Pair k) (P (Some x))) kvs) \<noteq> Some zs" for zs unfolding those_Some by (metis ex_map_conv option.distinct(1))
  then have "those (map (\<lambda>(k, x). map_option (Pair k) (P (Some x))) kvs) = None" by fastforce
  then show ?thesis by (simp add: z_record_def)
qed

lemma section_refused:
  assumes "yget (Some doc) ''endpoints'' = Some (YMap kvs)" "map_of kvs k = Some y" "endpointSchema is_url (Some y) = None"
  shows "fileSchema is_url (Some doc) = None"
proof -
  have r: "z_refine (\<lambda>xs. xs \<noteq> []) (z_record (endpointSchema is_url)) (Some (YMap kvs)) = None"
    using record_entry_refused [where P = "endpointSchema is_url", OF assms(2,3)] by (simp add: z_refine_def)
  obtain top where d: "doc = YMap top" "map_of top ''endpoints'' = Some (YMap kvs)" using assms(1) by (cases doc) (simp_all add: yget_def)
  show ?thesis unfolding d(1) fileSchema_def z_object_def option.case yaml.case d(2) r by (simp split: option.split)
qed

lemma up_keeps_endpoints: "yget (Some doc) ''endpoints'' = Some y \<Longrightarrow> yget (Some (up_0_1 doc)) ''endpoints'' = Some y"
proof -
  have m: "map_of (filter (\<lambda>(k, v). k \<noteq> c) kvs) x = (if x = c then None else map_of kvs x)" for c x and kvs :: "(string \<times> yaml) list"
    by (induction kvs) auto
  show "yget (Some doc) ''endpoints'' = Some y \<Longrightarrow> ?thesis" by (cases doc) (simp_all add: yget_def up_0_1_def m)
qed

lemma load_refused:
  assumes "yget (Some doc) ''endpoints'' = Some (YMap kvs)" "map_of kvs k = Some y" "endpointSchema is_url (Some y) = None"
  shows "isl (loadConfig is_url env rsv doc)"
  using section_refused [OF assms] section_refused [OF up_keeps_endpoints [OF assms(1)] assms(2,3)]
  by (auto simp: loadConfig_def migrateConfigIfNeeded_def bindE_def)

lemma set_in_entry: "set_in a b v doc = Some d \<Longrightarrow> \<exists>kvs. yget (Some d) a = Some (YMap kvs) \<and> map_of kvs b = Some v"
  by (cases doc) (auto simp: set_in_def yget_def split: option.splits yaml.splits)

lemma set_in_other: "set_in a b v doc = Some d \<Longrightarrow> c \<noteq> a \<Longrightarrow> yget (Some d) c = yget (Some doc) c"
  by (cases doc) (auto simp: set_in_def yget_def split: option.splits yaml.splits)

lemma node_document_entry:
  assumes "node_document pe p doc = Some d"
  shows "\<exists>kvs. yget (Some d) ''endpoints'' = Some (YMap kvs) \<and> map_of kvs (np_name p) = Some (endpoint_yaml pe p)"
proof -
  obtain d1 where d1: "set_in ''endpoints'' (np_name p) (endpoint_yaml pe p) doc = Some d1" using assms by (auto simp: node_document_def split: option.splits)
  then have "yget (Some d) ''endpoints'' = yget (Some d1) ''endpoints''"
    using assms set_in_other [of "''agents''"] by (fastforce simp: node_document_def split: option.splits)
  then show ?thesis using set_in_entry [OF d1] by simp
qed

lemma created_outcome:
  assumes p: "plan_node pe s b = Inr p" and c: "create_node fault nd pe b s = (s1, PvCreated201 n q)"
  shows "node_document pe p (ps_file s) = Some (ps_file s1)" "ps_endpoints s1 = ps_endpoints s @ [endpoint_memory pe p]" "ps_env s1 = Some (secret_text pe p s)"
proof -
  obtain sa ga ra where a: "run_steps (before_lock fault nd pe p) (s, empty_ledger) = ((sa, ga), ra)" by (metis prod.collapse)
  obtain sb gb rb where w: "write_truth fault pe p (sa, ga) = ((sb, gb), rb)" by (metis prod.collapse)
  obtain sc gc rc where l: "run_steps (load_steps fault nd pe p) (sb, gb) = ((sc, gc), rc)" by (metis prod.collapse)
  obtain sd gd rd where d: "run_steps (converge_steps fault nd p) (sc, gc) = ((sd, gd), rd)" by (metis prod.collapse)
  have r: "ra = None" "rb = None" "rc = None" "rd = None" "s1 = sd"
    using c by (cases ra; cases rb; cases rc; cases rd; simp add: create_node_def p pipeline_def run_steps_append a w l d)+
  have sa: "same_memory s sa" "ps_file sa = ps_file s" "ps_env sa = ps_env s" using before_lock_run(1) [OF a] by (simp_all add: untouched_def)
  show "node_document pe p (ps_file s) = Some (ps_file s1)"
    using write_truth_run(2) [OF w r(2)] load_run(4) [OF l] converge_run(6) [OF d] sa(2) r(5) by simp
  have "ps_endpoints sb = ps_endpoints s" using write_truth_run(1) [OF w] sa(1) by (simp add: same_memory_def)
  then show "ps_endpoints s1 = ps_endpoints s @ [endpoint_memory pe p]"
    using load_run(2) [OF l] converge_run(3) [OF d] fresh_node(1) [OF p] by (simp add: r(5) loaded_onto_def put_by_fresh)
  have "ps_env sb = Some (secret_text pe p s)" using w r(2) sa(3) by (auto simp: write_truth_def secret_text_def Let_def split: option.splits)
  then show "ps_env s1 = Some (secret_text pe p s)" using load_run(5) [OF l] converge_run(7) [OF d] by (simp add: r(5))
qed

lemma endpoint_of_last: "i \<notin> re_id ` set eps \<Longrightarrow> re_id e = i \<Longrightarrow> endpoint_of (eps @ [e]) i = Some e"
  unfolding endpoint_of_def by (induction eps) auto


section \<open>What goes wrong\<close>

text \<open>
  A container node added at runtime makes the file unreadable: the request answers that the node is created, and from then on the manager cannot
  load its configuration, in any environment, because the entry says that the memory limit is null and the schema takes a number or nothing.
\<close>

theorem container_node_unreadable:
  assumes "plan_node pe s b = Inr p" "np_form p = ContainerNode" "create_node fault nd pe b s = (s1, PvCreated201 n q)"
  shows "isl (loadConfig is_url env rsv (ps_file s1))"
proof -
  from node_document_entry [OF created_outcome(1) [OF assms(1,3)]] show ?thesis using container_entry_refused [OF assms(2)] by (blast intro: load_refused)
qed

text \<open>
  A port out of range is accepted: the request takes every positive number, and from then on the manager cannot load its configuration, because the
  address of the node is none for the check of the file's schema (\<open>is_url\<close>), which refuses a port above 65535.
\<close>

theorem port_beyond_range_unreadable:
  assumes "plan_node pe s b = Inr p" "create_node fault nd pe b s = (s1, PvCreated201 n q)" "\<not> is_url (node_url p)"
  shows "isl (loadConfig is_url env rsv (ps_file s1))"
proof -
  have "endpointSchema is_url (Some (endpoint_yaml pe p)) = None"
    using assms(3) by (simp add: endpointSchema_def endpoint_yaml_def z_object_def z_refine_def z_string_def)
  with node_document_entry [OF created_outcome(1) [OF assms(1,2)]] show ?thesis by (blast intro: load_refused)
qed

text \<open>
  A machine that is chosen may be ignored: in a deployment with a container node, a request that names a machine and leaves the form open is
  planned as a container on the host of the manager.
\<close>

theorem chosen_machine_ignored:
  assumes "plan_node pe s b = Inr p" "pb_host b = Some h" "pb_runner b = None" "list_ex is_docker (ps_endpoints s)"
  shows "np_form p = ContainerNode"
  using plan_node_Inr(4) [OF assms(1)] assms(3,4) by (simp add: form_of_def wantDocker_def)

text \<open>
  The manager does not know the secret it has written: in the environment of the running process the new node's entry is refused, so
  until a restart every edit that reads the file back fails.
\<close>

theorem running_manager_refuses_new_node:
  assumes p: "plan_node pe s b = Inr p" and form: "np_form p \<noteq> ContainerNode"
    and url: "is_url (node_url p)" "is_url (node_url p @ ''/api-gw/v1'')" and env: "env (key_ref_of (np_name p)) = None"
  shows "\<exists>f. endpointSchema is_url (Some (endpoint_yaml pe p)) = Some f \<and> resolve_endpoint env rsv (np_name p, f) = Inl (SandboxKeyEmpty (np_name p))"
proof -
  note pin = planned_pin [OF p]
  have host: "h \<noteq> []" if "np_form p = MachineNode h u" for h u
    using that plan_node_Inr(1,4) [OF p] by (auto simp: form_of_def provisionBody_def when_given_def split: if_splits option.splits)
  have kr: "env_or_empty env (key_ref_of (np_name p)) = []" using env by (simp add: env_or_empty_def key_ref_of_def)
  show ?thesis
    using url spawn_of_plan_accepted [OF form pin host, where pe = pe] kr
    by (simp add: endpointSchema_def endpoint_yaml_def starts_with_slash_def z_object_def z_default_def z_optional_def z_refine_def z_string_def z_enum_def resolve_endpoint_def Let_def)
qed

text \<open>
  A failed request destroys the home of an earlier node: once the profile step has run, any later failure removes the directory of that name,
  also when it was there before, kept on disk by the deletion of a node of the same name.
\<close>

theorem failure_removes_old_home:
  assumes p: "plan_node pe s b = Inr p" "np_form p = LocalNode" and ok: "fault FindBin = None" "fault MakeProfile = None" "fault RemoveHome = None"
    and failed: "create_node fault nd pe b s = (s1, PvFailed500 m)"
  shows "pb_name b \<notin> set (ps_homes s1)"
proof -
  let ?x = "make_profile p (s, empty_ledger)"
  have "\<exists>fs. pipeline fault nd pe p = step_at fault FindBin id # step_at fault MakeProfile (make_profile p) # fs \<and>
      (\<forall>f \<in> set fs. \<forall>x. lg_home (snd x) \<longrightarrow> lg_home (snd (fst (f x))))"
    using p(2) by (auto simp: pipeline_def before_lock_def load_steps_def converge_steps_def Let_def step_at_def make_workspace_def mark_db_def write_audit_def read_truth_def
        write_truth_def hot_load_def on_state_def split: option.splits prod.splits)
  then obtain fs where fs: "pipeline fault nd pe p = step_at fault FindBin id # step_at fault MakeProfile (make_profile p) # fs"
    "\<And>f x. f \<in> set fs \<Longrightarrow> lg_home (snd x) \<Longrightarrow> lg_home (snd (fst (f x)))" by blast
  have "lg_home (snd (fst (run_steps fs ?x)))"
    by (rule run_steps_keeps [where I = "\<lambda>x. lg_home (snd x)"]) (use fs(2) in \<open>simp_all add: make_profile_def\<close>)
  moreover obtain s2 g where r: "run_steps fs ?x = ((s2, g), Some m)" and s1: "s1 = rollback_node fault nd pe p m (s2, g)"
    using failed p(1) by (auto simp: create_node_def fs(1) step_at_def ok split: prod.splits option.splits)
  ultimately have "lg_home g" by simp
  then show ?thesis using plan_node_Inr(3) [OF p(1)] ok(3) by (simp add: s1 rollback_node_def note_failure_def remove_home_def mirror_hot_def Let_def)
qed

section \<open>Samples\<close>

definition sample_pe :: prov_env where
  "sample_pe = \<lparr>pe_is_url = (\<lambda>s. True), pe_urlPort = (\<lambda>u. if u = local_url 3090 then Some 3090 else None), pe_resolve = (\<lambda>p. p), pe_nodesHome = ''/h'',
     pe_listenPort = 8080, pe_container = False, pe_docker = True, pe_nodeImage = None, pe_dshBin = ''/bin.js'', pe_key = ''k'', pe_actor = ''admin''\<rparr>"

definition sample_body :: "Schema.runner_kind option \<Rightarrow> string option \<Rightarrow> provision_body" where
  "sample_body r h = \<lparr>pb_name = ''n1'', pb_port = None, pb_install = None, pb_runner = r, pb_host = h, pb_url = map_option (\<lambda>x. ''http://m:3081'') h, pb_dsh_version = None,
     pb_agent = Some \<lparr>ai_id = None, ai_name = None, ai_workspace = None, ai_preset = None, ai_sandboxMode = None\<rparr>\<rparr>"

definition sample_manager :: prov_state where
  "sample_manager = \<lparr>ps_endpoints = [], ps_agents = [], ps_upstreams = [], ps_supervisors = [], ps_db = empty_db, ps_file = YMap [], ps_env = None,
     ps_homes = [''n1''], ps_workspaces = []\<rparr>"

definition sample_side :: node_side where
  "sample_side = \<lparr>ns_deps = \<lparr>dep_docker = True, dep_agentCommand = True\<rparr>, ns_env = \<lparr>env_now = 1000, env_pid = Some 7\<rparr>,
     ns_world = (\<lambda>i. \<lparr>nw_docker = True, nw_container = NoContainer, nw_probe = (True, [])\<rparr>)\<rparr>"

definition failing_at :: "prov_step \<Rightarrow> faults" where
  "failing_at k j = (if j = k then Some ''disk full'' else None)"

definition no_fault :: faults where "no_fault k = None"

definition sample_plan :: "Schema.runner_kind option \<Rightarrow> string option \<Rightarrow> node_plan" where
  "sample_plan r h = projr (plan_node sample_pe sample_manager (sample_body r h))"

lemma sample_planned: "plan_node sample_pe sample_manager (sample_body None None) = Inr (sample_plan None None)"
  "plan_node sample_pe sample_manager (sample_body (Some RunDocker) None) = Inr (sample_plan (Some RunDocker) None)"
proof -
  have "\<not> isl (plan_node sample_pe sample_manager (sample_body None None))" "\<not> isl (plan_node sample_pe sample_manager (sample_body (Some RunDocker) None))" by code_simp+
  then show "plan_node sample_pe sample_manager (sample_body None None) = Inr (sample_plan None None)"
    "plan_node sample_pe sample_manager (sample_body (Some RunDocker) None) = Inr (sample_plan (Some RunDocker) None)"
    by (simp_all add: sample_plan_def)
qed

definition failed_create :: "prov_step \<Rightarrow> prov_state" where
  "failed_create k = fst (create_node (failing_at k) sample_side sample_pe (sample_body None None) sample_manager)"

lemma create_result: "create_node f nd pe b s = (fst (create_node f nd pe b s), snd (create_node f nd pe b s))" by simp

lemmas step_defs = pipeline_def before_lock_def load_steps_def converge_steps_def Let_def step_at_def make_workspace_def make_profile_def mark_db_def write_audit_def
  read_truth_def hot_load_def on_state_def mirror_hot_def converge_hot_def write_truth_def

text \<open>When only the writing of the configuration fails, and when only the last step of a local node does.\<close>

lemma set_in_new: "set_in a b v doc = Some d \<Longrightarrow> b \<notin> section_keys a doc \<Longrightarrow> d \<noteq> doc"
  using set_in_keys [of a b v doc d a] by auto

lemma document_new: "node_document pe p doc = Some d \<Longrightarrow> np_name p \<notin> section_keys ''endpoints'' doc \<Longrightarrow> d \<noteq> doc"
  using document_keys [of pe p doc d] by auto

lemma write_failure:
  assumes "plan_node pe s b = Inr p" "fault WriteFile = Some m" "\<And>k. k \<noteq> WriteFile \<Longrightarrow> fault k = None"
    "node_document pe p (ps_file s) = Some doc" "np_name p \<notin> section_keys ''endpoints'' (ps_file s)"
  shows "snd (create_node fault nd pe b s) = PvFailed500 m" "ps_env (fst (create_node fault nd pe b s)) = Some (secret_text pe p s)"
  using assms document_new [OF assms(4,5)]
  by (cases "np_form p"; cases "np_agent p"; simp add: create_node_def step_defs write_doc_def rollback_fields empty_ledger_def secret_text_def)+

lemma write_works:
  "node_document pe p doc0 = Some doc \<Longrightarrow> fault WriteFile = None \<Longrightarrow> fault Reread = None \<Longrightarrow> write_doc fault (node_document pe p doc0) old = (doc, None)"
  using write_doc_cases(1) [where fault = fault and new = "Some doc" and old = old] write_doc_cases(3) [where fault = fault and new = "Some doc" and old = old]
  by (metis option.distinct(1) option.inject prod.collapse)

lemma converge_failure:
  assumes "plan_node pe s b = Inr p" "np_form p = LocalNode" "fault Converge = Some m" "\<And>k. k \<noteq> Converge \<Longrightarrow> fault k = None"
    and "node_document pe p (ps_file s) = Some doc"
  shows "snd (create_node fault nd pe b s) = PvFailed500 m"
    "ps_supervisors (fst (create_node fault nd pe b s)) = put_by fst (np_name p, new_supervisor (env_now (ns_env nd))) (ps_supervisors s)"
  using assms write_works [OF assms(5), of fault "ps_file s"]
  by (cases "np_agent p"; simp add: create_node_def step_defs rollback_fields empty_ledger_def)+

lemma no_failure:
  assumes "plan_node pe s b = Inr p" "\<And>k. fault k = None" "node_document pe p (ps_file s) = Some doc"
  shows "snd (create_node fault nd pe b s) = PvCreated201 (np_name p) (np_port p)"
  using assms write_works [OF assms(3), of fault "ps_file s"]
  by (cases "np_form p"; cases "np_agent p"; simp add: create_node_def step_defs empty_ledger_def)

lemma sample_document: "node_document sample_pe p (YMap []) \<noteq> None"
  by (auto simp: node_document_def set_in_def split: option.split)

lemma sample_form: "np_form (sample_plan None None) = LocalNode" "np_form (sample_plan (Some RunDocker) None) = ContainerNode" "np_name (sample_plan None None) = ''n1''"
  unfolding plan_node_Inr(3,4) [OF sample_planned(1)] plan_node_Inr(4) [OF sample_planned(2)]
  by (simp_all add: form_of_def wantDocker_def sample_body_def sample_manager_def)

lemma failed_create_replies:
  "create_node (failing_at Converge) sample_side sample_pe (sample_body None None) sample_manager = (failed_create Converge, PvFailed500 ''disk full'')"
  "create_node (failing_at WriteFile) sample_side sample_pe (sample_body None None) sample_manager = (failed_create WriteFile, PvFailed500 ''disk full'')"
  "ps_env (failed_create WriteFile) = Some (secret_text sample_pe (sample_plan None None) sample_manager)"
proof -
  obtain doc where "node_document sample_pe (sample_plan None None) (YMap []) = Some doc" using sample_document by blast
  then have doc: "node_document sample_pe (sample_plan None None) (ps_file sample_manager) = Some doc" by (simp add: sample_manager_def)
  have new: "np_name (sample_plan None None) \<notin> section_keys ''endpoints'' (ps_file sample_manager)" by (simp add: sample_manager_def section_keys_def)
  have "snd (create_node (failing_at Converge) sample_side sample_pe (sample_body None None) sample_manager) = PvFailed500 ''disk full''"
    by (rule converge_failure(1) [OF sample_planned(1) sample_form(1) _ _ doc]) (simp_all add: failing_at_def)
  moreover have w: "snd (create_node (failing_at WriteFile) sample_side sample_pe (sample_body None None) sample_manager) = PvFailed500 ''disk full''"
      "ps_env (fst (create_node (failing_at WriteFile) sample_side sample_pe (sample_body None None) sample_manager)) = Some (secret_text sample_pe (sample_plan None None) sample_manager)"
    by (rule write_failure [OF sample_planned(1) _ _ doc new]; simp add: failing_at_def)+
  ultimately show "create_node (failing_at Converge) sample_side sample_pe (sample_body None None) sample_manager = (failed_create Converge, PvFailed500 ''disk full'')"
    "create_node (failing_at WriteFile) sample_side sample_pe (sample_body None None) sample_manager = (failed_create WriteFile, PvFailed500 ''disk full'')"
    "ps_env (failed_create WriteFile) = Some (secret_text sample_pe (sample_plan None None) sample_manager)"
    unfolding failed_create_def by (metis prod.collapse)+
qed


text \<open>Two nodes on ports 3090 and 3091: the next one is put on 3092.\<close>

definition two_nodes :: "resolved_endpoint list" where
  "two_nodes = map (\<lambda>u. \<lparr>re_id = u, re_url = u, re_driver = Apiproxy, re_prefix = [], re_key = [], re_sandboxBase = None, re_sandboxKey = [],
     re_spawn = None, re_access = None\<rparr>) [''http://b:3091'', ''http://a:3090'']"

definition port_reader :: "string \<Rightarrow> int option" where
  "port_reader u = (if u = ''http://a:3090'' then Some 3090 else if u = ''http://b:3091'' then Some 3091 else None)"

lemma suggested_port_least_witness:
  "suggestPort (sample_pe\<lparr>pe_urlPort := port_reader\<rparr>) two_nodes = 3092 \<and>
   (\<exists>e \<in> set two_nodes. pe_urlPort (sample_pe\<lparr>pe_urlPort := port_reader\<rparr>) (re_url e) = Some 3090) \<and>
   (\<exists>e \<in> set two_nodes. pe_urlPort (sample_pe\<lparr>pe_urlPort := port_reader\<rparr>) (re_url e) = Some 3091)"
proof -
  let ?pe = "sample_pe\<lparr>pe_urlPort := port_reader\<rparr>"
  have l: "pe_listenPort ?pe = 8080" by (simp add: sample_pe_def)
  have u: "usedPorts ?pe two_nodes = [8080, 3091, 3090]"
    by (simp add: usedPorts_def l) (simp add: two_nodes_def port_reader_def List.map_filter_def)
  have p: "suggestPort ?pe two_nodes = 3092" unfolding suggestPort_def u by (simp add: next_free.simps)
  then show ?thesis using suggested_port_least [of ?pe two_nodes] l by simp
qed

text \<open>Two additions that overlap.\<close>

definition faultless :: "prov_world \<Rightarrow> bool" where
  "faultless w \<longleftrightarrow> list_all (\<lambda>j. case j of AddJob a \<Rightarrow> oa_fault a = no_fault | DeleteJob fault nd i bound \<Rightarrow> fault = no_fault) (pw_lock w) \<and>
     list_all (\<lambda>a. oa_fault a = no_fault) (pw_written w) \<and> list_all (\<lambda>a. oa_fault a = no_fault) (pw_loaded w)"

lemma faultless_nth:
  "faultless w \<Longrightarrow> k < length (pw_written w) \<Longrightarrow> oa_fault (pw_written w ! k) = no_fault"
  "faultless w \<Longrightarrow> k < length (pw_loaded w) \<Longrightarrow> oa_fault (pw_loaded w ! k) = no_fault"
  by (simp_all add: faultless_def list_all_length)

lemma faultless_undisturbed:
  assumes "faultless w"
  shows "undisturbed pe w LockGranted" "undisturbed pe w (AddResumed k)" "undisturbed pe w (AddConverged k)"
proof -
  show "undisturbed pe w LockGranted"
    using assms by (cases "pw_lock w") (auto simp: faultless_def no_fault_def unrestored_def split: lock_job.splits)
  show "undisturbed pe w (AddResumed k)" "undisturbed pe w (AddConverged k)" using faultless_nth [OF assms, of k] by (auto simp: no_fault_def)
qed

lemma faultless_handle:
  assumes "faultless w"
  shows "faultless (prov_handle pe w (AddRequested no_fault nd b))" "faultless (prov_handle pe w LockGranted)"
    "faultless (prov_handle pe w (AddResumed k))" "faultless (prov_handle pe w (AddConverged k))"
proof -
  note all = without_all [where P = "\<lambda>a. oa_fault a = no_fault" and k = k]
  have f: "list_all (\<lambda>a. oa_fault a = no_fault) (pw_written w)" "list_all (\<lambda>a. oa_fault a = no_fault) (pw_loaded w)" using assms by (simp_all add: faultless_def)
  show "faultless (prov_handle pe w (AddRequested no_fault nd b))" using assms by (auto simp: faultless_def split: sum.split prod.split option.split)
  show "faultless (prov_handle pe w LockGranted)"
    using assms by (cases "pw_lock w") (auto simp: faultless_def split: lock_job.splits prod.split option.split)
  show "faultless (prov_handle pe w (AddResumed k))" using assms all [OF f(1)] faultless_nth(1) [OF assms, of k]
    by (auto simp: faultless_def Let_def split: prod.split option.split)
  show "faultless (prov_handle pe w (AddConverged k))" using assms all [OF f(2)]
    by (auto simp: faultless_def Let_def split: prod.split option.split)
qed

lemma first_request_open:
  assumes "plan_node pe s b = Inr p"
  shows "set (open_nodes (prov_handle pe (quiet s) (AddRequested fault nd b))) \<subseteq> {np_name p}"
    "set (open_agents (prov_handle pe (quiet s) (AddRequested fault nd b))) \<subseteq> set (agents_of p)"
  using assms by (auto simp: quiet_def open_nodes_def open_agents_def waiting_def split: prod.split option.split)

definition second_body :: provision_body where
  "second_body = (sample_body None None)\<lparr>pb_name := ''n2'', pb_agent := None\<rparr>"

definition sample_overlap :: "prov_event list" where
  "sample_overlap = [AddRequested no_fault sample_side (sample_body None None), AddRequested no_fault sample_side second_body, LockGranted, LockGranted,
     AddResumed 1, AddResumed 0, AddConverged 0, AddConverged 0]"

lemma sample_overlap_undisturbed: "undisturbed_run sample_pe (quiet sample_manager) sample_overlap"
proof -
  let ?w1 = "prov_handle sample_pe (quiet sample_manager) (AddRequested no_fault sample_side (sample_body None None))"
  have q: "faultless (quiet s)" for s by (simp add: faultless_def quiet_def)
  have u1: "undisturbed sample_pe (quiet sample_manager) (AddRequested no_fault sample_side (sample_body None None))"
    using sample_planned(1) by (simp add: quiet_def open_nodes_def open_agents_def waiting_def list_all_iff)
  have u2: "undisturbed sample_pe ?w1 (AddRequested no_fault sample_side second_body)"
  proof -
    have "np_name p \<notin> set (open_nodes ?w1) \<and> agents_of p = []" if "plan_node sample_pe (pw_state ?w1) second_body = Inr p" for p
      using first_request_open(1) [OF sample_planned(1), of no_fault sample_side] plan_node_Inr(3,7) [OF that]
      by (auto simp: second_body_def sample_form(3) agents_of_def)
    then show ?thesis by (auto split: sum.split)
  qed
  show ?thesis unfolding sample_overlap_def undisturbed_run.simps
    by (intro conjI u1 u2 TrueI faultless_undisturbed faultless_handle q)
qed

lemma memory_and_file_in_step_witness:
  "ra_endpoint ` set (ps_agents (pw_state (foldl (prov_handle sample_pe) (quiet sample_manager) sample_overlap))) \<subseteq>
    re_id ` set (ps_endpoints (pw_state (foldl (prov_handle sample_pe) (quiet sample_manager) sample_overlap)))"
proof -
  have "in_step sample_manager" by (simp add: in_step_def sample_manager_def section_keys_def)
  from memory_and_file_in_step [OF this sample_overlap_undisturbed refl] show ?thesis by blast
qed

lemma sample_created: "create_node no_fault sample_side sample_pe (sample_body None None) sample_manager =
    (fst (create_node no_fault sample_side sample_pe (sample_body None None) sample_manager), PvCreated201 (np_name (sample_plan None None)) (np_port (sample_plan None None)))"
proof -
  obtain doc where "node_document sample_pe (sample_plan None None) (YMap []) = Some doc" using sample_document by blast
  then have "snd (create_node no_fault sample_side sample_pe (sample_body None None) sample_manager) = PvCreated201 (np_name (sample_plan None None)) (np_port (sample_plan None None))"
    by (intro no_failure [OF sample_planned(1)]) (simp_all add: no_fault_def sample_manager_def)
  then show ?thesis by (metis prod.collapse)
qed


lemma container_node_unreadable_witness:
  "isl (loadConfig (\<lambda>s. True) (\<lambda>k. Some (replicate 32 CHR ''s'')) (\<lambda>p. p)
     (ps_file (fst (create_node no_fault sample_side sample_pe (sample_body (Some RunDocker) None) sample_manager))))"
proof -
  let ?c = "create_node no_fault sample_side sample_pe (sample_body (Some RunDocker) None) sample_manager" and ?p = "sample_plan (Some RunDocker) None"
  obtain doc where doc: "node_document sample_pe ?p (YMap []) = Some doc" using sample_document by blast
  have "snd ?c = PvCreated201 (np_name ?p) (np_port ?p)"
    by (rule no_failure [OF sample_planned(2)]) (simp_all add: no_fault_def sample_manager_def doc)
  then have "?c = (fst ?c, PvCreated201 (np_name ?p) (np_port ?p))" by (metis prod.collapse)
  from container_node_unreadable [OF sample_planned(2) sample_form(2) this] show ?thesis .
qed

text \<open>
  A secret may be left behind: when the configuration cannot be written, the environment file keeps the secret of a node that does not exist, because the
  snapshot of it reaches the ledger only after both writes.
\<close>

theorem secret_of_failed_node_stays:
  "ps_env sample_manager = None \<and> ps_env (failed_create WriteFile) = Some (''GW_KEY_N1=k'' @ [LF])"
proof -
  have "fst (mergeEnv None [(key_ref_of ''n1'', ''k'')] [key_ref_of ''n1'']) = ''GW_KEY_N1=k'' @ [LF]" by code_simp
  then show ?thesis using failed_create_replies(3) by (simp add: secret_text_def sample_form(3) sample_manager_def sample_pe_def)
qed

text \<open>
  A supervisor may be left behind: when a local node fails in its last step, its supervisor stays registered although the node is gone from the
  configuration, because only a started node is deregistered.
\<close>

theorem supervisor_of_failed_node_stays:
  "ps_endpoints (failed_create Converge) = [] \<and> map fst (ps_supervisors (failed_create Converge)) = [''n1'']"
proof
  obtain doc where "node_document sample_pe (sample_plan None None) (YMap []) = Some doc" using sample_document by blast
  then have doc: "node_document sample_pe (sample_plan None None) (ps_file sample_manager) = Some doc" by (simp add: sample_manager_def)
  have m: "ps_endpoints sample_manager = []" "ps_supervisors sample_manager = []" by (simp_all add: sample_manager_def)
  show "ps_endpoints (failed_create Converge) = []"
    by (rule failed_outcome [OF sample_planned(1) failed_create_replies(1)])
      (simp_all add: same_memory_def m rollback_loaded(1) [OF _ fresh_node [OF sample_planned(1)]])
  have "ps_supervisors (failed_create Converge) = put_by fst (np_name (sample_plan None None), new_supervisor (env_now (ns_env sample_side))) (ps_supervisors sample_manager)"
    unfolding failed_create_def by (rule converge_failure(2) [OF sample_planned(1) sample_form(1) _ _ doc]) (simp_all add: failing_at_def)
  then show "map fst (ps_supervisors (failed_create Converge)) = [''n1'']" by (simp add: m sample_form(3) put_by_def)
qed

text \<open>
  The snapshot of a failed addition may be stale: two additions overlap, both have written the file when the first fails and writes back what it had seen
  before it waited for the lock. The second answers with success and is in memory, and the file no longer has it: the next restart does not
  know the node.
\<close>

lemma plan_same_memory: "same_memory s t \<Longrightarrow> plan_node pe t b = plan_node pe s b"
proof -
  assume "same_memory s t"
  then have e: "ps_endpoints t = ps_endpoints s" "ps_agents t = ps_agents s" by (simp_all add: same_memory_def)
  show ?thesis unfolding plan_node_def e ..
qed

lemma before_lock_works:
  assumes "\<And>k. k \<noteq> Converge \<Longrightarrow> fault k = None"
  shows "\<exists>t g. run_steps (before_lock fault nd pe p) (s, empty_ledger) = ((t, g), None) \<and> same_memory s t \<and> ps_file t = ps_file s \<and>
    lg_seen g = Some (ps_env s, ps_file s)"
proof -
  obtain t g r where r: "run_steps (before_lock fault nd pe p) (s, empty_ledger) = ((t, g), r)" by (metis prod.collapse)
  have "snd (run_steps (before_lock fault nd pe p) (s, empty_ledger)) = None"
    by (cases "np_form p") (simp_all add: before_lock_def step_at_def assms)
  then have "r = None" by (simp add: r)
  then show ?thesis using before_lock_run [OF r] r by (auto simp: untouched_def)
qed

lemma write_truth_works:
  assumes "\<And>k. k \<noteq> Converge \<Longrightarrow> fault k = None" "node_document pe p (ps_file s) = Some doc"
  shows "\<exists>t. write_truth fault pe p (s, g) = ((t, g\<lparr>lg_env := map_option fst (lg_seen g), lg_yaml := map_option snd (lg_seen g)\<rparr>), None) \<and> same_memory s t \<and> ps_file t = doc"
  using assms write_works [OF assms(2), of fault "ps_file s"] by (simp add: write_truth_def same_memory_def)

lemma load_works:
  assumes "\<And>k. k \<noteq> Converge \<Longrightarrow> fault k = None"
  shows "\<exists>t. run_steps (load_steps fault nd pe p) (s, g) = ((t, g\<lparr>lg_started := (np_form p \<noteq> LocalNode)\<rparr>), None) \<and> loaded_onto pe nd p s t \<and> ps_file t = ps_file s"
proof -
  obtain t h r where r: "run_steps (load_steps fault nd pe p) (s, g) = ((t, h), r)" by (metis prod.collapse)
  then show ?thesis using load_run [OF r] assms [of Mirror] by auto
qed

theorem stale_snapshot_drops_node:
  assumes step: "in_step s" and p: "plan_node pe s b1 = Inr p1" "plan_node pe s b2 = Inr p2" "np_name p1 \<noteq> np_name p2"
    and f1: "\<And>k. k \<noteq> Converge \<Longrightarrow> f1 k = None" "f1 Converge = Some m" and f2: "\<And>k. f2 k = None"
    and d: "node_document pe p1 (ps_file s) = Some d1" "node_document pe p2 d1 = Some d2"
    and w: "w = foldl (prov_handle pe) (quiet s) [AddRequested f1 nd b1, AddRequested f2 nd b2, LockGranted, LockGranted, AddResumed 0, AddResumed 0, AddConverged 0, AddConverged 0]"
  shows "np_name p2 \<in> re_id ` set (ps_endpoints (pw_state w)) \<and> np_name p2 \<notin> section_keys ''endpoints'' (ps_file (pw_state w))"
proof -
  have f2': "\<And>k. k \<noteq> Converge \<Longrightarrow> f2 k = None" by (rule f2)
  obtain t1 g1 where a: "run_steps (before_lock f1 nd pe p1) (s, empty_ledger) = ((t1, g1), None)" "same_memory s t1" "ps_file t1 = ps_file s"
    "lg_seen g1 = Some (ps_env s, ps_file s)" using before_lock_works [where fault = f1 and nd = nd and pe = pe and p = p1 and s = s, OF f1(1)] by auto
  have pl: "plan_node pe t1 b2 = Inr p2" using plan_same_memory [OF a(2)] p(2) by simp
  obtain t2 g2 where b: "run_steps (before_lock f2 nd pe p2) (t1, empty_ledger) = ((t2, g2), None)" "same_memory t1 t2" "ps_file t2 = ps_file s"
    using before_lock_works [where fault = f2 and nd = nd and pe = pe and p = p2 and s = t1, OF f2'] a(3) by auto
  let ?g1 = "g1\<lparr>lg_env := map_option fst (lg_seen g1), lg_yaml := map_option snd (lg_seen g1)\<rparr>"
  let ?g2 = "g2\<lparr>lg_env := map_option fst (lg_seen g2), lg_yaml := map_option snd (lg_seen g2)\<rparr>"
  obtain t3 where c: "write_truth f1 pe p1 (t2, g1) = ((t3, ?g1), None)" "same_memory t2 t3" "ps_file t3 = d1"
    using write_truth_works [where fault = f1 and pe = pe and p = p1 and s = t2 and doc = d1 and g = g1, OF f1(1)] d(1) b(3) by auto
  obtain t4 where e: "write_truth f2 pe p2 (t3, g2) = ((t4, ?g2), None)" "same_memory t3 t4"
    using write_truth_works [where fault = f2 and pe = pe and p = p2 and s = t3 and doc = d2 and g = g2, OF f2'] d(2) c(3) by auto
  obtain t5 where l1: "run_steps (load_steps f1 nd pe p1) (t4, ?g1) = ((t5, ?g1\<lparr>lg_started := (np_form p1 \<noteq> LocalNode)\<rparr>), None)" "loaded_onto pe nd p1 t4 t5"
    using load_works [where fault = f1 and nd = nd and pe = pe and p = p1 and s = t4 and g = "?g1", OF f1(1)] by auto
  obtain t6 where l2: "run_steps (load_steps f2 nd pe p2) (t5, ?g2) = ((t6, ?g2\<lparr>lg_started := (np_form p2 \<noteq> LocalNode)\<rparr>), None)" "loaded_onto pe nd p2 t5 t6"
    using load_works [where fault = f2 and nd = nd and pe = pe and p = p2 and s = t5 and g = "?g2", OF f2'] by auto
  let ?t7 = "rollback_node f1 nd pe p1 m (t6, ?g1\<lparr>lg_started := (np_form p1 \<noteq> LocalNode)\<rparr>)"
  obtain t8 where v: "run_steps (converge_steps f2 nd p2) (?t7, ?g2\<lparr>lg_started := (np_form p2 \<noteq> LocalNode)\<rparr>) = ((t8, ?g2\<lparr>lg_started := (np_form p2 \<noteq> LocalNode)\<rparr>), None)"
    by (simp add: converge_steps_def step_at_def f2 on_state_def)
  note v1 = converge_run [OF v]
  have "pw_state w = t8"
    by (simp add: w quiet_def p(1) a(1) pl b(1) c(1) e(1) l1(1) l2(1) without_def Let_def converge_steps_def step_at_def f1(2) undo_add_def f2 on_state_def)
      (use v in \<open>simp add: converge_steps_def step_at_def f2 on_state_def\<close>)
  moreover have "ps_file t8 = ps_file s" by (simp add: v1(6) rollback_fields a(4) f1(1))
  moreover have "np_name p2 \<in> re_id ` set (ps_endpoints t8)"
  proof -
    have "np_name p2 \<in> re_id ` set (ps_endpoints t6)" using l2(2) put_by_keys [of re_id "endpoint_memory pe p2"] by (simp add: loaded_onto_def)
    then show ?thesis using p(3) by (auto simp: v1(3) rollback_fields del_where_def)
  qed
  moreover have "np_name p2 \<notin> section_keys ''endpoints'' (ps_file s)" using step fresh_node(1) [OF p(2)] by (simp add: in_step_def)
  ultimately show ?thesis by simp
qed

text \<open>
  Deleting a node may leave a file that does not load: the entries of the node and its agents are removed, the services that list those agents are
  not, and the next boot refuses the file.
\<close>

theorem deletion_leaves_dangling_service:
  "\<not> isl (load_sample sample_two) \<and>
   (case delete_document ''e2'' [''a2''] sample_two of None \<Rightarrow> False | Some d \<Rightarrow> map_sum id (\<lambda>c. ()) (load_sample d) = Inl (UnknownWorker ''s'' ''a2''))"
  by code_simp

end
