(* ===== verification/MachineAgent.thy ===== *)
theory MachineAgent
  imports AgentChannel Setup
begin

text \<open>
  The agent on a machine of the fleet (\<^verbatim>\<open>public/assets/agent/runtime.mjs\<close>): it takes commands from the manager, runs the nodes of the
  machine, brings them back after a reboot, and reports.

  A file holds what was written to it (\<open>content\<close>): a text, the number of a process, a time, a payload, an identity; the JSON of the
  last two is read back only when it is what the agent wrote.  The operating system is a list of processes, what npm has installed a
  list of program paths.  What the world answers during a command (the number of a new process, errors of npm, of the launch, of the
  kill) is a record \<open>machine_world\<close>.  The operations on files do not fail.
\<close>

section \<open>State\<close>

record spawn_payload =
  pl_nodeId :: id
  pl_args :: "string list"
  pl_env :: "(string \<times> string) list"
  pl_dshVersion :: "string option"
  pl_profile :: "(string \<times> (string \<times> string) list) option"
  pl_fleetMd :: "string option"

datatype content = Text string | PidFile int | Stamp time | Payload spawn_payload | Identity id string

type_synonym disk = "(string \<times> content) list"

text \<open>A process; one that is not a node has no node.\<close>

record process =
  pr_pid :: int
  pr_node :: "id option"
  pr_bin :: string
  pr_args :: "string list"
  pr_env :: "(string \<times> string) list"

record node_entry =
  ne_pid :: "int option"
  ne_startedAt :: "time option"
  ne_logOffset :: nat

record machine =
  mc_disk :: disk
  mc_bins :: "string list"
  mc_procs :: "process list"
  mc_nodes :: "(id \<times> node_entry) list"
  mc_agentId :: "id option"
  mc_agentToken :: "string option"
  mc_up :: bool
  mc_retry :: nat
  mc_pendingExit :: bool
  mc_versionReportedAt :: "time option"
  mc_lastMetricsAt :: "time option"

record update_package =
  pk_files :: "(string \<times> string) list"
  pk_sha256 :: string
  pk_managerVersion :: "string option"

datatype machine_command =
    NodeSpawn spawn_payload
  | NodeStop id
  | NodeRestart spawn_payload
  | NodeLogs id
  | NodeStatus
  | ConfigDeliver string "string option"
  | AgentUpdate update_package
  | OtherCommand string

datatype command_answer =
    SpawnedPid int
  | AlreadyRunning int
  | StoppedPid "int option"
  | LogTail string
  | NodeList "(id \<times> int option \<times> bool \<times> time option) list"
  | Rotated
  | Staged

datatype outcome = Done command_answer | Failed string

text \<open>What does not change while the agent runs; \<open>mg_render\<close> writes a result as JSON, \<open>mg_digest\<close> is SHA-256.\<close>

record machine_config =
  mg_dir :: string
  mg_windows :: bool
  mg_version :: "string option"
  mg_render :: "outcome \<Rightarrow> string"
  mg_digest :: "string \<Rightarrow> string"

record machine_world =
  mw_now :: time
  mw_pid :: int
  mw_ownBin :: bool
  mw_profileError :: "string option"
  mw_installError :: "string option"
  mw_spawnError :: "string option"
  mw_killError :: "string option"

definition start_machine :: machine where
  "start_machine = \<lparr>mc_disk = [], mc_bins = [], mc_procs = [], mc_nodes = [], mc_agentId = None, mc_agentToken = None, mc_up = False,
     mc_retry = 0, mc_pendingExit = False, mc_versionReportedAt = None, mc_lastMetricsAt = None\<rparr>"

section \<open>Files\<close>

definition read_file :: "machine \<Rightarrow> string \<Rightarrow> content option" where
  "read_file m path = map_of (mc_disk m) path"

definition write_file :: "string \<Rightarrow> content \<Rightarrow> machine \<Rightarrow> machine" where
  "write_file path c m = m\<lparr>mc_disk := assign path c (mc_disk m)\<rparr>"

definition remove_file :: "string \<Rightarrow> machine \<Rightarrow> machine" where
  "remove_file path m = m\<lparr>mc_disk := filter (\<lambda>(k, c). k \<noteq> path) (mc_disk m)\<rparr>"

definition text_at :: "machine \<Rightarrow> string \<Rightarrow> string" where
  "text_at m path = (case read_file m path of Some (Text t) \<Rightarrow> t | _ \<Rightarrow> [])"

definition safe_char :: "char \<Rightarrow> bool" where
  "safe_char c \<longleftrightarrow> (let n = (of_char c :: nat) in 65 \<le> n \<and> n \<le> 90 \<or> 97 \<le> n \<and> n \<le> 122 \<or> 48 \<le> n \<and> n \<le> 57) \<or>
     c = CHR ''.'' \<or> c = CHR ''_'' \<or> c = CHR ''-''"

definition isSafeNodeId :: "id \<Rightarrow> bool" where
  "isSafeNodeId i \<longleftrightarrow> i \<noteq> [] \<and> list_all safe_char i \<and> \<not> list_all (\<lambda>c. c = CHR ''.'') i"

definition nodeHome :: "machine_config \<Rightarrow> id \<Rightarrow> string" where
  "nodeHome g i = mg_dir g @ ''/nodes/'' @ i"

definition spawn_path :: "machine_config \<Rightarrow> id \<Rightarrow> string" where
  "spawn_path g i = nodeHome g i @ ''/spawn.json''"

definition pid_path :: "machine_config \<Rightarrow> id \<Rightarrow> string" where
  "pid_path g i = nodeHome g i @ ''/node.pid''"

definition log_path :: "machine_config \<Rightarrow> id \<Rightarrow> string" where
  "log_path g i = nodeHome g i @ ''/node.log''"

definition identity_path :: "machine_config \<Rightarrow> string" where
  "identity_path g = mg_dir g @ ''/agent.json''"

definition readNodePid :: "machine_config \<Rightarrow> machine \<Rightarrow> id \<Rightarrow> int option" where
  "readNodePid g m i = (if \<not> isSafeNodeId i then None
     else (case read_file m (pid_path g i) of Some (PidFile q) \<Rightarrow> if 0 < q then Some q else None | _ \<Rightarrow> None))"

definition persistSpawnPayload :: "machine_config \<Rightarrow> id \<Rightarrow> spawn_payload \<Rightarrow> machine \<Rightarrow> machine" where
  "persistSpawnPayload g i p m = (if isSafeNodeId i then write_file (spawn_path g i) (Payload p) m else m)"

text \<open>The names under \<^verbatim>\<open>nodes/\<close>: the first part of the path of a file below it.\<close>

definition first_part :: "string \<Rightarrow> string" where
  "first_part s = takeWhile (\<lambda>c. c \<noteq> CHR ''/'') s"

definition list_dir :: "machine \<Rightarrow> string \<Rightarrow> string list" where
  "list_dir m d = remdups (map (\<lambda>f. first_part (drop (length d + 1) (fst f))) (filter (\<lambda>f. is_prefix (d @ ''/'') (fst f)) (mc_disk m)))"

definition listNodeIds :: "machine_config \<Rightarrow> machine \<Rightarrow> id list" where
  "listNodeIds g m = js_sort locale_compare (filter isSafeNodeId (list_dir m (mg_dir g @ ''/nodes'')))"

section \<open>Processes\<close>

definition alive :: "machine \<Rightarrow> int \<Rightarrow> bool" where
  "alive m q \<longleftrightarrow> q \<in> pr_pid ` set (mc_procs m)"

text \<open>\<^verbatim>\<open>taskkill\<close> fails for a process that does not exist; the other systems are asked with signals, whose errors are swallowed.\<close>

definition kill_process :: "machine_config \<Rightarrow> machine_world \<Rightarrow> int \<Rightarrow> machine \<Rightarrow> machine \<times> string option" where
  "kill_process g w q m = (let gone = m\<lparr>mc_procs := del_where (\<lambda>p. pr_pid p = q) (mc_procs m)\<rparr> in
     if mg_windows g then (case mw_killError w of
         Some e \<Rightarrow> (m, Some e)
       | None \<Rightarrow> if alive m q then (gone, None) else (m, Some ''Command failed: taskkill''))
     else (gone, None))"

definition entry_of :: "machine \<Rightarrow> id \<Rightarrow> node_entry option" where
  "entry_of m i = map_of (mc_nodes m) i"

definition set_entry :: "id \<Rightarrow> node_entry \<Rightarrow> machine \<Rightarrow> machine" where
  "set_entry i e m = m\<lparr>mc_nodes := assign i e (mc_nodes m)\<rparr>"

section \<open>Starting a node\<close>

definition DSH_BIN :: string where "DSH_BIN = ''/node_modules/@deepseek-ai/dsh/lib/bin.js''"
definition NODE_LOG_MAX_BYTES :: nat where "NODE_LOG_MAX_BYTES = 50 * 1024 * 1024"
definition PATCH_FILE :: string where "PATCH_FILE = ''cordis.patch.yml''"

definition LEGACY_PEER_DEPS_VERSIONS :: "string list" where
  "LEGACY_PEER_DEPS_VERSIONS = [''0.1.5-rc.2'', ''0.2.0-rc.2'']"

definition legacy_line :: "string \<Rightarrow> bool" where
  "legacy_line v \<longleftrightarrow> list_ex (\<lambda>p. v = p \<or> is_prefix (p @ ''-'') v \<or> is_prefix (p @ ''.'') v) [''0.1.2'', ''0.1.5'']"

definition payload_version :: "spawn_payload \<Rightarrow> string" where
  "payload_version p = (case pl_dshVersion p of None \<Rightarrow> ''0.1.2-rc.1'' | Some v \<Rightarrow> if v = [] then ''0.1.2-rc.1'' else v)"

definition payload_home :: "machine_config \<Rightarrow> spawn_payload \<Rightarrow> string" where
  "payload_home g p = (case map_of (pl_env p) ''DSH_HOME'' of Some h \<Rightarrow> h | None \<Rightarrow> nodeHome g (pl_nodeId p))"

definition gw_key :: "spawn_payload \<Rightarrow> string option" where
  "gw_key p = (case map_of (pl_env p) ''GW_KEY'' of None \<Rightarrow> None | Some k \<Rightarrow> if k = [] then None else Some k)"

definition gw_full_access :: "spawn_payload \<Rightarrow> bool" where
  "gw_full_access p \<longleftrightarrow> map_of (pl_env p) ''ALLOW_FULL_ACCESS'' = Some ''true''"

definition key_list :: "string \<Rightarrow> string" where
  "key_list k = ''apiKeys: ['' @ [CHR 0x27] @ k @ [CHR 0x27] @ '']''"

definition settings_text :: "spawn_payload \<Rightarrow> string \<Rightarrow> string" where
  "settings_text p k = ''ohdsh-api-facade:'' @ [LF] @ ''  '' @ key_list k @
     (if gw_full_access p then [LF] @ ''  allowFullAccess: true'' else []) @ [LF]"

definition facade_row :: "spawn_payload \<Rightarrow> string \<Rightarrow> string" where
  "facade_row p k = ''- id: ohdsh-api-facade'' @ [LF] @ ''  config:'' @ [LF] @ ''    '' @ key_list k @ [LF] @
     (if gw_full_access p then ''    allowFullAccess: true'' @ [LF] else [])"

text \<open>The key goes to the settings on the old lines, to the patch of the profile on the new ones.\<close>

definition write_settings :: "machine_config \<Rightarrow> spawn_payload \<Rightarrow> machine \<Rightarrow> machine" where
  "write_settings g p m = (case gw_key p of
     Some k \<Rightarrow> if legacy_line (payload_version p) then write_file (payload_home g p @ ''/settings.yaml'') (Text (settings_text p k)) m else m
   | None \<Rightarrow> m)"

definition profile_texts :: "spawn_payload \<Rightarrow> (string \<times> string) list \<Rightarrow> (string \<times> string) list" where
  "profile_texts p files = (case gw_key p of
     Some k \<Rightarrow> if legacy_line (payload_version p) then files
       else map (\<lambda>(n, c). (n, if n = PATCH_FILE then c @ facade_row p k else c)) files
   | None \<Rightarrow> files)"

definition write_profile :: "string \<Rightarrow> (string \<times> string) list \<Rightarrow> machine \<Rightarrow> machine \<times> bool" where
  "write_profile d files m = fold (\<lambda>(n, c) (m1, changed).
     if read_file m1 (d @ ''/'' @ n) = Some (Text c) then (m1, changed)
     else (write_file (d @ ''/'' @ n) (Text c) m1, changed \<or> n \<noteq> PATCH_FILE)) files (m, False)"

definition add_bin :: "string \<Rightarrow> machine \<Rightarrow> machine" where
  "add_bin b m = m\<lparr>mc_bins := List.insert b (mc_bins m)\<rparr>"

definition installed_marker :: "string \<Rightarrow> string" where
  "installed_marker d = d @ ''/.installed-ok''"

definition install_profile :: "machine_world \<Rightarrow> string \<Rightarrow> bool \<Rightarrow> machine \<Rightarrow> machine \<times> string option" where
  "install_profile w d changed m = (if changed \<or> read_file m (installed_marker d) = None
     then (case mw_profileError w of
         Some e \<Rightarrow> (m, Some e)
       | None \<Rightarrow> (write_file (installed_marker d) (Stamp (mw_now w)) (if mw_ownBin w then add_bin (d @ DSH_BIN) m else m), None))
     else (m, None))"

definition profile_dir :: "machine_config \<Rightarrow> spawn_payload \<Rightarrow> string option" where
  "profile_dir g p = map_option (\<lambda>(d, files). payload_home g p @ ''/'' @ d) (pl_profile p)"

definition deliver_profile :: "machine_config \<Rightarrow> machine_world \<Rightarrow> spawn_payload \<Rightarrow> machine \<Rightarrow> machine \<times> string option" where
  "deliver_profile g w p m = (case pl_profile p of
     None \<Rightarrow> (m, None)
   | Some (d, files) \<Rightarrow> let pd = payload_home g p @ ''/'' @ d in
       (case write_profile pd (profile_texts p files) m of (m1, changed) \<Rightarrow> install_profile w pd changed m1))"

definition deliver_fleet :: "machine_config \<Rightarrow> spawn_payload \<Rightarrow> machine \<Rightarrow> machine" where
  "deliver_fleet g p m = (case pl_fleetMd p of
     None \<Rightarrow> m
   | Some t \<Rightarrow> let path = payload_home g p @ ''/fleet.md'' in
       if t = [] \<or> read_file m path = Some (Text t) then m else write_file path (Text t) m)"

definition ensureDsh :: "machine_config \<Rightarrow> machine_world \<Rightarrow> spawn_payload \<Rightarrow> machine \<Rightarrow> machine \<times> (string + string)" where
  "ensureDsh g w p m = (let bin = mg_dir g @ ''/dsh/'' @ payload_version p @ DSH_BIN in
     if bin \<in> set (mc_bins m) then (m, Inr bin)
     else (case mw_installError w of Some e \<Rightarrow> (m, Inl e) | None \<Rightarrow> (add_bin bin m, Inr bin)))"

definition choose_bin :: "machine_config \<Rightarrow> machine_world \<Rightarrow> spawn_payload \<Rightarrow> machine \<Rightarrow> machine \<times> (string + string)" where
  "choose_bin g w p m = (case profile_dir g p of
     Some d \<Rightarrow> if d @ DSH_BIN \<in> set (mc_bins m) then (m, Inr (d @ DSH_BIN)) else ensureDsh g w p m
   | None \<Rightarrow> ensureDsh g w p m)"

definition rotate_log :: "machine_config \<Rightarrow> id \<Rightarrow> machine \<Rightarrow> machine" where
  "rotate_log g i m = (let path = log_path g i; t = text_at m path in
     if NODE_LOG_MAX_BYTES < length t then write_file (path @ ''.1'') (Text t) (remove_file path (remove_file (path @ ''.1'') m)) else m)"

definition started :: "machine_config \<Rightarrow> machine_world \<Rightarrow> spawn_payload \<Rightarrow> string \<Rightarrow> machine \<Rightarrow> machine" where
  "started g w p bin m = (let i = pl_nodeId p; q = mw_pid w in
     set_entry i \<lparr>ne_pid = Some q, ne_startedAt = Some (mw_now w), ne_logOffset = 0\<rparr> (write_file (pid_path g i) (PidFile q)
       (m\<lparr>mc_procs := mc_procs m @ [\<lparr>pr_pid = q, pr_node = Some i, pr_bin = bin, pr_args = pl_args p,
          pr_env = assign ''DSH_HOME'' (payload_home g p) (pl_env p)\<rparr>]\<rparr>)))"

definition launch :: "machine_config \<Rightarrow> machine_world \<Rightarrow> spawn_payload \<Rightarrow> string \<Rightarrow> machine \<Rightarrow> machine \<times> outcome" where
  "launch g w p bin m0 = (let m = rotate_log g (pl_nodeId p) m0 in
     (case mw_spawnError w of
        Some e \<Rightarrow> (m, Failed e)
      | None \<Rightarrow> (started g w p bin m, Done (SpawnedPid (mw_pid w)))))"

definition adopt_running :: "machine_world \<Rightarrow> id \<Rightarrow> int \<Rightarrow> machine \<Rightarrow> machine" where
  "adopt_running w i q m = set_entry i (case entry_of m i of
     None \<Rightarrow> \<lparr>ne_pid = Some q, ne_startedAt = Some (mw_now w), ne_logOffset = 0\<rparr>
   | Some e \<Rightarrow> \<lparr>ne_pid = Some q, ne_startedAt = Some (case ne_startedAt e of Some t \<Rightarrow> t | None \<Rightarrow> mw_now w), ne_logOffset = ne_logOffset e\<rparr>) m"

definition start_node :: "machine_config \<Rightarrow> machine_world \<Rightarrow> spawn_payload \<Rightarrow> machine \<Rightarrow> machine \<times> outcome" where
  "start_node g w p m = (case deliver_profile g w p (write_settings g p m) of
     (m1, Some e) \<Rightarrow> (m1, Failed e)
   | (m1, None) \<Rightarrow> (case choose_bin g w p (deliver_fleet g p m1) of
       (m2, Inl e) \<Rightarrow> (m2, Failed e)
     | (m2, Inr bin) \<Rightarrow> launch g w p bin m2))"

definition dispatchSpawn :: "machine_config \<Rightarrow> machine_world \<Rightarrow> spawn_payload \<Rightarrow> machine \<Rightarrow> machine \<times> outcome" where
  "dispatchSpawn g w p m = (let i = pl_nodeId p in
     (case readNodePid g m i of
        Some q \<Rightarrow> if alive m q then (adopt_running w i q m, Done (AlreadyRunning q)) else start_node g w p m
      | None \<Rightarrow> start_node g w p m))"

definition execSpawn :: "machine_config \<Rightarrow> machine_world \<Rightarrow> spawn_payload \<Rightarrow> machine \<Rightarrow> machine \<times> outcome" where
  "execSpawn g w p m = dispatchSpawn g w p (persistSpawnPayload g (pl_nodeId p) p m)"

section \<open>The other commands\<close>

text \<open>The number from memory, else from the file as it is.\<close>

definition stop_pid :: "machine_config \<Rightarrow> machine \<Rightarrow> id \<Rightarrow> int option" where
  "stop_pid g m i = (case (case entry_of m i of None \<Rightarrow> None | Some e \<Rightarrow> ne_pid e) of
     Some q \<Rightarrow> Some q
   | None \<Rightarrow> (case read_file m (pid_path g i) of Some (PidFile q) \<Rightarrow> Some q | _ \<Rightarrow> None))"

definition forget_node :: "machine_config \<Rightarrow> id \<Rightarrow> machine \<Rightarrow> machine" where
  "forget_node g i m = (let m1 = set_entry i \<lparr>ne_pid = None, ne_startedAt = None,
         ne_logOffset = (case entry_of m i of None \<Rightarrow> 0 | Some e \<Rightarrow> ne_logOffset e)\<rparr> m
     in if isSafeNodeId i then remove_file (spawn_path g i) m1 else m1)"

definition execStop :: "machine_config \<Rightarrow> machine_world \<Rightarrow> id \<Rightarrow> machine \<Rightarrow> machine \<times> outcome" where
  "execStop g w i m = (case stop_pid g m i of
     None \<Rightarrow> (forget_node g i m, Done (StoppedPid None))
   | Some q \<Rightarrow> if 0 < q then (case kill_process g w q m of
         (m1, Some e) \<Rightarrow> (m1, Failed e)
       | (m1, None) \<Rightarrow> (forget_node g i m1, Done (StoppedPid (Some q))))
     else (forget_node g i m, Done (StoppedPid (Some q))))"

definition execRestart :: "machine_config \<Rightarrow> machine_world \<Rightarrow> spawn_payload \<Rightarrow> machine \<Rightarrow> machine \<times> outcome" where
  "execRestart g w p m = (case execStop g w (pl_nodeId p) m of
     (m1, Failed e) \<Rightarrow> (m1, Failed e)
   | (m1, Done a) \<Rightarrow> execSpawn g w p m1)"

definition log_tail :: "string \<Rightarrow> string" where
  "log_tail t = (if 16000 < length t then drop (length t - 16000) t else t)"

definition execLogs :: "machine_config \<Rightarrow> id \<Rightarrow> machine \<Rightarrow> machine \<times> outcome" where
  "execLogs g i m = (m, Done (LogTail (log_tail (text_at m (log_path g i)))))"

definition execStatus :: "machine \<Rightarrow> machine \<times> outcome" where
  "execStatus m = (m, Done (NodeList (map (\<lambda>(i, e). (i, ne_pid e,
     (case ne_pid e of None \<Rightarrow> False | Some q \<Rightarrow> alive m q), ne_startedAt e)) (mc_nodes m))))"

definition saveIdentity :: "machine_config \<Rightarrow> machine \<Rightarrow> machine" where
  "saveIdentity g m = (case (mc_agentId m, mc_agentToken m) of
     (Some i, Some t) \<Rightarrow> write_file (identity_path g) (Identity i t) m
   | _ \<Rightarrow> m)"

definition execDeliver :: "machine_config \<Rightarrow> string \<Rightarrow> string option \<Rightarrow> machine \<Rightarrow> machine \<times> outcome" where
  "execDeliver g kind token m = (case token of
     Some t \<Rightarrow> if kind = ''identity'' \<and> t \<noteq> [] then (saveIdentity g (m\<lparr>mc_agentToken := Some t\<rparr>), Done Rotated)
       else (m, Failed (''unsupported config.deliver kind: '' @ kind))
   | None \<Rightarrow> (m, Failed (''unsupported config.deliver kind: '' @ kind)))"

fun join_LF :: "string list \<Rightarrow> string" where
  "join_LF [] = []"
| "join_LF [s] = s"
| "join_LF (s # t # r) = s @ [LF] @ join_LF (t # r)"

definition package_text :: "(string \<times> string) list \<Rightarrow> string" where
  "package_text files = join_LF (map (\<lambda>n. n @ '':'' @ (case map_of files n of None \<Rightarrow> [] | Some c \<Rightarrow> c)) (js_sort locale_compare (map fst files)))"

definition package_complete :: "(string \<times> string) list \<Rightarrow> bool" where
  "package_complete files \<longleftrightarrow> list_all (\<lambda>n. case map_of files n of None \<Rightarrow> False | Some c \<Rightarrow> c \<noteq> []) [''runtime.mjs'', ''agent.mjs'']"

definition next_path :: "machine_config \<Rightarrow> string \<Rightarrow> string" where
  "next_path g n = mg_dir g @ ''/.next/'' @ n"

definition stage_package :: "machine_config \<Rightarrow> update_package \<Rightarrow> machine \<Rightarrow> machine" where
  "stage_package g u m = (let m1 = fold (\<lambda>(n, c). write_file (next_path g n) (Text c)) (pk_files u) m in
     (case pk_managerVersion u of
        None \<Rightarrow> m1
      | Some v \<Rightarrow> if v = [] then m1 else write_file (next_path g ''.version'') (Text v) m1)\<lparr>mc_pendingExit := True\<rparr>)"

definition execUpdate :: "machine_config \<Rightarrow> update_package \<Rightarrow> machine \<Rightarrow> machine \<times> outcome" where
  "execUpdate g u m =
     (if \<not> package_complete (pk_files u) then (m, Failed ''agent.update payload missing files (agent.mjs/runtime.mjs)'')
      else if pk_sha256 u \<noteq> mg_digest g (package_text (pk_files u)) then (m, Failed ''sha256 mismatch'')
      else (stage_package g u m, Done Staged))"

definition execute :: "machine_config \<Rightarrow> machine_world \<Rightarrow> machine_command \<Rightarrow> machine \<Rightarrow> machine \<times> outcome" where
  "execute g w c m = (case c of
     NodeSpawn p \<Rightarrow> execSpawn g w p m
   | NodeStop i \<Rightarrow> execStop g w i m
   | NodeRestart p \<Rightarrow> execRestart g w p m
   | NodeLogs i \<Rightarrow> execLogs g i m
   | NodeStatus \<Rightarrow> execStatus m
   | ConfigDeliver kind token \<Rightarrow> execDeliver g kind token m
   | AgentUpdate u \<Rightarrow> execUpdate g u m
   | OtherCommand t \<Rightarrow> (m, Failed (''command type '' @ t @ '' not implemented in this agent version'')))"

section \<open>One round with the manager\<close>

definition collectLogChunks :: "machine_config \<Rightarrow> machine \<Rightarrow> machine \<times> agent_event list" where
  "collectLogChunks g m =
     (m\<lparr>mc_nodes := map (\<lambda>(i, e). (i, let n = length (text_at m (log_path g i)) in if n \<le> ne_logOffset e then e else e\<lparr>ne_logOffset := n\<rparr>)) (mc_nodes m)\<rparr>,
      List.map_filter (\<lambda>(i, e). let t = text_at m (log_path g i) in
        if length t \<le> ne_logOffset e then None else Some (LogChunk i (take 32000 (drop (ne_logOffset e) t)))) (mc_nodes m))"

definition due :: "time option \<Rightarrow> time \<Rightarrow> time \<Rightarrow> bool" where
  "due prev now gap \<longleftrightarrow> (case prev of None \<Rightarrow> True | Some t \<Rightarrow> now - t > gap)"

definition heartbeat :: "machine_config \<Rightarrow> time \<Rightarrow> host_metrics \<Rightarrow> machine \<Rightarrow> machine \<times> agent_event list" where
  "heartbeat g now metrics m = (let v = due (mc_versionReportedAt m) now (10 * 60000); k = due (mc_lastMetricsAt m) now 60000 in
     (m\<lparr>mc_versionReportedAt := (if v then Some now else mc_versionReportedAt m), mc_lastMetricsAt := (if k then Some now else mc_lastMetricsAt m)\<rparr>,
      if v \<or> k then [Heartbeat (if v then mg_version g else None) (if k then Some metrics else None)] else []))"

type_synonym command_in = "int \<times> machine_command \<times> machine_world"

definition outcome_ok :: "outcome \<Rightarrow> bool" where
  "outcome_ok r \<longleftrightarrow> (case r of Done a \<Rightarrow> True | Failed e \<Rightarrow> False)"

fun execute_all :: "machine_config \<Rightarrow> command_in list \<Rightarrow> machine \<Rightarrow> machine \<times> agent_event list" where
  "execute_all g [] m = (m, [])"
| "execute_all g ((n, c, w) # r) m = (case execute g w c m of (m1, a) \<Rightarrow> (case execute_all g r m1 of
     (m2, es) \<Rightarrow> (m2, CommandResult n (outcome_ok a) (mg_render g a) # es)))"

text \<open>The events of a round; the flag says whether the manager has taken them.\<close>

definition loop_events :: "machine_config \<Rightarrow> command_in list \<Rightarrow> time \<Rightarrow> host_metrics \<Rightarrow> machine \<Rightarrow> machine \<times> agent_event list" where
  "loop_events g cs now metrics m = (case execute_all g cs m of (m1, results) \<Rightarrow> (case collectLogChunks g m1 of (m2, chunks) \<Rightarrow>
     (case heartbeat g now metrics m2 of (m3, beat) \<Rightarrow> (m3, results @ chunks @ beat))))"

datatype poll_answer = PollGot "command_in list" | PollUnauthorized | PollUnreachable
datatype register_answer = Registered id string | RegisterFails

definition loadIdentity :: "machine_config \<Rightarrow> machine \<Rightarrow> machine" where
  "loadIdentity g m = (case read_file m (identity_path g) of
     Some (Identity i t) \<Rightarrow> m\<lparr>mc_agentId := Some i, mc_agentToken := Some t\<rparr>
   | _ \<Rightarrow> m)"

text \<open>False: the registration throws.\<close>

definition registerOnce :: "machine_config \<Rightarrow> register_answer \<Rightarrow> machine \<Rightarrow> machine \<times> bool" where
  "registerOnce g r m = (let m1 = loadIdentity g m in
     if mc_agentId m1 \<noteq> None \<and> mc_agentToken m1 \<noteq> None then (m1, True)
     else (case r of
       Registered i t \<Rightarrow> (saveIdentity g (m1\<lparr>mc_agentId := Some i, mc_agentToken := Some t\<rparr>), True)
     | RegisterFails \<Rightarrow> (m1, False)))"

definition backoff_delay :: "nat \<Rightarrow> time" where
  "backoff_delay attempt = min (1000 * 2 ^ (attempt - 1)) 30000"

definition back_off :: "machine \<Rightarrow> machine" where
  "back_off m = m\<lparr>mc_retry := mc_retry m + 1\<rparr>"

definition drop_identity :: "machine_config \<Rightarrow> machine \<Rightarrow> machine" where
  "drop_identity g m = write_file (identity_path g) (Text []) (m\<lparr>mc_agentId := None, mc_agentToken := None\<rparr>)"

definition leave :: "machine \<Rightarrow> machine" where
  "leave m = m\<lparr>mc_up := False\<rparr>"

definition machine_round :: "machine_config \<Rightarrow> time \<Rightarrow> host_metrics \<Rightarrow> poll_answer \<Rightarrow> bool \<Rightarrow> register_answer \<Rightarrow> machine \<Rightarrow> machine \<times> agent_event list" where
  "machine_round g now metrics answer reported reg m =
     (if \<not> mc_up m then (m, [])
      else if mc_agentId m = None \<or> mc_agentToken m = None then (back_off m, [])
      else (case answer of
        PollUnauthorized \<Rightarrow> (case registerOnce g reg (drop_identity g m) of (m1, ok) \<Rightarrow> (if ok then m1 else leave m1, []))
      | PollUnreachable \<Rightarrow> (back_off m, [])
      | PollGot cs \<Rightarrow> (case loop_events g cs now metrics m of (m1, es) \<Rightarrow>
          if es \<noteq> [] \<and> \<not> reported then (back_off m1, [])
          else let m2 = m1\<lparr>mc_retry := 0\<rparr> in (if mc_pendingExit m2 then leave m2 else m2, es))))"

section \<open>Starting the agent\<close>

definition resume_node :: "machine_config \<Rightarrow> (id \<Rightarrow> machine_world) \<Rightarrow> id \<Rightarrow> machine \<Rightarrow> machine" where
  "resume_node g ws i m = (case read_file m (spawn_path g i) of
     Some (Payload p) \<Rightarrow> if pl_nodeId p = i then fst (dispatchSpawn g (ws i) p m) else m
   | _ \<Rightarrow> m)"

definition resumeNodes :: "machine_config \<Rightarrow> (id \<Rightarrow> machine_world) \<Rightarrow> machine \<Rightarrow> machine" where
  "resumeNodes g ws m = fold (resume_node g ws) (listNodeIds g m) m"

definition forget_memory :: "machine \<Rightarrow> machine" where
  "forget_memory m = m\<lparr>mc_nodes := [], mc_agentId := None, mc_agentToken := None, mc_up := True, mc_retry := 0, mc_pendingExit := False,
     mc_versionReportedAt := None, mc_lastMetricsAt := None\<rparr>"

definition run_agent :: "machine_config \<Rightarrow> (id \<Rightarrow> machine_world) \<Rightarrow> register_answer \<Rightarrow> machine \<Rightarrow> machine" where
  "run_agent g ws reg m = (case registerOnce g reg (resumeNodes g ws (forget_memory m)) of (m1, ok) \<Rightarrow> if ok then m1 else leave m1)"

datatype machine_event =
    MachineRound time host_metrics poll_answer bool register_answer
  | ProcessEnds int
  | NodeWrites id string
  | AgentStarts "id \<Rightarrow> machine_world" register_answer
  | HostReboots "process list" "id \<Rightarrow> machine_world" register_answer

text \<open>After a reboot only the processes of others run.\<close>

definition machine_step :: "machine_config \<Rightarrow> machine \<Rightarrow> machine_event \<Rightarrow> machine" where
  "machine_step g m e = (case e of
     MachineRound now metrics answer reported reg \<Rightarrow> fst (machine_round g now metrics answer reported reg m)
   | ProcessEnds q \<Rightarrow> m\<lparr>mc_procs := del_where (\<lambda>p. pr_pid p = q) (mc_procs m)\<rparr>
   | NodeWrites i t \<Rightarrow> write_file (log_path g i) (Text (text_at m (log_path g i) @ t)) m
   | AgentStarts ws reg \<Rightarrow> run_agent g ws reg m
   | HostReboots others ws reg \<Rightarrow> run_agent g ws reg (m\<lparr>mc_procs := others\<rparr>))"

section \<open>What the files say\<close>

definition last_part :: "string \<Rightarrow> string" where
  "last_part s = rev (takeWhile (\<lambda>c. c \<noteq> CHR ''/'') (rev s))"

definition key_file :: "string \<Rightarrow> bool" where
  "key_file s \<longleftrightarrow> last_part s = ''spawn.json'' \<or> last_part s = ''node.pid''"

lemma last_part_slash [simp]: "last_part (a @ CHR ''/'' # n) = last_part n"
proof (cases "\<forall>x\<in>set (rev n). x \<noteq> CHR ''/''")
  case True
  then have e: "takeWhile (\<lambda>c. c \<noteq> CHR ''/'') (rev n @ CHR ''/'' # rev a) = rev n" and f: "takeWhile (\<lambda>c. c \<noteq> CHR ''/'') (rev n) = rev n"
    using takeWhile_append2 [of "rev n" "\<lambda>c. c \<noteq> CHR ''/''" "CHR ''/'' # rev a"] takeWhile_append2 [of "rev n" "\<lambda>c. c \<noteq> CHR ''/''" "[]"] by simp_all
  have r: "rev (a @ CHR ''/'' # n) = rev n @ CHR ''/'' # rev a" by simp
  show ?thesis unfolding last_part_def r e f ..
qed (auto simp: last_part_def takeWhile_append)

definition no_pid :: "int \<Rightarrow> machine \<Rightarrow> bool" where
  "no_pid q m \<longleftrightarrow> list_all (\<lambda>(k, c). c \<noteq> PidFile q) (mc_disk m)"

lemma read_write [simp]: "read_file (write_file a c m) b = (if b = a then Some c else read_file m b)"
  by (simp add: read_file_def write_file_def map_of_assign)

lemma map_of_remove: "map_of (filter (\<lambda>(k, c). k \<noteq> a) xs) b = (if b = a then None else map_of xs b)"
  by (induction xs) auto

lemma read_remove [simp]: "read_file (remove_file a m) b = (if b = a then None else read_file m b)"
  by (simp add: read_file_def remove_file_def map_of_remove)

lemma assign_all_values: "list_all P xs \<Longrightarrow> P (k, v) \<Longrightarrow> (\<And>a. P (a, v)) \<Longrightarrow> list_all P (assign k v xs)"
  by (induction k v xs rule: assign.induct) auto

lemma no_pid_write: "no_pid q m \<Longrightarrow> c \<noteq> PidFile q \<Longrightarrow> no_pid q (write_file a c m)"
  by (auto simp: no_pid_def write_file_def intro!: assign_all_values)

lemma no_pid_remove [simp]: "no_pid q m \<Longrightarrow> no_pid q (remove_file a m)"
  by (auto simp: no_pid_def remove_file_def list_all_iff)

lemma no_pid_read: "no_pid q m \<Longrightarrow> read_file m a \<noteq> Some (PidFile q)"
  by (auto simp: no_pid_def read_file_def list_all_iff dest!: map_of_SomeD)

lemma write_frame [simp]: "mc_procs (write_file a c m) = mc_procs m" "mc_nodes (write_file a c m) = mc_nodes m" "mc_bins (write_file a c m) = mc_bins m"
  by (simp_all add: write_file_def)

lemma remove_frame [simp]: "mc_procs (remove_file a m) = mc_procs m" "mc_nodes (remove_file a m) = mc_nodes m" "mc_bins (remove_file a m) = mc_bins m"
  by (simp_all add: remove_file_def)

lemma key_paths [simp]: "key_file (spawn_path g i)" "key_file (pid_path g i)" "\<not> key_file (log_path g i)" "\<not> key_file (identity_path g)"
  "\<not> key_file (log_path g i @ ''.1'')"
  by (simp_all add: key_file_def spawn_path_def pid_path_def log_path_def identity_path_def) (simp_all add: last_part_def)

lemma path_inj [simp]: "spawn_path g i = spawn_path g j \<longleftrightarrow> i = j" "pid_path g i = pid_path g j \<longleftrightarrow> i = j"
  by (simp_all add: spawn_path_def pid_path_def nodeHome_def)

lemma path_apart [simp]: "spawn_path g i \<noteq> pid_path g j" "pid_path g j \<noteq> spawn_path g i"
proof -
  have "last_part (spawn_path g i) \<noteq> last_part (pid_path g j)"
    by (simp add: spawn_path_def pid_path_def) (simp add: last_part_def)
  then show "spawn_path g i \<noteq> pid_path g j" "pid_path g j \<noteq> spawn_path g i" by metis+
qed

text \<open>A change of other files only.\<close>

definition side_change :: "machine \<Rightarrow> machine \<Rightarrow> bool" where
  "side_change m m' \<longleftrightarrow> mc_procs m' = mc_procs m \<and> mc_nodes m' = mc_nodes m \<and> (\<forall>a. key_file a \<longrightarrow> read_file m' a = read_file m a) \<and>
     (\<forall>q. no_pid q m \<longrightarrow> no_pid q m')"

lemma side_refl [simp]: "side_change m m"
  by (simp add: side_change_def)

lemma side_trans [trans]: "side_change a b \<Longrightarrow> side_change b c \<Longrightarrow> side_change a c"
  by (simp add: side_change_def)

lemma side_write: "\<not> key_file a \<Longrightarrow> (\<And>q. c \<noteq> PidFile q) \<Longrightarrow> side_change m (write_file a c m)"
  by (auto simp: side_change_def no_pid_write)

lemma side_remove: "\<not> key_file a \<Longrightarrow> side_change m (remove_file a m)"
  by (auto simp: side_change_def)

lemma side_bin [simp]: "side_change m (add_bin b m)"
  by (simp add: side_change_def add_bin_def read_file_def no_pid_def)

definition plain_names :: "(string \<times> string) list \<Rightarrow> bool" where
  "plain_names files \<longleftrightarrow> list_all (\<lambda>(n, c). \<not> key_file n) files"

definition tidy :: "spawn_payload \<Rightarrow> bool" where
  "tidy p \<longleftrightarrow> isSafeNodeId (pl_nodeId p) \<and> (case pl_profile p of None \<Rightarrow> True | Some (d, files) \<Rightarrow> plain_names files)"

lemma key_file_slash [simp]: "key_file (a @ CHR ''/'' # n) = key_file n"
  by (simp add: key_file_def)

lemma side_settings: "side_change m (write_settings g p m)"
  by (auto simp: write_settings_def split: option.split intro!: side_write) (simp add: key_file_def last_part_def)

lemma side_profile: "plain_names files \<Longrightarrow> write_profile d files m = (m', b) \<Longrightarrow> side_change m m'"
proof -
  assume pn: "plain_names files" and "write_profile d files m = (m', b)"
  let ?f = "\<lambda>(n, c) (m1, changed). if read_file m1 (d @ ''/'' @ n) = Some (Text c) then (m1, changed)
     else (write_file (d @ ''/'' @ n) (Text c) m1, changed \<or> n \<noteq> PATCH_FILE)"
  have "side_change m (fst (fold ?f files (m, x)))" for x m
    using pn
  proof (induction files arbitrary: m x)
    case (Cons a files)
    obtain n c where a: "a = (n, c)" by (cases a)
    have k: "\<not> key_file n" and r: "plain_names files" using Cons.prems by (auto simp: plain_names_def a)
    have "side_change m (write_file (d @ ''/'' @ n) (Text c) m)" using k by (intro side_write) auto
    then have "side_change m (fst (?f a (m, x)))" by (simp add: a)
    moreover obtain m1 x1 where f: "?f a (m, x) = (m1, x1)" by (cases "?f a (m, x)")
    ultimately have "side_change m m1" by simp
    then have "side_change m (fst (fold ?f files (m1, x1)))" using Cons.IH [OF r, of m1 x1] by (rule side_trans)
    then show ?case by (simp only: fold.simps comp_apply f)
  qed simp
  then have "side_change m (fst (write_profile d files m))" unfolding write_profile_def .
  then show ?thesis using \<open>write_profile d files m = (m', b)\<close> by simp
qed

lemma plain_profile_texts: "plain_names files \<Longrightarrow> plain_names (profile_texts p files)"
  by (auto simp: plain_names_def profile_texts_def list_all_iff split: option.split)

lemma side_install: "install_profile w d ch m = (m', e) \<Longrightarrow> side_change m m'"
proof -
  have "\<not> key_file (installed_marker d)" by (simp add: installed_marker_def) (simp add: key_file_def last_part_def)
  then have "side_change k (write_file (installed_marker d) (Stamp t) k)" for t k by (intro side_write) auto
  then show "install_profile w d ch m = (m', e) \<Longrightarrow> side_change m m'"
    using side_trans [OF side_bin [of m "d @ DSH_BIN"]] by (auto simp: install_profile_def split: if_splits option.splits)
qed

lemma side_deliver: "tidy p \<Longrightarrow> deliver_profile g w p m = (m', e) \<Longrightarrow> side_change m m'"
  by (auto simp: deliver_profile_def tidy_def Let_def split: option.splits prod.splits
      dest: side_profile [OF plain_profile_texts] side_install intro: side_trans)

lemma side_fleet: "side_change m (deliver_fleet g p m)"
proof -
  have "\<not> key_file (payload_home g p @ ''/fleet.md'')" by simp (simp add: key_file_def last_part_def)
  then show ?thesis by (auto simp: deliver_fleet_def Let_def split: option.split intro!: side_write)
qed

lemma side_choose: "choose_bin g w p m = (m', r) \<Longrightarrow> side_change m m'"
  by (auto simp: choose_bin_def ensureDsh_def Let_def split: option.splits if_splits)

lemma side_rotate: "side_change m (rotate_log g i m)"
proof -
  have "side_change m (write_file (log_path g i @ ''.1'') (Text t) (remove_file (log_path g i) (remove_file (log_path g i @ ''.1'') m)))" for t
    using side_trans [OF side_remove side_trans [OF side_remove side_write]] by simp
  then show ?thesis by (simp add: rotate_log_def Let_def)
qed

section \<open>One start\<close>

definition no_errors :: "machine_world \<Rightarrow> bool" where
  "no_errors w \<longleftrightarrow> mw_profileError w = None \<and> mw_installError w = None \<and> mw_spawnError w = None"

lemma launch_cases:
  assumes "launch g w p bin m = (m', a)"
  shows "side_change m m' \<and> (\<exists>e. a = Failed e) \<and> mw_spawnError w \<noteq> None \<or>
    (\<exists>m1. side_change m m1 \<and> m' = started g w p bin m1 \<and> a = Done (SpawnedPid (mw_pid w)))"
  using assms side_rotate [of m g "pl_nodeId p"] by (auto simp: launch_def Let_def split: option.splits)

lemma start_node_cases:
  assumes "tidy p" "start_node g w p m = (m', a)"
  shows "side_change m m' \<and> (\<exists>e. a = Failed e) \<and> \<not> no_errors w \<or>
    (\<exists>m1 bin. side_change m m1 \<and> m' = started g w p bin m1 \<and> a = Done (SpawnedPid (mw_pid w)))"
proof -
  obtain m1 e1 where d: "deliver_profile g w p (write_settings g p m) = (m1, e1)" by force
  have s1: "side_change m m1" using side_trans [OF side_settings side_deliver [OF assms(1) d]] .
  show ?thesis
  proof (cases e1)
    case (Some e)
    then have "mw_profileError w \<noteq> None" using d by (auto simp: deliver_profile_def install_profile_def Let_def split: option.splits prod.splits if_splits)
    then show ?thesis using assms(2) d s1 Some by (auto simp: start_node_def no_errors_def)
  next
    case None
    obtain m2 r where c: "choose_bin g w p (deliver_fleet g p m1) = (m2, r)" by force
    have s2: "side_change m m2" using side_trans [OF s1 side_trans [OF side_fleet side_choose [OF c]]] .
    show ?thesis
    proof (cases r)
      case (Inl e)
      then have "mw_installError w \<noteq> None" using c by (auto simp: choose_bin_def ensureDsh_def Let_def split: option.splits if_splits)
      then show ?thesis using assms(2) d c s2 None Inl by (auto simp: start_node_def no_errors_def)
    next
      case (Inr bin)
      then have l: "launch g w p bin m2 = (m', a)" using assms(2) d c None by (simp add: start_node_def)
      show ?thesis using launch_cases [OF l] side_trans [OF s2] by (auto simp: no_errors_def)
    qed
  qed
qed

lemma dispatch_cases:
  assumes "tidy p" "dispatchSpawn g w p m = (m', a)"
  obtains (running) q where "read_file m (pid_path g (pl_nodeId p)) = Some (PidFile q)" "alive m q" "m' = adopt_running w (pl_nodeId p) q m"
      "a = Done (AlreadyRunning q)"
  | (failed) e where "side_change m m'" "a = Failed e" "\<not> no_errors w"
  | (launched) m1 bin where "side_change m m1" "m' = started g w p bin m1" "a = Done (SpawnedPid (mw_pid w))"
      "\<And>q. read_file m (pid_path g (pl_nodeId p)) = Some (PidFile q) \<Longrightarrow> 0 < q \<Longrightarrow> \<not> alive m q"
proof (cases "\<exists>q. readNodePid g m (pl_nodeId p) = Some q \<and> alive m q")
  case True
  then obtain q where q: "readNodePid g m (pl_nodeId p) = Some q" "alive m q" by blast
  then have "read_file m (pid_path g (pl_nodeId p)) = Some (PidFile q)"
    by (auto simp: readNodePid_def split: if_splits option.splits content.splits)
  then show thesis using q assms(2) running [of q] by (auto simp: dispatchSpawn_def Let_def)
next
  case False
  then have s: "start_node g w p m = (m', a)" using assms(2) by (auto simp: dispatchSpawn_def Let_def split: option.splits if_splits)
  have n: "\<not> alive m q" if "read_file m (pid_path g (pl_nodeId p)) = Some (PidFile q)" "0 < q" for q
    using that False assms(1) by (auto simp: readNodePid_def tidy_def)
  show thesis using start_node_cases [OF assms(1) s] failed launched n by blast
qed

section \<open>The invariant\<close>

text \<open>A node that is to run on the machine: its payload is on the disk.\<close>

definition wanted :: "machine_config \<Rightarrow> machine \<Rightarrow> id set" where
  "wanted g m = {i. isSafeNodeId i \<and> read_file m (spawn_path g i) \<noteq> None}"

definition recorded :: "machine_config \<Rightarrow> machine \<Rightarrow> id \<Rightarrow> int \<Rightarrow> bool" where
  "recorded g m i q \<longleftrightarrow> read_file m (pid_path g i) = Some (PidFile q)"

definition remembered :: "machine \<Rightarrow> id \<Rightarrow> int \<Rightarrow> bool" where
  "remembered m i q \<longleftrightarrow> (\<exists>e. entry_of m i = Some e \<and> ne_pid e = Some q)"

definition payloads_tidy :: "machine_config \<Rightarrow> machine \<Rightarrow> bool" where
  "payloads_tidy g m \<longleftrightarrow> (\<forall>i c. isSafeNodeId i \<and> read_file m (spawn_path g i) = Some c \<longrightarrow> (\<exists>p. c = Payload p \<and> pl_nodeId p = i \<and> tidy p))"

definition processes_known :: "machine_config \<Rightarrow> machine \<Rightarrow> bool" where
  "processes_known g m \<longleftrightarrow> distinct (map pr_pid (mc_procs m)) \<and>
     (\<forall>r\<in>set (mc_procs m). (\<forall>i. pr_node r = Some i \<longrightarrow> i \<in> wanted g m \<and> 0 < pr_pid r \<and> recorded g m i (pr_pid r)) \<and>
        (pr_node r = None \<longrightarrow> (\<forall>i. \<not> recorded g m i (pr_pid r))))"

definition pids_apart :: "machine_config \<Rightarrow> machine \<Rightarrow> bool" where
  "pids_apart g m \<longleftrightarrow> (\<forall>i j q. recorded g m i q \<and> recorded g m j q \<longrightarrow> i = j) \<and> (\<forall>i q. remembered m i q \<longrightarrow> recorded g m i q)"

definition machine_inv :: "machine_config \<Rightarrow> machine \<Rightarrow> bool" where
  "machine_inv g m \<longleftrightarrow> payloads_tidy g m \<and> processes_known g m \<and> pids_apart g m"

lemma side_views:
  assumes "side_change m m'"
  shows "wanted g m' = wanted g m" "recorded g m' i q = recorded g m i q" "remembered m' i q = remembered m i q" "alive m' q = alive m q"
  using assms by (auto simp: wanted_def recorded_def remembered_def entry_of_def alive_def side_change_def)

lemma side_inv:
  assumes s: "side_change m m'" and "machine_inv g m"
  shows "machine_inv g m'"
proof -
  have "mc_procs m' = mc_procs m" "read_file m' (spawn_path g i) = read_file m (spawn_path g i)" for i using s by (simp_all add: side_change_def)
  then show ?thesis using assms(2) unfolding machine_inv_def payloads_tidy_def processes_known_def pids_apart_def by (simp add: side_views [OF s])
qed

definition fresh_pid :: "int \<Rightarrow> machine \<Rightarrow> bool" where
  "fresh_pid q m \<longleftrightarrow> 0 < q \<and> \<not> alive m q \<and> no_pid q m"

lemma fresh_side: "side_change m m' \<Longrightarrow> fresh_pid q m \<Longrightarrow> fresh_pid q m'"
  by (auto simp: fresh_pid_def side_views) (auto simp: side_change_def)

lemma set_entry_frame [simp]: "mc_procs (set_entry i e m) = mc_procs m" "read_file (set_entry i e m) a = read_file m a" "no_pid q (set_entry i e m) = no_pid q m"
  "entry_of (set_entry i e m) j = (if j = i then Some e else entry_of m j)"
  by (simp_all add: set_entry_def read_file_def no_pid_def entry_of_def map_of_assign)

lemma set_entry_views [simp]: "wanted g (set_entry i e m) = wanted g m" "recorded g (set_entry i e m) j q = recorded g m j q" "alive (set_entry i e m) q = alive m q"
  by (simp_all add: wanted_def recorded_def alive_def)

lemma remembered_set: "remembered (set_entry i e m) j q \<longleftrightarrow> (if j = i then ne_pid e = Some q else remembered m j q)"
  by (auto simp: remembered_def)

lemma adopt_inv:
  assumes "machine_inv g m" "recorded g m i q"
  shows "machine_inv g (adopt_running w i q m)"
proof -
  obtain e where a: "adopt_running w i q m = set_entry i e m" "ne_pid e = Some q" by (auto simp: adopt_running_def split: option.split)
  show ?thesis using assms unfolding a(1) machine_inv_def payloads_tidy_def processes_known_def pids_apart_def by (auto simp: remembered_set a(2))
qed

lemma started_views:
  "read_file (started g w p bin m) b = (if b = pid_path g (pl_nodeId p) then Some (PidFile (mw_pid w)) else read_file m b)"
    "wanted g (started g w p bin m) = wanted g m"
    "recorded g (started g w p bin m) j q \<longleftrightarrow> (if j = pl_nodeId p then q = mw_pid w else recorded g m j q)"
    "remembered (started g w p bin m) j q \<longleftrightarrow> (if j = pl_nodeId p then q = mw_pid w else remembered m j q)"
    "alive (started g w p bin m) q \<longleftrightarrow> q = mw_pid w \<or> alive m q"
proof -
  have r: "read_file (m\<lparr>mc_procs := ps\<rparr>) b = read_file m b" for ps b by (simp add: read_file_def)
  have e: "entry_of (write_file a c (m\<lparr>mc_procs := ps\<rparr>)) j = entry_of m j" for a c ps j by (simp add: entry_of_def)
  show f: "read_file (started g w p bin m) b = (if b = pid_path g (pl_nodeId p) then Some (PidFile (mw_pid w)) else read_file m b)" for b
    by (simp add: started_def Let_def r)
  show "wanted g (started g w p bin m) = wanted g m" by (simp add: wanted_def f)
  show "recorded g (started g w p bin m) j q \<longleftrightarrow> (if j = pl_nodeId p then q = mw_pid w else recorded g m j q)" by (auto simp: recorded_def f)
  show "remembered (started g w p bin m) j q \<longleftrightarrow> (if j = pl_nodeId p then q = mw_pid w else remembered m j q)"
    by (auto simp: started_def Let_def remembered_set) (simp_all add: remembered_def e)
  show "alive (started g w p bin m) q \<longleftrightarrow> q = mw_pid w \<or> alive m q" by (auto simp: started_def Let_def alive_def)
qed

lemma started_inv:
  assumes inv: "machine_inv g m" and "tidy p" and want: "pl_nodeId p \<in> wanted g m" and fresh: "fresh_pid (mw_pid w) m"
    and dead: "\<And>q. recorded g m (pl_nodeId p) q \<Longrightarrow> 0 < q \<Longrightarrow> \<not> alive m q"
  shows "machine_inv g (started g w p bin m)"
proof -
  let ?m = "started g w p bin m" and ?i = "pl_nodeId p" and ?q = "mw_pid w"
  have no: "\<not> recorded g m j ?q" for j using fresh no_pid_read by (auto simp: fresh_pid_def recorded_def)
  have "payloads_tidy g ?m" using inv by (auto simp: machine_inv_def payloads_tidy_def started_views)
  moreover have "pids_apart g ?m" using inv no by (auto simp: machine_inv_def pids_apart_def started_views)
  moreover have "processes_known g ?m"
  proof -
    have p: "mc_procs ?m = mc_procs m @ [\<lparr>pr_pid = ?q, pr_node = Some ?i, pr_bin = bin, pr_args = pl_args p, pr_env = assign ''DSH_HOME'' (payload_home g p) (pl_env p)\<rparr>]"
      by (simp add: started_def Let_def)
    have d: "distinct (map pr_pid (mc_procs ?m))" using inv fresh unfolding p by (auto simp: machine_inv_def processes_known_def fresh_pid_def alive_def)
    have live: "alive m (pr_pid r)" if "r \<in> set (mc_procs m)" for r using that by (simp add: alive_def)
    have other: "pr_node r \<noteq> Some ?i" "pr_pid r \<noteq> ?q" if "r \<in> set (mc_procs m)" for r
      using that inv dead [of "pr_pid r"] fresh live [OF that] by (auto simp: machine_inv_def processes_known_def fresh_pid_def)
    show ?thesis unfolding processes_known_def using d inv want fresh other
      by (auto simp: p started_views machine_inv_def processes_known_def fresh_pid_def)
  qed
  ultimately show ?thesis by (simp add: machine_inv_def)
qed

lemma adopt_views: "adopt_running w i q m = m' \<Longrightarrow> wanted g m' = wanted g m \<and> mc_procs m' = mc_procs m \<and> read_file m' = read_file m \<and> no_pid k m' = no_pid k m"
  by (auto simp: adopt_running_def)

text \<open>A start keeps the invariant and the payloads, and uses up no other number.\<close>

lemma dispatch_keeps:
  assumes inv: "machine_inv g m" and t: "tidy p" and want: "pl_nodeId p \<in> wanted g m" and fresh: "fresh_pid (mw_pid w) m" and d: "dispatchSpawn g w p m = (m', a)"
  shows "machine_inv g m'" "\<And>j. read_file m' (spawn_path g j) = read_file m (spawn_path g j)"
    "\<And>q. fresh_pid q m \<Longrightarrow> q \<noteq> mw_pid w \<Longrightarrow> fresh_pid q m'"
    "mc_procs m' = mc_procs m \<and> ((\<exists>r\<in>set (mc_procs m). pr_node r = Some (pl_nodeId p)) \<or> \<not> no_errors w) \<or>
     (\<exists>r. mc_procs m' = mc_procs m @ [r] \<and> pr_node r = Some (pl_nodeId p))"
  using t d
proof (induction rule: dispatch_cases)
  case (running q)
  have "\<exists>r\<in>set (mc_procs m). pr_node r = Some (pl_nodeId p)"
  proof -
    obtain r where r: "r \<in> set (mc_procs m)" "pr_pid r = q" using running(2) by (auto simp: alive_def)
    have k: "recorded g m (pl_nodeId p) q" using running(1) by (simp add: recorded_def)
    then obtain j where "pr_node r = Some j" using inv r by (cases "pr_node r") (auto simp: machine_inv_def processes_known_def)
    moreover from this have "recorded g m j q" using inv r by (auto simp: machine_inv_def processes_known_def)
    ultimately show ?thesis using inv k r by (auto simp: machine_inv_def pids_apart_def)
  qed
  moreover have "machine_inv g m'" unfolding running(3) by (rule adopt_inv [OF inv]) (simp add: recorded_def running(1))
  ultimately show "machine_inv g m'" "\<And>j. read_file m' (spawn_path g j) = read_file m (spawn_path g j)"
    "\<And>q. fresh_pid q m \<Longrightarrow> q \<noteq> mw_pid w \<Longrightarrow> fresh_pid q m'"
    "mc_procs m' = mc_procs m \<and> ((\<exists>r\<in>set (mc_procs m). pr_node r = Some (pl_nodeId p)) \<or> \<not> no_errors w) \<or>
     (\<exists>r. mc_procs m' = mc_procs m @ [r] \<and> pr_node r = Some (pl_nodeId p))"
    using adopt_views [OF running(3) [symmetric]] by (auto simp: fresh_pid_def alive_def)
next
  case (failed e)
  then show "machine_inv g m'" "\<And>j. read_file m' (spawn_path g j) = read_file m (spawn_path g j)"
    "\<And>q. fresh_pid q m \<Longrightarrow> q \<noteq> mw_pid w \<Longrightarrow> fresh_pid q m'"
    "mc_procs m' = mc_procs m \<and> ((\<exists>r\<in>set (mc_procs m). pr_node r = Some (pl_nodeId p)) \<or> \<not> no_errors w) \<or>
     (\<exists>r. mc_procs m' = mc_procs m @ [r] \<and> pr_node r = Some (pl_nodeId p))"
    using side_inv [OF failed(1) inv] fresh_side [OF failed(1)] by (auto simp: side_change_def)
next
  case (launched m1 bin)
  have i1: "machine_inv g m1" using side_inv [OF launched(1) inv] .
  have dead: "\<not> alive m1 q" if "recorded g m1 (pl_nodeId p) q" "0 < q" for q
    using launched(4) [of q] that unfolding side_views [OF launched(1)] by (simp add: recorded_def)
  have inv': "machine_inv g (started g w p bin m1)"
    using i1 t want fresh_side [OF launched(1) fresh] dead by (intro started_inv) (auto simp: side_views [OF launched(1)])
  have kept: "read_file m1 (spawn_path g j) = read_file m (spawn_path g j)" "mc_procs m1 = mc_procs m" for j using launched(1) by (simp_all add: side_change_def)
  have nopid: "no_pid q (started g w p bin m1)" if "no_pid q m1" "q \<noteq> mw_pid w" for q
  proof -
    have "no_pid q (m1\<lparr>mc_procs := ps\<rparr>)" for ps using that(1) by (simp add: no_pid_def)
    then show ?thesis using that(2) by (auto simp: started_def Let_def intro!: no_pid_write)
  qed
  show "machine_inv g m'" "\<And>j. read_file m' (spawn_path g j) = read_file m (spawn_path g j)"
    using inv' by (simp_all add: launched(2) started_views kept)
  show "fresh_pid q m'" if "fresh_pid q m" "q \<noteq> mw_pid w" for q
    using fresh_side [OF launched(1) that(1)] that(2) nopid by (auto simp: launched(2) fresh_pid_def started_views)
  show "mc_procs m' = mc_procs m \<and> ((\<exists>r\<in>set (mc_procs m). pr_node r = Some (pl_nodeId p)) \<or> \<not> no_errors w) \<or>
     (\<exists>r. mc_procs m' = mc_procs m @ [r] \<and> pr_node r = Some (pl_nodeId p))"
    by (auto simp: launched(2) started_def Let_def kept)
qed

section \<open>Every command keeps the invariant\<close>

definition keeps_fresh :: "int set \<Rightarrow> machine \<Rightarrow> machine \<Rightarrow> bool" where
  "keeps_fresh used m m' \<longleftrightarrow> (\<forall>q. fresh_pid q m \<and> q \<notin> used \<longrightarrow> fresh_pid q m')"

lemma keeps_fresh_trans: "keeps_fresh U a b \<Longrightarrow> keeps_fresh U b c \<Longrightarrow> keeps_fresh U a c"
  by (simp add: keeps_fresh_def)

lemma side_keeps: "side_change m m' \<Longrightarrow> keeps_fresh U m m'"
  using fresh_side by (simp add: keeps_fresh_def)

lemma persist_keeps:
  assumes "machine_inv g m" "tidy p"
  shows "machine_inv g (persistSpawnPayload g (pl_nodeId p) p m)" "wanted g (persistSpawnPayload g (pl_nodeId p) p m) = insert (pl_nodeId p) (wanted g m)"
    "keeps_fresh U m (persistSpawnPayload g (pl_nodeId p) p m)" "mc_procs (persistSpawnPayload g (pl_nodeId p) p m) = mc_procs m"
proof -
  let ?m = "persistSpawnPayload g (pl_nodeId p) p m"
  have s: "isSafeNodeId (pl_nodeId p)" and m: "?m = write_file (spawn_path g (pl_nodeId p)) (Payload p) m" using assms(2) by (simp_all add: tidy_def persistSpawnPayload_def)
  show w: "wanted g ?m = insert (pl_nodeId p) (wanted g m)" using s by (auto simp: m wanted_def)
  have r: "recorded g ?m i q = recorded g m i q" "remembered ?m i q = remembered m i q" for i q by (simp_all add: m recorded_def remembered_def entry_of_def)
  have "payloads_tidy g ?m" using assms by (auto simp: machine_inv_def payloads_tidy_def m)
  then show "machine_inv g ?m" using assms(1) by (simp add: machine_inv_def processes_known_def pids_apart_def r w) (simp add: m)
  show "keeps_fresh U m ?m" by (auto simp: keeps_fresh_def fresh_pid_def alive_def m no_pid_write)
  show "mc_procs ?m = mc_procs m" by (simp add: m)
qed

lemma spawn_keeps:
  assumes inv: "machine_inv g m" and t: "tidy p" and fresh: "fresh_pid (mw_pid w) m" and e: "execSpawn g w p m = (m', a)"
  shows "machine_inv g m'" "keeps_fresh {mw_pid w} m m'" "wanted g m' = insert (pl_nodeId p) (wanted g m)"
proof -
  let ?k = "persistSpawnPayload g (pl_nodeId p) p m"
  note k = persist_keeps [OF inv t]
  have "fresh_pid (mw_pid w) ?k" using k(3) [of "{}"] fresh by (simp add: keeps_fresh_def)
  have w: "pl_nodeId p \<in> wanted g ?k" using k(2) by simp
  note d = dispatch_keeps [OF k(1) t w \<open>fresh_pid (mw_pid w) ?k\<close> e [unfolded execSpawn_def]]
  show "machine_inv g m'" using d(1) .
  have "wanted g m' = wanted g ?k" using d(2) unfolding wanted_def by simp
  then show "wanted g m' = insert (pl_nodeId p) (wanted g m)" using k(2) by simp
  have "keeps_fresh {mw_pid w} ?k m'" using d(3) by (simp add: keeps_fresh_def)
  then show "keeps_fresh {mw_pid w} m m'" using k(3) keeps_fresh_trans by blast
qed

text \<open>Fewer processes.\<close>

lemma procs_views [simp]:
  "read_file (m\<lparr>mc_procs := ps\<rparr>) b = read_file m b" "entry_of (m\<lparr>mc_procs := ps\<rparr>) j = entry_of m j" "wanted g (m\<lparr>mc_procs := ps\<rparr>) = wanted g m"
  "recorded g (m\<lparr>mc_procs := ps\<rparr>) i q = recorded g m i q" "remembered (m\<lparr>mc_procs := ps\<rparr>) i q = remembered m i q"
  "no_pid q (m\<lparr>mc_procs := ps\<rparr>) = no_pid q m"
proof -
  have r: "read_file (m\<lparr>mc_procs := ps\<rparr>) b = read_file m b" "entry_of (m\<lparr>mc_procs := ps\<rparr>) j = entry_of m j" for b j by (simp_all add: read_file_def entry_of_def)
  then show "read_file (m\<lparr>mc_procs := ps\<rparr>) b = read_file m b" "entry_of (m\<lparr>mc_procs := ps\<rparr>) j = entry_of m j" "wanted g (m\<lparr>mc_procs := ps\<rparr>) = wanted g m"
    "recorded g (m\<lparr>mc_procs := ps\<rparr>) i q = recorded g m i q" "remembered (m\<lparr>mc_procs := ps\<rparr>) i q = remembered m i q"
    by (simp_all add: wanted_def recorded_def remembered_def)
  show "no_pid q (m\<lparr>mc_procs := ps\<rparr>) = no_pid q m" by (simp add: no_pid_def)
qed

lemma fewer_procs:
  assumes "machine_inv g m"
  shows "machine_inv g (m\<lparr>mc_procs := del_where P (mc_procs m)\<rparr>)" "keeps_fresh U m (m\<lparr>mc_procs := del_where P (mc_procs m)\<rparr>)"
proof -
  have "distinct (map pr_pid (mc_procs m)) \<Longrightarrow> distinct (map pr_pid (del_where P (mc_procs m)))" by (simp add: del_where_def distinct_map_filter)
  then show "machine_inv g (m\<lparr>mc_procs := del_where P (mc_procs m)\<rparr>)"
    using assms unfolding machine_inv_def payloads_tidy_def processes_known_def pids_apart_def by simp blast
  show "keeps_fresh U m (m\<lparr>mc_procs := del_where P (mc_procs m)\<rparr>)" by (auto simp: keeps_fresh_def fresh_pid_def alive_def)
qed

lemma forget_keeps:
  assumes inv: "machine_inv g m" and none: "\<And>r. r \<in> set (mc_procs m) \<Longrightarrow> pr_node r \<noteq> Some i" and safe: "isSafeNodeId i"
  shows "machine_inv g (forget_node g i m)" "wanted g (forget_node g i m) = wanted g m - {i}" "keeps_fresh U m (forget_node g i m)"
proof -
  obtain e where m: "forget_node g i m = remove_file (spawn_path g i) (set_entry i e m)" and e: "ne_pid e = None" using safe by (simp add: forget_node_def Let_def)
  show w: "wanted g (forget_node g i m) = wanted g m - {i}" by (auto simp: m wanted_def)
  have r: "recorded g (forget_node g i m) j q = recorded g m j q" for j q by (simp add: m recorded_def)
  have b: "remembered (forget_node g i m) j q \<Longrightarrow> remembered m j q" for j q
    using e remembered_set [of i e m j q] by (auto simp: m remembered_def entry_of_def split: if_splits)
  have "payloads_tidy g (forget_node g i m)" using inv by (auto simp: machine_inv_def payloads_tidy_def m)
  moreover have "processes_known g (forget_node g i m)" using inv none by (auto simp: machine_inv_def processes_known_def r w) (auto simp: m)
  moreover have "pids_apart g (forget_node g i m)" using inv b by (auto simp: machine_inv_def pids_apart_def r)
  ultimately show "machine_inv g (forget_node g i m)" by (simp add: machine_inv_def)
  show "keeps_fresh U m (forget_node g i m)" by (auto simp: keeps_fresh_def fresh_pid_def m alive_def)
qed

lemma stop_finds:
  assumes inv: "machine_inv g m" and r: "r \<in> set (mc_procs m)" "pr_node r = Some i"
  shows "stop_pid g m i = Some (pr_pid r) \<and> 0 < pr_pid r"
proof -
  have k: "recorded g m i (pr_pid r)" "0 < pr_pid r" using inv r by (auto simp: machine_inv_def processes_known_def)
  have "q = pr_pid r" if "remembered m i q" for q using inv that k(1) by (auto simp: machine_inv_def pids_apart_def recorded_def)
  then show ?thesis using k by (auto simp: stop_pid_def recorded_def remembered_def split: option.splits)
qed

lemma stop_keeps:
  assumes inv: "machine_inv g m" and safe: "isSafeNodeId i" and e: "execStop g w i m = (m', a)"
  shows "machine_inv g m'" "keeps_fresh U m m'" "wanted g m' = (case a of Done b \<Rightarrow> wanted g m - {i} | Failed f \<Rightarrow> wanted g m)"
proof -
  have nobody: "pr_node r \<noteq> Some i" if "r \<in> set (mc_procs m)" "\<And>q. stop_pid g m i = Some q \<Longrightarrow> q \<le> 0 \<or> pr_pid r \<noteq> q" for r
    using stop_finds [OF inv that(1)] that(2) by fastforce
  have *: "machine_inv g m' \<and> keeps_fresh U m m' \<and> wanted g m' = (case a of Done b \<Rightarrow> wanted g m - {i} | Failed f \<Rightarrow> wanted g m)"
  proof (cases "\<exists>q. stop_pid g m i = Some q \<and> 0 < q")
    case False
    then have "pr_node r \<noteq> Some i" if "r \<in> set (mc_procs m)" for r using nobody [OF that] by force
    note f = forget_keeps [OF inv this safe]
    have "m' = forget_node g i m \<and> (\<exists>b. a = Done b)" using e False by (auto simp: execStop_def split: option.splits if_splits)
    then show ?thesis using f by auto
  next
    case True
    then obtain q where q: "stop_pid g m i = Some q" "0 < q" by blast
    obtain m1 r where k: "kill_process g w q m = (m1, r)" by force
    show ?thesis
    proof (cases r)
      case (Some f)
      then have "m1 = m" using k by (auto simp: kill_process_def Let_def split: if_splits option.splits)
      then show ?thesis using e q k Some inv by (auto simp: execStop_def keeps_fresh_def)
    next
      case None
      then have m1: "m1 = m\<lparr>mc_procs := del_where (\<lambda>p. pr_pid p = q) (mc_procs m)\<rparr>" using k by (auto simp: kill_process_def Let_def split: if_splits option.splits)
      note fp = fewer_procs(1) [OF inv, of "\<lambda>p. pr_pid p = q"] fewer_procs(2) [OF inv, of U "\<lambda>p. pr_pid p = q"]
      have "pr_node r \<noteq> Some i" if "r \<in> set (mc_procs m1)" for r using that nobody [of r] q by (auto simp: m1)
      note f = forget_keeps [OF fp(1) [folded m1] this safe]
      have "m' = forget_node g i m1 \<and> a = Done (StoppedPid (Some q))" using e q k None by (simp add: execStop_def)
      then show ?thesis using f fp(2) [folded m1] keeps_fresh_trans by (auto simp: m1)
    qed
  qed
  then show "machine_inv g m'" "keeps_fresh U m m'" "wanted g m' = (case a of Done b \<Rightarrow> wanted g m - {i} | Failed f \<Rightarrow> wanted g m)" by blast+
qed

definition tidy_command :: "machine_command \<Rightarrow> bool" where
  "tidy_command c \<longleftrightarrow> (case c of NodeSpawn p \<Rightarrow> tidy p | NodeRestart p \<Rightarrow> tidy p | NodeStop i \<Rightarrow> isSafeNodeId i
     | AgentUpdate u \<Rightarrow> plain_names (pk_files u) | _ \<Rightarrow> True)"

definition starts :: "machine_command \<Rightarrow> id \<Rightarrow> bool" where
  "starts c i \<longleftrightarrow> (case c of NodeSpawn p \<Rightarrow> pl_nodeId p = i | NodeRestart p \<Rightarrow> pl_nodeId p = i | _ \<Rightarrow> False)"

lemma side_ids: "mc_procs m' = mc_procs m \<Longrightarrow> mc_nodes m' = mc_nodes m \<Longrightarrow> mc_disk m' = mc_disk m \<Longrightarrow> side_change m m'"
  by (simp add: side_change_def read_file_def no_pid_def)

lemma side_identity: "side_change m (saveIdentity g m)"
  by (auto simp: saveIdentity_def split: option.split intro!: side_write)

lemma key_next: "key_file (next_path g n) = key_file n"
proof -
  have "next_path g n = (mg_dir g @ ''/.next'') @ CHR ''/'' # n" by (simp add: next_path_def)
  then show ?thesis by (simp only: key_file_slash)
qed

lemma side_stage: "plain_names (pk_files u) \<Longrightarrow> side_change m (stage_package g u m)"
proof -
  assume "plain_names (pk_files u)"
  have *: "plain_names files \<Longrightarrow> side_change m (fold (\<lambda>(n, c). write_file (next_path g n) (Text c)) files m)" for files m
  proof (induction files arbitrary: m)
    case (Cons a files)
    obtain n c where a: "a = (n, c)" by (cases a)
    have k: "\<not> key_file (next_path g n)" and r: "plain_names files" using Cons.prems by (simp_all add: a plain_names_def key_next)
    show ?case using side_trans [OF side_write Cons.IH [OF r]] k by (simp add: a)
  qed simp
  let ?m = "fold (\<lambda>(n, c). write_file (next_path g n) (Text c)) (pk_files u) m"
  have v: "\<not> key_file (next_path g ''.version'')" unfolding key_next by (simp add: key_file_def last_part_def)
  have "side_change m (case pk_managerVersion u of None \<Rightarrow> ?m | Some v \<Rightarrow> if v = [] then ?m else write_file (next_path g ''.version'') (Text v) ?m)"
    using side_trans [OF * [OF \<open>plain_names (pk_files u)\<close>] side_write [OF v]] * [OF \<open>plain_names (pk_files u)\<close>] by (simp split: option.split)
  then show ?thesis unfolding stage_package_def Let_def by (rule side_trans) (rule side_ids; simp)
qed

lemma execute_keeps:
  assumes inv: "machine_inv g m" and t: "tidy_command c" and fresh: "fresh_pid (mw_pid w) m" and e: "execute g w c m = (m', a)"
  shows "machine_inv g m' \<and> keeps_fresh {mw_pid w} m m' \<and> (\<forall>i. i \<notin> wanted g m \<and> \<not> starts c i \<longrightarrow> i \<notin> wanted g m')"
proof -
  have side: ?thesis if "side_change m m'"
    using side_inv [OF that inv] side_keeps [OF that] side_views(1) [OF that] by auto
  show ?thesis
  proof (cases c)
    case (NodeSpawn p)
    then show ?thesis using spawn_keeps [OF inv _ fresh, of p m' a] t e by (auto simp: execute_def tidy_command_def starts_def)
  next
    case (NodeStop i)
    then show ?thesis using stop_keeps [OF inv, of i w m' a] t e by (auto simp: execute_def tidy_command_def split: outcome.splits)
  next
    case (NodeRestart p)
    obtain m1 b where s: "execStop g w (pl_nodeId p) m = (m1, b)" by force
    have tp: "tidy p" "isSafeNodeId (pl_nodeId p)" using t NodeRestart by (simp_all add: tidy_command_def tidy_def)
    note k = stop_keeps [OF inv tp(2) s]
    show ?thesis
    proof (cases b)
      case (Failed f)
      then show ?thesis using k e s NodeRestart by (simp add: execute_def execRestart_def)
    next
      case (Done d)
      then have e1: "execSpawn g w p m1 = (m', a)" using e s NodeRestart by (simp add: execute_def execRestart_def)
      have "fresh_pid (mw_pid w) m1" using k(2) [of "{}"] fresh by (simp add: keeps_fresh_def)
      note l = spawn_keeps [OF k(1) tp(1) this e1]
      show ?thesis using l k(3) keeps_fresh_trans [OF k(2) l(2)] Done NodeRestart by (auto simp: starts_def)
    qed
  next
    case (ConfigDeliver kind token)
    have "side_change m (saveIdentity g (m\<lparr>mc_agentToken := x\<rparr>))" for x
      by (rule side_trans [OF _ side_identity]) (rule side_ids; simp)
    then show ?thesis using e ConfigDeliver by (intro side) (auto simp: execute_def execDeliver_def split: option.splits if_splits)
  next
    case (AgentUpdate u)
    then show ?thesis using e t side_stage by (intro side) (auto simp: execute_def execUpdate_def tidy_command_def split: if_splits)
  qed (use e inv in \<open>auto simp: execute_def execLogs_def execStatus_def keeps_fresh_def\<close>)
qed

definition fresh_pids :: "int list \<Rightarrow> machine \<Rightarrow> bool" where
  "fresh_pids qs m \<longleftrightarrow> distinct qs \<and> list_all (\<lambda>q. fresh_pid q m) qs"

definition pid_of :: "command_in \<Rightarrow> int" where
  "pid_of x = mw_pid (snd (snd x))"

lemma execute_all_keeps:
  "machine_inv g m \<Longrightarrow> list_all (\<lambda>(n, c, w). tidy_command c) cs \<Longrightarrow> fresh_pids (map pid_of cs) m \<Longrightarrow> execute_all g cs m = (m', es) \<Longrightarrow>
   machine_inv g m' \<and> (\<forall>i. i \<notin> wanted g m \<and> list_all (\<lambda>(n, c, w). \<not> starts c i) cs \<longrightarrow> i \<notin> wanted g m')"
proof (induction cs arbitrary: m es)
  case (Cons x cs)
  obtain n c w where x: "x = (n, c, w)" by (cases x) auto
  obtain m1 a where e: "execute g w c m = (m1, a)" by force
  obtain m2 es2 where r: "execute_all g cs m1 = (m2, es2)" by force
  have m2: "m2 = m'" using Cons.prems(4) by (simp add: x e r)
  have k: "machine_inv g m1 \<and> keeps_fresh {mw_pid w} m m1 \<and> (\<forall>i. i \<notin> wanted g m \<and> \<not> starts c i \<longrightarrow> i \<notin> wanted g m1)"
    using Cons.prems by (intro execute_keeps [OF _ _ _ e]) (auto simp: x fresh_pids_def pid_of_def)
  have "fresh_pids (map pid_of cs) m1"
  proof -
    have "pid_of y \<noteq> mw_pid w \<and> fresh_pid (pid_of y) m" if "y \<in> set cs" for y
    proof -
      have "pid_of x = mw_pid w" by (simp add: x pid_of_def)
      then have "mw_pid w \<notin> pid_of ` set cs" "fresh_pid (pid_of y) m" using Cons.prems(3) that by (simp_all add: fresh_pids_def list_all_iff)
      then show ?thesis using that by (metis imageI)
    qed
    then show ?thesis using Cons.prems(3) k by (auto simp: fresh_pids_def keeps_fresh_def list_all_iff)
  qed
  then show ?case using Cons.IH [of m1 es2] Cons.prems(2) k r m2 by (auto simp: x)
qed simp

section \<open>Every event keeps the invariant\<close>

definition same_wants :: "machine_config \<Rightarrow> machine \<Rightarrow> machine \<Rightarrow> bool" where
  "same_wants g m m' \<longleftrightarrow> machine_inv g m' \<and> (\<forall>j. read_file m' (spawn_path g j) = read_file m (spawn_path g j))"

lemma same_wants_wanted: "same_wants g m m' \<Longrightarrow> wanted g m' = wanted g m"
  by (simp add: same_wants_def wanted_def)

lemma side_same: "machine_inv g m \<Longrightarrow> side_change m m' \<Longrightarrow> same_wants g m m'"
  using side_inv by (auto simp: same_wants_def side_change_def)

lemma map_of_keyed: "map_of (map (\<lambda>(i, e). (i, f i e)) xs) j = map_option (f j) (map_of xs j)"
  by (induction xs) auto

lemma chunks_same:
  assumes "machine_inv g m" "collectLogChunks g m = (m', es)"
  shows "same_wants g m m'"
proof -
  obtain f where m: "m' = m\<lparr>mc_nodes := map (\<lambda>(i, e). (i, f i e)) (mc_nodes m)\<rparr>" and f: "\<And>i e. ne_pid (f i e) = ne_pid e"
    using assms(2) by (auto simp: collectLogChunks_def Let_def intro!: that [of "\<lambda>i e. if length (text_at m (log_path g i)) \<le> ne_logOffset e then e
      else e\<lparr>ne_logOffset := length (text_at m (log_path g i))\<rparr>"])
  have r: "read_file m' a = read_file m a" for a by (simp add: m read_file_def)
  have b: "remembered m' i q = remembered m i q" for i q by (auto simp: m remembered_def entry_of_def map_of_keyed f)
  have v: "wanted g m' = wanted g m" "recorded g m' i q = recorded g m i q" "mc_procs m' = mc_procs m" for i q
    by (simp_all add: wanted_def recorded_def r) (simp add: m)
  have "machine_inv g m'" using assms(1) unfolding machine_inv_def payloads_tidy_def processes_known_def pids_apart_def v r b .
  then show ?thesis by (simp add: same_wants_def r)
qed

lemma side_register: "registerOnce g reg m = (m', ok) \<Longrightarrow> side_change m m'"
proof -
  have l: "side_change m (loadIdentity g m)" by (auto simp: loadIdentity_def split: option.split content.split intro!: side_ids)
  have s: "side_change (loadIdentity g m) (saveIdentity g (loadIdentity g m\<lparr>mc_agentId := a, mc_agentToken := b\<rparr>))" for a b
    by (rule side_trans [OF _ side_identity]) (rule side_ids; simp)
  show "registerOnce g reg m = (m', ok) \<Longrightarrow> side_change m m'"
    using l side_trans [OF l s] by (auto simp: registerOnce_def Let_def split: if_splits register_answer.splits)
qed

lemma side_memory [simp]: "side_change m (leave m)" "side_change m (back_off m)" "side_change m (m\<lparr>mc_retry := n\<rparr>)"
  "side_change m (m\<lparr>mc_versionReportedAt := v, mc_lastMetricsAt := t\<rparr>)"
  by (rule side_ids; simp add: leave_def back_off_def)+

lemma side_drop: "side_change m (drop_identity g m)"
proof -
  have "side_change m (m\<lparr>mc_agentId := None, mc_agentToken := None\<rparr>)" by (rule side_ids) simp_all
  then show ?thesis unfolding drop_identity_def by (rule side_trans) (rule side_write; simp)
qed

lemma loop_keeps:
  assumes "machine_inv g m" "list_all (\<lambda>(n, c, w). tidy_command c) cs" "fresh_pids (map pid_of cs) m" "loop_events g cs now metrics m = (m', es)"
  shows "machine_inv g m' \<and> (\<forall>i. i \<notin> wanted g m \<and> list_all (\<lambda>(n, c, w). \<not> starts c i) cs \<longrightarrow> i \<notin> wanted g m')"
proof -
  obtain m1 e1 where a: "execute_all g cs m = (m1, e1)" by force
  obtain m2 e2 where b: "collectLogChunks g m1 = (m2, e2)" by force
  obtain m3 e3 where c: "heartbeat g now metrics m2 = (m3, e3)" by force
  note k = execute_all_keeps [OF assms(1-3) a]
  then have s: "same_wants g m1 m2" using chunks_same [OF _ b] by blast
  have "side_change m2 m3" using c by (auto simp: heartbeat_def Let_def)
  moreover have "machine_inv g m2" using s by (simp add: same_wants_def)
  ultimately have t: "same_wants g m2 m3" by (intro side_same)
  then have "machine_inv g m3" by (simp add: same_wants_def)
  moreover have "wanted g m3 = wanted g m1" using same_wants_wanted [OF s] same_wants_wanted [OF t] by simp
  moreover have "m3 = m'" using assms(4) a b c by (simp add: loop_events_def)
  ultimately show ?thesis using k by auto
qed

lemma safe_no_slash: "isSafeNodeId i \<Longrightarrow> CHR ''/'' \<notin> set i"
  by (auto simp: isSafeNodeId_def list_all_iff safe_char_def Let_def)

lemma wanted_listed:
  assumes "i \<in> wanted g m"
  shows "i \<in> set (listNodeIds g m)"
proof -
  have s: "isSafeNodeId i" and "read_file m (spawn_path g i) \<noteq> None" using assms by (simp_all add: wanted_def)
  then obtain c where c: "(spawn_path g i, c) \<in> set (mc_disk m)" by (auto simp: read_file_def dest: map_of_SomeD)
  have sp: "spawn_path g i = (mg_dir g @ ''/nodes'') @ ''/'' @ (i @ ''/spawn.json'')" by (simp add: spawn_path_def nodeHome_def)
  have "first_part (i @ CHR ''/'' # r) = i" for r
  proof -
    have "takeWhile (\<lambda>c. c \<noteq> CHR ''/'') (i @ CHR ''/'' # r) = i @ takeWhile (\<lambda>c. c \<noteq> CHR ''/'') (CHR ''/'' # r)"
      by (rule takeWhile_append2) (use safe_no_slash [OF s] in metis)
    then show ?thesis by (simp add: first_part_def)
  qed
  then have f: "first_part (i @ ''/spawn.json'') = i" by simp
  have "i \<in> set (list_dir m (mg_dir g @ ''/nodes''))"
    unfolding list_dir_def set_remdups set_map set_filter
  proof (rule image_eqI [where x = "(spawn_path g i, c)"])
    have "drop (length (mg_dir g @ ''/nodes'') + 1) (spawn_path g i) = i @ ''/spawn.json''" unfolding sp by simp
    then show "i = first_part (drop (length (mg_dir g @ ''/nodes'') + 1) (fst (spawn_path g i, c)))" using f by simp
    show "(spawn_path g i, c) \<in> {x \<in> set (mc_disk m). is_prefix ((mg_dir g @ ''/nodes'') @ ''/'') (fst x)}"
      using c unfolding sp fst_conv is_prefix_iff by simp
  qed
  then show ?thesis using s by (simp add: listNodeIds_def)
qed

lemma listed_distinct: "distinct (listNodeIds g m)"
proof -
  have "distinct (js_sort locale_compare xs) = distinct xs" for xs using distinct_js_sort [of "\<lambda>x. x" locale_compare xs] by simp
  then show ?thesis unfolding listNodeIds_def list_dir_def by (simp only: distinct_filter distinct_remdups)
qed

section \<open>Recovery\<close>

definition runs_node :: "machine \<Rightarrow> id \<Rightarrow> bool" where
  "runs_node m i \<longleftrightarrow> (\<exists>r\<in>set (mc_procs m). pr_node r = Some i)"

lemma resume_keeps:
  assumes inv: "machine_inv g m" and fresh: "fresh_pid (mw_pid (ws i)) m" and safe: "isSafeNodeId i"
  shows "same_wants g m (resume_node g ws i m)" "keeps_fresh {mw_pid (ws i)} m (resume_node g ws i m)"
    "runs_node m j \<Longrightarrow> runs_node (resume_node g ws i m) j" "i \<in> wanted g m \<Longrightarrow> no_errors (ws i) \<Longrightarrow> runs_node (resume_node g ws i m) i"
proof -
  let ?m = "resume_node g ws i m"
  have *: "same_wants g m ?m \<and> keeps_fresh {mw_pid (ws i)} m ?m \<and> (runs_node m j \<longrightarrow> runs_node ?m j) \<and>
     (i \<in> wanted g m \<and> no_errors (ws i) \<longrightarrow> runs_node ?m i)"
  proof (cases "\<exists>p. read_file m (spawn_path g i) = Some (Payload p) \<and> pl_nodeId p = i")
    case True
    then obtain p where p: "read_file m (spawn_path g i) = Some (Payload p)" "pl_nodeId p = i" by blast
    have t: "tidy p" using inv p safe by (auto simp: machine_inv_def payloads_tidy_def)
    have w: "pl_nodeId p \<in> wanted g m" using p safe by (simp add: wanted_def)
    obtain m' a where d: "dispatchSpawn g (ws i) p m = (m', a)" by force
    have m': "?m = m'" using p d by (simp add: resume_node_def)
    note k = dispatch_keeps [OF inv t w fresh d]
    show ?thesis unfolding m' using k p(2) by (auto simp: same_wants_def keeps_fresh_def runs_node_def)
  next
    case False
    have "i \<notin> wanted g m"
    proof
      assume "i \<in> wanted g m"
      then obtain c where c: "read_file m (spawn_path g i) = Some c" by (auto simp: wanted_def)
      then obtain p where "c = Payload p" "pl_nodeId p = i" using inv safe unfolding machine_inv_def payloads_tidy_def by blast
      then show False using False c by blast
    qed
    moreover have "same_wants g m ?m \<and> keeps_fresh {mw_pid (ws i)} m ?m \<and> (runs_node m j \<longrightarrow> runs_node ?m j)" if "?m = m"
      using that inv by (simp add: same_wants_def keeps_fresh_def)
    moreover have "?m = m" using False by (auto simp: resume_node_def split: option.split content.split)
    ultimately show ?thesis by blast
  qed
  then show "same_wants g m ?m" "keeps_fresh {mw_pid (ws i)} m ?m" "runs_node m j \<Longrightarrow> runs_node ?m j"
    "i \<in> wanted g m \<Longrightarrow> no_errors (ws i) \<Longrightarrow> runs_node ?m i" by blast+
qed

lemma resume_all_keeps:
  "machine_inv g m \<Longrightarrow> fresh_pids (map (\<lambda>i. mw_pid (ws i)) is) m \<Longrightarrow> list_all isSafeNodeId is \<Longrightarrow>
   same_wants g m (fold (resume_node g ws) is m) \<and> (\<forall>j. runs_node m j \<longrightarrow> runs_node (fold (resume_node g ws) is m) j) \<and>
   (\<forall>i\<in>set is. i \<in> wanted g m \<and> no_errors (ws i) \<longrightarrow> runs_node (fold (resume_node g ws) is m) i)"
proof (induction "is" arbitrary: m)
  case (Cons i "is")
  let ?m = "resume_node g ws i m"
  have k: "same_wants g m ?m" "keeps_fresh {mw_pid (ws i)} m ?m" "\<And>j. runs_node m j \<Longrightarrow> runs_node ?m j"
    "i \<in> wanted g m \<Longrightarrow> no_errors (ws i) \<Longrightarrow> runs_node ?m i"
    using resume_keeps [OF Cons.prems(1), of ws i] Cons.prems(2,3) by (auto simp: fresh_pids_def)
  have "fresh_pids (map (\<lambda>i. mw_pid (ws i)) is) ?m"
  proof -
    have "mw_pid (ws j) \<noteq> mw_pid (ws i) \<and> fresh_pid (mw_pid (ws j)) m" if "j \<in> set is" for j
      using Cons.prems(2) that by (auto simp: fresh_pids_def list_all_iff) (metis imageI)
    then show ?thesis using Cons.prems(2) k(2) by (auto simp: fresh_pids_def keeps_fresh_def list_all_iff)
  qed
  then have r: "same_wants g ?m (fold (resume_node g ws) is ?m) \<and> (\<forall>j. runs_node ?m j \<longrightarrow> runs_node (fold (resume_node g ws) is ?m) j) \<and>
   (\<forall>i\<in>set is. i \<in> wanted g ?m \<and> no_errors (ws i) \<longrightarrow> runs_node (fold (resume_node g ws) is ?m) i)"
    using Cons.IH [of ?m] Cons.prems(3) k(1) by (simp add: same_wants_def)
  show ?case using r k same_wants_wanted [OF k(1)] by (auto simp: same_wants_def)
qed (simp add: same_wants_def)

definition agent_start_ok :: "machine_config \<Rightarrow> (id \<Rightarrow> machine_world) \<Rightarrow> machine \<Rightarrow> bool" where
  "agent_start_ok g ws m \<longleftrightarrow> fresh_pids (map (\<lambda>i. mw_pid (ws i)) (listNodeIds g m)) m"

lemma memory_keeps:
  assumes "machine_inv g m"
  shows "same_wants g m (forget_memory m)" "listNodeIds g (forget_memory m) = listNodeIds g m" "fresh_pid q (forget_memory m) = fresh_pid q m"
    "mc_procs (forget_memory m) = mc_procs m"
proof -
  have r: "read_file (forget_memory m) a = read_file m a" for a by (simp add: forget_memory_def read_file_def)
  have b: "\<not> remembered (forget_memory m) i k" for i k by (simp add: forget_memory_def remembered_def entry_of_def)
  show p: "mc_procs (forget_memory m) = mc_procs m" by (simp add: forget_memory_def)
  have v: "wanted g (forget_memory m) = wanted g m" "recorded g (forget_memory m) i k = recorded g m i k" for i k by (simp_all add: wanted_def recorded_def r)
  have "machine_inv g (forget_memory m)" using assms unfolding machine_inv_def payloads_tidy_def processes_known_def pids_apart_def v r p by (simp add: b)
  then show "same_wants g m (forget_memory m)" by (simp add: same_wants_def r)
  show "listNodeIds g (forget_memory m) = listNodeIds g m" by (simp add: forget_memory_def listNodeIds_def list_dir_def)
  show "fresh_pid q (forget_memory m) = fresh_pid q m" by (simp add: fresh_pid_def alive_def no_pid_def forget_memory_def)
qed

lemma run_agent_keeps:
  assumes inv: "machine_inv g m" and ok: "agent_start_ok g ws m"
  shows "same_wants g m (run_agent g ws reg m)" "i \<in> wanted g m \<Longrightarrow> no_errors (ws i) \<Longrightarrow> runs_node (run_agent g ws reg m) i"
proof -
  let ?a = "forget_memory m" and ?b = "resumeNodes g ws (forget_memory m)"
  note f = memory_keeps [OF inv]
  have "fresh_pids (map (\<lambda>i. mw_pid (ws i)) (listNodeIds g ?a)) ?a" using ok by (simp add: agent_start_ok_def f fresh_pids_def)
  moreover have "list_all isSafeNodeId (listNodeIds g ?a)" by (auto simp: listNodeIds_def list_all_iff)
  moreover have "machine_inv g ?a" using f(1) by (simp add: same_wants_def)
  ultimately have r: "same_wants g ?a ?b \<and> (\<forall>i\<in>set (listNodeIds g ?a). i \<in> wanted g ?a \<and> no_errors (ws i) \<longrightarrow> runs_node ?b i)"
    using resume_all_keeps [of g ?a ws "listNodeIds g ?a"] by (simp add: resumeNodes_def)
  obtain c k where c: "registerOnce g reg ?b = (c, k)" by force
  have s: "side_change ?b (run_agent g ws reg m)" using side_register [OF c] side_trans [OF side_register [OF c] side_memory(1)] c by (simp add: run_agent_def)
  have "machine_inv g ?b" using r by (simp add: same_wants_def)
  then have t: "same_wants g ?b (run_agent g ws reg m)" using s by (rule side_same)
  show "same_wants g m (run_agent g ws reg m)" using f(1) r t by (auto simp: same_wants_def)
  assume "i \<in> wanted g m" "no_errors (ws i)"
  then have "runs_node ?b i" using r wanted_listed [of i g ?a] same_wants_wanted [OF f(1)] by auto
  then show "runs_node (run_agent g ws reg m) i" using s by (simp add: runs_node_def side_change_def)
qed

end
