(* ===== verification/Spec2Isabelle.thy ===== *)
theory Spec2Isabelle
  imports Database Dispatch AgentsPlan ChatTurns ChatStore ApiKeys PublicApi Usage Scheduler Supervisor AgentChannel Runner Reconcile Transcript ChatLive Upstream Mux Auth Schema Config ConfigEdit Patterns NoteData Writer Brain Watchdog Setup Provision MachineAgent
begin

text \<open>
  The manager of hellodac: a server that runs conversational agents on nodes, sells them through an outward API, and shows them to
  a back office.  This library models the server (\<^verbatim>\<open>src/src\<close> in TypeScript) and the pure parts of its chat page
  (\<^verbatim>\<open>src/public/assets\<close>), and proves what each part promises.  Paths below are relative to
  \<^verbatim>\<open>src/src\<close> unless they begin with \<^verbatim>\<open>public\<close>.

  \<^bold>\<open>How the parts work together.\<close>  A message of the back office or of an outward key becomes a turn of a chat.  The outward API
  (PublicApi over ApiKeys, Usage, ChatStore and Dispatch) authenticates the call, admits it and picks an agent; the turn registry
  (ChatTurns) starts turns or queues them; the turn runner (Runner) drives one turn against the node, accounts for it (Usage) and
  writes the run rows (Database).  Frames travel from the node through the translation (Upstream) and the card registry (ChatLive)
  to the page (Transcript).  The scheduler (Scheduler) starts turns by the clock.  Agents are placed on machines (Placement,
  AgentsPlan), their nodes are supervised (Supervisor) or run on remote machines reached by a command queue (AgentChannel), and
  the registry and the runs are brought back in line with the configuration at boot and every ten minutes (Reconcile).

  \<^bold>\<open>Where each part is modelled.\<close>
  \<^item> Prelude: numbers, strings, the stable sort, row updates; the locales \<open>comparator\<close> (a comparison that orders) and
    \<open>invariant_system\<close> (steps that keep an invariant), both interpreted by the components that provide them.
  \<^item> Database: \<^verbatim>\<open>db/schema.ts\<close>, \<^verbatim>\<open>db/index.ts\<close>, \<^verbatim>\<open>audit.ts\<close>, \<^verbatim>\<open>notify.ts\<close>; a table is the list of its
    rows in insertion order, a cascade is a function on the state, a violated constraint is None.
  \<^item> Dispatch, Placement, AgentsPlan: \<^verbatim>\<open>services/dispatch.ts\<close>, \<^verbatim>\<open>placement.ts\<close>, \<^verbatim>\<open>agents-plan.ts\<close>; pure planning functions.
    AgentsPlan uses placement through the locale \<open>placer\<close>.
  \<^item> ChatStore, ChatTurns: \<^verbatim>\<open>chat/store.ts\<close>, \<^verbatim>\<open>public-api/idle-sweep.ts\<close>; \<^verbatim>\<open>chat/queue.ts\<close>, \<^verbatim>\<open>chat/turn-runner.ts\<close> and the handlers
    of \<^verbatim>\<open>routes/chat.ts\<close> that start, queue, stop and archive.
  \<^item> ApiKeys, PublicApi: \<^verbatim>\<open>auth/api-key.ts\<close>; \<^verbatim>\<open>public-api/\<close> (quota, conversations, service load, routes).
  \<^item> Usage: \<^verbatim>\<open>frames.ts\<close>, \<^verbatim>\<open>pricing.ts\<close>, \<^verbatim>\<open>usage/store.ts\<close>, \<^verbatim>\<open>cli/backfill-cost.ts\<close>; money in rationals rounded as the code rounds.
  \<^item> Scheduler: \<^verbatim>\<open>cron/schedule.ts\<close>.  Supervisor: \<^verbatim>\<open>nodes/supervisor.ts\<close>.  AgentChannel: \<^verbatim>\<open>routes/agents.ts\<close>.
  \<^item> Runner: \<^verbatim>\<open>runner.ts\<close>, \<^verbatim>\<open>runner/turn.ts\<close>.  Reconcile: \<^verbatim>\<open>reconcile/index.ts\<close>.
  \<^item> Upstream: \<^verbatim>\<open>upstream/translate.ts\<close>.  ChatLive: the registries of \<^verbatim>\<open>routes/chat.ts\<close> and \<^verbatim>\<open>chat/history-cache.ts\<close>.
  \<^item> Transcript: \<^verbatim>\<open>chat/replay.ts\<close>, and of the page \<^verbatim>\<open>chat-reducer.js\<close>, \<^verbatim>\<open>chat-state.js\<close>, \<^verbatim>\<open>chat-wire.js\<close>.
  \<^item> Mux: \<^verbatim>\<open>upstream/mux.ts\<close>.  Auth: \<^verbatim>\<open>auth/session.ts\<close>, \<^verbatim>\<open>auth/hooks.ts\<close>, \<^verbatim>\<open>auth/password.ts\<close>, \<^verbatim>\<open>routes/auth.ts\<close>.
  \<^item> Schema, Config: \<^verbatim>\<open>config.ts\<close>, \<^verbatim>\<open>config/migrations.ts\<close>, \<^verbatim>\<open>env.ts\<close>, \<^verbatim>\<open>dsh-matrix.ts\<close>; a parsed file is a \<open>yaml\<close> value,
    a schema a function from an optional value to an optional record, a boot that fails an Inl of \<open>config_error\<close>.
  \<^item> ConfigEdit: \<^verbatim>\<open>services/config-edit.ts\<close>, \<^verbatim>\<open>config-store.ts\<close>; the YAML package is the parameter \<open>platform\<close>, what the editor
    needs of it is \<open>yaml_laws\<close>.
  \<^item> Patterns: the regular expressions the data rules use, with a matcher by derivatives.  NoteData: \<^verbatim>\<open>workspace/notedata.ts\<close>, the
    data an agent keeps in the front matter of its notes.  Writer: \<^verbatim>\<open>workspace/writer.ts\<close>, the paths and the batches an agent may write.
  \<^item> Brain: \<^verbatim>\<open>approval.ts\<close>, \<^verbatim>\<open>routes/internal.ts\<close>, \<^verbatim>\<open>routes/approval.ts\<close>; the door through which the brain starts turns of other
    agents, its budget, and the approvals a person decides.
  \<^item> Watchdog: \<^verbatim>\<open>fleet/watchdog.ts\<close>.  Setup: \<^verbatim>\<open>cli/setup.ts\<close>, the part that plans and writes.
  \<^item> Provision: \<^verbatim>\<open>routes/provision.ts\<close>; a step of the pipeline that may throw is a \<open>prov_step\<close>, a run is given the steps that fail.

  \<^bold>\<open>How state and operations correspond.\<close>  A module-level map or the fields of a class are a record; a handler is one definition
  with the guards of the code in their order, returning the new state and the reply.  An exception is None or an Inl.  Code that
  awaits is cut at its awaits: the state records where it waits (Runner, Supervisor, Scheduler, ChatTurns), and an event is one
  task of the event loop with everything it runs before the next await, so every interleaving of the code is a sequence of events.
  Clocks, fresh identifiers, digests, the answers of nodes, docker, git and of the package croner are arguments of the events.

  \<^bold>\<open>What the lemmas show.\<close>  Planning: optimality, capacity, completeness and stability of plans.  State machines: an invariant kept by
  every event, then what follows for every reachable state (serial turns, one process per node, commands delivered once, a turn
  accounted for once, no turn that waits for ever).  Storage: uniqueness of live conversations, exactness of sweeps, finality of
  revocation, the registry as a mirror of the configuration, the card registry as an implementation of a map, the cache as a
  bounded part of what was stored, the event connections as an implementation of a set of subscriptions.  Access: no session without
  a password, none of the old ones after a change of it.  Configuration: a file that loads keeps agents apart, migration does not
  change what is loaded, an edit that changes nothing writes the same service, and no edit leaves a file that does not boot.
  Deployment: the first setup writes a file that loads, a re-run keeps the lines of a hand, a failed provisioning restores what was
  there, memory and file stay in step, and what a hot change holds is what a restart would load.  Workspaces: no accepted path leaves
  the workspace, a batch is written whole or not at all, data reaches its owners only.  The brain: one prompt at a time, none over the
  budget, nothing approved without a decision.  Numbers: breakdowns that add up, backfills that fill gaps only.  Page and server: the compaction
  of a history draws what the history draws, and the cards shown after a reconnect are the open ones.  Where the code does not do
  what its comments say, a theorem states what it does.

  \<^bold>\<open>Bounds and fuel.\<close>  No definition takes fuel.  Loops are structural recursions, folds, or functions with a measure: the retry
  loop of key minting runs over the list of its random draws, placement rounds over the number of agents wanted, the removal loops
  over the rows present.  Integers are unbounded; the code's numbers are exact below \<open>2 ^ 53\<close>, far above every count, token sum
  and epoch millisecond it handles.

  \<^bold>\<open>Not modelled.\<close>  Input and output itself: HTTP, sockets, files, git, docker, child processes, the HTML of the pages, the
  dialogues of the command line; the YAML syntax; the schemas of board files; scripts of the release process.  These parts move data that the modelled
  ones decide about, and most of their lines are calls of libraries.  In the modelled parts the log lines and the
  wording of error texts are left out.  Keys of a file that look like integers or like members of every object (which a JavaScript
  object orders first, or has already) are treated as ordinary keys.
\<close>

end
